(* ===== verification/Prelude.thy ===== *)
theory Prelude
  imports Main "HOL-Library.Char_ord" "HOL-Library.List_Lexorder" "HOL-Library.Product_Lexorder"
    "HOL-Library.AList" "HOL-Library.Multiset"
begin

text \<open>
  The prelude: what every component of the development shares.

  \<^item> Go strings. A Go string is a sequence of bytes, here a \<^typ>\<open>string\<close>; \<open>strings.TrimSpace\<close>
    works on the UTF-8 encodings of the Unicode white space code points, and \<open>trim_space\<close> does so on
    the bytes. Comparison of strings (\<open>sort.Strings\<close>, \<open><\<close>) is bytewise and lexicographic.
  \<^item> Go errors. \<open>goerr\<close> has one constructor per way the code makes an error: \<open>errors.New\<close> or
    \<open>fmt.Errorf\<close> without a wrapped error, \<open>fmt.Errorf\<close> with \<open>%w\<close>, and \<open>errors.Join\<close>. An error result
    is a \<^typ>\<open>'a option\<close> (nil is \<^const>\<open>None\<close>); \<open>(v, err)\<close> results are sums, with \<^const>\<open>Inl\<close> the error.
  \<^item> Go maps as association lists with distinct keys, so that loops over them compute.
  \<^item> Time: an instant is its distance in nanoseconds from Go's zero time (so \<open>IsZero\<close> is equality
    with 0), a duration is a number of nanoseconds.

  Counters and lengths of the code (Go \<open>int\<close>) are unbounded \<^typ>\<open>int\<close> or \<^typ>\<open>nat\<close> values; where the
  code converts a floating point number to a 64-bit integer the width is written out (Float64).
\<close>

section \<open>Collections of facts\<close>

named_theorems wf_intros \<open>preservation of well-formedness by an operation\<close>

section \<open>Generic lemmas on lists\<close>

lemma find_None_all: "find P xs = None \<longleftrightarrow> (\<forall>x \<in> set xs. \<not> P x)"
  by (auto simp: find_None_iff)

lemma find_Some_mem: "find P xs = Some x \<Longrightarrow> x \<in> set xs \<and> P x"
  by (auto simp: find_Some_iff)

lemma sorted_distinct_ex1:
  fixes xs ys :: "'a::linorder list"
  assumes "sorted xs" "sorted ys" "distinct xs" "distinct ys" "set xs = set ys"
  shows "xs = ys"
  by (rule sorted_distinct_set_unique [OF assms(1,3,2,4,5)])

lemma map_of_Some_key: "map_of m k = Some v \<Longrightarrow> k \<in> fst ` set m"
  by (force dest: map_of_SomeD)

lemma distinct_map_of_mem:
  "distinct (map fst m) \<Longrightarrow> (k, v) \<in> set m \<longleftrightarrow> map_of m k = Some v"
  using map_of_eq_Some_iff by metis

lemma mset_concat_map_cong: "mset xs = mset ys \<Longrightarrow> mset (concat (map f xs)) = mset (concat (map f ys))"
proof -
  have "mset (concat (map f zs)) = sum_mset (image_mset (\<lambda>z. mset (f z)) (mset zs))" for zs
    by (induction zs) auto
  then show "mset xs = mset ys \<Longrightarrow> mset (concat (map f xs)) = mset (concat (map f ys))" by simp
qed

lemma trancl_step: "(x, y) \<in> E\<^sup>+ \<longleftrightarrow> (\<exists>z. (x, z) \<in> E \<and> (y = z \<or> (z, y) \<in> E\<^sup>+))"
  by (metis r_into_trancl rtranclD tranclD trancl_into_trancl2)

section \<open>Go strings\<close>

text \<open>The UTF-8 encodings of the code points for which \<open>unicode.IsSpace\<close> holds.\<close>

definition ws_encodings :: "string list" where
  "ws_encodings =
     [[CHR 0x09], [CHR 0x0A], [CHR 0x0B], [CHR 0x0C], [CHR 0x0D], [CHR 0x20],
      [CHR 0xC2, CHR 0x85], [CHR 0xC2, CHR 0xA0], [CHR 0xE1, CHR 0x9A, CHR 0x80],
      [CHR 0xE2, CHR 0x80, CHR 0x80], [CHR 0xE2, CHR 0x80, CHR 0x81], [CHR 0xE2, CHR 0x80, CHR 0x82],
      [CHR 0xE2, CHR 0x80, CHR 0x83], [CHR 0xE2, CHR 0x80, CHR 0x84], [CHR 0xE2, CHR 0x80, CHR 0x85],
      [CHR 0xE2, CHR 0x80, CHR 0x86], [CHR 0xE2, CHR 0x80, CHR 0x87], [CHR 0xE2, CHR 0x80, CHR 0x88],
      [CHR 0xE2, CHR 0x80, CHR 0x89], [CHR 0xE2, CHR 0x80, CHR 0x8A], [CHR 0xE2, CHR 0x80, CHR 0xA8],
      [CHR 0xE2, CHR 0x80, CHR 0xA9], [CHR 0xE2, CHR 0x80, CHR 0xAF], [CHR 0xE2, CHR 0x81, CHR 0x9F],
      [CHR 0xE3, CHR 0x80, CHR 0x80]]"

definition ws_prefix :: "string \<Rightarrow> nat" where
  "ws_prefix s = (case find (\<lambda>w. take (length w) s = w) ws_encodings of None \<Rightarrow> 0 | Some w \<Rightarrow> length w)"

definition ws_suffix :: "string \<Rightarrow> nat" where
  "ws_suffix s =
     (case find (\<lambda>w. length w \<le> length s \<and> drop (length s - length w) s = w) ws_encodings of
        None \<Rightarrow> 0 | Some w \<Rightarrow> length w)"

lemma ws_encodings_nonempty: "w \<in> set ws_encodings \<Longrightarrow> w \<noteq> []"
  by (auto simp: ws_encodings_def)

lemma ws_prefix_le: "ws_prefix s \<le> length s"
proof (cases "find (\<lambda>w. take (length w) s = w) ws_encodings")
  case (Some w)
  then have "take (length w) s = w" by (auto dest: find_Some_mem)
  then have "length w \<le> length s" by (metis length_take min.cobounded1)
  with Some show ?thesis by (simp add: ws_prefix_def)
qed (simp add: ws_prefix_def)

lemma ws_suffix_le: "ws_suffix s \<le> length s"
  by (auto simp: ws_suffix_def dest: find_Some_mem split: option.split)

function trim_left :: "string \<Rightarrow> string" where
  "trim_left s = (if ws_prefix s = 0 then s else trim_left (drop (ws_prefix s) s))"
  by pat_completeness auto
termination
proof (relation "measure length")
  fix s :: string
  assume "ws_prefix s \<noteq> 0"
  with ws_prefix_le [of s] show "(drop (ws_prefix s) s, s) \<in> measure length" by auto
qed simp

function trim_right :: "string \<Rightarrow> string" where
  "trim_right s = (if ws_suffix s = 0 then s else trim_right (take (length s - ws_suffix s) s))"
  by pat_completeness auto
termination
proof (relation "measure length")
  fix s :: string
  assume "ws_suffix s \<noteq> 0"
  with ws_suffix_le [of s] show "(take (length s - ws_suffix s) s, s) \<in> measure length" by auto
qed simp

declare trim_left.simps [simp del] trim_right.simps [simp del]

text \<open>\<open>strings.TrimSpace\<close>.\<close>

definition trim_space :: "string \<Rightarrow> string" where
  "trim_space s = trim_right (trim_left s)"

lemma ws_prefix_trim_left: "ws_prefix (trim_left s) = 0"
proof (induction s rule: trim_left.induct)
  case (1 s)
  then show ?case by (cases "ws_prefix s = 0") (simp_all add: trim_left.simps [of s])
qed

lemma ws_suffix_trim_right: "ws_suffix (trim_right s) = 0"
proof (induction s rule: trim_right.induct)
  case (1 s)
  then show ?case by (cases "ws_suffix s = 0") (simp_all add: trim_right.simps [of s])
qed

lemma trim_right_take: "\<exists>n. trim_right s = take n s"
proof (induction s rule: trim_right.induct)
  case (1 s)
  show ?case
  proof (cases "ws_suffix s = 0")
    case True
    then show ?thesis by (metis trim_right.simps take_all order_refl)
  next
    case False
    with 1 obtain n where "trim_right s = take n (take (length s - ws_suffix s) s)"
      by (auto simp: trim_right.simps [of s])
    then show ?thesis by (auto simp: take_take)
  qed
qed

lemma ws_prefix_zero_iff: "ws_prefix s = 0 \<longleftrightarrow> (\<forall>w \<in> set ws_encodings. take (length w) s \<noteq> w)"
  unfolding ws_prefix_def
  by (auto split: option.splits simp: find_None_all dest: find_Some_mem ws_encodings_nonempty)

lemma ws_prefix_take: "ws_prefix s = 0 \<Longrightarrow> ws_prefix (take n s) = 0"
proof -
  assume s: "ws_prefix s = 0"
  have "take (length w) (take n s) \<noteq> w" if w: "w \<in> set ws_encodings" for w
  proof
    assume eq: "take (length w) (take n s) = w"
    then have "take (min (length w) n) s = w" by (simp add: take_take)
    moreover have "min (length w) n = length w"
      using eq by (metis length_take min.cobounded1 min.absorb1 min.left_idem min.commute take_take)
    ultimately show False using s w by (simp add: ws_prefix_zero_iff)
  qed
  then show ?thesis by (simp add: ws_prefix_zero_iff)
qed

lemma trim_space_ends: "ws_prefix (trim_space s) = 0 \<and> ws_suffix (trim_space s) = 0"
  by (metis trim_space_def trim_right_take ws_prefix_take ws_prefix_trim_left ws_suffix_trim_right)

lemma trim_space_fixed: "ws_prefix s = 0 \<Longrightarrow> ws_suffix s = 0 \<Longrightarrow> trim_space s = s"
  by (simp add: trim_space_def trim_left.simps [of s] trim_right.simps [of s])

lemma trim_space_idem [simp]: "trim_space (trim_space s) = trim_space s"
  by (simp add: trim_space_fixed trim_space_ends)

lemma length_trim_left: "length (trim_left s) \<le> length s"
proof (induction s rule: trim_left.induct)
  case (1 s)
  then show ?case by (cases "ws_prefix s = 0") (auto simp: trim_left.simps [of s])
qed

lemma length_trim_space: "length (trim_space s) \<le> length s"
proof -
  obtain n where "trim_space s = take n (trim_left s)"
    using trim_right_take unfolding trim_space_def by blast
  with length_trim_left [of s] show ?thesis by simp
qed

text \<open>A string whose first and last bytes begin and end no white space is left as it is.\<close>

definition plain_char :: "char \<Rightarrow> bool" where
  "plain_char c \<longleftrightarrow> CHR 0x21 \<le> c \<and> c \<le> CHR 0x7E"

lemma ws_first_not_plain: "w \<in> set ws_encodings \<Longrightarrow> \<not> plain_char (hd w)"
  unfolding ws_encodings_def plain_char_def by (auto simp: less_eq_char_def)

lemma ws_last_not_plain: "w \<in> set ws_encodings \<Longrightarrow> \<not> plain_char (last w)"
  unfolding ws_encodings_def plain_char_def by (auto simp: less_eq_char_def)

lemma ws_prefix_plain: "plain_char (hd s) \<Longrightarrow> ws_prefix s = 0"
  by (metis hd_take length_greater_0_conv ws_encodings_nonempty ws_first_not_plain ws_prefix_zero_iff)

lemma ws_suffix_plain: "plain_char (last s) \<Longrightarrow> ws_suffix s = 0"
proof -
  assume last: "plain_char (last s)"
  have "\<not> (length w \<le> length s \<and> drop (length s - length w) s = w)" if w: "w \<in> set ws_encodings" for w
  proof
    assume eq: "length w \<le> length s \<and> drop (length s - length w) s = w"
    with ws_encodings_nonempty [OF w] have "last w = last s"
      by (metis diff_less last_drop length_greater_0_conv order_less_le_trans)
    with last ws_last_not_plain [OF w] show False by simp
  qed
  then have "find (\<lambda>w. length w \<le> length s \<and> drop (length s - length w) s = w) ws_encodings = None"
    by (simp add: find_None_all)
  then show ?thesis by (simp add: ws_suffix_def)
qed

lemma trim_space_plain: "plain_char (hd s) \<Longrightarrow> plain_char (last s) \<Longrightarrow> trim_space s = s"
  by (simp add: trim_space_fixed ws_prefix_plain ws_suffix_plain)

lemma trim_space_Nil [simp]: "trim_space [] = []"
  using length_trim_space [of "[]"] by simp

section \<open>Go errors\<close>

text \<open>
  \<open>Err format args\<close> is an error made by \<open>errors.New\<close> or by \<open>fmt.Errorf\<close> with no wrapped error;
  \<open>Wrap format args e\<close> one made by \<open>fmt.Errorf\<close> with \<open>%w\<close> applied to \<open>e\<close>; \<open>Join es\<close> one made by
  \<open>errors.Join\<close>. Sentinel errors are compared by their text: the texts of the package-level
  sentinels are pairwise different.
\<close>

datatype goerr = Err string "string list" | Wrap string "string list" goerr | Join "goerr list"

type_synonym 'a result = "goerr + 'a"

text \<open>A call returns or panics; the argument of \<open>Panic\<close> says with what.\<close>

datatype ('p, 'a) outcome = Return 'a | Panic 'p

text \<open>\<open>errors.Is\<close> follows the chain of wrapped errors.\<close>

fun err_is :: "goerr \<Rightarrow> goerr \<Rightarrow> bool" where
  "err_is (Err m a) t = (Err m a = t)"
| "err_is (Wrap m a e) t = (Wrap m a e = t \<or> err_is e t)"
| "err_is (Join es) t = (Join es = t \<or> list_ex (\<lambda>e. err_is e t) es)"

lemma err_is_refl [simp]: "err_is e e"
  by (cases e) simp_all

text \<open>\<open>errors.Join\<close> drops nil errors and returns nil when nothing is left.\<close>

fun some_values :: "'a option list \<Rightarrow> 'a list" where
  "some_values [] = []"
| "some_values (None # xs) = some_values xs"
| "some_values (Some x # xs) = x # some_values xs"

definition err_join :: "goerr option list \<Rightarrow> goerr option" where
  "err_join es = (if some_values es = [] then None else Some (Join (some_values es)))"

lemma set_some_values: "set (some_values es) = {e. Some e \<in> set es}"
  by (induction es rule: some_values.induct) auto

lemma err_join_None_iff: "err_join es = None \<longleftrightarrow> (\<forall>e \<in> set es. e = None)"
  by (induction es rule: some_values.induct) (auto simp: err_join_def split: if_splits)

lemma err_join_is: "err_join es = Some e \<Longrightarrow> Some c \<in> set es \<Longrightarrow> err_is e c"
proof -
  assume e: "err_join es = Some e" and c: "Some c \<in> set es"
  from c have "c \<in> set (some_values es)" by (simp add: set_some_values)
  then have "list_ex (\<lambda>x. err_is x c) (some_values es)"
    unfolding list_ex_iff using err_is_refl by blast
  with e show ?thesis by (auto simp: err_join_def split: if_splits)
qed

section \<open>Normalisation loops\<close>

text \<open>
  The code has one loop shape for declarations: normalise a value or fail, refuse a key that was
  seen before, append. \<open>dedup_loop\<close> is that loop; the map \<open>seen\<close> of the code holds exactly the keys
  of the values appended so far.
\<close>

fun dedup_loop :: "('a \<Rightarrow> 'a result) \<Rightarrow> ('a \<Rightarrow> string) \<Rightarrow> (string \<Rightarrow> goerr) \<Rightarrow> 'a list \<Rightarrow> 'a list \<Rightarrow> 'a list result" where
  "dedup_loop norm key dup acc [] = Inr acc"
| "dedup_loop norm key dup acc (x # xs) =
     (case norm x of
        Inl e \<Rightarrow> Inl e
      | Inr y \<Rightarrow> if key y \<in> key ` set acc then Inl (dup (key y))
                else dedup_loop norm key dup (acc @ [y]) xs)"

lemma dedup_loop_distinct:
  "dedup_loop norm key dup acc xs = Inr ys \<Longrightarrow> distinct (map key acc) \<Longrightarrow> distinct (map key ys)"
  by (induction xs arbitrary: acc) (auto split: sum.splits if_splits)

lemma dedup_loop_normal:
  "dedup_loop norm key dup acc xs = Inr ys \<Longrightarrow> y \<in> set ys \<Longrightarrow> y \<in> set acc \<or> (\<exists>x \<in> set xs. norm x = Inr y)"
  by (induction xs arbitrary: acc) (fastforce split: sum.splits if_splits)+

lemma dedup_loop_covers:
  "dedup_loop norm key dup acc xs = Inr ys \<Longrightarrow>
     set acc \<subseteq> set ys \<and> (\<forall>x \<in> set xs. \<exists>y \<in> set ys. norm x = Inr y)"
proof (induction xs arbitrary: acc)
  case (Cons x xs)
  from Cons.prems obtain y where y: "norm x = Inr y"
    and rec: "dedup_loop norm key dup (acc @ [y]) xs = Inr ys"
    by (auto split: sum.splits if_splits)
  from Cons.IH [OF rec] y show ?case by auto
qed simp

lemma dedup_loop_fixed:
  assumes "\<forall>x \<in> set xs. norm x = Inr x" and "distinct (map key (acc @ xs))"
  shows "dedup_loop norm key dup acc xs = Inr (acc @ xs)"
  using assms by (induction xs arbitrary: acc) auto

corollary dedup_loop_fixed_Nil:
  "\<forall>x \<in> set xs. norm x = Inr x \<Longrightarrow> distinct (map key xs) \<Longrightarrow> dedup_loop norm key dup [] xs = Inr xs"
  using dedup_loop_fixed [of xs norm key "[]" dup] by simp

section \<open>Sorted slices\<close>

lemma sort_key_fixed: "sorted (map f xs) \<Longrightarrow> sort_key f xs = xs"
  by (induction xs) (auto simp: insort_is_Cons)

text \<open>\<open>sort.SearchStrings\<close> on a sorted slice: the first index whose element is not below the value.\<close>

definition search_strings :: "string list \<Rightarrow> string \<Rightarrow> nat" where
  "search_strings xs v = length (takeWhile (\<lambda>x. x < v) xs)"

lemma search_strings_split: "take (search_strings xs v) xs = takeWhile (\<lambda>x. x < v) xs"
  "drop (search_strings xs v) xs = dropWhile (\<lambda>x. x < v) xs"
  by (simp_all add: search_strings_def takeWhile_eq_take [symmetric] dropWhile_eq_drop [symmetric])

section \<open>Counters kept in Go maps\<close>

text \<open>Reading a missing key of a Go \<open>map[string]int\<close> gives 0.\<close>

definition get0 :: "('k \<times> int) list \<Rightarrow> 'k \<Rightarrow> int" where
  "get0 m k = (case map_of m k of None \<Rightarrow> 0 | Some v \<Rightarrow> v)"

lemma get0_update [simp]: "get0 (AList.update k v m) k' = (if k' = k then v else get0 m k')"
  by (simp add: get0_def update_conv')

text \<open>Reading a missing key of a Go \<open>map[string][]string\<close> gives the nil slice.\<close>

definition getl :: "('k \<times> 'v list) list \<Rightarrow> 'k \<Rightarrow> 'v list" where
  "getl m k = (case map_of m k of None \<Rightarrow> [] | Some v \<Rightarrow> v)"

lemma getl_update [simp]: "getl (AList.update k v m) k' = (if k' = k then v else getl m k')"
  by (simp add: getl_def update_conv')

lemma get0_Nil [simp]: "get0 [] k = 0"
  by (simp add: get0_def)

lemma getl_Nil [simp]: "getl [] k = []"
  by (simp add: getl_def)

text \<open>Adding a key that a map does not hold appends to its association list.\<close>

lemma update_fresh: "k \<notin> fst ` set m \<Longrightarrow> AList.update k v m = m @ [(k, v)]"
  by (induction m) auto

lemma update_None: "map_of m k = None \<Longrightarrow> AList.update k v m = m @ [(k, v)]"
  by (simp add: update_fresh map_of_eq_None_iff)

lemma map_of_fold_update:
  "map_of (fold (\<lambda>k. AList.update k (f k)) ks m) k = (if k \<in> set ks then Some (f k) else map_of m k)"
  by (induction ks arbitrary: m) (auto simp: update_conv')

lemma list_all2_mem_left: "list_all2 P xs ys \<Longrightarrow> x \<in> set xs \<Longrightarrow> \<exists>y \<in> set ys. P x y"
  by (induction rule: list_all2_induct) auto

lemma list_all2_mem_right: "list_all2 P xs ys \<Longrightarrow> y \<in> set ys \<Longrightarrow> \<exists>x \<in> set xs. P x y"
  by (induction rule: list_all2_induct) auto

section \<open>Name patterns\<close>

definition is_lower :: "char \<Rightarrow> bool" where
  "is_lower c \<longleftrightarrow> CHR ''a'' \<le> c \<and> c \<le> CHR ''z''"

definition is_upper :: "char \<Rightarrow> bool" where
  "is_upper c \<longleftrightarrow> CHR ''A'' \<le> c \<and> c \<le> CHR ''Z''"

definition is_digit :: "char \<Rightarrow> bool" where
  "is_digit c \<longleftrightarrow> CHR ''0'' \<le> c \<and> c \<le> CHR ''9''"

section \<open>Hexadecimal text\<close>

text \<open>\<open>hex.EncodeToString\<close>.\<close>

definition hex_digit :: "nat \<Rightarrow> char" where
  "hex_digit n = char_of (if n < 10 then 48 + n else 87 + n)"

definition hex_encode :: "string \<Rightarrow> string" where
  "hex_encode bs = concat (map (\<lambda>b. [hex_digit (of_char b div 16), hex_digit (of_char b mod 16)]) bs)"

lemma length_hex_encode: "length (hex_encode bs) = 2 * length bs"
  by (induction bs) (auto simp: hex_encode_def)

lemma hex_encode_nonempty: "bs \<noteq> [] \<Longrightarrow> hex_encode bs \<noteq> []"
  by (cases bs) (auto simp: hex_encode_def)

lemma hex_digit_plain: "n < 16 \<Longrightarrow> plain_char (hex_digit n)"
  by (auto simp: hex_digit_def plain_char_def less_eq_char_def)

lemma hex_encode_plain: "c \<in> set (hex_encode bs) \<Longrightarrow> plain_char c"
proof -
  assume "c \<in> set (hex_encode bs)"
  then obtain b where "c = hex_digit (of_char b div 16) \<or> c = hex_digit (of_char b mod 16)"
    by (auto simp: hex_encode_def)
  moreover have "of_char b div 16 < (16 :: nat)" using nat_of_char_less_256 [of b] by (simp add: less_mult_imp_div_less)
  ultimately show ?thesis using hex_digit_plain by auto
qed

lemma trim_space_hex_encode [simp]: "trim_space (hex_encode bs) = hex_encode bs"
proof (cases "bs = []")
  case False
  then have "hex_encode bs \<noteq> []" by (rule hex_encode_nonempty)
  then have "hd (hex_encode bs) \<in> set (hex_encode bs)" "last (hex_encode bs) \<in> set (hex_encode bs)" by auto
  then show ?thesis by (intro trim_space_plain hex_encode_plain)
qed (simp add: hex_encode_def)

end
