(* ===== verification/RuntimeContext.thy ===== *)
theory RuntimeContext
  imports Prelude
begin

text \<open>
  The values a Go \<open>context.Context\<close> carries between the parts of the runtime. Each package stores its value
  under a key type of its own, so the values are independent and a context is a record with one optional
  field per key: the principal (\<open>framework/core/identity/principal.go\<close>), the metadata and the trace id
  (\<open>framework/core/runtimecontext/context.go\<close>), the execution frame (\<open>framework/execution/scope.go\<close>), the
  idempotency key and claim (\<open>framework/execution/idempotency.go\<close>) and the authorised operation
  (\<open>gateway/authz\<close>). A nil context is \<^const>\<open>None\<close>. Values are immutable here, so the
  defensive \<open>Clone\<close> calls of the code are identities.
\<close>

section \<open>Principals\<close>

record Principal =
  Subject :: string
  TenantID :: string
  UserID :: string
  Roles :: "string list"
  AuthMethod :: string
  Authenticated :: bool

definition no_principal :: Principal where
  "no_principal = \<lparr>Subject = [], TenantID = [], UserID = [], Roles = [], AuthMethod = [], Authenticated = False\<rparr>"

fun HasRole :: "Principal \<Rightarrow> string \<Rightarrow> bool" where
  "HasRole p role = list_ex (\<lambda>current. current = role) (Roles p)"

section \<open>Metadata\<close>

record Metadata =
  md_transport :: string
  md_protocol :: string
  md_operation :: string
  md_route :: string
  md_service :: string
  md_module :: string
  md_method :: string
  md_requestID :: string
  md_attributes :: "(string \<times> string) list"

definition no_metadata :: Metadata where
  "no_metadata = \<lparr>md_transport = [], md_protocol = [], md_operation = [], md_route = [], md_service = [], md_module = [],
     md_method = [], md_requestID = [], md_attributes = []\<rparr>"

section \<open>Frames and claims\<close>

text \<open>
  An execution frame. The code's frame points to the \<open>rootState\<close> of its root; \<open>rootID\<close>, \<open>mode\<close> and \<open>unit\<close> of
  that state never change after its creation, so a frame carries them. \<open>'u\<close> is the unit of work.
\<close>

record 'u frame =
  fr_rootID :: string
  fr_mode :: string
  fr_unit :: "'u option"
  fr_operation :: string
  fr_allowed :: "string list"
  fr_depth :: int

record IdempotencyIdentity =
  id_tenant :: string
  id_operation :: string
  id_key :: string
  id_attempt :: string

section \<open>Authorised operations\<close>

text \<open>The declared values of \<open>PermissionMode\<close>, a \<open>uint8\<close>; the code treats any other value as \<open>PermissionAll\<close>.\<close>

datatype Mode = PermissionAll | PermissionAny

record AuthPolicy =
  pol_Operation :: string
  pol_Permissions :: "string list"
  pol_Mode :: Mode
  pol_TenantRequired :: bool
  pol_Authentication :: "string list"

record Grant =
  gr_Permission :: string
  gr_RoleID :: string
  gr_Scope :: string

datatype Reason = NoReason | ReasonAllowed | ReasonUnauthenticated | ReasonTenantRequired | ReasonRoleRequired
  | ReasonPermissionDenied | ReasonAuthenticationMethod | ReasonGrantResolverUnavailable

record Decision =
  dec_Allowed :: bool
  dec_Operation :: string
  dec_Permissions :: "string list"
  dec_Grants :: "Grant list"
  dec_Reason :: Reason

record AuthorizedOperation =
  az_Principal :: Principal
  az_Policy :: AuthPolicy
  az_Decision :: Decision

section \<open>Contexts\<close>

record 'u Context =
  cx_principal :: "Principal option"
  cx_metadata :: "Metadata option"
  cx_traceID :: "string option"
  cx_frame :: "'u frame option"
  cx_idempotencyKey :: "string option"
  cx_claim :: "IdempotencyIdentity option"
  cx_authorized :: "AuthorizedOperation option"

definition Background :: "'u Context" where
  "Background = \<lparr>cx_principal = None, cx_metadata = None, cx_traceID = None, cx_frame = None,
     cx_idempotencyKey = None, cx_claim = None, cx_authorized = None\<rparr>"

definition nonNil :: "'u Context option \<Rightarrow> 'u Context" where
  "nonNil ctx = (case ctx of None \<Rightarrow> Background | Some c \<Rightarrow> c)"

lemma nonNil_Some [simp]: "nonNil (Some c) = c"
  by (simp add: nonNil_def)

definition WithPrincipal :: "'u Context option \<Rightarrow> Principal \<Rightarrow> 'u Context" where
  "WithPrincipal ctx p = (nonNil ctx)\<lparr>cx_principal := Some p\<rparr>"

definition FromContext :: "'u Context option \<Rightarrow> Principal \<times> bool" where
  "FromContext ctx =
     (case Option.bind ctx cx_principal of None \<Rightarrow> (no_principal, False) | Some p \<Rightarrow> (p, True))"

definition WithMetadata :: "'u Context option \<Rightarrow> Metadata \<Rightarrow> 'u Context" where
  "WithMetadata ctx m = (nonNil ctx)\<lparr>cx_metadata := Some m\<rparr>"

definition MetadataFrom :: "'u Context option \<Rightarrow> Metadata \<times> bool" where
  "MetadataFrom ctx =
     (case Option.bind ctx cx_metadata of None \<Rightarrow> (no_metadata, False) | Some m \<Rightarrow> (m, True))"

definition WithTraceID :: "'u Context option \<Rightarrow> string \<Rightarrow> 'u Context" where
  "WithTraceID ctx t = (nonNil ctx)\<lparr>cx_traceID := Some t\<rparr>"

definition TraceIDFrom :: "'u Context option \<Rightarrow> string" where
  "TraceIDFrom ctx = (case Option.bind ctx cx_traceID of None \<Rightarrow> [] | Some t \<Rightarrow> t)"

definition WithIdempotencyKey :: "'u Context option \<Rightarrow> string \<Rightarrow> 'u Context" where
  "WithIdempotencyKey ctx key = (nonNil ctx)\<lparr>cx_idempotencyKey := Some (trim_space key)\<rparr>"

definition IdempotencyKeyFrom :: "'u Context option \<Rightarrow> string" where
  "IdempotencyKeyFrom ctx = (case Option.bind ctx cx_idempotencyKey of None \<Rightarrow> [] | Some k \<Rightarrow> trim_space k)"

definition idempotencyIdentityFrom :: "'u Context option \<Rightarrow> IdempotencyIdentity option" where
  "idempotencyIdentityFrom ctx =
     (case Option.bind ctx cx_claim of
        None \<Rightarrow> None
      | Some c \<Rightarrow> if id_operation c \<noteq> [] \<and> id_key c \<noteq> [] \<and> id_attempt c \<noteq> [] then Some c else None)"

definition currentFrame :: "'u Context option \<Rightarrow> 'u frame option" where
  "currentFrame ctx = Option.bind ctx cx_frame"

lemma IdempotencyKeyFrom_With [simp]: "IdempotencyKeyFrom (Some (WithIdempotencyKey ctx k)) = trim_space k"
  by (simp add: IdempotencyKeyFrom_def WithIdempotencyKey_def)

lemma FromContext_With [simp]: "FromContext (Some (WithPrincipal ctx p)) = (p, True)"
  by (simp add: FromContext_def WithPrincipal_def)

lemma MetadataFrom_With [simp]: "MetadataFrom (Some (WithMetadata ctx m)) = (m, True)"
  by (simp add: MetadataFrom_def WithMetadata_def)

lemma WithMetadata_keeps [simp]:
  "cx_frame (WithMetadata ctx m) = cx_frame (nonNil ctx)" "cx_claim (WithMetadata ctx m) = cx_claim (nonNil ctx)"
  "cx_principal (WithMetadata ctx m) = cx_principal (nonNil ctx)"
  "cx_idempotencyKey (WithMetadata ctx m) = cx_idempotencyKey (nonNil ctx)"
  "cx_authorized (WithMetadata ctx m) = cx_authorized (nonNil ctx)"
  by (simp_all add: WithMetadata_def)

end
