(* ===== verification/ExecScope.thy ===== *)
theory ExecScope
  imports RuntimeContext
begin

text \<open>
  Execution scopes (\<open>framework/execution/scope.go\<close>): a root operation opens at most one unit of work, child
  operations join it when the parent declares them and their transaction policy fits, and the root commits
  or rolls back exactly once. The database behind a unit of work is outside the repository: the operations of
  \<open>TransactionFactory\<close> and \<open>UnitOfWork\<close> are functions on an abstract world \<open>'w\<close>, arguments of the model. Every
  operation also returns the list of calls it made on the unit of work, in order.
\<close>

section \<open>Data\<close>

definition TransactionNone :: string where "TransactionNone = ''none''"
definition TransactionReadOnly :: string where "TransactionReadOnly = ''read_only''"
definition TransactionLocal :: string where "TransactionLocal = ''local''"

lemmas transaction_modes = TransactionNone_def TransactionReadOnly_def TransactionLocal_def

definition ErrScopeAlreadyActive :: goerr where "ErrScopeAlreadyActive = Err ''execution: root scope already active'' []"
definition ErrScopeUnavailable :: goerr where "ErrScopeUnavailable = Err ''execution: scope unavailable'' []"
definition ErrTransactionUnavailable :: goerr where
  "ErrTransactionUnavailable = Err ''execution: transaction factory unavailable'' []"
definition ErrTransactionHandleAbsent :: goerr where
  "ErrTransactionHandleAbsent = Err ''execution: transaction handle unavailable'' []"
definition ErrChildUndeclared :: goerr where
  "ErrChildUndeclared = Err ''execution: child operation is not declared by parent'' []"
definition ErrTransactionConflict :: goerr where
  "ErrTransactionConflict = Err ''execution: child transaction policy conflicts with root scope'' []"

text \<open>
  A unit of work is an interface value: its methods. \<open>uow_handle\<close> is \<^const>\<open>None\<close> when it does not implement
  \<open>TransactionHandleProvider\<close> and \<open>Some None\<close> when it provides nil. A factory opens one in a given mode, or nil.
\<close>

record ('w, 'h) UnitOfWork =
  uow_commit :: "'w \<Rightarrow> goerr option \<times> 'w"
  uow_rollback :: "'w \<Rightarrow> goerr option \<times> 'w"
  uow_close :: "'w \<Rightarrow> goerr option \<times> 'w"
  uow_handle :: "'h option option"

type_synonym ('w, 'h) TransactionFactory = "string \<Rightarrow> 'w \<Rightarrow> ('w, 'h) UnitOfWork option result \<times> 'w"

datatype tx_call = TxBegin string | TxCommit | TxRollback | TxClose

record 'u rootState =
  rs_rootID :: string
  rs_mode :: string
  rs_unit :: "'u option"
  rs_finalized :: bool

record Frame =
  RootOperationID :: string
  FrameOperationID :: string
  FrameTransaction :: string
  FrameDepth :: int

section \<open>Operations\<close>

definition normalizeMode :: "string \<Rightarrow> string result" where
  "normalizeMode m =
     (let m = trim_space m; m = (if m = [] then TransactionNone else m) in
      if m = TransactionNone \<or> m = TransactionReadOnly \<or> m = TransactionLocal then Inr m
      else Inl (Err ''execution: invalid transaction mode %q'' [m]))"

definition allowedSet :: "string list \<Rightarrow> string list" where
  "allowedSet values = filter (\<lambda>v. v \<noteq> []) (map trim_space values)"

definition BeginRoot ::
  "('w, 'h) TransactionFactory option \<Rightarrow> ('w, 'h) UnitOfWork Context option \<Rightarrow> string \<Rightarrow> string \<Rightarrow> string list \<Rightarrow> 'w
     \<Rightarrow> (('w, 'h) UnitOfWork Context \<times> ('w, 'h) UnitOfWork rootState) result \<times> 'w \<times> tx_call list" where
  "BeginRoot factory ctx operationID mode allowedChildren w =
     (let ctx = nonNil ctx; operationID = trim_space operationID in
      if currentFrame (Some ctx) \<noteq> None then (Inl ErrScopeAlreadyActive, w, [])
      else if operationID = [] then (Inl (Err ''execution: root operation id is required'' []), w, [])
      else case normalizeMode mode of
        Inl e \<Rightarrow> (Inl e, w, [])
      | Inr normalized \<Rightarrow>
        (let finish = (\<lambda>u. (ctx\<lparr>cx_frame := Some \<lparr>fr_rootID = operationID, fr_mode = normalized, fr_unit = u,
                 fr_operation = operationID, fr_allowed = allowedSet allowedChildren, fr_depth = 0\<rparr>\<rparr>,
               \<lparr>rs_rootID = operationID, rs_mode = normalized, rs_unit = u, rs_finalized = False\<rparr>))
         in if normalized = TransactionNone then (Inr (finish None), w, [])
            else case factory of
              None \<Rightarrow> (Inl ErrTransactionUnavailable, w, [])
            | Some f \<Rightarrow>
              (case f normalized w of
                 (Inl e, w') \<Rightarrow> (Inl (Wrap ''execution: begin %s transaction: %w'' [normalized] e), w', [TxBegin normalized])
               | (Inr None, w') \<Rightarrow>
                   (Inl (Err ''execution: transaction factory returned nil unit of work'' []), w', [TxBegin normalized])
               | (Inr (Some u), w') \<Rightarrow> (Inr (finish (Some u)), w', [TxBegin normalized]))))"

definition Current :: "'u Context option \<Rightarrow> Frame option" where
  "Current ctx =
     (case currentFrame ctx of
        None \<Rightarrow> None
      | Some f \<Rightarrow> Some \<lparr>RootOperationID = fr_rootID f, FrameOperationID = fr_operation f,
                      FrameTransaction = fr_mode f, FrameDepth = fr_depth f\<rparr>)"

definition UnitOfWorkFrom :: "'u Context option \<Rightarrow> 'u option" where
  "UnitOfWorkFrom ctx = Option.bind (currentFrame ctx) fr_unit"

definition TransactionHandleFrom :: "('w, 'h) UnitOfWork Context option \<Rightarrow> 'h result" where
  "TransactionHandleFrom ctx =
     (case UnitOfWorkFrom ctx of
        None \<Rightarrow> Inl ErrScopeUnavailable
      | Some u \<Rightarrow>
        (case uow_handle u of
           None \<Rightarrow> Inl ErrTransactionHandleAbsent
         | Some None \<Rightarrow> Inl ErrTransactionHandleAbsent
         | Some (Some h) \<Rightarrow> Inr h))"

definition JoinChild :: "'u Context option \<Rightarrow> string \<Rightarrow> string \<Rightarrow> string list \<Rightarrow> 'u Context result" where
  "JoinChild ctx operationID mode allowedChildren =
     (case currentFrame ctx of
        None \<Rightarrow> Inl ErrScopeUnavailable
      | Some parent \<Rightarrow>
        (let operationID = trim_space operationID in
         if operationID \<notin> set (fr_allowed parent)
         then Inl (Wrap ''%w: parent=%s child=%s'' [fr_operation parent, operationID] ErrChildUndeclared)
         else case normalizeMode mode of
           Inl e \<Rightarrow> Inl e
         | Inr childMode \<Rightarrow>
           if (fr_mode parent = TransactionNone \<and> childMode \<noteq> TransactionNone) \<or>
              (fr_mode parent = TransactionReadOnly \<and> childMode = TransactionLocal)
           then Inl (Wrap ''%w: root=%s child=%s'' [fr_mode parent, childMode] ErrTransactionConflict)
           else Inr ((nonNil ctx)\<lparr>cx_frame := Some (parent\<lparr>fr_operation := operationID,
                  fr_allowed := allowedSet allowedChildren, fr_depth := fr_depth parent + 1\<rparr>)\<rparr>)))"

text \<open>\<open>Root.Commit\<close> and \<open>Root.Rollback\<close>: the error, the new root state, the world, and the calls made.\<close>

definition root_Commit ::
  "('w, 'h) UnitOfWork rootState option \<Rightarrow> 'w \<Rightarrow> goerr option \<times> ('w, 'h) UnitOfWork rootState option \<times> 'w \<times> tx_call list" where
  "root_Commit root w =
     (case root of
        None \<Rightarrow> (Some ErrScopeUnavailable, None, w, [])
      | Some st \<Rightarrow>
        if rs_finalized st then (None, Some st, w, [])
        else
          (let st' = st\<lparr>rs_finalized := True\<rparr> in
           case rs_unit st of
             None \<Rightarrow> (None, Some st', w, [])
           | Some u \<Rightarrow>
             (case uow_commit u w of
                (Some commitErr, w1) \<Rightarrow>
                  (case uow_rollback u w1 of
                     (rollbackErr, w2) \<Rightarrow>
                       (case uow_close u w2 of
                          (closeErr, w3) \<Rightarrow>
                            (err_join [Some commitErr, rollbackErr, closeErr], Some st', w3, [TxCommit, TxRollback, TxClose])))
              | (None, w1) \<Rightarrow>
                  (case uow_close u w1 of
                     (closeErr, w2) \<Rightarrow> (closeErr, Some st', w2, [TxCommit, TxClose])))))"

definition root_Rollback ::
  "('w, 'h) UnitOfWork rootState option \<Rightarrow> 'w \<Rightarrow> goerr option \<times> ('w, 'h) UnitOfWork rootState option \<times> 'w \<times> tx_call list" where
  "root_Rollback root w =
     (case root of
        None \<Rightarrow> (Some ErrScopeUnavailable, None, w, [])
      | Some st \<Rightarrow>
        if rs_finalized st then (None, Some st, w, [])
        else
          (let st' = st\<lparr>rs_finalized := True\<rparr> in
           case rs_unit st of
             None \<Rightarrow> (None, Some st', w, [])
           | Some u \<Rightarrow>
             (case uow_rollback u w of
                (rollbackErr, w1) \<Rightarrow>
                  (case uow_close u w1 of
                     (closeErr, w2) \<Rightarrow> (err_join [rollbackErr, closeErr], Some st', w2, [TxRollback, TxClose])))))"

section \<open>Modes\<close>

definition mode_rank :: "string \<Rightarrow> nat" where
  "mode_rank m = (if m = TransactionLocal then 2 else if m = TransactionReadOnly then 1 else 0)"

lemma normalizeMode_Inr:
  "normalizeMode m = Inr n \<Longrightarrow> n \<in> {TransactionNone, TransactionReadOnly, TransactionLocal}"
  by (auto simp: normalizeMode_def Let_def split: if_splits)

lemma BeginRoot_Inr:
  assumes "BeginRoot f ctx oid m kids w = (Inr (c, st), w', calls)"
  shows "\<exists>n. normalizeMode m = Inr n \<and> cx_frame c = Some \<lparr>fr_rootID = trim_space oid, fr_mode = n, fr_unit = rs_unit st,
      fr_operation = trim_space oid, fr_allowed = allowedSet kids, fr_depth = 0\<rparr> \<and> cx_claim c = cx_claim (nonNil ctx) \<and>
    c = (nonNil ctx)\<lparr>cx_frame := cx_frame c\<rparr> \<and>
    st = \<lparr>rs_rootID = trim_space oid, rs_mode = n, rs_unit = rs_unit st, rs_finalized = False\<rparr> \<and>
    (n = TransactionNone \<longrightarrow> rs_unit st = None \<and> w' = w \<and> calls = []) \<and>
    (n \<noteq> TransactionNone \<longrightarrow> rs_unit st \<noteq> None \<and> f \<noteq> None \<and> calls = [TxBegin n]) \<and> currentFrame (Some (nonNil ctx)) = None"
  using assms unfolding BeginRoot_def
  by (auto simp: Let_def split: if_splits sum.splits option.splits prod.splits)

text \<open>
  A child joins a scope only when its parent declares it, and then it runs in the unit of work
  of the root, one level deeper, under a transaction policy that the policy of the root includes; joining
  never opens a transaction.
\<close>

theorem JoinChild_confined:
  assumes "JoinChild ctx oid m kids = Inr c"
  shows "\<exists>parent child n. currentFrame ctx = Some parent \<and> cx_frame c = Some child \<and> normalizeMode m = Inr n \<and>
    trim_space oid \<in> set (fr_allowed parent) \<and> fr_unit child = fr_unit parent \<and> fr_rootID child = fr_rootID parent \<and>
    fr_mode child = fr_mode parent \<and> fr_depth child = fr_depth parent + 1 \<and> fr_operation child = trim_space oid \<and>
    fr_allowed child = allowedSet kids \<and>
    (fr_mode parent \<in> {TransactionNone, TransactionReadOnly, TransactionLocal} \<longrightarrow> mode_rank n \<le> mode_rank (fr_mode parent))"
proof -
  from assms obtain parent n where p: "currentFrame ctx = Some parent" "trim_space oid \<in> set (fr_allowed parent)"
    "normalizeMode m = Inr n"
    and fit: "\<not> ((fr_mode parent = TransactionNone \<and> n \<noteq> TransactionNone) \<or>
              (fr_mode parent = TransactionReadOnly \<and> n = TransactionLocal))"
    and c: "c = (nonNil ctx)\<lparr>cx_frame := Some (parent\<lparr>fr_operation := trim_space oid,
                  fr_allowed := allowedSet kids, fr_depth := fr_depth parent + 1\<rparr>)\<rparr>"
    by (auto simp: JoinChild_def Let_def split: option.splits if_splits sum.splits)
  have "fr_mode parent \<in> {TransactionNone, TransactionReadOnly, TransactionLocal} \<longrightarrow> mode_rank n \<le> mode_rank (fr_mode parent)"
    using fit normalizeMode_Inr [OF p(3)] by (auto simp: mode_rank_def transaction_modes)
  with p show ?thesis unfolding c by (intro exI [of _ parent] exI [of _ n] exI conjI) (rule refl | simp)+
qed

section \<open>Finalisation\<close>

datatype root_op = OpCommit | OpRollback

fun run_root ::
  "root_op list \<Rightarrow> ('w, 'h) UnitOfWork rootState option \<Rightarrow> 'w \<Rightarrow> ('w, 'h) UnitOfWork rootState option \<times> 'w \<times> tx_call list" where
  "run_root [] root w = (root, w, [])"
| "run_root (p # ps) root w =
     (case (case p of OpCommit \<Rightarrow> root_Commit root w | OpRollback \<Rightarrow> root_Rollback root w) of
        (e, root', w', calls) \<Rightarrow>
          (case run_root ps root' w' of (root'', w'', calls') \<Rightarrow> (root'', w'', calls @ calls')))"

lemma run_root_finalized: "rs_finalized st \<Longrightarrow> run_root ps (Some st) w = (Some st, w, [])"
  by (induction ps) (auto simp: root_Commit_def root_Rollback_def split: root_op.splits)

lemma root_Commit_calls:
  assumes "\<not> rs_finalized st" "rs_unit st = Some u"
  shows "\<exists>e w' calls. root_Commit (Some st) w = (e, Some (st\<lparr>rs_finalized := True\<rparr>), w', calls) \<and>
    calls \<in> {[TxCommit, TxClose], [TxCommit, TxRollback, TxClose]} \<and>
    (calls = [TxCommit, TxClose] \<longleftrightarrow> fst (uow_commit u w) = None) \<and> (e = None \<longrightarrow> fst (uow_commit u w) = None)"
proof (cases "uow_commit u w")
  case (Pair ce w1)
  show ?thesis
  proof (cases ce)
    case None
    with Pair assms show ?thesis by (cases "uow_close u w1") (simp add: root_Commit_def)
  next
    case (Some a)
    obtain re w2 where r: "uow_rollback u w1 = (re, w2)" by (cases "uow_rollback u w1")
    obtain cl w3 where "uow_close u w2 = (cl, w3)" by (cases "uow_close u w2")
    with Some Pair assms r show ?thesis by (simp add: root_Commit_def err_join_def)
  qed
qed

lemma root_Rollback_calls:
  assumes "\<not> rs_finalized st" "rs_unit st = Some u"
  shows "\<exists>e w'. root_Rollback (Some st) w = (e, Some (st\<lparr>rs_finalized := True\<rparr>), w', [TxRollback, TxClose])"
  using assms
  by (cases "uow_rollback u w"; cases "uow_close u (snd (uow_rollback u w))") (auto simp: root_Rollback_def)

text \<open>
  Property C11: however the code commits and rolls back a root, the unit of work is finalised by the first
  operation alone: it is closed exactly once, as the last call, committed at most once and before any
  rollback, and only a first operation that is a commit commits it.
\<close>

theorem root_finalized_once:
  assumes "\<not> rs_finalized st" "rs_unit st = Some u"
  shows "\<exists>w' calls. run_root (p # ps) (Some st) w = (Some (st\<lparr>rs_finalized := True\<rparr>), w', calls) \<and>
    calls \<in> (case p of OpCommit \<Rightarrow> {[TxCommit, TxClose], [TxCommit, TxRollback, TxClose]} | OpRollback \<Rightarrow> {[TxRollback, TxClose]})"
proof (cases p)
  case OpCommit
  from root_Commit_calls [OF assms, of w] obtain e w' calls where
    "root_Commit (Some st) w = (e, Some (st\<lparr>rs_finalized := True\<rparr>), w', calls)"
    "calls \<in> {[TxCommit, TxClose], [TxCommit, TxRollback, TxClose]}" by blast
  with OpCommit show ?thesis by (simp add: run_root_finalized)
next
  case OpRollback
  from root_Rollback_calls [OF assms, of w] obtain e w' where
    "root_Rollback (Some st) w = (e, Some (st\<lparr>rs_finalized := True\<rparr>), w', [TxRollback, TxClose])" by blast
  with OpRollback show ?thesis by (simp add: run_root_finalized)
qed

definition ex_uow :: "(nat, nat) UnitOfWork" where
  "ex_uow = \<lparr>uow_commit = (\<lambda>w. (None, w + 1)), uow_rollback = (\<lambda>w. (None, w)), uow_close = (\<lambda>w. (None, w)),
     uow_handle = Some (Some 1)\<rparr>"

definition ex_root :: "(nat, nat) UnitOfWork rootState" where
  "ex_root = \<lparr>rs_rootID = ''r'', rs_mode = ''local'', rs_unit = Some ex_uow, rs_finalized = False\<rparr>"

theorem root_finalized_once_witness:
  "\<exists>w' calls. run_root [OpRollback, OpCommit] (Some ex_root) 0 =
     (Some (ex_root\<lparr>rs_finalized := True\<rparr>), w', calls) \<and> calls \<in> {[TxRollback, TxClose]}"
  using root_finalized_once [of ex_root ex_uow OpRollback "[OpCommit]" 0] by (simp add: ex_root_def)

definition ex_parent :: "nat Context" where
  "ex_parent = Background\<lparr>cx_frame := Some \<lparr>fr_rootID = ''r'', fr_mode = ''local'', fr_unit = Some 0,
     fr_operation = ''r'', fr_allowed = [''c''], fr_depth = 0\<rparr>\<rparr>"

theorem JoinChild_confined_witness:
  "\<exists>c child. JoinChild (Some ex_parent) ''c'' ''read_only'' [] = Inr c \<and> cx_frame c = Some child \<and> fr_depth child = 1"
proof -
  let ?c = "ex_parent\<lparr>cx_frame := Some \<lparr>fr_rootID = ''r'', fr_mode = ''local'', fr_unit = Some 0,
     fr_operation = ''c'', fr_allowed = [], fr_depth = 1\<rparr>\<rparr>"
  have j: "JoinChild (Some ex_parent) ''c'' ''read_only'' [] = Inr ?c" by code_simp
  note t = JoinChild_confined [OF j]
  have "currentFrame (Some ex_parent) = cx_frame ex_parent" by (simp add: currentFrame_def)
  with t obtain parent child where "cx_frame ex_parent = Some parent" "cx_frame ?c = Some child" "fr_depth child = fr_depth parent + 1"
    by auto
  then show ?thesis using j by (auto simp: ex_parent_def)
qed

end
