(* ===== verification/CycleSearch.thy ===== *)
theory CycleSearch
  imports Prelude
begin

text \<open>
  The depth-first search for a dependency cycle that \<open>pkg/operationplan/plan.go\<close> and \<open>pkg/assemblyplan/plan.go\<close> both contain: a
  closure \<open>visit\<close> over the state, the position on the stack, the stack and the cycle found. Here it is parameterised by the
  adjacency lists; the two callers supply theirs.
\<close>

section \<open>The search\<close>

text \<open>The variables that the closure \<open>visit\<close> shares.\<close>

record dfs =
  dfs_state :: "(string \<times> int) list"
  dfs_positions :: "(string \<times> int) list"
  dfs_stack :: "string list"
  dfs_cycle :: "string list"

definition dfs_enter :: "string \<Rightarrow> dfs \<Rightarrow> dfs" where
  "dfs_enter oid s =
     s\<lparr>dfs_state := AList.update oid 1 (dfs_state s),
       dfs_positions := AList.update oid (int (length (dfs_stack s))) (dfs_positions s),
       dfs_stack := dfs_stack s @ [oid]\<rparr>"

definition dfs_leave :: "string \<Rightarrow> dfs \<Rightarrow> dfs" where
  "dfs_leave oid s =
     s\<lparr>dfs_stack := butlast (dfs_stack s), dfs_positions := AList.delete oid (dfs_positions s),
       dfs_state := AList.update oid 2 (dfs_state s)\<rparr>"

text \<open>
  \<open>visit\<close> with a bound on the depth of the recursion; \<^const>\<open>None\<close> means that the bound was reached. The
  result is the value \<open>visit\<close> returns: whether a cycle was found.
\<close>

fun visit :: "nat \<Rightarrow> (string \<Rightarrow> string list) \<Rightarrow> string \<Rightarrow> dfs \<Rightarrow> (dfs \<times> bool) option"
  and visit_all :: "nat \<Rightarrow> (string \<Rightarrow> string list) \<Rightarrow> string list \<Rightarrow> dfs \<Rightarrow> (dfs \<times> bool) option" where
  "visit 0 adj oid s = None"
| "visit (Suc k) adj oid s =
     (if get0 (dfs_state s) oid = 2 then Some (s, False)
      else if get0 (dfs_state s) oid = 1
      then Some (s\<lparr>dfs_cycle := drop (nat (get0 (dfs_positions s) oid)) (dfs_stack s) @ [oid]\<rparr>, True)
      else case visit_all k adj (adj oid) (dfs_enter oid s) of
             None \<Rightarrow> None
           | Some (s', True) \<Rightarrow> Some (s', True)
           | Some (s', False) \<Rightarrow> Some (dfs_leave oid s', False))"
| "visit_all k adj [] s = Some (s, False)"
| "visit_all k adj (n # ns) s =
     (case visit k adj n s of
        None \<Rightarrow> None
      | Some (s', True) \<Rightarrow> Some (s', True)
      | Some (s', False) \<Rightarrow> visit_all k adj ns s')"

definition dfs_start :: dfs where
  "dfs_start = \<lparr>dfs_state = [], dfs_positions = [], dfs_stack = [], dfs_cycle = []\<rparr>"

text \<open>The loop over the start ids is \<open>visit_all\<close>; the result is the cycle, or the empty list.\<close>

definition search_cycle :: "nat \<Rightarrow> (string \<Rightarrow> string list) \<Rightarrow> string list \<Rightarrow> string list option" where
  "search_cycle k adj starts =
     (case visit_all k adj starts dfs_start of
        None \<Rightarrow> None
      | Some (s, True) \<Rightarrow> Some (dfs_cycle s)
      | Some (s, False) \<Rightarrow> Some [])"

section \<open>Correctness\<close>

definition succs :: "(string \<Rightarrow> string list) \<Rightarrow> (string \<times> string) set" where
  "succs adj = {(a, b). b \<in> set (adj a)}"

definition finished :: "dfs \<Rightarrow> string set" where
  "finished s = {x. get0 (dfs_state s) x = 2}"

definition chain :: "(string \<Rightarrow> string list) \<Rightarrow> string list \<Rightarrow> bool" where
  "chain adj xs \<longleftrightarrow> (\<forall>i. Suc i < length xs \<longrightarrow> (xs ! i, xs ! Suc i) \<in> succs adj)"

definition is_cycle :: "(string \<Rightarrow> string list) \<Rightarrow> string list \<Rightarrow> bool" where
  "is_cycle adj c \<longleftrightarrow> 2 \<le> length c \<and> hd c = last c \<and> chain adj c"

text \<open>
  The invariant of the search: the stack is a path without repetition whose ids are exactly those in state
  1, with their positions; the finished ids are closed under the relation and none of them is on a cycle.
\<close>

definition dfs_inv :: "(string \<Rightarrow> string list) \<Rightarrow> dfs \<Rightarrow> bool" where
  "dfs_inv adj s \<longleftrightarrow>
     (\<forall>x. get0 (dfs_state s) x \<in> {0, 1, 2}) \<and> distinct (dfs_stack s) \<and>
     (\<forall>x. get0 (dfs_state s) x = 1 \<longleftrightarrow> x \<in> set (dfs_stack s)) \<and>
     (\<forall>i < length (dfs_stack s). get0 (dfs_positions s) (dfs_stack s ! i) = int i) \<and>
     chain adj (dfs_stack s) \<and>
     succs adj `` finished s \<subseteq> finished s \<and> (\<forall>x \<in> finished s. (x, x) \<notin> (succs adj)\<^sup>+)"

definition follows :: "(string \<Rightarrow> string list) \<Rightarrow> dfs \<Rightarrow> string \<Rightarrow> bool" where
  "follows adj s x \<longleftrightarrow> (dfs_stack s \<noteq> [] \<longrightarrow> (last (dfs_stack s), x) \<in> succs adj)"

lemma chain_snoc:
  assumes "chain adj xs" "xs \<noteq> [] \<longrightarrow> (last xs, x) \<in> succs adj"
  shows "chain adj (xs @ [x])"
  unfolding chain_def
proof (intro allI impI)
  fix i assume i: "Suc i < length (xs @ [x])"
  show "((xs @ [x]) ! i, (xs @ [x]) ! Suc i) \<in> succs adj"
  proof (cases "Suc i = length xs")
    case True
    then have "xs \<noteq> []" and "i = length xs - 1" by auto
    then have "xs \<noteq> []" and "xs ! i = last xs" by (simp_all add: last_conv_nth)
    with assms(2) True show ?thesis by (simp add: nth_append)
  qed (use assms(1) i in \<open>auto simp: chain_def nth_append\<close>)
qed

lemma chain_drop: "chain adj xs \<Longrightarrow> chain adj (drop n xs)"
  by (auto simp: chain_def)

lemma chain_butlast: "chain adj (xs @ [x]) \<Longrightarrow> chain adj xs"
  unfolding chain_def
proof (intro allI impI)
  fix i assume all: "\<forall>i. Suc i < length (xs @ [x]) \<longrightarrow> ((xs @ [x]) ! i, (xs @ [x]) ! Suc i) \<in> succs adj"
    and i: "Suc i < length xs"
  from all [rule_format, of i] i show "(xs ! i, xs ! Suc i) \<in> succs adj" by (simp add: nth_append)
qed

lemma get0_delete [simp]: "get0 (AList.delete k m) k' = (if k' = k then 0 else get0 m k')"
  by (simp add: get0_def delete_conv' restrict_map_def)

lemma finished_enter: "get0 (dfs_state s) x = 0 \<Longrightarrow> finished (dfs_enter x s) = finished s"
  by (auto simp: finished_def dfs_enter_def)

lemma dfs_enter_inv:
  assumes inv: "dfs_inv adj s" and new: "get0 (dfs_state s) x = 0" and path: "follows adj s x"
  shows "dfs_inv adj (dfs_enter x s)"
proof -
  let ?s = "dfs_enter x s"
  have "get0 (dfs_state s) x = 1 \<longleftrightarrow> x \<in> set (dfs_stack s)" using inv by (simp add: dfs_inv_def)
  with new have x: "x \<notin> set (dfs_stack s)" by simp
  note fin = finished_enter [OF new]
  have "get0 (dfs_positions ?s) (dfs_stack ?s ! i) = int i" if "i < length (dfs_stack ?s)" for i
  proof (cases "i = length (dfs_stack s)")
    case False
    with that have i: "i < length (dfs_stack s)" by (simp add: dfs_enter_def)
    with x have "dfs_stack s ! i \<noteq> x" by auto
    with i inv show ?thesis by (simp add: dfs_enter_def dfs_inv_def nth_append)
  qed (simp add: dfs_enter_def)
  moreover have "chain adj (dfs_stack ?s)"
    using chain_snoc inv path by (simp add: dfs_inv_def dfs_enter_def follows_def)
  moreover have "distinct (dfs_stack ?s)" using inv x by (simp add: dfs_inv_def dfs_enter_def)
  moreover have "\<forall>y. get0 (dfs_state s) y \<in> {0, 1, 2}" using inv unfolding dfs_inv_def by blast
  then have "\<forall>y. get0 (dfs_state ?s) y \<in> {0, 1, 2}" by (simp add: dfs_enter_def)
  moreover have "\<forall>y. get0 (dfs_state ?s) y = 1 \<longleftrightarrow> y \<in> set (dfs_stack ?s)" using inv by (simp add: dfs_inv_def dfs_enter_def)
  moreover have "succs adj `` finished s \<subseteq> finished s" "\<forall>x \<in> finished s. (x, x) \<notin> (succs adj)\<^sup>+"
    using inv by (simp_all add: dfs_inv_def)
  ultimately show ?thesis unfolding dfs_inv_def fin by blast
qed

lemma finished_leave: "finished (dfs_leave x s) = insert x (finished s)"
  by (auto simp: finished_def dfs_leave_def)

lemma trancl_closed:
  assumes "E `` D \<subseteq> D" "(x, y) \<in> E\<^sup>+" "x \<in> D"
  shows "y \<in> D"
  using assms(2,3) by (induction rule: trancl_induct) (use assms(1) in auto)

lemma dfs_leave_inv:
  assumes inv: "dfs_inv adj s" and stack: "dfs_stack s = st @ [x]" and succ: "succs adj `` {x} \<subseteq> finished s"
  shows "dfs_inv adj (dfs_leave x s)" and "dfs_stack (dfs_leave x s) = st"
proof -
  let ?s = "dfs_leave x s" and ?E = "succs adj"
  show st: "dfs_stack ?s = st" using stack by (simp add: dfs_leave_def)
  from inv have dist: "distinct (st @ [x])" and one: "\<forall>y. get0 (dfs_state s) y = 1 \<longleftrightarrow> y \<in> set (st @ [x])"
    and closed: "?E `` finished s \<subseteq> finished s" and acyc: "\<forall>y \<in> finished s. (y, y) \<notin> ?E\<^sup>+"
    and pos: "\<forall>i < length (st @ [x]). get0 (dfs_positions s) ((st @ [x]) ! i) = int i"
    and ch: "chain adj (st @ [x])" and rng: "\<forall>y. get0 (dfs_state s) y \<in> {0, 1, 2}"
    unfolding dfs_inv_def stack by blast+
  have notfin: "x \<notin> finished s" using one [rule_format, of x] by (simp add: finished_def)
  have "(x, x) \<notin> ?E\<^sup>+"
  proof
    assume "(x, x) \<in> ?E\<^sup>+"
    then obtain y where y: "(x, y) \<in> ?E" "y = x \<or> (y, x) \<in> ?E\<^sup>+" by (metis tranclD rtranclD)
    then have "y \<in> finished s" using succ by auto
    with y(2) have "x \<in> finished s" using trancl_closed [OF closed] by blast
    with notfin show False by simp
  qed
  with acyc have "\<forall>y \<in> finished ?s. (y, y) \<notin> ?E\<^sup>+" unfolding finished_leave by blast
  moreover have "?E `` finished ?s \<subseteq> finished ?s" using closed succ unfolding finished_leave by blast
  moreover have "get0 (dfs_positions ?s) (st ! i) = int i" if "i < length st" for i
  proof -
    have "st ! i \<noteq> x" using dist that by auto
    moreover have "get0 (dfs_positions s) (st ! i) = int i" using pos that by (metis length_append_singleton less_SucI nth_append)
    ultimately show ?thesis by (simp add: dfs_leave_def)
  qed
  moreover have "\<forall>y. get0 (dfs_state ?s) y = 1 \<longleftrightarrow> y \<in> set st" using one dist by (auto simp: dfs_leave_def)
  moreover have "\<forall>y. get0 (dfs_state ?s) y \<in> {0, 1, 2}" using rng by (simp add: dfs_leave_def)
  ultimately show "dfs_inv adj ?s" unfolding dfs_inv_def st using dist chain_butlast [OF ch] by simp
qed

lemma dfs_back_edge:
  assumes inv: "dfs_inv adj s" and one: "get0 (dfs_state s) x = 1" and path: "follows adj s x"
  shows "is_cycle adj (drop (nat (get0 (dfs_positions s) x)) (dfs_stack s) @ [x])"
proof -
  from inv one obtain i where i: "i < length (dfs_stack s)" "dfs_stack s ! i = x"
    by (metis dfs_inv_def in_set_conv_nth)
  with inv have pos: "nat (get0 (dfs_positions s) x) = i" unfolding dfs_inv_def by force
  have ne: "drop i (dfs_stack s) \<noteq> []" using i by simp
  have "chain adj (drop i (dfs_stack s) @ [x])"
    using inv path i by (intro chain_snoc chain_drop) (auto simp: dfs_inv_def follows_def)
  moreover have "hd (drop i (dfs_stack s) @ [x]) = x" using i ne by (simp add: hd_drop_conv_nth)
  moreover have "2 \<le> length (drop i (dfs_stack s) @ [x])" using i by simp
  ultimately show ?thesis unfolding pos is_cycle_def by simp
qed

lemma visit_correct:
  shows "visit k adj x s = Some (s', b) \<Longrightarrow> dfs_inv adj s \<Longrightarrow> follows adj s x \<Longrightarrow>
      (if b then is_cycle adj (dfs_cycle s')
       else dfs_inv adj s' \<and> dfs_stack s' = dfs_stack s \<and> insert x (finished s) \<subseteq> finished s')"
    and "visit_all k adj xs s = Some (s', b) \<Longrightarrow> dfs_inv adj s \<Longrightarrow> (\<forall>x \<in> set xs. follows adj s x) \<Longrightarrow>
      (if b then is_cycle adj (dfs_cycle s')
       else dfs_inv adj s' \<and> dfs_stack s' = dfs_stack s \<and> set xs \<union> finished s \<subseteq> finished s')"
proof (induction k adj x s and k adj xs s arbitrary: s' b and s' b rule: visit_visit_all.induct)
  case (2 k adj x s)
  consider "get0 (dfs_state s) x = 2" | "get0 (dfs_state s) x = 1" | "get0 (dfs_state s) x = 0"
    using 2(3) unfolding dfs_inv_def by blast
  then show ?case
  proof cases
    case 1
    with 2(2,3) show ?thesis by (auto simp: finished_def)
  next
    case two: 2
    with 2(2) dfs_back_edge [OF 2(3) two 2(4)] show ?thesis by auto
  next
    case 3
    let ?e = "dfs_enter x s"
    have inv: "dfs_inv adj ?e" using dfs_enter_inv 2(3,4) 3 by blast
    have fol: "\<forall>y \<in> set (adj x). follows adj ?e y" by (simp add: follows_def dfs_enter_def succs_def)
    from 2(2) 3 obtain s1 b1 where all: "visit_all k adj (adj x) ?e = Some (s1, b1)"
      and res: "if b1 then s' = s1 \<and> b else s' = dfs_leave x s1 \<and> \<not> b"
      by (auto split: option.splits bool.splits)
    have IH: "if b1 then is_cycle adj (dfs_cycle s1)
       else dfs_inv adj s1 \<and> dfs_stack s1 = dfs_stack ?e \<and> set (adj x) \<union> finished ?e \<subseteq> finished s1"
      using 2(1) [OF _ _ all inv fol] 3 by simp
    show ?thesis
    proof (cases b1)
      case False
      with IH have s1: "dfs_inv adj s1" "dfs_stack s1 = dfs_stack s @ [x]"
        and fin: "succs adj `` {x} \<subseteq> finished s1" "finished s \<subseteq> finished s1"
        unfolding finished_enter [OF 3] by (auto simp: dfs_enter_def succs_def)
      from dfs_leave_inv [OF s1 fin(1)] fin(2) False res show ?thesis by (auto simp: finished_leave)
    qed (use IH res in auto)
  qed
next
  case (4 k adj x xs s)
  from 4(3) obtain s1 b1 where v: "visit k adj x s = Some (s1, b1)"
    and rest: "if b1 then s' = s1 \<and> b else visit_all k adj xs s1 = Some (s', b)"
    by (auto split: option.splits bool.splits)
  have IH1: "if b1 then is_cycle adj (dfs_cycle s1)
       else dfs_inv adj s1 \<and> dfs_stack s1 = dfs_stack s \<and> insert x (finished s) \<subseteq> finished s1"
    using 4(1) [OF v 4(4)] 4(5) by simp
  show ?case
  proof (cases b1)
    case False
    with IH1 rest have s1: "dfs_inv adj s1" "dfs_stack s1 = dfs_stack s" "insert x (finished s) \<subseteq> finished s1"
      and r: "visit_all k adj xs s1 = Some (s', b)" by auto
    have "\<forall>y \<in> set xs. follows adj s1 y" using 4(5) s1(2) by (simp add: follows_def)
    from 4(2) [OF v refl _ r s1(1) this] False s1 show ?thesis by (cases b) (simp, simp, blast)
  qed (use IH1 rest in auto)
qed auto

text \<open>The depth bound is enough: when only \<open>ids\<close> have successors, those not entered yet bound the depth.\<close>

definition unvisited :: "string list \<Rightarrow> dfs \<Rightarrow> string set" where
  "unvisited ids s = {x \<in> set ids. get0 (dfs_state s) x \<notin> {1, 2}}"

lemma finite_unvisited: "finite (unvisited ids s)"
  by (simp add: unvisited_def)

lemma visit_returns:
  assumes outside: "\<forall>x. x \<notin> set ids \<longrightarrow> adj x = []"
  shows "card (unvisited ids s) < k \<Longrightarrow> \<exists>s' b. visit k adj x s = Some (s', b) \<and> unvisited ids s' \<subseteq> unvisited ids s"
    and "card (unvisited ids s) < k \<Longrightarrow> \<exists>s' b. visit_all k adj xs s = Some (s', b) \<and> unvisited ids s' \<subseteq> unvisited ids s"
using outside
proof (induction k adj x s and k adj xs s rule: visit_visit_all.induct)
  case (2 k adj x s)
  show ?case
  proof (cases "get0 (dfs_state s) x = 2 \<or> get0 (dfs_state s) x = 1")
    case True
    then show ?thesis by (auto simp: unvisited_def)
  next
    case False
    have sub: "unvisited ids (dfs_enter x s) \<subseteq> unvisited ids s - {x}"
      by (auto simp: unvisited_def dfs_enter_def split: if_splits)
    have leave: "unvisited ids (dfs_leave x t) \<subseteq> unvisited ids t" for t
      by (auto simp: unvisited_def dfs_leave_def split: if_splits)
    have "\<exists>t b. visit_all k adj (adj x) (dfs_enter x s) = Some (t, b) \<and>
        unvisited ids t \<subseteq> unvisited ids (dfs_enter x s)"
    proof (cases "x \<in> unvisited ids s")
      case True
      have "unvisited ids (dfs_enter x s) \<subset> unvisited ids s" using sub True by blast
      then have "card (unvisited ids (dfs_enter x s)) < card (unvisited ids s)"
        by (rule psubset_card_mono [OF finite_unvisited])
      with 2 False show ?thesis by auto
    next
      case out: False
      with False have "x \<notin> set ids" by (auto simp: unvisited_def)
      with 2 have "adj x = []" by blast
      then show ?thesis by auto
    qed
    then obtain t b where t: "visit_all k adj (adj x) (dfs_enter x s) = Some (t, b)"
      "unvisited ids t \<subseteq> unvisited ids s" using sub by blast
    with False leave [of t] show ?thesis by (cases b) auto
  qed
next
  case (4 k adj x xs s)
  then obtain t b where t: "visit k adj x s = Some (t, b)" "unvisited ids t \<subseteq> unvisited ids s" by blast
  show ?case
  proof (cases b)
    case False
    have "card (unvisited ids t) < k"
      using card_mono [OF finite_unvisited t(2)] 4(3) by simp
    then obtain u b' where "visit_all k adj xs t = Some (u, b')" "unvisited ids u \<subseteq> unvisited ids t"
      using 4(2) [OF t(1) refl] 4(4) False by blast
    with t False show ?thesis by auto
  qed (use t in auto)
qed auto

lemma search_cycle_returns:
  assumes "\<forall>x. x \<notin> set ids \<longrightarrow> adj x = []" "length ids < k"
  shows "\<exists>c. search_cycle k adj starts = Some c"
proof -
  have "unvisited ids dfs_start = set ids" by (auto simp: unvisited_def dfs_start_def)
  then have "card (unvisited ids dfs_start) < k" using card_length [of ids] assms(2) by simp
  then obtain s b where "visit_all k adj starts dfs_start = Some (s, b)" using visit_returns(2) [OF assms(1)] by blast
  then show ?thesis by (cases b) (simp_all add: search_cycle_def)
qed

text \<open>A chain of edges is a path of the relation.\<close>

lemma chain_trancl: "chain adj xs \<Longrightarrow> i < j \<Longrightarrow> j < length xs \<Longrightarrow> (xs ! i, xs ! j) \<in> (succs adj)\<^sup>+"
proof (induction j)
  case (Suc j)
  then have e: "(xs ! j, xs ! Suc j) \<in> succs adj" by (simp add: chain_def)
  show ?case
  proof (cases "i = j")
    case False
    with Suc have "(xs ! i, xs ! j) \<in> (succs adj)\<^sup>+" by simp
    with e show ?thesis by (meson trancl_into_trancl)
  qed (use e in auto)
qed simp

lemma is_cycle_trancl: "is_cycle adj c \<Longrightarrow> (hd c, hd c) \<in> (succs adj)\<^sup>+"
proof -
  assume c: "is_cycle adj c"
  then have "(c ! 0, c ! (length c - 1)) \<in> (succs adj)\<^sup>+" by (intro chain_trancl) (auto simp: is_cycle_def)
  moreover have "c \<noteq> []" using c by (auto simp: is_cycle_def)
  ultimately show ?thesis using c by (simp add: is_cycle_def hd_conv_nth last_conv_nth)
qed

lemma dfs_start_inv: "dfs_inv adj dfs_start"
  by (simp add: dfs_inv_def dfs_start_def finished_def chain_def)

lemma search_cycle_sound:
  assumes run: "search_cycle k adj starts = Some c" and covers: "\<And>x. adj x \<noteq> [] \<Longrightarrow> x \<in> set starts"
  shows "if c = [] then acyclic (succs adj) else is_cycle adj c"
proof -
  from run obtain s b where v: "visit_all k adj starts dfs_start = Some (s, b)" and c: "c = (if b then dfs_cycle s else [])"
    by (auto simp: search_cycle_def split: option.splits bool.splits)
  have fol: "\<forall>x \<in> set starts. follows adj dfs_start x" by (simp add: follows_def dfs_start_def)
  note post = visit_correct(2) [OF v dfs_start_inv fol]
  show ?thesis
  proof (cases b)
    case True
    with post c have "is_cycle adj c" by simp
    then show ?thesis by (auto simp: is_cycle_def)
  next
    case False
    with post have inv: "dfs_inv adj s" and all: "set starts \<subseteq> finished s" by auto
    have "(x, x) \<notin> (succs adj)\<^sup>+" for x
    proof
      assume x: "(x, x) \<in> (succs adj)\<^sup>+"
      then obtain y where "(x, y) \<in> succs adj" by (meson tranclD)
      then have "adj x \<noteq> []" by (auto simp: succs_def)
      then have "x \<in> set starts" by (rule covers)
      with all inv x show False unfolding dfs_inv_def by blast
    qed
    with c False show ?thesis by (simp add: acyclic_def)
  qed
qed

text \<open>Both together: with enough depth and all sources among the start ids, the search decides whether there is a cycle.\<close>

lemma search_cycle_correct:
  assumes "\<And>x. adj x \<noteq> [] \<Longrightarrow> x \<in> set starts" "length starts < k"
  shows "\<exists>c. search_cycle k adj starts = Some c \<and> (c = [] \<longleftrightarrow> acyclic (succs adj)) \<and> (c = [] \<or> is_cycle adj c)"
proof -
  obtain c where c: "search_cycle k adj starts = Some c" using search_cycle_returns [of starts adj k starts] assms by blast
  note S = search_cycle_sound [OF c assms(1)]
  then have "c = [] \<longleftrightarrow> acyclic (succs adj)"
    using is_cycle_trancl [of adj c] by (cases "c = []") (auto simp: acyclic_def)
  with S c show ?thesis by (auto split: if_splits)
qed

end
