(* ===== verification/OperationPlan.thy ===== *)
theory OperationPlan
  imports CycleSearch
begin

text \<open>
  Operation plans (\<open>pkg/operationplan/plan.go\<close>): the declarative description of every operation of a
  service, its normalisation and its validation. Validation checks every field, that the operations an
  operation requires exist, that the requirement graph has no cycle (a depth-first search that reports the
  first cycle it meets) and that the declared permissions of an operation cover those of every operation it
  can reach. Maps used as sets are lists here. \<open>strings.ToUpper\<close> is modelled for ASCII letters.
\<close>

section \<open>Data\<close>

record Security =
  Public :: bool
  TenantRequired :: bool
  Authentication :: "string list"
  Permissions :: "string list"
  PermissionMode :: string

record Execution =
  Transaction :: string
  Idempotency :: string

record Composition =
  Boundary :: string
  RequiresOperations :: "string list"
  PermissionClosure :: "string list"

record HTTPBinding =
  http_method :: string
  http_path :: string
  http_body :: string
  http_response :: string

record Bindings =
  bind_rpc :: string
  bind_http :: "HTTPBinding list"

record OpPlan =
  OperationID :: string
  Domain :: string
  Application :: string
  UseCase :: string
  RequestType :: string
  ResponseType :: string
  op_security :: Security
  op_execution :: Execution
  op_composition :: Composition
  ApplicationRequires :: "string list"
  op_bindings :: Bindings

record PlanSet =
  set_version :: int
  Operations :: "OpPlan list"

definition SchemaVersion :: int where "SchemaVersion = 2"

type_synonym op_index = "(string \<times> OpPlan) list"

section \<open>Normalisation\<close>

fun stable_loop :: "string list \<Rightarrow> string list \<Rightarrow> string list" where
  "stable_loop result [] = result"
| "stable_loop result (v # vs) =
     (let v = trim_space v in
      if v = [] \<or> v \<in> set result then stable_loop result vs else stable_loop (result @ [v]) vs)"

definition stableStrings :: "string list \<Rightarrow> string list" where
  "stableStrings values = sort (stable_loop [] values)"

lemma stable_loop_spec:
  "distinct acc \<Longrightarrow> distinct (stable_loop acc vs) \<and> set (stable_loop acc vs) = set acc \<union> {v \<in> trim_space ` set vs. v \<noteq> []}"
  by (induction vs arbitrary: acc) (auto simp: Let_def)

lemma stableStrings_spec: "distinct (stableStrings vs)" "set (stableStrings vs) = {v \<in> trim_space ` set vs. v \<noteq> []}" "sorted (stableStrings vs)"
  using stable_loop_spec [of "[]" vs] by (simp_all add: stableStrings_def)

lemma stableStrings_trimmed: "v \<in> set (stableStrings vs) \<Longrightarrow> trim_space v = v \<and> v \<noteq> []"
  by (auto simp: stableStrings_spec(2))

lemma stableStrings_idem [simp]: "stableStrings (stableStrings vs) = stableStrings vs"
proof (rule sorted_distinct_ex1)
  show "set (stableStrings (stableStrings vs)) = set (stableStrings vs)"
    using stableStrings_spec(2) [of "stableStrings vs"] stableStrings_trimmed [of _ vs] by (auto simp: image_iff)
qed (simp_all add: stableStrings_spec(1,3))

definition upper_char :: "char \<Rightarrow> char" where
  "upper_char c = (if is_lower c then char_of (of_char c - 32 :: nat) else c)"

definition to_upper :: "string \<Rightarrow> string" where
  "to_upper s = map upper_char s"

definition or_default :: "string \<Rightarrow> string \<Rightarrow> string" where
  "or_default d s = (if s = [] then d else s)"

definition normalize_security :: "Security \<Rightarrow> Security" where
  "normalize_security s =
     s\<lparr>Authentication := stableStrings (Authentication s), Permissions := stableStrings (Permissions s),
       PermissionMode := or_default ''all'' (trim_space (PermissionMode s))\<rparr>"

definition normalize_execution :: "Execution \<Rightarrow> Execution" where
  "normalize_execution e =
     e\<lparr>Transaction := or_default ''none'' (trim_space (Transaction e)),
       Idempotency := or_default ''none'' (trim_space (Idempotency e))\<rparr>"

definition normalize_composition :: "Composition \<Rightarrow> Composition" where
  "normalize_composition c =
     c\<lparr>Boundary := trim_space (Boundary c), RequiresOperations := stableStrings (RequiresOperations c),
       PermissionClosure := stableStrings (PermissionClosure c)\<rparr>"

definition normalize_http :: "HTTPBinding \<Rightarrow> HTTPBinding" where
  "normalize_http h =
     h\<lparr>http_method := to_upper (trim_space (http_method h)), http_path := trim_space (http_path h),
       http_body := trim_space (http_body h), http_response := trim_space (http_response h)\<rparr>"

definition http_key :: "HTTPBinding \<Rightarrow> string \<times> string \<times> string \<times> string" where
  "http_key h = (http_method h, http_path h, http_body h, http_response h)"

definition normalize_plan :: "OpPlan \<Rightarrow> OpPlan" where
  "normalize_plan p =
     p\<lparr>OperationID := trim_space (OperationID p), Domain := trim_space (Domain p),
       Application := trim_space (Application p), UseCase := trim_space (UseCase p),
       RequestType := trim_space (RequestType p), ResponseType := trim_space (ResponseType p),
       op_security := normalize_security (op_security p), op_execution := normalize_execution (op_execution p),
       op_composition := normalize_composition (op_composition p),
       ApplicationRequires := stableStrings (ApplicationRequires p),
       op_bindings := (op_bindings p)\<lparr>bind_rpc := trim_space (bind_rpc (op_bindings p)),
         bind_http := sort_key http_key (map normalize_http (bind_http (op_bindings p)))\<rparr>\<rparr>"

definition Normalize :: "PlanSet \<Rightarrow> PlanSet" where
  "Normalize s =
     \<lparr>set_version = (if set_version s = 0 \<or> set_version s = 1 then SchemaVersion else set_version s),
      Operations = sort_key OperationID (map normalize_plan (Operations s))\<rparr>"

section \<open>The requirement graph\<close>

text \<open>Reading a missing key of the index gives the zero plan, which requires nothing.\<close>

definition requires :: "op_index \<Rightarrow> string \<Rightarrow> string list" where
  "requires index oid = (case map_of index oid of None \<Rightarrow> [] | Some p \<Rightarrow> RequiresOperations (op_composition p))"

definition permissions :: "op_index \<Rightarrow> string \<Rightarrow> string list" where
  "permissions index oid = (case map_of index oid of None \<Rightarrow> [] | Some p \<Rightarrow> Permissions (op_security p))"

text \<open>
  The loop over the sorted ids of the index is \<open>visit_all\<close>. The recursion enters each id of the index at
  most once on a path and needs one more level for an id outside it, hence the bound.
\<close>

definition firstCycle :: "op_index \<Rightarrow> string list option" where
  "firstCycle index =
     search_cycle (length index + 1) (requires index) (sort (map fst index))"

text \<open>
  \<open>collectPermissions\<close>: a call adds its id to \<open>active\<close> and removes it before it returns, and it does
  nothing when the id is there already, so \<open>active\<close> is the same after a call as before it and is passed
  downwards only.
\<close>

definition add_all :: "string list \<Rightarrow> string list \<Rightarrow> string list" where
  "add_all xs result = result @ filter (\<lambda>x. x \<notin> set result) (remdups xs)"

function collectPermissions :: "string \<Rightarrow> op_index \<Rightarrow> string list \<Rightarrow> string list \<Rightarrow> string list"
  and collect_required :: "string list \<Rightarrow> op_index \<Rightarrow> string list \<Rightarrow> string list \<Rightarrow> string list" where
  "collectPermissions oid index active result =
     (if oid \<in> set active then result
      else case map_of index oid of
        None \<Rightarrow> result
      | Some item \<Rightarrow> collect_required (RequiresOperations (op_composition item)) index (oid # active) result)"
| "collect_required [] index active result = result"
| "collect_required (r # rs) index active result =
     (case map_of index r of
        None \<Rightarrow> collect_required rs index active result
      | Some target \<Rightarrow>
          collect_required rs index active
            (collectPermissions r index active (add_all (Permissions (op_security target)) result)))"
  by pat_completeness auto
termination
proof (relation "inv_image (less_than <*lex*> less_than)
    (\<lambda>x. case x of
       Inl (oid, index, active, result) \<Rightarrow> (card (fst ` set index - set active), 0)
     | Inr (rs, index, active, result) \<Rightarrow> (card (fst ` set index - set active), Suc (length rs)))", goal_cases)
  case (2 oid index active result item)
  then have "fst ` set index - set (oid # active) \<subset> fst ` set index - set active" by (auto dest: map_of_Some_key)
  then show ?case by (auto intro: psubset_card_mono)
qed auto

section \<open>Validation\<close>

definition plan_error :: "OpPlan \<Rightarrow> goerr option" where
  "plan_error item =
     (if Domain item = [] \<or> Application item = []
      then Some (Err ''operationplan: operation %s requires domain and application'' [OperationID item])
      else if UseCase item = []
      then Some (Err ''operationplan: operation %s requires useCase'' [OperationID item])
      else if RequestType item = [] \<or> ResponseType item = []
      then Some (Err ''operationplan: operation %s requires requestType and responseType'' [OperationID item])
      else if PermissionMode (op_security item) \<notin> {''all'', ''any''}
      then Some (Err ''operationplan: operation %s has invalid permissionMode %q'' [OperationID item, PermissionMode (op_security item)])
      else if Transaction (op_execution item) \<notin> {''none'', ''read_only'', ''local''}
      then Some (Err ''operationplan: operation %s has invalid transaction policy %q'' [OperationID item, Transaction (op_execution item)])
      else if Idempotency (op_execution item) \<notin> {''none'', ''required''}
      then Some (Err ''operationplan: operation %s has invalid idempotency policy %q'' [OperationID item, Idempotency (op_execution item)])
      else if Idempotency (op_execution item) = ''required'' \<and> Transaction (op_execution item) \<noteq> ''local''
      then Some (Err ''operationplan: operation %s requires local transaction for durable idempotency'' [OperationID item])
      else if Boundary (op_composition item) \<notin> {[], ''local'', ''remote_saga''}
      then Some (Err ''operationplan: operation %s has invalid composition boundary %q'' [OperationID item, Boundary (op_composition item)])
      else None)"

fun index_plans :: "OpPlan list \<Rightarrow> op_index \<Rightarrow> op_index result" where
  "index_plans [] index = Inr index"
| "index_plans (item # items) index =
     (if OperationID item = [] then Inl (Err ''operationplan: operationId is required'' [])
      else if map_of index (OperationID item) \<noteq> None
      then Inl (Err ''operationplan: duplicate operationId %s'' [OperationID item])
      else case plan_error item of
        Some e \<Rightarrow> Inl e
      | None \<Rightarrow> index_plans items (AList.update (OperationID item) item index))"

definition requirement_error :: "op_index \<Rightarrow> string \<Rightarrow> string \<Rightarrow> goerr option" where
  "requirement_error index oid required =
     (if required = oid then Some (Err ''operationplan: operation %s cannot require itself'' [oid])
      else if map_of index required = None
      then Some (Err ''operationplan: operation %s requires unknown operation %s'' [oid, required])
      else None)"

text \<open>A loop that returns the first error.\<close>

fun first_error :: "('a \<Rightarrow> goerr option) \<Rightarrow> 'a list \<Rightarrow> goerr option" where
  "first_error f [] = None"
| "first_error f (x # xs) = (case f x of Some e \<Rightarrow> Some e | None \<Rightarrow> first_error f xs)"

definition requirements_error :: "op_index \<Rightarrow> OpPlan \<Rightarrow> goerr option" where
  "requirements_error index item =
     first_error (requirement_error index (OperationID item)) (RequiresOperations (op_composition item))"

fun join_strings :: "string \<Rightarrow> string list \<Rightarrow> string" where
  "join_strings sep [] = []"
| "join_strings sep [x] = x"
| "join_strings sep (x # y # xs) = x @ sep @ join_strings sep (y # xs)"

definition closure_error :: "op_index \<Rightarrow> OpPlan \<Rightarrow> goerr option" where
  "closure_error index item =
     (let required = collectPermissions (OperationID item) index [] [];
          missing = sort (filter (\<lambda>p. p \<notin> set (Permissions (op_security item))) required)
      in if missing \<noteq> []
         then Some (Err ''operationplan: operation %s permission closure missing: %s'' [OperationID item, join_strings '','' missing])
         else if join_strings [CHR 0x00] (sort required) \<noteq> join_strings [CHR 0x00] (PermissionClosure (op_composition item))
         then Some (Err ''operationplan: operation %s has stale permission closure'' [OperationID item])
         else None)"

text \<open>The bound of \<open>firstCycle\<close> is never reached (\<open>firstCycle_decides\<close> below), so that branch is dead.\<close>

definition validate_normal :: "PlanSet \<Rightarrow> goerr option" where
  "validate_normal s =
     (if set_version s \<noteq> SchemaVersion then Some (Err ''operationplan: unsupported schemaVersion %d'' [])
      else case index_plans (Operations s) [] of
        Inl e \<Rightarrow> Some e
      | Inr index \<Rightarrow>
        (case first_error (requirements_error index) (Operations s) of
           Some e \<Rightarrow> Some e
         | None \<Rightarrow>
           (case firstCycle index of
              None \<Rightarrow> Some (Err ''operationplan: depth bound reached'' [])
            | Some cycle \<Rightarrow>
              if cycle \<noteq> [] then Some (Err ''operationplan: operation dependency cycle: %s'' [join_strings '' -> '' cycle])
              else first_error (closure_error index) (Operations s))))"

definition Validate :: "PlanSet \<Rightarrow> goerr option" where
  "Validate s = validate_normal (Normalize s)"

section \<open>Correctness of the cycle search\<close>

definition edges :: "op_index \<Rightarrow> (string \<times> string) set" where
  "edges index = {(a, b). b \<in> set (requires index a)}"

lemma edges_succs: "edges index = succs (requires index)"
  by (simp add: edges_def succs_def)

lemma requires_inside: "requires index x \<noteq> [] \<Longrightarrow> x \<in> set (sort (map fst index))"
  by (auto simp: requires_def dest!: map_of_Some_key split: option.splits)

lemma firstCycle_decides:
  "\<exists>c. firstCycle index = Some c \<and> (c = [] \<longleftrightarrow> acyclic (edges index)) \<and> (c = [] \<or> is_cycle (requires index) c)"
  unfolding firstCycle_def edges_succs by (rule search_cycle_correct) (erule requires_inside, simp)

text \<open>
  Property C40: the cycle search always returns; it reports no cycle exactly when the requirement relation
  of the index is acyclic, and a list it reports is a real cycle: at least two entries, the first equal to
  the last, each requiring the next.
\<close>

theorem firstCycle_correct:
  "\<exists>c. firstCycle index = Some c \<and> (c = [] \<longleftrightarrow> acyclic (edges index)) \<and> (c = [] \<or> is_cycle (requires index) c)"
  by (rule firstCycle_decides)

section \<open>Permission closure\<close>

definition reach_permissions :: "op_index \<Rightarrow> string \<Rightarrow> string set" where
  "reach_permissions index x = (\<Union>y \<in> {y. (x, y) \<in> (edges index)\<^sup>+}. set (permissions index y))"

lemma set_add_all: "set (add_all xs result) = set xs \<union> set result"
  by (auto simp: add_all_def)

lemma distinct_add_all: "distinct result \<Longrightarrow> distinct (add_all xs result)"
  by (auto simp: add_all_def)

lemma reach_permissions_step:
  "reach_permissions index x = (\<Union>r \<in> set (requires index x). set (permissions index r) \<union> reach_permissions index r)"
proof -
  have "{y. (x, y) \<in> (edges index)\<^sup>+} = (\<Union>r \<in> set (requires index x). insert r {y. (r, y) \<in> (edges index)\<^sup>+})"
    by (auto simp: trancl_step [of x] edges_def [of index])
  then show ?thesis unfolding reach_permissions_def by auto
qed

lemma collectPermissions_spec:
  shows "acyclic (edges index) \<Longrightarrow> \<forall>a \<in> set active. (x, a) \<notin> (edges index)\<^sup>* \<Longrightarrow> distinct result \<Longrightarrow>
      set (collectPermissions x index active result) = set result \<union> reach_permissions index x \<and>
      distinct (collectPermissions x index active result)"
    and "acyclic (edges index) \<Longrightarrow> \<forall>r \<in> set rs. \<forall>a \<in> set active. (r, a) \<notin> (edges index)\<^sup>* \<Longrightarrow> distinct result \<Longrightarrow>
      set (collect_required rs index active result) =
        set result \<union> (\<Union>r \<in> set rs. set (permissions index r) \<union> reach_permissions index r) \<and>
      distinct (collect_required rs index active result)"
proof (induction x index active result and rs index active result rule: collectPermissions_collect_required.induct)
  case (1 x index active result)
  have act: "x \<notin> set active" using 1(3) by auto
  show ?case
  proof (cases "map_of index x")
    case None
    then have "requires index x = []" by (simp add: requires_def)
    with None act 1(4) show ?thesis by (simp add: reach_permissions_step [of index x])
  next
    case (Some item)
    then have req: "RequiresOperations (op_composition item) = requires index x" by (simp add: requires_def)
    have "(r, a) \<notin> (edges index)\<^sup>*" if "r \<in> set (requires index x)" "a \<in> set (x # active)" for r a
    proof
      assume ra: "(r, a) \<in> (edges index)\<^sup>*"
      have "(x, r) \<in> edges index" using that(1) by (simp add: edges_def)
      then have "(x, a) \<in> (edges index)\<^sup>+" using ra by (rule rtrancl_into_trancl2)
      with that(2) 1(2,3) show False by (auto simp: acyclic_def dest: trancl_into_rtrancl)
    qed
    with 1(1) [OF act Some 1(2)] 1(4) req Some act show ?thesis by (simp add: reach_permissions_step [of index x])
  qed
next
  case (3 r rs index active result)
  show ?case
  proof (cases "map_of index r")
    case None
    then have "permissions index r = []" "reach_permissions index r = {}"
      by (simp_all add: permissions_def reach_permissions_step [of index r] requires_def)
    with None 3(1) [OF None 3(4)] 3(5,6) show ?thesis by simp
  next
    case (Some target)
    let ?res = "add_all (Permissions (op_security target)) result"
    have perm: "Permissions (op_security target) = permissions index r" using Some by (simp add: permissions_def)
    have one: "set (collectPermissions r index active ?res) = set ?res \<union> reach_permissions index r \<and>
        distinct (collectPermissions r index active ?res)"
      using 3(2) [OF Some 3(4)] 3(5,6) distinct_add_all by simp
    with 3(3) [OF Some 3(4)] 3(5) Some perm show ?thesis by (auto simp: set_add_all)
  qed
qed auto

section \<open>What validation establishes\<close>

lemma sort_empty_iff: "sort xs = [] \<longleftrightarrow> xs = []"
  by (metis set_empty set_sort)

lemma first_error_None: "first_error f xs = None \<longleftrightarrow> (\<forall>x \<in> set xs. f x = None)"
  by (induction xs) (auto split: option.splits)

lemma index_plans_spec:
  "index_plans items m = Inr m' \<Longrightarrow> distinct (map fst m) \<Longrightarrow>
     m' = m @ map (\<lambda>p. (OperationID p, p)) items \<and> distinct (map fst m') \<and> (\<forall>p \<in> set items. plan_error p = None)"
proof (induction items arbitrary: m)
  case (Cons p items)
  have p: "map_of m (OperationID p) = None" "plan_error p = None"
    using Cons.prems(1) by (cases "map_of m (OperationID p)"; cases "plan_error p"; simp split: if_splits)+
  then have rest: "index_plans items (m @ [(OperationID p, p)]) = Inr m'"
    using Cons.prems(1) by (simp add: update_None split: if_splits)
  from p(1) Cons.prems(2) have "distinct (map fst (m @ [(OperationID p, p)]))" by (simp add: map_of_eq_None_iff)
  note IH = Cons.IH [OF rest this]
  show ?case
  proof (intro conjI)
    show "m' = m @ map (\<lambda>p. (OperationID p, p)) (p # items)" using conjunct1 [OF IH] by simp
    show "distinct (map fst m')" using IH by blast
    show "\<forall>q \<in> set (p # items). plan_error q = None" using IH p(2) by (metis set_ConsD)
  qed
qed simp

definition plan_index :: "PlanSet \<Rightarrow> op_index" where
  "plan_index s = map (\<lambda>p. (OperationID p, p)) (Operations (Normalize s))"

lemma plan_index_lookup:
  assumes "distinct (map OperationID (Operations (Normalize s)))" "p \<in> set (Operations (Normalize s))"
  shows "map_of (plan_index s) (OperationID p) = Some p"
  using assms by (intro map_of_is_SomeI) (auto simp: plan_index_def comp_def)

lemma Validate_spec:
  assumes "Validate s = None"
  shows "distinct (map OperationID (Operations (Normalize s))) \<and> acyclic (edges (plan_index s)) \<and>
    (\<forall>p \<in> set (Operations (Normalize s)).
       set (RequiresOperations (op_composition p)) \<subseteq> OperationID ` set (Operations (Normalize s)) \<and>
       (\<forall>q \<in> set (Operations (Normalize s)). (OperationID p, OperationID q) \<in> (edges (plan_index s))\<^sup>+ \<longrightarrow>
          set (Permissions (op_security q)) \<subseteq> set (Permissions (op_security p))) \<and>
       (Idempotency (op_execution p) = ''required'' \<longrightarrow> Transaction (op_execution p) = ''local''))"
proof -
  let ?ops = "Operations (Normalize s)" and ?idx = "plan_index s"
  from assms obtain index where idx: "index_plans ?ops [] = Inr index"
    by (auto simp: Validate_def validate_normal_def split: if_splits sum.splits)
  from index_plans_spec [OF idx] have i: "index = ?idx" and dist: "distinct (map OperationID ?ops)"
    and fields: "\<forall>p \<in> set ?ops. plan_error p = None" by (auto simp: plan_index_def comp_def)
  obtain c where c: "firstCycle ?idx = Some c" "c = [] \<longrightarrow> acyclic (edges ?idx)" using firstCycle_decides by blast
  from assms idx i c(1) have req: "\<forall>p \<in> set ?ops. requirements_error ?idx p = None" and "c = []"
    and clos: "\<forall>p \<in> set ?ops. closure_error ?idx p = None"
    by (auto simp: Validate_def validate_normal_def first_error_None split: if_splits sum.splits option.splits)
  with c(2) have ac: "acyclic (edges ?idx)" by simp
  have "set (RequiresOperations (op_composition p)) \<subseteq> OperationID ` set ?ops" if "p \<in> set ?ops" for p
    using req that
    by (force simp: requirements_error_def first_error_None requirement_error_def plan_index_def map_of_eq_None_iff
        image_image split: if_splits)
  moreover have "set (Permissions (op_security q)) \<subseteq> set (Permissions (op_security p))"
    if p: "p \<in> set ?ops" and q: "q \<in> set ?ops" and pq: "(OperationID p, OperationID q) \<in> (edges ?idx)\<^sup>+" for p q
  proof -
    have "set (collectPermissions (OperationID p) ?idx [] []) = reach_permissions ?idx (OperationID p)"
      using collectPermissions_spec(1) [OF ac, of "[]" "OperationID p" "[]"] by simp
    moreover have "set (collectPermissions (OperationID p) ?idx [] []) \<subseteq> set (Permissions (op_security p))"
      using clos p by (auto simp: closure_error_def Let_def sort_empty_iff filter_empty_conv simp del: collectPermissions.simps split: if_splits)
    moreover have "set (Permissions (op_security q)) \<subseteq> reach_permissions ?idx (OperationID p)"
      using pq plan_index_lookup [OF dist q] unfolding reach_permissions_def permissions_def by fastforce
    ultimately show ?thesis by blast
  qed
  moreover have "Transaction (op_execution p) = ''local''"
    if "p \<in> set ?ops" "Idempotency (op_execution p) = ''required''" for p
    using fields that by (auto simp: plan_error_def split: if_splits)
  ultimately show ?thesis using dist ac by blast
qed

text \<open>
  Property C17: when \<open>Validate\<close> accepts a plan set, the normalised operations have distinct ids, require
  only operations of the set, the requirement relation is acyclic, an operation declares every permission of
  every operation it can reach, and an operation with required idempotency runs in a local transaction.
\<close>

theorem Validate_sound:
  assumes "Validate s = None"
  shows "distinct (map OperationID (Operations (Normalize s))) \<and> acyclic (edges (plan_index s)) \<and>
    (\<forall>p \<in> set (Operations (Normalize s)).
       set (RequiresOperations (op_composition p)) \<subseteq> OperationID ` set (Operations (Normalize s)) \<and>
       (\<forall>q \<in> set (Operations (Normalize s)). (OperationID p, OperationID q) \<in> (edges (plan_index s))\<^sup>+ \<longrightarrow>
          set (Permissions (op_security q)) \<subseteq> set (Permissions (op_security p))) \<and>
       (Idempotency (op_execution p) = ''required'' \<longrightarrow> Transaction (op_execution p) = ''local''))"
  using assms by (rule Validate_spec)

definition ex_op :: "string \<Rightarrow> string list \<Rightarrow> string list \<Rightarrow> string list \<Rightarrow> OpPlan" where
  "ex_op name reqs perms closure =
     \<lparr>OperationID = name, Domain = ''d'', Application = ''a'', UseCase = ''u'', RequestType = ''q'', ResponseType = ''r'',
      op_security = \<lparr>Public = False, TenantRequired = False, Authentication = [], Permissions = perms, PermissionMode = []\<rparr>,
      op_execution = \<lparr>Transaction = [], Idempotency = []\<rparr>,
      op_composition = \<lparr>Boundary = [], RequiresOperations = reqs, PermissionClosure = closure\<rparr>,
      ApplicationRequires = [], op_bindings = \<lparr>bind_rpc = [], bind_http = []\<rparr>\<rparr>"

definition ex_set :: PlanSet where
  "ex_set = \<lparr>set_version = 1, Operations = [ex_op ''x'' [''y''] [''p'', ''w''] [''p''], ex_op ''y'' [] [''p''] []]\<rparr>"

theorem Validate_sound_witness:
  "Validate ex_set = None \<and> acyclic (edges (plan_index ex_set)) \<and> length (Operations (Normalize ex_set)) = 2"
proof -
  have "Validate ex_set = None" by code_simp
  moreover from Validate_sound [OF this] have "acyclic (edges (plan_index ex_set))" by blast
  ultimately show ?thesis by (simp add: Normalize_def ex_set_def)
qed

end
