(* ===== verification/Idempotency.thy ===== *)
theory Idempotency
  imports ExecScope OperationPlan
begin

text \<open>
  Idempotent execution (\<open>framework/execution/idempotency.go\<close>): the coordinator that claims a key before an
  operation runs and marks the claim when it ends, and the in-memory store. A store is a record of operations
  on its state \<open>'s\<close>; \<open>'h\<close> is the transaction handle that a transactional store accepts. The random bytes of
  an attempt are an argument. The locale \<open>idempotency_store\<close> states what the coordinator relies on, over the
  record a store keeps per key; the memory store interprets it here and the database store in
  \<open>IdempotencyGorm\<close>.
\<close>

section \<open>Data\<close>

definition ErrIdempotencyUnavailable :: goerr where
  "ErrIdempotencyUnavailable = Err ''execution: idempotency coordinator unavailable'' []"
definition ErrIdempotencyKeyRequired :: goerr where
  "ErrIdempotencyKeyRequired = Err ''execution: idempotency key required'' []"
definition ErrIdempotencyInProgress :: goerr where
  "ErrIdempotencyInProgress = Err ''execution: idempotent operation already in progress'' []"
definition ErrIdempotencyCompleted :: goerr where
  "ErrIdempotencyCompleted = Err ''execution: idempotent operation already completed'' []"
definition ErrIdempotencyAtomicUnavailable :: goerr where
  "ErrIdempotencyAtomicUnavailable = Err ''execution: atomic idempotency finalization unavailable'' []"
definition ErrIdempotencyLeaseLost :: goerr where
  "ErrIdempotencyLeaseLost = Err ''execution: idempotency claim lease lost'' []"

definition IdempotencyRunning :: string where "IdempotencyRunning = ''running''"
definition IdempotencySucceeded :: string where "IdempotencySucceeded = ''succeeded''"
definition IdempotencyFailed :: string where "IdempotencyFailed = ''failed''"

lemmas idempotency_states = IdempotencyRunning_def IdempotencySucceeded_def IdempotencyFailed_def

lemma idempotency_states_distinct [simp]:
  "IdempotencyRunning \<noteq> IdempotencySucceeded" "IdempotencySucceeded \<noteq> IdempotencyRunning"
  "IdempotencyRunning \<noteq> IdempotencyFailed" "IdempotencyFailed \<noteq> IdempotencyRunning"
  "IdempotencySucceeded \<noteq> IdempotencyFailed" "IdempotencyFailed \<noteq> IdempotencySucceeded"
  "IdempotencyRunning \<noteq> []" "IdempotencySucceeded \<noteq> []" "IdempotencyFailed \<noteq> []"
  "[] \<noteq> IdempotencyRunning" "[] \<noteq> IdempotencySucceeded" "[] \<noteq> IdempotencyFailed"
  by (simp_all add: idempotency_states)

record ('s, 'h) IdempotencyStore =
  st_claim :: "IdempotencyIdentity \<Rightarrow> 's \<Rightarrow> goerr option \<times> 's"
  st_mark :: "IdempotencyIdentity \<Rightarrow> string \<Rightarrow> 's \<Rightarrow> goerr option \<times> 's"
  st_markTx :: "('h \<Rightarrow> IdempotencyIdentity \<Rightarrow> string \<Rightarrow> 's \<Rightarrow> goerr option \<times> 's) option"

section \<open>Attempts\<close>

text \<open>\<open>raw\<close> is what \<open>rand.Read\<close> filled in, or its error.\<close>

definition newIdempotencyAttempt :: "string result \<Rightarrow> string result" where
  "newIdempotencyAttempt raw =
     (case raw of
        Inl e \<Rightarrow> Inl (Wrap ''execution: create idempotency attempt: %w'' [] e)
      | Inr bs \<Rightarrow> Inr (hex_encode bs))"

section \<open>The coordinator\<close>

definition co_Begin ::
  "('s, 'h) IdempotencyStore option \<Rightarrow> string result \<Rightarrow> 'u Context option \<Rightarrow> OpPlan \<Rightarrow> 's \<Rightarrow> 'u Context result \<times> 's" where
  "co_Begin store raw ctx plan s =
     (case store of
        None \<Rightarrow> (Inl ErrIdempotencyUnavailable, s)
      | Some st \<Rightarrow>
        (let c = nonNil ctx; key = IdempotencyKeyFrom (Some c) in
         if key = [] then (Inl (Wrap ''%w: %s'' [OperationID plan] ErrIdempotencyKeyRequired), s)
         else case newIdempotencyAttempt raw of
           Inl e \<Rightarrow> (Inl e, s)
         | Inr attempt \<Rightarrow>
           (let claim = \<lparr>id_tenant = trim_space (TenantID (fst (FromContext (Some c)))),
                         id_operation = trim_space (OperationID plan), id_key = key, id_attempt = attempt\<rparr>
            in case st_claim st claim s of
                 (Some e, s') \<Rightarrow> (Inl e, s')
               | (None, s') \<Rightarrow> (Inr (c\<lparr>cx_claim := Some claim\<rparr>), s'))))"

definition co_Complete :: "('s, 'h) IdempotencyStore \<Rightarrow> 'u Context option \<Rightarrow> 's \<Rightarrow> goerr option \<times> 's" where
  "co_Complete st ctx s =
     (case idempotencyIdentityFrom ctx of
        None \<Rightarrow> (Some ErrIdempotencyKeyRequired, s)
      | Some claim \<Rightarrow> st_mark st claim IdempotencySucceeded s)"

definition co_SupportsAtomicCompletion :: "('s, 'h) IdempotencyStore option \<Rightarrow> bool" where
  "co_SupportsAtomicCompletion store = (case store of None \<Rightarrow> False | Some st \<Rightarrow> st_markTx st \<noteq> None)"

definition co_CompleteInTransaction ::
  "('s, 'h) IdempotencyStore \<Rightarrow> 'u Context option \<Rightarrow> 'h option \<Rightarrow> 's \<Rightarrow> goerr option \<times> 's" where
  "co_CompleteInTransaction st ctx transaction s =
     (case idempotencyIdentityFrom ctx of
        None \<Rightarrow> (Some ErrIdempotencyKeyRequired, s)
      | Some claim \<Rightarrow>
        (case st_markTx st of
           None \<Rightarrow> (Some ErrIdempotencyAtomicUnavailable, s)
         | Some markTx \<Rightarrow>
           (case transaction of
              None \<Rightarrow> (Some ErrIdempotencyAtomicUnavailable, s)
            | Some h \<Rightarrow> markTx h claim IdempotencySucceeded s)))"

definition co_Fail :: "('s, 'h) IdempotencyStore \<Rightarrow> 'u Context option \<Rightarrow> 's \<Rightarrow> goerr option \<times> 's" where
  "co_Fail st ctx s =
     (case idempotencyIdentityFrom ctx of
        None \<Rightarrow> (None, s)
      | Some claim \<Rightarrow> st_mark st claim IdempotencyFailed s)"

section \<open>The memory store\<close>

type_synonym idem_key = "string \<times> string \<times> string"

definition memoryKey :: "IdempotencyIdentity \<Rightarrow> idem_key" where
  "memoryKey i = (id_tenant i, id_operation i, id_key i)"

record memoryIdempotencyRecord =
  mr_state :: string
  mr_attempt :: string

record MemoryIdempotencyStore =
  ms_records :: "(idem_key \<times> memoryIdempotencyRecord) list"

definition NewMemoryIdempotencyStore :: MemoryIdempotencyStore where
  "NewMemoryIdempotencyStore = \<lparr>ms_records = []\<rparr>"

text \<open>Reading a missing key gives the zero record.\<close>

definition ms_read :: "MemoryIdempotencyStore \<Rightarrow> idem_key \<Rightarrow> memoryIdempotencyRecord" where
  "ms_read s k = (case map_of (ms_records s) k of None \<Rightarrow> \<lparr>mr_state = [], mr_attempt = []\<rparr> | Some r \<Rightarrow> r)"

definition memory_Claim ::
  "IdempotencyIdentity \<Rightarrow> MemoryIdempotencyStore option \<Rightarrow> goerr option \<times> MemoryIdempotencyStore option" where
  "memory_Claim i store =
     (case store of
        None \<Rightarrow> (Some ErrIdempotencyUnavailable, None)
      | Some s \<Rightarrow>
        (let key = memoryKey i; st = mr_state (ms_read s key) in
         if st = IdempotencyRunning then (Some ErrIdempotencyInProgress, Some s)
         else if st = IdempotencySucceeded then (Some ErrIdempotencyCompleted, Some s)
         else if st = IdempotencyFailed \<or> st = []
         then (None, Some (s\<lparr>ms_records := AList.update key \<lparr>mr_state = IdempotencyRunning, mr_attempt = id_attempt i\<rparr> (ms_records s)\<rparr>))
         else (Some ErrIdempotencyUnavailable, Some s)))"

definition memory_Mark ::
  "IdempotencyIdentity \<Rightarrow> string \<Rightarrow> MemoryIdempotencyStore option \<Rightarrow> goerr option \<times> MemoryIdempotencyStore option" where
  "memory_Mark i state store =
     (case store of
        None \<Rightarrow> (Some ErrIdempotencyUnavailable, None)
      | Some s \<Rightarrow>
        if state \<noteq> IdempotencySucceeded \<and> state \<noteq> IdempotencyFailed
        then (Some (Err ''execution: invalid terminal idempotency state %q'' [state]), Some s)
        else
          (let key = memoryKey i; r = ms_read s key in
           if mr_state r \<noteq> IdempotencyRunning \<or> mr_attempt r \<noteq> id_attempt i
           then (Some ErrIdempotencyLeaseLost, Some s)
           else (None, Some (s\<lparr>ms_records := AList.update key \<lparr>mr_state = state, mr_attempt = id_attempt i\<rparr> (ms_records s)\<rparr>))))"

definition memory_Lookup :: "IdempotencyIdentity \<Rightarrow> MemoryIdempotencyStore option \<Rightarrow> (string \<times> bool) result" where
  "memory_Lookup i store =
     (case store of
        None \<Rightarrow> Inl ErrIdempotencyUnavailable
      | Some s \<Rightarrow> Inr (mr_state (ms_read s (memoryKey i)), map_of (ms_records s) (memoryKey i) \<noteq> None))"

definition memory_store :: "(MemoryIdempotencyStore option, 'h) IdempotencyStore" where
  "memory_store = \<lparr>st_claim = memory_Claim, st_mark = memory_Mark, st_markTx = None\<rparr>"

section \<open>What a store promises\<close>

text \<open>Any interleaving of claims and marks of any workers, as a sequence of atomic store operations.\<close>

datatype idem_op = OpClaim IdempotencyIdentity | OpMark IdempotencyIdentity string

fun idem_run ::
  "(IdempotencyIdentity \<Rightarrow> 's \<Rightarrow> goerr option \<times> 's) \<Rightarrow> (IdempotencyIdentity \<Rightarrow> string \<Rightarrow> 's \<Rightarrow> goerr option \<times> 's)
     \<Rightarrow> idem_op list \<Rightarrow> 's \<Rightarrow> 's" where
  "idem_run claim mark [] s = s"
| "idem_run claim mark (OpClaim i # ops) s = idem_run claim mark ops (snd (claim i s))"
| "idem_run claim mark (OpMark i st # ops) s = idem_run claim mark ops (snd (mark i st s))"

text \<open>
  \<open>view s k\<close> is the state and the attempt that the store keeps for a key, if any. A store never changes the
  record of another key, never replaces a success, marks a record only for the attempt that holds it, and
  leaves everything as it was when it reports an error. \<open>acceptable\<close> says for which states of the store and
  identities a free key can be claimed.
\<close>

locale idempotency_store =
  fixes claim :: "IdempotencyIdentity \<Rightarrow> 's \<Rightarrow> goerr option \<times> 's"
    and mark :: "IdempotencyIdentity \<Rightarrow> string \<Rightarrow> 's \<Rightarrow> goerr option \<times> 's"
    and view :: "'s \<Rightarrow> idem_key \<Rightarrow> (string \<times> string) option"
    and key :: "IdempotencyIdentity \<Rightarrow> idem_key"
    and attempt :: "IdempotencyIdentity \<Rightarrow> string"
    and acceptable :: "IdempotencyIdentity \<Rightarrow> 's \<Rightarrow> bool"
  assumes claim_ok: "claim i s = (None, s') \<Longrightarrow>
      view s' = (view s)(key i \<mapsto> (IdempotencyRunning, attempt i)) \<and> (\<nexists>a. view s (key i) = Some (IdempotencySucceeded, a))"
    and claim_err: "claim i s = (Some e, s') \<Longrightarrow> view s' = view s"
    and claim_done: "acceptable i s \<Longrightarrow> view s (key i) = Some (IdempotencySucceeded, a) \<Longrightarrow>
      fst (claim i s) = Some ErrIdempotencyCompleted"
    and claim_free: "acceptable i s \<Longrightarrow> view s (key i) = None \<or> view s (key i) = Some (IdempotencyFailed, a) \<Longrightarrow>
      fst (claim i s) = None"
    and mark_ok: "mark i st s = (None, s') \<Longrightarrow> st \<in> {IdempotencySucceeded, IdempotencyFailed} \<and>
      view s' = (view s)(key i \<mapsto> (st, attempt i)) \<and>
      (view s (key i) = Some (IdempotencyRunning, attempt i) \<or> view s (key i) = Some (st, attempt i))"
    and mark_err: "mark i st s = (Some e, s') \<Longrightarrow> view s' = view s"
    and mark_held: "acceptable i s \<Longrightarrow> view s (key i) = Some (IdempotencyRunning, attempt i) \<Longrightarrow>
      st \<in> {IdempotencySucceeded, IdempotencyFailed} \<Longrightarrow> fst (mark i st s) = None"
begin

lemma fenced:
  assumes "view s (key i) = Some (st, a)" "a \<noteq> attempt i"
  shows "\<exists>e s'. mark i st' s = (Some e, s') \<and> view s' = view s"
  using assms mark_ok [of i st' s] mark_err [of i st' s] by (cases "mark i st' s"; cases "fst (mark i st' s)") auto

lemma claim_keeps_success:
  "view s k = Some (IdempotencySucceeded, a) \<Longrightarrow> view (snd (claim i s)) k = Some (IdempotencySucceeded, a)"
  using claim_ok [of i s] claim_err [of i s] by (cases "claim i s"; cases "fst (claim i s)") auto

lemma mark_keeps_success:
  "view s k = Some (IdempotencySucceeded, a) \<Longrightarrow> view (snd (mark i st s)) k = Some (IdempotencySucceeded, a)"
  using mark_ok [of i st s] mark_err [of i st s] by (cases "mark i st s"; cases "fst (mark i st s)") auto

lemma run_keeps_success:
  "view s k = Some (IdempotencySucceeded, a) \<Longrightarrow> view (idem_run claim mark ops s) k = Some (IdempotencySucceeded, a)"
proof (induction ops arbitrary: s)
  case (Cons p ops)
  then show ?case by (cases p) (simp_all add: claim_keeps_success mark_keeps_success)
qed simp

lemma claim_then_held: "claim i s = (None, s') \<Longrightarrow> view s' (key i) = Some (IdempotencyRunning, attempt i)"
  using claim_ok by auto

end

section \<open>The memory store keeps the promise\<close>

definition memory_view :: "MemoryIdempotencyStore option \<Rightarrow> idem_key \<Rightarrow> (string \<times> string) option" where
  "memory_view store k =
     Option.bind store (\<lambda>s. map_option (\<lambda>r. (mr_state r, mr_attempt r)) (map_of (ms_records s) k))"

lemma memory_view_update:
  "memory_view (Some (s\<lparr>ms_records := AList.update k r (ms_records s)\<rparr>)) =
     (memory_view (Some s))(k \<mapsto> (mr_state r, mr_attempt r))"
  by (auto simp: memory_view_def update_conv')

lemma ms_read_view:
  "memory_view (Some s) k = Some (mr_state (ms_read s k), mr_attempt (ms_read s k)) \<or>
   (memory_view (Some s) k = None \<and> mr_state (ms_read s k) = [] \<and> mr_attempt (ms_read s k) = [])"
  by (auto simp: memory_view_def ms_read_def split: option.splits)

interpretation mem: idempotency_store memory_Claim memory_Mark memory_view memoryKey id_attempt "\<lambda>i s. s \<noteq> None"
proof (unfold_locales, goal_cases)
  case (1 i s s')
  then show ?case
    using ms_read_view [of "the s" "memoryKey i"]
    by (cases s) (auto simp: memory_Claim_def Let_def memory_view_update split: if_splits)
next
  case (2 i s e s')
  then show ?case by (cases s) (auto simp: memory_Claim_def Let_def split: if_splits)
next
  case (3 i s a)
  then show ?case
    using ms_read_view [of "the s" "memoryKey i"]
    by (cases s) (auto simp: memory_Claim_def Let_def)
next
  case (4 i s a)
  then show ?case
    using ms_read_view [of "the s" "memoryKey i"]
    by (cases s) (auto simp: memory_Claim_def Let_def)
next
  case (5 i st s s')
  then show ?case
    using ms_read_view [of "the s" "memoryKey i"]
    by (cases s) (auto simp: memory_Mark_def Let_def memory_view_update split: if_splits)
next
  case (6 i st s e s')
  then show ?case by (cases s) (auto simp: memory_Mark_def Let_def split: if_splits)
next
  case (7 i s st)
  then show ?case
    using ms_read_view [of "the s" "memoryKey i"]
    by (cases s) (auto simp: memory_Mark_def Let_def)
qed

section \<open>Life cycle of a claim\<close>

text \<open>A worker other than the holder of attempt \<open>a\<close> for the key \<open>k\<close>.\<close>

fun foreign :: "idem_key \<Rightarrow> string \<Rightarrow> idem_op \<Rightarrow> bool" where
  "foreign k a (OpClaim j) = True"
| "foreign k a (OpMark j st) = (memoryKey j = k \<longrightarrow> id_attempt j \<noteq> a)"

lemma memory_Claim_running:
  "memory_view s (memoryKey i) = Some (IdempotencyRunning, a) \<Longrightarrow> memory_Claim i s = (Some ErrIdempotencyInProgress, s)"
  using ms_read_view [of "the s" "memoryKey i"]
  by (cases s) (auto simp: memory_Claim_def Let_def memory_view_def)

lemma memory_view_present: "memory_view s k = Some r \<Longrightarrow> s \<noteq> None"
  by (cases s) (auto simp: memory_view_def)

lemma held_step:
  assumes held: "memory_view s k = Some (IdempotencyRunning, a)" and "foreign k a p"
  shows "memory_view (idem_run memory_Claim memory_Mark [p] s) k = Some (IdempotencyRunning, a)"
proof (cases p)
  case (OpClaim j)
  show ?thesis
  proof (cases "memoryKey j = k")
    case True
    with held OpClaim show ?thesis by (simp add: memory_Claim_running)
  next
    case False
    with held OpClaim mem.claim_ok [of j s] mem.claim_err [of j s] show ?thesis
      by (cases "memory_Claim j s"; cases "fst (memory_Claim j s)") auto
  qed
next
  case (OpMark j st)
  show ?thesis
  proof (cases "memoryKey j = k")
    case True
    with OpMark assms obtain e s' where "memory_Mark j st s = (Some e, s')" "memory_view s' = memory_view s"
      using mem.fenced [of s j IdempotencyRunning a st] by auto
    with held OpMark show ?thesis by simp
  next
    case False
    with held OpMark mem.mark_ok [of j st s] mem.mark_err [of j st s] show ?thesis
      by (cases "memory_Mark j st s"; cases "fst (memory_Mark j st s)") auto
  qed
qed

lemma idem_run_Cons: "idem_run c m (p # ops) s = idem_run c m ops (idem_run c m [p] s)"
  by (cases p) simp_all

lemma held_run:
  "memory_view s k = Some (IdempotencyRunning, a) \<Longrightarrow> list_all (foreign k a) ops \<Longrightarrow>
     memory_view (idem_run memory_Claim memory_Mark ops s) k = Some (IdempotencyRunning, a)"
proof (induction ops arbitrary: s)
  case (Cons p ops)
  then have "memory_view (idem_run memory_Claim memory_Mark [p] s) k = Some (IdempotencyRunning, a)"
    by (intro held_step) simp_all
  from Cons.IH [OF this] Cons.prems(2) show ?case by (subst idem_run_Cons) simp
qed simp

text \<open>
  Property C10: after a successful claim, whatever other workers claim and mark in between, every claim of
  the same key is refused as in progress, the holder can still mark it, and once it marks success every later
  claim of the key is refused as completed, for ever.
\<close>

theorem memory_claim_lifecycle:
  assumes claim: "memory_Claim i s = (None, s1)" and others: "list_all (foreign (memoryKey i) (id_attempt i)) ops"
    and j: "memoryKey j = memoryKey i"
  defines "s2 \<equiv> idem_run memory_Claim memory_Mark ops s1"
  shows "memory_Claim j s2 = (Some ErrIdempotencyInProgress, s2) \<and>
    (\<exists>s3. memory_Mark i IdempotencySucceeded s2 = (None, s3) \<and>
      (\<forall>ops'. fst (memory_Claim j (idem_run memory_Claim memory_Mark ops' s3)) = Some ErrIdempotencyCompleted))"
proof -
  have held: "memory_view s2 (memoryKey i) = Some (IdempotencyRunning, id_attempt i)"
    unfolding s2_def using held_run [OF mem.claim_then_held [OF claim] others] .
  then have present: "s2 \<noteq> None" by (rule memory_view_present)
  have "fst (memory_Mark i IdempotencySucceeded s2) = None" using mem.mark_held [OF present held] by simp
  then obtain s3 where s3: "memory_Mark i IdempotencySucceeded s2 = (None, s3)" by (metis prod.collapse)
  have fin: "memory_view s3 (memoryKey i) = Some (IdempotencySucceeded, id_attempt i)" using mem.mark_ok [OF s3] by simp
  have "fst (memory_Claim j (idem_run memory_Claim memory_Mark ops' s3)) = Some ErrIdempotencyCompleted" for ops'
  proof -
    let ?s = "idem_run memory_Claim memory_Mark ops' s3"
    have "memory_view ?s (memoryKey j) = Some (IdempotencySucceeded, id_attempt i)"
      using mem.run_keeps_success [OF fin] j by simp
    then show ?thesis using mem.claim_done [of ?s j] memory_view_present [of ?s] by blast
  qed
  with s3 memory_Claim_running [of s2 j] held j show ?thesis by simp
qed

definition ex_claim :: "string \<Rightarrow> IdempotencyIdentity" where
  "ex_claim a = \<lparr>id_tenant = [], id_operation = ''op'', id_key = ''k'', id_attempt = a\<rparr>"

theorem memory_claim_lifecycle_witness:
  "\<exists>s1. memory_Claim (ex_claim ''a'') (Some NewMemoryIdempotencyStore) = (None, s1) \<and>
     fst (memory_Claim (ex_claim ''b'') (idem_run memory_Claim memory_Mark [OpMark (ex_claim ''b'') IdempotencyFailed] s1))
       = Some ErrIdempotencyInProgress"
proof -
  let ?s = "Some NewMemoryIdempotencyStore"
  obtain s1 where s1: "memory_Claim (ex_claim ''a'') ?s = (None, s1)"
    by (simp add: memory_Claim_def ms_read_def NewMemoryIdempotencyStore_def)
  have "list_all (foreign (memoryKey (ex_claim ''a'')) (id_attempt (ex_claim ''a''))) [OpMark (ex_claim ''b'') IdempotencyFailed]"
    "memoryKey (ex_claim ''b'') = memoryKey (ex_claim ''a'')"
    by (simp_all add: ex_claim_def memoryKey_def)
  from memory_claim_lifecycle [OF s1 this] s1 show ?thesis by (metis fst_conv)
qed

end
