(* ===== verification/Executor.thy ===== *)
theory Executor
  imports Idempotency
begin

text \<open>
  The operation executor (\<open>framework/operation/executor.go\<close>): every root operation goes through metadata,
  security, the idempotency claim, the execution scope, the application function and the finalisation of the
  transaction and of the claim, in that order; child operations join the scope of their root. The security
  phase, the unit of work, the idempotency coordinator and the application function are interface values,
  functions on an abstract world \<open>'w\<close>. The state of a run is that world and a log of everything the executor
  did: the events it sent to its observers and the calls it made. Observers recover from their own panics and
  return nothing, so an event in the log stands for its delivery. The application function may panic (with a
  value of type \<open>'p\<close>); the executor then rolls back, fails the claim and panics again.
\<close>

section \<open>Data\<close>

definition ErrExecutorUnavailable :: goerr where "ErrExecutorUnavailable = Err ''operation: executor unavailable'' []"
definition ErrInvokerRequired :: goerr where "ErrInvokerRequired = Err ''operation: invoker is required'' []"
definition ErrSecurityUnavailable :: goerr where "ErrSecurityUnavailable = Err ''operation: security phase unavailable'' []"
definition ErrSecurityNilContext :: goerr where
  "ErrSecurityNilContext = Err ''operation: security phase returned nil context'' []"
definition ErrOpIdempotencyUnavailable :: goerr where
  "ErrOpIdempotencyUnavailable = Err ''operation: idempotency coordinator unavailable'' []"
definition ErrChildExecutionRequired :: goerr where
  "ErrChildExecutionRequired = Err ''operation: child execution requires an active root scope'' []"

datatype Phase = PhasePlan | PhaseMetadata | PhaseSecurity | PhaseIdempotencyBegin | PhaseExecutionScope
  | PhaseApplication | PhaseTransactionFinalize | PhaseIdempotencyFinalize | PhaseOutcome

datatype Outcome = OutcomeStarted | OutcomeSuccess | OutcomeFailure | OutcomePanic

datatype InvocationKind = InvocationRoot | InvocationChild

record Event =
  ev_operation :: string
  ev_kind :: InvocationKind
  ev_phase :: Phase
  ev_outcome :: Outcome

datatype call = Observed Event | SecurityPrepare | IdemBegin | IdemStage | IdemComplete | IdemFail | Invoke | Tx tx_call

record 'w rt =
  rt_world :: 'w
  rt_log :: "call list"

type_synonym ('w, 'h) ctx = "('w, 'h) UnitOfWork Context"

text \<open>
  The idempotency coordinator as the executor sees it. \<open>ic_reports\<close> is \<^const>\<open>None\<close> when it is not an
  \<open>IdempotencyCapabilityReporter\<close>, \<open>ic_stage\<close> when it is not an \<open>AtomicIdempotencyCoordinator\<close>.
\<close>

record ('w, 'h) IdempotencyCoordinator =
  ic_begin :: "('w, 'h) ctx \<Rightarrow> OpPlan \<Rightarrow> 'w \<Rightarrow> ('w, 'h) ctx result \<times> 'w"
  ic_complete :: "('w, 'h) ctx \<Rightarrow> OpPlan \<Rightarrow> 'w \<Rightarrow> goerr option \<times> 'w"
  ic_fail :: "('w, 'h) ctx \<Rightarrow> OpPlan \<Rightarrow> 'w \<Rightarrow> goerr option \<times> 'w"
  ic_reports :: "bool option"
  ic_stage :: "(('w, 'h) ctx \<Rightarrow> OpPlan \<Rightarrow> 'h \<Rightarrow> 'w \<Rightarrow> goerr option \<times> 'w) option"

record ('w, 'h, 'i) executor =
  ex_security :: "(('w, 'h) ctx \<Rightarrow> OpPlan \<Rightarrow> 'i \<Rightarrow> 'w \<Rightarrow> ('w, 'h) ctx option result \<times> 'w) option"
  ex_transactions :: "('w, 'h) TransactionFactory option"
  ex_idempotency :: "('w, 'h) IdempotencyCoordinator option"

type_synonym ('w, 'h, 'p, 'r) Invoker =
  "('w, 'h) ctx \<Rightarrow> 'w \<Rightarrow> ('p, 'r option \<times> goerr option) outcome \<times> 'w"

type_synonym ('w, 'p, 'r) executed = "('p, 'r option \<times> goerr option) outcome \<times> 'w rt"

section \<open>Helpers\<close>

definition Protected :: "OpPlan \<Rightarrow> bool" where
  "Protected plan \<longleftrightarrow> TenantRequired (op_security plan) \<or> Authentication (op_security plan) \<noteq> [] \<or>
     Permissions (op_security plan) \<noteq> []"

definition normalizeRuntimePlan :: "OpPlan \<Rightarrow> OpPlan" where
  "normalizeRuntimePlan plan =
     plan\<lparr>OperationID := trim_space (OperationID plan),
       op_execution := (op_execution plan)\<lparr>
         Transaction := or_default ''none'' (trim_space (Transaction (op_execution plan))),
         Idempotency := or_default ''none'' (trim_space (Idempotency (op_execution plan)))\<rparr>\<rparr>"

definition outcomeFor :: "goerr option \<Rightarrow> Outcome" where
  "outcomeFor e = (if e \<noteq> None then OutcomeFailure else OutcomeSuccess)"

definition add_log :: "call list \<Rightarrow> 'w rt \<Rightarrow> 'w rt" where
  "add_log cs s = s\<lparr>rt_log := rt_log s @ cs\<rparr>"

definition observe :: "string \<Rightarrow> InvocationKind \<Rightarrow> Phase \<Rightarrow> Outcome \<Rightarrow> 'w rt \<Rightarrow> 'w rt" where
  "observe oid kind ph oc s =
     add_log [Observed \<lparr>ev_operation = oid, ev_kind = kind, ev_phase = ph, ev_outcome = oc\<rparr>] s"

text \<open>\<open>Rollback\<close> and \<open>Commit\<close> of the root, and \<open>Fail\<close> of the claim when the operation is idempotent, on a run.\<close>

definition rt_rollback ::
  "('w, 'h) UnitOfWork rootState \<Rightarrow> 'w rt \<Rightarrow> goerr option \<times> 'w rt" where
  "rt_rollback root s =
     (case root_Rollback (Some root) (rt_world s) of
        (e, _, w, calls) \<Rightarrow> (e, add_log (map Tx calls) (s\<lparr>rt_world := w\<rparr>)))"

definition rt_commit ::
  "('w, 'h) UnitOfWork rootState \<Rightarrow> 'w rt \<Rightarrow> goerr option \<times> 'w rt" where
  "rt_commit root s =
     (case root_Commit (Some root) (rt_world s) of
        (e, _, w, calls) \<Rightarrow> (e, add_log (map Tx calls) (s\<lparr>rt_world := w\<rparr>)))"

definition rt_fail ::
  "('w, 'h, 'i) executor \<Rightarrow> bool \<Rightarrow> ('w, 'h) ctx \<Rightarrow> OpPlan \<Rightarrow> 'w rt \<Rightarrow> goerr option \<times> 'w rt" where
  "rt_fail ex idempotent ctx plan s =
     (case ex_idempotency ex of
        Some co \<Rightarrow>
          if idempotent
          then (case ic_fail co ctx plan (rt_world s) of (e, w) \<Rightarrow> (e, add_log [IdemFail] (s\<lparr>rt_world := w\<rparr>)))
          else (None, s)
      | None \<Rightarrow> (None, s))"

definition stageAtomicIdempotency ::
  "('w, 'h, 'i) executor \<Rightarrow> ('w, 'h) ctx \<Rightarrow> OpPlan \<Rightarrow> bool \<Rightarrow> 'w rt \<Rightarrow> (bool \<times> goerr option) \<times> 'w rt" where
  "stageAtomicIdempotency ex ctx plan idempotent s =
     (case ex_idempotency ex of
        None \<Rightarrow> ((False, None), s)
      | Some co \<Rightarrow>
        if \<not> idempotent \<or> Transaction (op_execution plan) \<noteq> ''local'' then ((False, None), s)
        else if ic_reports co \<noteq> Some True then ((False, None), s)
        else case ic_stage co of
          None \<Rightarrow> ((False, Some ErrIdempotencyAtomicUnavailable), s)
        | Some stage \<Rightarrow>
          (case TransactionHandleFrom (Some ctx) of
             Inl e \<Rightarrow> ((False, err_join [Some ErrIdempotencyAtomicUnavailable, Some e]), s)
           | Inr h \<Rightarrow>
             (case stage ctx plan h (rt_world s) of
                (e, w) \<Rightarrow> ((e = None, e), add_log [IdemStage] (s\<lparr>rt_world := w\<rparr>)))))"

section \<open>Execute\<close>

text \<open>The deferred function, when the application function panicked.\<close>

definition execute_panicked ::
  "('w, 'h, 'i) executor \<Rightarrow> ('w, 'h) ctx \<Rightarrow> OpPlan \<Rightarrow> bool \<Rightarrow> ('w, 'h) UnitOfWork rootState \<Rightarrow> 'p \<Rightarrow> 'w rt \<Rightarrow> ('w, 'p, 'r) executed" where
  "execute_panicked ex ctx plan idempotent root p s =
     (let oid = OperationID plan;
          s = observe oid InvocationRoot PhaseApplication OutcomePanic s;
          (_, s) = rt_rollback root s;
          s = observe oid InvocationRoot PhaseTransactionFinalize OutcomePanic s;
          (_, s) = rt_fail ex idempotent ctx plan s;
          s = observe oid InvocationRoot PhaseIdempotencyFinalize OutcomePanic s;
          s = observe oid InvocationRoot PhaseOutcome OutcomePanic s
      in (Panic p, s))"

text \<open>The branch for an error of the application function.\<close>

definition execute_failed ::
  "('w, 'h, 'i) executor \<Rightarrow> ('w, 'h) ctx \<Rightarrow> OpPlan \<Rightarrow> bool \<Rightarrow> ('w, 'h) UnitOfWork rootState \<Rightarrow> 'r option \<Rightarrow> goerr \<Rightarrow> 'w rt
     \<Rightarrow> ('w, 'p, 'r) executed" where
  "execute_failed ex ctx plan idempotent root result err s =
     (let oid = OperationID plan;
          s = observe oid InvocationRoot PhaseApplication OutcomeFailure s;
          s = observe oid InvocationRoot PhaseTransactionFinalize OutcomeStarted s;
          (rollbackErr, s) = rt_rollback root s;
          s = observe oid InvocationRoot PhaseTransactionFinalize (outcomeFor rollbackErr) s;
          s = observe oid InvocationRoot PhaseIdempotencyFinalize OutcomeStarted s;
          (idempotencyErr, s) = rt_fail ex idempotent ctx plan s;
          s = observe oid InvocationRoot PhaseIdempotencyFinalize (outcomeFor idempotencyErr) s;
          s = observe oid InvocationRoot PhaseOutcome OutcomeFailure s
      in (Return (result, err_join [Some err, rollbackErr, idempotencyErr]), s))"

text \<open>The end of a successful run: the commit went through, the claim is completed unless that was staged.\<close>

definition execute_complete ::
  "('w, 'h, 'i) executor \<Rightarrow> ('w, 'h) ctx \<Rightarrow> OpPlan \<Rightarrow> bool \<Rightarrow> bool \<Rightarrow> 'r option \<Rightarrow> 'w rt \<Rightarrow> ('w, 'p, 'r) executed" where
  "execute_complete ex ctx plan idempotent atomic result s =
     (let oid = OperationID plan;
          s = observe oid InvocationRoot PhaseTransactionFinalize OutcomeSuccess s;
          s = observe oid InvocationRoot PhaseIdempotencyFinalize OutcomeStarted s;
          (completeErr, s) =
            (case ex_idempotency ex of
               Some co \<Rightarrow>
                 if idempotent \<and> \<not> atomic
                 then (case ic_complete co ctx plan (rt_world s) of (e, w) \<Rightarrow> (e, add_log [IdemComplete] (s\<lparr>rt_world := w\<rparr>)))
                 else (None, s)
             | None \<Rightarrow> (None, s))
      in if completeErr \<noteq> None
         then (Return (result, completeErr),
               observe oid InvocationRoot PhaseOutcome OutcomeFailure
                 (observe oid InvocationRoot PhaseIdempotencyFinalize OutcomeFailure s))
         else (Return (result, None),
               observe oid InvocationRoot PhaseOutcome OutcomeSuccess
                 (observe oid InvocationRoot PhaseIdempotencyFinalize OutcomeSuccess s)))"

text \<open>The branch for a successful application function.\<close>

definition execute_succeeded ::
  "('w, 'h, 'i) executor \<Rightarrow> ('w, 'h) ctx \<Rightarrow> OpPlan \<Rightarrow> bool \<Rightarrow> ('w, 'h) UnitOfWork rootState \<Rightarrow> 'r option \<Rightarrow> 'w rt
     \<Rightarrow> ('w, 'p, 'r) executed" where
  "execute_succeeded ex ctx plan idempotent root result s =
     (let oid = OperationID plan;
          s = observe oid InvocationRoot PhaseApplication OutcomeSuccess s;
          s = observe oid InvocationRoot PhaseTransactionFinalize OutcomeStarted s;
          ((atomic, atomicErr), s) = stageAtomicIdempotency ex ctx plan idempotent s
      in if atomicErr \<noteq> None then
           (let (rollbackErr, s) = rt_rollback root s;
                s = observe oid InvocationRoot PhaseTransactionFinalize OutcomeFailure s;
                (idempotencyErr, s) = rt_fail ex idempotent ctx plan s;
                s = observe oid InvocationRoot PhaseIdempotencyFinalize (outcomeFor idempotencyErr) s;
                s = observe oid InvocationRoot PhaseOutcome OutcomeFailure s
            in (Return (result, err_join [atomicErr, rollbackErr, idempotencyErr]), s))
         else
           (let (commitErr, s) = rt_commit root s
            in if commitErr \<noteq> None then
                 (let s = observe oid InvocationRoot PhaseTransactionFinalize OutcomeFailure s;
                      (idempotencyErr, s) = rt_fail ex idempotent ctx plan s;
                      s = observe oid InvocationRoot PhaseIdempotencyFinalize (outcomeFor idempotencyErr) s;
                      s = observe oid InvocationRoot PhaseOutcome OutcomeFailure s
                  in (Return (result, err_join [commitErr, idempotencyErr]), s))
               else execute_complete ex ctx plan idempotent atomic result s))"

text \<open>From the application function to the end.\<close>

definition execute_scoped ::
  "('w, 'h, 'i) executor \<Rightarrow> ('w, 'h) ctx \<Rightarrow> OpPlan \<Rightarrow> bool \<Rightarrow> ('w, 'h) UnitOfWork rootState \<Rightarrow> ('w, 'h, 'p, 'r) Invoker \<Rightarrow> 'w rt
     \<Rightarrow> ('w, 'p, 'r) executed" where
  "execute_scoped ex ctx plan idempotent root invoke s =
     (let s = observe (OperationID plan) InvocationRoot PhaseApplication OutcomeStarted s;
          s = add_log [Invoke] s
      in case invoke ctx (rt_world s) of
           (Panic p, w) \<Rightarrow> execute_panicked ex ctx plan idempotent root p (s\<lparr>rt_world := w\<rparr>)
         | (Return (result, Some err), w) \<Rightarrow> execute_failed ex ctx plan idempotent root result err (s\<lparr>rt_world := w\<rparr>)
         | (Return (result, None), w) \<Rightarrow> execute_succeeded ex ctx plan idempotent root result (s\<lparr>rt_world := w\<rparr>))"

definition fail_phase :: "string \<Rightarrow> Phase \<Rightarrow> 'w rt \<Rightarrow> 'w rt" where
  "fail_phase oid ph s =
     observe oid InvocationRoot PhaseOutcome OutcomeFailure (observe oid InvocationRoot ph OutcomeFailure s)"

text \<open>From the execution scope on.\<close>

definition execute_claimed ::
  "('w, 'h, 'i) executor \<Rightarrow> ('w, 'h) ctx \<Rightarrow> OpPlan \<Rightarrow> bool \<Rightarrow> ('w, 'h, 'p, 'r) Invoker \<Rightarrow> 'w rt \<Rightarrow> ('w, 'p, 'r) executed" where
  "execute_claimed ex ctx plan idempotent invoke s =
     (let oid = OperationID plan;
          s = observe oid InvocationRoot PhaseIdempotencyBegin OutcomeSuccess s;
          s = observe oid InvocationRoot PhaseExecutionScope OutcomeStarted s
      in case BeginRoot (ex_transactions ex) (Some ctx) oid (Transaction (op_execution plan))
                (RequiresOperations (op_composition plan)) (rt_world s) of
           (Inl scopeErr, w, calls) \<Rightarrow>
             (let (_, s) = rt_fail ex idempotent ctx plan (add_log (map Tx calls) (s\<lparr>rt_world := w\<rparr>))
              in (Return (None, Some scopeErr), fail_phase oid PhaseExecutionScope s))
         | (Inr (scoped, root), w, calls) \<Rightarrow>
             execute_scoped ex scoped plan idempotent root invoke
               (observe oid InvocationRoot PhaseExecutionScope OutcomeSuccess (add_log (map Tx calls) (s\<lparr>rt_world := w\<rparr>))))"

text \<open>From the idempotency claim on.\<close>

definition execute_secured ::
  "('w, 'h, 'i) executor \<Rightarrow> ('w, 'h) ctx \<Rightarrow> OpPlan \<Rightarrow> ('w, 'h, 'p, 'r) Invoker \<Rightarrow> 'w rt \<Rightarrow> ('w, 'p, 'r) executed" where
  "execute_secured ex ctx plan invoke s =
     (let oid = OperationID plan;
          s = observe oid InvocationRoot PhaseSecurity OutcomeSuccess s;
          idempotent = (Idempotency (op_execution plan) = ''required'');
          s = observe oid InvocationRoot PhaseIdempotencyBegin OutcomeStarted s
      in if \<not> idempotent then execute_claimed ex ctx plan False invoke s
         else case ex_idempotency ex of
           None \<Rightarrow> (Return (None, Some (Wrap ''%w: %s'' [oid] ErrOpIdempotencyUnavailable)),
                   fail_phase oid PhaseIdempotencyBegin s)
         | Some co \<Rightarrow>
           (case ic_begin co ctx plan (rt_world s) of
              (Inl claimErr, w) \<Rightarrow>
                (Return (None, Some claimErr), fail_phase oid PhaseIdempotencyBegin (add_log [IdemBegin] (s\<lparr>rt_world := w\<rparr>)))
            | (Inr claimed, w) \<Rightarrow>
                execute_claimed ex claimed plan True invoke (add_log [IdemBegin] (s\<lparr>rt_world := w\<rparr>))))"

text \<open>The context that the security phase receives.\<close>

definition operation_context :: "('w, 'h) ctx option \<Rightarrow> OpPlan \<Rightarrow> ('w, 'h) ctx" where
  "operation_context ctx plan =
     WithMetadata (Some (nonNil ctx)) ((fst (MetadataFrom (Some (nonNil ctx))))\<lparr>md_operation := OperationID plan\<rparr>)"

definition Execute ::
  "('w, 'h, 'i) executor option \<Rightarrow> ('w, 'h) ctx option \<Rightarrow> OpPlan \<Rightarrow> 'i \<Rightarrow> ('w, 'h, 'p, 'r) Invoker option \<Rightarrow> 'w rt
     \<Rightarrow> ('w, 'p, 'r) executed" where
  "Execute runtime ctx plan input invoker s =
     (case runtime of
        None \<Rightarrow> (Return (None, Some ErrExecutorUnavailable), s)
      | Some ex \<Rightarrow>
        (case invoker of
           None \<Rightarrow> (Return (None, Some ErrInvokerRequired), s)
         | Some invoke \<Rightarrow>
           (let plan = normalizeRuntimePlan plan; oid = OperationID plan in
            if oid = [] then (Return (None, Some (Err ''operation: operationId is required'' [])), s)
            else if Current (Some (nonNil ctx)) \<noteq> None then (Return (None, Some ErrScopeAlreadyActive), s)
            else
              (let s = observe oid InvocationRoot PhasePlan OutcomeStarted s;
                   ctx = operation_context ctx plan;
                   s = observe oid InvocationRoot PhaseMetadata OutcomeSuccess s
               in case ex_security ex of
                    Some security \<Rightarrow>
                      (let s = observe oid InvocationRoot PhaseSecurity OutcomeStarted s in
                       case security ctx plan input (rt_world s) of
                         (Inl securityErr, w) \<Rightarrow>
                           (Return (None, Some securityErr), fail_phase oid PhaseSecurity (add_log [SecurityPrepare] (s\<lparr>rt_world := w\<rparr>)))
                       | (Inr None, w) \<Rightarrow>
                           (Return (None, Some ErrSecurityNilContext), fail_phase oid PhaseSecurity (add_log [SecurityPrepare] (s\<lparr>rt_world := w\<rparr>)))
                       | (Inr (Some secured), w) \<Rightarrow>
                           execute_secured ex secured plan invoke (add_log [SecurityPrepare] (s\<lparr>rt_world := w\<rparr>)))
                  | None \<Rightarrow>
                      if Protected plan
                      then (Return (None, Some (Wrap ''%w: %s'' [oid] ErrSecurityUnavailable)), fail_phase oid PhaseSecurity s)
                      else execute_secured ex ctx plan invoke s))))"

section \<open>ExecuteChild\<close>

definition ExecuteChild ::
  "('w, 'h, 'i) executor option \<Rightarrow> ('w, 'h) ctx option \<Rightarrow> OpPlan \<Rightarrow> ('w, 'h, 'p, 'r) Invoker option \<Rightarrow> 'w rt \<Rightarrow> ('w, 'p, 'r) executed" where
  "ExecuteChild runtime ctx plan invoker s =
     (case runtime of
        None \<Rightarrow> (Return (None, Some ErrExecutorUnavailable), s)
      | Some ex \<Rightarrow>
        (case invoker of
           None \<Rightarrow> (Return (None, Some ErrInvokerRequired), s)
         | Some invoke \<Rightarrow>
           (let plan = normalizeRuntimePlan plan; oid = OperationID plan in
            if Current ctx = None then (Return (None, Some ErrChildExecutionRequired), s)
            else case JoinChild ctx oid (Transaction (op_execution plan)) (RequiresOperations (op_composition plan)) of
              Inl e \<Rightarrow> (Return (None, Some e), s)
            | Inr joined \<Rightarrow>
              (let s = observe oid InvocationChild PhasePlan OutcomeStarted s;
                   joined = operation_context (Some joined) plan;
                   s = observe oid InvocationChild PhaseMetadata OutcomeSuccess s;
                   s = observe oid InvocationChild PhaseApplication OutcomeStarted s;
                   s = add_log [Invoke] s
               in case invoke joined (rt_world s) of
                    (Panic p, w) \<Rightarrow> (Panic p, s\<lparr>rt_world := w\<rparr>)
                  | (Return (value, Some e), w) \<Rightarrow>
                      (Return (value, Some e),
                       observe oid InvocationChild PhaseOutcome OutcomeFailure
                         (observe oid InvocationChild PhaseApplication OutcomeFailure (s\<lparr>rt_world := w\<rparr>)))
                  | (Return (value, None), w) \<Rightarrow>
                      (Return (value, None),
                       observe oid InvocationChild PhaseOutcome OutcomeSuccess
                         (observe oid InvocationChild PhaseApplication OutcomeSuccess (s\<lparr>rt_world := w\<rparr>)))))))"

section \<open>The calls of a run\<close>

fun is_event :: "call \<Rightarrow> bool" where
  "is_event (Observed e) = True"
| "is_event _ = False"

definition effects :: "'w rt \<Rightarrow> call list" where
  "effects s = filter (\<lambda>c. \<not> is_event c) (rt_log s)"

lemma add_log_simps [simp]:
  "rt_world (add_log cs s) = rt_world s" "effects (add_log cs s) = effects s @ filter (\<lambda>c. \<not> is_event c) cs"
  "effects (s\<lparr>rt_world := w\<rparr>) = effects s"
  by (simp_all add: add_log_def effects_def)

lemma observe_simps [simp]:
  "rt_world (observe oid k ph oc s) = rt_world s" "effects (observe oid k ph oc s) = effects s"
  "rt_world (fail_phase oid ph s) = rt_world s" "effects (fail_phase oid ph s) = effects s"
  by (simp_all add: observe_def fail_phase_def)

lemma filter_map_Tx [simp]: "filter (\<lambda>c. \<not> is_event c) (map Tx cs) = map Tx cs"
  by (induction cs) auto

text \<open>What a rollback, a commit and the failing of a claim add to the calls; \<open>tx\<close> says whether there is a unit of work.\<close>

definition rollback_calls :: "bool \<Rightarrow> call list" where
  "rollback_calls tx = (if tx then [Tx TxRollback, Tx TxClose] else [])"

definition commit_calls :: "bool \<Rightarrow> call list" where
  "commit_calls tx = (if tx then [Tx TxCommit, Tx TxClose] else [])"

definition fail_calls :: "bool \<Rightarrow> call list" where
  "fail_calls idem = (if idem then [IdemFail] else [])"

lemma rt_rollback_effects:
  assumes "rt_rollback root s = (e, s')" "\<not> rs_finalized root"
  shows "effects s' = effects s @ rollback_calls (rs_unit root \<noteq> None)"
  using assms by (auto simp: rt_rollback_def root_Rollback_def Let_def rollback_calls_def split: option.splits prod.splits)

lemma rt_commit_effects:
  assumes "rt_commit root s = (e, s')" "\<not> rs_finalized root"
  shows "(effects s' = effects s @ commit_calls (rs_unit root \<noteq> None)) \<or>
    (e \<noteq> None \<and> rs_unit root \<noteq> None \<and> effects s' = effects s @ [Tx TxCommit, Tx TxRollback, Tx TxClose])"
proof (cases "rs_unit root")
  case None
  with assms show ?thesis by (auto simp: rt_commit_def root_Commit_def commit_calls_def)
next
  case (Some u)
  from root_Commit_calls [OF assms(2) Some, of "rt_world s"] obtain e1 w' calls where
    r: "root_Commit (Some root) (rt_world s) = (e1, Some (root\<lparr>rs_finalized := True\<rparr>), w', calls)"
    and c: "calls \<in> {[TxCommit, TxClose], [TxCommit, TxRollback, TxClose]}"
    and ok: "calls = [TxCommit, TxClose] \<longleftrightarrow> fst (uow_commit u (rt_world s)) = None"
    "e1 = None \<longrightarrow> fst (uow_commit u (rt_world s)) = None" by metis
  have "e = e1" "effects s' = effects s @ map Tx calls" using assms(1) r by (auto simp: rt_commit_def)
  with c ok Some show ?thesis by (auto simp: commit_calls_def)
qed

lemma rt_fail_effects:
  assumes "rt_fail ex idem ctx plan s = (e, s')" "idem \<longrightarrow> ex_idempotency ex \<noteq> None"
  shows "effects s' = effects s @ fail_calls idem"
  using assms by (auto simp: rt_fail_def fail_calls_def split: option.splits prod.splits if_splits)

lemma stage_effects:
  assumes "stageAtomicIdempotency ex ctx plan idem s = ((atomic, e), s')"
  shows "(atomic \<longleftrightarrow> idem \<and> e = None \<and> effects s' = effects s @ [IdemStage]) \<and>
    (effects s' = effects s \<or> (idem \<and> effects s' = effects s @ [IdemStage]))"
  using assms unfolding stageAtomicIdempotency_def
  by (auto simp: err_join_def split: option.splits prod.splits if_splits sum.splits)

text \<open>
  What happens from the application function on: its outcome decides the result and the calls that follow
  it. \<open>tx\<close> tells whether the root opened a unit of work, \<open>idem\<close> whether a claim is held.
\<close>

definition scoped_outcome ::
  "bool \<Rightarrow> bool \<Rightarrow> ('p, 'r option \<times> goerr option) outcome \<Rightarrow> ('p, 'r option \<times> goerr option) outcome \<Rightarrow> call list \<Rightarrow> bool" where
  "scoped_outcome tx idem app res fin =
     (case app of
        Panic p \<Rightarrow> res = Panic p \<and> fin = rollback_calls tx @ fail_calls idem
      | Return (r, Some e) \<Rightarrow> (\<exists>err. res = Return (r, Some err) \<and> err_is err e) \<and> fin = rollback_calls tx @ fail_calls idem
      | Return (r, None) \<Rightarrow>
          (\<exists>stage. (stage = [] \<or> idem \<and> stage = [IdemStage]) \<and>
            (res = Return (r, None) \<and> fin = stage @ commit_calls tx @ (if idem \<and> stage = [] then [IdemComplete] else []) \<or>
             (\<exists>err. res = Return (r, Some err)) \<and>
             (fin = stage @ rollback_calls tx @ fail_calls idem \<or>
              fin = stage @ commit_calls tx @ fail_calls idem \<or>
              tx \<and> fin = stage @ [Tx TxCommit, Tx TxRollback, Tx TxClose] @ fail_calls idem \<or>
              idem \<and> stage = [] \<and> fin = commit_calls tx @ [IdemComplete]))))"

lemma err_join_Some: "e \<noteq> None \<Longrightarrow> e \<in> set es \<Longrightarrow> \<exists>err. err_join es = Some err \<and> err_is err (the e)"
proof -
  assume e: "e \<noteq> None" "e \<in> set es"
  then obtain x where x: "e = Some x" by auto
  with e have "err_join es \<noteq> None" by (auto simp: err_join_None_iff)
  then obtain err where "err_join es = Some err" by auto
  with x e err_join_is [of es err x] show ?thesis by auto
qed

lemma execute_panicked_effects:
  assumes "execute_panicked ex ctx plan idem root p s = (res, s')" "\<not> rs_finalized root" "idem \<longrightarrow> ex_idempotency ex \<noteq> None"
  shows "res = Panic p \<and> effects s' = effects s @ rollback_calls (rs_unit root \<noteq> None) @ fail_calls idem"
proof -
  let ?o = "OperationID plan"
  obtain e1 s1 where r: "rt_rollback root (observe ?o InvocationRoot PhaseApplication OutcomePanic s) = (e1, s1)"
    by fastforce
  obtain e2 s2 where f: "rt_fail ex idem ctx plan (observe ?o InvocationRoot PhaseTransactionFinalize OutcomePanic s1) = (e2, s2)"
    by fastforce
  from rt_rollback_effects [OF r assms(2)] rt_fail_effects [OF f assms(3)] assms(1) r f show ?thesis
    by (auto simp: execute_panicked_def Let_def)
qed

lemma execute_failed_effects:
  assumes "execute_failed ex ctx plan idem root r e s = (res, s')" "\<not> rs_finalized root" "idem \<longrightarrow> ex_idempotency ex \<noteq> None"
  shows "(\<exists>err. res = Return (r, Some err) \<and> err_is err e) \<and>
    effects s' = effects s @ rollback_calls (rs_unit root \<noteq> None) @ fail_calls idem"
proof -
  let ?o = "OperationID plan"
  let ?s0 = "observe ?o InvocationRoot PhaseTransactionFinalize OutcomeStarted
    (observe ?o InvocationRoot PhaseApplication OutcomeFailure s)"
  obtain e1 s1 where rb: "rt_rollback root ?s0 = (e1, s1)" by fastforce
  obtain e2 s2 where f: "rt_fail ex idem ctx plan (observe ?o InvocationRoot PhaseIdempotencyFinalize OutcomeStarted
      (observe ?o InvocationRoot PhaseTransactionFinalize (outcomeFor e1) s1)) = (e2, s2)" by fastforce
  obtain err where "err_join [Some e, e1, e2] = Some err" "err_is err e" using err_join_Some [of "Some e" "[Some e, e1, e2]"] by auto
  with rt_rollback_effects [OF rb assms(2)] rt_fail_effects [OF f assms(3)] assms(1) rb f show ?thesis
    by (auto simp: execute_failed_def Let_def)
qed

lemma execute_complete_effects:
  assumes "execute_complete ex ctx plan idem atomic r s = (res, s')" "idem \<longrightarrow> ex_idempotency ex \<noteq> None"
  shows "effects s' = effects s @ (if idem \<and> \<not> atomic then [IdemComplete] else []) \<and>
    (res = Return (r, None) \<or> (\<exists>err. res = Return (r, Some err)) \<and> idem \<and> \<not> atomic)"
  using assms unfolding execute_complete_def
  by (cases "idem \<and> \<not> atomic") (auto simp: Let_def split: option.splits prod.splits if_splits)

lemma execute_succeeded_effects:
  assumes run: "execute_succeeded ex ctx plan idem root r s = (res, s')"
    and root: "\<not> rs_finalized root" and co: "idem \<longrightarrow> ex_idempotency ex \<noteq> None"
  shows "\<exists>fin. effects s' = effects s @ fin \<and> scoped_outcome (rs_unit root \<noteq> None) idem (Return (r, None)) res fin"
proof -
  let ?o = "OperationID plan" and ?tx = "rs_unit root \<noteq> None"
  let ?s0 = "observe ?o InvocationRoot PhaseTransactionFinalize OutcomeStarted
    (observe ?o InvocationRoot PhaseApplication OutcomeSuccess s)"
  obtain atomic ae s1 where st: "stageAtomicIdempotency ex ctx plan idem ?s0 = ((atomic, ae), s1)" by (metis surj_pair)
  from stage_effects [OF st] obtain stage where stage: "stage = [] \<or> idem \<and> stage = [IdemStage]"
    and s1: "effects s1 = effects s @ stage" and at: "atomic \<longleftrightarrow> idem \<and> ae = None \<and> stage = [IdemStage]" by auto
  show ?thesis
  proof (cases "ae = None")
    case False
    obtain e1 s2 where rb: "rt_rollback root s1 = (e1, s2)" by fastforce
    obtain e2 s3 where f: "rt_fail ex idem ctx plan (observe ?o InvocationRoot PhaseTransactionFinalize OutcomeFailure s2) = (e2, s3)"
      by fastforce
    obtain err where err: "err_join [ae, e1, e2] = Some err" using err_join_Some [OF False, of "[ae, e1, e2]"] by auto
    have "res = Return (r, Some err)" "effects s' = effects s @ stage @ rollback_calls ?tx @ fail_calls idem"
      using run st False rb f err rt_rollback_effects [OF rb root] rt_fail_effects [OF f co] s1
      by (auto simp: execute_succeeded_def Let_def)
    with stage show ?thesis by (intro exI [of _ "stage @ rollback_calls ?tx @ fail_calls idem"]) (auto simp: scoped_outcome_def)
  next
    case True
    obtain ce s2 where c: "rt_commit root s1 = (ce, s2)" by fastforce
    show ?thesis
    proof (cases "ce = None")
      case False
      obtain e2 s3 where f: "rt_fail ex idem ctx plan (observe ?o InvocationRoot PhaseTransactionFinalize OutcomeFailure s2) = (e2, s3)"
        by fastforce
      obtain err where err: "err_join [ce, e2] = Some err" using err_join_Some [OF False, of "[ce, e2]"] by auto
      have "res = Return (r, Some err)" "effects s' = effects s2 @ fail_calls idem"
        using run st True False c f err rt_fail_effects [OF f co] by (auto simp: execute_succeeded_def Let_def)
      with rt_commit_effects [OF c root] s1 stage show ?thesis by (fastforce simp: scoped_outcome_def)
    next
      case ok: True
      have done_c: "effects s2 = effects s1 @ commit_calls ?tx" using rt_commit_effects [OF c root] ok by simp
      have "execute_complete ex ctx plan idem atomic r s2 = (res, s')"
        using run st True ok c by (simp add: execute_succeeded_def Let_def)
      from execute_complete_effects [OF this co] done_c s1 at True stage show ?thesis
        by (cases "idem \<and> \<not> atomic") (auto simp: scoped_outcome_def)
    qed
  qed
qed

lemma execute_scoped_effects:
  assumes run: "execute_scoped ex ctx plan idem root invoke s = (res, s')"
    and root: "\<not> rs_finalized root" and co: "idem \<longrightarrow> ex_idempotency ex \<noteq> None"
  shows "\<exists>fin. effects s' = effects s @ Invoke # fin \<and>
    scoped_outcome (rs_unit root \<noteq> None) idem (fst (invoke ctx (rt_world s))) res fin"
proof -
  let ?s0 = "add_log [Invoke] (observe (OperationID plan) InvocationRoot PhaseApplication OutcomeStarted s)"
  obtain out w where app: "invoke ctx (rt_world s) = (out, w)" by fastforce
  let ?s1 = "?s0\<lparr>rt_world := w\<rparr>"
  have eff: "effects ?s1 = effects s @ [Invoke]" by simp
  consider p where "out = Panic p" | r e where "out = Return (r, Some e)" | r where "out = Return (r, None)"
    by (metis outcome.exhaust option.exhaust surj_pair)
  then show ?thesis
  proof cases
    case 1
    with run app have "execute_panicked ex ctx plan idem root p ?s1 = (res, s')" by (simp add: execute_scoped_def Let_def)
    from execute_panicked_effects [OF this root co] app 1 eff show ?thesis by (simp add: scoped_outcome_def)
  next
    case 2
    with run app have "execute_failed ex ctx plan idem root r e ?s1 = (res, s')" by (simp add: execute_scoped_def Let_def)
    from execute_failed_effects [OF this root co] app 2 eff show ?thesis by (simp add: scoped_outcome_def)
  next
    case 3
    with run app have "execute_succeeded ex ctx plan idem root r ?s1 = (res, s')" by (simp add: execute_scoped_def Let_def)
    from execute_succeeded_effects [OF this root co] app 3 eff show ?thesis by auto
  qed
qed

text \<open>
  A whole run either stops before the application function, with an error and without a commit, or passes
  every guard in order and continues as \<open>scoped_outcome\<close> says.
\<close>

definition stopped :: "('p, 'r option \<times> goerr option) outcome \<Rightarrow> call list \<Rightarrow> bool" where
  "stopped res cs \<longleftrightarrow> (\<exists>err. res = Return (None, Some err)) \<and> Invoke \<notin> set cs \<and> Tx TxCommit \<notin> set cs \<and> Tx TxClose \<notin> set cs"

definition begin_calls :: "string \<Rightarrow> call list" where
  "begin_calls mode = (if mode = TransactionNone then [] else [Tx (TxBegin mode)])"

lemma filter_begin_calls [simp]: "filter (\<lambda>c. \<not> is_event c) (begin_calls n) = begin_calls n"
  by (simp add: begin_calls_def)

lemma execute_claimed_effects:
  assumes run: "execute_claimed ex ctx plan idem invoke s = (res, s')" and co: "idem \<longrightarrow> ex_idempotency ex \<noteq> None"
  shows "(\<exists>cs. effects s' = effects s @ cs \<and> stopped res cs) \<or>
    (\<exists>n c w fin. normalizeMode (Transaction (op_execution plan)) = Inr n \<and>
       effects s' = effects s @ begin_calls n @ Invoke # fin \<and> cx_claim c = cx_claim ctx \<and>
       scoped_outcome (n \<noteq> TransactionNone) idem (fst (invoke c w)) res fin)"
proof -
  let ?o = "OperationID plan"
  let ?s0 = "observe ?o InvocationRoot PhaseExecutionScope OutcomeStarted
    (observe ?o InvocationRoot PhaseIdempotencyBegin OutcomeSuccess s)"
  obtain r w calls where b: "BeginRoot (ex_transactions ex) (Some ctx) ?o (Transaction (op_execution plan))
      (RequiresOperations (op_composition plan)) (rt_world s) = (r, w, calls)" by (metis surj_pair)
  show ?thesis
  proof (cases r)
    case (Inl e)
    have calls: "calls = [] \<or> (\<exists>m. calls = [TxBegin m])" using b Inl unfolding BeginRoot_def
      by (auto simp: Let_def split: if_splits sum.splits option.splits prod.splits)
    obtain e1 s1 where f: "rt_fail ex idem ctx plan (add_log (map Tx calls) (?s0\<lparr>rt_world := w\<rparr>)) = (e1, s1)" by fastforce
    have "res = Return (None, Some e)" "effects s' = effects s @ map Tx calls @ fail_calls idem"
      using run b Inl f rt_fail_effects [OF f co] by (auto simp: execute_claimed_def Let_def)
    with calls show ?thesis by (auto simp: stopped_def fail_calls_def)
  next
    case (Inr p)
    obtain c root where p: "p = (c, root)" by fastforce
    note B = BeginRoot_Inr [OF b [unfolded Inr p]]
    let ?s1 = "observe ?o InvocationRoot PhaseExecutionScope OutcomeSuccess (add_log (map Tx calls) (?s0\<lparr>rt_world := w\<rparr>))"
    have scoped: "execute_scoped ex c plan idem root invoke ?s1 = (res, s')"
      using run b Inr p by (simp add: execute_claimed_def Let_def)
    from B obtain n where n: "normalizeMode (Transaction (op_execution plan)) = Inr n"
      and root: "\<not> rs_finalized root" "rs_unit root \<noteq> None \<longleftrightarrow> n \<noteq> TransactionNone" "map Tx calls = begin_calls n"
      and claim: "cx_claim c = cx_claim ctx"
      by (cases root) (auto simp: begin_calls_def)
    from execute_scoped_effects [OF scoped root(1) co] obtain fin where
      "effects s' = effects s @ begin_calls n @ Invoke # fin"
      "scoped_outcome (n \<noteq> TransactionNone) idem (fst (invoke c (rt_world ?s1))) res fin"
      using root(2,3) by auto
    with n claim show ?thesis by blast
  qed
qed

definition idempotent_plan :: "OpPlan \<Rightarrow> bool" where
  "idempotent_plan plan \<longleftrightarrow> Idempotency (op_execution plan) = ''required''"

text \<open>The claim of an idempotent operation was taken by the coordinator.\<close>

definition claim_taken :: "('w, 'h, 'i) executor \<Rightarrow> OpPlan \<Rightarrow> ('w, 'h) ctx \<Rightarrow> bool" where
  "claim_taken ex plan c \<longleftrightarrow>
     (\<exists>co c0 w0 c1 w1. ex_idempotency ex = Some co \<and> ic_begin co c0 plan w0 = (Inr c1, w1) \<and> cx_claim c = cx_claim c1)"

lemma execute_secured_effects:
  assumes run: "execute_secured ex ctx plan invoke s = (res, s')"
  shows "(\<exists>cs. effects s' = effects s @ cs \<and> stopped res cs) \<or>
    (\<exists>n c w fin. normalizeMode (Transaction (op_execution plan)) = Inr n \<and>
       effects s' = effects s @ (if idempotent_plan plan then [IdemBegin] else []) @ begin_calls n @ Invoke # fin \<and>
       scoped_outcome (n \<noteq> TransactionNone) (idempotent_plan plan) (fst (invoke c w)) res fin \<and>
       (idempotent_plan plan \<longrightarrow> claim_taken ex plan c))"
proof -
  let ?o = "OperationID plan"
  let ?s0 = "observe ?o InvocationRoot PhaseIdempotencyBegin OutcomeStarted
    (observe ?o InvocationRoot PhaseSecurity OutcomeSuccess s)"
  show ?thesis
  proof (cases "idempotent_plan plan")
    case False
    then have "execute_claimed ex ctx plan False invoke ?s0 = (res, s')"
      using run by (simp add: execute_secured_def Let_def idempotent_plan_def)
    from execute_claimed_effects [OF this] False show ?thesis by auto
  next
    case idem: True
    show ?thesis
    proof (cases "ex_idempotency ex")
      case None
      with run idem have "res = Return (None, Some (Wrap ''%w: %s'' [?o] ErrOpIdempotencyUnavailable))" "effects s' = effects s"
        by (auto simp: execute_secured_def Let_def idempotent_plan_def)
      then show ?thesis by (simp add: stopped_def)
    next
      case (Some co)
      obtain r w where b: "ic_begin co ctx plan (rt_world s) = (r, w)" by fastforce
      show ?thesis
      proof (cases r)
        case (Inl e)
        with run idem Some b have "res = Return (None, Some e)" "effects s' = effects s @ [IdemBegin]"
          by (auto simp: execute_secured_def Let_def idempotent_plan_def)
        then show ?thesis by (auto simp: stopped_def)
      next
        case (Inr c1)
        let ?s1 = "add_log [IdemBegin] (?s0\<lparr>rt_world := w\<rparr>)"
        have "execute_claimed ex c1 plan True invoke ?s1 = (res, s')"
          using run idem Some b Inr by (simp add: execute_secured_def Let_def idempotent_plan_def)
        moreover have "True \<longrightarrow> ex_idempotency ex \<noteq> None" using Some by simp
        ultimately have E: "(\<exists>cs. effects s' = effects ?s1 @ cs \<and> stopped res cs) \<or>
          (\<exists>n c w fin. normalizeMode (Transaction (op_execution plan)) = Inr n \<and>
             effects s' = effects ?s1 @ begin_calls n @ Invoke # fin \<and> cx_claim c = cx_claim c1 \<and>
             scoped_outcome (n \<noteq> TransactionNone) True (fst (invoke c w)) res fin)"
          by (rule execute_claimed_effects)
        have taken: "claim_taken ex plan c" if "cx_claim c = cx_claim c1" for c
          unfolding claim_taken_def using Some b Inr that by blast
        from E show ?thesis
        proof (elim disjE exE conjE, goal_cases)
          case (1 cs)
          then show ?case by (intro disjI1 exI [of _ "IdemBegin # cs"]) (simp add: stopped_def)
        next
          case (2 n c w fin)
          then show ?case using idem taken by (intro disjI2 exI [of _ n] exI [of _ c] exI [of _ w] exI [of _ fin]) simp
        qed
      qed
    qed
  qed
qed

text \<open>The guards that a run passed before the application function.\<close>

definition security_passed :: "('w, 'h, 'i) executor \<Rightarrow> ('w, 'h) ctx option \<Rightarrow> OpPlan \<Rightarrow> 'i \<Rightarrow> 'w \<Rightarrow> bool" where
  "security_passed ex ctx plan input w =
     (case ex_security ex of
        None \<Rightarrow> \<not> Protected plan
      | Some security \<Rightarrow> (\<exists>c w'. security (operation_context ctx plan) plan input w = (Inr (Some c), w')))"

definition guard_calls :: "('w, 'h, 'i) executor \<Rightarrow> OpPlan \<Rightarrow> call list" where
  "guard_calls ex plan =
     (if ex_security ex = None then [] else [SecurityPrepare]) @ (if idempotent_plan plan then [IdemBegin] else [])"

lemma Execute_run:
  assumes run: "Execute (Some ex) ctx plan input (Some invoke) s = (res, s')"
  defines "p \<equiv> normalizeRuntimePlan plan"
  shows "(\<exists>cs. effects s' = effects s @ cs \<and> stopped res cs) \<or>
    (\<exists>n c w fin. normalizeMode (Transaction (op_execution p)) = Inr n \<and>
       effects s' = effects s @ guard_calls ex p @ begin_calls n @ Invoke # fin \<and>
       scoped_outcome (n \<noteq> TransactionNone) (idempotent_plan p) (fst (invoke c w)) res fin \<and>
       (idempotent_plan p \<longrightarrow> claim_taken ex p c) \<and> security_passed ex ctx p input (rt_world s))"
proof (cases "OperationID p = [] \<or> Current (Some (nonNil ctx)) \<noteq> None")
  case True
  with run have "s' = s" "\<exists>e. res = Return (None, Some e)"
    by (cases "OperationID p = []"; auto simp: Execute_def Let_def p_def)+
  then show ?thesis by (simp add: stopped_def)
next
  case False
  let ?c = "operation_context ctx p" and ?o = "OperationID p"
  let ?s0 = "observe ?o InvocationRoot PhaseMetadata OutcomeSuccess (observe ?o InvocationRoot PhasePlan OutcomeStarted s)"
  show ?thesis
  proof (cases "ex_security ex")
    case None
    show ?thesis
    proof (cases "Protected p")
      case True
      with run False None have "effects s' = effects s" "\<exists>e. res = Return (None, Some e)"
        by (auto simp: Execute_def Let_def p_def)
      then show ?thesis by (simp add: stopped_def)
    next
      case unprotected: False
      with run False None have "execute_secured ex ?c p invoke ?s0 = (res, s')" by (simp add: Execute_def Let_def p_def)
      from execute_secured_effects [OF this] None unprotected show ?thesis
        by (auto simp: guard_calls_def security_passed_def)
    qed
  next
    case (Some security)
    let ?s1 = "observe ?o InvocationRoot PhaseSecurity OutcomeStarted ?s0"
    obtain r w where sec: "security ?c p input (rt_world s) = (r, w)" by fastforce
    show ?thesis
    proof (cases "\<exists>secured. r = Inr (Some secured)")
      case True
      then obtain secured where r: "r = Inr (Some secured)" by blast
      let ?s2 = "add_log [SecurityPrepare] (?s1\<lparr>rt_world := w\<rparr>)"
      have "execute_secured ex secured p invoke ?s2 = (res, s')"
        using run False Some sec r by (simp add: Execute_def Let_def p_def)
      note E = execute_secured_effects [OF this]
      have "security_passed ex ctx p input (rt_world s)" using Some sec r by (simp add: security_passed_def)
      with E Some show ?thesis
      proof (elim disjE exE conjE, goal_cases)
        case (1 cs)
        then show ?case by (intro disjI1 exI [of _ "SecurityPrepare # cs"]) (simp add: stopped_def)
      next
        case (2 n c w fin)
        then show ?case
          by (intro disjI2 exI [of _ n] exI [of _ c] exI [of _ w] exI [of _ fin]) (simp add: guard_calls_def)
      qed
    next
      case bad: False
      with run False Some sec have "effects s' = effects s @ [SecurityPrepare]" "\<exists>e. res = Return (None, Some e)"
        by (auto simp: Execute_def Let_def p_def split: sum.splits option.splits)
      then show ?thesis by (auto simp: stopped_def)
    qed
  qed
qed

text \<open>
  Property C2: the application function of a root operation runs at most once per execution, and only after
  the security phase returned a context (or, without a security phase, only for an unprotected plan) and,
  when the plan requires idempotency, after the coordinator took the claim; these calls precede it, in that
  order, and no transaction has been committed before it.
\<close>

theorem Execute_guarded:
  assumes "Execute (Some ex) ctx plan input (Some invoke) \<lparr>rt_world = w, rt_log = []\<rparr> = (res, s')"
    and "Invoke \<in> set (rt_log s')"
  shows "security_passed ex ctx (normalizeRuntimePlan plan) input w \<and>
    (idempotent_plan (normalizeRuntimePlan plan) \<longrightarrow> (\<exists>c. claim_taken ex (normalizeRuntimePlan plan) c)) \<and>
    (\<exists>n fin. effects s' = guard_calls ex (normalizeRuntimePlan plan) @ begin_calls n @ Invoke # fin \<and> Invoke \<notin> set fin)"
proof -
  have "Invoke \<in> set (effects s')" using assms(2) by (simp add: effects_def)
  then have "\<not> (\<exists>cs. effects s' = effects \<lparr>rt_world = w, rt_log = []\<rparr> @ cs \<and> stopped res cs)"
    by (auto simp: stopped_def effects_def)
  with Execute_run [OF assms(1)] obtain n c w' fin where
    e: "effects s' = guard_calls ex (normalizeRuntimePlan plan) @ begin_calls n @ Invoke # fin"
    and so: "scoped_outcome (n \<noteq> TransactionNone) (idempotent_plan (normalizeRuntimePlan plan)) (fst (invoke c w')) res fin"
    and ok: "idempotent_plan (normalizeRuntimePlan plan) \<longrightarrow> claim_taken ex (normalizeRuntimePlan plan) c"
      "security_passed ex ctx (normalizeRuntimePlan plan) input w"
    by (auto simp: effects_def)
  have "Invoke \<notin> set fin"
    using so by (auto simp: scoped_outcome_def rollback_calls_def commit_calls_def fail_calls_def
        split: outcome.splits prod.splits option.splits if_splits)
  with e ok show ?thesis by blast
qed

lemma count_effects: "\<not> is_event x \<Longrightarrow> count_list (rt_log s) x = count_list (effects s) x"
proof -
  assume x: "\<not> is_event x"
  have "count_list xs x = count_list (filter (\<lambda>c. \<not> is_event c) xs) x" for xs
    using x by (induction xs) auto
  then show ?thesis by (simp add: effects_def)
qed

lemma mem_effects: "\<not> is_event x \<Longrightarrow> x \<in> set (rt_log s) \<longleftrightarrow> x \<in> set (effects s)"
  by (auto simp: effects_def)

lemma guard_calls_count:
  "count_list (guard_calls ex p) (Tx c) = 0" "count_list (begin_calls n) (Tx TxClose) = 0"
  "count_list (guard_calls ex p) IdemComplete = 0" "count_list (guard_calls ex p) IdemFail = 0"
  "count_list (begin_calls n) IdemComplete = 0" "count_list (begin_calls n) IdemFail = 0"
  "Tx c \<notin> set (guard_calls ex p)" "Tx TxCommit \<notin> set (begin_calls n)" "Tx TxRollback \<notin> set (begin_calls n)"
  "IdemStage \<notin> set (guard_calls ex p)" "IdemStage \<notin> set (begin_calls n)"
  by (auto simp: guard_calls_def begin_calls_def)

lemma scoped_outcome_calls:
  assumes "scoped_outcome tx idem app res fin"
  shows "(Tx TxCommit \<in> set fin \<longrightarrow> tx \<and> (\<exists>r. app = Return (r, None)))"
    and "res = Return (r, None) \<Longrightarrow> app = Return (r, None) \<and> (tx \<longrightarrow> Tx TxCommit \<in> set fin \<and> Tx TxRollback \<notin> set fin)"
    and "app = Panic p \<Longrightarrow> res = Panic p"
    and "count_list fin (Tx TxClose) = (if tx then 1 else 0)"
    and "idem \<Longrightarrow> count_list fin IdemComplete + count_list fin IdemFail = 1 \<or>
      IdemStage \<in> set fin \<and> count_list fin IdemComplete + count_list fin IdemFail = 0 \<and> (\<exists>r. res = Return (r, None))"
  using assms
  by (auto simp: scoped_outcome_def rollback_calls_def commit_calls_def fail_calls_def
      split: outcome.splits prod.splits option.splits if_splits)

text \<open>
  Property C1: when the application function ran, the transaction is committed only if it returned without
  error, an execution that reports no error has committed its transaction and rolled nothing back, a panic of
  the application is passed on, the unit of work is closed exactly once, and the claim of an idempotent
  operation is finalised exactly once: completed or failed, or staged in the committed transaction.
\<close>

theorem Execute_transactional:
  assumes "Execute (Some ex) ctx plan input (Some invoke) \<lparr>rt_world = w, rt_log = []\<rparr> = (res, s')"
    and "Invoke \<in> set (rt_log s')"
  shows "\<exists>c w' app n. fst (invoke c w') = app \<and>
    normalizeMode (Transaction (op_execution (normalizeRuntimePlan plan))) = Inr n \<and>
    (Tx TxCommit \<in> set (rt_log s') \<longrightarrow> n \<noteq> TransactionNone \<and> (\<exists>r. app = Return (r, None))) \<and>
    (\<forall>r. res = Return (r, None) \<longrightarrow> app = Return (r, None) \<and>
       (n \<noteq> TransactionNone \<longrightarrow> Tx TxCommit \<in> set (rt_log s') \<and> Tx TxRollback \<notin> set (rt_log s'))) \<and>
    (\<forall>p. app = Panic p \<longrightarrow> res = Panic p) \<and>
    count_list (rt_log s') (Tx TxClose) = (if n \<noteq> TransactionNone then 1 else 0) \<and>
    (idempotent_plan (normalizeRuntimePlan plan) \<longrightarrow>
       count_list (rt_log s') IdemComplete + count_list (rt_log s') IdemFail = 1 \<or>
       IdemStage \<in> set (rt_log s') \<and> count_list (rt_log s') IdemComplete + count_list (rt_log s') IdemFail = 0 \<and>
         (\<exists>r. res = Return (r, None)))"
proof -
  let ?p = "normalizeRuntimePlan plan"
  have "Invoke \<in> set (effects s')" using assms(2) by (simp add: effects_def)
  then have "\<not> (\<exists>cs. effects s' = effects \<lparr>rt_world = w, rt_log = []\<rparr> @ cs \<and> stopped res cs)"
    by (auto simp: stopped_def effects_def)
  with Execute_run [OF assms(1)] obtain n c w' fin where n: "normalizeMode (Transaction (op_execution ?p)) = Inr n"
    and e: "effects s' = guard_calls ex ?p @ begin_calls n @ Invoke # fin"
    and so: "scoped_outcome (n \<noteq> TransactionNone) (idempotent_plan ?p) (fst (invoke c w')) res fin"
    by (auto simp: effects_def)
  note calls = scoped_outcome_calls [OF so]
  have mem: "Tx TxCommit \<in> set (rt_log s') \<longleftrightarrow> Tx TxCommit \<in> set fin" "Tx TxRollback \<in> set (rt_log s') \<longleftrightarrow> Tx TxRollback \<in> set fin"
    "IdemStage \<in> set (rt_log s') \<longleftrightarrow> IdemStage \<in> set fin"
    by (simp_all add: mem_effects e guard_calls_count)
  have cnt: "count_list (rt_log s') (Tx TxClose) = count_list fin (Tx TxClose)"
    "count_list (rt_log s') IdemComplete = count_list fin IdemComplete" "count_list (rt_log s') IdemFail = count_list fin IdemFail"
    by (simp_all add: count_effects e guard_calls_count)
  show ?thesis
    unfolding mem cnt
    by (rule exI [of _ c], rule exI [of _ w'], rule exI [of _ "fst (invoke c w')"], rule exI [of _ n])
      (use n calls in blast)
qed

definition ex_executor :: "(nat, nat, unit) executor" where
  "ex_executor = \<lparr>ex_security = None, ex_transactions = Some (\<lambda>m w. (Inr (Some ex_uow), w + 10)), ex_idempotency = None\<rparr>"

definition ex_local_op :: OpPlan where
  "ex_local_op = (ex_op ''op'' [] [] [])\<lparr>op_execution := \<lparr>Transaction = ''local'', Idempotency = []\<rparr>\<rparr>"

definition ex_invoker :: "(nat, nat, unit, nat) Invoker" where
  "ex_invoker ctx w = (Return (Some w, None), w + 100)"

definition ex_execution :: "(nat, unit, nat) executed" where
  "ex_execution = Execute (Some ex_executor) None ex_local_op () (Some ex_invoker) \<lparr>rt_world = 0, rt_log = []\<rparr>"

lemma ex_execution_runs: "Invoke \<in> set (rt_log (snd ex_execution)) \<and> fst ex_execution = Return (Some 10, None)"
  by code_simp

theorem Execute_guarded_witness:
  "\<exists>n fin. effects (snd ex_execution) = begin_calls n @ Invoke # fin \<and> Invoke \<notin> set fin"
proof -
  have run: "Execute (Some ex_executor) None ex_local_op () (Some ex_invoker) \<lparr>rt_world = 0, rt_log = []\<rparr> =
      (fst ex_execution, snd ex_execution)" by (simp add: ex_execution_def)
  have "guard_calls ex_executor (normalizeRuntimePlan ex_local_op) = []" by code_simp
  with Execute_guarded [OF run] ex_execution_runs show ?thesis by auto
qed

theorem Execute_transactional_witness:
  "count_list (rt_log (snd ex_execution)) (Tx TxClose) = 1 \<and> Tx TxCommit \<in> set (rt_log (snd ex_execution))"
proof -
  have run: "Execute (Some ex_executor) None ex_local_op () (Some ex_invoker) \<lparr>rt_world = 0, rt_log = []\<rparr> =
      (fst ex_execution, snd ex_execution)" by (simp add: ex_execution_def)
  have inv: "Invoke \<in> set (rt_log (snd ex_execution))" and ok: "fst ex_execution = Return (Some 10, None)"
    using ex_execution_runs by simp_all
  have mode: "normalizeMode (Transaction (op_execution (normalizeRuntimePlan ex_local_op))) = Inr TransactionLocal" by code_simp
  from Execute_transactional [OF run inv] obtain n where
    "normalizeMode (Transaction (op_execution (normalizeRuntimePlan ex_local_op))) = Inr n"
    "n \<noteq> TransactionNone \<longrightarrow> Tx TxCommit \<in> set (rt_log (snd ex_execution))"
    "count_list (rt_log (snd ex_execution)) (Tx TxClose) = (if n \<noteq> TransactionNone then 1 else 0)"
    unfolding ok by blast
  with mode show ?thesis by (simp add: transaction_modes)
qed

section \<open>The claim of a successful run\<close>

text \<open>
  A run of an idempotent operation that reports no error, with a coordinator that does not stage its mark in
  the transaction, ends with a completion that the coordinator accepted, for the claim it began with.
\<close>

lemma execute_complete_success:
  assumes "execute_complete ex ctx plan True False r s = (res, s')" "res = Return (r', None)" "ex_idempotency ex = Some co"
  shows "\<exists>w. ic_complete co ctx plan w = (None, rt_world s')"
  using assms by (auto simp: execute_complete_def Let_def split: prod.splits if_splits)

lemma execute_succeeded_success:
  assumes run: "execute_succeeded ex ctx plan True root r s = (res, s')" and res: "res = Return (r', None)"
    and co: "ex_idempotency ex = Some co" "ic_reports co \<noteq> Some True"
  shows "\<exists>w. ic_complete co ctx plan w = (None, rt_world s')"
proof -
  let ?o = "OperationID plan"
  let ?s0 = "observe ?o InvocationRoot PhaseTransactionFinalize OutcomeStarted
    (observe ?o InvocationRoot PhaseApplication OutcomeSuccess s)"
  have st: "stageAtomicIdempotency ex ctx plan True ?s0 = ((False, None), ?s0)"
    using co by (simp add: stageAtomicIdempotency_def)
  obtain ce s2 where c: "rt_commit root ?s0 = (ce, s2)" by fastforce
  have "ce = None"
  proof (rule ccontr)
    assume ce: "ce \<noteq> None"
    obtain e2 s3 where f: "rt_fail ex True ctx plan (observe ?o InvocationRoot PhaseTransactionFinalize OutcomeFailure s2) = (e2, s3)"
      by fastforce
    obtain err where "err_join [ce, e2] = Some err" using err_join_Some [OF ce, of "[ce, e2]"] by auto
    with run res st ce c f show False by (auto simp: execute_succeeded_def Let_def)
  qed
  with run st c have "execute_complete ex ctx plan True False r s2 = (res, s')"
    by (simp add: execute_succeeded_def Let_def)
  from execute_complete_success [OF this res co(1)] show ?thesis .
qed

lemma execute_failed_error: "fst (execute_failed ex ctx plan idem root r e s) \<noteq> Return (r', None)"
proof -
  have "err_join [Some e, a, b] \<noteq> None" for a b by (simp add: err_join_None_iff)
  then show ?thesis by (auto simp: execute_failed_def Let_def split: prod.splits)
qed

lemma execute_scoped_success:
  assumes run: "execute_scoped ex ctx plan True root invoke s = (res, s')" and res: "res = Return (r', None)"
    and co: "ex_idempotency ex = Some co" "ic_reports co \<noteq> Some True"
  shows "\<exists>w. ic_complete co ctx plan w = (None, rt_world s')"
proof -
  let ?s0 = "add_log [Invoke] (observe (OperationID plan) InvocationRoot PhaseApplication OutcomeStarted s)"
  obtain out w where app: "invoke ctx (rt_world s) = (out, w)" by fastforce
  consider p where "out = Panic p" | r e where "out = Return (r, Some e)" | r where "out = Return (r, None)"
    by (metis outcome.exhaust option.exhaust surj_pair)
  then show ?thesis
  proof cases
    case 1
    with run res app show ?thesis by (simp add: execute_scoped_def execute_panicked_def Let_def split: prod.splits)
  next
    case 2
    with run app have "execute_failed ex ctx plan True root r e (?s0\<lparr>rt_world := w\<rparr>) = (res, s')"
      by (simp add: execute_scoped_def Let_def)
    with execute_failed_error [of ex ctx plan True root r e "?s0\<lparr>rt_world := w\<rparr>" r'] res show ?thesis by (metis fst_conv)
  next
    case 3
    with run app have "execute_succeeded ex ctx plan True root r (?s0\<lparr>rt_world := w\<rparr>) = (res, s')"
      by (simp add: execute_scoped_def Let_def)
    from execute_succeeded_success [OF this res co] show ?thesis .
  qed
qed

lemma execute_secured_success:
  assumes run: "execute_secured ex ctx plan invoke s = (res, s')" and res: "res = Return (r', None)" and idem: "idempotent_plan plan"
    and co: "ex_idempotency ex = Some co" "ic_reports co \<noteq> Some True"
  shows "\<exists>c1 w1 c w. ic_begin co ctx plan (rt_world s) = (Inr c1, w1) \<and> cx_claim c = cx_claim c1 \<and>
    ic_complete co c plan w = (None, rt_world s')"
proof -
  let ?o = "OperationID plan"
  let ?s0 = "observe ?o InvocationRoot PhaseIdempotencyBegin OutcomeStarted
    (observe ?o InvocationRoot PhaseSecurity OutcomeSuccess s)"
  obtain b w1 where b: "ic_begin co ctx plan (rt_world s) = (b, w1)" by fastforce
  with run res idem co obtain c1 where c1: "b = Inr c1"
    by (cases b) (auto simp: execute_secured_def Let_def idempotent_plan_def)
  let ?s1 = "observe ?o InvocationRoot PhaseExecutionScope OutcomeStarted
    (observe ?o InvocationRoot PhaseIdempotencyBegin OutcomeSuccess (add_log [IdemBegin] (?s0\<lparr>rt_world := w1\<rparr>)))"
  have "execute_claimed ex c1 plan True invoke (add_log [IdemBegin] (?s0\<lparr>rt_world := w1\<rparr>)) = (res, s')"
    using run idem co b c1 by (simp add: execute_secured_def Let_def idempotent_plan_def)
  moreover obtain r w2 calls where br: "BeginRoot (ex_transactions ex) (Some c1) ?o (Transaction (op_execution plan))
      (RequiresOperations (op_composition plan)) w1 = (r, w2, calls)" by (metis surj_pair)
  ultimately obtain c root where r: "r = Inr (c, root)" and
    sc: "execute_scoped ex c plan True root invoke (observe ?o InvocationRoot PhaseExecutionScope OutcomeSuccess
        (add_log (map Tx calls) (?s1\<lparr>rt_world := w2\<rparr>))) = (res, s')"
    using res by (cases r) (auto simp: execute_claimed_def Let_def split: prod.splits)
  have "cx_claim c = cx_claim c1" using BeginRoot_Inr [OF br [unfolded r]] by auto
  with execute_scoped_success [OF sc res co] b c1 show ?thesis by blast
qed

end
