(* ===== verification/IdempotentExecution.thy ===== *)
theory IdempotentExecution
  imports Executor
begin

text \<open>
  The executor with the coordinator over the in-memory store (\<open>NewIdempotencyCoordinator\<close> of
  \<open>NewMemoryIdempotencyStore\<close>). The world is the store next to everything else the application and the
  database touch, \<open>'d\<close>; the coordinator works on the store alone.
\<close>

definition on_store :: "('m \<Rightarrow> 'e \<times> 'm) \<Rightarrow> 'd \<times> 'm \<Rightarrow> 'e \<times> ('d \<times> 'm)" where
  "on_store f w = (case f (snd w) of (e, m) \<Rightarrow> (e, (fst w, m)))"

definition memory_coordinator ::
  "string result \<Rightarrow> ('d \<times> MemoryIdempotencyStore option, 'h) IdempotencyCoordinator" where
  "memory_coordinator raw =
     \<lparr>ic_begin = (\<lambda>ctx plan. on_store (co_Begin (Some (memory_store :: (_, 'h) IdempotencyStore)) raw (Some ctx) plan)),
      ic_complete = (\<lambda>ctx plan. on_store (co_Complete (memory_store :: (_, 'h) IdempotencyStore) (Some ctx))),
      ic_fail = (\<lambda>ctx plan. on_store (co_Fail (memory_store :: (_, 'h) IdempotencyStore) (Some ctx))),
      ic_reports = Some (co_SupportsAtomicCompletion (Some (memory_store :: (_, 'h) IdempotencyStore))),
      ic_stage = Some (\<lambda>ctx plan h. on_store (co_CompleteInTransaction (memory_store :: (_, 'h) IdempotencyStore) (Some ctx) (Some h)))\<rparr>"

text \<open>The key under which an operation called with a context is claimed.\<close>

definition claim_key :: "'u Context \<Rightarrow> OpPlan \<Rightarrow> idem_key" where
  "claim_key ctx plan =
     (trim_space (TenantID (fst (FromContext (Some ctx)))), trim_space (OperationID plan), IdempotencyKeyFrom (Some ctx))"

lemma memory_coordinator_not_atomic: "ic_reports (memory_coordinator raw) \<noteq> Some True"
  by (simp add: memory_coordinator_def co_SupportsAtomicCompletion_def memory_store_def)

lemma memory_begin_ok:
  assumes "ic_begin (memory_coordinator raw) ctx plan w = (Inr c1, w1)"
  shows "\<exists>claim. cx_claim c1 = Some claim \<and> memoryKey claim = claim_key ctx plan"
  using assms
  by (auto simp: memory_coordinator_def on_store_def co_Begin_def Let_def claim_key_def memoryKey_def
      split: if_splits sum.splits prod.splits option.splits)

lemma memory_complete_ok:
  assumes "ic_complete (memory_coordinator raw) c plan w = (None, w')" "cx_claim c = Some claim"
  shows "memory_view (snd w') (memoryKey claim) = Some (IdempotencySucceeded, id_attempt claim)"
proof -
  from assms have "memory_Mark claim IdempotencySucceeded (snd w) = (None, snd w')"
    by (auto simp: memory_coordinator_def on_store_def co_Complete_def idempotencyIdentityFrom_def memory_store_def
        split: if_splits prod.splits)
  from mem.mark_ok [OF this] show ?thesis by simp
qed

lemma memory_begin_refused:
  assumes "memory_view (snd w) (claim_key ctx plan) = Some (IdempotencySucceeded, a)"
  shows "\<exists>e w'. ic_begin (memory_coordinator raw) ctx plan w = (Inl e, w') \<and>
    (IdempotencyKeyFrom (Some ctx) \<noteq> [] \<and> (\<exists>bs. raw = Inr bs) \<longrightarrow> e = ErrIdempotencyCompleted)"
proof -
  have refused: "\<exists>m'. memory_Claim i (snd w) = (Some ErrIdempotencyCompleted, m')"
    if "memoryKey i = claim_key ctx plan" for i
    using mem.claim_done [of "snd w" i a] assms that memory_view_present [OF assms] by (metis prod.collapse)
  show ?thesis
  proof (cases "IdempotencyKeyFrom (Some ctx) = [] \<or> (\<exists>e. raw = Inl e)")
    case True
    then show ?thesis
      by (cases raw) (auto simp: memory_coordinator_def on_store_def co_Begin_def Let_def newIdempotencyAttempt_def)
  next
    case False
    then obtain bs where raw: "raw = Inr bs" by (cases raw) auto
    let ?i = "\<lparr>id_tenant = trim_space (TenantID (fst (FromContext (Some ctx)))), id_operation = trim_space (OperationID plan),
      id_key = IdempotencyKeyFrom (Some ctx), id_attempt = hex_encode bs\<rparr>"
    have "memoryKey ?i = claim_key ctx plan" by (simp add: memoryKey_def claim_key_def)
    from refused [OF this] False raw show ?thesis
      by (auto simp: memory_coordinator_def on_store_def co_Begin_def Let_def newIdempotencyAttempt_def memory_store_def)
  qed
qed

text \<open>
  A security phase that does not change who calls and with which key, and does not touch the idempotency
  store. The security phase of the gateway adds the authorised operation to the context and nothing else.
\<close>

definition security_transparent ::
  "('d \<times> MemoryIdempotencyStore option, 'h, 'i) executor \<Rightarrow> OpPlan \<Rightarrow> 'i \<Rightarrow> bool" where
  "security_transparent ex plan input \<longleftrightarrow>
     (case ex_security ex of
        None \<Rightarrow> True
      | Some security \<Rightarrow> (\<forall>c w c' w'. security c plan input w = (Inr (Some c'), w') \<longrightarrow>
          cx_principal c' = cx_principal c \<and> cx_idempotencyKey c' = cx_idempotencyKey c \<and> snd w' = snd w))"

lemma claim_key_cong:
  "cx_principal c = cx_principal c' \<Longrightarrow> cx_idempotencyKey c = cx_idempotencyKey c' \<Longrightarrow> claim_key c plan = claim_key c' plan"
  by (simp add: claim_key_def FromContext_def IdempotencyKeyFrom_def)

lemma operation_context_keeps:
  "cx_principal (operation_context (Some c) plan) = cx_principal c"
  "cx_idempotencyKey (operation_context (Some c) plan) = cx_idempotencyKey c"
  by (simp_all add: operation_context_def)

lemma Execute_to_secured:
  assumes run: "Execute (Some ex) (Some ctx) plan input (Some invoke) s = (res, s')"
    and sec: "security_transparent ex (normalizeRuntimePlan plan) input"
  shows "(\<exists>cs. effects s' = effects s @ cs \<and> stopped res cs) \<or>
    (\<exists>c0 s0 pre. execute_secured ex c0 (normalizeRuntimePlan plan) invoke s0 = (res, s') \<and>
       claim_key c0 (normalizeRuntimePlan plan) = claim_key ctx (normalizeRuntimePlan plan) \<and>
       snd (rt_world s0) = snd (rt_world s) \<and> effects s0 = effects s @ pre \<and> Invoke \<notin> set pre)"
proof -
  let ?p = "normalizeRuntimePlan plan"
  let ?o = "OperationID ?p" and ?c = "operation_context (Some ctx) ?p"
  let ?s0 = "observe ?o InvocationRoot PhaseMetadata OutcomeSuccess (observe ?o InvocationRoot PhasePlan OutcomeStarted s)"
  have key: "claim_key ?c ?p = claim_key ctx ?p" by (rule claim_key_cong) (simp_all add: operation_context_keeps)
  show ?thesis
  proof (cases "?o = [] \<or> Current (Some ctx) \<noteq> None")
    case True
    with run have "s' = s" "\<exists>e. res = Return (None, Some e)"
      by (cases "?o = []"; auto simp: Execute_def Let_def)+
    then show ?thesis by (simp add: stopped_def)
  next
    case False
    show ?thesis
    proof (cases "ex_security ex")
      case None
      show ?thesis
      proof (cases "Protected ?p")
        case True
        with run False None have "effects s' = effects s" "\<exists>e. res = Return (None, Some e)"
          by (auto simp: Execute_def Let_def)
        then show ?thesis by (simp add: stopped_def)
      next
        case unprotected: False
        with run False None have "execute_secured ex ?c ?p invoke ?s0 = (res, s')" by (simp add: Execute_def Let_def)
        with key show ?thesis by (intro disjI2 exI [of _ ?c] exI [of _ ?s0] exI [of _ "[]"]) simp
      qed
    next
      case (Some security)
      let ?s1 = "observe ?o InvocationRoot PhaseSecurity OutcomeStarted ?s0"
      obtain r w where sc: "security ?c ?p input (rt_world s) = (r, w)" by (metis prod.exhaust)
      show ?thesis
      proof (cases "\<exists>secured. r = Inr (Some secured)")
        case True
        then obtain c0 where r: "r = Inr (Some c0)" by blast
        let ?s2 = "add_log [SecurityPrepare] (?s1\<lparr>rt_world := w\<rparr>)"
        have "execute_secured ex c0 ?p invoke ?s2 = (res, s')" using run False Some sc r by (simp add: Execute_def Let_def)
        moreover from sec Some have all: "\<forall>c w c' w'. security c ?p input w = (Inr (Some c'), w') \<longrightarrow>
            cx_principal c' = cx_principal c \<and> cx_idempotencyKey c' = cx_idempotencyKey c \<and> snd w' = snd w"
          unfolding security_transparent_def by (simp only: option.case)
        have "cx_principal c0 = cx_principal ?c" "cx_idempotencyKey c0 = cx_idempotencyKey ?c" "snd w = snd (rt_world s)"
          using all [rule_format, OF sc [unfolded r]] by simp_all
        then have "claim_key c0 ?p = claim_key ctx ?p" "snd (rt_world ?s2) = snd (rt_world s)"
          using key claim_key_cong [of c0 ?c ?p] by simp_all
        ultimately show ?thesis
          by (intro disjI2 exI [of _ c0] exI [of _ ?s2] exI [of _ "[SecurityPrepare]"]) simp
      next
        case bad: False
        with run False Some sc have "effects s' = effects s @ [SecurityPrepare]" "\<exists>e. res = Return (None, Some e)"
          by (auto simp: Execute_def Let_def split: sum.splits option.splits)
        then show ?thesis by (auto simp: stopped_def)
      qed
    qed
  qed
qed

lemma Execute_marks_success:
  assumes run: "Execute (Some ex) (Some ctx) plan input (Some invoke) s = (res, s')" and res: "res = Return (r, None)"
    and sec: "security_transparent ex (normalizeRuntimePlan plan) input"
    and idem: "idempotent_plan (normalizeRuntimePlan plan)" and co: "ex_idempotency ex = Some (memory_coordinator raw)"
  shows "\<exists>a. memory_view (snd (rt_world s')) (claim_key ctx (normalizeRuntimePlan plan)) = Some (IdempotencySucceeded, a)"
proof -
  let ?p = "normalizeRuntimePlan plan"
  have "\<not> (\<exists>cs. effects s' = effects s @ cs \<and> stopped res cs)" using res by (simp add: stopped_def)
  with Execute_to_secured [OF run sec] obtain c0 s0 where s0: "execute_secured ex c0 ?p invoke s0 = (res, s')"
    "claim_key c0 ?p = claim_key ctx ?p" by blast
  define coord where "coord = the (ex_idempotency ex)"
  have coord: "ex_idempotency ex = Some coord" "coord = memory_coordinator raw" using co by (simp_all add: coord_def)
  then have "ic_reports coord \<noteq> Some True" using memory_coordinator_not_atomic by metis
  from execute_secured_success [OF s0(1) res idem coord(1) this] obtain c1 w1 c w where
    b: "ic_begin coord c0 ?p (rt_world s0) = (Inr c1, w1)" "cx_claim c = cx_claim c1"
    "ic_complete coord c ?p w = (None, rt_world s')" by metis
  from memory_begin_ok [OF b(1) [unfolded coord(2)]] obtain claim where
    claim: "cx_claim c1 = Some claim" "memoryKey claim = claim_key c0 ?p" by blast
  have "cx_claim c = Some claim" using b(2) claim(1) by simp
  from memory_complete_ok [OF b(3) [unfolded coord(2)] this] claim(2) s0(2) show ?thesis by auto
qed

lemma Execute_refused:
  assumes run: "Execute (Some ex) (Some ctx) plan input (Some invoke) s = (res, s')"
    and sec: "security_transparent ex (normalizeRuntimePlan plan) input"
    and idem: "idempotent_plan (normalizeRuntimePlan plan)" and co: "ex_idempotency ex = Some (memory_coordinator raw)"
    and succeeded: "memory_view (snd (rt_world s)) (claim_key ctx (normalizeRuntimePlan plan)) = Some (IdempotencySucceeded, a)"
  shows "\<exists>cs e. effects s' = effects s @ cs \<and> Invoke \<notin> set cs \<and> res = Return (None, Some e)"
  using Execute_to_secured [OF run sec]
proof (elim disjE exE conjE)
  fix c0 s0 pre
  assume s0: "execute_secured ex c0 (normalizeRuntimePlan plan) invoke s0 = (res, s')"
    "claim_key c0 (normalizeRuntimePlan plan) = claim_key ctx (normalizeRuntimePlan plan)"
    "snd (rt_world s0) = snd (rt_world s)" "effects s0 = effects s @ pre" "Invoke \<notin> set pre"
  from memory_begin_refused [of "rt_world s0" c0 "normalizeRuntimePlan plan" a raw] s0 succeeded obtain e w' where
    "ic_begin (memory_coordinator raw) c0 (normalizeRuntimePlan plan) (rt_world s0) = (Inl e, w')" by auto
  with s0 idem co have "res = Return (None, Some e)" "effects s' = effects s0 @ [IdemBegin]"
    by (auto simp: execute_secured_def Let_def idempotent_plan_def)
  with s0 show ?thesis by auto
qed (auto simp: stopped_def)

end
