(* ===== verification/IdempotencyGorm.thy ===== *)
theory IdempotencyGorm
  imports Idempotency
begin

text \<open>
  The database store of idempotency claims (\<open>framework/execution/idempotencygorm/store.go\<close>).

  A claim is not one transaction: it inserts a row unless there is one, reads the row that was in the way, and takes it over
  by an update on condition that state and attempt are still the ones it read. Each of these statements is atomic in the
  database; between them other workers may change the table. \<open>gorm_env\<close> is what a call meets from outside: the time it reads,
  what the others did to the table before each of its statements (\<open>ge_other\<close>), and which statements the database refuses. A
  refused statement has no effect, and the number of affected rows is the number of rows that match. The digest of a key
  (\<open>sha256\<close>, in hex) is the argument \<open>hash\<close>, about which nothing is assumed.
\<close>

section \<open>Data\<close>

record GormRecord =
  gr_State :: string
  gr_Attempt :: string
  gr_LeaseUntil :: int
  gr_CreatedAt :: int
  gr_UpdatedAt :: int

text \<open>The table by its primary key: tenant, operation, digest.\<close>

type_synonym gorm_table = "(idem_key \<times> GormRecord) list"

record gorm_env =
  ge_clock :: "nat \<Rightarrow> int"
  ge_other :: "nat \<Rightarrow> gorm_table \<Rightarrow> gorm_table"
  ge_error :: "nat \<Rightarrow> goerr option"

record gorm_db =
  gd_table :: gorm_table
  gd_step :: nat

definition defaultLeaseDuration :: int where "defaultLeaseDuration = 120000000000"

definition gorm_NewStore :: "'d option \<Rightarrow> int \<Rightarrow> ('d \<times> int) result" where
  "gorm_NewStore database lease =
     (case database of
        None \<Rightarrow> Inl (Err ''idempotencygorm: database is required'' [])
      | Some d \<Rightarrow> Inr (d, if lease \<le> 0 then defaultLeaseDuration else lease))"

definition ErrRecordNotFound :: goerr where "ErrRecordNotFound = Err ''record not found'' []"

definition normalizeIdentity :: "IdempotencyIdentity \<Rightarrow> IdempotencyIdentity" where
  "normalizeIdentity i =
     \<lparr>id_tenant = trim_space (id_tenant i), id_operation = trim_space (id_operation i), id_key = trim_space (id_key i),
      id_attempt = trim_space (id_attempt i)\<rparr>"

definition recordKey :: "(string \<Rightarrow> string) \<Rightarrow> IdempotencyIdentity \<Rightarrow> idem_key" where
  "recordKey hash i = (id_tenant i, id_operation i, hash (id_key i))"

definition recordFor :: "IdempotencyIdentity \<Rightarrow> string \<Rightarrow> int \<Rightarrow> int \<Rightarrow> GormRecord" where
  "recordFor i state leaseUntil now =
     \<lparr>gr_State = state, gr_Attempt = id_attempt i, gr_LeaseUntil = leaseUntil, gr_CreatedAt = now, gr_UpdatedAt = now\<rparr>"

definition usable :: "IdempotencyIdentity \<Rightarrow> bool" where
  "usable i = (id_operation i \<noteq> [] \<and> id_key i \<noteq> [] \<and> id_attempt i \<noteq> [])"

section \<open>Statements\<close>

text \<open>What the others did before the next statement, and its number.\<close>

definition interfere :: "gorm_env \<Rightarrow> gorm_db \<Rightarrow> gorm_db" where
  "interfere env db = db\<lparr>gd_table := ge_other env (gd_step db) (gd_table db), gd_step := Suc (gd_step db)\<rparr>"

definition put :: "idem_key \<Rightarrow> GormRecord \<Rightarrow> gorm_db \<Rightarrow> gorm_db" where
  "put k r db = db\<lparr>gd_table := AList.update k r (gd_table db)\<rparr>"

text \<open>\<open>INSERT ... ON CONFLICT DO NOTHING\<close>: true when the row was inserted.\<close>

definition insert_row :: "gorm_env \<Rightarrow> idem_key \<Rightarrow> GormRecord \<Rightarrow> gorm_db \<Rightarrow> bool result \<times> gorm_db" where
  "insert_row env k r db =
     (let db' = interfere env db in
      case ge_error env (gd_step db) of
        Some e \<Rightarrow> (Inl e, db')
      | None \<Rightarrow> if map_of (gd_table db') k = None then (Inr True, put k r db') else (Inr False, db'))"

definition lookupRecord :: "gorm_env \<Rightarrow> idem_key \<Rightarrow> gorm_db \<Rightarrow> GormRecord result \<times> gorm_db" where
  "lookupRecord env k db =
     (let db' = interfere env db in
      case ge_error env (gd_step db) of
        Some e \<Rightarrow> (Inl (Wrap ''idempotencygorm: lookup: %w'' [] e), db')
      | None \<Rightarrow> (case map_of (gd_table db') k of None \<Rightarrow> (Inl ErrRecordNotFound, db') | Some r \<Rightarrow> (Inr r, db')))"

text \<open>\<open>UPDATE ... WHERE key AND state = st AND attempt = a\<close>: true when the row matched.\<close>

definition update_row ::
  "gorm_env \<Rightarrow> idem_key \<Rightarrow> string \<Rightarrow> string \<Rightarrow> (GormRecord \<Rightarrow> GormRecord) \<Rightarrow> gorm_db \<Rightarrow> bool result \<times> gorm_db" where
  "update_row env k st a f db =
     (let db' = interfere env db in
      case ge_error env (gd_step db) of
        Some e \<Rightarrow> (Inl e, db')
      | None \<Rightarrow>
        (case map_of (gd_table db') k of
           None \<Rightarrow> (Inr False, db')
         | Some r \<Rightarrow> if gr_State r = st \<and> gr_Attempt r = a then (Inr True, put k (f r) db') else (Inr False, db')))"

section \<open>Operations\<close>

definition takeover :: "IdempotencyIdentity \<Rightarrow> int \<Rightarrow> int \<Rightarrow> GormRecord \<Rightarrow> GormRecord" where
  "takeover i leaseUntil now r =
     r\<lparr>gr_State := IdempotencyRunning, gr_Attempt := id_attempt i, gr_LeaseUntil := leaseUntil, gr_UpdatedAt := now\<rparr>"

text \<open>The judgement of the row that was in the way: an error, or it may be taken over.\<close>

definition judge :: "int \<Rightarrow> GormRecord \<Rightarrow> goerr option" where
  "judge now r =
     (if gr_State r = IdempotencySucceeded then Some ErrIdempotencyCompleted
      else if gr_State r = IdempotencyRunning then (if now < gr_LeaseUntil r then Some ErrIdempotencyInProgress else None)
      else if gr_State r = IdempotencyFailed then None
      else Some ErrIdempotencyUnavailable)"

fun claim_loop :: "gorm_env \<Rightarrow> idem_key \<Rightarrow> int \<Rightarrow> IdempotencyIdentity \<Rightarrow> nat \<Rightarrow> gorm_db \<Rightarrow> goerr option \<times> gorm_db" where
  "claim_loop env k lease i 0 db = (Some ErrIdempotencyInProgress, db)"
| "claim_loop env k lease i (Suc n) db =
     (let now = ge_clock env (gd_step db) in
      case insert_row env k (recordFor i IdempotencyRunning (now + lease) now) db of
        (Inl e, db1) \<Rightarrow> (Some (Wrap ''idempotencygorm: claim insert: %w'' [] e), db1)
      | (Inr True, db1) \<Rightarrow> (None, db1)
      | (Inr False, db1) \<Rightarrow>
        (case lookupRecord env k db1 of
           (Inl e, db2) \<Rightarrow> (Some e, db2)
         | (Inr existing, db2) \<Rightarrow>
           (case judge now existing of
              Some e \<Rightarrow> (Some e, db2)
            | None \<Rightarrow>
              (case update_row env k (gr_State existing) (gr_Attempt existing) (takeover i (now + lease) now) db2 of
                 (Inl e, db3) \<Rightarrow> (Some (Wrap ''idempotencygorm: claim takeover: %w'' [] e), db3)
               | (Inr True, db3) \<Rightarrow> (None, db3)
               | (Inr False, db3) \<Rightarrow> claim_loop env k lease i n db3))))"

definition gorm_Claim :: "gorm_env \<Rightarrow> (string \<Rightarrow> string) \<Rightarrow> int \<Rightarrow> IdempotencyIdentity \<Rightarrow> gorm_db option \<Rightarrow> goerr option \<times> gorm_db option" where
  "gorm_Claim env hash lease identity store =
     (case store of
        None \<Rightarrow> (Some ErrIdempotencyUnavailable, None)
      | Some db \<Rightarrow>
        (let i = normalizeIdentity identity in
         if \<not> usable i then (Some ErrIdempotencyUnavailable, Some db)
         else case claim_loop env (recordKey hash i) lease i 4 db of (err, db') \<Rightarrow> (err, Some db')))"

definition markWithDatabase :: "gorm_env \<Rightarrow> (string \<Rightarrow> string) \<Rightarrow> IdempotencyIdentity \<Rightarrow> string \<Rightarrow> gorm_db \<Rightarrow> goerr option \<times> gorm_db" where
  "markWithDatabase env hash identity state db =
     (if state \<noteq> IdempotencySucceeded \<and> state \<noteq> IdempotencyFailed
      then (Some (Err ''idempotencygorm: invalid terminal state %q'' [state]), db)
      else
        (let i = normalizeIdentity identity; now = ge_clock env (gd_step db) in
         if \<not> usable i then (Some ErrIdempotencyUnavailable, db)
         else
           (case update_row env (recordKey hash i) IdempotencyRunning (id_attempt i)
                  (\<lambda>r. r\<lparr>gr_State := state, gr_LeaseUntil := now, gr_UpdatedAt := now\<rparr>) db of
              (Inl e, db1) \<Rightarrow> (Some (Wrap ''idempotencygorm: mark %s: %w'' [state] e), db1)
            | (Inr True, db1) \<Rightarrow> (None, db1)
            | (Inr False, db1) \<Rightarrow>
              (case lookupRecord env (recordKey hash i) db1 of
                 (Inl e, db2) \<Rightarrow> (Some (if err_is e ErrRecordNotFound then ErrIdempotencyLeaseLost else e), db2)
               | (Inr existing, db2) \<Rightarrow>
                   if gr_Attempt existing = id_attempt i \<and> gr_State existing = state then (None, db2)
                   else (Some ErrIdempotencyLeaseLost, db2)))))"

definition gorm_Mark :: "gorm_env \<Rightarrow> (string \<Rightarrow> string) \<Rightarrow> IdempotencyIdentity \<Rightarrow> string \<Rightarrow> gorm_db option \<Rightarrow> goerr option \<times> gorm_db option" where
  "gorm_Mark env hash identity state store =
     (case store of
        None \<Rightarrow> (Some ErrIdempotencyUnavailable, None)
      | Some db \<Rightarrow> (case markWithDatabase env hash identity state db of (err, db') \<Rightarrow> (err, Some db')))"

text \<open>In a transaction the statements run against the handle, here the same table; \<^const>\<open>None\<close> is a handle of another type.\<close>

definition gorm_MarkTx ::
  "gorm_env \<Rightarrow> (string \<Rightarrow> string) \<Rightarrow> unit option \<Rightarrow> IdempotencyIdentity \<Rightarrow> string \<Rightarrow> gorm_db \<Rightarrow> goerr option \<times> gorm_db" where
  "gorm_MarkTx env hash transaction identity state db =
     (case transaction of None \<Rightarrow> (Some ErrIdempotencyAtomicUnavailable, db) | Some _ \<Rightarrow> markWithDatabase env hash identity state db)"

definition gorm_Lookup :: "gorm_env \<Rightarrow> (string \<Rightarrow> string) \<Rightarrow> IdempotencyIdentity \<Rightarrow> gorm_db option \<Rightarrow> (string \<times> bool) result \<times> gorm_db option" where
  "gorm_Lookup env hash identity store =
     (case store of
        None \<Rightarrow> (Inl ErrIdempotencyUnavailable, None)
      | Some db \<Rightarrow>
        (case lookupRecord env (recordKey hash (normalizeIdentity identity)) db of
           (Inl e, db') \<Rightarrow> (if err_is e ErrRecordNotFound then Inr ([], False) else Inl e, Some db')
         | (Inr r, db') \<Rightarrow> (Inr (gr_State r, True), Some db')))"

section \<open>A claim takes effect at one instant\<close>

text \<open>The table after the first \<open>n\<close> interventions of the others.\<close>

definition interfered :: "gorm_env \<Rightarrow> gorm_db \<Rightarrow> nat \<Rightarrow> gorm_table" where
  "interfered env db n = fold (ge_other env) [gd_step db..<gd_step db + n] (gd_table db)"

lemma interfered_0 [simp]: "interfered env db 0 = gd_table db"
  by (simp add: interfered_def)

text \<open>A database that only others have changed.\<close>

definition untouched :: "gorm_env \<Rightarrow> gorm_db \<Rightarrow> gorm_db \<Rightarrow> bool" where
  "untouched env db db' \<longleftrightarrow> (\<exists>n. gd_table db' = interfered env db n \<and> gd_step db' = gd_step db + n)"

text \<open>A database in which the claim took the key at one instant, when its row was missing, failed or running; nothing else was changed.\<close>

definition taken :: "gorm_env \<Rightarrow> idem_key \<Rightarrow> string \<Rightarrow> gorm_db \<Rightarrow> gorm_db \<Rightarrow> bool" where
  "taken env k a db db' \<longleftrightarrow>
     (\<exists>n r. gd_table db' = AList.update k r (interfered env db n) \<and> gr_State r = IdempotencyRunning \<and> gr_Attempt r = a \<and>
        (\<forall>r0. map_of (interfered env db n) k = Some r0 \<longrightarrow> gr_State r0 = IdempotencyRunning \<or> gr_State r0 = IdempotencyFailed))"

lemma untouched_refl: "untouched env db db"
  unfolding untouched_def by (rule exI [of _ 0]) simp

lemma untouched_interfere: "untouched env db (interfere env db)"
  unfolding untouched_def by (rule exI [of _ 1]) (simp add: interfered_def interfere_def)

lemma interfered_add: "gd_table db' = interfered env db n \<Longrightarrow> gd_step db' = gd_step db + n \<Longrightarrow> interfered env db' m = interfered env db (n + m)"
  by (simp add: interfered_def upt_add_eq_append [of "gd_step db" "gd_step db + n" m] flip: add.assoc)

lemma untouched_trans: "untouched env db db1 \<Longrightarrow> untouched env db1 db2 \<Longrightarrow> untouched env db db2"
  unfolding untouched_def using interfered_add by (metis add.assoc)

lemma taken_trans: "untouched env db db1 \<Longrightarrow> taken env k a db1 db2 \<Longrightarrow> taken env k a db db2"
  unfolding untouched_def taken_def using interfered_add by metis

lemma put_table [simp]: "gd_table (put k r db) = AList.update k r (gd_table db)"
  by (simp add: put_def)

lemma taken_put:
  assumes "gr_State r = IdempotencyRunning" "gr_Attempt r = a"
    and "\<forall>r0. map_of (gd_table (interfere env db)) k = Some r0 \<longrightarrow> gr_State r0 = IdempotencyRunning \<or> gr_State r0 = IdempotencyFailed"
  shows "taken env k a db (put k r (interfere env db))"
proof -
  have "gd_table (interfere env db) = interfered env db 1" by (simp add: interfered_def interfere_def)
  with assms show ?thesis unfolding taken_def by (intro exI [of _ 1] exI [of _ r]) simp
qed

lemma insert_row_effect:
  "insert_row env k (recordFor i IdempotencyRunning l t) db = (res, db') \<Longrightarrow>
     (if res = Inr True then taken env k (id_attempt i) db db' else untouched env db db')"
  using untouched_interfere [of env db] taken_put [of "recordFor i IdempotencyRunning l t" "id_attempt i" env db k]
  by (auto simp: insert_row_def recordFor_def Let_def split: option.splits if_splits)

lemma lookupRecord_effect: "lookupRecord env k db = (res, db') \<Longrightarrow> untouched env db db'"
  using untouched_interfere [of env db] by (auto simp: lookupRecord_def Let_def split: option.splits)

lemma update_row_effect:
  assumes "update_row env k st a (takeover i l t) db = (res, db')" "st = IdempotencyRunning \<or> st = IdempotencyFailed"
  shows "if res = Inr True then taken env k (id_attempt i) db db' else untouched env db db'"
proof (cases "res = Inr True")
  case True
  then obtain r where r: "map_of (gd_table (interfere env db)) k = Some r" "gr_State r = st" "db' = put k (takeover i l t r) (interfere env db)"
    using assms(1) by (auto simp: update_row_def Let_def split: option.splits if_splits)
  have "taken env k (id_attempt i) db (put k (takeover i l t r) (interfere env db))"
    by (rule taken_put) (use r assms(2) in \<open>auto simp: takeover_def\<close>)
  with True r(3) show ?thesis by simp
next
  case False
  with assms(1) untouched_interfere [of env db] show ?thesis by (auto simp: update_row_def Let_def split: option.splits if_splits)
qed

lemma claim_loop_effect:
  "claim_loop env k lease i n db = (res, db') \<Longrightarrow> (if res = None then taken env k (id_attempt i) db db' else untouched env db db')"
proof (induction n arbitrary: db)
  case 0
  then show ?case by (auto simp: untouched_refl)
next
  case (Suc n)
  define t where "t = ge_clock env (gd_step db)"
  obtain ri db1 where ins: "insert_row env k (recordFor i IdempotencyRunning (t + lease) t) db = (ri, db1)" by fastforce
  note e1 = insert_row_effect [OF ins]
  consider (failed) e where "ri = Inl e" | (inserted) "ri = Inr True" | (conflict) "ri = Inr False" by (cases ri) auto
  then show ?case
  proof cases
    case conflict
    with e1 have u1: "untouched env db db1" by simp
    obtain rl db2 where look: "lookupRecord env k db1 = (rl, db2)" by fastforce
    have u2: "untouched env db db2" by (rule untouched_trans [OF u1 lookupRecord_effect [OF look]])
    show ?thesis
    proof (cases "\<exists>ex. rl = Inr ex \<and> judge t ex = None")
      case False
      then show ?thesis using Suc.prems ins conflict look u2 unfolding t_def by (cases rl) (auto simp: Let_def)
    next
      case True
      then obtain ex where ex: "rl = Inr ex" "judge t ex = None" by blast
      then have st: "gr_State ex = IdempotencyRunning \<or> gr_State ex = IdempotencyFailed" by (auto simp: judge_def split: if_splits)
      obtain ru db3 where upd: "update_row env k (gr_State ex) (gr_Attempt ex) (takeover i (t + lease) t) db2 = (ru, db3)" by fastforce
      note e3 = update_row_effect [OF upd st]
      have run: "claim_loop env k lease i (Suc n) db = (case ru of Inl e \<Rightarrow> (Some (Wrap ''idempotencygorm: claim takeover: %w'' [] e), db3)
          | Inr True \<Rightarrow> (None, db3) | Inr False \<Rightarrow> claim_loop env k lease i n db3)"
        using ins conflict look ex upd unfolding t_def by (simp add: Let_def split: sum.split bool.split)
      show ?thesis
      proof (cases "ru = Inr False")
        case True
        with e3 u2 have u3: "untouched env db db3" using untouched_trans by auto
        from run True Suc.prems have "claim_loop env k lease i n db3 = (res, db')" by simp
        from Suc.IH [OF this] u3 show ?thesis using untouched_trans taken_trans by auto
      next
        case False
        then show ?thesis using e3 u2 run Suc.prems by (cases ru) (auto intro: untouched_trans taken_trans split: bool.splits)
      qed
    qed
  qed (use e1 ins Suc.prems in \<open>auto simp: t_def Let_def\<close>)
qed

text \<open>Property C39: a claim on the database takes effect at one instant or not at all. However the other workers change the table
  between its statements and whichever statements the database refuses, a claim that reports no error has set the row of
  its key to running under its own attempt in one step, at an instant when the row was missing, failed or running, so never
  over a success, and changed nothing else; a claim that reports an error has changed nothing.\<close>

theorem gorm_Claim_atomic:
  assumes "gorm_Claim env hash lease identity (Some db) = (res, Some db')"
  shows "if res = None then taken env (recordKey hash (normalizeIdentity identity)) (trim_space (id_attempt identity)) db db'
    else untouched env db db'"
proof -
  have a: "id_attempt (normalizeIdentity identity) = trim_space (id_attempt identity)" by (simp add: normalizeIdentity_def)
  show ?thesis
  proof (cases "usable (normalizeIdentity identity)")
    case True
    with assms have "claim_loop env (recordKey hash (normalizeIdentity identity)) lease (normalizeIdentity identity) 4 db = (res, db')"
      by (simp add: gorm_Claim_def Let_def split: prod.splits)
    from claim_loop_effect [OF this] show ?thesis unfolding a .
  next
    case False
    with assms show ?thesis by (auto simp: gorm_Claim_def Let_def untouched_refl)
  qed
qed


text \<open>Another worker inserts the row just before this one does, and fails; the claim then takes the row over.\<close>

definition ex_racing :: gorm_env where
  "ex_racing = \<lparr>ge_clock = \<lambda>_. 10,
     ge_other = \<lambda>n t. if n = 0 then [(([], ''op'', ''k''), recordFor (ex_claim ''b'') IdempotencyRunning 15 5)]
       else if n = 1 then [(([], ''op'', ''k''), recordFor (ex_claim ''b'') IdempotencyFailed 9 5)] else t,
     ge_error = \<lambda>_. None\<rparr>"

lemma ex_identity_normal [simp]: "normalizeIdentity (ex_claim ''a'') = ex_claim ''a''"
  by (simp add: normalizeIdentity_def ex_claim_def trim_space_plain plain_char_def)

lemma ex_racing_Claim:
  "\<exists>db'. gorm_Claim ex_racing (\<lambda>k. k) 20 (ex_claim ''a'') (Some \<lparr>gd_table = [], gd_step = 0\<rparr>) = (None, Some db') \<and> gd_step db' = 3"
  by (simp add: gorm_Claim_def usable_def ex_claim_def [of "''a''"] normalizeIdentity_def trim_space_plain plain_char_def
      eval_nat_numeral insert_row_def lookupRecord_def update_row_def interfere_def put_def ex_racing_def recordKey_def recordFor_def
      judge_def ex_claim_def)

theorem gorm_Claim_atomic_witness:
  "\<exists>db'. taken ex_racing ([], ''op'', ''k'') ''a'' \<lparr>gd_table = [], gd_step = 0\<rparr> db' \<and> gd_step db' = 3"
proof -
  from ex_racing_Claim obtain db' where
    run: "gorm_Claim ex_racing (\<lambda>k. k) 20 (ex_claim ''a'') (Some \<lparr>gd_table = [], gd_step = 0\<rparr>) = (None, Some db')" and n: "gd_step db' = 3"
    by blast
  from gorm_Claim_atomic [OF run] n show ?thesis
    by (auto simp: recordKey_def ex_claim_def normalizeIdentity_def trim_space_plain plain_char_def)
qed

section \<open>Without interference the store is an idempotency store\<close>

text \<open>One worker at a time on a database that answers: every operation is then one step of the contract that the memory store
  meets too.\<close>

definition quiet :: "(nat \<Rightarrow> int) \<Rightarrow> gorm_env" where
  "quiet clock = \<lparr>ge_clock = clock, ge_other = \<lambda>_ t. t, ge_error = \<lambda>_. None\<rparr>"

definition gorm_view :: "gorm_db option \<Rightarrow> idem_key \<Rightarrow> (string \<times> string) option" where
  "gorm_view store k = Option.bind store (\<lambda>db. map_option (\<lambda>r. (gr_State r, gr_Attempt r)) (map_of (gd_table db) k))"

lemma quiet_sel [simp]: "ge_other (quiet clock) n t = t" "ge_error (quiet clock) n = None" "ge_clock (quiet clock) = clock"
  by (simp_all add: quiet_def)

lemma interfere_quiet [simp]: "interfere (quiet clock) db = db\<lparr>gd_step := Suc (gd_step db)\<rparr>"
  by (simp add: interfere_def)

lemma gorm_view_step [simp]: "gorm_view (Some (db\<lparr>gd_step := n\<rparr>)) = gorm_view (Some db)"
  by (simp add: gorm_view_def fun_eq_iff)

lemma gorm_view_put [simp]: "gorm_view (Some (put k r db)) = (gorm_view (Some db))(k \<mapsto> (gr_State r, gr_Attempt r))"
  by (auto simp: gorm_view_def put_def update_conv')

lemma gorm_view_None_iff: "gorm_view (Some db) k = None \<longleftrightarrow> map_of (gd_table db) k = None"
  by (simp add: gorm_view_def)

lemma gorm_view_row: "map_of (gd_table db) k = Some r \<Longrightarrow> gorm_view (Some db) k = Some (gr_State r, gr_Attempt r)"
  by (simp add: gorm_view_def)

lemma normalizeIdentity_attempt [simp]: "id_attempt (normalizeIdentity i) = trim_space (id_attempt i)"
  by (simp add: normalizeIdentity_def)

abbreviation gorm_key :: "(string \<Rightarrow> string) \<Rightarrow> IdempotencyIdentity \<Rightarrow> idem_key" where
  "gorm_key hash i \<equiv> recordKey hash (normalizeIdentity i)"

lemma quiet_Claim:
  "usable (normalizeIdentity i) \<Longrightarrow> gorm_Claim (quiet clock) hash lease i (Some db) =
     (case map_of (gd_table db) (gorm_key hash i) of
        None \<Rightarrow> (None, Some (put (gorm_key hash i)
          (recordFor (normalizeIdentity i) IdempotencyRunning (clock (gd_step db) + lease) (clock (gd_step db))) (db\<lparr>gd_step := Suc (gd_step db)\<rparr>)))
      | Some r \<Rightarrow>
        (case judge (clock (gd_step db)) r of
           Some e \<Rightarrow> (Some e, Some (db\<lparr>gd_step := Suc (Suc (gd_step db))\<rparr>))
         | None \<Rightarrow> (None, Some (put (gorm_key hash i)
             (takeover (normalizeIdentity i) (clock (gd_step db) + lease) (clock (gd_step db)) r) (db\<lparr>gd_step := Suc (Suc (Suc (gd_step db)))\<rparr>)))))"
  by (simp add: gorm_Claim_def eval_nat_numeral insert_row_def lookupRecord_def update_row_def Let_def split: option.split)

lemma quiet_Claim_unusable: "\<not> usable (normalizeIdentity i) \<Longrightarrow> gorm_Claim env hash lease i (Some db) = (Some ErrIdempotencyUnavailable, Some db)"
  by (simp add: gorm_Claim_def)

lemma quiet_Mark:
  "gorm_Mark (quiet clock) hash i st (Some db) =
     (if st \<notin> {IdempotencySucceeded, IdempotencyFailed} then (Some (Err ''idempotencygorm: invalid terminal state %q'' [st]), Some db)
      else if \<not> usable (normalizeIdentity i) then (Some ErrIdempotencyUnavailable, Some db)
      else case map_of (gd_table db) (recordKey hash (normalizeIdentity i)) of
        None \<Rightarrow> (Some ErrIdempotencyLeaseLost, Some (db\<lparr>gd_step := Suc (Suc (gd_step db))\<rparr>))
      | Some r \<Rightarrow>
          if gr_State r = IdempotencyRunning \<and> gr_Attempt r = trim_space (id_attempt i)
          then (None, Some (put (recordKey hash (normalizeIdentity i))
                 (r\<lparr>gr_State := st, gr_LeaseUntil := clock (gd_step db), gr_UpdatedAt := clock (gd_step db)\<rparr>) (db\<lparr>gd_step := Suc (gd_step db)\<rparr>)))
          else if gr_Attempt r = trim_space (id_attempt i) \<and> gr_State r = st then (None, Some (db\<lparr>gd_step := Suc (Suc (gd_step db))\<rparr>))
          else (Some ErrIdempotencyLeaseLost, Some (db\<lparr>gd_step := Suc (Suc (gd_step db))\<rparr>)))"
  by (simp add: gorm_Mark_def markWithDatabase_def update_row_def lookupRecord_def Let_def normalizeIdentity_def split: option.split)

lemma judge_states:
  "judge t r = None \<Longrightarrow> gr_State r \<noteq> IdempotencySucceeded"
  "gr_State r = IdempotencySucceeded \<Longrightarrow> judge t r = Some ErrIdempotencyCompleted"
  "gr_State r = IdempotencyFailed \<Longrightarrow> judge t r = None"
  by (auto simp: judge_def)

lemmas quiet_ops = quiet_Claim quiet_Claim_unusable recordFor_def takeover_def gorm_view_row

lemma quiet_Claim_ok:
  "gorm_Claim (quiet clock) hash lease i s = (None, s') \<Longrightarrow>
     gorm_view s' = (gorm_view s)(gorm_key hash i \<mapsto> (IdempotencyRunning, trim_space (id_attempt i))) \<and>
     (\<nexists>a. gorm_view s (gorm_key hash i) = Some (IdempotencySucceeded, a))"
proof (cases s)
  case (Some db)
  moreover assume "gorm_Claim (quiet clock) hash lease i s = (None, s')"
  ultimately show ?thesis using gorm_view_None_iff [of db "gorm_key hash i"]
    by (cases "usable (normalizeIdentity i)"; cases "map_of (gd_table db) (gorm_key hash i)")
      (auto simp: quiet_ops judge_states(1) split: option.splits)
qed (auto simp: gorm_Claim_def)

lemma quiet_Claim_err: "gorm_Claim (quiet clock) hash lease i s = (Some e, s') \<Longrightarrow> gorm_view s' = gorm_view s"
proof (cases s)
  case (Some db)
  moreover assume "gorm_Claim (quiet clock) hash lease i s = (Some e, s')"
  ultimately show ?thesis
    by (cases "usable (normalizeIdentity i)"; cases "map_of (gd_table db) (gorm_key hash i)") (auto simp: quiet_ops split: option.splits)
qed (auto simp: gorm_Claim_def)

lemma quiet_Mark_view:
  "gorm_Mark (quiet clock) hash i st s = (None, s') \<Longrightarrow> st \<in> {IdempotencySucceeded, IdempotencyFailed} \<and>
     gorm_view s' = (gorm_view s)(gorm_key hash i \<mapsto> (st, trim_space (id_attempt i))) \<and>
     (gorm_view s (gorm_key hash i) = Some (IdempotencyRunning, trim_space (id_attempt i)) \<or>
      gorm_view s (gorm_key hash i) = Some (st, trim_space (id_attempt i)))"
  "gorm_Mark (quiet clock) hash i st s = (Some e, s') \<Longrightarrow> gorm_view s' = gorm_view s"
  by (cases s; auto simp: quiet_Mark gorm_view_row fun_upd_idem split: option.splits if_splits simp: gorm_Mark_def [of _ _ _ _ None])+

interpretation gorm: idempotency_store "gorm_Claim (quiet clock) hash lease" "gorm_Mark (quiet clock) hash" gorm_view
    "gorm_key hash" "\<lambda>i. trim_space (id_attempt i)" "\<lambda>i s. s \<noteq> None \<and> usable (normalizeIdentity i)"
  for clock hash lease
proof (unfold_locales, goal_cases)
  case (1 i s s')
  then show ?case by (rule quiet_Claim_ok)
next
  case (2 i s e s')
  then show ?case by (rule quiet_Claim_err)
next
  case (3 i s a)
  then show ?case by (auto simp: gorm_view_def quiet_Claim judge_states)
next
  case (4 i s a)
  then show ?case by (auto simp: gorm_view_def quiet_Claim judge_states)
next
  case (5 i st s s')
  then show ?case by (rule quiet_Mark_view(1))
next
  case (6 i st s e s')
  then show ?case by (rule quiet_Mark_view(2))
next
  case (7 i s st)
  then show ?case by (auto simp: gorm_view_def quiet_Mark)
qed


lemma quiet_run_present: "s \<noteq> None \<Longrightarrow> idem_run (gorm_Claim env hash lease) (gorm_Mark env hash) ops s \<noteq> None"
proof (induction ops arbitrary: s)
  case (Cons p ops)
  then show ?case by (cases p) (auto simp: gorm_Claim_def gorm_Mark_def Let_def split: option.split prod.split)
qed simp

text \<open>A success recorded in the database is final. Once a holder has marked its claim succeeded, whatever
  claims and marks follow, whatever time they read, every later claim of the same key by any attempt is refused as
  completed.\<close>

theorem gorm_success_final:
  assumes marked: "gorm_Mark (quiet clock) hash i IdempotencySucceeded (Some db) = (None, s1)"
    and j: "gorm_key hash j = gorm_key hash i" "usable (normalizeIdentity j)"
  shows "fst (gorm_Claim (quiet clock) hash lease j (idem_run (gorm_Claim (quiet clock) hash lease) (gorm_Mark (quiet clock) hash) ops s1))
    = Some ErrIdempotencyCompleted"
proof -
  let ?s = "idem_run (gorm_Claim (quiet clock) hash lease) (gorm_Mark (quiet clock) hash) ops s1"
  have "gorm_view s1 (gorm_key hash i) = Some (IdempotencySucceeded, trim_space (id_attempt i))"
    using gorm.mark_ok [OF marked] by simp
  then have "gorm_view ?s (gorm_key hash j) = Some (IdempotencySucceeded, trim_space (id_attempt i))"
    unfolding j(1) by (rule gorm.run_keeps_success)
  moreover have "s1 \<noteq> None" using marked by (auto simp: gorm_Mark_def split: prod.splits)
  ultimately show ?thesis using gorm.claim_done [of ?s j] quiet_run_present j(2) by blast
qed

definition ex_gorm_db :: gorm_db where
  "ex_gorm_db = \<lparr>gd_table = [(([], ''op'', ''k''), recordFor (ex_claim ''a'') IdempotencyRunning 15 5)], gd_step = 0\<rparr>"

theorem gorm_success_final_witness:
  "\<exists>s1. fst (gorm_Claim (quiet int) (\<lambda>k. k) 5 (ex_claim ''b'')
     (idem_run (gorm_Claim (quiet int) (\<lambda>k. k) 5) (gorm_Mark (quiet int) (\<lambda>k. k)) [OpMark (ex_claim ''a'') IdempotencyFailed] s1))
     = Some ErrIdempotencyCompleted"
proof -
  have "\<exists>s1. gorm_Mark (quiet int) (\<lambda>k. k) (ex_claim ''a'') IdempotencySucceeded (Some ex_gorm_db) = (None, s1)"
    by (simp add: quiet_Mark ex_gorm_db_def usable_def normalizeIdentity_def recordKey_def recordFor_def ex_claim_def trim_space_plain plain_char_def)
  then obtain s1 where m: "gorm_Mark (quiet int) (\<lambda>k. k) (ex_claim ''a'') IdempotencySucceeded (Some ex_gorm_db) = (None, s1)" by blast
  have "gorm_key (\<lambda>k. k) (ex_claim ''b'') = gorm_key (\<lambda>k. k) (ex_claim ''a'')" "usable (normalizeIdentity (ex_claim ''b''))"
    by (simp_all add: usable_def normalizeIdentity_def recordKey_def ex_claim_def trim_space_plain plain_char_def)
  from gorm_success_final [OF m this] show ?thesis by blast
qed

end
