(* ===== verification/Authz.thy ===== *)
theory Authz
  imports Executor
begin

text \<open>
  Authorisation of operations (\<open>gateway/authz\<close>): policies and their normalisation, the two authorizers, the guards that prepare
  the scope of an authorised operation, and the security phases they give the operation executor. The interfaces that
  belong to an application (\<open>PermissionChecker\<close>, \<open>GrantChecker\<close>, \<open>GrantResolver\<close>, \<open>OperationGuard\<close>, \<open>PolicyResolver\<close>) are
  functions on the world \<open>'w\<close>. A nil pointer or interface value is \<^const>\<open>None\<close>. The typed values of
  \<open>scope_context.go\<close>, which only guards and applications read, are not modelled.
\<close>

section \<open>Policies\<close>

definition policy_Normalize :: "AuthPolicy \<Rightarrow> AuthPolicy" where
  "policy_Normalize policy =
     policy\<lparr>pol_Operation := trim_space (pol_Operation policy), pol_Permissions := stableStrings (pol_Permissions policy),
       pol_Authentication := stableStrings (pol_Authentication policy)\<rparr>"

definition policy_Protected :: "AuthPolicy \<Rightarrow> bool" where
  "policy_Protected policy =
     (let policy = policy_Normalize policy in pol_Authentication policy \<noteq> [] \<or> pol_Permissions policy \<noteq> [] \<or> pol_TenantRequired policy)"

definition containsString :: "string list \<Rightarrow> string \<Rightarrow> bool" where
  "containsString values target = list_ex (\<lambda>value. value = target) values"

definition AcceptsAuthentication :: "AuthPolicy \<Rightarrow> string \<Rightarrow> bool" where
  "AcceptsAuthentication policy method_name = containsString (pol_Authentication (policy_Normalize policy)) (trim_space method_name)"

text \<open>\<open>strings.EqualFold\<close> against \<open>any\<close>: no other code point folds to one of its letters.\<close>

definition PolicyFromOperationPlan :: "OpPlan \<Rightarrow> AuthPolicy" where
  "PolicyFromOperationPlan plan =
     policy_Normalize
       \<lparr>pol_Operation = trim_space (OperationID plan),
        pol_Permissions = filter (\<lambda>p. p \<noteq> []) (map trim_space (Permissions (op_security plan))),
        pol_Mode = (if to_upper (trim_space (PermissionMode (op_security plan))) = ''ANY'' then PermissionAny else PermissionAll),
        pol_TenantRequired = TenantRequired (op_security plan),
        pol_Authentication = Authentication (op_security plan)\<rparr>"

text \<open>The authorization message of \<open>meta.RuntimeApi\<close>; its mode is compared with \<open>PermissionAny\<close> only.\<close>

record RuntimeAuthorization =
  ra_OperationId :: string
  ra_Permissions :: "string list"
  ra_Any :: bool
  ra_TenantRequired :: bool
  ra_Authentication :: "string list"

definition zero_policy :: AuthPolicy where
  "zero_policy = \<lparr>pol_Operation = [], pol_Permissions = [], pol_Mode = PermissionAll, pol_TenantRequired = False, pol_Authentication = []\<rparr>"

definition PolicyFromRuntimeAPI :: "RuntimeAuthorization option option \<Rightarrow> AuthPolicy" where
  "PolicyFromRuntimeAPI api =
     (case api of
        Some (Some a) \<Rightarrow>
          policy_Normalize
            \<lparr>pol_Operation = ra_OperationId a, pol_Permissions = filter (\<lambda>p. p \<noteq> []) (map trim_space (ra_Permissions a)),
             pol_Mode = (if ra_Any a then PermissionAny else PermissionAll), pol_TenantRequired = ra_TenantRequired a,
             pol_Authentication = ra_Authentication a\<rparr>
      | _ \<Rightarrow> zero_policy)"

text \<open>\<open>StaticResolver\<close>: the entries in the order in which the loop over the map meets them.\<close>

fun static_policies :: "(string \<times> AuthPolicy) list \<Rightarrow> (string \<times> AuthPolicy) list \<Rightarrow> (string \<times> AuthPolicy) list" where
  "static_policies [] result = result"
| "static_policies ((key, policy) # values) result =
     (if trim_space key = [] then static_policies values result
      else static_policies values (AList.update (trim_space key) (policy_Normalize policy) result))"

definition NewStaticResolver :: "(string \<times> AuthPolicy) list \<Rightarrow> (string \<times> AuthPolicy) list" where
  "NewStaticResolver values = static_policies values []"

definition ResolvePolicy :: "(string \<times> AuthPolicy) list \<Rightarrow> string \<Rightarrow> AuthPolicy option" where
  "ResolvePolicy resolver key = map_option policy_Normalize (map_of resolver (trim_space key))"

section \<open>Decisions\<close>

definition ErrGrantResolverUnavailable :: goerr where
  "ErrGrantResolverUnavailable = Err ''gateway authz: grant resolver unavailable'' []"
definition errTenantGrantRolesRequired :: goerr where
  "errTenantGrantRolesRequired = Err ''gateway authz: tenant grant roles required'' []"
definition ErrDenied :: goerr where "ErrDenied = Err ''gateway authz: access denied'' []"

fun reason_text :: "Reason \<Rightarrow> string" where
  "reason_text NoReason = []"
| "reason_text ReasonAllowed = ''allowed''"
| "reason_text ReasonUnauthenticated = ''unauthenticated''"
| "reason_text ReasonTenantRequired = ''tenant_required''"
| "reason_text ReasonRoleRequired = ''role_required''"
| "reason_text ReasonPermissionDenied = ''permission_denied''"
| "reason_text ReasonAuthenticationMethod = ''authentication_method_denied''"
| "reason_text ReasonGrantResolverUnavailable = ''grant_resolver_unavailable''"

definition Denied :: "Decision \<Rightarrow> goerr" where
  "Denied decision = Wrap ''%s: operation=%s reason=%s'' [dec_Operation decision, reason_text (dec_Reason decision)] ErrDenied"

definition IsDenied :: "goerr \<Rightarrow> bool" where
  "IsDenied err = err_is err ErrDenied"

type_synonym ('w, 'h) Authorizer = "('w, 'h) ctx option \<Rightarrow> Principal \<Rightarrow> AuthPolicy \<Rightarrow> 'w \<Rightarrow> (Decision \<times> goerr option) \<times> 'w"
type_synonym ('w, 'h) PermissionChecker =
  "('w, 'h) ctx option \<Rightarrow> string \<Rightarrow> string list \<Rightarrow> string list \<Rightarrow> Mode \<Rightarrow> 'w \<Rightarrow> bool result \<times> 'w"
type_synonym ('w, 'h) GrantChecker = "('w, 'h) ctx option \<Rightarrow> string \<Rightarrow> string list \<Rightarrow> string list \<Rightarrow> 'w \<Rightarrow> Grant list result \<times> 'w"

record GrantRequest =
  rq_Principal :: Principal
  rq_Operation :: string
  rq_Permissions :: "string list"
  rq_TenantBound :: bool

type_synonym ('w, 'h) GrantResolver = "('w, 'h) ctx option \<Rightarrow> GrantRequest \<Rightarrow> 'w \<Rightarrow> Grant list result \<times> 'w"

definition undecided :: "AuthPolicy \<Rightarrow> Decision" where
  "undecided policy = \<lparr>dec_Allowed = False, dec_Operation = pol_Operation policy, dec_Permissions = pol_Permissions policy, dec_Grants = [], dec_Reason = NoReason\<rparr>"

text \<open>The checks with which both authorizers begin: the reason of a refusal, if any.\<close>

definition precheck :: "Principal \<Rightarrow> AuthPolicy \<Rightarrow> Reason option" where
  "precheck who policy =
     (if pol_Authentication policy \<noteq> [] \<and> \<not> Authenticated who then Some ReasonUnauthenticated
      else if pol_Authentication policy \<noteq> [] \<and> \<not> containsString (pol_Authentication policy) (AuthMethod who)
      then Some ReasonAuthenticationMethod
      else if pol_Permissions policy \<noteq> [] \<and> \<not> Authenticated who then Some ReasonUnauthenticated
      else if pol_TenantRequired policy \<and> trim_space (TenantID who) = [] then Some ReasonTenantRequired
      else None)"

definition verdict :: "bool \<Rightarrow> Decision \<Rightarrow> Decision" where
  "verdict allowed decision = decision\<lparr>dec_Allowed := allowed, dec_Reason := (if allowed then ReasonAllowed else ReasonPermissionDenied)\<rparr>"

definition NewRBACAuthorizer :: "('w, 'h) PermissionChecker option \<Rightarrow> ('w, 'h) PermissionChecker result" where
  "NewRBACAuthorizer checker =
     (case checker of None \<Rightarrow> Inl (Err ''gateway authz: permission checker is required'' []) | Some c \<Rightarrow> Inr c)"

definition rbac_Authorize :: "('w, 'h) PermissionChecker \<Rightarrow> ('w, 'h) Authorizer" where
  "rbac_Authorize checker ctx who policy w =
     (let policy = policy_Normalize policy; decision = undecided policy in
      case precheck who policy of
        Some reason \<Rightarrow> ((decision\<lparr>dec_Reason := reason\<rparr>, None), w)
      | None \<Rightarrow>
        if pol_Permissions policy = [] then ((verdict True decision, None), w)
        else if \<not> pol_TenantRequired policy then ((decision\<lparr>dec_Reason := ReasonGrantResolverUnavailable\<rparr>, None), w)
        else if Roles who = [] then ((decision\<lparr>dec_Reason := ReasonRoleRequired\<rparr>, None), w)
        else (case checker ctx (TenantID who) (Roles who) (pol_Permissions policy) (pol_Mode policy) w of
                (Inl err, w') \<Rightarrow> ((decision, Some (Wrap ''gateway authz: permission check: %w'' [] err)), w')
              | (Inr allowed, w') \<Rightarrow> ((verdict allowed decision, None), w')))"

definition NewTenantBoundGrantResolver :: "('w, 'h) GrantChecker option \<Rightarrow> ('w, 'h) GrantChecker result" where
  "NewTenantBoundGrantResolver checker =
     (case checker of None \<Rightarrow> Inl (Err ''gateway authz: grant checker is required'' []) | Some c \<Rightarrow> Inr c)"

definition tenant_ResolveGrants :: "('w, 'h) GrantChecker \<Rightarrow> ('w, 'h) GrantResolver" where
  "tenant_ResolveGrants checker ctx request w =
     (if \<not> rq_TenantBound request then (Inl ErrGrantResolverUnavailable, w)
      else if trim_space (TenantID (rq_Principal request)) = [] then (Inl ErrGrantResolverUnavailable, w)
      else if Roles (rq_Principal request) = [] then (Inl errTenantGrantRolesRequired, w)
      else checker ctx (TenantID (rq_Principal request)) (Roles (rq_Principal request)) (rq_Permissions request) w)"

text \<open>A grant authorizer is its resolver; \<^const>\<open>None\<close> is the nil authorizer or one without a resolver.\<close>

definition NewGrantAuthorizerWithResolver :: "('w, 'h) GrantResolver option \<Rightarrow> ('w, 'h) GrantResolver option result" where
  "NewGrantAuthorizerWithResolver resolver =
     (case resolver of None \<Rightarrow> Inl (Err ''gateway authz: grant resolver is required'' []) | Some r \<Rightarrow> Inr (Some r))"

definition NewGrantAuthorizer :: "('w, 'h) GrantChecker option \<Rightarrow> ('w, 'h) GrantResolver option result" where
  "NewGrantAuthorizer checker =
     (case NewTenantBoundGrantResolver checker of
        Inl e \<Rightarrow> Inl e
      | Inr c \<Rightarrow> NewGrantAuthorizerWithResolver (Some (tenant_ResolveGrants c)))"

definition trim_grant :: "Grant \<Rightarrow> Grant" where
  "trim_grant g = \<lparr>gr_Permission = trim_space (gr_Permission g), gr_RoleID = trim_space (gr_RoleID g), gr_Scope = trim_space (gr_Scope g)\<rparr>"

definition grant_key :: "Grant \<Rightarrow> string \<times> string \<times> string" where
  "grant_key g = (gr_Permission g, gr_RoleID g, gr_Scope g)"

definition requested_grants :: "string list \<Rightarrow> Grant list \<Rightarrow> Grant list" where
  "requested_grants wanted grants = filter (\<lambda>g. gr_Permission g \<in> set wanted) (map trim_grant grants)"

definition grant_Authorize :: "('w, 'h) GrantResolver option \<Rightarrow> ('w, 'h) Authorizer" where
  "grant_Authorize a ctx who policy w =
     (let policy = policy_Normalize policy; decision = undecided policy in
      case precheck who policy of
        Some reason \<Rightarrow> ((decision\<lparr>dec_Reason := reason\<rparr>, None), w)
      | None \<Rightarrow>
        if pol_Permissions policy = [] then ((verdict True decision, None), w)
        else case a of
          None \<Rightarrow> ((decision\<lparr>dec_Reason := ReasonGrantResolverUnavailable\<rparr>, None), w)
        | Some resolver \<Rightarrow>
          (case resolver ctx \<lparr>rq_Principal = who, rq_Operation = pol_Operation policy, rq_Permissions = pol_Permissions policy,
               rq_TenantBound = pol_TenantRequired policy\<rparr> w of
             (Inl err, w') \<Rightarrow>
               if err_is err ErrGrantResolverUnavailable then ((decision\<lparr>dec_Reason := ReasonGrantResolverUnavailable\<rparr>, None), w')
               else if err_is err errTenantGrantRolesRequired then ((decision\<lparr>dec_Reason := ReasonRoleRequired\<rparr>, None), w')
               else ((decision, Some (Wrap ''gateway authz: grant resolution: %w'' [] err)), w')
           | (Inr grants, w') \<Rightarrow>
               (let normalized = requested_grants (pol_Permissions policy) grants;
                    present = remdups (map gr_Permission normalized);
                    decision = decision\<lparr>dec_Grants := sort_key grant_key normalized\<rparr>
                in ((verdict (if pol_Mode policy = PermissionAny then present \<noteq> [] else length present = length (pol_Permissions policy))
                       decision, None), w'))))"

section \<open>Guards\<close>

type_synonym ('w, 'h, 'i) OperationGuard =
  "('w, 'h) ctx option \<Rightarrow> AuthorizedOperation \<Rightarrow> 'i \<Rightarrow> 'w \<Rightarrow> ('w, 'h) ctx option result \<times> 'w"
type_synonym ('w, 'h, 'i) GuardResolver = "string \<Rightarrow> ('w, 'h, 'i) OperationGuard option"

fun static_guards :: "(string \<times> 'g option) list \<Rightarrow> (string \<times> 'g) list \<Rightarrow> (string \<times> 'g) list" where
  "static_guards [] result = result"
| "static_guards ((operation, guard) # values) result =
     (case guard of
        Some g \<Rightarrow> if trim_space operation = [] then static_guards values result
                  else static_guards values (AList.update (trim_space operation) g result)
      | None \<Rightarrow> static_guards values result)"

definition NewStaticGuardResolver :: "(string \<times> 'g option) list \<Rightarrow> (string \<times> 'g) list" where
  "NewStaticGuardResolver values = static_guards values []"

definition ResolveGuard :: "(string \<times> 'g) list \<Rightarrow> string \<Rightarrow> 'g option" where
  "ResolveGuard resolver operation = map_of resolver (trim_space operation)"

fun chain_Prepare :: "('w, 'h, 'i) OperationGuard list \<Rightarrow> ('w, 'h, 'i) OperationGuard" where
  "chain_Prepare [] secured authorized input w = (Inr secured, w)"
| "chain_Prepare (guard # guards) secured authorized input w =
     (case guard secured authorized input w of
        (Inl err, w') \<Rightarrow> (Inl err, w')
      | (Inr None, w') \<Rightarrow> (Inl (Err ''gateway authz: operation guard chain returned nil context'' []), w')
      | (Inr (Some secured'), w') \<Rightarrow> chain_Prepare guards (Some secured') authorized input w')"

definition NewOperationGuardChain :: "('w, 'h, 'i) OperationGuard option list \<Rightarrow> ('w, 'h, 'i) OperationGuard option" where
  "NewOperationGuardChain guards =
     (let gs = some_values guards in if gs = [] then None else Some (chain_Prepare gs))"

fun static_chains ::
  "(string \<times> ('w, 'h, 'i) OperationGuard option list) list \<Rightarrow> (string \<times> ('w, 'h, 'i) OperationGuard) list \<Rightarrow> (string \<times> ('w, 'h, 'i) OperationGuard) list" where
  "static_chains [] result = result"
| "static_chains ((operation, guards) # values) result =
     (case NewOperationGuardChain guards of
        Some g \<Rightarrow> static_chains values (AList.update operation g result)
      | None \<Rightarrow> static_chains values result)"

definition NewStaticGuardChainResolver ::
  "(string \<times> ('w, 'h, 'i) OperationGuard option list) list \<Rightarrow> (string \<times> ('w, 'h, 'i) OperationGuard) list" where
  "NewStaticGuardChainResolver values = static_chains values []"

section \<open>Security phases\<close>

definition ErrOperationRuntimeUnavailable :: goerr where
  "ErrOperationRuntimeUnavailable = Err ''gateway authz: operation runtime unavailable'' []"
definition ErrOperationPolicyNotFound :: goerr where
  "ErrOperationPolicyNotFound = Err ''gateway authz: operation policy not found'' []"
definition ErrAuthorizedOperationMissing :: goerr where
  "ErrAuthorizedOperationMissing = Err ''gateway authz: authorized operation missing'' []"
definition ErrExecutionSecurityUnavailable :: goerr where
  "ErrExecutionSecurityUnavailable = Err ''gateway authz: execution security unavailable'' []"
definition ErrExecutionAdapterUnsupported :: goerr where
  "ErrExecutionAdapterUnsupported = Err ''gateway authz: unsupported execution adapter'' []"

definition WithAuthorizedOperation :: "('w, 'h) ctx \<Rightarrow> AuthorizedOperation \<Rightarrow> ('w, 'h) ctx" where
  "WithAuthorizedOperation ctx v = ctx\<lparr>cx_authorized := Some v\<rparr>"

definition AuthorizedOperationFromContext :: "('w, 'h) ctx option \<Rightarrow> AuthorizedOperation option" where
  "AuthorizedOperationFromContext ctx = Option.bind ctx cx_authorized"

definition RequireAuthorizedOperation :: "('w, 'h) ctx option \<Rightarrow> string \<Rightarrow> AuthorizedOperation result" where
  "RequireAuthorizedOperation ctx operation =
     (case AuthorizedOperationFromContext ctx of
        None \<Rightarrow> Inl ErrAuthorizedOperationMissing
      | Some v \<Rightarrow>
        if \<not> dec_Allowed (az_Decision v) then Inl ErrAuthorizedOperationMissing
        else if operation \<noteq> [] \<and> pol_Operation (az_Policy v) \<noteq> operation
        then Inl (Wrap ''%w: expected=%s actual=%s'' [operation, pol_Operation (az_Policy v)] ErrAuthorizedOperationMissing)
        else Inr v)"

text \<open>\<open>operationRuntime.Prepare\<close> and \<open>prepareAuthorized\<close> decide and then let the guard prepare the context in the same way; they
  differ in the error for a guard that returns nil.\<close>

definition secure ::
  "goerr \<Rightarrow> ('w, 'h) Authorizer \<Rightarrow> ('w, 'h, 'i) GuardResolver option \<Rightarrow> ('w, 'h) ctx \<Rightarrow> AuthPolicy \<Rightarrow> 'i \<Rightarrow> 'w
     \<Rightarrow> ('w, 'h) ctx option result \<times> 'w" where
  "secure nilContext authorizer guards ctx policy input w =
     (let who = fst (FromContext (Some ctx)) in
      case authorizer (Some ctx) who policy w of
        ((decision, Some err), w1) \<Rightarrow> (Inl err, w1)
      | ((decision, None), w1) \<Rightarrow>
        if \<not> dec_Allowed decision then (Inl (Denied decision), w1)
        else
          (let authorized = \<lparr>az_Principal = who, az_Policy = policy, az_Decision = decision\<rparr>;
               secured = WithAuthorizedOperation ctx authorized
           in case Option.bind guards (\<lambda>resolve. resolve (pol_Operation policy)) of
                None \<Rightarrow> (Inr (Some secured), w1)
              | Some guard \<Rightarrow>
                (case guard (Some secured) authorized input w1 of
                   (Inl err, w2) \<Rightarrow> (Inl err, w2)
                 | (Inr None, w2) \<Rightarrow> (Inl nilContext, w2)
                 | (Inr (Some c), w2) \<Rightarrow> (Inr (Some c), w2))))"

definition prepareAuthorized ::
  "('w, 'h) ctx option \<Rightarrow> AuthPolicy \<Rightarrow> 'i \<Rightarrow> ('w, 'h) Authorizer option \<Rightarrow> ('w, 'h, 'i) GuardResolver option \<Rightarrow> 'w \<Rightarrow> ('w, 'h) ctx option result \<times> 'w" where
  "prepareAuthorized ctx policy input authorizer guards w =
     (case authorizer of
        None \<Rightarrow> (Inl ErrExecutionSecurityUnavailable, w)
      | Some a \<Rightarrow>
        secure (Err ''gateway authz: operation guard returned nil context for %s'' [pol_Operation policy]) a guards (nonNil ctx) policy input w)"

record ('w, 'h, 'i) executionSecurity =
  es_authorizer :: "('w, 'h) Authorizer option"
  es_guards :: "('w, 'h, 'i) GuardResolver option"

definition NewExecutionSecurity ::
  "('w, 'h) Authorizer option \<Rightarrow> ('w, 'h, 'i) GuardResolver option \<Rightarrow> ('w, 'h, 'i) executionSecurity result" where
  "NewExecutionSecurity authorizer guards =
     (case authorizer of
        None \<Rightarrow> Inl (Err ''gateway authz: authorizer is required'' [])
      | Some a \<Rightarrow> Inr \<lparr>es_authorizer = Some a, es_guards = guards\<rparr>)"

definition security_Prepare ::
  "('w, 'h, 'i) executionSecurity option \<Rightarrow> ('w, 'h) ctx option \<Rightarrow> OpPlan \<Rightarrow> 'i \<Rightarrow> 'w \<Rightarrow> ('w, 'h) ctx option result \<times> 'w" where
  "security_Prepare security ctx plan input w =
     (case security of
        None \<Rightarrow> (Inl ErrExecutionSecurityUnavailable, w)
      | Some s \<Rightarrow>
        (case es_authorizer s of
           None \<Rightarrow> (Inl ErrExecutionSecurityUnavailable, w)
         | Some a \<Rightarrow> prepareAuthorized ctx (PolicyFromOperationPlan plan) input (Some a) (es_guards s) w))"

section \<open>The compatibility adapters\<close>

record ('w, 'h, 'i) operationRuntime =
  or_resolver :: "('w, 'h) ctx \<Rightarrow> string \<Rightarrow> AuthPolicy option"
  or_authorizer :: "('w, 'h) Authorizer"
  or_guards :: "('w, 'h, 'i) GuardResolver option"

definition NewOperationRuntime ::
  "(('w, 'h) ctx \<Rightarrow> string \<Rightarrow> AuthPolicy option) option \<Rightarrow> ('w, 'h) Authorizer option \<Rightarrow> ('w, 'h, 'i) GuardResolver option
     \<Rightarrow> ('w, 'h, 'i) operationRuntime result" where
  "NewOperationRuntime resolver authorizer guards =
     (case resolver of
        None \<Rightarrow> Inl (Err ''gateway authz: policy resolver is required'' [])
      | Some r \<Rightarrow>
        (case authorizer of
           None \<Rightarrow> Inl (Err ''gateway authz: authorizer is required'' [])
         | Some a \<Rightarrow> Inr \<lparr>or_resolver = r, or_authorizer = a, or_guards = guards\<rparr>))"

definition runtime_Prepare ::
  "('w, 'h, 'i) operationRuntime option \<Rightarrow> ('w, 'h) ctx \<Rightarrow> string \<Rightarrow> 'i \<Rightarrow> 'w \<Rightarrow> ('w, 'h) ctx option result \<times> 'w" where
  "runtime_Prepare runtime ctx key input w =
     (case runtime of
        None \<Rightarrow> (Inl ErrOperationRuntimeUnavailable, w)
      | Some r \<Rightarrow>
        (case or_resolver r ctx key of
           None \<Rightarrow> (Inl (Wrap ''%w: %s'' [trim_space key] ErrOperationPolicyNotFound), w)
         | Some policy \<Rightarrow> secure (Err ''gateway authz: operation guard returned nil context'' []) (or_authorizer r) (or_guards r) ctx policy input w))"

definition runtime_security ::
  "('w, 'h, 'i) operationRuntime option \<Rightarrow> ('w, 'h) ctx \<Rightarrow> OpPlan \<Rightarrow> 'i \<Rightarrow> 'w \<Rightarrow> ('w, 'h) ctx option result \<times> 'w" where
  "runtime_security runtime ctx plan input w =
     (case runtime of
        None \<Rightarrow> (Inl ErrOperationRuntimeUnavailable, w)
      | Some r \<Rightarrow>
        (let binding = trim_space (bind_rpc (op_bindings plan)) in
         if binding = [] then (Inl (Err ''gateway authz: operation %s has no canonical RPC binding'' [OperationID plan]), w)
         else runtime_Prepare (Some r) ctx binding input w))"

definition preauthorized_security :: "('w, 'h) ctx \<Rightarrow> OpPlan \<Rightarrow> 'i \<Rightarrow> 'w \<Rightarrow> ('w, 'h) ctx option result \<times> 'w" where
  "preauthorized_security ctx plan input w =
     (case RequireAuthorizedOperation (Some ctx) (trim_space (OperationID plan)) of Inl err \<Rightarrow> (Inl err, w) | Inr _ \<Rightarrow> (Inr (Some ctx), w))"

text \<open>An executor with a security phase and nothing else.\<close>

definition security_executor ::
  "(('w, 'h) ctx \<Rightarrow> OpPlan \<Rightarrow> 'i \<Rightarrow> 'w \<Rightarrow> ('w, 'h) ctx option result \<times> 'w) \<Rightarrow> ('w, 'h, 'i) executor" where
  "security_executor security = \<lparr>ex_security = Some security, ex_transactions = None, ex_idempotency = None\<rparr>"

definition ExecutorFromOperationRuntime :: "('w, 'h, 'i) operationRuntime option \<Rightarrow> ('w, 'h, 'i) executor result" where
  "ExecutorFromOperationRuntime runtime =
     (case runtime of
        None \<Rightarrow> Inl ErrOperationRuntimeUnavailable
      | Some r \<Rightarrow> Inr (security_executor (runtime_security (Some r))))"

definition PreauthorizedExecutor :: "('w, 'h, 'i) executor" where
  "PreauthorizedExecutor = security_executor preauthorized_security"

text \<open>The argument of \<open>ResolveExecutor\<close> by its dynamic type; a nil interface value matches no case of the switch.\<close>

datatype ('w, 'h, 'i) adapter = ExecutorValue "('w, 'h, 'i) executor" | RuntimeValue "('w, 'h, 'i) operationRuntime" | OtherValue string

fun ResolveExecutor :: "('w, 'h, 'i) adapter \<Rightarrow> ('w, 'h, 'i) executor result" where
  "ResolveExecutor (ExecutorValue ex) = Inr ex"
| "ResolveExecutor (RuntimeValue r) = ExecutorFromOperationRuntime (Some r)"
| "ResolveExecutor (OtherValue t) = Inl (Wrap ''%w: %T'' [t] ErrExecutionAdapterUnsupported)"

section \<open>Normal policies\<close>

lemma policy_Normalize_idem [simp]: "policy_Normalize (policy_Normalize p) = policy_Normalize p"
  by (simp add: policy_Normalize_def)

lemma PolicyFromOperationPlan_normal [simp]: "policy_Normalize (PolicyFromOperationPlan plan) = PolicyFromOperationPlan plan"
  by (simp add: PolicyFromOperationPlan_def)

lemma PolicyFromOperationPlan_permissions:
  "set (pol_Permissions (PolicyFromOperationPlan plan)) = {v \<in> trim_space ` set (Permissions (op_security plan)). v \<noteq> []}"
proof -
  let ?ps = "Permissions (op_security plan)"
  have "pol_Permissions (PolicyFromOperationPlan plan) = stableStrings (filter (\<lambda>p. p \<noteq> []) (map trim_space ?ps))"
    by (simp add: PolicyFromOperationPlan_def policy_Normalize_def)
  then show ?thesis by (auto simp: stableStrings_spec(2) image_iff)
qed

section \<open>What a decision means\<close>

text \<open>The principal satisfies what the policy asks of it, permissions aside.\<close>

definition admitted :: "Principal \<Rightarrow> AuthPolicy \<Rightarrow> bool" where
  "admitted who policy \<longleftrightarrow>
     (pol_Authentication policy \<noteq> [] \<longrightarrow> Authenticated who \<and> AuthMethod who \<in> set (pol_Authentication policy)) \<and>
     (pol_Permissions policy \<noteq> [] \<longrightarrow> Authenticated who) \<and>
     (pol_TenantRequired policy \<longrightarrow> trim_space (TenantID who) \<noteq> [])"

lemma precheck_None: "precheck who policy = None \<longleftrightarrow> admitted who policy"
  by (auto simp: precheck_def admitted_def containsString_def list_ex_iff)

lemma precheck_reason: "precheck who policy = Some reason \<Longrightarrow> reason \<notin> {NoReason, ReasonAllowed}"
  by (auto simp: precheck_def split: if_splits)

definition granted :: "Grant list \<Rightarrow> string set" where
  "granted grants = (\<lambda>g. trim_space (gr_Permission g)) ` set grants"

definition satisfied :: "AuthPolicy \<Rightarrow> Grant list \<Rightarrow> bool" where
  "satisfied policy grants =
     (if pol_Mode policy = PermissionAny then \<exists>p \<in> set (pol_Permissions policy). p \<in> granted grants
      else set (pol_Permissions policy) \<subseteq> granted grants)"

definition grant_request :: "Principal \<Rightarrow> AuthPolicy \<Rightarrow> GrantRequest" where
  "grant_request who policy =
     \<lparr>rq_Principal = who, rq_Operation = pol_Operation policy, rq_Permissions = pol_Permissions policy, rq_TenantBound = pol_TenantRequired policy\<rparr>"

lemma set_requested_permissions: "gr_Permission ` set (requested_grants wanted grants) = set wanted \<inter> granted grants"
proof -
  have "gr_Permission (trim_grant g) = trim_space (gr_Permission g)" for g by (simp add: trim_grant_def)
  then show ?thesis by (auto simp: requested_grants_def granted_def image_iff) metis
qed

lemma card_subset_all: "finite A \<Longrightarrow> card (A \<inter> B) = card A \<longleftrightarrow> A \<subseteq> B"
  by (metis Int_absorb2 Int_lower1 card_subset_eq inf.absorb_iff1)

lemma present_satisfied:
  assumes "distinct (pol_Permissions policy)"
  shows "(if pol_Mode policy = PermissionAny then remdups (map gr_Permission (requested_grants (pol_Permissions policy) grants)) \<noteq> []
    else length (remdups (map gr_Permission (requested_grants (pol_Permissions policy) grants))) = length (pol_Permissions policy)) \<longleftrightarrow>
    satisfied policy grants"
proof -
  let ?present = "map gr_Permission (requested_grants (pol_Permissions policy) grants)"
  have s: "set ?present = set (pol_Permissions policy) \<inter> granted grants" by (simp add: set_requested_permissions)
  then have "length (remdups ?present) = card (set (pol_Permissions policy) \<inter> granted grants)" by (simp only: length_remdups_card_conv)
  moreover have "length (pol_Permissions policy) = card (set (pol_Permissions policy))" using assms by (simp add: distinct_card)
  moreover have "remdups ?present \<noteq> [] \<longleftrightarrow> set (pol_Permissions policy) \<inter> granted grants \<noteq> {}"
    using s by (metis remdups_eq_nil_iff set_empty)
  ultimately show ?thesis by (auto simp: satisfied_def card_subset_all)
qed

lemma distinct_policy: "distinct (pol_Permissions (policy_Normalize policy))"
  by (simp add: policy_Normalize_def stableStrings_spec)

lemma grant_decision_spec:
  assumes "grant_Authorize a ctx who policy w = ((decision, err), w')"
  shows "(dec_Allowed decision \<longleftrightarrow> admitted who (policy_Normalize policy) \<and>
      (pol_Permissions (policy_Normalize policy) = [] \<or>
       (\<exists>resolver grants. a = Some resolver \<and> fst (resolver ctx (grant_request who (policy_Normalize policy)) w) = Inr grants \<and>
          satisfied (policy_Normalize policy) grants))) \<and>
    (dec_Allowed decision \<longrightarrow> err = None \<and> dec_Reason decision = ReasonAllowed) \<and>
    (err = None \<and> \<not> dec_Allowed decision \<longrightarrow> dec_Reason decision \<notin> {NoReason, ReasonAllowed}) \<and>
    dec_Operation decision = trim_space (pol_Operation policy) \<and>
    gr_Permission ` set (dec_Grants decision) \<subseteq> set (pol_Permissions (policy_Normalize policy)) \<and> sorted (map grant_key (dec_Grants decision))"
proof -
  let ?p = "policy_Normalize policy"
  have op: "pol_Operation ?p = trim_space (pol_Operation policy)" by (simp add: policy_Normalize_def)
  show ?thesis
  proof (cases "precheck who ?p")
    case (Some reason)
    with precheck_reason [OF Some] have "\<not> admitted who ?p" by (simp add: precheck_None [symmetric])
    with assms Some precheck_reason [OF Some] op show ?thesis by (auto simp: grant_Authorize_def Let_def undecided_def)
  next
    case None
    then have adm: "admitted who ?p" by (simp add: precheck_None)
    show ?thesis
    proof (cases "pol_Permissions ?p = [] \<or> a = None")
      case True
      with assms None have "decision = (if pol_Permissions ?p = [] then verdict True (undecided ?p)
          else (undecided ?p)\<lparr>dec_Reason := ReasonGrantResolverUnavailable\<rparr>)" "err = None"
        by (cases "pol_Permissions ?p = []"; simp add: grant_Authorize_def Let_def)+
      with True adm op show ?thesis by (cases "pol_Permissions ?p = []") (simp_all add: undecided_def verdict_def)
    next
      case False
      then obtain resolver where a: "a = Some resolver" and perms: "pol_Permissions ?p \<noteq> []" by auto
      obtain r w1 where r: "resolver ctx (grant_request who ?p) w = (r, w1)" by fastforce
      show ?thesis
      proof (cases r)
        case (Inl e)
        with assms None a perms r have "\<not> dec_Allowed decision" "dec_Operation decision = pol_Operation ?p" "dec_Grants decision = []"
          "err = None \<longrightarrow> dec_Reason decision \<notin> {NoReason, ReasonAllowed}"
          by (auto simp: grant_Authorize_def grant_request_def Let_def undecided_def split: if_splits)
        with a perms r Inl op show ?thesis by auto
      next
        case (Inr grants)
        with assms None a perms r have d: "decision = verdict (satisfied ?p grants)
            ((undecided ?p)\<lparr>dec_Grants := sort_key grant_key (requested_grants (pol_Permissions ?p) grants)\<rparr>)" "err = None"
          using present_satisfied [OF distinct_policy, of policy grants]
          by (auto simp: grant_Authorize_def grant_request_def Let_def)
        have "gr_Permission ` set (dec_Grants decision) \<subseteq> set (pol_Permissions ?p)"
          using set_requested_permissions [of "pol_Permissions ?p" grants] by (auto simp: d verdict_def)
        with d a perms r Inr adm op show ?thesis by (auto simp: verdict_def undecided_def)
      qed
    qed
  qed
qed

lemmas grant_decision_iff = grant_decision_spec [THEN conjunct1]

text \<open>The boolean authorizer allows permissions inside a tenant only.\<close>

lemma rbac_decision_iff:
  assumes "rbac_Authorize checker ctx who policy w = ((decision, err), w')"
  shows "dec_Allowed decision \<longleftrightarrow> admitted who (policy_Normalize policy) \<and>
    (pol_Permissions (policy_Normalize policy) = [] \<or> pol_TenantRequired policy \<and> Roles who \<noteq> [] \<and>
     fst (checker ctx (TenantID who) (Roles who) (pol_Permissions (policy_Normalize policy)) (pol_Mode policy) w) = Inr True)"
proof -
  let ?p = "policy_Normalize policy"
  have eqs: "pol_TenantRequired ?p = pol_TenantRequired policy" "pol_Mode ?p = pol_Mode policy" by (simp_all add: policy_Normalize_def)
  show ?thesis
  proof (cases "admitted who ?p")
    case False
    then obtain reason where "precheck who ?p = Some reason" using precheck_None by blast
    with assms False show ?thesis by (auto simp: rbac_Authorize_def Let_def undecided_def)
  next
    case True
    then have "precheck who ?p = None" by (simp add: precheck_None)
    with assms True eqs show ?thesis
      by (cases "pol_Permissions ?p = []"; cases "fst (checker ctx (TenantID who) (Roles who) (pol_Permissions ?p) (pol_Mode policy) w)")
        (auto simp: rbac_Authorize_def Let_def undecided_def verdict_def split: if_splits prod.splits)
  qed
qed

text \<open>The decision of a grant authorizer. It allows an operation exactly when the principal is admitted and either the policy asks
  for no permission or the resolver, asked about this principal, operation and tenant boundary, returned grants that contain
  all permissions of the policy, or one of them in mode any. Without a resolver and on every error of the resolver it does not
  allow; it reports an error only then, and otherwise gives a reason; the grants it passes on are for permissions of the policy
  only.\<close>

theorem grant_decision:
  assumes "grant_Authorize a ctx who policy w = ((decision, err), w')"
  shows "(dec_Allowed decision \<longleftrightarrow> admitted who (policy_Normalize policy) \<and>
      (pol_Permissions (policy_Normalize policy) = [] \<or>
       (\<exists>resolver grants. a = Some resolver \<and> fst (resolver ctx (grant_request who (policy_Normalize policy)) w) = Inr grants \<and>
          satisfied (policy_Normalize policy) grants))) \<and>
    (dec_Allowed decision \<longrightarrow> err = None \<and> dec_Reason decision = ReasonAllowed) \<and>
    (err = None \<and> \<not> dec_Allowed decision \<longrightarrow> dec_Reason decision \<notin> {NoReason, ReasonAllowed}) \<and>
    dec_Operation decision = trim_space (pol_Operation policy) \<and>
    gr_Permission ` set (dec_Grants decision) \<subseteq> set (pol_Permissions (policy_Normalize policy)) \<and> sorted (map grant_key (dec_Grants decision))"
  using assms by (rule grant_decision_spec)

section \<open>Guarded operations\<close>

text \<open>A security phase built from an authorizer passes only what the authorizer allows.\<close>

lemma secure_allowed:
  assumes "secure e authorizer guards ctx policy input w = (Inr c, w')"
  obtains decision w1 where "authorizer (Some ctx) (fst (FromContext (Some ctx))) policy w = ((decision, None), w1)" "dec_Allowed decision"
  using assms by (auto simp: secure_def Let_def split: prod.splits option.splits if_splits)

text \<open>A chain of guards is their composition: each prepares what its predecessor returned, and the first failure ends it.\<close>

lemma chain_Prepare_append:
  "chain_Prepare (gs @ hs) c authorized input w =
     (case chain_Prepare gs c authorized input w of (Inl e, w') \<Rightarrow> (Inl e, w') | (Inr c', w') \<Rightarrow> chain_Prepare hs c' authorized input w')"
  by (induction gs arbitrary: c w) (auto split: prod.splits sum.splits option.splits)

text \<open>Without a guard for the operation the context carries the mark of the decision.\<close>

lemma secure_marks:
  assumes "secure e authorizer guards ctx policy input w = (Inr (Some c), w')"
    and "Option.bind guards (\<lambda>resolve. resolve (pol_Operation policy)) = None"
  shows "\<exists>v. RequireAuthorizedOperation (Some c) (pol_Operation policy) = Inr v \<and> az_Principal v = fst (FromContext (Some ctx)) \<and>
    az_Policy v = policy \<and> c = ctx\<lparr>cx_authorized := Some v\<rparr>"
  using assms
  by (auto simp: secure_def Let_def RequireAuthorizedOperation_def AuthorizedOperationFromContext_def WithAuthorizedOperation_def
      split: prod.splits option.splits if_splits)

lemma FromContext_operation_context [simp]: "FromContext (Some (operation_context ctx plan)) = FromContext (Some (nonNil ctx))"
  by (simp add: FromContext_def operation_context_def)

lemma Invoke_secured:
  assumes "Execute (Some ex) ctx plan input (Some invoke) \<lparr>rt_world = w, rt_log = []\<rparr> = (res, s')" and "Invoke \<in> set (rt_log s')"
  shows "security_passed ex ctx (normalizeRuntimePlan plan) input w"
proof -
  have "Invoke \<in> set (effects s')" using assms(2) by (simp add: effects_def)
  then have "\<not> (\<exists>cs. effects s' = effects \<lparr>rt_world = w, rt_log = []\<rparr> @ cs \<and> stopped res cs)"
    by (auto simp: stopped_def effects_def)
  with Execute_run [OF assms(1)] show ?thesis by auto
qed

lemma executed_allowed:
  assumes "ex_security ex = Some (\<lambda>c. security_Prepare (Some \<lparr>es_authorizer = Some authorizer, es_guards = guards\<rparr>) (Some c))"
    and "Execute (Some ex) ctx plan input (Some invoke) \<lparr>rt_world = w, rt_log = []\<rparr> = (res, s')" and "Invoke \<in> set (rt_log s')"
  obtains c decision w1 where "authorizer (Some c) (fst (FromContext (Some (nonNil ctx)))) (PolicyFromOperationPlan (normalizeRuntimePlan plan)) w = ((decision, None), w1)"
    "dec_Allowed decision"
proof -
  let ?p = "normalizeRuntimePlan plan" and ?c = "operation_context ctx (normalizeRuntimePlan plan)"
  from Invoke_secured [OF assms(2,3)] assms(1) obtain c w' where
    "security_Prepare (Some \<lparr>es_authorizer = Some authorizer, es_guards = guards\<rparr>) (Some ?c) ?p input w = (Inr (Some c), w')"
    by (auto simp: security_passed_def)
  then have "secure (Err ''gateway authz: operation guard returned nil context for %s'' [pol_Operation (PolicyFromOperationPlan ?p)]) authorizer guards
      ?c (PolicyFromOperationPlan ?p) input w = (Inr (Some c), w')"
    by (simp add: security_Prepare_def prepareAuthorized_def)
  from secure_allowed [OF this] that show thesis by auto
qed

text \<open>Property C5: no operation runs unauthorised. When the executor runs under the execution security of a grant authorizer and the application
  function was called, then the principal of the request was authenticated by a method of the plan if the plan names one, has
  a tenant if the plan needs one, and, unless the plan declares no permission, was authenticated and held all permissions
  the plan declares, or one of them in mode any, by the answer of the grant resolver to this very request.\<close>

theorem Execute_authorized:
  assumes "ex_security ex = Some (\<lambda>c. security_Prepare (Some \<lparr>es_authorizer = Some (grant_Authorize a), es_guards = guards\<rparr>) (Some c))"
    and "Execute (Some ex) ctx plan input (Some invoke) \<lparr>rt_world = w, rt_log = []\<rparr> = (res, s')" and "Invoke \<in> set (rt_log s')"
  defines "policy \<equiv> PolicyFromOperationPlan (normalizeRuntimePlan plan)" and "who \<equiv> fst (FromContext (Some (nonNil ctx)))"
  shows "admitted who policy \<and>
    (pol_Permissions policy = [] \<or>
     (\<exists>resolver c grants. a = Some resolver \<and> fst (resolver (Some c) (grant_request who policy) w) = Inr grants \<and> satisfied policy grants))"
proof -
  from executed_allowed [OF assms(1-3)] obtain c decision w1 where
    "grant_Authorize a (Some c) who policy w = ((decision, None), w1)" "dec_Allowed decision"
    unfolding policy_def who_def by blast
  with grant_decision_iff [OF this(1)] show ?thesis unfolding policy_def by auto
qed

section \<open>Composed operations\<close>

text \<open>A child operation runs without a security phase of its own; what stands for it is the permission closure that \<open>Validate\<close>
  checks.\<close>

lemma Normalize_permissions:
  assumes "p \<in> set (Operations (Normalize s))" "v \<in> set (Permissions (op_security p))"
  shows "trim_space v = v" "v \<noteq> []"
proof -
  from assms obtain q :: OpPlan where "v \<in> set (stableStrings (Permissions (op_security q)))"
    by (auto simp: Normalize_def normalize_plan_def normalize_security_def)
  from stableStrings_trimmed [OF this] show "trim_space v = v" "v \<noteq> []" by auto
qed

lemma closure_permissions:
  assumes "Validate s = None" "p \<in> set (Operations (Normalize s))" "q \<in> set (Operations (Normalize s))"
    "(OperationID p, OperationID q) \<in> (edges (plan_index s))\<^sup>*"
  shows "set (Permissions (op_security q)) \<subseteq> set (pol_Permissions (PolicyFromOperationPlan (normalizeRuntimePlan p)))"
proof -
  note V = Validate_spec [OF assms(1)]
  from assms(4) have "set (Permissions (op_security q)) \<subseteq> set (Permissions (op_security p))"
  proof (cases rule: rtranclE [consumes 1, case_names refl step])
    case refl
    with V assms(2,3) have "p = q" by (auto simp: distinct_map dest: inj_onD)
    then show ?thesis by simp
  next
    case (step z)
    then have "(OperationID p, OperationID q) \<in> (edges (plan_index s))\<^sup>+" by (rule rtrancl_into_trancl1)
    with V assms(2,3) show ?thesis by blast
  qed
  then show ?thesis using Normalize_permissions [OF assms(2)]
    by (force simp: PolicyFromOperationPlan_permissions normalizeRuntimePlan_def image_iff)
qed

lemma plan_mode_all: "to_upper (trim_space (PermissionMode (op_security plan))) \<noteq> ''ANY'' \<Longrightarrow>
  pol_Mode (PolicyFromOperationPlan (normalizeRuntimePlan plan)) = PermissionAll"
  by (simp add: PolicyFromOperationPlan_def policy_Normalize_def normalizeRuntimePlan_def)

text \<open>Property C4: the decision taken for a root operation covers everything it is composed of. When a plan set is valid, its operation \<open>p\<close>, which
  asks for all of its permissions, was executed under the grant authorizer and the application function was called, then
  the grants resolved for the principal contain every permission of every operation that \<open>p\<close> can reach through the
  operations it requires, though these run as children without a decision of their own.\<close>

theorem composition_authorized:
  assumes "Validate s = None" "p \<in> set (Operations (Normalize s))" "q \<in> set (Operations (Normalize s))"
    and "(OperationID p, OperationID q) \<in> (edges (plan_index s))\<^sup>*" and "Permissions (op_security q) \<noteq> []"
    and mode: "to_upper (trim_space (PermissionMode (op_security p))) \<noteq> ''ANY''"
    and "ex_security ex = Some (\<lambda>c. security_Prepare (Some \<lparr>es_authorizer = Some (grant_Authorize a), es_guards = guards\<rparr>) (Some c))"
    and "Execute (Some ex) ctx p input (Some invoke) \<lparr>rt_world = w, rt_log = []\<rparr> = (res, s')" and "Invoke \<in> set (rt_log s')"
  shows "\<exists>resolver c grants. a = Some resolver \<and>
    fst (resolver (Some c) (grant_request (fst (FromContext (Some (nonNil ctx)))) (PolicyFromOperationPlan (normalizeRuntimePlan p))) w) = Inr grants \<and>
    set (Permissions (op_security q)) \<subseteq> granted grants \<and> Authenticated (fst (FromContext (Some (nonNil ctx))))"
proof -
  let ?pol = "PolicyFromOperationPlan (normalizeRuntimePlan p)" and ?who = "fst (FromContext (Some (nonNil ctx)))"
  note sub = closure_permissions [OF assms(1-4)]
  then have perms: "pol_Permissions ?pol \<noteq> []" using assms(5) by auto
  from executed_allowed [OF assms(7-9)] obtain c decision w1 where
    d: "grant_Authorize a (Some c) ?who ?pol w = ((decision, None), w1)" "dec_Allowed decision" by blast
  from grant_decision_iff [OF d(1)] d(2) perms obtain resolver grants where
    g: "a = Some resolver" "fst (resolver (Some c) (grant_request ?who ?pol) w) = Inr grants" "satisfied ?pol grants" "admitted ?who ?pol" by auto
  from g(3) plan_mode_all [OF mode] have "set (pol_Permissions ?pol) \<subseteq> granted grants" by (simp add: satisfied_def)
  with sub have "set (Permissions (op_security q)) \<subseteq> granted grants" by blast
  moreover have "Authenticated ?who" using g(4) perms by (simp add: admitted_def)
  ultimately show ?thesis using g(1,2) by blast
qed

section \<open>Two gaps\<close>

text \<open>In mode any one permission of the root is enough, so an operation it requires can run for a principal that holds none of its
  permissions.\<close>

definition ex_any_set :: PlanSet where
  "ex_any_set =
     (let x = ex_op ''x'' [''y''] [''p'', ''q''] [''q''] in
      \<lparr>set_version = 2, Operations = [x\<lparr>op_security := (op_security x)\<lparr>PermissionMode := ''any''\<rparr>\<rparr>, ex_op ''y'' [] [''q''] []]\<rparr>)"

definition ex_who :: Principal where
  "ex_who = no_principal\<lparr>Subject := ''u'', Authenticated := True\<rparr>"

definition ex_grants :: "string list \<Rightarrow> (nat, unit) GrantResolver" where
  "ex_grants ps ctx request w = (Inr (map (\<lambda>p. \<lparr>gr_Permission = p, gr_RoleID = [], gr_Scope = []\<rparr>) ps), w)"

lemma any_mode_escapes:
  "Validate ex_any_set = None \<and>
   (\<forall>p \<in> set (Operations (Normalize ex_any_set)). OperationID p = ''x'' \<longrightarrow> RequiresOperations (op_composition p) = [''y''] \<and>
      dec_Allowed (fst (fst (grant_Authorize (Some (ex_grants [''p''])) None ex_who (PolicyFromOperationPlan p) 0)))) \<and>
   (\<forall>q \<in> set (Operations (Normalize ex_any_set)). OperationID q = ''y'' \<longrightarrow> Permissions (op_security q) = [''q''])"
proof (intro conjI)
  show "Validate ex_any_set = None" by code_simp
next
  show "\<forall>p \<in> set (Operations (Normalize ex_any_set)). OperationID p = ''x'' \<longrightarrow> RequiresOperations (op_composition p) = [''y''] \<and>
      dec_Allowed (fst (fst (grant_Authorize (Some (ex_grants [''p''])) None ex_who (PolicyFromOperationPlan p) 0)))" by code_simp
next
  show "\<forall>q \<in> set (Operations (Normalize ex_any_set)). OperationID q = ''y'' \<longrightarrow> Permissions (op_security q) = [''q'']" by code_simp
qed

text \<open>Guards registered in chains under an operation id with surrounding white space are never found: the chain resolver keeps the id as it
  is, the lookup trims it.\<close>

lemma padded_chain_ignored:
  assumes "trim_space oid \<noteq> oid" "trim_space oid \<noteq> []"
  shows "ResolveGuard (NewStaticGuardChainResolver [(oid, [Some g])]) oid = None" "ResolveGuard (NewStaticGuardResolver [(oid, Some g)]) oid = Some g"
  using assms by (auto simp: ResolveGuard_def NewStaticGuardChainResolver_def NewStaticGuardResolver_def NewOperationGuardChain_def)

section \<open>Witnesses\<close>

text \<open>The valid plan set of OperationPlan, in which \<open>x\<close> requires \<open>y\<close>, executed for a principal with both permissions of \<open>x\<close>.\<close>

definition ex_composed :: OpPlan where
  "ex_composed = hd (Operations (Normalize ex_set))"

definition ex_phase :: "(nat, unit) ctx \<Rightarrow> OpPlan \<Rightarrow> unit \<Rightarrow> nat \<Rightarrow> (nat, unit) ctx option result \<times> nat" where
  "ex_phase c = security_Prepare (Some \<lparr>es_authorizer = Some (grant_Authorize (Some (ex_grants [''w'', '' p '']))), es_guards = None\<rparr>) (Some c)"

definition ex_ctx :: "(nat, unit) ctx" where
  "ex_ctx = WithPrincipal None ex_who"

definition ex_run :: "(unit, nat option \<times> goerr option) outcome \<times> nat rt" where
  "ex_run = Execute (Some (security_executor ex_phase)) (Some ex_ctx) ex_composed () (Some (\<lambda>c w. (Return (Some 7, None), w + 1))) \<lparr>rt_world = 0, rt_log = []\<rparr>"

lemma ex_phase_security:
  "ex_security (security_executor ex_phase) =
     Some (\<lambda>c. security_Prepare (Some \<lparr>es_authorizer = Some (grant_Authorize (Some (ex_grants [''w'', '' p '']))), es_guards = None\<rparr>) (Some c))"
  by (simp add: security_executor_def ex_phase_def fun_eq_iff)

lemma ex_run_result: "case ex_run of (res, s') \<Rightarrow> res = Return (Some 7, None) \<and> Invoke \<in> set (rt_log s')"
  by code_simp

theorem grant_decision_witness:
  "\<exists>decision w'. grant_Authorize (Some (ex_grants [''p''])) None ex_who (zero_policy\<lparr>pol_Permissions := ['' p '']\<rparr>) 0 = ((decision, None), w') \<and>
     dec_Allowed decision \<and> dec_Reason decision = ReasonAllowed"
proof -
  obtain decision err w' where run: "grant_Authorize (Some (ex_grants [''p''])) None ex_who (zero_policy\<lparr>pol_Permissions := ['' p '']\<rparr>) 0 = ((decision, err), w')"
    by (metis prod.collapse)
  have "dec_Allowed (fst (fst (grant_Authorize (Some (ex_grants [''p''])) None ex_who (zero_policy\<lparr>pol_Permissions := ['' p '']\<rparr>) 0)))" by code_simp
  with run have "dec_Allowed decision" by simp
  with grant_decision [OF run] run show ?thesis by auto
qed

theorem Execute_authorized_witness:
  "admitted ex_who (PolicyFromOperationPlan (normalizeRuntimePlan ex_composed)) \<and> pol_Permissions (PolicyFromOperationPlan (normalizeRuntimePlan ex_composed)) = [''p'', ''w'']"
proof -
  obtain res s' where run: "ex_run = (res, s')" "Invoke \<in> set (rt_log s')" using ex_run_result by (auto split: prod.splits)
  have "admitted (fst (FromContext (Some (nonNil (Some ex_ctx))))) (PolicyFromOperationPlan (normalizeRuntimePlan ex_composed))"
    using Execute_authorized [OF ex_phase_security run(1) [unfolded ex_run_def] run(2)] by blast
  then have "admitted ex_who (PolicyFromOperationPlan (normalizeRuntimePlan ex_composed))" by (simp add: ex_ctx_def)
  moreover have "pol_Permissions (PolicyFromOperationPlan (normalizeRuntimePlan ex_composed)) = [''p'', ''w'']" by code_simp
  ultimately show ?thesis by simp
qed

theorem composition_authorized_witness:
  "\<exists>c grants. fst (ex_grants [''w'', '' p ''] (Some c) (grant_request ex_who (PolicyFromOperationPlan (normalizeRuntimePlan ex_composed))) 0) = Inr grants \<and>
     ''p'' \<in> granted grants"
proof -
  obtain res s' where run: "ex_run = (res, s')" "Invoke \<in> set (rt_log s')" using ex_run_result by (auto split: prod.splits)
  have ops: "map OperationID (Operations (Normalize ex_set)) = [''x'', ''y'']" "Validate ex_set = None" by code_simp+
  then obtain q where q: "Operations (Normalize ex_set) = [ex_composed, q]" "OperationID q = ''y''" by (auto simp: ex_composed_def map_eq_Cons_conv)
  have y: "Permissions (op_security ((Operations (Normalize ex_set)) ! 1)) = [''p'']" by code_simp
  have "RequiresOperations (op_composition ((Operations (Normalize ex_set)) ! 0)) = [''y'']" by code_simp
  then have "(OperationID ex_composed, OperationID q) \<in> edges (plan_index ex_set)"
    using q ops by (auto simp: edges_def requires_def plan_index_def)
  then have "(OperationID ex_composed, OperationID q) \<in> (edges (plan_index ex_set))\<^sup>*" by (rule r_into_rtrancl)
  moreover have "to_upper (trim_space (PermissionMode (op_security ex_composed))) \<noteq> ''ANY''" by code_simp
  ultimately show ?thesis
    using composition_authorized [OF ops(2) _ _ _ _ _ ex_phase_security run(1) [unfolded ex_run_def] run(2), of q] q y
    by (auto simp: ex_ctx_def)
qed

end
