(* ===== verification/RequestScope.thy ===== *)
theory RequestScope
  imports ExecScope
begin

text \<open>
  Request scopes (\<open>framework/requestscope\<close>): a scope owns one unit of work and finalises it once, whatever the request does with
  it; \<open>Execute\<close> runs a callback in a scope; views join the unit of work of a root operation without owning it; and
  the unit of work over a database transaction. The methods of a unit of work may fail or panic; they are functions of the world
  \<open>'w\<close>. Of the context they get, it matters whether it is that of the request, which may be cancelled, or the one detached from
  cancellation that cleanup uses. Every call on a unit of work is recorded. The operations of a scope hold its mutex, so a
  history is a sequence of them.
\<close>

section \<open>Data\<close>

datatype ctx_kind = RequestContext | CleanupContext

datatype unit_call = UCommit ctx_kind | URollback ctx_kind | UClose

type_synonym 'w unit_method = "'w \<Rightarrow> (string, goerr option) outcome \<times> 'w"

record 'w Unit =
  un_Commit :: "ctx_kind \<Rightarrow> 'w unit_method"
  un_Rollback :: "ctx_kind \<Rightarrow> 'w unit_method"
  un_Close :: "'w unit_method"

type_synonym 'w rctx = "'w Unit Context"

record 'w session =
  ss_world :: 'w
  ss_calls :: "unit_call list"

definition ErrFactoryUnavailable :: goerr where "ErrFactoryUnavailable = Err ''requestscope: factory is unavailable'' []"
definition ErrScopeClosed :: goerr where "ErrScopeClosed = Err ''requestscope: scope is closed'' []"
definition ErrScopeCommitted :: goerr where "ErrScopeCommitted = Err ''requestscope: scope is already committed'' []"
definition ErrScopeRolledBack :: goerr where "ErrScopeRolledBack = Err ''requestscope: scope is already rolled back'' []"
definition ErrExecutionScopeUnavailable :: goerr where
  "ErrExecutionScopeUnavailable = Err ''requestscope: execution scope has no unit of work'' []"

datatype finalAction = finalActionNone | finalActionCommit | finalActionCommitFailed | finalActionRollback

record ('w, 'r, 'l) Scope =
  sc_ctx :: "'w rctx"
  sc_unit :: "'w Unit option"
  sc_repositories :: 'r
  sc_logger :: "'l option"
  sc_principal :: "Principal \<times> bool"
  sc_metadata :: "Metadata \<times> bool"
  sc_traceID :: string
  sc_action :: finalAction
  sc_commitErr :: "goerr option"
  sc_rollbackErr :: "goerr option"
  sc_closed :: bool
  sc_closeErr :: "goerr option"

text \<open>Application code that builds repositories or loggers may fail or panic.\<close>

type_synonym ('w, 'r) RepositoryFactory = "'w rctx \<Rightarrow> 'w Unit \<Rightarrow> 'w \<Rightarrow> (string, 'r result) outcome \<times> 'w"
type_synonym ('w, 'l) LoggerFactory = "'w rctx \<Rightarrow> Principal \<times> bool \<Rightarrow> Metadata \<times> bool \<Rightarrow> 'w \<Rightarrow> (string, 'l option) outcome \<times> 'w"
type_synonym 'w UnitOfWorkFactory = "'w rctx \<Rightarrow> 'w \<Rightarrow> 'w Unit option result \<times> 'w"

record ('w, 'r, 'l) Factory =
  fa_unitOfWork :: "'w UnitOfWorkFactory option"
  fa_repositories :: "('w, 'r) RepositoryFactory option"
  fa_logger :: "('w, 'l) LoggerFactory option"

section \<open>Scopes\<close>

definition safeUnitOfWorkCall :: "string \<Rightarrow> unit_call \<Rightarrow> 'w unit_method \<Rightarrow> 'w session \<Rightarrow> goerr option \<times> 'w session" where
  "safeUnitOfWorkCall name c call s =
     (case call (ss_world s) of
        (Return err, w) \<Rightarrow> (err, \<lparr>ss_world = w, ss_calls = ss_calls s @ [c]\<rparr>)
      | (Panic p, w) \<Rightarrow> (Some (Err ''requestscope: %s panicked: %v'' [name, p]), \<lparr>ss_world = w, ss_calls = ss_calls s @ [c]\<rparr>))"

definition scope_Commit :: "('w, 'r, 'l) Scope option \<Rightarrow> 'w session \<Rightarrow> goerr option \<times> ('w, 'r, 'l) Scope option \<times> 'w session" where
  "scope_Commit scope s =
     (case scope of
        None \<Rightarrow> (Some ErrScopeClosed, None, s)
      | Some sc \<Rightarrow>
        (case sc_unit sc of
           None \<Rightarrow> (Some ErrScopeClosed, Some sc, s)
         | Some u \<Rightarrow>
           if sc_action sc = finalActionCommit \<or> sc_action sc = finalActionCommitFailed then (sc_commitErr sc, Some sc, s)
           else if sc_action sc = finalActionRollback
           then (err_join [Some ErrScopeRolledBack, sc_commitErr sc, sc_rollbackErr sc], Some sc, s)
           else if sc_closed sc then (Some ErrScopeClosed, Some sc, s)
           else
             (case safeUnitOfWorkCall ''commit'' (UCommit RequestContext) (un_Commit u RequestContext) s of
                (err, s1) \<Rightarrow>
                  (err, Some (sc\<lparr>sc_commitErr := err, sc_action := (if err \<noteq> None then finalActionCommitFailed else finalActionCommit)\<rparr>), s1))))"

definition scope_Rollback :: "('w, 'r, 'l) Scope option \<Rightarrow> 'w session \<Rightarrow> goerr option \<times> ('w, 'r, 'l) Scope option \<times> 'w session" where
  "scope_Rollback scope s =
     (case scope of
        None \<Rightarrow> (Some ErrScopeClosed, None, s)
      | Some sc \<Rightarrow>
        (case sc_unit sc of
           None \<Rightarrow> (Some ErrScopeClosed, Some sc, s)
         | Some u \<Rightarrow>
           if sc_action sc = finalActionRollback then (sc_rollbackErr sc, Some sc, s)
           else if sc_action sc = finalActionCommit then (err_join [Some ErrScopeCommitted, sc_commitErr sc], Some sc, s)
           else if sc_closed sc then (Some ErrScopeClosed, Some sc, s)
           else
             (case safeUnitOfWorkCall ''rollback'' (URollback CleanupContext) (un_Rollback u CleanupContext) s of
                (err, s1) \<Rightarrow> (err, Some (sc\<lparr>sc_action := finalActionRollback, sc_rollbackErr := err\<rparr>), s1))))"

definition scope_Close :: "('w, 'r, 'l) Scope option \<Rightarrow> 'w session \<Rightarrow> goerr option \<times> ('w, 'r, 'l) Scope option \<times> 'w session" where
  "scope_Close scope s =
     (case scope of
        None \<Rightarrow> (None, None, s)
      | Some sc \<Rightarrow>
        (case sc_unit sc of
           None \<Rightarrow> (None, Some sc, s)
         | Some u \<Rightarrow>
           if sc_closed sc then (sc_closeErr sc, Some sc, s)
           else
             (case (if sc_action sc = finalActionNone \<or> sc_action sc = finalActionCommitFailed
                    then (case safeUnitOfWorkCall ''rollback on close'' (URollback CleanupContext) (un_Rollback u CleanupContext) s of
                            (err, s1) \<Rightarrow> (err, sc\<lparr>sc_action := finalActionRollback, sc_rollbackErr := err\<rparr>, s1))
                    else (None, sc, s)) of
                (cleanupErr, sc1, s1) \<Rightarrow>
                  (case safeUnitOfWorkCall ''close'' UClose (un_Close u) s1 of
                     (err, s2) \<Rightarrow>
                       (let e = err_join [cleanupErr, err] in (e, Some (sc1\<lparr>sc_closed := True, sc_closeErr := e\<rparr>), s2))))))"

text \<open>The accessors, on a scope that may be nil.\<close>

definition scope_Context :: "('w, 'r, 'l) Scope option \<Rightarrow> 'w rctx" where
  "scope_Context scope = (case scope of None \<Rightarrow> Background | Some sc \<Rightarrow> sc_ctx sc)"

definition scope_Principal :: "('w, 'r, 'l) Scope option \<Rightarrow> Principal \<times> bool" where
  "scope_Principal scope = (case scope of None \<Rightarrow> (no_principal, False) | Some sc \<Rightarrow> sc_principal sc)"

definition scope_Metadata :: "('w, 'r, 'l) Scope option \<Rightarrow> Metadata \<times> bool" where
  "scope_Metadata scope = (case scope of None \<Rightarrow> (no_metadata, False) | Some sc \<Rightarrow> sc_metadata sc)"

definition scope_TraceID :: "('w, 'r, 'l) Scope option \<Rightarrow> string" where
  "scope_TraceID scope = (case scope of None \<Rightarrow> [] | Some sc \<Rightarrow> sc_traceID sc)"

section \<open>Factories\<close>

definition NewFactory ::
  "'w UnitOfWorkFactory option \<Rightarrow> ('w, 'r) RepositoryFactory option \<Rightarrow> ('w, 'l) LoggerFactory option \<Rightarrow> ('w, 'r, 'l) Factory result" where
  "NewFactory units repositories logger =
     (if Option.is_none units then Inl (Err ''requestscope: unit of work factory is required'' [])
      else if Option.is_none repositories then Inl (Err ''requestscope: repository factory is required'' [])
      else Inr \<lparr>fa_unitOfWork = units, fa_repositories = repositories, fa_logger = logger\<rparr>)"

text \<open>The deferred function of \<open>New\<close>, when building the repositories or the logger panicked.\<close>

definition construction_panicked :: "'w Unit \<Rightarrow> string \<Rightarrow> 'w session \<Rightarrow> (string, ('w, 'r, 'l) Scope result) outcome \<times> 'w session" where
  "construction_panicked u p s =
     (case safeUnitOfWorkCall ''rollback scope construction'' (URollback CleanupContext) (un_Rollback u CleanupContext) s of
        (_, s1) \<Rightarrow> (case safeUnitOfWorkCall ''close scope construction'' UClose (un_Close u) s1 of (_, s2) \<Rightarrow> (Panic p, s2)))"

definition factory_New ::
  "('w, 'r, 'l) Factory option \<Rightarrow> 'w rctx option \<Rightarrow> 'w session \<Rightarrow> (string, ('w, 'r, 'l) Scope result) outcome \<times> 'w session" where
  "factory_New factory ctx s =
     (case (Option.bind factory fa_unitOfWork, Option.bind factory fa_repositories) of
        (Some units, Some repositories) \<Rightarrow>
          (let ctx = nonNil ctx in
           case units ctx (ss_world s) of
             (Inl err, w) \<Rightarrow> (Return (Inl (Wrap ''requestscope: begin unit of work: %w'' [] err)), s\<lparr>ss_world := w\<rparr>)
           | (Inr None, w) \<Rightarrow> (Return (Inl (Err ''requestscope: unit of work factory returned nil'' [])), s\<lparr>ss_world := w\<rparr>)
           | (Inr (Some u), w) \<Rightarrow>
             (case repositories ctx u w of
                (Panic p, w1) \<Rightarrow> construction_panicked u p (s\<lparr>ss_world := w1\<rparr>)
              | (Return (Inl err), w1) \<Rightarrow>
                  (case safeUnitOfWorkCall ''rollback repository build'' (URollback CleanupContext) (un_Rollback u CleanupContext) (s\<lparr>ss_world := w1\<rparr>) of
                     (rerr, s1) \<Rightarrow>
                       (case safeUnitOfWorkCall ''close repository build'' UClose (un_Close u) s1 of
                          (cerr, s2) \<Rightarrow>
                            (Return (Inl (Join (Wrap ''requestscope: build repositories: %w'' [] err # some_values [err_join [rerr, cerr]]))), s2)))
              | (Return (Inr r), w1) \<Rightarrow>
                  (case (case Option.bind factory fa_logger of
                           None \<Rightarrow> (Return None, w1)
                         | Some logger \<Rightarrow> logger ctx (FromContext (Some ctx)) (MetadataFrom (Some ctx)) w1) of
                     (Panic p, w2) \<Rightarrow> construction_panicked u p (s\<lparr>ss_world := w2\<rparr>)
                   | (Return l, w2) \<Rightarrow>
                       (Return (Inr \<lparr>sc_ctx = ctx, sc_unit = Some u, sc_repositories = r, sc_logger = l,
                          sc_principal = FromContext (Some ctx), sc_metadata = MetadataFrom (Some ctx), sc_traceID = TraceIDFrom (Some ctx),
                          sc_action = finalActionNone, sc_commitErr = None, sc_rollbackErr = None, sc_closed = False, sc_closeErr = None\<rparr>),
                        s\<lparr>ss_world := w2\<rparr>))))
      | _ \<Rightarrow> (Return (Inl ErrFactoryUnavailable), s))"

section \<open>Execute\<close>

text \<open>A callback gets the scope by reference: it returns the scope as it left it.\<close>

type_synonym ('w, 'r, 'l, 't) callback =
  "('w, 'r, 'l) Scope \<Rightarrow> 'w session \<Rightarrow> (string, 't \<times> goerr option) outcome \<times> ('w, 'r, 'l) Scope \<times> 'w session"

definition release_scope :: "('w, 'r, 'l) Scope \<Rightarrow> 'w session \<Rightarrow> (goerr option \<times> goerr option) \<times> 'w session" where
  "release_scope sc s =
     (case scope_Rollback (Some sc) s of
        (rerr, sc1, s1) \<Rightarrow> (case scope_Close sc1 s1 of (cerr, sc2, s2) \<Rightarrow> ((rerr, cerr), s2)))"

definition ExecuteValue ::
  "'w rctx option \<Rightarrow> ('w, 'r, 'l) Factory option \<Rightarrow> ('w, 'r, 'l, 't) callback option \<Rightarrow> 't \<Rightarrow> 'w session
     \<Rightarrow> (string, 't \<times> goerr option) outcome \<times> 'w session" where
  "ExecuteValue ctx factory callback zero s =
     (if Option.is_none factory then (Return (zero, Some ErrFactoryUnavailable), s)
      else case callback of
        None \<Rightarrow> (Return (zero, Some (Err ''requestscope: callback is required'' [])), s)
      | Some call \<Rightarrow>
        (case factory_New factory ctx s of
           (Panic p, s1) \<Rightarrow> (Panic p, s1)
         | (Return (Inl err), s1) \<Rightarrow> (Return (zero, Some err), s1)
         | (Return (Inr sc), s1) \<Rightarrow>
           (case call sc s1 of
              (Panic p, sc1, s2) \<Rightarrow> (case release_scope sc1 s2 of (_, s3) \<Rightarrow> (Panic p, s3))
            | (Return (t, Some err), sc1, s2) \<Rightarrow>
                (case release_scope sc1 s2 of ((rerr, cerr), s3) \<Rightarrow> (Return (t, err_join [Some err, rerr, cerr]), s3))
            | (Return (t, None), sc1, s2) \<Rightarrow>
                (case scope_Commit (Some sc1) s2 of
                   (Some commitErr, sc2, s3) \<Rightarrow>
                     (case release_scope (the sc2) s3 of ((rerr, cerr), s4) \<Rightarrow> (Return (t, err_join [Some commitErr, rerr, cerr]), s4))
                 | (None, sc2, s3) \<Rightarrow>
                     (case scope_Close sc2 s3 of (cerr, sc3, s4) \<Rightarrow> (Return (t, cerr), s4))))))"

text \<open>\<open>Execute\<close> is the same with a callback that returns an error only.\<close>

definition scope_Execute ::
  "'w rctx option \<Rightarrow> ('w, 'r, 'l) Factory option \<Rightarrow> ('w, 'r, 'l, unit) callback option \<Rightarrow> 'w session \<Rightarrow> (string, goerr option) outcome \<times> 'w session" where
  "scope_Execute ctx factory callback s =
     (case ExecuteValue ctx factory callback () s of
        (Panic p, s') \<Rightarrow> (Panic p, s')
      | (Return (_, err), s') \<Rightarrow> (Return err, s'))"

section \<open>Views and composed repositories\<close>

record ('w, 'r) View =
  vw_ctx :: "'w rctx option"
  vw_repositories :: 'r

definition Join_view :: "'w rctx option \<Rightarrow> ('w, 'r) RepositoryFactory option \<Rightarrow> 'w \<Rightarrow> (string, ('w, 'r) View result) outcome \<times> 'w" where
  "Join_view ctx repositories w =
     (case repositories of
        None \<Rightarrow> (Return (Inl (Err ''requestscope: repository factory is required'' [])), w)
      | Some build \<Rightarrow>
        (case UnitOfWorkFrom ctx of
           None \<Rightarrow> (Return (Inl ErrExecutionScopeUnavailable), w)
         | Some u \<Rightarrow>
           (case build (nonNil ctx) u w of
              (Panic p, w') \<Rightarrow> (Panic p, w')
            | (Return (Inl err), w') \<Rightarrow> (Return (Inl err), w')
            | (Return (Inr r), w') \<Rightarrow> (Return (Inr \<lparr>vw_ctx = ctx, vw_repositories = r\<rparr>), w'))))"

definition JoinValue ::
  "'w rctx option \<Rightarrow> ('w, 'r) RepositoryFactory option \<Rightarrow> (('w, 'r) View \<Rightarrow> 'w \<Rightarrow> (string, 't \<times> goerr option) outcome \<times> 'w) option \<Rightarrow> 't \<Rightarrow> 'w
     \<Rightarrow> (string, 't \<times> goerr option) outcome \<times> 'w" where
  "JoinValue ctx repositories callback zero w =
     (case callback of
        None \<Rightarrow> (Return (zero, Some (Err ''requestscope: callback is required'' [])), w)
      | Some call \<Rightarrow>
        (case Join_view ctx repositories w of
           (Panic p, w') \<Rightarrow> (Panic p, w')
         | (Return (Inl err), w') \<Rightarrow> (Return (zero, Some err), w')
         | (Return (Inr view), w') \<Rightarrow> call view w'))"

definition JoinDo ::
  "'w rctx option \<Rightarrow> ('w, 'r) RepositoryFactory option \<Rightarrow> (('w, 'r) View \<Rightarrow> 'w \<Rightarrow> (string, unit \<times> goerr option) outcome \<times> 'w) option \<Rightarrow> 'w
     \<Rightarrow> (string, goerr option) outcome \<times> 'w" where
  "JoinDo ctx repositories callback w =
     (case JoinValue ctx repositories callback () w of (Panic p, w') \<Rightarrow> (Panic p, w') | (Return (_, err), w') \<Rightarrow> (Return err, w'))"

definition composed_missing :: goerr where
  "composed_missing = Err ''requestscope: composed repository factory is required'' []"

definition and_then ::
  "(string, 'a result) outcome \<times> 'w \<Rightarrow> ('a \<Rightarrow> 'w \<Rightarrow> (string, 'b result) outcome \<times> 'w) \<Rightarrow> (string, 'b result) outcome \<times> 'w" where
  "and_then m f =
     (case m of (Panic p, w) \<Rightarrow> (Panic p, w) | (Return (Inl err), w) \<Rightarrow> (Return (Inl err), w) | (Return (Inr a), w) \<Rightarrow> f a w)"

definition Compose2 ::
  "('w, 'a) RepositoryFactory option \<Rightarrow> ('w, 'b) RepositoryFactory option \<Rightarrow> ('w, 'a \<times> 'b) RepositoryFactory" where
  "Compose2 first second ctx u w =
     (case (first, second) of
        (Some f, Some g) \<Rightarrow> and_then (f ctx u w) (\<lambda>a w. and_then (g ctx u w) (\<lambda>b w. (Return (Inr (a, b)), w)))
      | _ \<Rightarrow> (Return (Inl composed_missing), w))"

definition Compose3 ::
  "('w, 'a) RepositoryFactory option \<Rightarrow> ('w, 'b) RepositoryFactory option \<Rightarrow> ('w, 'c) RepositoryFactory option
     \<Rightarrow> ('w, 'a \<times> 'b \<times> 'c) RepositoryFactory" where
  "Compose3 first second third ctx u w =
     (case (first, second, third) of
        (Some f, Some g, Some h) \<Rightarrow>
          and_then (f ctx u w) (\<lambda>a w. and_then (g ctx u w) (\<lambda>b w. and_then (h ctx u w) (\<lambda>c w. (Return (Inr (a, b, c)), w))))
      | _ \<Rightarrow> (Return (Inl composed_missing), w))"

section \<open>Units of work over a database\<close>

text \<open>The unit of work over a gorm transaction. Its state and the database \<open>'d\<close> make up the world; \<open>tx_commit\<close> and
  \<open>tx_rollback\<close> are what gorm does, which reports errors and does not panic.\<close>

datatype db_call = DBBegin | DBCommit bool | DBRollback

record gormUnit =
  gu_finished :: bool
  gu_finishErr :: "goerr option"

record 'd gworld =
  gw_unit :: gormUnit
  gw_db :: 'd
  gw_log :: "db_call list"

record 'd tx_ops =
  tx_begin :: "bool \<Rightarrow> 'd \<Rightarrow> goerr option \<times> 'd"
  tx_commit :: "'d \<Rightarrow> goerr option \<times> 'd"
  tx_rollback :: "'d \<Rightarrow> goerr option \<times> 'd"

definition gunit_Commit :: "'d tx_ops \<Rightarrow> 'd gworld unit_method" where
  "gunit_Commit ops g =
     (if gu_finished (gw_unit g) then (Return (gu_finishErr (gw_unit g)), g)
      else case tx_commit ops (gw_db g) of
        (err, db) \<Rightarrow>
          (Return err, \<lparr>gw_unit = (gw_unit g)\<lparr>gu_finishErr := err, gu_finished := (err = None)\<rparr>, gw_db = db, gw_log = gw_log g @ [DBCommit (err = None)]\<rparr>))"

definition gunit_Rollback :: "'d tx_ops \<Rightarrow> 'd gworld unit_method" where
  "gunit_Rollback ops g =
     (if gu_finished (gw_unit g) then (Return (gu_finishErr (gw_unit g)), g)
      else case tx_rollback ops (gw_db g) of
        (err, db) \<Rightarrow> (Return err, \<lparr>gw_unit = \<lparr>gu_finished = True, gu_finishErr = err\<rparr>, gw_db = db, gw_log = gw_log g @ [DBRollback]\<rparr>))"

definition gunit_Close :: "'d tx_ops \<Rightarrow> 'd gworld unit_method" where
  "gunit_Close ops g = (if gu_finished (gw_unit g) then (Return None, g) else gunit_Rollback ops g)"

definition gorm_unit :: "'d tx_ops \<Rightarrow> 'd gworld Unit" where
  "gorm_unit ops = \<lparr>un_Commit = \<lambda>_. gunit_Commit ops, un_Rollback = \<lambda>_. gunit_Rollback ops, un_Close = gunit_Close ops\<rparr>"

definition begin_unit :: "'d tx_ops \<Rightarrow> bool \<Rightarrow> 'd gworld \<Rightarrow> 'd gworld Unit option result \<times> 'd gworld" where
  "begin_unit ops readOnly g =
     (case tx_begin ops readOnly (gw_db g) of
        (Some err, db) \<Rightarrow> (Inl err, g\<lparr>gw_db := db\<rparr>)
      | (None, db) \<Rightarrow>
          (Inr (Some (gorm_unit ops)), \<lparr>gw_unit = \<lparr>gu_finished = False, gu_finishErr = None\<rparr>, gw_db = db, gw_log = gw_log g @ [DBBegin]\<rparr>))"

text \<open>A factory is its database, as the transaction operations on it, and for \<open>GORMFactory\<close> whether its options ask for a
  read-only transaction.\<close>

definition NewGORMFactory :: "'d tx_ops option \<Rightarrow> bool \<Rightarrow> ('d tx_ops \<times> bool) result" where
  "NewGORMFactory database readOnly =
     (case database of None \<Rightarrow> Inl (Err ''requestscope: GORM database is required'' []) | Some ops \<Rightarrow> Inr (ops, readOnly))"

definition gormfactory_Begin :: "('d tx_ops \<times> bool) option \<Rightarrow> 'd gworld UnitOfWorkFactory" where
  "gormfactory_Begin factory ctx g =
     (case factory of None \<Rightarrow> (Inl ErrFactoryUnavailable, g) | Some (ops, readOnly) \<Rightarrow> begin_unit ops readOnly g)"

definition executionfactory_Begin :: "'d tx_ops option \<Rightarrow> string \<Rightarrow> 'd gworld \<Rightarrow> 'd gworld Unit option result \<times> 'd gworld" where
  "executionfactory_Begin factory mode g =
     (case factory of
        None \<Rightarrow> (Inl ErrFactoryUnavailable, g)
      | Some ops \<Rightarrow>
        if mode \<noteq> TransactionReadOnly \<and> mode \<noteq> TransactionLocal
        then (Inl (Err ''requestscope: unsupported execution transaction mode %q'' [mode]), g)
        else begin_unit ops (mode = TransactionReadOnly) g)"

section \<open>Histories of a scope\<close>

text \<open>What a request can do with a scope: call its operations in any order, and work with its repositories (\<open>W\<close>).\<close>

inductive scope_reach :: "('w \<Rightarrow> 'w \<Rightarrow> bool) \<Rightarrow> ('w, 'r, 'l) Scope \<Rightarrow> 'w session \<Rightarrow> ('w, 'r, 'l) Scope \<Rightarrow> 'w session \<Rightarrow> bool"
  for W sc0 s0 where
  opened: "scope_reach W sc0 s0 sc0 s0"
| commit: "scope_reach W sc0 s0 sc s \<Longrightarrow> scope_Commit (Some sc) s = (e, Some sc', s') \<Longrightarrow> scope_reach W sc0 s0 sc' s'"
| rollback: "scope_reach W sc0 s0 sc s \<Longrightarrow> scope_Rollback (Some sc) s = (e, Some sc', s') \<Longrightarrow> scope_reach W sc0 s0 sc' s'"
| close: "scope_reach W sc0 s0 sc s \<Longrightarrow> scope_Close (Some sc) s = (e, Some sc', s') \<Longrightarrow> scope_reach W sc0 s0 sc' s'"
| work: "scope_reach W sc0 s0 sc s \<Longrightarrow> W (ss_world s) w \<Longrightarrow> scope_reach W sc0 s0 sc (s\<lparr>ss_world := w\<rparr>)"

abbreviation committed :: "unit_call list" where "committed \<equiv> [UCommit RequestContext]"
abbreviation rolled_back :: "unit_call list" where "rolled_back \<equiv> [URollback CleanupContext]"

fun final_calls :: "finalAction \<Rightarrow> unit_call list list" where
  "final_calls finalActionNone = [[]]"
| "final_calls finalActionCommit = [committed]"
| "final_calls finalActionCommitFailed = [committed]"
| "final_calls finalActionRollback = [rolled_back, committed @ rolled_back]"

definition scope_inv :: "unit_call list \<Rightarrow> ('w, 'r, 'l) Scope \<Rightarrow> unit_call list \<Rightarrow> bool" where
  "scope_inv base sc calls \<longleftrightarrow>
     (\<exists>cs \<in> set (final_calls (sc_action sc)). calls = base @ cs @ (if sc_closed sc then [UClose] else [])) \<and>
     (sc_closed sc \<longrightarrow> sc_action sc \<in> {finalActionCommit, finalActionRollback}) \<and>
     (sc_action sc = finalActionCommit \<longrightarrow> sc_commitErr sc = None) \<and> (sc_action sc = finalActionCommitFailed \<longrightarrow> sc_commitErr sc \<noteq> None)"

definition unfinished :: "('w, 'r, 'l) Scope \<Rightarrow> bool" where
  "unfinished sc \<longleftrightarrow> sc_action sc = finalActionNone \<and> \<not> sc_closed sc"

lemma safe_call_calls: "safeUnitOfWorkCall name c call s = (e, s') \<Longrightarrow> ss_calls s' = ss_calls s @ [c]"
  by (auto simp: safeUnitOfWorkCall_def split: prod.splits outcome.splits)

lemma scope_inv_unfinished: "unfinished sc \<Longrightarrow> scope_inv (ss_calls s) sc (ss_calls s)"
  by (simp add: scope_inv_def unfinished_def)

lemma scope_ops_Some:
  "\<exists>e sc' s'. scope_Commit (Some sc) s = (e, Some sc', s')" "\<exists>e sc' s'. scope_Rollback (Some sc) s = (e, Some sc', s')"
  "\<exists>e sc' s'. scope_Close (Some sc) s = (e, Some sc', s')"
  by (auto simp: scope_Commit_def scope_Rollback_def scope_Close_def Let_def split: option.splits prod.splits)

lemma err_join_first [simp]: "err_join (Some e # es) = Some (Join (e # some_values es))"
  by (simp add: err_join_def)

lemma scope_Commit_cases:
  assumes "sc_unit sc = Some u" "scope_Commit (Some sc) s = (e, Some sc', s')" "\<not> (sc_action sc = finalActionNone \<and> sc_closed sc)"
  shows "sc_action sc \<noteq> finalActionNone \<and> sc' = sc \<and> s' = s \<and>
      (sc_action sc = finalActionRollback \<longrightarrow> e \<noteq> None) \<and> (sc_action sc \<noteq> finalActionRollback \<longrightarrow> e = sc_commitErr sc) \<or>
    sc_action sc = finalActionNone \<and> sc' = sc\<lparr>sc_commitErr := e, sc_action := (if e \<noteq> None then finalActionCommitFailed else finalActionCommit)\<rparr> \<and>
      ss_calls s' = ss_calls s @ committed \<and> \<not> sc_closed sc"
proof (cases "sc_action sc = finalActionNone")
  case True
  obtain err s1 where c: "safeUnitOfWorkCall ''commit'' (UCommit RequestContext) (un_Commit u RequestContext) s = (err, s1)" by fastforce
  from assms True c have "err = e" "s1 = s'" by (auto simp: scope_Commit_def)
  with assms True c safe_call_calls [OF c] show ?thesis by (auto simp: scope_Commit_def)
next
  case False
  with assms show ?thesis by (cases "sc_action sc") (auto simp: scope_Commit_def)
qed

lemma scope_Rollback_cases:
  assumes "sc_unit sc = Some u" "scope_Rollback (Some sc) s = (e, Some sc', s')" "sc_closed sc \<longrightarrow> sc_action sc \<in> {finalActionCommit, finalActionRollback}"
  shows "sc_action sc \<in> {finalActionCommit, finalActionRollback} \<and> sc' = sc \<and> s' = s \<or>
    sc_action sc \<notin> {finalActionCommit, finalActionRollback} \<and> sc' = sc\<lparr>sc_action := finalActionRollback, sc_rollbackErr := e\<rparr> \<and>
      ss_calls s' = ss_calls s @ rolled_back \<and> \<not> sc_closed sc"
proof (cases "sc_action sc \<in> {finalActionCommit, finalActionRollback}")
  case True
  with assms show ?thesis by (auto simp: scope_Rollback_def)
next
  case False
  obtain err s1 where c: "safeUnitOfWorkCall ''rollback'' (URollback CleanupContext) (un_Rollback u CleanupContext) s = (err, s1)" by fastforce
  with assms False safe_call_calls [OF c] show ?thesis by (auto simp: scope_Rollback_def)
qed

lemma scope_Close_cases:
  assumes "sc_unit sc = Some u" "scope_Close (Some sc) s = (e, Some sc', s')"
  shows "sc_closed sc \<and> sc' = sc \<and> s' = s \<or>
    \<not> sc_closed sc \<and> sc_closed sc' \<and> sc_unit sc' = Some u \<and> sc_commitErr sc' = sc_commitErr sc \<and>
      sc_action sc' = (if sc_action sc = finalActionCommit then finalActionCommit else finalActionRollback) \<and>
      ss_calls s' = ss_calls s @ (if sc_action sc \<in> {finalActionCommit, finalActionRollback} then [] else rolled_back) @ [UClose]"
proof (cases "sc_closed sc")
  case True
  with assms show ?thesis by (simp add: scope_Close_def)
next
  case open_scope: False
  obtain r s1 where c: "safeUnitOfWorkCall ''rollback on close'' (URollback CleanupContext) (un_Rollback u CleanupContext) s = (r, s1)" by fastforce
  show ?thesis
  proof (cases "sc_action sc \<in> {finalActionCommit, finalActionRollback}")
    case True
    obtain r2 s2 where d: "safeUnitOfWorkCall ''close'' UClose (un_Close u) s = (r2, s2)" by fastforce
    with assms open_scope True safe_call_calls [OF d] show ?thesis by (auto simp: scope_Close_def Let_def)
  next
    case False
    obtain r2 s2 where d: "safeUnitOfWorkCall ''close'' UClose (un_Close u) s1 = (r2, s2)" by fastforce
    have "sc_action sc = finalActionNone \<or> sc_action sc = finalActionCommitFailed" using False by (cases "sc_action sc") auto
    with assms open_scope c d False safe_call_calls [OF c] safe_call_calls [OF d] show ?thesis by (auto simp: scope_Close_def Let_def)
  qed
qed

lemma scope_inv_closed: "scope_inv base sc calls \<Longrightarrow> sc_closed sc \<Longrightarrow> sc_action sc \<in> {finalActionCommit, finalActionRollback}"
  by (simp add: scope_inv_def)

lemma scope_Commit_inv:
  assumes "scope_inv base sc (ss_calls s)" "sc_unit sc = Some u" "scope_Commit (Some sc) s = (e, Some sc', s')"
  shows "scope_inv base sc' (ss_calls s') \<and> sc_unit sc' = Some u \<and> sc_closed sc' = sc_closed sc \<and>
    (e = None \<longleftrightarrow> sc_action sc' = finalActionCommit) \<and> (sc_action sc = finalActionNone \<longrightarrow> ss_calls s' = base @ committed) \<and>
    (sc_action sc' = finalActionCommit \<longrightarrow> sc_action sc \<in> {finalActionNone, finalActionCommit})"
  using scope_Commit_cases [OF assms(2,3)] assms(1,2)
  by (cases "sc_action sc"; cases e) (auto simp: scope_inv_def)

lemma scope_Rollback_inv:
  assumes "scope_inv base sc (ss_calls s)" "sc_unit sc = Some u" "scope_Rollback (Some sc) s = (e, Some sc', s')"
  shows "scope_inv base sc' (ss_calls s') \<and> sc_unit sc' = Some u \<and> sc_closed sc' = sc_closed sc \<and>
    sc_action sc' = (if sc_action sc = finalActionCommit then finalActionCommit else finalActionRollback) \<and>
    (sc_action sc = finalActionNone \<longrightarrow> ss_calls s' = base @ rolled_back)"
  using scope_Rollback_cases [OF assms(2,3)] assms(1,2) scope_inv_closed [OF assms(1)]
  by (cases "sc_action sc") (auto simp: scope_inv_def)

lemma scope_Close_inv:
  assumes "scope_inv base sc (ss_calls s)" "sc_unit sc = Some u" "scope_Close (Some sc) s = (e, Some sc', s')"
  shows "scope_inv base sc' (ss_calls s') \<and> sc_unit sc' = Some u \<and> sc_closed sc' \<and>
    sc_action sc' = (if sc_action sc = finalActionCommit then finalActionCommit else finalActionRollback)"
  using scope_Close_cases [OF assms(2,3)] assms(1,2)
  by (cases "sc_action sc") (auto simp: scope_inv_def)

lemma scope_reach_inv:
  assumes "scope_reach W sc0 s0 sc s" "scope_inv base sc0 (ss_calls s0)" "sc_unit sc0 = Some u"
  shows "scope_inv base sc (ss_calls s) \<and> sc_unit sc = Some u"
  using assms(1)
proof induction
  case opened
  then show ?case using assms by simp
next
  case (commit sc s e sc' s')
  then have "scope_inv base sc (ss_calls s)" "sc_unit sc = Some u" by simp_all
  from scope_Commit_inv [OF this commit.hyps(2)] show ?case by blast
next
  case (rollback sc s e sc' s')
  then have "scope_inv base sc (ss_calls s)" "sc_unit sc = Some u" by simp_all
  from scope_Rollback_inv [OF this rollback.hyps(2)] show ?case by blast
next
  case (close sc s e sc' s')
  then have "scope_inv base sc (ss_calls s)" "sc_unit sc = Some u" by simp_all
  from scope_Close_inv [OF this close.hyps(2)] show ?case by blast
next
  case (work sc s w)
  then show ?case by simp
qed

text \<open>Whatever a request does with its scope, in any order and however often, the unit of work is committed at most once and rolled
  back at most once, never committed after a rollback and never rolled back after a successful commit; it is closed at most
  once, as the last call, and only after a successful commit or a rollback; and every rollback runs with the context that is
  detached from the cancellation of the request.\<close>

theorem scope_finalised_once:
  assumes "scope_reach W sc0 s0 sc s" "unfinished sc0" "sc_unit sc0 = Some u"
  shows "\<exists>cs. ss_calls s = ss_calls s0 @ cs @ (if sc_closed sc then [UClose] else []) \<and> cs \<in> set (final_calls (sc_action sc)) \<and>
    (sc_closed sc \<longrightarrow> sc_action sc = finalActionCommit \<and> sc_commitErr sc = None \<or> sc_action sc = finalActionRollback)"
proof -
  have inv: "scope_inv (ss_calls s0) sc (ss_calls s)" using scope_reach_inv [OF assms(1) scope_inv_unfinished [OF assms(2)] assms(3)] by simp
  then obtain cs where "cs \<in> set (final_calls (sc_action sc))" "ss_calls s = ss_calls s0 @ cs @ (if sc_closed sc then [UClose] else [])"
    unfolding scope_inv_def by blast
  moreover have "sc_closed sc \<longrightarrow> sc_action sc = finalActionCommit \<and> sc_commitErr sc = None \<or> sc_action sc = finalActionRollback"
    using inv unfolding scope_inv_def by blast
  ultimately show ?thesis by blast
qed

section \<open>Requests\<close>

lemma release_calls:
  assumes "release_scope sc s = (es, s')" "scope_inv base sc (ss_calls s)" "sc_unit sc = Some u"
  shows "\<exists>cs. ss_calls s' = base @ cs @ [UClose] \<and> cs \<in> {committed, rolled_back, committed @ rolled_back} \<and>
    (sc_action sc \<noteq> finalActionCommit \<longrightarrow> cs \<noteq> committed) \<and> (sc_action sc = finalActionNone \<longrightarrow> cs = rolled_back)"
proof -
  obtain r sc1 s1 where r: "scope_Rollback (Some sc) s = (r, Some sc1, s1)" using scope_ops_Some(2) by blast
  obtain c sc2 s2 where c: "scope_Close (Some sc1) s1 = (c, Some sc2, s2)" using scope_ops_Some(3) by blast
  from assms(1) r c have s': "s' = s2" by (simp add: release_scope_def)
  note R = scope_Rollback_inv [OF assms(2,3) r]
  then have C: "scope_inv base sc2 (ss_calls s2)" "sc_closed sc2" "sc_action sc2 = (if sc_action sc1 = finalActionCommit then finalActionCommit else finalActionRollback)"
    using scope_Close_inv [OF _ _ c] by blast+
  have act: "sc_action sc2 = sc_action sc1" using R C(3) by (auto split: if_splits)
  from C(1,2) obtain cs where cs: "cs \<in> set (final_calls (sc_action sc2))" "ss_calls s2 = base @ cs @ [UClose]" unfolding scope_inv_def by auto
  have "cs = rolled_back" if none: "sc_action sc = finalActionNone"
  proof -
    from R none have a1: "sc_action sc1 = finalActionRollback" "ss_calls s1 = base @ rolled_back" by auto
    have "\<not> sc_closed sc1" using R none scope_inv_closed [OF assms(2)] by auto
    with scope_Close_cases [OF _ c] R a1 have "ss_calls s2 = base @ rolled_back @ [UClose]" by auto
    with cs(2) show ?thesis by simp
  qed
  moreover have "cs \<noteq> committed" if "sc_action sc \<noteq> finalActionCommit"
    using that R act cs(1) by auto
  moreover have "cs \<in> {committed, rolled_back, committed @ rolled_back}" using R act cs(1) by (auto split: if_splits)
  ultimately show ?thesis using cs(2) s' by blast
qed

lemma release_keeps: "release_scope sc s = (es, s') \<Longrightarrow> \<exists>cs. ss_calls s' = ss_calls s @ cs"
proof -
  assume rel: "release_scope sc s = (es, s')"
  have rb: "\<exists>cs. ss_calls s1 = ss_calls s @ cs" if "scope_Rollback (Some sc) s = (e, sc1, s1)" for e sc1 s1
    using that by (auto simp: scope_Rollback_def dest: safe_call_calls split: option.splits prod.splits if_splits)
  have cl: "\<exists>cs. ss_calls s2 = ss_calls s1 @ cs" if "scope_Close (Some sc1) s1 = (e, sc2, s2)" for e sc1 s1 sc2 s2
    using that by (auto simp: scope_Close_def Let_def dest!: safe_call_calls split: option.splits prod.splits if_splits)
  obtain r sc1 s1 where r: "scope_Rollback (Some sc) s = (r, Some sc1, s1)" using scope_ops_Some(2) by blast
  obtain c sc2 s2 where c: "scope_Close (Some sc1) s1 = (c, Some sc2, s2)" using scope_ops_Some(3) by blast
  from rel r c have "s' = s2" by (simp add: release_scope_def)
  with rb [OF r] cl [OF c] show ?thesis by auto
qed

lemma factory_New_fresh:
  assumes "factory_New factory ctx s = (Return (Inr sc), s1)"
  shows "unfinished sc \<and> sc_unit sc \<noteq> None \<and> ss_calls s1 = ss_calls s"
  using assms
  by (auto simp: factory_New_def construction_panicked_def Let_def unfinished_def split: option.splits prod.splits sum.splits outcome.splits)

definition well_behaved :: "('w, 'r, 'l, 't) callback \<Rightarrow> bool" where
  "well_behaved call \<longleftrightarrow> (\<forall>sc s out sc' s'. call sc s = (out, sc', s') \<longrightarrow> scope_reach (\<lambda>_ _. True) sc s sc' s')"

text \<open>Property C26: a request owns its unit of work from the start to the end. Once \<open>Execute\<close> has opened a scope, however the callback uses the
  scope and whether it returns, fails or panics, the unit of work is finalised and then closed exactly once, at the end. It
  reports success only when the callback did and the commit went through without a rollback; when the callback left the scope
  alone, an error or a panic of it leads to exactly a rollback, and a success to a commit; the panic is passed on.\<close>

theorem Execute_releases:
  assumes run: "ExecuteValue ctx factory (Some call) zero s = (res, s')" and opened: "factory_New factory ctx s = (Return (Inr sc), s1)"
    and called: "call sc s1 = (out, sc2, s2)" and uses: "well_behaved call"
  shows "\<exists>cs. ss_calls s' = ss_calls s @ cs @ [UClose] \<and> cs \<in> {committed, rolled_back, committed @ rolled_back} \<and>
    (\<forall>t. res = Return (t, None) \<longrightarrow> out = Return (t, None) \<and> cs = committed) \<and>
    (\<forall>p. out = Panic p \<longrightarrow> res = Panic p) \<and> (\<forall>t e. out = Return (t, Some e) \<longrightarrow> (\<exists>e'. res = Return (t, Some e') \<and> err_is e' e)) \<and>
    (unfinished sc2 \<longrightarrow> (if \<exists>t. out = Return (t, None) then hd cs = UCommit RequestContext else cs = rolled_back))"
proof -
  from factory_New_fresh [OF opened] obtain u where u: "unfinished sc" "sc_unit sc = Some u" "ss_calls s1 = ss_calls s" by auto
  have fac: "\<not> Option.is_none factory" using opened by (cases factory) (auto simp: factory_New_def ErrFactoryUnavailable_def)
  have "scope_reach (\<lambda>_ _. True) sc s1 sc2 s2" using uses called unfolding well_behaved_def by blast
  from scope_reach_inv [OF this scope_inv_unfinished [OF u(1)] u(2)] u(3)
  have inv: "scope_inv (ss_calls s) sc2 (ss_calls s2)" "sc_unit sc2 = Some u" by auto
  show ?thesis
  proof (cases out)
    case (Panic p)
    obtain es s3 where r: "release_scope sc2 s2 = (es, s3)" by fastforce
    with run opened called Panic fac have "res = Panic p" "s' = s3" by (auto simp: ExecuteValue_def)
    with release_calls [OF r inv] Panic show ?thesis by (auto simp: unfinished_def)
  next
    case (Return ret)
    obtain t err where ret: "ret = (t, err)" by fastforce
    show ?thesis
    proof (cases err)
      case (Some e)
      obtain re ce s3 where r: "release_scope sc2 s2 = ((re, ce), s3)" by (metis prod.collapse)
      with run opened called Return ret Some fac have "res = Return (t, err_join [Some e, re, ce])" "s' = s3" by (auto simp: ExecuteValue_def)
      with release_calls [OF r inv] Return ret Some show ?thesis by (auto simp: unfinished_def)
    next
      case None
      obtain ce sc3 s3 where c: "scope_Commit (Some sc2) s2 = (ce, Some sc3, s3)" using scope_ops_Some(1) by blast
      note C = scope_Commit_inv [OF inv c]
      show ?thesis
      proof (cases ce)
        case (Some commitErr)
        obtain re cle s4 where r: "release_scope sc3 s3 = ((re, cle), s4)" by (metis prod.collapse)
        with run opened called Return ret None c Some fac have res: "res = Return (t, err_join [Some commitErr, re, cle])" "s' = s4"
          by (auto simp: ExecuteValue_def)
        from C have i3: "scope_inv (ss_calls s) sc3 (ss_calls s3)" "sc_unit sc3 = Some u" by auto
        from release_calls [OF r i3] obtain cs where
          cs: "ss_calls s4 = ss_calls s @ cs @ [UClose]" "cs \<in> {committed, rolled_back, committed @ rolled_back}" by blast
        have "cs \<noteq> rolled_back" if "unfinished sc2"
          using that release_keeps [OF r] C cs(1) by (auto simp: unfinished_def)
        with cs res Return ret None show ?thesis by (intro exI [of _ cs]) auto
      next
        case None': None
        obtain cle sc4 s4 where d: "scope_Close (Some sc3) s3 = (cle, Some sc4, s4)" using scope_ops_Some(3) by blast
        with run opened called Return ret None c None' fac have res: "res = Return (t, cle)" "s' = s4" by (auto simp: ExecuteValue_def)
        from C None' have a3: "sc_action sc3 = finalActionCommit" by simp
        from C have "scope_inv (ss_calls s) sc3 (ss_calls s3)" "sc_unit sc3 = Some u" by auto
        from scope_Close_inv [OF this d] a3 have "ss_calls s4 = ss_calls s @ committed @ [UClose]" by (auto simp: scope_inv_def)
        with res Return ret None show ?thesis by (intro exI [of _ committed]) auto
      qed
    qed
  qed
qed

text \<open>A scope that cannot be built gives its unit of work back.\<close>

lemma construction_gives_back:
  assumes "factory_New factory ctx s = (out, s')" "\<And>sc. out \<noteq> Return (Inr sc)"
  shows "ss_calls s' = ss_calls s @ rolled_back @ [UClose] \<or>
    ss_calls s' = ss_calls s \<and> (\<forall>f units. factory = Some f \<longrightarrow> fa_unitOfWork f = Some units \<longrightarrow> fa_repositories f \<noteq> None \<longrightarrow>
      (\<forall>u. fst (units (nonNil ctx) (ss_world s)) \<noteq> Inr (Some u)))"
proof -
  have give: "ss_calls s2 = ss_calls s @ rolled_back @ [UClose]"
    if "safeUnitOfWorkCall n (URollback CleanupContext) h (s\<lparr>ss_world := w\<rparr>) = (e, s1)" "safeUnitOfWorkCall n' UClose h' s1 = (e', s2)" for n n' h h' w e e' s1 s2
    using safe_call_calls [OF that(1)] safe_call_calls [OF that(2)] by simp
  show ?thesis
    using assms
    by (auto simp: factory_New_def construction_panicked_def Let_def split: option.splits prod.splits sum.splits outcome.splits dest: give)
qed

section \<open>The transaction behind a scope\<close>

text \<open>What the calls on a gorm unit of work mean for its transaction.\<close>

definition gorm_inv :: "db_call list \<Rightarrow> finalAction \<Rightarrow> bool \<Rightarrow> 'd gworld \<Rightarrow> bool" where
  "gorm_inv base action closed g \<longleftrightarrow>
     (case action of
        finalActionNone \<Rightarrow> gw_log g = base \<and> \<not> gu_finished (gw_unit g) \<and> \<not> closed
      | finalActionCommit \<Rightarrow> gw_log g = base @ [DBCommit True] \<and> gu_finished (gw_unit g)
      | finalActionCommitFailed \<Rightarrow> gw_log g = base @ [DBCommit False] \<and> \<not> gu_finished (gw_unit g) \<and> \<not> closed
      | finalActionRollback \<Rightarrow> gw_log g \<in> {base @ [DBRollback], base @ [DBCommit False, DBRollback]} \<and> gu_finished (gw_unit g))"

definition leaves_unit :: "'d gworld \<Rightarrow> 'd gworld \<Rightarrow> bool" where
  "leaves_unit g g' \<longleftrightarrow> gw_unit g' = gw_unit g \<and> gw_log g' = gw_log g"

abbreviation gorm_scope_inv :: "'d tx_ops \<Rightarrow> db_call list \<Rightarrow> ('d gworld, 'r, 'l) Scope \<Rightarrow> 'd gworld session \<Rightarrow> bool" where
  "gorm_scope_inv ops base sc s \<equiv> gorm_inv base (sc_action sc) (sc_closed sc) (ss_world s) \<and> sc_unit sc = Some (gorm_unit ops)"

lemma gorm_commit_step:
  assumes "gorm_scope_inv ops base sc s" "scope_Commit (Some sc) s = (e, Some sc', s')"
  shows "gorm_scope_inv ops base sc' s'"
  using assms
  by (cases "sc_action sc")
    (auto simp: scope_Commit_def gorm_inv_def safeUnitOfWorkCall_def gorm_unit_def gunit_Commit_def split: prod.splits if_splits)

lemma gorm_rollback_step:
  assumes "gorm_scope_inv ops base sc s" "scope_Rollback (Some sc) s = (e, Some sc', s')"
  shows "gorm_scope_inv ops base sc' s'"
  using assms
  by (cases "sc_action sc")
    (auto simp: scope_Rollback_def gorm_inv_def safeUnitOfWorkCall_def gorm_unit_def gunit_Rollback_def split: prod.splits if_splits)

lemma gorm_close_step:
  assumes "gorm_scope_inv ops base sc s" "scope_Close (Some sc) s = (e, Some sc', s')"
  shows "gorm_scope_inv ops base sc' s'"
  using assms
  by (cases "sc_action sc")
    (auto simp: scope_Close_def Let_def gorm_inv_def safeUnitOfWorkCall_def gorm_unit_def gunit_Rollback_def gunit_Close_def split: prod.splits if_splits)

text \<open>Behind a scope over the database stands exactly one transaction, and it ends exactly once. Whatever the request does with the
  scope and its repositories, as long as it does not end the transaction behind the back of the unit of work, a closed scope has
  either committed its transaction, as the only call that ended it, or rolled it back, at most after a commit that the
  database refused; and the state of the scope tells which.\<close>

theorem gorm_scope_transaction:
  assumes "scope_reach leaves_unit sc0 s0 sc s" and "unfinished sc0" "sc_unit sc0 = Some (gorm_unit ops)"
    and "\<not> gu_finished (gw_unit (ss_world s0))" and "sc_closed sc"
  shows "(sc_action sc = finalActionCommit \<and> gw_log (ss_world s) = gw_log (ss_world s0) @ [DBCommit True] \<or>
     sc_action sc = finalActionRollback \<and> gw_log (ss_world s) \<in> {gw_log (ss_world s0) @ [DBRollback], gw_log (ss_world s0) @ [DBCommit False, DBRollback]}) \<and>
    gu_finished (gw_unit (ss_world s))"
proof -
  have "gorm_scope_inv ops (gw_log (ss_world s0)) sc s"
    using assms(1)
  proof induction
    case opened
    then show ?case using assms(2-4) by (simp add: gorm_inv_def unfinished_def)
  next
    case (commit sc s e sc' s')
    show ?case by (rule gorm_commit_step [OF commit.IH commit.hyps(2)])
  next
    case (rollback sc s e sc' s')
    show ?case by (rule gorm_rollback_step [OF rollback.IH rollback.hyps(2)])
  next
    case (close sc s e sc' s')
    show ?case by (rule gorm_close_step [OF close.IH close.hyps(2)])
  next
    case (work sc s w)
    then show ?case by (auto simp: gorm_inv_def leaves_unit_def split: finalAction.splits)
  qed
  with assms(5) show ?thesis by (cases "sc_action sc") (auto simp: gorm_inv_def)
qed

section \<open>Witnesses\<close>

text \<open>A database that refuses the commit, a factory over it and a callback that closes the scope itself after a commit of its own.\<close>

definition ex_tx :: "nat tx_ops" where
  "ex_tx = \<lparr>tx_begin = \<lambda>_ d. (None, d), tx_commit = \<lambda>d. (Some (Err ''x'' []), d + 1), tx_rollback = \<lambda>d. (None, d + 1)\<rparr>"

definition ex_factory :: "(nat gworld, unit, unit) Factory" where
  "ex_factory = \<lparr>fa_unitOfWork = Some (gormfactory_Begin (Some (ex_tx, False))), fa_repositories = Some (\<lambda>ctx u w. (Return (Inr ()), w)), fa_logger = None\<rparr>"

definition ex_session :: "nat gworld session" where
  "ex_session = \<lparr>ss_world = \<lparr>gw_unit = \<lparr>gu_finished = False, gu_finishErr = None\<rparr>, gw_db = 0, gw_log = []\<rparr>, ss_calls = []\<rparr>"

definition ex_scope :: "(nat gworld, unit, unit) Scope" where
  "ex_scope = \<lparr>sc_ctx = Background, sc_unit = Some (gorm_unit ex_tx), sc_repositories = (), sc_logger = None, sc_principal = (no_principal, False),
     sc_metadata = (no_metadata, False), sc_traceID = [], sc_action = finalActionNone, sc_commitErr = None, sc_rollbackErr = None,
     sc_closed = False, sc_closeErr = None\<rparr>"

definition ex_opened :: "nat gworld session" where
  "ex_opened = \<lparr>ss_world = \<lparr>gw_unit = \<lparr>gu_finished = False, gu_finishErr = None\<rparr>, gw_db = 0, gw_log = [DBBegin]\<rparr>, ss_calls = []\<rparr>"

definition ex_call :: "(nat gworld, unit, unit, nat) callback" where
  "ex_call sc s = (case scope_Commit (Some sc) s of (e, sc', s') \<Rightarrow> (Return (7, e), the sc', s'))"

lemma ex_opens: "factory_New (Some ex_factory) None ex_session = (Return (Inr ex_scope), ex_opened)"
  by (simp add: factory_New_def ex_factory_def gormfactory_Begin_def begin_unit_def ex_tx_def ex_session_def ex_scope_def ex_opened_def
      FromContext_def MetadataFrom_def TraceIDFrom_def Background_def nonNil_def)

lemma ex_call_behaved: "well_behaved ex_call"
  unfolding well_behaved_def
proof (intro allI impI)
  fix sc :: "(nat gworld, unit, unit) Scope" and s :: "nat gworld session" and out sc' s'
  assume "ex_call sc s = (out, sc', s')"
  moreover obtain e sc1 s1 where c: "scope_Commit (Some sc) s = (e, Some sc1, s1)" using scope_ops_Some(1) by blast
  ultimately show "scope_reach (\<lambda>_ _. True) sc s sc' s'" using scope_reach.commit [OF scope_reach.opened c] by (simp add: ex_call_def)
qed

lemma ex_scope_fresh: "unfinished ex_scope" "sc_unit ex_scope = Some (gorm_unit ex_tx)" "\<not> gu_finished (gw_unit (ss_world ex_opened))"
  by (simp_all add: unfinished_def ex_scope_def ex_opened_def)

lemma ex_history:
  obtains sc1 s1 sc2 s2 e e' where "scope_Commit (Some ex_scope) ex_opened = (e, Some sc1, s1)" "scope_Close (Some sc1) s1 = (e', Some sc2, s2)"
    "sc_closed sc2" "sc_action sc2 = finalActionRollback"
proof -
  obtain e sc1 s1 where c: "scope_Commit (Some ex_scope) ex_opened = (e, Some sc1, s1)" using scope_ops_Some(1) by blast
  obtain e' sc2 s2 where d: "scope_Close (Some sc1) s1 = (e', Some sc2, s2)" using scope_ops_Some(3) by blast
  have "case scope_Commit (Some ex_scope) ex_opened of (e, sc1, s1) \<Rightarrow>
      (case scope_Close sc1 s1 of (e', sc2, s2) \<Rightarrow> sc_closed (the sc2) \<and> sc_action (the sc2) = finalActionRollback)"
    by (simp add: scope_Commit_def scope_Close_def Let_def ex_scope_def ex_opened_def safeUnitOfWorkCall_def gorm_unit_def gunit_Commit_def
        gunit_Rollback_def gunit_Close_def ex_tx_def)
  with c d that show thesis by auto
qed

theorem scope_finalised_once_witness:
  "\<exists>sc s cs. scope_reach leaves_unit ex_scope ex_opened sc s \<and> sc_closed sc \<and> ss_calls s = cs @ [UClose] \<and> cs \<in> {rolled_back, committed @ rolled_back}"
proof -
  obtain sc1 s1 sc2 s2 e e' where h: "scope_Commit (Some ex_scope) ex_opened = (e, Some sc1, s1)" "scope_Close (Some sc1) s1 = (e', Some sc2, s2)"
    "sc_closed sc2" "sc_action sc2 = finalActionRollback" by (rule ex_history)
  have "scope_reach leaves_unit ex_scope ex_opened sc2 s2" using scope_reach.close [OF scope_reach.commit [OF scope_reach.opened h(1)] h(2)] .
  moreover from scope_finalised_once [OF this ex_scope_fresh(1,2)] h(3,4) have "\<exists>cs. ss_calls s2 = cs @ [UClose] \<and> cs \<in> {rolled_back, committed @ rolled_back}"
    by (auto simp: ex_opened_def)
  ultimately show ?thesis using h(3) by blast
qed

theorem gorm_scope_transaction_witness:
  "\<exists>sc s. scope_reach leaves_unit ex_scope ex_opened sc s \<and> sc_closed sc \<and> gw_log (ss_world s) \<in> {[DBBegin, DBRollback], [DBBegin, DBCommit False, DBRollback]}"
proof -
  obtain sc1 s1 sc2 s2 e e' where h: "scope_Commit (Some ex_scope) ex_opened = (e, Some sc1, s1)" "scope_Close (Some sc1) s1 = (e', Some sc2, s2)"
    "sc_closed sc2" "sc_action sc2 = finalActionRollback" by (rule ex_history)
  have "scope_reach leaves_unit ex_scope ex_opened sc2 s2" using scope_reach.close [OF scope_reach.commit [OF scope_reach.opened h(1)] h(2)] .
  moreover from gorm_scope_transaction [OF this ex_scope_fresh h(3)] h(4) have "gw_log (ss_world s2) \<in> {[DBBegin, DBRollback], [DBBegin, DBCommit False, DBRollback]}"
    by (auto simp: ex_opened_def)
  ultimately show ?thesis using h(3) by blast
qed

theorem Execute_releases_witness:
  "\<exists>cs. ss_calls (snd (ExecuteValue None (Some ex_factory) (Some ex_call) 0 ex_session)) = cs @ [UClose] \<and> cs \<in> {committed, rolled_back, committed @ rolled_back}"
proof -
  obtain res s' where run: "ExecuteValue None (Some ex_factory) (Some ex_call) 0 ex_session = (res, s')" by fastforce
  obtain out sc2 s2 where called: "ex_call ex_scope ex_opened = (out, sc2, s2)" by (metis prod_cases3)
  from Execute_releases [OF run ex_opens called ex_call_behaved] run show ?thesis by (auto simp: ex_session_def)
qed

end
