(* ===== verification/Envelope.thy ===== *)
theory Envelope
  imports Prelude
begin

text \<open>
  Event envelopes (\<open>framework/event/envelope.go\<close>) and event causality (\<open>framework/event/causality.go\<close>).
  The random bytes of a fresh id (or the error of reading them) and the current time are arguments of
  \<open>Normalize\<close>; a propagator is a function on envelopes. The causality value a context carries is passed
  explicitly. A nil metadata map is the empty association list.
\<close>

section \<open>Data\<close>

record Envelope =
  SchemaVersionE :: int
  env_ID :: string
  Topic :: string
  env_Type :: string
  Source :: string
  env_Subject :: string
  CorrelationID :: string
  CausationID :: string
  OccurredAt :: int
  ContentType :: string
  DeliveryAttempt :: int
  Payload :: string
  env_Metadata :: "(string \<times> string) list"

definition ErrInvalidEnvelope :: goerr where "ErrInvalidEnvelope = Err ''event: invalid envelope'' []"

definition EnvelopeSchemaVersion :: int where "EnvelopeSchemaVersion = 1"
definition MaxIDLength :: nat where "MaxIDLength = 128"
definition MaxTopicLength :: nat where "MaxTopicLength = 255"
definition MaxTypeLength :: nat where "MaxTypeLength = 255"
definition MaxSourceLength :: nat where "MaxSourceLength = 255"
definition MaxSubjectLength :: nat where "MaxSubjectLength = 512"
definition MaxMetadataEntries :: nat where "MaxMetadataEntries = 64"
definition MaxMetadataKeyLength :: nat where "MaxMetadataKeyLength = 128"
definition MaxMetadataValueLength :: nat where "MaxMetadataValueLength = 4096"

section \<open>Normalisation\<close>

definition newID :: "string result \<Rightarrow> string result" where
  "newID raw = (case raw of Inl e \<Rightarrow> Inl e | Inr bs \<Rightarrow> Inr (hex_encode bs))"

definition trim_envelope :: "Envelope \<Rightarrow> Envelope" where
  "trim_envelope e =
     e\<lparr>Topic := trim_space (Topic e), env_Type := trim_space (env_Type e), Source := trim_space (Source e),
       env_Subject := trim_space (env_Subject e), env_ID := trim_space (env_ID e)\<rparr>"

definition bad_metadata :: "string \<times> string \<Rightarrow> bool" where
  "bad_metadata kv = (trim_space (fst kv) = [] \<or> MaxMetadataKeyLength < length (fst kv) \<or> MaxMetadataValueLength < length (snd kv))"

text \<open>The bounds that \<open>Normalize\<close> checks on a trimmed envelope.\<close>

definition bad_envelope :: "Envelope \<Rightarrow> bool" where
  "bad_envelope e =
     (Topic e = [] \<or> env_Type e = [] \<or> MaxTopicLength < length (Topic e) \<or> MaxTypeLength < length (env_Type e) \<or>
      MaxSourceLength < length (Source e) \<or> MaxSubjectLength < length (env_Subject e) \<or> MaxIDLength < length (env_ID e) \<or>
      MaxMetadataEntries < length (env_Metadata e) \<or> list_ex bad_metadata (env_Metadata e) \<or> SchemaVersionE e < 0)"

text \<open>The defaults, once the id is known.\<close>

definition fill_envelope :: "int \<Rightarrow> string \<Rightarrow> Envelope \<Rightarrow> Envelope" where
  "fill_envelope now ident e =
     e\<lparr>SchemaVersionE := (if SchemaVersionE e = 0 then EnvelopeSchemaVersion else SchemaVersionE e),
       env_ID := ident,
       OccurredAt := (if OccurredAt e = 0 then now else OccurredAt e),
       ContentType := (if trim_space (ContentType e) = [] then ''application/json'' else ContentType e),
       CorrelationID := (if CorrelationID e = [] then ident else CorrelationID e),
       DeliveryAttempt := (if DeliveryAttempt e < 0 then 0 else DeliveryAttempt e)\<rparr>"

definition EnvelopeNormalize :: "string result \<Rightarrow> int \<Rightarrow> Envelope \<Rightarrow> Envelope result" where
  "EnvelopeNormalize raw now envelope =
     (let e = trim_envelope envelope in
      if bad_envelope e then Inl ErrInvalidEnvelope
      else if env_ID e = [] then
        (case newID raw of Inl err \<Rightarrow> Inl err | Inr ident \<Rightarrow> Inr (fill_envelope now ident e))
      else Inr (fill_envelope now (env_ID e) e))"

text \<open>\<open>NewJSON\<close>: the encoding of the value (or the error of \<open>json.Marshal\<close>) is an argument.\<close>

definition NewJSON :: "string \<Rightarrow> string \<Rightarrow> string \<Rightarrow> string result \<Rightarrow> string result \<Rightarrow> int \<Rightarrow> Envelope result" where
  "NewJSON topic eventType source marshalled raw now =
     (case marshalled of
        Inl err \<Rightarrow> Inl err
      | Inr payload \<Rightarrow> EnvelopeNormalize raw now
          \<lparr>SchemaVersionE = 0, env_ID = [], Topic = topic, env_Type = eventType, Source = source, env_Subject = [],
           CorrelationID = [], CausationID = [], OccurredAt = 0, ContentType = [], DeliveryAttempt = 0, Payload = payload,
           env_Metadata = []\<rparr>)"

section \<open>Metadata carrier\<close>

definition env_Get :: "Envelope option \<Rightarrow> string \<Rightarrow> string" where
  "env_Get e key =
     (case e of None \<Rightarrow> [] | Some e \<Rightarrow> (case map_of (env_Metadata e) key of None \<Rightarrow> [] | Some v \<Rightarrow> v))"

definition env_Set :: "Envelope option \<Rightarrow> string \<Rightarrow> string \<Rightarrow> Envelope option" where
  "env_Set e key value =
     (case e of
        None \<Rightarrow> None
      | Some e \<Rightarrow> if trim_space key = [] then Some e
                 else Some (e\<lparr>env_Metadata := AList.update key value (env_Metadata e)\<rparr>))"

definition env_Keys :: "Envelope option \<Rightarrow> string list" where
  "env_Keys e = (case e of None \<Rightarrow> [] | Some e \<Rightarrow> sort (map fst (env_Metadata e)))"

section \<open>Causality\<close>

record Causality =
  ca_EventID :: string
  ca_CorrelationID :: string

definition WithEnvelopeContext :: "Causality option \<Rightarrow> Envelope \<Rightarrow> Causality option" where
  "WithEnvelopeContext ctx e =
     (let eventID = trim_space (env_ID e); correlation = trim_space (CorrelationID e);
          correlation = (if correlation = [] then eventID else correlation)
      in if eventID = [] \<and> correlation = [] then ctx
         else Some \<lparr>ca_EventID = eventID, ca_CorrelationID = correlation\<rparr>)"

definition CausalityFromContext :: "Causality option \<Rightarrow> Causality option" where
  "CausalityFromContext ctx =
     (case ctx of
        None \<Rightarrow> None
      | Some c \<Rightarrow> if trim_space (ca_EventID c) = [] \<and> trim_space (ca_CorrelationID c) = [] then None else Some c)"

definition inheritEventCausality :: "Causality option \<Rightarrow> Envelope \<Rightarrow> Envelope" where
  "inheritEventCausality ctx e =
     (case CausalityFromContext ctx of
        None \<Rightarrow> e
      | Some parent \<Rightarrow>
        (let parentCorrelation = (if trim_space (ca_CorrelationID parent) = [] then trim_space (ca_EventID parent)
                                  else trim_space (ca_CorrelationID parent));
             currentCorrelation = trim_space (CorrelationID e);
             currentID = trim_space (env_ID e);
             currentCausation = trim_space (CausationID e);
             defaultSelf = (currentCorrelation = [] \<or>
               (currentID \<noteq> [] \<and> currentCorrelation = currentID \<and> currentCausation = []))
         in e\<lparr>CorrelationID := (if defaultSelf \<and> parentCorrelation \<noteq> [] then parentCorrelation else CorrelationID e),
              CausationID := (if currentCausation = [] \<and> trim_space (ca_EventID parent) \<noteq> [] then trim_space (ca_EventID parent)
                              else CausationID e)\<rparr>))"

definition PrepareForPublish ::
  "string result \<Rightarrow> int \<Rightarrow> Causality option \<Rightarrow> (Envelope \<Rightarrow> Envelope) option \<Rightarrow> Envelope \<Rightarrow> Envelope result" where
  "PrepareForPublish raw now ctx propagator envelope =
     (case EnvelopeNormalize raw now (inheritEventCausality ctx envelope) of
        Inl e \<Rightarrow> Inl e
      | Inr normalized \<Rightarrow>
        (case propagator of
           None \<Rightarrow> Inr normalized
         | Some inject \<Rightarrow> EnvelopeNormalize raw now (inject normalized)))"

section \<open>Properties\<close>

text \<open>A usable source of ids and clock: sixteen random bytes, a non-zero time.\<close>

definition good_source :: "string result \<Rightarrow> int \<Rightarrow> bool" where
  "good_source raw now \<longleftrightarrow> (\<exists>bs. raw = Inr bs \<and> length bs = 16) \<and> now \<noteq> 0"

definition valid_envelope :: "Envelope \<Rightarrow> bool" where
  "valid_envelope e \<longleftrightarrow> trim_envelope e = e \<and> \<not> bad_envelope e \<and> 1 \<le> SchemaVersionE e \<and> env_ID e \<noteq> [] \<and> OccurredAt e \<noteq> 0 \<and>
     trim_space (ContentType e) \<noteq> [] \<and> CorrelationID e \<noteq> [] \<and> 0 \<le> DeliveryAttempt e"

lemma trim_envelope_idem [simp]: "trim_envelope (trim_envelope e) = trim_envelope e"
  by (simp add: trim_envelope_def)

lemma application_json_trim: "trim_space ''application/json'' = ''application/json''"
  by (rule trim_space_plain) (simp_all add: plain_char_def less_eq_char_def)

lemma fill_envelope_valid:
  assumes "\<not> bad_envelope (trim_envelope e)" "ident \<noteq> []" "trim_space ident = ident" "length ident \<le> MaxIDLength" "now \<noteq> 0"
  shows "valid_envelope (fill_envelope now ident (trim_envelope e))"
  using assms
  by (auto simp: valid_envelope_def fill_envelope_def trim_envelope_def bad_envelope_def EnvelopeSchemaVersion_def
      application_json_trim)

lemma fill_envelope_fixed: "valid_envelope e \<Longrightarrow> fill_envelope now (env_ID e) e = e"
  by (simp add: valid_envelope_def fill_envelope_def)

lemma EnvelopeNormalize_cases:
  assumes "EnvelopeNormalize raw now e = Inr n"
  obtains ident where "\<not> bad_envelope (trim_envelope e)" "n = fill_envelope now ident (trim_envelope e)"
    "if trim_space (env_ID e) = [] then newID raw = Inr ident else ident = trim_space (env_ID e)"
  using assms
  by (auto simp: EnvelopeNormalize_def Let_def trim_envelope_def split: if_splits sum.splits)

lemma EnvelopeNormalize_valid:
  assumes "EnvelopeNormalize raw now e = Inr n" "good_source raw now"
  shows "valid_envelope n"
proof -
  from assms(1) obtain ident where ok: "\<not> bad_envelope (trim_envelope e)" "n = fill_envelope now ident (trim_envelope e)"
    and ident: "if trim_space (env_ID e) = [] then newID raw = Inr ident else ident = trim_space (env_ID e)"
    by (rule EnvelopeNormalize_cases)
  from assms(2) obtain bs where bs: "raw = Inr bs" "length bs = 16" and now: "now \<noteq> 0" by (auto simp: good_source_def)
  then have "hex_encode bs \<noteq> []" by (intro hex_encode_nonempty) auto
  with ident ok(1) bs have "ident \<noteq> [] \<and> trim_space ident = ident \<and> length ident \<le> MaxIDLength"
    by (auto simp: newID_def length_hex_encode MaxIDLength_def bad_envelope_def trim_envelope_def split: if_splits)
  with fill_envelope_valid [OF ok(1)] ok(2) now show ?thesis by blast
qed

lemma EnvelopeNormalize_fixed: "valid_envelope e \<Longrightarrow> EnvelopeNormalize raw now e = Inr e"
proof -
  assume v: "valid_envelope e"
  then have "trim_envelope e = e" "\<not> bad_envelope e" "env_ID e \<noteq> []" by (simp_all add: valid_envelope_def)
  with fill_envelope_fixed [OF v] show ?thesis by (simp add: EnvelopeNormalize_def)
qed

text \<open>
  A normalised envelope is valid (trimmed, within every bound, with an id, a time, a content
  type and a correlation id), normalising it again with any clock and any random bytes changes nothing, and
  an id or a time that was there is kept. Retries therefore publish under the same id and time.
\<close>

theorem EnvelopeNormalize_stable:
  assumes "EnvelopeNormalize raw now e = Inr n" "good_source raw now"
  shows "valid_envelope n \<and> EnvelopeNormalize raw' now' n = Inr n \<and>
    (trim_space (env_ID e) \<noteq> [] \<longrightarrow> env_ID n = trim_space (env_ID e)) \<and> (OccurredAt e \<noteq> 0 \<longrightarrow> OccurredAt n = OccurredAt e) \<and>
    Payload n = Payload e \<and> env_Metadata n = env_Metadata e"
proof -
  note v = EnvelopeNormalize_valid [OF assms]
  from assms(1) obtain ident where "n = fill_envelope now ident (trim_envelope e)"
    "if trim_space (env_ID e) = [] then newID raw = Inr ident else ident = trim_space (env_ID e)"
    by (rule EnvelopeNormalize_cases)
  then show ?thesis using v EnvelopeNormalize_fixed [OF v] by (auto simp: fill_envelope_def trim_envelope_def)
qed

text \<open>
  A chain of events: each is published, with no causality of its own, by a consumer of the one before. \<open>src\<close>
  supplies the random bytes and the time of each publication.
\<close>

fun publish_chain :: "(string result \<times> int \<times> Envelope) list \<Rightarrow> Envelope \<Rightarrow> Envelope list result" where
  "publish_chain [] parent = Inr []"
| "publish_chain ((raw, now, e) # es) parent =
     (case PrepareForPublish raw now (WithEnvelopeContext None parent) None e of
        Inl err \<Rightarrow> Inl err
      | Inr child \<Rightarrow> (case publish_chain es child of Inl err \<Rightarrow> Inl err | Inr rest \<Rightarrow> Inr (child # rest)))"

lemma PrepareForPublish_child:
  assumes run: "PrepareForPublish raw now (WithEnvelopeContext None parent) None e = Inr child"
    and parent: "valid_envelope parent" "trim_space (CorrelationID parent) = CorrelationID parent"
    and e: "trim_space (CorrelationID e) = []" "trim_space (CausationID e) = []"
  shows "CorrelationID child = CorrelationID parent \<and> CausationID child = env_ID parent"
proof -
  have p: "trim_space (env_ID parent) = env_ID parent" "env_ID parent \<noteq> []" "CorrelationID parent \<noteq> []"
    using parent(1) by (auto simp: valid_envelope_def trim_envelope_def dest: arg_cong [where f = env_ID])
  have ctx: "WithEnvelopeContext None parent = Some \<lparr>ca_EventID = env_ID parent, ca_CorrelationID = CorrelationID parent\<rparr>"
    using p parent(2) by (simp add: WithEnvelopeContext_def)
  have inh: "inheritEventCausality (WithEnvelopeContext None parent) e =
      e\<lparr>CorrelationID := CorrelationID parent, CausationID := env_ID parent\<rparr>"
    unfolding ctx using p parent(2) e by (simp add: inheritEventCausality_def CausalityFromContext_def)
  from run have "EnvelopeNormalize raw now (e\<lparr>CorrelationID := CorrelationID parent, CausationID := env_ID parent\<rparr>) = Inr child"
    unfolding PrepareForPublish_def inh by (auto split: sum.splits)
  then show ?thesis
    by (rule EnvelopeNormalize_cases) (use p in \<open>simp add: fill_envelope_def trim_envelope_def\<close>)
qed

lemma PrepareForPublish_valid:
  assumes "PrepareForPublish raw now ctx None e = Inr n" "good_source raw now"
  shows "valid_envelope n"
  using assms EnvelopeNormalize_valid by (auto simp: PrepareForPublish_def split: sum.splits)

text \<open>
  Along a chain of events, each published from the consumer of the one before without explicit
  causality, every event carries the correlation id of the first one, and the causation id of each event is
  the id of the event before it.
\<close>

theorem publish_chain_correlated:
  assumes "publish_chain es root = Inr cs" and "valid_envelope root" and "trim_space (CorrelationID root) = CorrelationID root"
    and "list_all (\<lambda>(raw, now, e). good_source raw now \<and> trim_space (CorrelationID e) = [] \<and> trim_space (CausationID e) = []) es"
  shows "list_all (\<lambda>c. CorrelationID c = CorrelationID root) cs \<and>
    (\<forall>i < length cs. CausationID (cs ! i) = env_ID ((root # cs) ! i))"
  using assms
proof (induction es arbitrary: root cs)
  case (Cons x es)
  obtain raw now e where x: "x = (raw, now, e)" by (cases x)
  from Cons.prems(1) x obtain child rest where
    child: "PrepareForPublish raw now (WithEnvelopeContext None root) None e = Inr child"
    and rest: "publish_chain es child = Inr rest" and cs: "cs = child # rest"
    by (auto split: sum.splits)
  from Cons.prems x have src: "good_source raw now" and e: "trim_space (CorrelationID e) = []" "trim_space (CausationID e) = []"
    by auto
  have c: "CorrelationID child = CorrelationID root" "CausationID child = env_ID root"
    using PrepareForPublish_child [OF child Cons.prems(2,3) e] by auto
  have v: "valid_envelope child" by (rule PrepareForPublish_valid [OF child src])
  have IH: "list_all (\<lambda>c. CorrelationID c = CorrelationID child) rest \<and>
      (\<forall>i < length rest. CausationID (rest ! i) = env_ID ((child # rest) ! i))"
    using Cons.IH [OF rest v] Cons.prems(3,4) c(1) by simp
  show ?case
  proof (intro conjI allI impI)
    show "list_all (\<lambda>c. CorrelationID c = CorrelationID root) cs" using IH c cs by simp
    fix i assume "i < length cs"
    then show "CausationID (cs ! i) = env_ID ((root # cs) ! i)" using IH c cs by (cases i) auto
  qed
qed simp

definition ex_envelope :: "string \<Rightarrow> Envelope" where
  "ex_envelope ident = \<lparr>SchemaVersionE = 0, env_ID = ident, Topic = ''t'', env_Type = ''y'', Source = [], env_Subject = [], CorrelationID = [],
     CausationID = [], OccurredAt = 0, ContentType = [], DeliveryAttempt = 0, Payload = [], env_Metadata = []\<rparr>"

definition ex_raw :: "string result" where
  "ex_raw = Inr (replicate 16 (CHR ''a''))"

lemma ex_source: "now \<noteq> 0 \<Longrightarrow> good_source ex_raw now"
  by (simp add: good_source_def ex_raw_def)

lemma trim_letter [simp]: "trim_space ''t'' = ''t''" "trim_space ''y'' = ''y''" "trim_space ''i'' = ''i''" "trim_space ''j'' = ''j''"
  by (simp_all add: trim_space_plain plain_char_def less_eq_char_def)

lemma ex_envelope_trim: "trim_space ident = ident \<Longrightarrow> trim_envelope (ex_envelope ident) = ex_envelope ident"
  by (simp add: trim_envelope_def ex_envelope_def)

lemma ex_envelope_ok: "length ident \<le> 1 \<Longrightarrow> \<not> bad_envelope (ex_envelope ident\<lparr>CorrelationID := c, CausationID := d\<rparr>)"
  by (simp add: bad_envelope_def ex_envelope_def MaxTopicLength_def MaxTypeLength_def MaxSourceLength_def MaxSubjectLength_def
      MaxIDLength_def MaxMetadataEntries_def)

definition ex_first :: Envelope where
  "ex_first = fill_envelope 7 ''i'' (ex_envelope ''i'')"

lemma ex_first_ok: "EnvelopeNormalize ex_raw 7 (ex_envelope ''i'') = Inr ex_first"
proof -
  have "\<not> bad_envelope (ex_envelope ''i'')" using ex_envelope_ok [of "''i''" "[]" "[]"] by (simp add: ex_envelope_def)
  moreover have "env_ID (ex_envelope ''i'') = ''i''" by (simp add: ex_envelope_def)
  ultimately show ?thesis by (simp add: EnvelopeNormalize_def ex_envelope_trim ex_first_def)
qed

theorem EnvelopeNormalize_stable_witness: "EnvelopeNormalize (Inl ErrInvalidEnvelope) 9 ex_first = Inr ex_first"
  using EnvelopeNormalize_stable [OF ex_first_ok ex_source] by simp

lemma ex_chain_ok: "\<exists>c. publish_chain [(ex_raw, 8, ex_envelope ''j'')] ex_first = Inr [c]"
proof -
  let ?e = "(ex_envelope ''j'')\<lparr>CorrelationID := ''i'', CausationID := ''i''\<rparr>"
  have "inheritEventCausality (WithEnvelopeContext None ex_first) (ex_envelope ''j'') = ?e"
    by (simp add: inheritEventCausality_def WithEnvelopeContext_def CausalityFromContext_def ex_first_def fill_envelope_def
        ex_envelope_def Let_def)
  moreover have "trim_envelope ?e = ?e" "env_ID ?e = ''j''" by (simp_all add: trim_envelope_def ex_envelope_def)
  ultimately show ?thesis using ex_envelope_ok [of "''j''" "''i''" "''i''"]
    by (simp add: PrepareForPublish_def EnvelopeNormalize_def)
qed

theorem publish_chain_correlated_witness:
  "\<exists>c. publish_chain [(ex_raw, 8, ex_envelope ''j'')] ex_first = Inr [c] \<and> CorrelationID c = CorrelationID ex_first \<and>
     CausationID c = env_ID ex_first"
proof -
  have v: "valid_envelope ex_first" by (rule EnvelopeNormalize_valid [OF ex_first_ok ex_source]) simp
  have t: "trim_space (CorrelationID ex_first) = CorrelationID ex_first"
    by (simp add: ex_first_def fill_envelope_def ex_envelope_def)
  obtain c where run: "publish_chain [(ex_raw, 8, ex_envelope ''j'')] ex_first = Inr [c]" using ex_chain_ok by blast
  have "list_all (\<lambda>(raw, now, e). good_source raw now \<and> trim_space (CorrelationID e) = [] \<and> trim_space (CausationID e) = [])
      [(ex_raw, 8, ex_envelope ''j'')]" by (simp add: ex_source ex_envelope_def)
  from publish_chain_correlated [OF run v t this] run show ?thesis by fastforce
qed

end
