(* ===== verification/Outbox.thy ===== *)
theory Outbox
  imports Envelope
begin

text \<open>
  The outbox model and its in-memory store (\<open>framework/event/outbox/model.go\<close>, \<open>memory.go\<close>): records are
  enqueued once, claimed in batches under a lease, and then published, retried or dead-lettered by the owner
  of the lease. The error of the context (\<open>contextErr\<close>), the time of \<open>store.now\<close> and the text of an error are
  arguments; a method that reads the clock twice gets the same time. Every method holds the mutex of the store, so a concurrent history is a sequence of operations.
\<close>

section \<open>Data\<close>

datatype Status = StatusPending | StatusInFlight | StatusPublished | StatusDeadLetter

definition ErrDuplicate :: goerr where "ErrDuplicate = Err ''outbox: duplicate event id'' []"
definition ErrNotFound :: goerr where "ErrNotFound = Err ''outbox: record not found'' []"
definition ErrLeaseLost :: goerr where "ErrLeaseLost = Err ''outbox: lease lost'' []"
definition ErrInvalidTx :: goerr where "ErrInvalidTx = Err ''outbox: invalid transaction handle'' []"
definition ErrInvalidOwner :: goerr where "ErrInvalidOwner = Err ''outbox: claim owner is required'' []"

record OutboxRecord =
  ob_ID :: string
  ob_Envelope :: Envelope
  ob_Status :: Status
  Attempts :: int
  NextAttemptAt :: int
  LeaseOwner :: string
  LeaseUntil :: int
  LastError :: string
  CreatedAt :: int
  UpdatedAt :: int
  PublishedAt :: int

record ClaimOptions =
  co_Owner :: string
  co_Limit :: int
  co_Lease :: int
  co_Now :: int

definition second :: int where "second = 1000000000"

definition normalizeClaim :: "int \<Rightarrow> ClaimOptions \<Rightarrow> ClaimOptions" where
  "normalizeClaim clock o' =
     o'\<lparr>co_Owner := trim_space (co_Owner o'),
        co_Limit := (if co_Limit o' \<le> 0 then 50 else co_Limit o'),
        co_Lease := (if co_Lease o' \<le> 0 then 30 * second else co_Lease o'),
        co_Now := (if co_Now o' = 0 then clock else co_Now o')\<rparr>"

record Snapshot =
  sn_Pending :: int
  sn_InFlight :: int
  sn_Published :: int
  sn_DeadLetter :: int
  sn_OldestPendingAt :: int

record MemoryOutbox =
  om_records :: "(string \<times> OutboxRecord) list"

definition NewMemoryOutbox :: MemoryOutbox where
  "NewMemoryOutbox = \<lparr>om_records = []\<rparr>"

section \<open>Operations\<close>

definition errorText :: "string option \<Rightarrow> string" where
  "errorText err = (case err of None \<Rightarrow> [] | Some value \<Rightarrow> take 2048 value)"

definition new_record :: "int \<Rightarrow> Envelope \<Rightarrow> OutboxRecord" where
  "new_record now e =
     \<lparr>ob_ID = env_ID e, ob_Envelope = e, ob_Status = StatusPending, Attempts = 0, NextAttemptAt = now, LeaseOwner = [],
      LeaseUntil = 0, LastError = [], CreatedAt = now, UpdatedAt = now, PublishedAt = 0\<rparr>"

definition outbox_Enqueue ::
  "goerr option \<Rightarrow> string result \<Rightarrow> int \<Rightarrow> Envelope \<Rightarrow> MemoryOutbox \<Rightarrow> goerr option \<times> MemoryOutbox" where
  "outbox_Enqueue cerr raw now envelope s =
     (case cerr of
        Some e \<Rightarrow> (Some e, s)
      | None \<Rightarrow>
        (case EnvelopeNormalize raw now envelope of
           Inl e \<Rightarrow> (Some e, s)
         | Inr n \<Rightarrow>
           if map_of (om_records s) (env_ID n) \<noteq> None then (Some ErrDuplicate, s)
           else (None, s\<lparr>om_records := AList.update (env_ID n) (new_record now n) (om_records s)\<rparr>)))"

definition claimable :: "int \<Rightarrow> OutboxRecord \<Rightarrow> bool" where
  "claimable now r =
     ((ob_Status r = StatusPending \<and> \<not> now < NextAttemptAt r) \<or> (ob_Status r = StatusInFlight \<and> \<not> now < LeaseUntil r))"

definition claim_order :: "OutboxRecord \<Rightarrow> int \<times> int \<times> string" where
  "claim_order r = (NextAttemptAt r, CreatedAt r, ob_ID r)"

definition claim_record :: "ClaimOptions \<Rightarrow> OutboxRecord \<Rightarrow> OutboxRecord" where
  "claim_record o' r =
     r\<lparr>ob_Status := StatusInFlight, Attempts := Attempts r + 1, LeaseOwner := co_Owner o',
       LeaseUntil := co_Now o' + co_Lease o', UpdatedAt := co_Now o'\<rparr>"

definition claim_ready :: "ClaimOptions \<Rightarrow> MemoryOutbox \<Rightarrow> OutboxRecord list" where
  "claim_ready o' s =
     take (nat (co_Limit o')) (sort_key claim_order (filter (claimable (co_Now o')) (map snd (om_records s))))"

definition outbox_Claim ::
  "goerr option \<Rightarrow> int \<Rightarrow> ClaimOptions \<Rightarrow> MemoryOutbox \<Rightarrow> OutboxRecord list result \<times> MemoryOutbox" where
  "outbox_Claim cerr clock options s =
     (case cerr of
        Some e \<Rightarrow> (Inl e, s)
      | None \<Rightarrow>
        (let o' = normalizeClaim clock options in
         if co_Owner o' = [] then (Inl ErrInvalidTx, s)
         else
           (let claimed = map (claim_record o') (claim_ready o' s) in
            (Inr claimed, s\<lparr>om_records := fold (\<lambda>r. AList.update (ob_ID r) r) claimed (om_records s)\<rparr>))))"

definition changeOwned ::
  "string \<Rightarrow> string \<Rightarrow> (OutboxRecord \<Rightarrow> OutboxRecord) \<Rightarrow> MemoryOutbox \<Rightarrow> goerr option \<times> MemoryOutbox" where
  "changeOwned ident owner mutate s =
     (case map_of (om_records s) ident of
        None \<Rightarrow> (Some ErrNotFound, s)
      | Some r \<Rightarrow>
        if ob_Status r \<noteq> StatusInFlight \<or> trim_space owner = [] \<or> LeaseOwner r \<noteq> owner then (Some ErrLeaseLost, s)
        else (None, s\<lparr>om_records := AList.update ident (mutate r) (om_records s)\<rparr>))"

definition published_record :: "int \<Rightarrow> OutboxRecord \<Rightarrow> OutboxRecord" where
  "published_record at r =
     r\<lparr>ob_Status := StatusPublished, PublishedAt := at, LeaseOwner := [], LeaseUntil := 0, LastError := [], UpdatedAt := at\<rparr>"

definition retried_record :: "int \<Rightarrow> string option \<Rightarrow> int \<Rightarrow> OutboxRecord \<Rightarrow> OutboxRecord" where
  "retried_record next cause now r =
     r\<lparr>ob_Status := StatusPending, NextAttemptAt := next, LeaseOwner := [], LeaseUntil := 0, LastError := errorText cause,
       UpdatedAt := now\<rparr>"

definition dead_record :: "string option \<Rightarrow> int \<Rightarrow> OutboxRecord \<Rightarrow> OutboxRecord" where
  "dead_record cause now r =
     r\<lparr>ob_Status := StatusDeadLetter, LeaseOwner := [], LeaseUntil := 0, LastError := errorText cause, UpdatedAt := now\<rparr>"

definition outbox_MarkPublished ::
  "goerr option \<Rightarrow> int \<Rightarrow> string \<Rightarrow> string \<Rightarrow> int \<Rightarrow> MemoryOutbox \<Rightarrow> goerr option \<times> MemoryOutbox" where
  "outbox_MarkPublished cerr clock ident owner at s =
     (case cerr of
        Some e \<Rightarrow> (Some e, s)
      | None \<Rightarrow> changeOwned ident owner (published_record (if at = 0 then clock else at)) s)"

definition outbox_Retry ::
  "goerr option \<Rightarrow> int \<Rightarrow> string \<Rightarrow> string \<Rightarrow> int \<Rightarrow> string option \<Rightarrow> MemoryOutbox \<Rightarrow> goerr option \<times> MemoryOutbox" where
  "outbox_Retry cerr clock ident owner next cause s =
     (case cerr of
        Some e \<Rightarrow> (Some e, s)
      | None \<Rightarrow> changeOwned ident owner (retried_record (if next = 0 then clock else next) cause clock) s)"

definition outbox_DeadLetter ::
  "goerr option \<Rightarrow> int \<Rightarrow> string \<Rightarrow> string \<Rightarrow> string option \<Rightarrow> MemoryOutbox \<Rightarrow> goerr option \<times> MemoryOutbox" where
  "outbox_DeadLetter cerr clock ident owner cause s =
     (case cerr of
        Some e \<Rightarrow> (Some e, s)
      | None \<Rightarrow> changeOwned ident owner (dead_record cause clock) s)"

fun snapshot_step :: "OutboxRecord \<Rightarrow> Snapshot \<Rightarrow> Snapshot" where
  "snapshot_step r s =
     (case ob_Status r of
        StatusPending \<Rightarrow> s\<lparr>sn_Pending := sn_Pending s + 1,
          sn_OldestPendingAt := (if sn_OldestPendingAt s = 0 \<or> CreatedAt r < sn_OldestPendingAt s then CreatedAt r else sn_OldestPendingAt s)\<rparr>
      | StatusInFlight \<Rightarrow> s\<lparr>sn_InFlight := sn_InFlight s + 1\<rparr>
      | StatusPublished \<Rightarrow> s\<lparr>sn_Published := sn_Published s + 1\<rparr>
      | StatusDeadLetter \<Rightarrow> s\<lparr>sn_DeadLetter := sn_DeadLetter s + 1\<rparr>)"

definition outbox_Snapshot :: "goerr option \<Rightarrow> MemoryOutbox \<Rightarrow> Snapshot result" where
  "outbox_Snapshot cerr s =
     (case cerr of
        Some e \<Rightarrow> Inl e
      | None \<Rightarrow> Inr (fold snapshot_step (map snd (om_records s))
          \<lparr>sn_Pending = 0, sn_InFlight = 0, sn_Published = 0, sn_DeadLetter = 0, sn_OldestPendingAt = 0\<rparr>))"

definition purgeable :: "int \<Rightarrow> OutboxRecord \<Rightarrow> bool" where
  "purgeable before r = (ob_Status r = StatusPublished \<and> PublishedAt r \<noteq> 0 \<and> PublishedAt r < before)"

definition outbox_PurgePublished ::
  "goerr option \<Rightarrow> int \<Rightarrow> int \<Rightarrow> MemoryOutbox \<Rightarrow> int result \<times> MemoryOutbox" where
  "outbox_PurgePublished cerr before limit s =
     (case cerr of
        Some e \<Rightarrow> (Inl e, s)
      | None \<Rightarrow>
        if before = 0 then (Inr 0, s)
        else
          (let limit = (if limit \<le> 0 then 1000 else limit);
               ids = take (nat limit) (map fst (sort_key (\<lambda>(ident, r). (PublishedAt r, ident))
                       (filter (\<lambda>(ident, r). purgeable before r) (om_records s))))
           in (Inr (int (length ids)), s\<lparr>om_records := fold AList.delete ids (om_records s)\<rparr>)))"

definition EnqueueTx :: "('t \<Rightarrow> Envelope \<Rightarrow> 's \<Rightarrow> goerr option \<times> 's) option \<Rightarrow> 't option \<Rightarrow> Envelope \<Rightarrow> 's \<Rightarrow> goerr option \<times> 's" where
  "EnqueueTx store tx envelope s =
     (case (store, tx) of (Some enqueue, Some t) \<Rightarrow> enqueue t envelope s | _ \<Rightarrow> (Some ErrInvalidTx, s))"

section \<open>Lookup\<close>

definition outbox_lookup :: "MemoryOutbox \<Rightarrow> string \<Rightarrow> OutboxRecord option" where
  "outbox_lookup s = map_of (om_records s)"

text \<open>The invariant of the store: one record per id, filed under its id; a lease has an owner exactly while it is in flight.\<close>

definition outbox_inv :: "MemoryOutbox \<Rightarrow> bool" where
  "outbox_inv s \<longleftrightarrow> distinct (map fst (om_records s)) \<and>
     list_all (\<lambda>(k, r). ob_ID r = k \<and> 0 \<le> Attempts r \<and> (ob_Status r = StatusInFlight \<longleftrightarrow> LeaseOwner r \<noteq> [])) (om_records s)"

lemma lookup_update [simp]:
  "outbox_lookup (s\<lparr>om_records := AList.update k r (om_records s)\<rparr>) = (outbox_lookup s)(k \<mapsto> r)"
  by (simp add: outbox_lookup_def update_conv')

lemma outbox_inv_lookup: "outbox_inv s \<Longrightarrow> outbox_lookup s k = Some r \<Longrightarrow> ob_ID r = k \<and> 0 \<le> Attempts r \<and> (ob_Status r = StatusInFlight \<longleftrightarrow> LeaseOwner r \<noteq> [])"
  by (auto simp: outbox_inv_def outbox_lookup_def list_all_iff dest!: map_of_SomeD)

lemma set_update_subset: "set (AList.update k v m) \<subseteq> insert (k, v) (set m)"
  by (induction m) auto

lemma outbox_inv_update:
  assumes "outbox_inv s" "ob_ID r = k" "0 \<le> Attempts r" "ob_Status r = StatusInFlight \<longleftrightarrow> LeaseOwner r \<noteq> []"
  shows "outbox_inv (s\<lparr>om_records := AList.update k r (om_records s)\<rparr>)"
  using assms set_update_subset [of k r "om_records s"]
  by (fastforce simp: outbox_inv_def list_all_iff distinct_update)

lemma map_of_fold_update_id:
  "distinct (map ob_ID rs) \<Longrightarrow>
     map_of (fold (\<lambda>r. AList.update (ob_ID r) r) rs m) k =
       (case find (\<lambda>r. ob_ID r = k) rs of Some r \<Rightarrow> Some r | None \<Rightarrow> map_of m k)"
proof (induction rs arbitrary: m)
  case (Cons r rs)
  have "find (\<lambda>r. ob_ID r = k) rs = None" if "ob_ID r = k" using Cons.prems that by (auto simp: find_None_iff) (metis image_eqI)
  with Cons show ?case by (auto simp: update_conv' split: option.split)
qed simp

section \<open>Claims\<close>

lemma claim_record_simps [simp]:
  "ob_ID (claim_record o' r) = ob_ID r" "ob_Status (claim_record o' r) = StatusInFlight" "Attempts (claim_record o' r) = Attempts r + 1"
  "LeaseOwner (claim_record o' r) = co_Owner o'" "LeaseUntil (claim_record o' r) = co_Now o' + co_Lease o'"
  "ob_Envelope (claim_record o' r) = ob_Envelope r"
  by (simp_all add: claim_record_def)

lemma claim_ready_mem:
  assumes "outbox_inv s" "r \<in> set (claim_ready o' s)"
  shows "outbox_lookup s (ob_ID r) = Some r \<and> claimable (co_Now o') r"
proof -
  have "r \<in> snd ` set (om_records s)" "claimable (co_Now o') r"
    using assms(2) by (auto simp: claim_ready_def dest!: in_set_takeD)
  then obtain k where k: "(k, r) \<in> set (om_records s)" by auto
  with assms(1) have "ob_ID r = k" "map_of (om_records s) k = Some r" by (auto simp: outbox_inv_def list_all_iff)
  with \<open>claimable (co_Now o') r\<close> show ?thesis by (simp add: outbox_lookup_def)
qed

lemma claim_ready_distinct:
  assumes "outbox_inv s"
  shows "distinct (map ob_ID (claim_ready o' s))"
proof -
  have "map ob_ID (map snd (om_records s)) = map fst (om_records s)"
    using assms by (auto simp: outbox_inv_def list_all_iff)
  with assms have "distinct (map ob_ID (map snd (om_records s)))" unfolding outbox_inv_def by (simp only:)
  then have "distinct (map ob_ID (filter (claimable (co_Now o')) (map snd (om_records s))))" by (rule distinct_map_filter)
  then have "distinct (map ob_ID (sort_key claim_order (filter (claimable (co_Now o')) (map snd (om_records s)))))"
    by (metis distinct_map set_sort distinct_sort)
  then show ?thesis by (simp add: claim_ready_def take_map [symmetric])
qed

lemma find_map_claim:
  "find (\<lambda>r. ob_ID r = k) (map (claim_record o') rs) = map_option (claim_record o') (find (\<lambda>r. ob_ID r = k) rs)"
  by (induction rs) auto

lemma outbox_Claim_spec:
  assumes inv: "outbox_inv s" and run: "outbox_Claim cerr clock options s = (Inr rs, s')"
  defines "o' \<equiv> normalizeClaim clock options"
  shows "rs = map (claim_record o') (claim_ready o' s)" and "co_Owner o' \<noteq> []" and "distinct (map ob_ID rs)"
    and "outbox_lookup s' k = (case find (\<lambda>r. ob_ID r = k) rs of Some r \<Rightarrow> Some r | None \<Rightarrow> outbox_lookup s k)"
proof -
  show rs: "rs = map (claim_record o') (claim_ready o' s)" and "co_Owner o' \<noteq> []"
    using run unfolding outbox_Claim_def o'_def by (auto simp: Let_def split: option.splits if_splits)
  show dist: "distinct (map ob_ID rs)" unfolding rs using claim_ready_distinct [OF inv] by (simp add: comp_def)
  have "s' = s\<lparr>om_records := fold (\<lambda>r. AList.update (ob_ID r) r) rs (om_records s)\<rparr>"
    using run unfolding outbox_Claim_def rs o'_def by (auto simp: Let_def split: option.splits if_splits)
  then show "outbox_lookup s' k = (case find (\<lambda>r. ob_ID r = k) rs of Some r \<Rightarrow> Some r | None \<Rightarrow> outbox_lookup s k)"
    using map_of_fold_update_id [OF dist] unfolding outbox_lookup_def by simp
qed

lemma outbox_Claim_error: "outbox_Claim cerr clock options s = (Inl e, s') \<Longrightarrow> s' = s"
  by (auto simp: outbox_Claim_def Let_def split: option.splits if_splits)

lemma fold_update_inv:
  assumes "outbox_inv s" "\<forall>r \<in> set rs. 0 \<le> Attempts r \<and> ob_Status r = StatusInFlight \<and> LeaseOwner r \<noteq> []"
  shows "outbox_inv (s\<lparr>om_records := fold (\<lambda>r. AList.update (ob_ID r) r) rs (om_records s)\<rparr>)"
  using assms
proof (induction rs arbitrary: s)
  case (Cons r rs)
  then have "outbox_inv (s\<lparr>om_records := AList.update (ob_ID r) r (om_records s)\<rparr>)" by (intro outbox_inv_update) auto
  from Cons.IH [OF this] Cons.prems(2) show ?case by simp
qed simp

section \<open>Histories\<close>

datatype outbox_op =
    OEnqueue "goerr option" "string result" int Envelope
  | OClaim "goerr option" int ClaimOptions
  | OMark "goerr option" int string string int
  | ORetry "goerr option" int string string int "string option"
  | ODead "goerr option" int string string "string option"
  | OPurge "goerr option" int int

fun outbox_step :: "outbox_op \<Rightarrow> MemoryOutbox \<Rightarrow> MemoryOutbox" where
  "outbox_step (OEnqueue cerr raw now e) s = snd (outbox_Enqueue cerr raw now e s)"
| "outbox_step (OClaim cerr clock o') s = snd (outbox_Claim cerr clock o' s)"
| "outbox_step (OMark cerr clock ident owner at) s = snd (outbox_MarkPublished cerr clock ident owner at s)"
| "outbox_step (ORetry cerr clock ident owner next cause) s = snd (outbox_Retry cerr clock ident owner next cause s)"
| "outbox_step (ODead cerr clock ident owner cause) s = snd (outbox_DeadLetter cerr clock ident owner cause s)"
| "outbox_step (OPurge cerr before limit) s = snd (outbox_PurgePublished cerr before limit s)"

definition outbox_run :: "outbox_op list \<Rightarrow> MemoryOutbox \<Rightarrow> MemoryOutbox" where
  "outbox_run ops s = fold outbox_step ops s"

lemma changeOwned_inv:
  assumes "outbox_inv s" "\<And>r. ob_ID (f r) = ob_ID r \<and> Attempts (f r) = Attempts r \<and> ob_Status (f r) \<noteq> StatusInFlight \<and> LeaseOwner (f r) = []"
  shows "outbox_inv (snd (changeOwned ident owner f s))"
proof (cases "map_of (om_records s) ident")
  case (Some r)
  then have "ob_ID r = ident" "0 \<le> Attempts r" using outbox_inv_lookup [OF assms(1)] by (auto simp: outbox_lookup_def)
  with outbox_inv_update [OF assms(1), of "f r" ident] assms(2) [of r] Some assms(1) show ?thesis by (simp add: changeOwned_def)
qed (use assms in \<open>simp add: changeOwned_def\<close>)

lemma fold_delete_sub: "set (fold AList.delete ids m) \<subseteq> set m \<and> (distinct (map fst m) \<longrightarrow> distinct (map fst (fold AList.delete ids m)))"
proof (induction ids arbitrary: m)
  case (Cons i ids)
  have "set (AList.delete i m) \<subseteq> set m" by (induction m) auto
  moreover have "distinct (map fst m) \<longrightarrow> distinct (map fst (AList.delete i m))" by (simp add: distinct_delete)
  ultimately show ?case using Cons.IH [of "AList.delete i m"] by (simp, blast)
qed simp

lemma outbox_step_inv: "outbox_inv s \<Longrightarrow> outbox_inv (outbox_step op s)"
proof (cases op)
  case (OEnqueue cerr raw now e)
  moreover assume "outbox_inv s"
  ultimately show ?thesis
    by (auto simp: outbox_Enqueue_def new_record_def split: option.splits sum.splits intro!: outbox_inv_update)
next
  case (OClaim cerr clock o')
  moreover assume inv: "outbox_inv s"
  moreover have "outbox_inv (snd (outbox_Claim cerr clock o' s))"
  proof -
    let ?o = "normalizeClaim clock o'"
    have "\<forall>r \<in> set (map (claim_record ?o) (claim_ready ?o s)). 0 \<le> Attempts r \<and> ob_Status r = StatusInFlight \<and> (co_Owner ?o \<noteq> [] \<longrightarrow> LeaseOwner r \<noteq> [])"
      using claim_ready_mem [OF inv] outbox_inv_lookup [OF inv] by fastforce
    with fold_update_inv [OF inv] inv show ?thesis unfolding outbox_Claim_def by (simp add: Let_def split: option.split)
  qed
  ultimately show ?thesis by simp
next
  case (OPurge cerr before limit)
  moreover assume inv: "outbox_inv s"
  moreover have "outbox_inv (s\<lparr>om_records := fold AList.delete ids (om_records s)\<rparr>)" for ids
    using inv fold_delete_sub [of ids "om_records s"] by (auto simp: outbox_inv_def list_all_iff)
  ultimately show ?thesis by (simp add: outbox_PurgePublished_def Let_def split: option.split)
qed (auto simp: outbox_MarkPublished_def outbox_Retry_def outbox_DeadLetter_def published_record_def retried_record_def dead_record_def
    split: option.split intro!: changeOwned_inv)

lemma outbox_run_inv: "outbox_inv s \<Longrightarrow> outbox_inv (outbox_run ops s)"
  unfolding outbox_run_def by (induction ops arbitrary: s) (auto simp: outbox_step_inv)

section \<open>Who may change a record\<close>

text \<open>The operations that can touch a record that is in the store: a claim at a time when it is claimable, a transition
  by the owner of its lease, the purge of an old published record.\<close>

fun may_change :: "outbox_op \<Rightarrow> OutboxRecord \<Rightarrow> bool" where
  "may_change (OEnqueue cerr raw now e) r = False"
| "may_change (OClaim cerr clock o') r = claimable (co_Now (normalizeClaim clock o')) r"
| "may_change (OMark cerr clock ident owner at) r = (ident = ob_ID r \<and> ob_Status r = StatusInFlight \<and> LeaseOwner r = owner)"
| "may_change (ORetry cerr clock ident owner next cause) r = (ident = ob_ID r \<and> ob_Status r = StatusInFlight \<and> LeaseOwner r = owner)"
| "may_change (ODead cerr clock ident owner cause) r = (ident = ob_ID r \<and> ob_Status r = StatusInFlight \<and> LeaseOwner r = owner)"
| "may_change (OPurge cerr before limit) r = purgeable before r"

lemma changeOwned_lookup:
  assumes "outbox_lookup s k = Some r" "\<not> (ident = k \<and> ob_Status r = StatusInFlight \<and> LeaseOwner r = owner)"
  shows "outbox_lookup (snd (changeOwned ident owner f s)) k = Some r"
  using assms by (auto simp: changeOwned_def outbox_lookup_def update_conv' split: option.split)

lemma map_of_fold_delete: "map_of (fold AList.delete ids m) k = (if k \<in> set ids then None else map_of m k)"
  by (induction ids arbitrary: m) (auto simp: delete_conv')

lemma purge_lookup:
  assumes inv: "outbox_inv s" and r: "outbox_lookup s k = Some r" and keep: "\<not> purgeable before r"
  shows "outbox_lookup (snd (outbox_PurgePublished cerr before limit s)) k = Some r"
proof -
  have "k \<notin> fst ` set (filter (\<lambda>(ident, r). purgeable before r) (om_records s))"
    using inv r keep by (auto simp: outbox_inv_def outbox_lookup_def dest: eq_key_imp_eq_value map_of_SomeD)
  then have "k \<notin> set (take n (map fst (sort_key f (filter (\<lambda>(ident, r). purgeable before r) (om_records s)))))"
    for n and f :: "string \<times> OutboxRecord \<Rightarrow> int \<times> string"
    by (metis in_set_takeD list.set_map set_sort)
  with r show ?thesis
    by (simp add: outbox_PurgePublished_def outbox_lookup_def Let_def map_of_fold_delete split: option.split)
qed

lemma claim_lookup:
  assumes inv: "outbox_inv s" and r: "outbox_lookup s k = Some r" and keep: "\<not> claimable (co_Now (normalizeClaim clock o')) r"
  shows "outbox_lookup (snd (outbox_Claim cerr clock o' s)) k = Some r"
proof (cases "outbox_Claim cerr clock o' s")
  case (Pair res s')
  show ?thesis
  proof (cases res)
    case (Inl e) with Pair outbox_Claim_error r show ?thesis by fastforce
  next
    case (Inr rs)
    have "find (\<lambda>r. ob_ID r = k) (claim_ready (normalizeClaim clock o') s) = None"
      unfolding find_None_iff using claim_ready_mem [OF inv] r keep by fastforce
    with outbox_Claim_spec [OF inv, of cerr clock o' rs s'] Pair Inr r show ?thesis by (simp add: find_map_claim)
  qed
qed

lemma outbox_step_keeps:
  assumes "outbox_inv s" "outbox_lookup s k = Some r" "\<not> may_change op r"
  shows "outbox_lookup (outbox_step op s) k = Some r"
proof -
  have k: "ob_ID r = k" using outbox_inv_lookup assms(1,2) by blast
  have c: "outbox_lookup (snd (changeOwned ident owner f s)) k = Some r"
    if "\<not> (ident = ob_ID r \<and> ob_Status r = StatusInFlight \<and> LeaseOwner r = owner)" for ident owner f
    using changeOwned_lookup assms(2) that k by blast
  show ?thesis
  proof (cases op)
    case (OEnqueue cerr raw now e)
    with assms(2) show ?thesis by (auto simp: outbox_Enqueue_def outbox_lookup_def update_conv' split: option.split sum.split)
  next
    case (OClaim cerr clock o') with claim_lookup assms show ?thesis by simp
  next
    case (OPurge cerr before limit) with purge_lookup assms show ?thesis by simp
  qed (use c assms(2,3) in \<open>simp_all add: outbox_MarkPublished_def outbox_Retry_def outbox_DeadLetter_def split: option.split\<close>)
qed

lemma outbox_run_keeps:
  assumes "outbox_inv s" "outbox_lookup s k = Some r" "\<forall>op \<in> set ops. \<not> may_change op r"
  shows "outbox_lookup (outbox_run ops s) k = Some r"
  using assms unfolding outbox_run_def
  by (induction ops arbitrary: s) (auto simp: outbox_step_inv outbox_step_keeps)

lemma new_outbox_inv: "outbox_inv NewMemoryOutbox"
  by (simp add: NewMemoryOutbox_def outbox_inv_def)

section \<open>Properties of the store\<close>

text \<open>An operation that is not the owner's: a claim before the lease ends, a transition of another record or under
  another owner's name, an enqueue or a purge.\<close>

fun foreign :: "string \<Rightarrow> int \<Rightarrow> string \<Rightarrow> outbox_op \<Rightarrow> bool" where
  "foreign w until k (OClaim cerr clock o') = (co_Now (normalizeClaim clock o') < until)"
| "foreign w until k (OMark cerr clock ident owner at) = (ident \<noteq> k \<or> owner \<noteq> w)"
| "foreign w until k (ORetry cerr clock ident owner next cause) = (ident \<noteq> k \<or> owner \<noteq> w)"
| "foreign w until k (ODead cerr clock ident owner cause) = (ident \<noteq> k \<or> owner \<noteq> w)"
| "foreign w until k _ = True"

lemma foreign_keeps:
  "ob_Status r = StatusInFlight \<Longrightarrow> foreign (LeaseOwner r) (LeaseUntil r) (ob_ID r) op \<Longrightarrow> \<not> may_change op r"
  by (cases op) (auto simp: claimable_def purgeable_def)

lemma claim_returns_stored:
  assumes inv: "outbox_inv s" and run: "outbox_Claim cerr clock o' s = (Inr rs, s')" and r: "r \<in> set rs"
  shows "outbox_lookup s' (ob_ID r) = Some r" and "ob_Status r = StatusInFlight"
    and "LeaseOwner r = co_Owner (normalizeClaim clock o')"
    and "LeaseUntil r = co_Now (normalizeClaim clock o') + co_Lease (normalizeClaim clock o')"
    and "\<exists>r0. outbox_lookup s (ob_ID r) = Some r0 \<and> claimable (co_Now (normalizeClaim clock o')) r0 \<and>
           r = claim_record (normalizeClaim clock o') r0"
proof -
  note spec = outbox_Claim_spec [OF inv run]
  obtain r0 where r0: "r0 \<in> set (claim_ready (normalizeClaim clock o') s)" "r = claim_record (normalizeClaim clock o') r0"
    using spec(1) r by auto
  then show "ob_Status r = StatusInFlight" "LeaseOwner r = co_Owner (normalizeClaim clock o')"
    "LeaseUntil r = co_Now (normalizeClaim clock o') + co_Lease (normalizeClaim clock o')" by simp_all
  show "\<exists>r0. outbox_lookup s (ob_ID r) = Some r0 \<and> claimable (co_Now (normalizeClaim clock o')) r0 \<and>
      r = claim_record (normalizeClaim clock o') r0"
    using claim_ready_mem [OF inv r0(1)] r0(2) by auto
  have "find (\<lambda>x. ob_ID x = ob_ID r) rs \<noteq> None" using r by (auto simp: find_None_iff)
  then obtain r' where r': "find (\<lambda>x. ob_ID x = ob_ID r) rs = Some r'" by blast
  then have "r' \<in> set rs" "ob_ID r' = ob_ID r" by (auto dest: find_Some_mem)
  then have "r' = r" using spec(3) r by (auto simp: distinct_map inj_on_def)
  with spec(4) [of "ob_ID r"] r' show "outbox_lookup s' (ob_ID r) = Some r" by simp
qed

lemma outbox_Claim_inv: "outbox_inv s \<Longrightarrow> outbox_Claim cerr clock o' s = (res, s') \<Longrightarrow> outbox_inv s'"
  using outbox_step_inv [of s "OClaim cerr clock o'"] by simp

text \<open>Property C31: a lease excludes every other worker until it ends. After a claim on a store with any history, whatever
  foreign operations follow - enqueues, purges, claims made before the lease ends, transitions attempted under another
  owner's name - each claimed record stays as it was claimed, and no later claim among them returns it.\<close>

theorem outbox_lease_exclusive:
  assumes claim: "outbox_Claim cerr clock options (outbox_run before NewMemoryOutbox) = (Inr rs, s)"
    and r: "r \<in> set rs"
    and ops: "\<forall>op \<in> set ops. foreign (co_Owner (normalizeClaim clock options))
      (co_Now (normalizeClaim clock options) + co_Lease (normalizeClaim clock options)) (ob_ID r) op"
  shows "outbox_lookup (outbox_run ops s) (ob_ID r) = Some r \<and>
     (\<forall>pre cerr' clock' options' post rs' s'. ops = pre @ OClaim cerr' clock' options' # post \<longrightarrow>
        outbox_Claim cerr' clock' options' (outbox_run pre s) = (Inr rs', s') \<longrightarrow> ob_ID r \<notin> ob_ID ` set rs')"
proof -
  have inv0: "outbox_inv (outbox_run before NewMemoryOutbox)" by (simp add: outbox_run_inv new_outbox_inv)
  have inv: "outbox_inv s" by (rule outbox_Claim_inv [OF inv0 claim])
  note c = claim_returns_stored [OF inv0 claim r]
  have keep: "\<not> may_change op r" if "op \<in> set ops" for op
    by (rule foreign_keeps [OF c(2)], unfold c(3) c(4)) (rule bspec [OF ops that])
  have held: "outbox_lookup (outbox_run ops s) (ob_ID r) = Some r" using outbox_run_keeps [OF inv c(1)] keep by simp
  have "ob_ID r \<notin> ob_ID ` set rs'" if split: "ops = pre @ OClaim cerr' clock' options' # post"
    and claim': "outbox_Claim cerr' clock' options' (outbox_run pre s) = (Inr rs', s')" for pre cerr' clock' options' post rs' s'
  proof -
    have "outbox_lookup (outbox_run pre s) (ob_ID r) = Some r" using outbox_run_keeps [OF inv c(1), of pre] keep split by simp
    moreover have "\<not> claimable (co_Now (normalizeClaim clock' options')) r" using keep split by force
    ultimately show ?thesis
      using claim_returns_stored(5) [OF outbox_run_inv [OF inv] claim'] by fastforce
  qed
  with held show ?thesis by blast
qed

text \<open>The terminal states are terminal. In a store with any history, a dead-lettered record stays exactly as
  it is under every further sequence of operations, and a published one under every sequence without a purge that
  reaches it.\<close>

theorem outbox_terminal:
  assumes "outbox_lookup (outbox_run before NewMemoryOutbox) k = Some r"
    and "ob_Status r = StatusDeadLetter \<or>
      ob_Status r = StatusPublished \<and> (\<forall>op \<in> set ops. case op of OPurge cerr t limit \<Rightarrow> t \<le> PublishedAt r | _ \<Rightarrow> True)"
  shows "outbox_lookup (outbox_run ops (outbox_run before NewMemoryOutbox)) k = Some r"
proof (rule outbox_run_keeps)
  show "outbox_inv (outbox_run before NewMemoryOutbox)" by (simp add: outbox_run_inv new_outbox_inv)
  show "outbox_lookup (outbox_run before NewMemoryOutbox) k = Some r" by (rule assms(1))
  show "\<forall>op \<in> set ops. \<not> may_change op r"
  proof
    fix op assume "op \<in> set ops"
    with assms(2) show "\<not> may_change op r" by (cases op) (auto simp: claimable_def purgeable_def)
  qed
qed

section \<open>Witnesses\<close>

definition ex_claim :: "string \<Rightarrow> int \<Rightarrow> ClaimOptions" where
  "ex_claim owner now = \<lparr>co_Owner = owner, co_Limit = 1, co_Lease = 10, co_Now = now\<rparr>"

lemma ex_claim_normal [simp]: "now \<noteq> 0 \<Longrightarrow> trim_space owner = owner \<Longrightarrow> normalizeClaim clock (ex_claim owner now) = ex_claim owner now"
  by (simp add: normalizeClaim_def ex_claim_def)

lemma ex_claim_simps [simp]:
  "co_Owner (ex_claim owner now) = owner" "co_Limit (ex_claim owner now) = 1" "co_Lease (ex_claim owner now) = 10"
  "co_Now (ex_claim owner now) = now"
  by (simp_all add: ex_claim_def)

definition ex_history :: "outbox_op list" where
  "ex_history = [OEnqueue None ex_raw 7 (ex_envelope ''i'')]"

lemma ex_history_run: "outbox_run ex_history NewMemoryOutbox = \<lparr>om_records = [(''i'', new_record 7 ex_first)]\<rparr>"
  by (simp add: outbox_run_def ex_history_def outbox_Enqueue_def ex_first_ok NewMemoryOutbox_def)
     (simp add: ex_first_def fill_envelope_def)

definition ex_claimed :: OutboxRecord where
  "ex_claimed = claim_record (ex_claim ''t'' 8) (new_record 7 ex_first)"

lemma ex_ID: "ob_ID (new_record 7 ex_first) = ''i''"
  by (simp add: new_record_def ex_first_def fill_envelope_def)

lemma ex_new: "ob_Status (new_record 7 ex_first) = StatusPending" "NextAttemptAt (new_record 7 ex_first) = 7"
  by (simp_all add: new_record_def)

lemma ex_claim_run:
  "outbox_Claim None 0 (ex_claim ''t'' 8) \<lparr>om_records = [(''i'', new_record 7 ex_first)]\<rparr> =
     (Inr [ex_claimed], \<lparr>om_records = [(''i'', ex_claimed)]\<rparr>)"
  by (simp add: outbox_Claim_def claim_ready_def claimable_def ex_claimed_def ex_ID ex_new Let_def)

theorem outbox_lease_exclusive_witness:
  "outbox_lookup (outbox_run [OClaim None 0 (ex_claim ''y'' 9), OMark None 0 ''i'' ''y'' 9] \<lparr>om_records = [(''i'', ex_claimed)]\<rparr>) ''i'' =
     Some ex_claimed \<and>
   ''i'' \<notin> ob_ID ` set (projr (fst (outbox_Claim None 0 (ex_claim ''y'' 9) \<lparr>om_records = [(''i'', ex_claimed)]\<rparr>)))"
proof -
  let ?ops = "[OClaim None 0 (ex_claim ''y'' 9), OMark None 0 ''i'' ''y'' 9]"
  let ?s = "\<lparr>om_records = [(''i'', ex_claimed)]\<rparr>"
  have run: "outbox_Claim None 0 (ex_claim ''t'' 8) (outbox_run ex_history NewMemoryOutbox) = (Inr [ex_claimed], ?s)"
    by (simp add: ex_history_run ex_claim_run)
  have i: "ob_ID ex_claimed = ''i''" by (simp add: ex_claimed_def ex_ID)
  have f: "\<forall>op \<in> set ?ops. foreign (co_Owner (normalizeClaim 0 (ex_claim ''t'' 8)))
      (co_Now (normalizeClaim 0 (ex_claim ''t'' 8)) + co_Lease (normalizeClaim 0 (ex_claim ''t'' 8))) (ob_ID ex_claimed) op"
    by (simp add: i)
  have m: "ex_claimed \<in> set [ex_claimed]" by simp
  note p = outbox_lease_exclusive [OF run m f]
  obtain rs' s' where c: "outbox_Claim None 0 (ex_claim ''y'' 9) ?s = (Inr rs', s')"
    by (simp add: outbox_Claim_def Let_def)
  have "?ops = [] @ OClaim None 0 (ex_claim ''y'' 9) # [OMark None 0 ''i'' ''y'' 9]" by simp
  from conjunct2 [OF p, rule_format, OF this, of rs' s'] c have "''i'' \<notin> ob_ID ` set rs'" by (simp add: outbox_run_def i)
  with p c i show ?thesis by simp
qed

theorem outbox_terminal_witness:
  "outbox_lookup (outbox_run [OClaim None 0 (ex_claim ''y'' 99), OPurge None 8 5]
     (outbox_run (ex_history @ [OClaim None 0 (ex_claim ''t'' 8), OMark None 0 ''i'' ''t'' 8]) NewMemoryOutbox)) ''i'' =
   Some (published_record 8 ex_claimed)"
proof -
  have l: "LeaseOwner ex_claimed = ''t''" "ob_Status ex_claimed = StatusInFlight"
    by (simp_all add: ex_claimed_def)
  have "outbox_lookup (outbox_run (ex_history @ [OClaim None 0 (ex_claim ''t'' 8), OMark None 0 ''i'' ''t'' 8]) NewMemoryOutbox) ''i'' =
      Some (published_record 8 ex_claimed)"
    using ex_history_run
    by (simp add: outbox_run_def ex_claim_run outbox_MarkPublished_def changeOwned_def l outbox_lookup_def)
  then show ?thesis by (rule outbox_terminal) (simp add: published_record_def)
qed

end
