(* ===== verification/Float64.thy ===== *)
theory Float64
  imports Prelude Complex_Main
begin

text \<open>
  Go's \<open>float64\<close> as the code uses it. A finite double is the rational number it denotes; the result of an operation is
  the exact result rounded to the nearest double, ties to even, with 53 significant bits and the gradual underflow of
  the subnormal range (\<open>f64\<close>). Values beyond the largest finite double do not occur as results that the code inspects
  before it converts them to an integer, so there is no infinity; NaN does not occur. The conversion to a 64-bit
  integer truncates; out of the range of the integer Go leaves the result to the implementation, and \<open>int64_of_f64\<close>
  gives the one of amd64.
\<close>

section \<open>Binary exponents\<close>

function bit_length :: "int \<Rightarrow> nat" where
  "bit_length n = (if n \<le> 0 then 0 else Suc (bit_length (n div 2)))"
  by pat_completeness auto
termination by (relation "measure nat") auto

declare bit_length.simps [simp del]

lemma bit_length_bounds: "0 < n \<Longrightarrow> \<exists>k. bit_length n = Suc k \<and> 2 ^ k \<le> n \<and> n + 1 \<le> 2 ^ Suc k"
proof (induction n rule: bit_length.induct)
  case (1 n)
  show ?case
  proof (cases "n div 2 = 0")
    case True
    with 1(2) have "n = 1" by linarith
    then show ?thesis by (simp add: bit_length.simps)
  next
    case False
    with 1(2) have "0 < n div 2" by linarith
    with 1 obtain k where k: "bit_length (n div 2) = Suc k" "2 ^ k \<le> n div 2" "n div 2 + 1 \<le> 2 ^ Suc k" by auto
    from k(2,3) have "2 ^ Suc k \<le> n" "n + 1 \<le> 2 ^ Suc (Suc k)" unfolding power_Suc by linarith+
    moreover have "bit_length n = Suc (Suc k)" using 1(2) k(1) by (subst bit_length.simps) simp
    ultimately show ?thesis by blast
  qed
qed

text \<open>The exponent of a positive number: \<open>2\<^sup>e \<le> x < 2\<^sup>e\<^sup>+\<^sup>1\<close>.\<close>

definition floor_log2 :: "rat \<Rightarrow> int" where
  "floor_log2 x = (if 1 \<le> x then int (bit_length \<lfloor>x\<rfloor>) - 1 else - int (bit_length (\<lceil>1 / x\<rceil> - 1)))"

lemma pow2_pos [simp]: "0 < (2::rat) powi k"
  by (simp add: power_int_def)

lemma pow2_mono: "k \<le> l \<Longrightarrow> (2::rat) powi k \<le> 2 powi l"
  by (rule power_int_increasing) simp_all

lemma floor_log2_bounds:
  assumes "0 < x"
  shows "2 powi (floor_log2 x) \<le> x" and "x < 2 powi (floor_log2 x + 1)"
proof -
  have "2 powi (floor_log2 x) \<le> x \<and> x < 2 powi (floor_log2 x + 1)"
  proof (cases "1 \<le> x")
    case True
    define n where "n = \<lfloor>x\<rfloor>"
    have n: "0 < n" "of_int n \<le> x" "x < of_int n + 1" using True unfolding n_def by linarith+
    obtain k where k: "bit_length n = Suc k" "2 ^ k \<le> n" "n + 1 \<le> 2 ^ Suc k" using bit_length_bounds [OF n(1)] by blast
    from k(2,3) have "of_int (2 ^ k) \<le> (of_int n :: rat)" "of_int (n + 1) \<le> (of_int (2 ^ Suc k) :: rat)" by (simp_all only: of_int_le_iff)
    then have "(2::rat) ^ k \<le> of_int n" "of_int n + 1 \<le> (2::rat) ^ Suc k" by simp_all
    with n have "(2::rat) ^ k \<le> x" "x < 2 ^ Suc k" by linarith+
    moreover have "floor_log2 x = int k" using True k by (simp add: floor_log2_def n_def)
    moreover have "(2::rat) powi (int k + 1) = 2 ^ Suc k" by (metis of_nat_Suc add.commute power_int_of_nat)
    ultimately show ?thesis by simp
  next
    case False
    then have inv: "1 < 1 / x" using assms by simp
    define m where "m = \<lceil>1 / x\<rceil> - 1"
    have m: "0 < m" "of_int m < 1 / x" "1 / x \<le> of_int m + 1" using inv unfolding m_def by linarith+
    obtain k where k: "bit_length m = Suc k" "2 ^ k \<le> m" "m + 1 \<le> 2 ^ Suc k" using bit_length_bounds [OF m(1)] by blast
    from k(2,3) have "of_int (2 ^ k) \<le> (of_int m :: rat)" "of_int (m + 1) \<le> (of_int (2 ^ Suc k) :: rat)" by (simp_all only: of_int_le_iff)
    then have "(2::rat) ^ k \<le> of_int m" "of_int m + 1 \<le> (2::rat) ^ Suc k" by simp_all
    with m have b: "(2::rat) ^ k < 1 / x" "1 / x \<le> 2 ^ Suc k" by linarith+
    have "floor_log2 x = - int (Suc k)" using False k by (simp add: floor_log2_def m_def)
    moreover have "(2::rat) powi (- int (Suc k)) = 1 / 2 ^ Suc k" by (metis power_int_minus_divide power_int_of_nat)
    moreover have "(2::rat) powi (- int (Suc k) + 1) = 1 / 2 ^ k"
      by (metis add.commute add_diff_cancel_left' minus_diff_eq of_nat_Suc power_int_minus_divide power_int_of_nat uminus_add_conv_diff)
    moreover have "1 / 2 ^ Suc k \<le> x" "x < 1 / 2 ^ k" using b assms by (simp_all add: field_simps)
    ultimately show ?thesis by (simp only:)
  qed
  then show "2 powi (floor_log2 x) \<le> x" and "x < 2 powi (floor_log2 x + 1)" by auto
qed

section \<open>Rounding\<close>

definition round_even :: "rat \<Rightarrow> int" where
  "round_even x =
     (let f = \<lfloor>x\<rfloor>; d = x - of_int f in
      if d < 1 / 2 then f else if 1 / 2 < d then f + 1 else if even f then f else f + 1)"

definition ulp_exp :: "rat \<Rightarrow> int" where
  "ulp_exp x = max (floor_log2 x - 52) (- 1074)"

definition f64_pos :: "rat \<Rightarrow> rat" where
  "f64_pos x = of_int (round_even (x / 2 powi (ulp_exp x))) * 2 powi (ulp_exp x)"

definition f64 :: "rat \<Rightarrow> rat" where
  "f64 x = (if x = 0 then 0 else if x < 0 then - f64_pos (- x) else f64_pos x)"

lemma round_even_of_int [simp]: "round_even (of_int n) = n"
  by (simp add: round_even_def Let_def)

lemma round_even_near: "\<lfloor>x\<rfloor> \<le> round_even x \<and> round_even x \<le> \<lfloor>x\<rfloor> + 1"
  by (auto simp: round_even_def Let_def)

lemma round_even_mono:
  assumes "x \<le> y"
  shows "round_even x \<le> round_even y"
proof (cases "\<lfloor>x\<rfloor> = \<lfloor>y\<rfloor>")
  case True
  with assms show ?thesis by (auto simp: round_even_def Let_def)
next
  case False
  then have "\<lfloor>x\<rfloor> + 1 \<le> \<lfloor>y\<rfloor>" using floor_mono [OF assms] by linarith
  with round_even_near [of x] round_even_near [of y] show ?thesis by linarith
qed

lemma round_even_le_int: "x \<le> of_int n \<Longrightarrow> round_even x \<le> n"
  using round_even_mono [of x "of_int n"] by simp

lemma round_even_ge_int: "of_int n \<le> x \<Longrightarrow> n \<le> round_even x"
  using round_even_mono [of "of_int n" x] by simp

lemma pow2_split: "l \<le> k \<Longrightarrow> (2::rat) powi k = of_int (2 ^ nat (k - l)) * 2 powi l"
  using power_int_add [of "2::rat" "k - l" l] by (simp add: power_int_nonneg_exp)

text \<open>Rounding does not cross a multiple of the unit in the last place.\<close>

lemma f64_pos_le:
  assumes "x \<le> of_int m * 2 powi k" "ulp_exp x \<le> k"
  shows "f64_pos x \<le> of_int m * 2 powi k"
proof -
  let ?u = "(2::rat) powi (ulp_exp x)"
  have e: "of_int m * 2 powi k = of_int (m * 2 ^ nat (k - ulp_exp x)) * ?u"
    using pow2_split [OF assms(2)] by simp
  from assms(1) have "x / ?u \<le> of_int (m * 2 ^ nat (k - ulp_exp x))" unfolding e by (simp only: pos_divide_le_eq pow2_pos)
  then have "round_even (x / ?u) \<le> m * 2 ^ nat (k - ulp_exp x)" by (rule round_even_le_int)
  then show ?thesis unfolding f64_pos_def e by (intro mult_right_mono) (simp_all add: less_imp_le del: of_int_mult)
qed

lemma f64_pos_ge:
  assumes "of_int m * 2 powi k \<le> x" "ulp_exp x \<le> k"
  shows "of_int m * 2 powi k \<le> f64_pos x"
proof -
  let ?u = "(2::rat) powi (ulp_exp x)"
  have e: "of_int m * 2 powi k = of_int (m * 2 ^ nat (k - ulp_exp x)) * ?u"
    using pow2_split [OF assms(2)] by simp
  from assms(1) have "of_int (m * 2 ^ nat (k - ulp_exp x)) \<le> x / ?u" unfolding e by (simp only: pos_le_divide_eq pow2_pos)
  then have "m * 2 ^ nat (k - ulp_exp x) \<le> round_even (x / ?u)" by (rule round_even_ge_int)
  then show ?thesis unfolding f64_pos_def e by (intro mult_right_mono) (simp_all add: less_imp_le del: of_int_mult)
qed

lemma floor_log2_less: "0 < x \<Longrightarrow> x < 2 powi k \<Longrightarrow> floor_log2 x < k"
  using floor_log2_bounds(1) [of x] pow2_mono [of k "floor_log2 x"] by linarith

lemma floor_log2_mono: "0 < x \<Longrightarrow> x \<le> y \<Longrightarrow> floor_log2 x \<le> floor_log2 y"
  using floor_log2_less [of x "floor_log2 y + 1"] floor_log2_bounds(2) [of y] by simp

lemma f64_pos_mono:
  assumes "0 < x" "x \<le> y"
  shows "f64_pos x \<le> f64_pos y"
proof (cases "ulp_exp x = ulp_exp y")
  case True
  have "x / 2 powi ulp_exp y \<le> y / 2 powi ulp_exp y" using assms(2) by (simp add: divide_right_mono less_imp_le)
  then show ?thesis unfolding f64_pos_def True by (intro mult_right_mono) (simp_all add: round_even_mono less_imp_le)
next
  case False
  have "floor_log2 x \<le> floor_log2 y" by (rule floor_log2_mono [OF assms])
  with False have y: "ulp_exp y = floor_log2 y - 52" and x: "floor_log2 x < floor_log2 y" "ulp_exp x \<le> floor_log2 y"
    unfolding ulp_exp_def by linarith+
  have "x \<le> 2 powi (floor_log2 y)"
    using floor_log2_bounds(2) [OF assms(1)] pow2_mono [of "floor_log2 x + 1" "floor_log2 y"] x(1) by linarith
  then have "f64_pos x \<le> 2 powi (floor_log2 y)" using f64_pos_le [of x 1, OF _ x(2)] by simp
  also have "\<dots> \<le> f64_pos y" using f64_pos_ge [of 1 "floor_log2 y" y] floor_log2_bounds(1) [of y] y assms by simp
  finally show ?thesis .
qed

lemma f64_pos_nonneg: "0 < x \<Longrightarrow> 0 \<le> f64_pos x"
  using f64_pos_ge [of 0 "ulp_exp x" x] by simp

text \<open>The values with a short mantissa are doubles: rounding keeps them.\<close>

lemma f64_pos_dyadic:
  assumes "0 < m" "m < 2 ^ 53" "- 1074 \<le> k"
  shows "f64_pos (of_int m * 2 powi k) = of_int m * 2 powi k"
proof -
  let ?x = "of_int m * 2 powi k :: rat"
  have "of_int m < (of_int (2 ^ 53) :: rat)" using assms(2) by (simp only: of_int_less_iff)
  then have "?x < 2 ^ 53 * 2 powi k" by simp
  also have "\<dots> = 2 powi (53 + k)" by (simp add: power_int_add)
  finally have "floor_log2 ?x < 53 + k" using assms(1) by (intro floor_log2_less) simp_all
  then have u: "ulp_exp ?x \<le> k" using assms(3) by (simp add: ulp_exp_def)
  show ?thesis using f64_pos_le [OF order_refl u] f64_pos_ge [OF order_refl u] by (rule order_antisym)
qed

lemma f64_pos_form:
  assumes "0 < x"
  shows "\<exists>m k. f64_pos x = of_int m * 2 powi k \<and> 0 \<le> m \<and> m < 2 ^ 53 \<and> - 1074 \<le> k"
proof -
  let ?u = "(2::rat) powi (ulp_exp x)" and ?m = "round_even (x / 2 powi (ulp_exp x))"
  have "x < 2 powi (floor_log2 x + 1)" by (rule floor_log2_bounds(2) [OF assms])
  also have "\<dots> \<le> 2 powi (53 + ulp_exp x)" by (rule pow2_mono) (simp add: ulp_exp_def)
  also have "\<dots> = of_int (2 ^ 53) * ?u" by (simp add: power_int_add)
  finally have "x / ?u \<le> of_int (2 ^ 53)" by (simp only: pos_divide_le_eq pow2_pos less_imp_le)
  then have le: "?m \<le> 2 ^ 53" by (rule round_even_le_int)
  have ge: "0 \<le> ?m" using assms by (intro round_even_ge_int) (simp add: less_imp_le)
  have k: "- 1074 \<le> ulp_exp x" by (simp add: ulp_exp_def)
  show ?thesis
  proof (cases "?m < 2 ^ 53")
    case True with ge k show ?thesis unfolding f64_pos_def by blast
  next
    case False
    with le have "?m = 2 ^ 53" by linarith
    then have "f64_pos x = of_int 1 * 2 powi (53 + ulp_exp x)" by (simp add: f64_pos_def power_int_add)
    moreover have "- 1074 \<le> 53 + ulp_exp x" using k by linarith
    moreover have "(0::int) \<le> 1" "(1::int) < 2 ^ 53" by simp_all
    ultimately show ?thesis by blast
  qed
qed

section \<open>Arithmetic\<close>

definition f64_add :: "rat \<Rightarrow> rat \<Rightarrow> rat" where "f64_add x y = f64 (x + y)"
definition f64_sub :: "rat \<Rightarrow> rat \<Rightarrow> rat" where "f64_sub x y = f64 (x - y)"
definition f64_mul :: "rat \<Rightarrow> rat \<Rightarrow> rat" where "f64_mul x y = f64 (x * y)"
definition f64_div :: "rat \<Rightarrow> rat \<Rightarrow> rat" where "f64_div x y = f64 (x / y)"

definition f64_of_int :: "int \<Rightarrow> rat" where "f64_of_int n = f64 (of_int n)"

definition int64_min :: int where "int64_min = - (2 ^ 63)"
definition int64_max :: int where "int64_max = 2 ^ 63 - 1"

definition toward_zero :: "rat \<Rightarrow> int" where
  "toward_zero x = (if 0 \<le> x then \<lfloor>x\<rfloor> else \<lceil>x\<rceil>)"

definition int64_of_f64 :: "rat \<Rightarrow> int" where
  "int64_of_f64 x = (if int64_min \<le> toward_zero x \<and> toward_zero x \<le> int64_max then toward_zero x else int64_min)"

lemma f64_0 [simp]: "f64 0 = 0"
  by (simp add: f64_def)

lemma f64_mono: "x \<le> y \<Longrightarrow> f64 x \<le> f64 y"
  using f64_pos_mono [of x y] f64_pos_mono [of "- y" "- x"] f64_pos_nonneg [of y] f64_pos_nonneg [of "- x"]
  by (auto simp: f64_def)

lemma f64_nonneg: "0 \<le> x \<Longrightarrow> 0 \<le> f64 x"
  using f64_mono [of 0 x] by simp

lemma f64_dyadic:
  assumes "\<bar>m\<bar> < 2 ^ 53" "- 1074 \<le> k"
  shows "f64 (of_int m * 2 powi k) = of_int m * 2 powi k"
  using f64_pos_dyadic [of m k] f64_pos_dyadic [of "- m" k] assms less_asym [OF pow2_pos [of k]]
  by (auto simp: f64_def mult_less_0_iff)

lemma f64_idem [simp]: "f64 (f64 x) = f64 x"
proof -
  have pos: "f64 (f64_pos y) = f64_pos y \<and> f64 (- f64_pos y) = - f64_pos y" if "0 < y" for y
  proof -
    obtain m k where m: "f64_pos y = of_int m * 2 powi k" "0 \<le> m" "m < 2 ^ 53" "- 1074 \<le> k" using f64_pos_form [OF \<open>0 < y\<close>] by blast
    then show ?thesis using f64_dyadic [of m k] f64_dyadic [of "- m" k] by simp
  qed
  show ?thesis using pos [of x] pos [of "- x"] by (cases "x = 0"; cases "x < 0") (simp_all add: f64_def [of x])
qed

lemma f64_int: "\<bar>n\<bar> < 2 ^ 53 \<Longrightarrow> f64 (of_int n) = of_int n"
  using f64_dyadic [of n 0] by simp

lemma f64_le_int: "x \<le> of_int n \<Longrightarrow> \<bar>n\<bar> < 2 ^ 53 \<Longrightarrow> f64 x \<le> of_int n"
  using f64_mono [of x "of_int n"] by (simp add: f64_int)

lemma f64_of_int_nonneg: "0 \<le> n \<Longrightarrow> 0 \<le> f64_of_int n"
  by (simp add: f64_of_int_def f64_nonneg)

lemma int64_of_int: "int64_min \<le> n \<Longrightarrow> n \<le> int64_max \<Longrightarrow> int64_of_f64 (of_int n) = n"
  by (simp add: int64_of_f64_def toward_zero_def)

lemma int64_range: "int64_min \<le> int64_of_f64 x \<and> int64_of_f64 x \<le> int64_max"
  by (simp add: int64_of_f64_def int64_min_def int64_max_def)

lemma int64_floor: "0 \<le> x \<Longrightarrow> x < 2 ^ 63 \<Longrightarrow> int64_of_f64 x = \<lfloor>x\<rfloor>"
proof -
  assume x: "0 \<le> x" "x < 2 ^ 63"
  then have "0 \<le> \<lfloor>x\<rfloor>" "\<lfloor>x\<rfloor> < 2 ^ 63" by (simp_all add: floor_less_iff)
  with x show ?thesis by (simp add: int64_of_f64_def toward_zero_def int64_min_def int64_max_def)
qed

lemma int64_overflow: "2 ^ 63 \<le> x \<Longrightarrow> int64_of_f64 x = int64_min"
proof -
  assume "2 ^ 63 \<le> x"
  then have "of_int (2 ^ 63) \<le> x" by simp
  then have "2 ^ 63 \<le> \<lfloor>x\<rfloor>" by (simp only: le_floor_iff)
  with \<open>2 ^ 63 \<le> x\<close> show ?thesis by (simp add: int64_of_f64_def toward_zero_def int64_max_def)
qed

end
