(* ===== verification/Dispatcher.thy ===== *)
theory Dispatcher
  imports Outbox Float64 "HOL-Library.Signed_Division"
begin

text \<open>
  The outbox dispatcher (\<open>framework/event/outbox/dispatcher.go\<close>): it claims a batch, publishes each record through the
  broker from its own goroutine and settles it in the store.

  The store is a record of its methods over a state, the broker a function on a world of its own; both may fail, and the
  broker may panic. Everything a goroutine reads from outside - the error of the context, the time, the random sample of
  the jitter, whether it saw the cancellation before it got a slot - is in its \<open>proc_env\<close>. The interleaving of the
  goroutines is the schedule, a list of indices: at each of its turns a goroutine publishes, when a slot of the semaphore
  is free, or settles. \<open>RunOnce\<close> waits for all of them, so after the schedule the remaining ones run to their end
  (\<open>drain\<close>). The calls to the broker and to the observer are in the log of the world; an observer that panics is
  recovered and has no other effect.
\<close>

section \<open>Configuration\<close>

record DispatcherConfig =
  WorkerID :: string
  PollInterval :: int
  BatchSize :: int
  Concurrency :: int
  LeaseDuration :: int
  PublishTimeout :: int
  MaxAttempts :: int
  RetryBase :: int
  RetryMax :: int
  RetryJitter :: rat
  HealthFailureThreshold :: int

text \<open>64-bit two's complement arithmetic of \<open>int\<close> and \<open>time.Duration\<close>.\<close>

definition wrap64 :: "int \<Rightarrow> int" where
  "wrap64 n = (n + 2 ^ 63) mod 2 ^ 64 - 2 ^ 63"

definition or_positive :: "int \<Rightarrow> int \<Rightarrow> int" where
  "or_positive n d = (if n \<le> 0 then d else n)"

text \<open>The worker id made from the clock is the argument \<open>fresh\<close>.\<close>

definition normalizeDispatcherConfig :: "string \<Rightarrow> DispatcherConfig \<Rightarrow> DispatcherConfig" where
  "normalizeDispatcherConfig fresh c =
     (let base = or_positive (RetryBase c) second; mx = or_positive (RetryMax c) (300 * second) in
      c\<lparr>WorkerID := (if WorkerID c = [] then ''outbox-'' @ fresh else WorkerID c),
        PollInterval := or_positive (PollInterval c) 500000000,
        BatchSize := or_positive (BatchSize c) 50,
        Concurrency := or_positive (Concurrency c) 4,
        LeaseDuration := or_positive (LeaseDuration c) (30 * second),
        PublishTimeout := or_positive (PublishTimeout c) (10 * second),
        MaxAttempts := or_positive (MaxAttempts c) 8,
        RetryBase := base,
        RetryMax := (if mx < base then base else mx),
        RetryJitter := (if RetryJitter c < 0 then 0 else if 1 < RetryJitter c then 1 else RetryJitter c),
        HealthFailureThreshold := or_positive (HealthFailureThreshold c) 5\<rparr>)"

definition minimumLease :: "DispatcherConfig \<Rightarrow> int" where
  "minimumLease c = wrap64 (wrap64 (BatchSize c + Concurrency c - 1) sdiv Concurrency c * PublishTimeout c)"

definition validateDispatcherConfig :: "DispatcherConfig \<Rightarrow> goerr option" where
  "validateDispatcherConfig c =
     (if LeaseDuration c < minimumLease c
      then Some (Err ''outbox: lease duration %s is shorter than worst-case batch publish window %s'' [])
      else None)"

section \<open>Stores, brokers and the world\<close>

record 's OutboxStore =
  st_Claim :: "goerr option \<Rightarrow> ClaimOptions \<Rightarrow> 's \<Rightarrow> OutboxRecord list result \<times> 's"
  st_MarkPublished :: "goerr option \<Rightarrow> string \<Rightarrow> string \<Rightarrow> int \<Rightarrow> 's \<Rightarrow> goerr option \<times> 's"
  st_Retry :: "goerr option \<Rightarrow> string \<Rightarrow> string \<Rightarrow> int \<Rightarrow> goerr \<Rightarrow> 's \<Rightarrow> goerr option \<times> 's"
  st_DeadLetter :: "goerr option \<Rightarrow> string \<Rightarrow> string \<Rightarrow> goerr \<Rightarrow> 's \<Rightarrow> goerr option \<times> 's"
  st_Snapshot :: "goerr option \<Rightarrow> 's \<Rightarrow> Snapshot result"

type_synonym 'b publisher = "Envelope \<Rightarrow> 'b \<Rightarrow> (string, goerr option) outcome \<times> 'b"

datatype dispatch_event =
    Attempted Envelope "goerr option"
  | ObservedPublished OutboxRecord
  | ObservedRetried OutboxRecord goerr int
  | ObservedDeadLettered OutboxRecord goerr

record ('s, 'b) dispatch_world =
  dw_store :: 's
  dw_broker :: 'b
  dw_log :: "dispatch_event list"

definition dw_observe :: "dispatch_event \<Rightarrow> ('s, 'b) dispatch_world \<Rightarrow> ('s, 'b) dispatch_world" where
  "dw_observe ev w = w\<lparr>dw_log := dw_log w @ [ev]\<rparr>"

record proc_env =
  pe_cancelled :: "goerr option"
  pe_err :: "goerr option"
  pe_now :: int
  pe_sample :: rat

section \<open>Delivery of one record\<close>

definition backoff :: "DispatcherConfig \<Rightarrow> rat \<Rightarrow> int \<Rightarrow> int" where
  "backoff c sample attempt =
     (let attempt = (if attempt < 1 then 1 else attempt);
          exponent = (if 30 < attempt - 1 then 30 else attempt - 1);
          delay = int64_of_f64 (f64_mul (f64_of_int (RetryBase c)) (2 ^ nat exponent));
          delay = (if RetryMax c < delay then RetryMax c else delay)
      in if RetryJitter c \<le> 0 then delay
         else
           (let factor = f64_add (f64_sub 1 (RetryJitter c)) (f64_mul (f64_mul 2 (RetryJitter c)) sample);
                jittered = int64_of_f64 (f64_mul (f64_of_int delay) factor)
            in if jittered < 0 then 0 else if RetryMax c < jittered then RetryMax c else jittered))"

definition safePublish :: "'b publisher \<Rightarrow> Envelope \<Rightarrow> 'b \<Rightarrow> goerr option \<times> 'b" where
  "safePublish broker e b =
     (case broker e b of
        (Return err, b') \<Rightarrow> (err, b')
      | (Panic p, b') \<Rightarrow> (Some (Err ''outbox: broker panic: %v'' [p]), b'))"

definition ErrAttemptsExceeded :: goerr where
  "ErrAttemptsExceeded = Err ''outbox: maximum attempts exceeded before publish'' []"

text \<open>The envelope that is handed to the broker.\<close>

definition delivered :: "OutboxRecord \<Rightarrow> Envelope" where
  "delivered r = (ob_Envelope r)\<lparr>DeliveryAttempt := Attempts r\<rparr>"

text \<open>\<open>process\<close> up to the answer of the broker: \<^const>\<open>None\<close> when the attempts were used up before.\<close>

definition process_publish ::
  "DispatcherConfig \<Rightarrow> 'b publisher \<Rightarrow> OutboxRecord \<Rightarrow> ('s, 'b) dispatch_world \<Rightarrow> goerr option option \<times> ('s, 'b) dispatch_world" where
  "process_publish c broker r w =
     (if MaxAttempts c < Attempts r then (None, w)
      else (case safePublish broker (delivered r) (dw_broker w) of
              (err, b) \<Rightarrow> (Some err, dw_observe (Attempted (delivered r) err) (w\<lparr>dw_broker := b\<rparr>))))"

definition settle_with ::
  "goerr option \<times> 's \<Rightarrow> (goerr \<Rightarrow> goerr option) \<Rightarrow> dispatch_event \<Rightarrow> ('s, 'b) dispatch_world \<Rightarrow> goerr option \<times> ('s, 'b) dispatch_world" where
  "settle_with res wrap ev w =
     (case res of
        (Some e, s) \<Rightarrow> (wrap e, w\<lparr>dw_store := s\<rparr>)
      | (None, s) \<Rightarrow> (None, dw_observe ev (w\<lparr>dw_store := s\<rparr>)))"

definition process_settle ::
  "DispatcherConfig \<Rightarrow> 's OutboxStore \<Rightarrow> proc_env \<Rightarrow> OutboxRecord \<Rightarrow> goerr option option \<Rightarrow> ('s, 'b) dispatch_world \<Rightarrow>
     goerr option \<times> ('s, 'b) dispatch_world" where
  "process_settle c store env r stage w =
     (case stage of
        None \<Rightarrow> settle_with (st_DeadLetter store (pe_err env) (ob_ID r) (WorkerID c) ErrAttemptsExceeded (dw_store w)) Some
                  (ObservedDeadLettered r ErrAttemptsExceeded) w
      | Some None \<Rightarrow> settle_with (st_MarkPublished store (pe_err env) (ob_ID r) (WorkerID c) (pe_now env) (dw_store w)) Some
                  (ObservedPublished (r\<lparr>ob_Status := StatusPublished, PublishedAt := pe_now env\<rparr>)) w
      | Some (Some err) \<Rightarrow>
          if MaxAttempts c \<le> Attempts r then
            settle_with (st_DeadLetter store (pe_err env) (ob_ID r) (WorkerID c) err (dw_store w)) (\<lambda>e. err_join [Some err, Some e])
              (ObservedDeadLettered (r\<lparr>ob_Status := StatusDeadLetter\<rparr>) err) w
          else
            (let next = pe_now env + backoff c (pe_sample env) (Attempts r) in
             settle_with (st_Retry store (pe_err env) (ob_ID r) (WorkerID c) next err (dw_store w)) (\<lambda>e. err_join [Some err, Some e])
               (ObservedRetried (r\<lparr>ob_Status := StatusPending, NextAttemptAt := next\<rparr>) err next) w))"

definition process ::
  "DispatcherConfig \<Rightarrow> 's OutboxStore \<Rightarrow> 'b publisher \<Rightarrow> proc_env \<Rightarrow> OutboxRecord \<Rightarrow> ('s, 'b) dispatch_world \<Rightarrow>
     goerr option \<times> ('s, 'b) dispatch_world" where
  "process c store broker env r w =
     (case process_publish c broker r w of (stage, w') \<Rightarrow> process_settle c store env r stage w')"

section \<open>A round of the dispatcher\<close>

datatype task = Waiting | Publishing "goerr option option" | Finished "goerr option"

fun is_publishing :: "task \<Rightarrow> bool" where
  "is_publishing (Publishing stage) = True"
| "is_publishing _ = False"

record ('s, 'b) round =
  rd_tasks :: "task list"
  rd_errs :: "goerr list"
  rd_world :: "('s, 'b) dispatch_world"

definition finish_task :: "nat \<Rightarrow> goerr option \<times> ('s, 'b) dispatch_world \<Rightarrow> ('s, 'b) round \<Rightarrow> ('s, 'b) round" where
  "finish_task i res rd =
     rd\<lparr>rd_tasks := (rd_tasks rd)[i := Finished (fst res)],
        rd_errs := (case fst res of None \<Rightarrow> rd_errs rd | Some e \<Rightarrow> rd_errs rd @ [e]),
        rd_world := snd res\<rparr>"

definition start_task :: "nat \<Rightarrow> goerr option option \<times> ('s, 'b) dispatch_world \<Rightarrow> ('s, 'b) round \<Rightarrow> ('s, 'b) round" where
  "start_task i res rd = rd\<lparr>rd_tasks := (rd_tasks rd)[i := Publishing (fst res)], rd_world := snd res\<rparr>"

definition task_step ::
  "DispatcherConfig \<Rightarrow> 's OutboxStore \<Rightarrow> 'b publisher \<Rightarrow> (nat \<Rightarrow> proc_env) \<Rightarrow> OutboxRecord list \<Rightarrow> nat \<Rightarrow> ('s, 'b) round \<Rightarrow> ('s, 'b) round" where
  "task_step c store broker env records i rd =
     (if length records \<le> i then rd
      else case rd_tasks rd ! i of
        Finished err \<Rightarrow> rd
      | Publishing stage \<Rightarrow> finish_task i (process_settle c store (env i) (records ! i) stage (rd_world rd)) rd
      | Waiting \<Rightarrow>
          (case pe_cancelled (env i) of
             Some e \<Rightarrow> finish_task i (Some e, rd_world rd) rd
           | None \<Rightarrow>
               if Concurrency c \<le> int (length (filter is_publishing (rd_tasks rd))) then rd
               else start_task i (process_publish c broker (records ! i) (rd_world rd)) rd))"

text \<open>Two turns for everyone, twice: the first pass settles what is being published, the second one finds a free slot for
  the rest.\<close>

definition drain_pass :: "nat \<Rightarrow> nat list" where
  "drain_pass n = concat (map (\<lambda>i. [i, i]) [0..<n])"

definition drain :: "nat \<Rightarrow> nat list" where
  "drain n = drain_pass n @ drain_pass n"

definition join_all :: "goerr list \<Rightarrow> goerr option" where
  "join_all es = fold (\<lambda>e joined. err_join [joined, Some e]) es None"

definition claim_options :: "DispatcherConfig \<Rightarrow> int \<Rightarrow> ClaimOptions" where
  "claim_options c now = \<lparr>co_Owner = WorkerID c, co_Limit = BatchSize c, co_Lease = LeaseDuration c, co_Now = now\<rparr>"

definition run_records ::
  "DispatcherConfig \<Rightarrow> 's OutboxStore \<Rightarrow> 'b publisher \<Rightarrow> (nat \<Rightarrow> proc_env) \<Rightarrow> nat list \<Rightarrow> OutboxRecord list \<Rightarrow> ('s, 'b) dispatch_world \<Rightarrow>
     ('s, 'b) round" where
  "run_records c store broker env schedule records w =
     fold (task_step c store broker env records) (schedule @ drain (length records))
       \<lparr>rd_tasks = replicate (length records) Waiting, rd_errs = [], rd_world = w\<rparr>"

definition RunOnce ::
  "DispatcherConfig \<Rightarrow> 's OutboxStore \<Rightarrow> 'b publisher \<Rightarrow> goerr option \<Rightarrow> int \<Rightarrow> (nat \<Rightarrow> proc_env) \<Rightarrow> nat list \<Rightarrow> ('s, 'b) dispatch_world \<Rightarrow>
     goerr option \<times> ('s, 'b) dispatch_world" where
  "RunOnce c store broker ctxErr now env schedule w =
     (case ctxErr of
        Some e \<Rightarrow> (Some e, w)
      | None \<Rightarrow>
        (case st_Claim store None (claim_options c now) (dw_store w) of
           (Inl e, s) \<Rightarrow> (Some e, w\<lparr>dw_store := s\<rparr>)
         | (Inr records, s) \<Rightarrow>
             if records = [] then (None, w\<lparr>dw_store := s\<rparr>)
             else
               (let rd = run_records c store broker env schedule records (w\<lparr>dw_store := s\<rparr>) in
                (join_all (rd_errs rd), rd_world rd))))"

section \<open>The dispatcher and its health\<close>

record Dispatcher =
  d_config :: DispatcherConfig
  d_running :: bool
  d_failures :: int
  d_lastLoopErr :: "goerr option"

definition NewDispatcher :: "'s option \<Rightarrow> 'b option \<Rightarrow> string \<Rightarrow> DispatcherConfig \<Rightarrow> Dispatcher result" where
  "NewDispatcher store broker fresh config =
     (if store = None then Inl (Err ''outbox: store is required'' [])
      else if broker = None then Inl (Err ''outbox: broker is required'' [])
      else
        (let config = normalizeDispatcherConfig fresh config in
         case validateDispatcherConfig config of
           Some e \<Rightarrow> Inl e
         | None \<Rightarrow> Inr \<lparr>d_config = config, d_running = False, d_failures = 0, d_lastLoopErr = None\<rparr>))"

definition dispatcher_Start :: "Dispatcher option \<Rightarrow> goerr option \<times> Dispatcher option" where
  "dispatcher_Start d =
     (case d of
        None \<Rightarrow> (Some (Err ''outbox: dispatcher is nil'' []), None)
      | Some d \<Rightarrow> if d_running d then (None, Some d)
                 else (None, Some (d\<lparr>d_running := True, d_failures := 0, d_lastLoopErr := None\<rparr>)))"

text \<open>What \<open>Shutdown\<close> returns after it stopped a running dispatcher depends on which of the loop's end and the
  cancellation of its context comes first: the argument \<open>waited\<close>.\<close>

definition dispatcher_Shutdown :: "goerr option \<Rightarrow> Dispatcher option \<Rightarrow> goerr option \<times> Dispatcher option" where
  "dispatcher_Shutdown waited d =
     (case d of
        None \<Rightarrow> (None, None)
      | Some d \<Rightarrow> if \<not> d_running d then (None, Some d) else (waited, Some (d\<lparr>d_running := False\<rparr>)))"

definition dispatcher_Health :: "Dispatcher option \<Rightarrow> goerr option" where
  "dispatcher_Health d =
     (case d of
        None \<Rightarrow> Some (Err ''outbox: dispatcher is nil'' [])
      | Some d \<Rightarrow>
          if \<not> d_running d then Some (Err ''outbox: dispatcher not running'' [])
          else if HealthFailureThreshold (d_config d) \<le> d_failures d then
            Some (case d_lastLoopErr d of
                    Some e \<Rightarrow> Wrap ''outbox: dispatcher unhealthy after %d failures: %w'' [] e
                  | None \<Rightarrow> Err ''outbox: dispatcher unhealthy after %d failures: %w'' [])
          else None)"

definition recordLoop :: "goerr option \<Rightarrow> Dispatcher \<Rightarrow> Dispatcher" where
  "recordLoop err d =
     (case err of
        Some e \<Rightarrow> d\<lparr>d_failures := d_failures d + 1, d_lastLoopErr := Some e\<rparr>
      | None \<Rightarrow> d\<lparr>d_failures := 0, d_lastLoopErr := None\<rparr>)"

definition dispatcher_RunOnce ::
  "Dispatcher option \<Rightarrow> 's OutboxStore \<Rightarrow> 'b publisher \<Rightarrow> goerr option \<Rightarrow> int \<Rightarrow> (nat \<Rightarrow> proc_env) \<Rightarrow> nat list \<Rightarrow> ('s, 'b) dispatch_world \<Rightarrow>
     goerr option \<times> ('s, 'b) dispatch_world" where
  "dispatcher_RunOnce d store broker ctxErr now env schedule w =
     (case d of
        None \<Rightarrow> (Some (Err ''outbox: dispatcher is nil'' []), w)
      | Some d \<Rightarrow> RunOnce (d_config d) store broker ctxErr now env schedule w)"

text \<open>The loop: the rounds it makes before its context ends.\<close>

definition loop_round ::
  "'s OutboxStore \<Rightarrow> 'b publisher \<Rightarrow> goerr option \<times> int \<times> (nat \<Rightarrow> proc_env) \<times> nat list \<Rightarrow>
     Dispatcher \<times> ('s, 'b) dispatch_world \<Rightarrow> Dispatcher \<times> ('s, 'b) dispatch_world" where
  "loop_round store broker inp dw =
     (case (inp, dw) of ((ctxErr, now, env, schedule), (d, w)) \<Rightarrow>
        (case dispatcher_RunOnce (Some d) store broker ctxErr now env schedule w of (err, w') \<Rightarrow> (recordLoop err d, w')))"

definition loop ::
  "'s OutboxStore \<Rightarrow> 'b publisher \<Rightarrow> (goerr option \<times> int \<times> (nat \<Rightarrow> proc_env) \<times> nat list) list \<Rightarrow>
     Dispatcher \<times> ('s, 'b) dispatch_world \<Rightarrow> Dispatcher \<times> ('s, 'b) dispatch_world" where
  "loop store broker rounds = fold (loop_round store broker) rounds"

definition dispatcher_Snapshot :: "'s OutboxStore \<Rightarrow> goerr option \<Rightarrow> Dispatcher option \<Rightarrow> 's \<Rightarrow> Snapshot result" where
  "dispatcher_Snapshot store cerr d s =
     (case d of None \<Rightarrow> Inl (Err ''outbox: dispatcher is nil'' []) | Some _ \<Rightarrow> st_Snapshot store cerr s)"

section \<open>Every goroutine ends\<close>

lemma task_step_length [simp]: "length (rd_tasks (task_step c store broker env records i rd)) = length (rd_tasks rd)"
  by (simp add: task_step_def finish_task_def start_task_def split: task.split option.split)

lemma task_step_other: "j \<noteq> i \<Longrightarrow> rd_tasks (task_step c store broker env records i rd) ! j = rd_tasks rd ! j"
  by (simp add: task_step_def finish_task_def start_task_def split: task.split option.split)

lemma task_step_finished: "rd_tasks rd ! i = Finished err \<Longrightarrow> task_step c store broker env records i rd = rd"
  by (simp add: task_step_def)

lemma task_step_settles:
  "rd_tasks rd ! i = Publishing stage \<Longrightarrow> i < length records \<Longrightarrow> length (rd_tasks rd) = length records \<Longrightarrow>
     \<exists>err. rd_tasks (task_step c store broker env records i rd) ! i = Finished err"
  by (simp add: task_step_def finish_task_def)

lemma task_step_waiting:
  assumes "rd_tasks rd ! i = Waiting" "i < length records" "length (rd_tasks rd) = length records"
  shows "(\<exists>err. rd_tasks (task_step c store broker env records i rd) ! i = Finished err) \<or>
    (\<exists>stage. rd_tasks (task_step c store broker env records i rd) ! i = Publishing stage) \<or>
    task_step c store broker env records i rd = rd \<and> filter is_publishing (rd_tasks rd) \<noteq> [] \<or> Concurrency c \<le> 0"
  using assms by (auto simp: task_step_def finish_task_def start_task_def split: option.split)

definition turns :: "DispatcherConfig \<Rightarrow> 's OutboxStore \<Rightarrow> 'b publisher \<Rightarrow> (nat \<Rightarrow> proc_env) \<Rightarrow> OutboxRecord list \<Rightarrow> nat \<Rightarrow>
    ('s, 'b) round \<Rightarrow> ('s, 'b) round" where
  "turns c store broker env records i rd = task_step c store broker env records i (task_step c store broker env records i rd)"

lemma turns_length [simp]: "length (rd_tasks (turns c store broker env records i rd)) = length (rd_tasks rd)"
  by (simp add: turns_def)

lemma turns_other: "j \<noteq> i \<Longrightarrow> rd_tasks (turns c store broker env records i rd) ! j = rd_tasks rd ! j"
  by (simp add: turns_def task_step_other)

lemma turns_end:
  assumes "i < length records" "length (rd_tasks rd) = length records" "0 < Concurrency c"
  shows "(\<exists>err. rd_tasks (turns c store broker env records i rd) ! i = Finished err) \<or>
    rd_tasks (turns c store broker env records i rd) ! i = Waiting \<and> filter is_publishing (rd_tasks rd) \<noteq> []"
proof (cases "rd_tasks rd ! i")
  case Waiting
  let ?rd = "task_step c store broker env records i rd"
  from task_step_waiting [OF Waiting assms(1,2), of c store broker env] assms(3) consider
    (fin) err where "rd_tasks ?rd ! i = Finished err" | (pub) stage where "rd_tasks ?rd ! i = Publishing stage"
    | (blocked) "?rd = rd" "filter is_publishing (rd_tasks rd) \<noteq> []" by auto
  then show ?thesis
  proof cases
    case fin then show ?thesis by (simp add: turns_def task_step_finished)
  next
    case pub then show ?thesis using task_step_settles [OF pub assms(1)] assms(2) by (simp add: turns_def)
  next
    case blocked then show ?thesis using Waiting by (simp add: turns_def)
  qed
next
  case (Publishing stage)
  from task_step_settles [OF this assms(1,2), of c store broker env] obtain err where
    "rd_tasks (task_step c store broker env records i rd) ! i = Finished err" by blast
  then show ?thesis by (simp add: turns_def task_step_finished)
next
  case (Finished err) then show ?thesis by (simp add: turns_def task_step_finished)
qed

lemma fold_drain_pass:
  "fold (task_step c store broker env records) (drain_pass n) rd = fold (turns c store broker env records) [0..<n] rd"
  by (induction n arbitrary: rd) (simp_all add: drain_pass_def turns_def)

lemma drain_pass_idle:
  fixes store :: "'s OutboxStore" and broker :: "'b publisher" and env :: "nat \<Rightarrow> proc_env" and rd :: "('s, 'b) round"
  assumes "length (rd_tasks rd) = length records" "0 < Concurrency c" "m \<le> length records"
  defines "rd' \<equiv> fold (turns c store broker env records) [0..<m] rd"
  shows "length (rd_tasks rd') = length records \<and> (\<forall>i < m. \<not> is_publishing (rd_tasks rd' ! i))"
  using assms(3) unfolding rd'_def
proof (induction m)
  case (Suc m)
  let ?rd = "fold (turns c store broker env records) [0..<m] rd"
  from Suc have IH: "length (rd_tasks ?rd) = length records" "\<forall>i < m. \<not> is_publishing (rd_tasks ?rd ! i)" by simp_all
  have "\<not> is_publishing (rd_tasks (turns c store broker env records m ?rd) ! m)"
    using turns_end [of m records ?rd c store broker env] IH(1) assms(2) Suc.prems by auto
  then show ?case using IH by (auto simp: less_Suc_eq turns_other)
qed (use assms(1) in simp)

lemma no_publishing: "\<forall>i < length ts. \<not> is_publishing (ts ! i) \<Longrightarrow> filter is_publishing ts = []"
  by (auto simp: filter_empty_conv in_set_conv_nth)

lemma drain_pass_finishes:
  fixes store :: "'s OutboxStore" and broker :: "'b publisher" and env :: "nat \<Rightarrow> proc_env" and rd :: "('s, 'b) round"
  assumes "length (rd_tasks rd) = length records" "0 < Concurrency c" "m \<le> length records"
    and idle: "\<forall>i < length records. \<not> is_publishing (rd_tasks rd ! i)"
  defines "rd' \<equiv> fold (turns c store broker env records) [0..<m] rd"
  shows "length (rd_tasks rd') = length records \<and> (\<forall>i < length records. \<not> is_publishing (rd_tasks rd' ! i)) \<and>
    (\<forall>i < m. \<exists>err. rd_tasks rd' ! i = Finished err)"
  using assms(3) unfolding rd'_def
proof (induction m)
  case (Suc m)
  let ?rd = "fold (turns c store broker env records) [0..<m] rd"
  from Suc have IH: "length (rd_tasks ?rd) = length records" "\<forall>i < length records. \<not> is_publishing (rd_tasks ?rd ! i)"
    "\<forall>i < m. \<exists>err. rd_tasks ?rd ! i = Finished err" by simp_all
  from IH(1,2) have "filter is_publishing (rd_tasks ?rd) = []" by (intro no_publishing) simp
  with turns_end [of m records ?rd c store broker env] IH(1) assms(2) Suc.prems obtain err where
    e: "rd_tasks (turns c store broker env records m ?rd) ! m = Finished err" by auto
  have "\<not> is_publishing (rd_tasks (turns c store broker env records m ?rd) ! i)" if "i < length records" for i
    using e IH(2) that by (cases "i = m") (simp_all add: turns_other)
  moreover have "\<exists>err. rd_tasks (turns c store broker env records m ?rd) ! i = Finished err" if "i < Suc m" for i
    using e IH(3) that by (cases "i = m") (simp_all add: turns_other)
  ultimately show ?case using IH(1) by simp
qed (use assms in simp)

lemma fold_length: "length (rd_tasks (fold (task_step c store broker env records) is rd)) = length (rd_tasks rd)"
  by (induction "is" arbitrary: rd) simp_all

lemma run_records_finished:
  assumes "0 < Concurrency c"
  shows "\<forall>i < length records. \<exists>err. rd_tasks (run_records c store broker env schedule records w) ! i = Finished err"
proof -
  let ?rd = "fold (task_step c store broker env records) schedule
    \<lparr>rd_tasks = replicate (length records) Waiting, rd_errs = [], rd_world = w\<rparr>"
  let ?rd' = "fold (turns c store broker env records) [0..<length records] ?rd"
  have "length (rd_tasks ?rd) = length records" by (simp add: fold_length)
  from drain_pass_idle [OF this assms order_refl, of store broker env]
  have "length (rd_tasks ?rd') = length records" "\<forall>i < length records. \<not> is_publishing (rd_tasks ?rd' ! i)" by simp_all
  from drain_pass_finishes [OF this(1) assms order_refl this(2), of store broker env] show ?thesis
    by (simp add: run_records_def drain_def fold_drain_pass)
qed

section \<open>What a round may do to a record\<close>

text \<open>The ways a claimed record can leave a round, each with the answer of the broker that justifies it.\<close>

definition settled :: "DispatcherConfig \<Rightarrow> dispatch_event list \<Rightarrow> OutboxRecord \<Rightarrow> OutboxRecord \<Rightarrow> bool" where
  "settled c seen r r' \<longleftrightarrow>
     (\<exists>t. r' = published_record t r \<and> Attempted (delivered r) None \<in> set seen) \<or>
     (\<exists>next cause now e. r' = retried_record next cause now r \<and> Attempts r < MaxAttempts c \<and> Attempted (delivered r) (Some e) \<in> set seen) \<or>
     (\<exists>cause now. r' = dead_record cause now r \<and>
        (MaxAttempts c < Attempts r \<or> Attempts r = MaxAttempts c \<and> (\<exists>e. Attempted (delivered r) (Some e) \<in> set seen)))"

definition stage_ok :: "DispatcherConfig \<Rightarrow> dispatch_event list \<Rightarrow> OutboxRecord \<Rightarrow> goerr option option \<Rightarrow> bool" where
  "stage_ok c seen r stage \<longleftrightarrow>
     (case stage of None \<Rightarrow> MaxAttempts c < Attempts r | Some err \<Rightarrow> Attempts r \<le> MaxAttempts c \<and> Attempted (delivered r) err \<in> set seen)"

definition task_ok :: "DispatcherConfig \<Rightarrow> dispatch_event list \<Rightarrow> OutboxRecord option \<Rightarrow> OutboxRecord \<Rightarrow> task \<Rightarrow> bool" where
  "task_ok c seen found r t \<longleftrightarrow>
     (case t of
        Waiting \<Rightarrow> found = Some r
      | Publishing stage \<Rightarrow> found = Some r \<and> stage_ok c seen r stage
      | Finished (Some e) \<Rightarrow> found = Some r
      | Finished None \<Rightarrow> LeaseOwner r = WorkerID c \<and> (\<exists>r'. found = Some r' \<and> settled c seen r r'))"

definition settled_in ::
  "DispatcherConfig \<Rightarrow> dispatch_event list \<Rightarrow> OutboxRecord \<Rightarrow> (string \<Rightarrow> OutboxRecord option) \<Rightarrow> (string \<Rightarrow> OutboxRecord option) \<Rightarrow> bool" where
  "settled_in c seen r before after \<longleftrightarrow>
     LeaseOwner r = WorkerID c \<and> (\<exists>r'. settled c seen r r' \<and> after = before(ob_ID r \<mapsto> r'))"

lemma settled_mono: "settled c seen r r' \<Longrightarrow> settled c (seen @ evs) r r'"
  unfolding settled_def by auto

lemma stage_ok_mono: "stage_ok c seen r stage \<Longrightarrow> stage_ok c (seen @ evs) r stage"
  by (auto simp: stage_ok_def split: option.splits)

lemma task_ok_mono: "task_ok c seen found r t \<Longrightarrow> task_ok c (seen @ evs) found r t"
  by (auto simp: task_ok_def split: task.splits option.splits intro: settled_mono stage_ok_mono)

text \<open>The invariant of a round: each goroutine is in step with the store and with the calls made so far.\<close>

definition round_ok ::
  "('s \<Rightarrow> string \<Rightarrow> OutboxRecord option) \<Rightarrow> ('s \<Rightarrow> bool) \<Rightarrow> DispatcherConfig \<Rightarrow> dispatch_event list \<Rightarrow>
     (string \<Rightarrow> OutboxRecord option) \<Rightarrow> OutboxRecord list \<Rightarrow> ('s, 'b) round \<Rightarrow> bool" where
  "round_ok lookup invar c base before rs rd \<longleftrightarrow>
     length (rd_tasks rd) = length rs \<and> invar (dw_store (rd_world rd)) \<and>
     (\<forall>k. k \<notin> ob_ID ` set rs \<longrightarrow> lookup (dw_store (rd_world rd)) k = before k) \<and>
     (\<exists>new. dw_log (rd_world rd) = base @ new \<and>
        (\<forall>i < length rs. task_ok c new (lookup (dw_store (rd_world rd)) (ob_ID (rs ! i))) (rs ! i) (rd_tasks rd ! i)))"

text \<open>A round in which nothing has failed to settle.\<close>

definition round_fine :: "nat \<Rightarrow> ('s, 'b) round \<Rightarrow> bool" where
  "round_fine n rd \<longleftrightarrow> rd_errs rd = [] \<and> (\<forall>i < n. \<forall>e. rd_tasks rd ! i \<noteq> Finished (Some e))"

lemma round_ok_update:
  assumes ok: "round_ok lookup invar c base before rs rd" and i: "i < length rs" and dist: "distinct (map ob_ID rs)"
    and log: "dw_log w = dw_log (rd_world rd) @ evs" and inv: "invar (dw_store w)"
    and other: "\<And>k. k \<noteq> ob_ID (rs ! i) \<Longrightarrow> lookup (dw_store w) k = lookup (dw_store (rd_world rd)) k"
    and task: "\<And>new. dw_log (rd_world rd) = base @ new \<Longrightarrow> task_ok c (new @ evs) (lookup (dw_store w) (ob_ID (rs ! i))) (rs ! i) t"
    and rd': "rd_tasks rd' = (rd_tasks rd)[i := t]" "rd_world rd' = w"
  shows "round_ok lookup invar c base before rs rd'"
proof -
  from ok obtain new where len: "length (rd_tasks rd) = length rs" and new: "dw_log (rd_world rd) = base @ new"
    and ts: "\<forall>j < length rs. task_ok c new (lookup (dw_store (rd_world rd)) (ob_ID (rs ! j))) (rs ! j) (rd_tasks rd ! j)"
    and out: "\<forall>k. k \<notin> ob_ID ` set rs \<longrightarrow> lookup (dw_store (rd_world rd)) k = before k"
    unfolding round_ok_def by blast
  have ids: "ob_ID (rs ! j) \<noteq> ob_ID (rs ! i)" if "j < length rs" "j \<noteq> i" for j
    using dist i that by (metis length_map nth_eq_iff_index_eq nth_map)
  have "task_ok c (new @ evs) (lookup (dw_store w) (ob_ID (rs ! j))) (rs ! j) ((rd_tasks rd)[i := t] ! j)" if j: "j < length rs" for j
  proof (cases "j = i")
    case False
    then show ?thesis using other [OF ids [OF j False]] task_ok_mono ts j len i by simp
  qed (use task [OF new] len i in simp)
  moreover have "lookup (dw_store w) k = before k" if "k \<notin> ob_ID ` set rs" for k
    using that out i other [of k] by (metis image_eqI nth_mem)
  ultimately show ?thesis unfolding round_ok_def rd' using len log new inv by auto
qed

text \<open>The contract of a store with the dispatcher. A failed call changes nothing; a claim returns records as it stored
  them, each once and under the trimmed name of the worker; a transition replaces the record of its key; and the owner of
  an in-flight record can settle it.\<close>

locale outbox_store =
  fixes store :: "'s OutboxStore"
    and lookup :: "'s \<Rightarrow> string \<Rightarrow> OutboxRecord option"
    and invar :: "'s \<Rightarrow> bool"
  assumes claim_error: "st_Claim store cerr o' s = (Inl e, s') \<Longrightarrow> s' = s"
    and claim_inv: "invar s \<Longrightarrow> st_Claim store cerr o' s = (Inr rs, s') \<Longrightarrow> invar s'"
    and claim_distinct: "invar s \<Longrightarrow> st_Claim store cerr o' s = (Inr rs, s') \<Longrightarrow> distinct (map ob_ID rs)"
    and claim_stored: "invar s \<Longrightarrow> st_Claim store cerr o' s = (Inr rs, s') \<Longrightarrow> r \<in> set rs \<Longrightarrow>
      lookup s' (ob_ID r) = Some r \<and> ob_Status r = StatusInFlight \<and> LeaseOwner r = trim_space (co_Owner o')"
    and claim_others: "invar s \<Longrightarrow> st_Claim store cerr o' s = (Inr rs, s') \<Longrightarrow> k \<notin> ob_ID ` set rs \<Longrightarrow> lookup s' k = lookup s k"
    and mark_error: "st_MarkPublished store cerr k w t s = (Some e, s') \<Longrightarrow> s' = s"
    and mark_done: "invar s \<Longrightarrow> st_MarkPublished store cerr k w t s = (None, s') \<Longrightarrow> invar s' \<and> (\<exists>r t'. lookup s k = Some r \<and>
      LeaseOwner r = w \<and> lookup s' = (lookup s)(k \<mapsto> published_record t' r))"
    and retry_error: "st_Retry store cerr k w next cause s = (Some e, s') \<Longrightarrow> s' = s"
    and retry_done: "invar s \<Longrightarrow> st_Retry store cerr k w next cause s = (None, s') \<Longrightarrow> invar s' \<and> (\<exists>r next' ct now. lookup s k = Some r \<and>
      LeaseOwner r = w \<and> lookup s' = (lookup s)(k \<mapsto> retried_record next' ct now r))"
    and dead_error: "st_DeadLetter store cerr k w cause s = (Some e, s') \<Longrightarrow> s' = s"
    and dead_done: "invar s \<Longrightarrow> st_DeadLetter store cerr k w cause s = (None, s') \<Longrightarrow> invar s' \<and> (\<exists>r ct now. lookup s k = Some r \<and>
      LeaseOwner r = w \<and> lookup s' = (lookup s)(k \<mapsto> dead_record ct now r))"
    and owner_settles: "invar s \<Longrightarrow> lookup s k = Some r \<Longrightarrow> ob_Status r = StatusInFlight \<Longrightarrow> LeaseOwner r = w \<Longrightarrow> trim_space w \<noteq> [] \<Longrightarrow>
      fst (st_MarkPublished store None k w t s) = None \<and> fst (st_Retry store None k w next cause s) = None \<and>
      fst (st_DeadLetter store None k w cause s) = None"
begin

lemma settle_with_ok:
  assumes "invar (dw_store w)" and call: "case fst call of Some e \<Rightarrow> snd call = dw_store w
      | None \<Rightarrow> invar (snd call) \<and> settled_in c seen r (lookup (dw_store w)) (lookup (snd call))"
    and wrap: "\<And>e. wrap e \<noteq> None" and run: "settle_with call wrap ev w = (res, w')"
  shows "(\<exists>evs. dw_log w' = dw_log w @ evs) \<and> invar (dw_store w') \<and>
    (case res of Some e \<Rightarrow> dw_store w' = dw_store w
     | None \<Rightarrow> settled_in c seen r (lookup (dw_store w)) (lookup (dw_store w')))"
proof (cases "fst call")
  case None
  with assms show ?thesis by (cases call) (auto simp: settle_with_def dw_observe_def)
next
  case (Some e)
  obtain y where "wrap e = Some y" using wrap [of e] by blast
  with assms(1,2,4) Some show ?thesis by (cases call) (auto simp: settle_with_def split: option.split)
qed

text \<open>What one settling call does to the record it is about.\<close>

lemma dead_call:
  fixes cerr :: "goerr option" and cause :: goerr
  assumes "invar s" "lookup s (ob_ID r) = Some r"
    and "MaxAttempts c < Attempts r \<or> Attempts r = MaxAttempts c \<and> Attempted (delivered r) (Some e) \<in> set seen"
  defines "call \<equiv> st_DeadLetter store cerr (ob_ID r) (WorkerID c) cause s"
  shows "case fst call of Some e \<Rightarrow> snd call = s
    | None \<Rightarrow> invar (snd call) \<and> settled_in c seen r (lookup s) (lookup (snd call))"
proof (cases "fst call")
  case None
  from dead_done [OF assms(1), of cerr "ob_ID r" "WorkerID c" cause "snd call"] None obtain ct tm where
    d: "invar (snd call)" "LeaseOwner r = WorkerID c" "lookup (snd call) = (lookup s)(ob_ID r \<mapsto> dead_record ct tm r)"
    using assms(2) by (auto simp: call_def prod_eq_iff)
  moreover have "settled c seen r (dead_record ct tm r)" using assms(3) unfolding settled_def by blast
  ultimately show ?thesis unfolding None option.case settled_in_def by blast
next
  case (Some e')
  with dead_error [of cerr "ob_ID r" "WorkerID c" cause s e' "snd call"] show ?thesis by (simp add: call_def prod_eq_iff)
qed

lemma mark_call:
  fixes cerr :: "goerr option" and t :: int and c :: DispatcherConfig
  assumes "invar s" "lookup s (ob_ID r) = Some r" "Attempted (delivered r) None \<in> set seen"
  defines "call \<equiv> st_MarkPublished store cerr (ob_ID r) (WorkerID c) t s"
  shows "case fst call of Some e \<Rightarrow> snd call = s
    | None \<Rightarrow> invar (snd call) \<and> settled_in c seen r (lookup s) (lookup (snd call))"
proof (cases "fst call")
  case None
  from mark_done [OF assms(1), of cerr "ob_ID r" "WorkerID c" t "snd call"] None obtain t' where
    d: "invar (snd call)" "LeaseOwner r = WorkerID c" "lookup (snd call) = (lookup s)(ob_ID r \<mapsto> published_record t' r)"
    using assms(2) by (auto simp: call_def prod_eq_iff)
  moreover have "settled c seen r (published_record t' r)" using assms(3) unfolding settled_def by blast
  ultimately show ?thesis unfolding None option.case settled_in_def by blast
next
  case (Some e')
  with mark_error [of cerr "ob_ID r" "WorkerID c" t s e' "snd call"] show ?thesis by (simp add: call_def prod_eq_iff)
qed

lemma retry_call:
  fixes cerr :: "goerr option" and "next" :: int and cause :: goerr
  assumes "invar s" "lookup s (ob_ID r) = Some r" "Attempts r < MaxAttempts c" "Attempted (delivered r) (Some e) \<in> set seen"
  defines "call \<equiv> st_Retry store cerr (ob_ID r) (WorkerID c) next cause s"
  shows "case fst call of Some e \<Rightarrow> snd call = s
    | None \<Rightarrow> invar (snd call) \<and> settled_in c seen r (lookup s) (lookup (snd call))"
proof (cases "fst call")
  case None
  from retry_done [OF assms(1), of cerr "ob_ID r" "WorkerID c" "next" cause "snd call"] None obtain n' ct tm where
    d: "invar (snd call)" "LeaseOwner r = WorkerID c" "lookup (snd call) = (lookup s)(ob_ID r \<mapsto> retried_record n' ct tm r)"
    using assms(2) by (auto simp: call_def prod_eq_iff)
  moreover have "settled c seen r (retried_record n' ct tm r)" using assms(3,4) unfolding settled_def by blast
  ultimately show ?thesis unfolding None option.case settled_in_def by blast
next
  case (Some e')
  with retry_error [of cerr "ob_ID r" "WorkerID c" "next" cause s e' "snd call"] show ?thesis by (simp add: call_def prod_eq_iff)
qed

lemma settle_ok:
  assumes inv: "invar (dw_store w)" and found: "lookup (dw_store w) (ob_ID r) = Some r" and stage: "stage_ok c seen r stage"
    and run: "process_settle c store env r stage w = (res, w')"
  shows "(\<exists>evs. dw_log w' = dw_log w @ evs) \<and> invar (dw_store w') \<and>
    (case res of Some e \<Rightarrow> dw_store w' = dw_store w
     | None \<Rightarrow> settled_in c seen r (lookup (dw_store w)) (lookup (dw_store w')))"
proof -
  have join: "err_join [Some a, Some b] \<noteq> None" for a b by (simp add: err_join_def)
  consider (exceeded) "stage = None" | (accepted) "stage = Some None"
    | (last) err where "stage = Some (Some err)" "MaxAttempts c \<le> Attempts r"
    | (again) err where "stage = Some (Some err)" "\<not> MaxAttempts c \<le> Attempts r" by (metis not_None_eq)
  then show ?thesis
  proof cases
    case exceeded
    with stage have "MaxAttempts c < Attempts r" by (simp add: stage_ok_def)
    then show ?thesis using run unfolding process_settle_def exceeded option.case
      by (intro settle_with_ok [OF inv dead_call [OF inv found]]) auto
  next
    case accepted
    with stage have "Attempted (delivered r) None \<in> set seen" by (simp add: stage_ok_def)
    then show ?thesis using run unfolding process_settle_def accepted option.case
      by (intro settle_with_ok [OF inv mark_call [OF inv found]]) auto
  next
    case last
    with stage have "Attempts r = MaxAttempts c \<and> Attempted (delivered r) (Some err) \<in> set seen" by (simp add: stage_ok_def)
    then show ?thesis using run last(2) unfolding process_settle_def last(1) option.case
      by (intro settle_with_ok [OF inv dead_call [OF inv found]]) (auto simp: join)
  next
    case again
    with stage have "Attempts r < MaxAttempts c" "Attempted (delivered r) (Some err) \<in> set seen" by (simp_all add: stage_ok_def)
    then show ?thesis using run again(2) unfolding process_settle_def again(1) option.case
      by (intro settle_with_ok [OF inv retry_call [OF inv found]]) (auto simp: join Let_def)
  qed
qed

lemma task_step_ok:
  assumes ok: "round_ok lookup invar c base before rs rd" and dist: "distinct (map ob_ID rs)"
  shows "round_ok lookup invar c base before rs (task_step c store broker env rs i rd)"
proof (cases "length rs \<le> i")
  case False
  then have i: "i < length rs" by simp
  let ?w = "rd_world rd" and ?r = "rs ! i"
  obtain new where new: "dw_log ?w = base @ new" and inv: "invar (dw_store ?w)"
    and t: "task_ok c new (lookup (dw_store ?w) (ob_ID ?r)) ?r (rd_tasks rd ! i)" using ok i unfolding round_ok_def by blast
  show ?thesis
  proof (cases "rd_tasks rd ! i")
    case Waiting
    with t have found: "lookup (dw_store ?w) (ob_ID ?r) = Some ?r" by (simp add: task_ok_def)
    show ?thesis
    proof (cases "pe_cancelled (env i)")
      case (Some e)
      then have "task_step c store broker env rs i rd = finish_task i (Some e, ?w) rd" using i Waiting by (simp add: task_step_def)
      then show ?thesis using found inv
        by (intro round_ok_update [OF ok i dist, of ?w "[]" "Finished (Some e)"]) (simp_all add: finish_task_def task_ok_def)
    next
      case None
      obtain stage w where p: "process_publish c broker ?r ?w = (stage, w)" by fastforce
      then have st: "dw_store w = dw_store ?w" and l: "\<exists>evs. dw_log w = dw_log ?w @ evs \<and> stage_ok c (new @ evs) ?r stage"
        by (auto simp: process_publish_def dw_observe_def stage_ok_def split: if_splits prod.splits)
      obtain evs where evs: "dw_log w = dw_log ?w @ evs" "stage_ok c (new @ evs) ?r stage" using l by blast
      have "round_ok lookup invar c base before rs (start_task i (stage, w) rd)"
        by (rule round_ok_update [OF ok i dist evs(1), of "Publishing stage"])
           (use st inv found evs new in \<open>auto simp: start_task_def task_ok_def\<close>)
      then show ?thesis using ok i Waiting None p by (simp add: task_step_def)
    qed
  next
    case (Publishing stage)
    with t have found: "lookup (dw_store ?w) (ob_ID ?r) = Some ?r" and stg: "stage_ok c new ?r stage" by (simp_all add: task_ok_def)
    obtain res w where p: "process_settle c store (env i) ?r stage ?w = (res, w)" by fastforce
    from settle_ok [OF inv found stg p] obtain evs where evs: "dw_log w = dw_log ?w @ evs" and inv': "invar (dw_store w)"
      and res: "case res of Some e \<Rightarrow> dw_store w = dw_store ?w | None \<Rightarrow> settled_in c new ?r (lookup (dw_store ?w)) (lookup (dw_store w))" by blast
    have "round_ok lookup invar c base before rs (finish_task i (res, w) rd)"
      by (rule round_ok_update [OF ok i dist evs inv', of "Finished res"])
         (use res found new in \<open>auto simp: finish_task_def task_ok_def settled_in_def settled_mono split: option.splits\<close>)
    then show ?thesis using i Publishing p by (simp add: task_step_def)
  next
    case (Finished err)
    with ok show ?thesis by (simp add: task_step_finished)
  qed
qed (use ok in \<open>simp add: task_step_def\<close>)

lemma run_records_ok:
  assumes inv: "invar (dw_store w)" and rs: "\<forall>r \<in> set rs. lookup (dw_store w) (ob_ID r) = Some r" and dist: "distinct (map ob_ID rs)"
  shows "round_ok lookup invar c (dw_log w) (lookup (dw_store w)) rs (run_records c store broker env schedule rs w)"
proof -
  have "round_ok lookup invar c (dw_log w) (lookup (dw_store w)) rs rd \<Longrightarrow>
      round_ok lookup invar c (dw_log w) (lookup (dw_store w)) rs (fold (task_step c store broker env rs) is rd)" for "is" rd
    by (induction "is" arbitrary: rd) (simp_all add: task_step_ok [OF _ dist])
  moreover have "round_ok lookup invar c (dw_log w) (lookup (dw_store w)) rs
      \<lparr>rd_tasks = replicate (length rs) Waiting, rd_errs = [], rd_world = w\<rparr>"
    using inv rs by (simp add: round_ok_def task_ok_def)
  ultimately show ?thesis unfolding run_records_def by blast
qed

text \<open>What a round did to the records it claimed and to all others.\<close>

lemma RunOnce_outcome:
  assumes inv: "invar (dw_store w)" and conc: "0 < Concurrency c"
    and claim: "st_Claim store None (claim_options c now) (dw_store w) = (Inr rs, s1)"
    and run: "RunOnce c store broker None now env schedule w = (res, w')"
  shows "\<exists>new. dw_log w' = dw_log w @ new \<and> invar (dw_store w') \<and>
    (\<forall>k. k \<notin> ob_ID ` set rs \<longrightarrow> lookup (dw_store w') k = lookup (dw_store w) k) \<and>
    (\<forall>r \<in> set rs. lookup (dw_store w') (ob_ID r) = Some r \<or>
       LeaseOwner r = WorkerID c \<and> (\<exists>r'. lookup (dw_store w') (ob_ID r) = Some r' \<and> settled c new r r'))"
proof (cases "rs = []")
  case True
  with run claim inv claim_inv [OF inv claim] claim_others [OF inv claim] show ?thesis by (auto simp: RunOnce_def)
next
  case False
  let ?rd = "run_records c store broker env schedule rs (w\<lparr>dw_store := s1\<rparr>)"
  have w': "w' = rd_world ?rd" using run claim False by (simp add: RunOnce_def Let_def)
  have "round_ok lookup invar c (dw_log w) (lookup s1) rs ?rd"
    using run_records_ok [of "w\<lparr>dw_store := s1\<rparr>" rs] claim_inv [OF inv claim] claim_stored [OF inv claim] claim_distinct [OF inv claim] by simp
  then obtain new where new: "dw_log w' = dw_log w @ new" "invar (dw_store w')"
    and out: "\<forall>k. k \<notin> ob_ID ` set rs \<longrightarrow> lookup (dw_store w') k = lookup s1 k"
    and ts: "\<forall>i < length rs. task_ok c new (lookup (dw_store w') (ob_ID (rs ! i))) (rs ! i) (rd_tasks ?rd ! i)"
    unfolding round_ok_def w' by auto
  have "lookup (dw_store w') (ob_ID r) = Some r \<or>
      LeaseOwner r = WorkerID c \<and> (\<exists>r'. lookup (dw_store w') (ob_ID r) = Some r' \<and> settled c new r r')" if "r \<in> set rs" for r
  proof -
    from that obtain i where i: "i < length rs" "rs ! i = r" by (auto simp: in_set_conv_nth)
    obtain err where "rd_tasks ?rd ! i = Finished err" using run_records_finished [OF conc] i(1) by blast
    with ts i show ?thesis by (cases err) (auto simp: task_ok_def)
  qed
  with new out claim_others [OF inv claim] show ?thesis by auto
qed

lemma settle_fine:
  assumes "invar (dw_store w)" "lookup (dw_store w) (ob_ID r) = Some r" "ob_Status r = StatusInFlight" "LeaseOwner r = WorkerID c"
    "trim_space (WorkerID c) \<noteq> []" "pe_err env = None"
  shows "fst (process_settle c store env r stage w) = None"
proof -
  note o = owner_settles [OF assms(1-5)]
  have s: "fst call = None \<Longrightarrow> fst (settle_with call wrap ev w) = None" for call wrap ev
    by (cases call) (simp add: settle_with_def)
  show ?thesis using o assms(6) by (auto simp: process_settle_def Let_def split: option.split intro!: s)
qed

lemma task_step_fine:
  assumes fine: "round_fine (length rs) rd" and ok: "round_ok lookup invar c base before rs rd"
    and held: "\<And>r. r \<in> set rs \<Longrightarrow> ob_Status r = StatusInFlight \<and> LeaseOwner r = WorkerID c"
    and env: "\<And>i. pe_cancelled (env i) = None \<and> pe_err (env i) = None" and worker: "trim_space (WorkerID c) \<noteq> []"
  shows "round_fine (length rs) (task_step c store broker env rs i rd)"
proof (cases "length rs \<le> i \<or> (\<exists>err. rd_tasks rd ! i = Finished err)")
  case False
  then have i: "i < length rs" by simp
  have len: "length (rd_tasks rd) = length rs" using ok by (simp add: round_ok_def)
  show ?thesis
  proof (cases "rd_tasks rd ! i")
    case Waiting
    with fine i len env [of i] show ?thesis by (auto simp: task_step_def start_task_def round_fine_def nth_list_update)
  next
    case (Publishing stage)
    have "invar (dw_store (rd_world rd)) \<and> lookup (dw_store (rd_world rd)) (ob_ID (rs ! i)) = Some (rs ! i)"
      using ok i Publishing by (auto simp: round_ok_def task_ok_def)
    then have "fst (process_settle c store (env i) (rs ! i) stage (rd_world rd)) = None"
      using held [of "rs ! i"] i env [of i] worker by (intro settle_fine) auto
    with Publishing fine i len show ?thesis by (auto simp: task_step_def finish_task_def round_fine_def nth_list_update)
  qed (use False in auto)
qed (use fine in \<open>auto simp: task_step_def\<close>)

lemma run_records_fine:
  assumes inv: "invar (dw_store w)" and rs: "\<And>r. r \<in> set rs \<Longrightarrow> lookup (dw_store w) (ob_ID r) = Some r" and dist: "distinct (map ob_ID rs)"
    and held: "\<And>r. r \<in> set rs \<Longrightarrow> ob_Status r = StatusInFlight \<and> LeaseOwner r = WorkerID c"
    and env: "\<And>i. pe_cancelled (env i) = None \<and> pe_err (env i) = None" and worker: "trim_space (WorkerID c) \<noteq> []"
  shows "round_fine (length rs) (run_records c store broker env schedule rs w)"
proof -
  have "round_fine (length rs) (fold (task_step c store broker env rs) is rd)"
    if "round_fine (length rs) rd" "round_ok lookup invar c (dw_log w) (lookup (dw_store w)) rs rd" for "is" rd
    using that by (induction "is" arbitrary: rd) (simp_all add: task_step_fine [OF _ _ held env worker] task_step_ok [OF _ dist])
  moreover have "round_ok lookup invar c (dw_log w) (lookup (dw_store w)) rs
      \<lparr>rd_tasks = replicate (length rs) Waiting, rd_errs = [], rd_world = w\<rparr>"
    using inv rs by (simp add: round_ok_def task_ok_def)
  moreover have "round_fine (length rs) \<lparr>rd_tasks = replicate (length rs) Waiting, rd_errs = [], rd_world = w\<rparr>"
    by (simp add: round_fine_def)
  ultimately show ?thesis unfolding run_records_def by blast
qed

lemma RunOnce_settles:
  assumes inv: "invar (dw_store w)" and conc: "0 < Concurrency c"
    and claim: "st_Claim store None (claim_options c now) (dw_store w) = (Inr rs, s1)"
    and run: "RunOnce c store broker None now env schedule w = (res, w')"
    and env: "\<And>i. pe_cancelled (env i) = None \<and> pe_err (env i) = None"
    and worker: "trim_space (WorkerID c) = WorkerID c" "WorkerID c \<noteq> []"
  shows "res = None \<and> (\<exists>new. dw_log w' = dw_log w @ new \<and>
    (\<forall>r \<in> set rs. \<exists>r'. lookup (dw_store w') (ob_ID r) = Some r' \<and> settled c new r r'))"
proof (cases "rs = []")
  case True
  with run claim show ?thesis by (auto simp: RunOnce_def)
next
  case False
  let ?w1 = "w\<lparr>dw_store := s1\<rparr>"
  let ?rd = "run_records c store broker env schedule rs ?w1"
  note stored = claim_stored [OF inv claim] and dist = claim_distinct [OF inv claim]
  have w': "w' = rd_world ?rd" and res: "res = join_all (rd_errs ?rd)" using run claim False by (simp_all add: RunOnce_def Let_def)
  have held: "\<And>r. r \<in> set rs \<Longrightarrow> ob_Status r = StatusInFlight \<and> LeaseOwner r = WorkerID c"
    using stored worker by (simp add: claim_options_def)
  have fine: "round_fine (length rs) ?rd"
    using claim_inv [OF inv claim] stored dist held env worker by (intro run_records_fine) auto
  have "round_ok lookup invar c (dw_log w) (lookup s1) rs ?rd"
    using run_records_ok [of ?w1 rs] claim_inv [OF inv claim] stored dist by simp
  then obtain new where new: "dw_log w' = dw_log w @ new"
    and ts: "\<forall>i < length rs. task_ok c new (lookup (dw_store w') (ob_ID (rs ! i))) (rs ! i) (rd_tasks ?rd ! i)"
    unfolding round_ok_def w' by auto
  have "\<exists>r'. lookup (dw_store w') (ob_ID r) = Some r' \<and> settled c new r r'" if "r \<in> set rs" for r
  proof -
    from that obtain i where i: "i < length rs" "rs ! i = r" by (auto simp: in_set_conv_nth)
    obtain err where "rd_tasks ?rd ! i = Finished err" using run_records_finished [OF conc] i(1) by blast
    with fine ts i show ?thesis by (cases err) (auto simp: round_fine_def task_ok_def)
  qed
  with new res fine show ?thesis by (auto simp: round_fine_def join_all_def)
qed

end

section \<open>The in-memory store keeps the contract\<close>

text \<open>The store of \<open>memory.go\<close> with its clock and the text of an error.\<close>

definition outbox_memory_store :: "(goerr \<Rightarrow> string) \<Rightarrow> int \<Rightarrow> MemoryOutbox OutboxStore" where
  "outbox_memory_store errtext clock =
     \<lparr>st_Claim = \<lambda>cerr. outbox_Claim cerr clock,
      st_MarkPublished = \<lambda>cerr. outbox_MarkPublished cerr clock,
      st_Retry = \<lambda>cerr ident owner next cause. outbox_Retry cerr clock ident owner next (Some (errtext cause)),
      st_DeadLetter = \<lambda>cerr ident owner cause. outbox_DeadLetter cerr clock ident owner (Some (errtext cause)),
      st_Snapshot = outbox_Snapshot\<rparr>"

lemma changeOwned_error: "changeOwned k w f s = (Some e, s') \<Longrightarrow> s' = s"
  by (auto simp: changeOwned_def split: option.splits if_splits)

lemma changeOwned_done:
  assumes "changeOwned k w f s = (None, s')"
  shows "\<exists>r. outbox_lookup s k = Some r \<and> LeaseOwner r = w \<and> outbox_lookup s' = (outbox_lookup s)(k \<mapsto> f r)"
  using assms by (auto simp: changeOwned_def outbox_lookup_def update_conv' split: option.splits if_splits)

lemma changeOwned_succeeds:
  "outbox_lookup s k = Some r \<Longrightarrow> ob_Status r = StatusInFlight \<Longrightarrow> LeaseOwner r = w \<Longrightarrow> trim_space w \<noteq> [] \<Longrightarrow>
     fst (changeOwned k w f s) = None"
  by (simp add: changeOwned_def outbox_lookup_def)

lemma normalizeClaim_owner: "co_Owner (normalizeClaim clock o') = trim_space (co_Owner o')"
  by (simp add: normalizeClaim_def)

interpretation ob: outbox_store "outbox_memory_store errtext clock" outbox_lookup outbox_inv
proof (unfold_locales, goal_cases)
  case (1 cerr o' s e s') then show ?case using outbox_Claim_error by (simp add: outbox_memory_store_def)
next
  case (2 s cerr o' rs s') then show ?case using outbox_Claim_inv by (simp add: outbox_memory_store_def)
next
  case (3 s cerr o' rs s') then show ?case using outbox_Claim_spec(3) by (simp add: outbox_memory_store_def)
next
  case (4 s cerr o' rs s' r)
  then show ?case using claim_returns_stored [of s cerr clock o' rs s' r] by (simp add: outbox_memory_store_def normalizeClaim_owner)
next
  case (5 s cerr o' rs s' k)
  then have "find (\<lambda>r. ob_ID r = k) rs = None" by (auto simp: find_None_iff)
  with 5 show ?case using outbox_Claim_spec(4) [of s cerr clock o' rs s' k] by (simp add: outbox_memory_store_def)
next
  case (6 cerr k w t s e s') then show ?case using changeOwned_error by (simp add: outbox_memory_store_def outbox_MarkPublished_def split: option.splits)
next
  case (7 s cerr k w t s')
  then show ?case using outbox_step_inv [of s "OMark cerr clock k w t"]
    by (auto simp: outbox_memory_store_def outbox_MarkPublished_def split: option.splits dest!: changeOwned_done)
next
  case (8 cerr k w n cause s e s') then show ?case using changeOwned_error by (simp add: outbox_memory_store_def outbox_Retry_def split: option.splits)
next
  case (9 s cerr k w n cause s')
  then show ?case using outbox_step_inv [of s "ORetry cerr clock k w n (Some (errtext cause))"]
    by (auto simp: outbox_memory_store_def outbox_Retry_def split: option.splits dest!: changeOwned_done)
next
  case (10 cerr k w cause s e s') then show ?case using changeOwned_error by (simp add: outbox_memory_store_def outbox_DeadLetter_def split: option.splits)
next
  case (11 s cerr k w cause s')
  then show ?case using outbox_step_inv [of s "ODead cerr clock k w (Some (errtext cause))"]
    by (auto simp: outbox_memory_store_def outbox_DeadLetter_def split: option.splits dest!: changeOwned_done)
next
  case (12 s k r w)
  then show ?case using changeOwned_succeeds
    by (simp add: outbox_memory_store_def outbox_MarkPublished_def outbox_Retry_def outbox_DeadLetter_def)
qed

lemma memory_claim: "outbox_Claim cerr clock o' s = res \<Longrightarrow> st_Claim (outbox_memory_store errtext clock) cerr o' s = res"
  by (simp add: outbox_memory_store_def)

section \<open>Properties of the dispatcher\<close>

text \<open>Property C18: a round of the dispatcher on the in-memory store, whatever the interleaving of its goroutines, the answers
  of the broker, its panics and the failures of the context, leaves every record it did not claim as it was, and each
  claimed record either as claimed (it stays under the lease) or settled: published only if the broker accepted that
  delivery in this round, back to pending only after the broker refused it with attempts left, dead-lettered only
  when the attempts are used up.\<close>

theorem dispatch_outcomes:
  assumes "outbox_inv (dw_store w)" and "0 < Concurrency c"
    and "outbox_Claim None clock (claim_options c now) (dw_store w) = (Inr rs, s1)"
    and "RunOnce c (outbox_memory_store errtext clock) broker None now env schedule w = (res, w')"
  shows "\<exists>new. dw_log w' = dw_log w @ new \<and> outbox_inv (dw_store w') \<and>
    (\<forall>k. k \<notin> ob_ID ` set rs \<longrightarrow> outbox_lookup (dw_store w') k = outbox_lookup (dw_store w) k) \<and>
    (\<forall>r \<in> set rs. outbox_lookup (dw_store w') (ob_ID r) = Some r \<or>
       (\<exists>r'. outbox_lookup (dw_store w') (ob_ID r) = Some r' \<and> settled c new r r'))"
  using ob.RunOnce_outcome [OF assms(1,2) memory_claim [OF assms(3)] assms(4)] by blast

text \<open>Property C19: a round settles everything it claims. When the context is not cancelled and the worker id has no
  surrounding white space, the round returns no error and every claimed record has left the in-flight state, whatever
  the schedule of the goroutines and the answers or panics of the broker.\<close>

theorem dispatch_settles:
  assumes "outbox_inv (dw_store w)" and "0 < Concurrency c"
    and "outbox_Claim None clock (claim_options c now) (dw_store w) = (Inr rs, s1)"
    and "RunOnce c (outbox_memory_store errtext clock) broker None now env schedule w = (res, w')"
    and "\<And>i. pe_cancelled (env i) = None \<and> pe_err (env i) = None"
    and "trim_space (WorkerID c) = WorkerID c" "WorkerID c \<noteq> []"
  shows "res = None \<and> (\<forall>r \<in> set rs. \<exists>r'. outbox_lookup (dw_store w') (ob_ID r) = Some r' \<and>
    ob_Status r' \<in> {StatusPublished, StatusPending, StatusDeadLetter})"
proof -
  from ob.RunOnce_settles [OF assms(1,2) memory_claim [OF assms(3)] assms(4-7)] have
    "res = None \<and> (\<exists>new. \<forall>r \<in> set rs. \<exists>r'. outbox_lookup (dw_store w') (ob_ID r) = Some r' \<and> settled c new r r')"
    by blast
  moreover have "ob_Status r' \<in> {StatusPublished, StatusPending, StatusDeadLetter}" if "settled c new r r'" for new r r'
    using that by (auto simp: settled_def published_record_def retried_record_def dead_record_def)
  ultimately show ?thesis by blast
qed

text \<open>A worker id with surrounding white space, which the configuration accepts, makes delivery impossible.
  Claims are filed under the trimmed id and settled under the id as configured, so a round never settles anything: every
  record it claims stays in flight until its lease ends, also when the broker accepted it.\<close>

theorem dispatch_padded_worker:
  assumes "outbox_inv (dw_store w)" and "0 < Concurrency c"
    and claim: "outbox_Claim None clock (claim_options c now) (dw_store w) = (Inr rs, s1)"
    and "RunOnce c (outbox_memory_store errtext clock) broker None now env schedule w = (res, w')"
    and pad: "trim_space (WorkerID c) \<noteq> WorkerID c"
  shows "\<forall>r \<in> set rs. outbox_lookup (dw_store w') (ob_ID r) = Some r \<and> ob_Status r = StatusInFlight"
proof
  fix r assume r: "r \<in> set rs"
  have "LeaseOwner r = trim_space (WorkerID c)" "ob_Status r = StatusInFlight"
    using claim_returns_stored [OF assms(1) claim r] by (simp_all add: normalizeClaim_owner claim_options_def)
  with ob.RunOnce_outcome [OF assms(1,2) memory_claim [OF claim] assms(4)] r pad
  show "outbox_lookup (dw_store w') (ob_ID r) = Some r \<and> ob_Status r = StatusInFlight" by auto
qed

section \<open>Backoff\<close>

lemma backoff_clamped: "1 \<le> attempt \<Longrightarrow> 0 < RetryJitter c \<Longrightarrow> 0 \<le> RetryMax c \<Longrightarrow> 0 \<le> backoff c sample attempt \<and> backoff c sample attempt \<le> RetryMax c"
  by (simp add: backoff_def Let_def)

lemma scaled_base:
  assumes "0 \<le> b" "b < 2 ^ 33" "n \<le> 30"
  shows "int64_of_f64 (f64_mul (f64_of_int b) (2 ^ n)) = b * 2 ^ n"
proof -
  have "b < 2 ^ 53" using assms(2) by simp
  with assms(1) have "f64_of_int b = of_int b" by (simp add: f64_of_int_def f64_int)
  moreover have "f64 (of_int b * 2 powi int n) = of_int b * 2 powi int n" using assms(1) \<open>b < 2 ^ 53\<close> by (intro f64_dyadic) auto
  ultimately have "f64_mul (f64_of_int b) (2 ^ n) = of_int (b * 2 ^ n)" by (simp add: f64_mul_def)
  moreover have "b * 2 ^ n \<le> b * 2 ^ 30" using assms by (intro mult_left_mono power_increasing) auto
  with assms(2) have "b * 2 ^ n \<le> int64_max" by (simp add: int64_max_def)
  moreover have "int64_min \<le> b * 2 ^ n" using assms(1) by (simp add: int64_min_def) (smt (verit) mult_nonneg_nonneg zero_le_power)
  ultimately show ?thesis by (simp only: int64_of_int)
qed

text \<open>The retry delay stays within the configured bounds. For a base below \<open>2 ^ 33\<close> nanoseconds (about 8.6
  seconds) the delay of every attempt is between zero and \<open>RetryMax\<close>, with any jitter and any random sample; without
  jitter it is the base doubled for each earlier attempt, at most 30 times, cut off at \<open>RetryMax\<close>.\<close>

theorem backoff_bounded:
  assumes "0 < RetryBase c" "RetryBase c < 2 ^ 33" "RetryBase c \<le> RetryMax c"
  shows "0 \<le> backoff c sample attempt \<and> backoff c sample attempt \<le> RetryMax c \<and>
    (RetryJitter c \<le> 0 \<longrightarrow> backoff c sample attempt = min (RetryMax c) (RetryBase c * 2 ^ nat (min 30 (max 1 attempt - 1))))"
proof (cases "RetryJitter c \<le> 0")
  case True
  have e: "(if 30 < (if attempt < 1 then 1 else attempt) - 1 then 30 else (if attempt < 1 then 1 else attempt) - 1) = min 30 (max 1 attempt - 1)"
    by simp
  have "nat (min 30 (max 1 attempt - 1)) \<le> 30" by simp
  from scaled_base [OF _ assms(2) this] assms(1) True
  have "backoff c sample attempt = min (RetryMax c) (RetryBase c * 2 ^ nat (min 30 (max 1 attempt - 1)))"
    unfolding backoff_def Let_def e by simp
  then show ?thesis using assms True by simp
next
  case False
  then show ?thesis using assms by (auto simp: backoff_def Let_def)
qed

text \<open>Beyond that bound the product leaves the range of a 64-bit duration: with the base of ten seconds the delay of
  attempt 31 is negative although \<open>RetryMax\<close> is five minutes, because the comparison comes after the conversion.\<close>

lemma backoff_overflow:
  "RetryBase c = 10 * second \<Longrightarrow> RetryMax c = 300 * second \<Longrightarrow> RetryJitter c = 0 \<Longrightarrow> backoff c sample 31 = int64_min"
proof -
  assume c: "RetryBase c = 10 * second" "RetryMax c = 300 * second" "RetryJitter c = 0"
  have "int64_of_f64 (f64_mul (f64_of_int (10 * second)) (2 ^ 30)) = int64_min" by code_simp
  with c show ?thesis by (simp add: backoff_def second_def int64_min_def)
qed

section \<open>Health\<close>

fun failing_run :: "goerr option list \<Rightarrow> int" where
  "failing_run [] = 0"
| "failing_run (Some e # rs) = failing_run rs + 1"
| "failing_run (None # rs) = 0"

lemma recordLoop_count:
  "d_failures d = failing_run past \<Longrightarrow>
     d_failures (fold recordLoop results d) = failing_run (rev results @ past)"
proof (induction results arbitrary: d past)
  case (Cons r rs)
  have "d_failures (recordLoop r d) = failing_run (r # past)" using Cons.prems by (cases r) (simp_all add: recordLoop_def)
  from Cons.IH [OF this] show ?case by simp
qed simp

lemma recordLoop_keeps: "d_running (fold recordLoop results d) = d_running d \<and> d_config (fold recordLoop results d) = d_config d"
  by (induction results arbitrary: d) (simp_all add: recordLoop_def split: option.split)

text \<open>A started dispatcher is healthy exactly as long as fewer than \<open>HealthFailureThreshold\<close> of its latest rounds
  have failed in a row; one successful round makes it healthy again.\<close>

theorem dispatcher_health_threshold:
  assumes "dispatcher_Start (Some d) = (None, Some d0)" and "\<not> d_running d" and "0 < HealthFailureThreshold (d_config d)"
  shows "dispatcher_Health (Some (fold recordLoop results d0)) = None \<longleftrightarrow>
    failing_run (rev results) < HealthFailureThreshold (d_config d)"
proof -
  have "d_running d0" "d_failures d0 = failing_run []" "d_config d0 = d_config d" using assms by (auto simp: dispatcher_Start_def)
  with recordLoop_count [of d0 "[]" results] recordLoop_keeps [of results d0] show ?thesis by (auto simp: dispatcher_Health_def)
qed

section \<open>Witnesses\<close>

definition ex_config :: "string \<Rightarrow> DispatcherConfig" where
  "ex_config worker =
     \<lparr>WorkerID = worker, PollInterval = 1, BatchSize = 1, Concurrency = 1, LeaseDuration = 10, PublishTimeout = 5, MaxAttempts = 3,
      RetryBase = 2, RetryMax = 100, RetryJitter = 0, HealthFailureThreshold = 2\<rparr>"

definition ex_store :: MemoryOutbox where
  "ex_store = \<lparr>om_records = [(''i'', new_record 7 ex_first)]\<rparr>"

definition ex_world :: "(MemoryOutbox, nat) dispatch_world" where
  "ex_world = \<lparr>dw_store = ex_store, dw_broker = 0, dw_log = []\<rparr>"

definition ex_broker :: "nat publisher" where
  "ex_broker e b = (if b = 0 then Panic ''down'' else Return None, b + 1)"

definition ex_env :: "nat \<Rightarrow> proc_env" where
  "ex_env i = \<lparr>pe_cancelled = None, pe_err = None, pe_now = 9, pe_sample = 0\<rparr>"

definition ex_round :: "string \<Rightarrow> goerr option \<times> (MemoryOutbox, nat) dispatch_world" where
  "ex_round worker = RunOnce (ex_config worker) (outbox_memory_store (\<lambda>e. []) 0) ex_broker None 8 ex_env [0] ex_world"

lemma trim_pad [simp]: "trim_space '' t'' = ''t''"
  by code_simp

lemma ex_store_inv: "outbox_inv (dw_store ex_world)"
  using outbox_run_inv [OF new_outbox_inv, of ex_history] by (simp add: ex_history_run ex_world_def ex_store_def)

lemma ex_round_claim:
  "trim_space worker = ''t'' \<Longrightarrow>
     outbox_Claim None 0 (claim_options (ex_config worker) 8) (dw_store ex_world) = (Inr [ex_claimed], \<lparr>om_records = [(''i'', ex_claimed)]\<rparr>)"
proof -
  assume "trim_space worker = ''t''"
  then have "normalizeClaim 0 (claim_options (ex_config worker) 8) = normalizeClaim 0 (ex_claim ''t'' 8)"
    by (simp add: normalizeClaim_def claim_options_def ex_config_def ex_claim_def)
  then show ?thesis using ex_claim_run by (simp add: outbox_Claim_def ex_world_def ex_store_def)
qed

lemma ex_claimed_ID: "ob_ID ex_claimed = ''i''"
  by (simp add: ex_claimed_def ex_ID)

theorem dispatch_outcomes_witness:
  "\<exists>r'. outbox_lookup (dw_store (snd (ex_round ''t''))) ''i'' = Some r' \<and>
     (r' = ex_claimed \<or> settled (ex_config ''t'') (dw_log (snd (ex_round ''t''))) ex_claimed r')"
proof -
  have run: "RunOnce (ex_config ''t'') (outbox_memory_store (\<lambda>e. []) 0) ex_broker None 8 ex_env [0] ex_world = (fst (ex_round ''t''), snd (ex_round ''t''))"
    by (simp add: ex_round_def)
  have conc: "0 < Concurrency (ex_config ''t'')" by (simp add: ex_config_def)
  from dispatch_outcomes [OF ex_store_inv conc ex_round_claim run] show ?thesis by (auto simp: ex_claimed_ID ex_world_def)
qed

theorem dispatch_settles_witness:
  "fst (ex_round ''t'') = None \<and> (\<exists>r'. outbox_lookup (dw_store (snd (ex_round ''t''))) ''i'' = Some r' \<and> ob_Status r' \<noteq> StatusInFlight)"
proof -
  have run: "RunOnce (ex_config ''t'') (outbox_memory_store (\<lambda>e. []) 0) ex_broker None 8 ex_env [0] ex_world = (fst (ex_round ''t''), snd (ex_round ''t''))"
    by (simp add: ex_round_def)
  have conc: "0 < Concurrency (ex_config ''t'')" by (simp add: ex_config_def)
  have env: "pe_cancelled (ex_env i) = None \<and> pe_err (ex_env i) = None" for i by (simp add: ex_env_def)
  have w: "trim_space (WorkerID (ex_config ''t'')) = WorkerID (ex_config ''t'')" "WorkerID (ex_config ''t'') \<noteq> []" by (simp_all add: ex_config_def)
  from dispatch_settles [OF ex_store_inv conc ex_round_claim run env w] show ?thesis by (auto simp: ex_claimed_ID)
qed

theorem dispatch_padded_worker_witness:
  "outbox_lookup (dw_store (snd (ex_round '' t''))) ''i'' = Some ex_claimed"
proof -
  have run: "RunOnce (ex_config '' t'') (outbox_memory_store (\<lambda>e. []) 0) ex_broker None 8 ex_env [0] ex_world = (fst (ex_round '' t''), snd (ex_round '' t''))"
    by (simp add: ex_round_def)
  have conc: "0 < Concurrency (ex_config '' t'')" by (simp add: ex_config_def)
  have w: "trim_space (WorkerID (ex_config '' t'')) \<noteq> WorkerID (ex_config '' t'')" by (simp add: ex_config_def)
  from dispatch_padded_worker [OF ex_store_inv conc ex_round_claim run w] show ?thesis by (simp add: ex_claimed_ID)
qed

theorem backoff_bounded_witness: "backoff (ex_config ''t'') 0 4 = 16"
  using backoff_bounded [of "ex_config ''t''" 0 4] by (simp add: ex_config_def)

theorem dispatcher_health_threshold_witness:
  "\<exists>d0. dispatcher_Health (Some (fold recordLoop [Some ErrNotFound, Some ErrNotFound] d0)) \<noteq> None \<and>
     dispatcher_Health (Some (fold recordLoop [Some ErrNotFound, Some ErrNotFound, None] d0)) = None"
proof -
  let ?d = "\<lparr>d_config = ex_config ''t'', d_running = False, d_failures = 0, d_lastLoopErr = None\<rparr>"
  have s: "dispatcher_Start (Some ?d) = (None, Some (?d\<lparr>d_running := True\<rparr>))" by (simp add: dispatcher_Start_def)
  have h: "\<not> d_running ?d" "0 < HealthFailureThreshold (d_config ?d)" by (simp_all add: ex_config_def)
  show ?thesis
    using dispatcher_health_threshold [OF s h, of "[Some ErrNotFound, Some ErrNotFound]"]
      dispatcher_health_threshold [OF s h, of "[Some ErrNotFound, Some ErrNotFound, None]"]
    by (intro exI [of _ "?d\<lparr>d_running := True\<rparr>"]) (simp add: ex_config_def)
qed

end
