(* ===== verification/OutboxGorm.thy ===== *)
theory OutboxGorm
  imports Dispatcher
begin

text \<open>
  The database store of the outbox (\<open>framework/event/outbox/gorm_store.go\<close>). The table is keyed by the event id. A claim
  is one transaction of several statements; \<open>tx_env\<close> says which of them the database refuses and which rows other
  transactions hold locked, and a transaction that fails leaves the table as it was. All other methods are single
  statements, whose error is an argument, except \<open>Snapshot\<close> and \<open>PurgePublished\<close>, which are two. The encoding of
  envelopes (\<open>encoding/json\<close>) is the argument \<open>codec\<close>; where it matters, a lemma assumes of the envelopes at hand that
  decoding returns what was encoded. The database compares ids byte by byte.
\<close>

section \<open>Data\<close>

record gormRecord =
  g_Topic :: string
  g_EventType :: string
  g_EventJSON :: string
  g_Status :: Status
  g_Attempts :: int
  g_NextAttemptAt :: int
  g_LeaseOwner :: string
  g_LeaseUntil :: "int option"
  g_LastError :: string
  g_PublishedAt :: "int option"
  g_CreatedAt :: int
  g_UpdatedAt :: int

type_synonym outbox_table = "(string \<times> gormRecord) list"

record GORMStore =
  gs_table :: string
  gs_skipLocked :: bool
  gs_propagator :: "(Envelope \<Rightarrow> Envelope) option"

record json_codec =
  jc_Marshal :: "Envelope \<Rightarrow> string result"
  jc_Unmarshal :: "string \<Rightarrow> Envelope result"

text \<open>What an enqueue reads: random bytes, the time read for the envelope and for the row, the causality of the context, the
  error of the insert.\<close>

record enqueue_env =
  ee_raw :: "string result"
  ee_clock :: int
  ee_now :: int
  ee_causality :: "Causality option"
  ee_error :: "goerr option"

text \<open>What the transaction of a claim meets: the errors of its statements, and the rows that other transactions hold locked. These can be any rows:
  a transaction may lock more than it returns, so that a claim beside it comes back short or empty.\<close>

record tx_env =
  tx_begin :: "goerr option"
  tx_locked :: "string \<Rightarrow> bool"
  tx_expired :: "goerr option"
  tx_pending :: "goerr option"
  tx_load :: "goerr option"
  tx_update :: "string \<Rightarrow> goerr option"
  tx_commit :: "goerr option"

section \<open>Construction\<close>

definition DefaultTable :: string where "DefaultTable = ''yunka_outbox''"

definition errNilStore :: goerr where "errNilStore = Err ''outbox: gorm store is nil'' []"

fun safe_char :: "char \<Rightarrow> bool" where
  "safe_char c = ((CHR ''a'' \<le> c \<and> c \<le> CHR ''z'') \<or> (CHR ''A'' \<le> c \<and> c \<le> CHR ''Z'') \<or> (CHR ''0'' \<le> c \<and> c \<le> CHR ''9'') \<or> c = CHR ''_'')"

definition safeIdentifier :: "string \<Rightarrow> bool" where
  "safeIdentifier value = (value \<noteq> [] \<and> list_all safe_char value)"

type_synonym gorm_option = "GORMStore \<Rightarrow> GORMStore result"

definition WithTable :: "string \<Rightarrow> gorm_option" where
  "WithTable table st =
     (if \<not> safeIdentifier (trim_space table) then Inl (Err ''outbox: invalid table name %q'' [trim_space table])
      else Inr (st\<lparr>gs_table := trim_space table\<rparr>))"

definition WithSkipLocked :: "bool \<Rightarrow> gorm_option" where
  "WithSkipLocked enabled st = Inr (st\<lparr>gs_skipLocked := enabled\<rparr>)"

definition WithPropagator :: "(Envelope \<Rightarrow> Envelope) option \<Rightarrow> gorm_option" where
  "WithPropagator propagator st = Inr (st\<lparr>gs_propagator := propagator\<rparr>)"

fun apply_options :: "gorm_option option list \<Rightarrow> GORMStore \<Rightarrow> GORMStore result" where
  "apply_options [] st = Inr st"
| "apply_options (None # os) st = apply_options os st"
| "apply_options (Some f # os) st = (case f st of Inl e \<Rightarrow> Inl e | Inr st' \<Rightarrow> apply_options os st')"

definition NewGORMStore :: "'d option \<Rightarrow> gorm_option option list \<Rightarrow> GORMStore result" where
  "NewGORMStore database options =
     (case database of
        None \<Rightarrow> Inl (Err ''outbox: gorm database is required'' [])
      | Some _ \<Rightarrow> apply_options options \<lparr>gs_table = DefaultTable, gs_skipLocked = False, gs_propagator = None\<rparr>)"

section \<open>Enqueue\<close>

definition gormbox_prepare :: "GORMStore option \<Rightarrow> enqueue_env \<Rightarrow> Envelope \<Rightarrow> Envelope result" where
  "gormbox_prepare store env envelope =
     (case store of
        None \<Rightarrow> Inl errNilStore
      | Some st \<Rightarrow> PrepareForPublish (ee_raw env) (ee_clock env) (ee_causality env) (gs_propagator st) envelope)"

definition new_row :: "int \<Rightarrow> Envelope \<Rightarrow> string \<Rightarrow> gormRecord" where
  "new_row now e encoded =
     \<lparr>g_Topic = Topic e, g_EventType = env_Type e, g_EventJSON = encoded, g_Status = StatusPending, g_Attempts = 0,
      g_NextAttemptAt = now, g_LeaseOwner = [], g_LeaseUntil = None, g_LastError = [], g_PublishedAt = None,
      g_CreatedAt = now, g_UpdatedAt = now\<rparr>"

definition gormbox_insert ::
  "GORMStore option \<Rightarrow> json_codec \<Rightarrow> enqueue_env \<Rightarrow> Envelope \<Rightarrow> outbox_table \<Rightarrow> goerr option \<times> outbox_table" where
  "gormbox_insert store codec env envelope t =
     (case gormbox_prepare store env envelope of
        Inl e \<Rightarrow> (Some e, t)
      | Inr normalized \<Rightarrow>
        (case jc_Marshal codec normalized of
           Inl e \<Rightarrow> (Some e, t)
         | Inr encoded \<Rightarrow>
           (case ee_error env of
              Some e \<Rightarrow> (Some e, t)
            | None \<Rightarrow>
                if map_of t (env_ID normalized) \<noteq> None then (Some ErrDuplicate, t)
                else (None, AList.update (env_ID normalized) (new_row (ee_now env) normalized encoded) t))))"

definition gormbox_Enqueue ::
  "GORMStore option \<Rightarrow> json_codec \<Rightarrow> enqueue_env \<Rightarrow> Envelope \<Rightarrow> outbox_table \<Rightarrow> goerr option \<times> outbox_table" where
  "gormbox_Enqueue store codec env envelope t =
     (case store of None \<Rightarrow> (Some errNilStore, t) | Some st \<Rightarrow> gormbox_insert store codec env envelope t)"

text \<open>\<^const>\<open>None\<close> is a transaction handle of another type.\<close>

definition gormbox_EnqueueTx ::
  "GORMStore option \<Rightarrow> json_codec \<Rightarrow> enqueue_env \<Rightarrow> unit option \<Rightarrow> Envelope \<Rightarrow> outbox_table \<Rightarrow> goerr option \<times> outbox_table" where
  "gormbox_EnqueueTx store codec env tx envelope t =
     (case tx of None \<Rightarrow> (Some ErrInvalidTx, t) | Some _ \<Rightarrow> gormbox_insert store codec env envelope t)"

section \<open>Claim\<close>

definition decodeGORMRecord :: "json_codec \<Rightarrow> string \<times> gormRecord \<Rightarrow> OutboxRecord result" where
  "decodeGORMRecord codec row =
     (let r = snd row in
      case jc_Unmarshal codec (g_EventJSON r) of
        Inl e \<Rightarrow> Inl (Wrap ''outbox: decode %s: %w'' [fst row] e)
      | Inr envelope \<Rightarrow> Inr
          \<lparr>ob_ID = fst row, ob_Envelope = envelope, ob_Status = g_Status r, Attempts = g_Attempts r, NextAttemptAt = g_NextAttemptAt r,
           LeaseOwner = g_LeaseOwner r, LeaseUntil = (case g_LeaseUntil r of None \<Rightarrow> 0 | Some u \<Rightarrow> u), LastError = g_LastError r,
           CreatedAt = g_CreatedAt r, UpdatedAt = g_UpdatedAt r,
           PublishedAt = (case g_PublishedAt r of None \<Rightarrow> 0 | Some u \<Rightarrow> u)\<rparr>)"

definition visible :: "GORMStore \<Rightarrow> tx_env \<Rightarrow> string \<times> gormRecord \<Rightarrow> bool" where
  "visible st env row = (\<not> (gs_skipLocked st \<and> tx_locked env (fst row)))"

definition is_expired :: "ClaimOptions \<Rightarrow> string \<times> gormRecord \<Rightarrow> bool" where
  "is_expired o' row = (g_Status (snd row) = StatusInFlight \<and> (case g_LeaseUntil (snd row) of None \<Rightarrow> False | Some u \<Rightarrow> u \<le> co_Now o'))"

definition is_due :: "ClaimOptions \<Rightarrow> string \<times> gormRecord \<Rightarrow> bool" where
  "is_due o' row = (g_Status (snd row) = StatusPending \<and> g_NextAttemptAt (snd row) \<le> co_Now o')"

definition expired_order :: "string \<times> gormRecord \<Rightarrow> int \<times> int \<times> string" where
  "expired_order row = (case g_LeaseUntil (snd row) of None \<Rightarrow> 0 | Some u \<Rightarrow> u, g_CreatedAt (snd row), fst row)"

definition due_order :: "string \<times> gormRecord \<Rightarrow> int \<times> int \<times> string" where
  "due_order row = (g_NextAttemptAt (snd row), g_CreatedAt (snd row), fst row)"

definition expired_ids :: "GORMStore \<Rightarrow> tx_env \<Rightarrow> ClaimOptions \<Rightarrow> outbox_table \<Rightarrow> string list" where
  "expired_ids st env o' t =
     take (nat (co_Limit o')) (map fst (sort_key expired_order (filter (\<lambda>row. is_expired o' row \<and> visible st env row) t)))"

definition pending_ids :: "GORMStore \<Rightarrow> tx_env \<Rightarrow> ClaimOptions \<Rightarrow> nat \<Rightarrow> outbox_table \<Rightarrow> string list" where
  "pending_ids st env o' n t =
     take n (map fst (sort_key due_order (filter (\<lambda>row. is_due o' row \<and> visible st env row) t)))"

definition candidate_ids :: "GORMStore \<Rightarrow> tx_env \<Rightarrow> ClaimOptions \<Rightarrow> outbox_table \<Rightarrow> string list result" where
  "candidate_ids st env o' t =
     (case tx_expired env of
        Some e \<Rightarrow> Inl e
      | None \<Rightarrow>
        (let expired = expired_ids st env o' t; remaining = co_Limit o' - int (length expired) in
         if remaining > 0 then
           (case tx_pending env of
              Some e \<Rightarrow> Inl e
            | None \<Rightarrow> Inr (expired @ pending_ids st env o' (nat remaining) t))
         else Inr expired))"

fun pick_rows :: "outbox_table \<Rightarrow> string list \<Rightarrow> (string \<times> gormRecord) list result" where
  "pick_rows byID [] = Inr []"
| "pick_rows byID (k # ks) =
     (case map_of byID k of
        None \<Rightarrow> Inl ErrLeaseLost
      | Some r \<Rightarrow> (case pick_rows byID ks of Inl e \<Rightarrow> Inl e | Inr rs \<Rightarrow> Inr ((k, r) # rs)))"

definition load_rows :: "tx_env \<Rightarrow> string list \<Rightarrow> outbox_table \<Rightarrow> (string \<times> gormRecord) list result" where
  "load_rows env ids t =
     (if ids = [] then Inr []
      else case tx_load env of Some e \<Rightarrow> Inl e | None \<Rightarrow> pick_rows (filter (\<lambda>row. fst row \<in> set ids) t) ids)"

definition lease_row :: "ClaimOptions \<Rightarrow> int \<Rightarrow> gormRecord \<Rightarrow> gormRecord" where
  "lease_row o' attempts r =
     r\<lparr>g_Status := StatusInFlight, g_Attempts := attempts, g_LeaseOwner := co_Owner o', g_LeaseUntil := Some (co_Now o' + co_Lease o'),
       g_UpdatedAt := co_Now o'\<rparr>"

fun lease_rows ::
  "json_codec \<Rightarrow> tx_env \<Rightarrow> ClaimOptions \<Rightarrow> (string \<times> gormRecord) list \<Rightarrow> outbox_table \<Rightarrow> ((string \<times> gormRecord) list \<times> outbox_table) result" where
  "lease_rows codec env o' [] t = Inr ([], t)"
| "lease_rows codec env o' ((k, c) # cs) t =
     (case decodeGORMRecord codec (k, c) of
        Inl e \<Rightarrow> Inl e
      | Inr _ \<Rightarrow>
        (case tx_update env k of
           Some e \<Rightarrow> Inl e
         | None \<Rightarrow>
           (case map_of t k of
              None \<Rightarrow> Inl ErrLeaseLost
            | Some r \<Rightarrow>
              (case lease_rows codec env o' cs (AList.update k (lease_row o' (g_Attempts c + 1) r) t) of
                 Inl e \<Rightarrow> Inl e
               | Inr (claimed, t') \<Rightarrow> Inr ((k, lease_row o' (g_Attempts c + 1) c) # claimed, t')))))"

definition claim_tx ::
  "GORMStore \<Rightarrow> json_codec \<Rightarrow> tx_env \<Rightarrow> ClaimOptions \<Rightarrow> outbox_table \<Rightarrow> ((string \<times> gormRecord) list \<times> outbox_table) result" where
  "claim_tx st codec env o' t =
     (case tx_begin env of
        Some e \<Rightarrow> Inl e
      | None \<Rightarrow>
        (case candidate_ids st env o' t of
           Inl e \<Rightarrow> Inl e
         | Inr ids \<Rightarrow>
           (case load_rows env ids t of
              Inl e \<Rightarrow> Inl e
            | Inr candidates \<Rightarrow>
              (case lease_rows codec env o' candidates t of
                 Inl e \<Rightarrow> Inl e
               | Inr claimed \<Rightarrow> (case tx_commit env of Some e \<Rightarrow> Inl e | None \<Rightarrow> Inr claimed)))))"

fun decode_rows :: "json_codec \<Rightarrow> (string \<times> gormRecord) list \<Rightarrow> OutboxRecord list result" where
  "decode_rows codec [] = Inr []"
| "decode_rows codec (row # rows) =
     (case decodeGORMRecord codec row of
        Inl e \<Rightarrow> Inl e
      | Inr r \<Rightarrow> (case decode_rows codec rows of Inl e \<Rightarrow> Inl e | Inr rs \<Rightarrow> Inr (r # rs)))"

definition gormbox_Claim ::
  "GORMStore option \<Rightarrow> json_codec \<Rightarrow> int \<Rightarrow> tx_env \<Rightarrow> ClaimOptions \<Rightarrow> outbox_table \<Rightarrow> OutboxRecord list result \<times> outbox_table" where
  "gormbox_Claim store codec clock env options t =
     (case store of
        None \<Rightarrow> (Inl errNilStore, t)
      | Some st \<Rightarrow>
        (let o' = normalizeClaim clock options in
         if co_Owner o' = [] then (Inl ErrInvalidOwner, t)
         else
           (case claim_tx st codec env o' t of
              Inl e \<Rightarrow> (Inl e, t)
            | Inr (claimed, t') \<Rightarrow> (decode_rows codec claimed, t'))))"


section \<open>Settling, counting and purging\<close>

definition updateOwned ::
  "GORMStore option \<Rightarrow> goerr option \<Rightarrow> string \<Rightarrow> string \<Rightarrow> (gormRecord \<Rightarrow> gormRecord) \<Rightarrow> outbox_table \<Rightarrow> goerr option \<times> outbox_table" where
  "updateOwned store err ident owner values t =
     (case store of
        None \<Rightarrow> (Some errNilStore, t)
      | Some _ \<Rightarrow>
        (case err of
           Some e \<Rightarrow> (Some e, t)
         | None \<Rightarrow>
           (case map_of t ident of
              Some r \<Rightarrow>
                if g_Status r = StatusInFlight \<and> g_LeaseOwner r = owner then (None, AList.update ident (values r) t)
                else (Some ErrLeaseLost, t)
            | None \<Rightarrow> (Some ErrLeaseLost, t))))"

definition published_row :: "int \<Rightarrow> gormRecord \<Rightarrow> gormRecord" where
  "published_row u r =
     r\<lparr>g_Status := StatusPublished, g_PublishedAt := Some u, g_LeaseOwner := [], g_LeaseUntil := None, g_LastError := [], g_UpdatedAt := u\<rparr>"

definition retried_row :: "int \<Rightarrow> string option \<Rightarrow> int \<Rightarrow> gormRecord \<Rightarrow> gormRecord" where
  "retried_row next cause now r =
     r\<lparr>g_Status := StatusPending, g_NextAttemptAt := next, g_LeaseOwner := [], g_LeaseUntil := None, g_LastError := errorText cause, g_UpdatedAt := now\<rparr>"

definition dead_row :: "string option \<Rightarrow> int \<Rightarrow> gormRecord \<Rightarrow> gormRecord" where
  "dead_row cause now r =
     r\<lparr>g_Status := StatusDeadLetter, g_LeaseOwner := [], g_LeaseUntil := None, g_LastError := errorText cause, g_UpdatedAt := now\<rparr>"

definition gormbox_MarkPublished ::
  "GORMStore option \<Rightarrow> int \<Rightarrow> goerr option \<Rightarrow> string \<Rightarrow> string \<Rightarrow> int \<Rightarrow> outbox_table \<Rightarrow> goerr option \<times> outbox_table" where
  "gormbox_MarkPublished store clock err ident owner u t = updateOwned store err ident owner (published_row (if u = 0 then clock else u)) t"

definition gormbox_Retry ::
  "GORMStore option \<Rightarrow> int \<Rightarrow> goerr option \<Rightarrow> string \<Rightarrow> string \<Rightarrow> int \<Rightarrow> string option \<Rightarrow> outbox_table \<Rightarrow> goerr option \<times> outbox_table" where
  "gormbox_Retry store clock err ident owner next cause t =
     updateOwned store err ident owner (retried_row (if next = 0 then clock else next) cause clock) t"

definition gormbox_DeadLetter ::
  "GORMStore option \<Rightarrow> int \<Rightarrow> goerr option \<Rightarrow> string \<Rightarrow> string \<Rightarrow> string option \<Rightarrow> outbox_table \<Rightarrow> goerr option \<times> outbox_table" where
  "gormbox_DeadLetter store clock err ident owner cause t = updateOwned store err ident owner (dead_row cause clock) t"

definition count_status :: "Status \<Rightarrow> outbox_table \<Rightarrow> int" where
  "count_status st t = int (length (filter (\<lambda>row. g_Status (snd row) = st) t))"

definition oldest_pending :: "outbox_table \<Rightarrow> int" where
  "oldest_pending t =
     (case sort (map (\<lambda>row. g_CreatedAt (snd row)) (filter (\<lambda>row. g_Status (snd row) = StatusPending) t)) of [] \<Rightarrow> 0 | u # _ \<Rightarrow> u)"

text \<open>The two queries read the table at two instants; \<open>errs\<close> are their errors.\<close>

definition gormbox_Snapshot ::
  "GORMStore option \<Rightarrow> goerr option \<times> goerr option \<Rightarrow> outbox_table \<Rightarrow> outbox_table \<Rightarrow> Snapshot result" where
  "gormbox_Snapshot store errs t1 t2 =
     (case store of
        None \<Rightarrow> Inl errNilStore
      | Some _ \<Rightarrow>
        (case fst errs of
           Some e \<Rightarrow> Inl e
         | None \<Rightarrow>
           (case snd errs of
              Some e \<Rightarrow> Inl e
            | None \<Rightarrow> Inr \<lparr>sn_Pending = count_status StatusPending t1, sn_InFlight = count_status StatusInFlight t1,
                sn_Published = count_status StatusPublished t1, sn_DeadLetter = count_status StatusDeadLetter t1,
                sn_OldestPendingAt = oldest_pending t2\<rparr>)))"

definition purge_ids :: "int \<Rightarrow> int \<Rightarrow> outbox_table \<Rightarrow> string list" where
  "purge_ids before limit t =
     take (nat limit) (map fst (sort_key (\<lambda>row. case g_PublishedAt (snd row) of None \<Rightarrow> 0 | Some u \<Rightarrow> u)
       (filter (\<lambda>row. g_Status (snd row) = StatusPublished \<and> (case g_PublishedAt (snd row) of None \<Rightarrow> False | Some u \<Rightarrow> u < before)) t)))"

text \<open>Between the query and the delete others may change the table, which is the argument \<open>other\<close>.\<close>

definition gormbox_PurgePublished ::
  "GORMStore option \<Rightarrow> goerr option \<times> goerr option \<Rightarrow> (outbox_table \<Rightarrow> outbox_table) \<Rightarrow> int \<Rightarrow> int \<Rightarrow> outbox_table \<Rightarrow> (int \<times> goerr option) \<times> outbox_table" where
  "gormbox_PurgePublished store errs other before limit t =
     (case store of
        None \<Rightarrow> ((0, Some errNilStore), t)
      | Some _ \<Rightarrow>
        if before = 0 then ((0, None), t)
        else
          (case fst errs of
             Some e \<Rightarrow> ((0, Some e), t)
           | None \<Rightarrow>
             (let ids = purge_ids before (if limit \<le> 0 then 1000 else limit) t in
              if ids = [] then ((0, None), t)
              else
                (let t' = other t in
                 case snd errs of
                   Some e \<Rightarrow> ((0, Some e), t')
                 | None \<Rightarrow> ((int (length (filter (\<lambda>row. fst row \<in> set ids) t')), None), filter (\<lambda>row. fst row \<notin> set ids) t')))))"

definition gorm_outbox_store ::
  "GORMStore option \<Rightarrow> json_codec \<Rightarrow> (goerr \<Rightarrow> string) \<Rightarrow> int \<Rightarrow> tx_env \<Rightarrow> outbox_table OutboxStore" where
  "gorm_outbox_store store codec errtext clock env =
     \<lparr>st_Claim = \<lambda>err. gormbox_Claim store codec clock (env\<lparr>tx_begin := err\<rparr>),
      st_MarkPublished = gormbox_MarkPublished store clock,
      st_Retry = \<lambda>err ident owner next cause. gormbox_Retry store clock err ident owner next (Some (errtext cause)),
      st_DeadLetter = \<lambda>err ident owner cause. gormbox_DeadLetter store clock err ident owner (Some (errtext cause)),
      st_Snapshot = \<lambda>err t. gormbox_Snapshot store (err, err) t t\<rparr>"


section \<open>What a claim does\<close>

text \<open>One row per id, and no row in flight whose event cannot be decoded.\<close>

definition gormbox_inv :: "json_codec \<Rightarrow> outbox_table \<Rightarrow> bool" where
  "gormbox_inv codec t \<longleftrightarrow> distinct (map fst t) \<and>
     list_all (\<lambda>row. g_Status (snd row) = StatusInFlight \<longrightarrow> (\<exists>r. decodeGORMRecord codec row = Inr r)) t"

text \<open>What a reader of the table sees under an id.\<close>

definition gormbox_lookup :: "json_codec \<Rightarrow> outbox_table \<Rightarrow> string \<Rightarrow> OutboxRecord option" where
  "gormbox_lookup codec t k =
     Option.bind (map_of t k) (\<lambda>r. case decodeGORMRecord codec (k, r) of Inl _ \<Rightarrow> None | Inr x \<Rightarrow> Some x)"

lemma decode_fields:
  assumes "decodeGORMRecord codec (k, r) = Inr x"
  shows "ob_ID x = k" "ob_Status x = g_Status r" "LeaseOwner x = g_LeaseOwner r" "Attempts x = g_Attempts r"
    "g_EventJSON r' = g_EventJSON r \<Longrightarrow> \<exists>y. decodeGORMRecord codec (k, r') = Inr y"
  using assms by (auto simp: decodeGORMRecord_def Let_def split: sum.splits)

lemma decode_lease:
  "decodeGORMRecord codec (k, r) = Inr x \<Longrightarrow> decodeGORMRecord codec (k, lease_row o' (g_Attempts r + 1) r) = Inr (claim_record o' x)"
  by (auto simp: decodeGORMRecord_def Let_def lease_row_def claim_record_def split: sum.splits)

lemma decode_settled:
  assumes "decodeGORMRecord codec (k, r) = Inr x"
  shows "decodeGORMRecord codec (k, published_row u r) = Inr (published_record u x)"
    "decodeGORMRecord codec (k, retried_row u cause v r) = Inr (retried_record u cause v x)"
    "decodeGORMRecord codec (k, dead_row cause v r) = Inr (dead_record cause v x)"
  using assms by (auto simp: decodeGORMRecord_def Let_def published_row_def published_record_def retried_row_def retried_record_def
      dead_row_def dead_record_def split: sum.splits)

lemma gormbox_inv_update:
  assumes "gormbox_inv codec t" "g_Status r = StatusInFlight \<Longrightarrow> \<exists>x. decodeGORMRecord codec (k, r) = Inr x"
  shows "gormbox_inv codec (AList.update k r t)"
  using assms set_update_subset [of k r t] by (fastforce simp: gormbox_inv_def list_all_iff distinct_update)

lemma gormbox_lookup_update:
  "decodeGORMRecord codec (k, r) = Inr x \<Longrightarrow> gormbox_lookup codec (AList.update k r t) = (gormbox_lookup codec t)(k \<mapsto> x)"
  by (auto simp: gormbox_lookup_def update_conv')

lemma in_flight_decodes:
  "gormbox_inv codec t \<Longrightarrow> map_of t k = Some r \<Longrightarrow> g_Status r = StatusInFlight \<Longrightarrow>
     \<exists>x. decodeGORMRecord codec (k, r) = Inr x \<and> gormbox_lookup codec t k = Some x"
  by (fastforce simp: gormbox_inv_def gormbox_lookup_def list_all_iff dest!: map_of_SomeD)

text \<open>The ids a claim selects: each once, and each of a row that can be claimed.\<close>

lemma selected_ids:
  assumes "distinct (map fst t)"
  shows "distinct (take n (map fst (sort_key f (filter P t))))"
    and "k \<in> set (take n (map fst (sort_key f (filter P t)))) \<Longrightarrow> \<exists>r. map_of t k = Some r \<and> P (k, r)"
proof -
  have "distinct (map fst (filter P t))" using assms by (rule distinct_map_filter)
  then have "distinct (map fst (sort_key f (filter P t)))" by (metis distinct_map set_sort distinct_sort)
  then show "distinct (take n (map fst (sort_key f (filter P t))))" by (rule distinct_take)
  assume "k \<in> set (take n (map fst (sort_key f (filter P t))))"
  then obtain r where "(k, r) \<in> set t" "P (k, r)" by (auto dest!: in_set_takeD)
  with assms show "\<exists>r. map_of t k = Some r \<and> P (k, r)" by auto
qed

lemma candidate_ids_spec:
  assumes "distinct (map fst t)" "candidate_ids st env o' t = Inr ids"
  shows "distinct ids" and "k \<in> set ids \<Longrightarrow> \<exists>r. map_of t k = Some r \<and> visible st env (k, r) \<and> (is_expired o' (k, r) \<or> is_due o' (k, r))"
proof -
  let ?e = "expired_ids st env o' t" and ?p = "\<lambda>n. pending_ids st env o' n t"
  have e: "distinct ?e" "k \<in> set ?e \<Longrightarrow> \<exists>r. map_of t k = Some r \<and> is_expired o' (k, r) \<and> visible st env (k, r)" for k
    unfolding expired_ids_def using selected_ids [OF assms(1)] by blast+
  have p: "distinct (?p n)" "k \<in> set (?p n) \<Longrightarrow> \<exists>r. map_of t k = Some r \<and> is_due o' (k, r) \<and> visible st env (k, r)" for k n
    unfolding pending_ids_def using selected_ids [OF assms(1)] by blast+
  have "set ?e \<inter> set (?p n) = {}" for n
    using e(2) p(2) by (fastforce simp: is_expired_def is_due_def)
  moreover obtain n where ids: "ids = ?e \<or> ids = ?e @ ?p n"
    using assms(2) by (auto simp: candidate_ids_def Let_def split: option.splits if_splits)
  ultimately show "distinct ids" using e(1) p(1) by auto
  assume "k \<in> set ids"
  with ids consider "k \<in> set ?e" | "k \<in> set (?p n)" by auto
  then show "\<exists>r. map_of t k = Some r \<and> visible st env (k, r) \<and> (is_expired o' (k, r) \<or> is_due o' (k, r))"
    by cases (use e(2) [of k] p(2) [of k n] in blast)+
qed

lemma pick_rows_spec:
  "\<forall>k \<in> set ks. map_of byID k \<noteq> None \<Longrightarrow> pick_rows byID ks = Inr (map (\<lambda>k. (k, the (map_of byID k))) ks)"
  by (induction ks) auto

lemma map_of_filter_keys: "k \<in> A \<Longrightarrow> map_of (filter (\<lambda>row. fst row \<in> A) t) k = map_of t k"
  by (induction t) auto

lemma load_rows_spec:
  assumes "load_rows env ids t = Inr cs" "\<forall>k \<in> set ids. map_of t k \<noteq> None"
  shows "cs = map (\<lambda>k. (k, the (map_of t k))) ids"
proof (cases "ids = []")
  case False
  have "pick_rows (filter (\<lambda>row. fst row \<in> set ids) t) ids = Inr (map (\<lambda>k. (k, the (map_of (filter (\<lambda>row. fst row \<in> set ids) t) k))) ids)"
    using assms(2) by (intro pick_rows_spec) (simp add: map_of_filter_keys)
  with assms(1) False show ?thesis by (auto simp: load_rows_def map_of_filter_keys split: option.splits)
qed (use assms in \<open>simp add: load_rows_def\<close>)

definition leased :: "ClaimOptions \<Rightarrow> string \<times> gormRecord \<Rightarrow> string \<times> gormRecord" where
  "leased o' row = (fst row, lease_row o' (g_Attempts (snd row) + 1) (snd row))"

lemma lease_rows_spec:
  "lease_rows codec env o' cs t = Inr (claimed, t') \<Longrightarrow> distinct (map fst cs) \<Longrightarrow> \<forall>row \<in> set cs. map_of t (fst row) = Some (snd row) \<Longrightarrow>
     claimed = map (leased o') cs \<and> t' = fold (\<lambda>row. AList.update (fst row) (snd row)) (map (leased o') cs) t \<and>
     (\<forall>row \<in> set cs. \<exists>x. decodeGORMRecord codec row = Inr x)"
proof (induction cs arbitrary: t claimed)
  case (Cons kc cs)
  obtain k c where kc: "kc = (k, c)" by (cases kc)
  with Cons.prems(3) have r: "map_of t k = Some c" by auto
  let ?t = "AList.update k (lease_row o' (g_Attempts c + 1) c) t"
  from Cons.prems(1) kc r obtain x rest where x: "decodeGORMRecord codec (k, c) = Inr x"
    and rest: "lease_rows codec env o' cs ?t = Inr (rest, t')" "claimed = (k, lease_row o' (g_Attempts c + 1) c) # rest"
    by (auto split: sum.splits option.splits)
  have "\<forall>row \<in> set cs. map_of ?t (fst row) = Some (snd row)"
    using Cons.prems(2,3) kc by (auto simp: update_conv')
  from Cons.IH [OF rest(1) _ this] Cons.prems(2) x rest(2) kc show ?case by (simp add: leased_def)
qed simp

lemma decode_rows_spec:
  "\<forall>row \<in> set rows. \<exists>x. decodeGORMRecord codec row = Inr x \<Longrightarrow>
     \<exists>rs. decode_rows codec rows = Inr rs \<and> list_all2 (\<lambda>row r. decodeGORMRecord codec row = Inr r) rows rs"
proof (induction rows)
  case (Cons row rows)
  then obtain rs x where "decode_rows codec rows = Inr rs" "list_all2 (\<lambda>row r. decodeGORMRecord codec row = Inr r) rows rs"
    "decodeGORMRecord codec row = Inr x" by auto
  then show ?case by simp
qed simp


lemma decode_all_leased:
  assumes "\<forall>row \<in> set cs. \<exists>x. decodeGORMRecord codec row = Inr x"
  shows "\<forall>row \<in> set (map (leased o') cs). \<exists>x. decodeGORMRecord codec row = Inr x"
proof
  fix row assume "row \<in> set (map (leased o') cs)"
  then obtain k r where "(k, r) \<in> set cs" "row = (k, lease_row o' (g_Attempts r + 1) r)" by (auto simp: leased_def)
  with assms decode_lease show "\<exists>x. decodeGORMRecord codec row = Inr x" by blast
qed

text \<open>A committed claim: the rows it leased, and that decoding them again, outside the transaction, cannot fail.\<close>

lemma claim_tx_spec:
  assumes t: "distinct (map fst t)" and run: "claim_tx st codec env o' t = Inr (claimed, t')"
  obtains ids rs where "candidate_ids st env o' t = Inr ids" "distinct ids"
    "claimed = map (\<lambda>k. leased o' (k, the (map_of t k))) ids"
    "t' = fold (\<lambda>row. AList.update (fst row) (snd row)) claimed t"
    "decode_rows codec claimed = Inr rs" "list_all2 (\<lambda>row r. decodeGORMRecord codec row = Inr r) claimed rs"
    "\<forall>k \<in> set ids. \<exists>x. decodeGORMRecord codec (k, the (map_of t k)) = Inr x"
proof -
  from run obtain ids cs where ids: "candidate_ids st env o' t = Inr ids" and cs: "load_rows env ids t = Inr cs"
    and rows: "lease_rows codec env o' cs t = Inr (claimed, t')"
    by (auto simp: claim_tx_def split: option.splits sum.splits)
  note d = candidate_ids_spec [OF t ids]
  have present: "\<forall>k \<in> set ids. map_of t k \<noteq> None" using d(2) by fastforce
  note c = load_rows_spec [OF cs present]
  have "map fst cs = ids" unfolding c by (simp add: comp_def)
  moreover have "\<forall>row \<in> set cs. map_of t (fst row) = Some (snd row)" unfolding c using present by auto
  ultimately have s: "claimed = map (leased o') cs" "t' = fold (\<lambda>row. AList.update (fst row) (snd row)) claimed t"
      "\<forall>row \<in> set cs. \<exists>x. decodeGORMRecord codec row = Inr x"
    using lease_rows_spec [OF rows] d(1) by auto
  obtain rs where "decode_rows codec claimed = Inr rs" "list_all2 (\<lambda>row r. decodeGORMRecord codec row = Inr r) claimed rs"
    using decode_rows_spec [OF decode_all_leased [OF s(3)]] s(1) by blast
  moreover have "claimed = map (\<lambda>k. leased o' (k, the (map_of t k))) ids" unfolding s(1) c by simp
  moreover have "\<forall>k \<in> set ids. \<exists>x. decodeGORMRecord codec (k, the (map_of t k)) = Inr x" using s(3) unfolding c by simp
  ultimately show ?thesis using that [OF ids d(1) _ s(2)] by blast
qed

lemma decoded_ids: "list_all2 (\<lambda>row r. decodeGORMRecord codec row = Inr r) rows rs \<Longrightarrow> map ob_ID rs = map fst rows"
  by (induction rule: list_all2_induct) (auto dest: decode_fields(1))

lemma fold_update_rows:
  "distinct (map fst rows) \<Longrightarrow> list_all2 (\<lambda>row r. decodeGORMRecord codec row = Inr r) rows rs \<Longrightarrow>
     gormbox_lookup codec (fold (\<lambda>row. AList.update (fst row) (snd row)) rows t) k =
       (case find (\<lambda>r. ob_ID r = k) rs of Some r \<Rightarrow> Some r | None \<Rightarrow> gormbox_lookup codec t k)"
proof (induction rows arbitrary: t rs)
  case (Cons row rows)
  then obtain r rest where rs: "rs = r # rest" and r: "decodeGORMRecord codec row = Inr r"
    and rest: "list_all2 (\<lambda>row r. decodeGORMRecord codec row = Inr r) rows rest" by (auto simp: list_all2_Cons1)
  have id: "ob_ID r = fst row" using decode_fields(1) [of codec "fst row" "snd row"] r by simp
  from decoded_ids [OF rest] Cons.prems(1) have "find (\<lambda>r. ob_ID r = k) rest = None" if "ob_ID r = k"
    using that id by (auto simp: find_None_iff) (metis image_eqI list.set_map)
  with Cons.IH [OF _ rest, of "AList.update (fst row) (snd row) t"] Cons.prems(1) gormbox_lookup_update [of codec "fst row" "snd row" r t] r rs id
  show ?case by (auto split: option.split)
qed simp


lemma gormbox_inv_leased:
  assumes "gormbox_inv codec t" "\<forall>row \<in> set rows. \<exists>x. decodeGORMRecord codec row = Inr x"
  shows "gormbox_inv codec (fold (\<lambda>row. AList.update (fst row) (snd row)) rows t)"
  using assms
proof (induction rows arbitrary: t)
  case (Cons row rows)
  then show ?case using gormbox_inv_update [of codec t "snd row" "fst row"] by simp
qed simp

lemma lease_rows_decodable:
  "lease_rows codec env o' cs t = Inr (claimed, t') \<Longrightarrow> \<exists>rs. decode_rows codec claimed = Inr rs"
proof (induction cs arbitrary: t claimed)
  case (Cons kc cs)
  obtain k c where kc: "kc = (k, c)" by (cases kc)
  with Cons.prems obtain x r rest where x: "decodeGORMRecord codec (k, c) = Inr x"
    and rest: "lease_rows codec env o' cs (AList.update k (lease_row o' (g_Attempts c + 1) r) t) = Inr (rest, t')"
      "claimed = (k, lease_row o' (g_Attempts c + 1) c) # rest"
    by (auto split: sum.splits option.splits)
  from Cons.IH [OF rest(1)] decode_lease [OF x, of o'] rest(2) show ?case by auto
qed simp

lemma gormbox_Claim_error: "gormbox_Claim store codec clock env options t = (Inl e, t') \<Longrightarrow> t' = t"
  by (auto simp: gormbox_Claim_def claim_tx_def Let_def split: option.splits if_splits sum.splits dest: lease_rows_decodable)

lemma gormbox_Claim_spec:
  assumes inv: "gormbox_inv codec t" and run: "gormbox_Claim store codec clock env options t = (Inr rs, t')"
  defines "o' \<equiv> normalizeClaim clock options"
  obtains st ids where "store = Some st" "co_Owner o' \<noteq> []" "candidate_ids st env o' t = Inr ids" "distinct ids"
    "list_all2 (\<lambda>k r. \<exists>r0. decodeGORMRecord codec (k, the (map_of t k)) = Inr r0 \<and> r = claim_record o' r0) ids rs"
    "gormbox_inv codec t'" "\<And>k. gormbox_lookup codec t' k = (case find (\<lambda>r. ob_ID r = k) rs of Some r \<Rightarrow> Some r | None \<Rightarrow> gormbox_lookup codec t k)"
proof -
  from run obtain st claimed where st: "store = Some st" "co_Owner o' \<noteq> []" and tx: "claim_tx st codec env o' t = Inr (claimed, t')"
    and rs: "decode_rows codec claimed = Inr rs"
    by (auto simp: gormbox_Claim_def o'_def Let_def split: option.splits if_splits sum.splits)
  from inv have "distinct (map fst t)" by (simp add: gormbox_inv_def)
  from this tx obtain ids rs' where ids: "candidate_ids st env o' t = Inr ids" "distinct ids"
    and claimed: "claimed = map (\<lambda>k. leased o' (k, the (map_of t k))) ids"
    and t': "t' = fold (\<lambda>row. AList.update (fst row) (snd row)) claimed t"
    and rs': "decode_rows codec claimed = Inr rs'" "list_all2 (\<lambda>row r. decodeGORMRecord codec row = Inr r) claimed rs'"
    and dec: "\<forall>k \<in> set ids. \<exists>x. decodeGORMRecord codec (k, the (map_of t k)) = Inr x"
    by (rule claim_tx_spec)
  have all: "list_all2 (\<lambda>row r. decodeGORMRecord codec row = Inr r) claimed rs" using rs rs' by simp
  have "map fst claimed = ids" unfolding claimed by (simp add: comp_def leased_def)
  with ids(2) have d: "distinct (map fst claimed)" by simp
  have rec: "list_all2 (\<lambda>k r. \<exists>r0. decodeGORMRecord codec (k, the (map_of t k)) = Inr r0 \<and> r = claim_record o' r0) ids rs"
  proof (rule list.rel_mono_strong [OF all [unfolded claimed list_all2_map1]])
    fix k r assume k: "k \<in> set ids" and r: "decodeGORMRecord codec (leased o' (k, the (map_of t k))) = Inr r"
    from dec k obtain r0 where r0: "decodeGORMRecord codec (k, the (map_of t k)) = Inr r0" by blast
    with r decode_lease [OF r0, of o'] show "\<exists>r0. decodeGORMRecord codec (k, the (map_of t k)) = Inr r0 \<and> r = claim_record o' r0"
      by (simp add: leased_def)
  qed
  have "gormbox_inv codec t'"
    unfolding t' using all by (intro gormbox_inv_leased [OF inv]) (blast dest: list_all2_mem_left)
  with fold_update_rows [OF d all, of t] t' show ?thesis using that [OF st ids rec] by simp
qed


section \<open>The store keeps the contract with the dispatcher\<close>

lemma updateOwned_error: "updateOwned store err k w f t = (Some e, t') \<Longrightarrow> t' = t"
  by (auto simp: updateOwned_def split: option.splits if_splits)

lemma updateOwned_done:
  assumes "gormbox_inv codec t" "updateOwned store err k w f t = (None, t')"
    and settle: "\<And>r x. decodeGORMRecord codec (k, r) = Inr x \<Longrightarrow> decodeGORMRecord codec (k, f r) = Inr (g x)"
  shows "gormbox_inv codec t' \<and> (\<exists>r. gormbox_lookup codec t k = Some r \<and> LeaseOwner r = w \<and>
    gormbox_lookup codec t' = (gormbox_lookup codec t)(k \<mapsto> g r))"
proof -
  from assms(2) obtain r where r: "map_of t k = Some r" "g_Status r = StatusInFlight" "g_LeaseOwner r = w" "t' = AList.update k (f r) t"
    by (auto simp: updateOwned_def split: option.splits if_splits)
  from in_flight_decodes [OF assms(1) r(1,2)] obtain x where x: "decodeGORMRecord codec (k, r) = Inr x" "gormbox_lookup codec t k = Some x"
    by blast
  from gormbox_inv_update [OF assms(1)] settle [OF x(1)] r(4) have "gormbox_inv codec t'" by blast
  moreover from gormbox_lookup_update [OF settle [OF x(1)]] r(4) have "gormbox_lookup codec t' = (gormbox_lookup codec t)(k \<mapsto> g x)" by simp
  ultimately show ?thesis using x(2) decode_fields(3) [OF x(1)] r(3) by simp
qed

lemma updateOwned_succeeds:
  assumes "gormbox_lookup codec t k = Some r" "ob_Status r = StatusInFlight" "LeaseOwner r = w"
  shows "fst (updateOwned (Some st) None k w f t) = None"
proof -
  from assms(1) obtain row where row: "map_of t k = Some row" "decodeGORMRecord codec (k, row) = Inr r"
    by (cases "map_of t k"; cases "decodeGORMRecord codec (k, the (map_of t k))") (auto simp: gormbox_lookup_def)
  with decode_fields(2,3) [OF row(2)] assms(2,3) show ?thesis by (simp add: updateOwned_def)
qed

lemma gormbox_Claim_ids:
  assumes inv: "gormbox_inv codec t" and run: "gormbox_Claim (Some st) codec clock env options t = (Inr rs, t')"
  shows "candidate_ids st env (normalizeClaim clock options) t = Inr (map ob_ID rs)" and "distinct (map ob_ID rs)"
proof -
  from inv run obtain ids st' where ids: "Some st = Some st'" "candidate_ids st' env (normalizeClaim clock options) t = Inr ids" "distinct ids" and
    rs: "list_all2 (\<lambda>k r. \<exists>r0. decodeGORMRecord codec (k, the (map_of t k)) = Inr r0 \<and> r = claim_record (normalizeClaim clock options) r0) ids rs"
    by (rule gormbox_Claim_spec) (rule that)
  have "map ob_ID rs = ids" using rs by (induction rule: list_all2_induct) (auto dest: decode_fields(1))
  with ids show "candidate_ids st env (normalizeClaim clock options) t = Inr (map ob_ID rs)" and "distinct (map ob_ID rs)" by auto
qed

lemma gormbox_Claim_in_flight:
  assumes inv: "gormbox_inv codec t" and run: "gormbox_Claim (Some st) codec clock env options t = (Inr rs, t')" and r: "r \<in> set rs"
  shows "gormbox_lookup codec t' (ob_ID r) = Some r \<and> ob_Status r = StatusInFlight \<and> LeaseOwner r = trim_space (co_Owner options)"
proof -
  let ?o = "normalizeClaim clock options"
  from inv run obtain ids where
    rs: "list_all2 (\<lambda>k r. \<exists>r0. decodeGORMRecord codec (k, the (map_of t k)) = Inr r0 \<and> r = claim_record ?o r0) ids rs"
    and look: "\<And>k. gormbox_lookup codec t' k = (case find (\<lambda>r. ob_ID r = k) rs of Some r \<Rightarrow> Some r | None \<Rightarrow> gormbox_lookup codec t k)"
    by (rule gormbox_Claim_spec) (rule that)
  have "find (\<lambda>r'. ob_ID r' = ob_ID r) rs = Some r"
    using gormbox_Claim_ids(2) [OF inv run] r by (induction rs) (auto simp: image_iff)
  moreover obtain r0 where "r = claim_record ?o r0" using list_all2_mem_right [OF rs r] by blast
  ultimately show ?thesis using look by (simp add: normalizeClaim_owner)
qed

lemmas gorm_transitions = gormbox_MarkPublished_def gormbox_Retry_def gormbox_DeadLetter_def

interpretation gob: outbox_store "gorm_outbox_store (Some st) codec errtext clock env" "gormbox_lookup codec" "gormbox_inv codec"
  for st codec errtext clock env
proof (unfold_locales, goal_cases)
  case (1 cerr o' s e s') then show ?case using gormbox_Claim_error by (auto simp: gorm_outbox_store_def)
next
  case (2 s cerr o' rs s')
  then show ?case by (auto simp: gorm_outbox_store_def elim: gormbox_Claim_spec)
next
  case (3 s cerr o' rs s') then show ?case using gormbox_Claim_ids(2) by (simp add: gorm_outbox_store_def)
next
  case (4 s cerr o' rs s' r) then show ?case using gormbox_Claim_in_flight by (simp add: gorm_outbox_store_def)
next
  case (5 s cerr o' rs s' k)
  then have "find (\<lambda>r. ob_ID r = k) rs = None" by (auto simp: find_None_iff)
  with 5 show ?case by (auto simp: gorm_outbox_store_def elim: gormbox_Claim_spec)
next
  case (6 cerr k w t s e s') then show ?case using updateOwned_error by (simp add: gorm_outbox_store_def gorm_transitions)
next
  case (7 s cerr k w t s')
  then show ?case using updateOwned_done [OF 7(1) _ decode_settled(1)] by (fastforce simp: gorm_outbox_store_def gorm_transitions)
next
  case (8 cerr k w n cause s e s') then show ?case using updateOwned_error by (simp add: gorm_outbox_store_def gorm_transitions)
next
  case (9 s cerr k w n cause s')
  then show ?case using updateOwned_done [OF 9(1) _ decode_settled(2)] by (fastforce simp: gorm_outbox_store_def gorm_transitions)
next
  case (10 cerr k w cause s e s') then show ?case using updateOwned_error by (simp add: gorm_outbox_store_def gorm_transitions)
next
  case (11 s cerr k w cause s')
  then show ?case using updateOwned_done [OF 11(1) _ decode_settled(3)] by (fastforce simp: gorm_outbox_store_def gorm_transitions)
next
  case (12 s k r w) then show ?case using updateOwned_succeeds by (simp add: gorm_outbox_store_def gorm_transitions)
qed


section \<open>Concurrent claims\<close>




















section \<open>From enqueue to claim\<close>

lemma length_filter_disjoint: "\<forall>x. \<not> (P x \<and> Q x) \<Longrightarrow> length (filter P xs) + length (filter Q xs) \<le> length xs"
proof (induction xs)
  case (Cons x xs)
  from Cons.IH [OF Cons.prems] Cons.prems [rule_format, of x] show ?case by auto
qed simp

lemma due_selected:
  assumes "int (length t) \<le> co_Limit o'" "(k, r) \<in> set t" "is_due o' (k, r)" "visible st env (k, r)" "candidate_ids st env o' t = Inr ids"
  shows "k \<in> set ids"
proof -
  let ?E = "filter (\<lambda>row. is_expired o' row \<and> visible st env row) t" and ?D = "filter (\<lambda>row. is_due o' row \<and> visible st env row) t"
  have "length ?E + length ?D \<le> length t" by (rule length_filter_disjoint) (auto simp: is_expired_def is_due_def)
  moreover have kD: "(k, r) \<in> set ?D" using assms(2-4) by simp
  then have "0 < length ?D" by (metis length_pos_if_in_set)
  moreover have "length (expired_ids st env o' t) \<le> length ?E" by (simp add: expired_ids_def)
  ultimately have rest: "int (length ?D) \<le> co_Limit o' - int (length (expired_ids st env o' t))" "0 < length ?D" using assms(1) by linarith+
  then have "pending_ids st env o' (nat (co_Limit o' - int (length (expired_ids st env o' t)))) t = map fst (sort_key due_order ?D)"
    by (simp add: pending_ids_def)
  moreover have "0 < co_Limit o' - int (length (expired_ids st env o' t))" using rest by linarith
  ultimately have "ids = expired_ids st env o' t @ map fst (sort_key due_order ?D)"
    using assms(5) by (simp add: candidate_ids_def Let_def split: option.splits)
  with kD show ?thesis by force
qed

lemma gormbox_Enqueue_row:
  assumes "gormbox_Enqueue (Some st) codec env e t = (None, t')" "gormbox_prepare (Some st) env e = Inr n"
  obtains bs where "jc_Marshal codec n = Inr bs" "map_of t (env_ID n) = None" "t' = AList.update (env_ID n) (new_row (ee_now env) n bs) t"
  using assms by (auto simp: gormbox_Enqueue_def gormbox_insert_def split: sum.splits option.splits if_splits)

text \<open>Property C22: what is enqueued in the database comes back from a claim. An envelope that was enqueued without error and
  whose encoding decodes to it is returned by every claim from then on that is large enough for the table and finds the
  row unlocked: as prepared for publication, on its first attempt, under the lease of the claiming worker.\<close>

theorem gorm_enqueue_claim_roundtrip:
  assumes inv: "gormbox_inv codec t" and enq: "gormbox_Enqueue (Some st) codec env e t = (None, t1)"
    and prep: "gormbox_prepare (Some st) env e = Inr n"
    and codec: "\<And>bs. jc_Marshal codec n = Inr bs \<Longrightarrow> jc_Unmarshal codec bs = Inr n"
    and claim: "gormbox_Claim (Some st) codec clock tx options t1 = (Inr rs, t2)"
    and free: "\<not> tx_locked tx (env_ID n)" and due: "ee_now env \<le> co_Now (normalizeClaim clock options)"
    and room: "int (length t1) \<le> co_Limit (normalizeClaim clock options)"
  shows "\<exists>r \<in> set rs. ob_ID r = env_ID n \<and> ob_Envelope r = n \<and> Attempts r = 1 \<and> ob_Status r = StatusInFlight \<and>
    LeaseOwner r = trim_space (co_Owner options)"
proof -
  let ?o = "normalizeClaim clock options"
  from enq prep obtain bs where bs: "jc_Marshal codec n = Inr bs" "map_of t (env_ID n) = None"
    and t1: "t1 = AList.update (env_ID n) (new_row (ee_now env) n bs) t" by (rule gormbox_Enqueue_row)
  let ?row = "new_row (ee_now env) n bs"
  have row: "map_of t1 (env_ID n) = Some ?row" unfolding t1 by (simp add: update_conv')
  have inv1: "gormbox_inv codec t1" unfolding t1 by (rule gormbox_inv_update [OF inv]) (simp add: new_row_def)
  have "is_due ?o (env_ID n, ?row)" "visible st tx (env_ID n, ?row)" using due free by (simp_all add: is_due_def new_row_def visible_def)
  from due_selected [OF room map_of_SomeD [OF row] this gormbox_Claim_ids(1) [OF inv1 claim]]
  obtain r where r: "r \<in> set rs" "ob_ID r = env_ID n" by auto
  from inv1 claim obtain ids where
    rs: "list_all2 (\<lambda>k r. \<exists>r0. decodeGORMRecord codec (k, the (map_of t1 k)) = Inr r0 \<and> r = claim_record ?o r0) ids rs"
    by (rule gormbox_Claim_spec) (rule that)
  from list_all2_mem_right [OF rs r(1)] obtain k r0 where k: "decodeGORMRecord codec (k, the (map_of t1 k)) = Inr r0" "r = claim_record ?o r0" by blast
  with decode_fields(1) [OF k(1)] r(2) have "k = env_ID n" by simp
  with k row codec [OF bs(1)] r show ?thesis
    by (intro bexI [OF _ r(1)]) (auto simp: decodeGORMRecord_def Let_def new_row_def normalizeClaim_owner)
qed

section \<open>The dispatcher on the database store\<close>

text \<open>Property C20: a round of the dispatcher on the database store has the outcomes it has on the in-memory store. Whatever the
  interleaving, the answers of the broker and the failures of the database, records it did not claim stay as they were, and
  each claimed record is either still under its lease or settled: published only if the broker accepted it in this round,
  back to pending only after a refusal with attempts left, dead-lettered only when the attempts are used up. When the
  database and the context answer and the worker id is trimmed, every claimed record is settled.\<close>

theorem gorm_dispatch_outcomes:
  assumes "gormbox_inv codec (dw_store w)" and "0 < Concurrency c"
    and "gormbox_Claim (Some st) codec clock (tx\<lparr>tx_begin := None\<rparr>) (claim_options c now) (dw_store w) = (Inr rs, s1)"
    and "RunOnce c (gorm_outbox_store (Some st) codec errtext clock tx) broker None now env schedule w = (res, w')"
  shows "\<exists>new. dw_log w' = dw_log w @ new \<and> gormbox_inv codec (dw_store w') \<and>
    (\<forall>k. k \<notin> ob_ID ` set rs \<longrightarrow> gormbox_lookup codec (dw_store w') k = gormbox_lookup codec (dw_store w) k) \<and>
    (\<forall>r \<in> set rs. gormbox_lookup codec (dw_store w') (ob_ID r) = Some r \<or>
       (\<exists>r'. gormbox_lookup codec (dw_store w') (ob_ID r) = Some r' \<and> settled c new r r')) \<and>
    ((\<forall>i. pe_cancelled (env i) = None \<and> pe_err (env i) = None) \<and> trim_space (WorkerID c) = WorkerID c \<and> WorkerID c \<noteq> [] \<longrightarrow>
      res = None \<and> (\<forall>r \<in> set rs. \<exists>r'. gormbox_lookup codec (dw_store w') (ob_ID r) = Some r' \<and> settled c new r r'))"
proof -
  have claim: "st_Claim (gorm_outbox_store (Some st) codec errtext clock tx) None (claim_options c now) (dw_store w) = (Inr rs, s1)"
    using assms(3) by (simp add: gorm_outbox_store_def)
  from gob.RunOnce_outcome [OF assms(1,2) claim assms(4)] obtain new where new: "dw_log w' = dw_log w @ new" "gormbox_inv codec (dw_store w')"
    "\<forall>k. k \<notin> ob_ID ` set rs \<longrightarrow> gormbox_lookup codec (dw_store w') k = gormbox_lookup codec (dw_store w) k"
    "\<forall>r \<in> set rs. gormbox_lookup codec (dw_store w') (ob_ID r) = Some r \<or>
       (\<exists>r'. gormbox_lookup codec (dw_store w') (ob_ID r) = Some r' \<and> settled c new r r')" by blast
  have "res = None \<and> (\<forall>r \<in> set rs. \<exists>r'. gormbox_lookup codec (dw_store w') (ob_ID r) = Some r' \<and> settled c new r r')"
    if "\<And>i. pe_cancelled (env i) = None \<and> pe_err (env i) = None" "trim_space (WorkerID c) = WorkerID c" "WorkerID c \<noteq> []"
    using gob.RunOnce_settles [OF assms(1,2) claim assms(4) that] new(1) by auto
  with new show ?thesis by (intro exI [of _ new]) blast
qed


section \<open>Witnesses\<close>

definition ex_codec :: json_codec where
  "ex_codec = \<lparr>jc_Marshal = \<lambda>e. Inr ''j'', jc_Unmarshal = \<lambda>bs. Inr ex_first\<rparr>"

definition ex_gorm :: GORMStore where
  "ex_gorm = \<lparr>gs_table = DefaultTable, gs_skipLocked = True, gs_propagator = None\<rparr>"

definition ex_tx :: tx_env where
  "ex_tx = \<lparr>tx_begin = None, tx_locked = \<lambda>_. False, tx_expired = None, tx_pending = None, tx_load = None, tx_update = \<lambda>_. None, tx_commit = None\<rparr>"

definition ex_row :: gormRecord where "ex_row = new_row 7 ex_first ''j''"

definition ex_leased :: gormRecord where
  "ex_leased = lease_row (normalizeClaim 0 (ex_claim ''t'' 8)) 1 ex_row"

definition ex_returned :: "OutboxRecord list" where
  "ex_returned = [claim_record (normalizeClaim 0 (ex_claim ''t'' 8)) (new_record 7 ex_first)]"

lemma ex_table_inv: "gormbox_inv codec [(''i'', ex_row)]"
  by (simp add: gormbox_inv_def ex_row_def new_row_def)

lemma ex_first_ID: "env_ID ex_first = ''i''"
  by (simp add: ex_first_def fill_envelope_def)

lemma ex_gorm_claim:
  "gormbox_Claim (Some ex_gorm) ex_codec 0 ex_tx (ex_claim ''t'' 8) [(''i'', ex_row)] = (Inr ex_returned, [(''i'', ex_leased)])"
  by (simp add: gormbox_Claim_def claim_tx_def candidate_ids_def expired_ids_def pending_ids_def load_rows_def ex_tx_def is_expired_def is_due_def
      visible_def decodeGORMRecord_def ex_codec_def ex_claim_def normalizeClaim_def ex_row_def new_row_def lease_row_def ex_leased_def
      ex_returned_def new_record_def claim_record_def ex_first_ID ex_gorm_def)



definition ex_enqueue :: enqueue_env where
  "ex_enqueue = \<lparr>ee_raw = ex_raw, ee_clock = 7, ee_now = 7, ee_causality = None, ee_error = None\<rparr>"

lemma ex_prepared: "gormbox_prepare (Some ex_gorm) ex_enqueue (ex_envelope ''i'') = Inr ex_first"
  by (simp add: gormbox_prepare_def ex_gorm_def ex_enqueue_def PrepareForPublish_def inheritEventCausality_def CausalityFromContext_def ex_first_ok)

theorem gorm_enqueue_claim_roundtrip_witness:
  "\<exists>r \<in> set ex_returned. ob_ID r = ''i'' \<and> ob_Envelope r = ex_first \<and> Attempts r = 1"
proof -
  have "gormbox_inv ex_codec []" by (simp add: gormbox_inv_def)
  moreover have "gormbox_Enqueue (Some ex_gorm) ex_codec ex_enqueue (ex_envelope ''i'') [] = (None, [(''i'', ex_row)])"
    by (simp add: gormbox_Enqueue_def gormbox_insert_def ex_prepared) (simp add: ex_codec_def ex_enqueue_def ex_first_ID ex_row_def)
  moreover have "jc_Unmarshal ex_codec bs = Inr ex_first" for bs by (simp add: ex_codec_def)
  moreover have "\<not> tx_locked ex_tx (env_ID ex_first)" "ee_now ex_enqueue \<le> co_Now (normalizeClaim 0 (ex_claim ''t'' 8))"
    "int (length [(''i'', ex_row)]) \<le> co_Limit (normalizeClaim 0 (ex_claim ''t'' 8))"
    by (simp_all add: ex_tx_def ex_enqueue_def normalizeClaim_def ex_claim_def)
  ultimately show ?thesis using gorm_enqueue_claim_roundtrip [OF _ _ ex_prepared _ ex_gorm_claim] by (fastforce simp: ex_first_ID)
qed

definition ex_gorm_world :: "(outbox_table, nat) dispatch_world" where
  "ex_gorm_world = \<lparr>dw_store = [(''i'', ex_row)], dw_broker = 0, dw_log = []\<rparr>"

definition ex_gorm_round :: "goerr option \<times> (outbox_table, nat) dispatch_world" where
  "ex_gorm_round = RunOnce (ex_config ''t'') (gorm_outbox_store (Some ex_gorm) ex_codec (\<lambda>e. []) 0 ex_tx) ex_broker None 8 ex_env [0] ex_gorm_world"

theorem gorm_dispatch_outcomes_witness:
  "fst ex_gorm_round = None \<and> (\<exists>r'. gormbox_lookup ex_codec (dw_store (snd ex_gorm_round)) ''i'' = Some r' \<and>
     settled (ex_config ''t'') (dw_log (snd ex_gorm_round)) (hd ex_returned) r')"
proof -
  have run: "RunOnce (ex_config ''t'') (gorm_outbox_store (Some ex_gorm) ex_codec (\<lambda>e. []) 0 ex_tx) ex_broker None 8 ex_env [0] ex_gorm_world =
      (fst ex_gorm_round, snd ex_gorm_round)" by (simp add: ex_gorm_round_def)
  have conc: "0 < Concurrency (ex_config ''t'')" by (simp add: ex_config_def)
  have "claim_options (ex_config ''t'') 8 = ex_claim ''t'' 8" "ex_tx\<lparr>tx_begin := None\<rparr> = ex_tx"
    by (simp_all add: claim_options_def ex_config_def ex_claim_def ex_tx_def)
  then have claim: "gormbox_Claim (Some ex_gorm) ex_codec 0 (ex_tx\<lparr>tx_begin := None\<rparr>) (claim_options (ex_config ''t'') 8) (dw_store ex_gorm_world) =
      (Inr ex_returned, [(''i'', ex_leased)])" using ex_gorm_claim by (simp add: ex_gorm_world_def)
  have inv: "gormbox_inv ex_codec (dw_store ex_gorm_world)" using ex_table_inv by (simp add: ex_gorm_world_def)
  have r: "hd ex_returned \<in> set ex_returned" "ob_ID (hd ex_returned) = ''i''" by (simp_all add: ex_returned_def new_record_def ex_first_ID)
  have env: "\<forall>i. pe_cancelled (ex_env i) = None \<and> pe_err (ex_env i) = None" by (simp add: ex_env_def)
  have w: "trim_space (WorkerID (ex_config ''t'')) = WorkerID (ex_config ''t'')" "WorkerID (ex_config ''t'') \<noteq> []" by (simp_all add: ex_config_def)
  have "dw_log ex_gorm_world = []" by (simp add: ex_gorm_world_def)
  with gorm_dispatch_outcomes [OF inv conc claim run] env w r show ?thesis by fastforce
qed

end
