(* ===== verification/Saga.thy ===== *)
theory Saga
  imports OutboxGorm ExecScope
begin

text \<open>
  Sagas (\<open>framework/workflow/saga/plan.go\<close>, \<open>stage.go\<close>): a plan of remote commands is turned into envelopes with
  deterministic ids and staged in the outbox within the caller's transaction. The digest \<open>sha256.Sum256\<close> is the argument
  \<open>sha\<close>; the time each \<open>Normalize\<close> reads is \<open>clock\<close> at the position of its step. A transactional store is a function of
  the number of the call, so that every call meets its own time and its own errors. The locale \<open>tx_outbox\<close> is what
  staging relies on; the database store of \<open>OutboxGorm\<close> interprets it.
\<close>

section \<open>Plans\<close>

record Command =
  cmd_Topic :: string
  cmd_Type :: string
  cmd_Payload :: string

record Step =
  step_ID :: string
  step_Command :: Command
  step_Compensation :: "Command option"

record SagaPlan =
  sg_ID :: string
  sg_IdempotencyKey :: string
  sg_Source :: string
  sg_Steps :: "Step list"

definition ErrInvalidPlan :: goerr where "ErrInvalidPlan = Err ''saga: invalid plan'' []"

definition blank :: "string \<Rightarrow> bool" where
  "blank s = (trim_space s = [])"

fun validate_steps :: "string list \<Rightarrow> Step list \<Rightarrow> goerr option" where
  "validate_steps seen [] = None"
| "validate_steps seen (step # steps) =
     (let ident = trim_space (step_ID step) in
      if ident = [] \<or> blank (cmd_Topic (step_Command step)) \<or> blank (cmd_Type (step_Command step)) then Some ErrInvalidPlan
      else if ident \<in> set seen then Some (Wrap ''%w: duplicate step %s'' [ident] ErrInvalidPlan)
      else if (case step_Compensation step of None \<Rightarrow> False | Some c \<Rightarrow> blank (cmd_Topic c) \<or> blank (cmd_Type c)) then Some ErrInvalidPlan
      else validate_steps (ident # seen) steps)"

definition saga_Validate :: "SagaPlan \<Rightarrow> goerr option" where
  "saga_Validate plan =
     (if blank (sg_ID plan) \<or> blank (sg_IdempotencyKey plan) \<or> sg_Steps plan = [] then Some ErrInvalidPlan
      else validate_steps [] (sg_Steps plan))"

section \<open>Envelopes\<close>

definition NUL :: char where "NUL = CHR 0x00"

fun join_nul :: "string list \<Rightarrow> string" where
  "join_nul [] = []"
| "join_nul [s] = s"
| "join_nul (s # t # ss) = s @ NUL # join_nul (t # ss)"

definition deterministicID :: "(string \<Rightarrow> string) \<Rightarrow> string list \<Rightarrow> string" where
  "deterministicID sha parts = hex_encode (take 16 (sha (join_nul parts)))"

fun digits_loop :: "nat \<Rightarrow> string \<Rightarrow> string" where
  "digits_loop n acc =
     (let acc' = char_of (48 + n mod 10) # acc in if n < 10 then acc' else digits_loop (n div 10) acc')"

declare digits_loop.simps [simp del]

text \<open>\<open>fmt.Sprint\<close> of a natural number.\<close>

definition decimal :: "nat \<Rightarrow> string" where
  "decimal n = digits_loop n []"

definition command_id :: "(string \<Rightarrow> string) \<Rightarrow> SagaPlan \<Rightarrow> Step \<Rightarrow> string" where
  "command_id sha plan step = deterministicID sha [''saga'', sg_IdempotencyKey plan, step_ID step]"

definition compensation_id :: "(string \<Rightarrow> string) \<Rightarrow> SagaPlan \<Rightarrow> Step \<Rightarrow> string" where
  "compensation_id sha plan step = deterministicID sha [''saga-compensation'', sg_IdempotencyKey plan, step_ID step]"

definition saga_envelope :: "SagaPlan \<Rightarrow> string \<Rightarrow> Step \<Rightarrow> Command \<Rightarrow> (string \<times> string) list \<Rightarrow> Envelope" where
  "saga_envelope plan ident step command metadata =
     \<lparr>SchemaVersionE = 0, env_ID = ident, Topic = cmd_Topic command, env_Type = cmd_Type command, Source = sg_Source plan,
      env_Subject = step_ID step, CorrelationID = sg_ID plan, CausationID = [], OccurredAt = 0, ContentType = [], DeliveryAttempt = 0,
      Payload = cmd_Payload command, env_Metadata = metadata\<rparr>"

definition command_metadata :: "SagaPlan \<Rightarrow> nat \<Rightarrow> Step \<Rightarrow> (string \<times> string) list" where
  "command_metadata plan index step =
     [(''saga.id'', sg_ID plan), (''saga.step'', step_ID step), (''saga.index'', decimal index), (''idempotency.key'', sg_IdempotencyKey plan)] @
     (case step_Compensation step of
        None \<Rightarrow> []
      | Some c \<Rightarrow> [(''saga.compensation.topic'', cmd_Topic c), (''saga.compensation.type'', cmd_Type c)])"

definition compensation_metadata :: "SagaPlan \<Rightarrow> Step \<Rightarrow> (string \<times> string) list" where
  "compensation_metadata plan step =
     [(''saga.id'', sg_ID plan), (''saga.step'', step_ID step), (''idempotency.key'', sg_IdempotencyKey plan), (''saga.compensation'', ''true'')]"

fun command_envelopes ::
  "(string \<Rightarrow> string) \<Rightarrow> string result \<Rightarrow> (nat \<Rightarrow> int) \<Rightarrow> SagaPlan \<Rightarrow> nat \<Rightarrow> Step list \<Rightarrow> Envelope list result" where
  "command_envelopes sha raw clock plan index [] = Inr []"
| "command_envelopes sha raw clock plan index (step # steps) =
     (case EnvelopeNormalize raw (clock index)
        (saga_envelope plan (command_id sha plan step) step (step_Command step) (command_metadata plan index step)) of
        Inl e \<Rightarrow> Inl e
      | Inr envelope \<Rightarrow>
        (case command_envelopes sha raw clock plan (Suc index) steps of Inl e \<Rightarrow> Inl e | Inr rest \<Rightarrow> Inr (envelope # rest)))"

definition Envelopes :: "(string \<Rightarrow> string) \<Rightarrow> string result \<Rightarrow> (nat \<Rightarrow> int) \<Rightarrow> SagaPlan \<Rightarrow> Envelope list result" where
  "Envelopes sha raw clock plan =
     (case saga_Validate plan of Some e \<Rightarrow> Inl e | None \<Rightarrow> command_envelopes sha raw clock plan 0 (sg_Steps plan))"

text \<open>The loop counts down from the last completed step; here it runs over the completed steps in reverse.\<close>

fun undo_envelopes ::
  "(string \<Rightarrow> string) \<Rightarrow> string result \<Rightarrow> (nat \<Rightarrow> int) \<Rightarrow> SagaPlan \<Rightarrow> Step list \<Rightarrow> Envelope list result" where
  "undo_envelopes sha raw clock plan [] = Inr []"
| "undo_envelopes sha raw clock plan (step # steps) =
     (case step_Compensation step of
        None \<Rightarrow> undo_envelopes sha raw clock plan steps
      | Some c \<Rightarrow>
        (case EnvelopeNormalize raw (clock (length steps))
           (saga_envelope plan (compensation_id sha plan step) step c (compensation_metadata plan step)) of
           Inl e \<Rightarrow> Inl e
         | Inr envelope \<Rightarrow>
           (case undo_envelopes sha raw clock plan steps of Inl e \<Rightarrow> Inl e | Inr rest \<Rightarrow> Inr (envelope # rest))))"

definition CompensationEnvelopes :: "(string \<Rightarrow> string) \<Rightarrow> string result \<Rightarrow> (nat \<Rightarrow> int) \<Rightarrow> SagaPlan \<Rightarrow> int \<Rightarrow> Envelope list result" where
  "CompensationEnvelopes sha raw clock plan completed =
     (case saga_Validate plan of
        Some e \<Rightarrow> Inl e
      | None \<Rightarrow>
        if completed < 0 \<or> completed > int (length (sg_Steps plan)) then Inl ErrInvalidPlan
        else undo_envelopes sha raw clock plan (rev (take (nat completed) (sg_Steps plan))))"

section \<open>Staging\<close>

type_synonym ('t, 's) tx_store = "nat \<Rightarrow> 't \<Rightarrow> Envelope \<Rightarrow> 's \<Rightarrow> goerr option \<times> 's"

fun enqueue_all :: "('t, 's) tx_store \<Rightarrow> 't \<Rightarrow> nat \<Rightarrow> Envelope list \<Rightarrow> 's \<Rightarrow> goerr option \<times> 's" where
  "enqueue_all store tx n [] s = (None, s)"
| "enqueue_all store tx n (e # es) s =
     (case EnqueueTx (Some (store n)) (Some tx) e s of
        (None, s') \<Rightarrow> enqueue_all store tx (Suc n) es s'
      | (Some err, s') \<Rightarrow> if err_is err ErrDuplicate then enqueue_all store tx (Suc n) es s' else (Some err, s'))"

definition saga_EnqueueTx ::
  "(string \<Rightarrow> string) \<Rightarrow> string result \<Rightarrow> (nat \<Rightarrow> int) \<Rightarrow> ('t, 's) tx_store option \<Rightarrow> 't option \<Rightarrow> SagaPlan \<Rightarrow> 's \<Rightarrow> goerr option \<times> 's" where
  "saga_EnqueueTx sha raw clock store tx plan s =
     (case (store, tx) of
        (Some st, Some h) \<Rightarrow>
          (case Envelopes sha raw clock plan of Inl e \<Rightarrow> (Some e, s) | Inr es \<Rightarrow> enqueue_all st h 0 es s)
      | _ \<Rightarrow> (Some ErrInvalidTx, s))"

definition EnqueueCompensationsTx ::
  "(string \<Rightarrow> string) \<Rightarrow> string result \<Rightarrow> (nat \<Rightarrow> int) \<Rightarrow> ('t, 's) tx_store option \<Rightarrow> 't option \<Rightarrow> SagaPlan \<Rightarrow> int \<Rightarrow> 's \<Rightarrow> goerr option \<times> 's" where
  "EnqueueCompensationsTx sha raw clock store tx plan completed s =
     (case (store, tx) of
        (Some st, Some h) \<Rightarrow>
          (case CompensationEnvelopes sha raw clock plan completed of Inl e \<Rightarrow> (Some e, s) | Inr es \<Rightarrow> enqueue_all st h 0 es s)
      | _ \<Rightarrow> (Some ErrInvalidTx, s))"

definition NewStager :: "('t, 's) tx_store option \<Rightarrow> ('t, 's) tx_store result" where
  "NewStager store = (case store of None \<Rightarrow> Inl (Err ''saga: transactional outbox store is required'' []) | Some st \<Rightarrow> Inr st)"

definition Stage ::
  "(string \<Rightarrow> string) \<Rightarrow> string result \<Rightarrow> (nat \<Rightarrow> int) \<Rightarrow> ('h, 's) tx_store option \<Rightarrow> ('w, 'h) UnitOfWork Context option \<Rightarrow> SagaPlan \<Rightarrow> 's \<Rightarrow> goerr option \<times> 's" where
  "Stage sha raw clock stager ctx plan s =
     (case stager of
        None \<Rightarrow> (Some (Err ''saga: stager unavailable'' []), s)
      | Some st \<Rightarrow>
        (case TransactionHandleFrom ctx of
           Inl e \<Rightarrow> (Some e, s)
         | Inr h \<Rightarrow> saga_EnqueueTx sha raw clock (Some st) (Some h) plan s))"

definition StageCompensations ::
  "(string \<Rightarrow> string) \<Rightarrow> string result \<Rightarrow> (nat \<Rightarrow> int) \<Rightarrow> ('h, 's) tx_store option \<Rightarrow> ('w, 'h) UnitOfWork Context option \<Rightarrow> SagaPlan \<Rightarrow> int \<Rightarrow> 's
     \<Rightarrow> goerr option \<times> 's" where
  "StageCompensations sha raw clock stager ctx plan completed s =
     (case stager of
        None \<Rightarrow> (Some (Err ''saga: stager unavailable'' []), s)
      | Some st \<Rightarrow>
        (case TransactionHandleFrom ctx of
           Inl e \<Rightarrow> (Some e, s)
         | Inr h \<Rightarrow> EnqueueCompensationsTx sha raw clock (Some st) (Some h) plan completed s))"


section \<open>What staging relies on\<close>

text \<open>\<open>filed\<close> is the set of ids a store has records for. A refused call changes nothing; an accepted one files the trimmed id
  of its envelope, which was free; and unless the call has another reason to answer so (\<open>honest\<close>), a duplicate is reported
  only for an id that is filed.\<close>

locale tx_outbox =
  fixes enqueue :: "('t, 's) tx_store" and filed :: "'s \<Rightarrow> string set" and honest :: "nat \<Rightarrow> Envelope \<Rightarrow> bool"
  assumes refused: "enqueue n tx e s = (Some err, s') \<Longrightarrow> s' = s"
    and accepted: "trim_space (env_ID e) \<noteq> [] \<Longrightarrow> enqueue n tx e s = (None, s') \<Longrightarrow>
      trim_space (env_ID e) \<notin> filed s \<and> filed s' = insert (trim_space (env_ID e)) (filed s)"
    and duplicate: "trim_space (env_ID e) \<noteq> [] \<Longrightarrow> enqueue n tx e s = (Some err, s') \<Longrightarrow> honest n e \<Longrightarrow> err_is err ErrDuplicate \<Longrightarrow>
      trim_space (env_ID e) \<in> filed s"
begin

lemma enqueue_all_files:
  "enqueue_all enqueue tx n es s = (None, s') \<Longrightarrow> list_all (\<lambda>e. trim_space (env_ID e) \<noteq> []) es \<Longrightarrow>
     \<forall>i < length es. honest (n + i) (es ! i) \<Longrightarrow> filed s' = filed s \<union> (\<lambda>e. trim_space (env_ID e)) ` set es"
proof (induction es arbitrary: n s)
  case (Cons e es)
  have hon: "honest n e" "\<forall>i < length es. honest (Suc n + i) (es ! i)" using Cons.prems(3) by auto
  from Cons.prems(2) have ids: "trim_space (env_ID e) \<noteq> []" "list_all (\<lambda>e. trim_space (env_ID e) \<noteq> []) es" by auto
  obtain r s1 where call: "enqueue n tx e s = (r, s1)" by fastforce
  show ?case
  proof (cases r)
    case None
    with Cons.prems(1) call have "enqueue_all enqueue tx (Suc n) es s1 = (None, s')" by (simp add: EnqueueTx_def)
    from Cons.IH [OF this ids(2) hon(2)] accepted [OF ids(1)] call None show ?thesis by auto
  next
    case (Some err)
    with Cons.prems(1) call have dup: "err_is err ErrDuplicate" and rest: "enqueue_all enqueue tx (Suc n) es s1 = (None, s')"
      by (auto simp: EnqueueTx_def split: if_splits)
    from call Some refused have "s1 = s" by blast
    with Cons.IH [OF rest ids(2) hon(2)] duplicate [OF ids(1) _ hon(1) dup] call Some show ?thesis by auto
  qed
qed simp

lemma enqueue_all_filed:
  "\<forall>e \<in> set es. trim_space (env_ID e) \<noteq> [] \<and> trim_space (env_ID e) \<in> filed s \<Longrightarrow> snd (enqueue_all enqueue tx n es s) = s"
proof (induction es arbitrary: n)
  case (Cons e es)
  obtain r s1 where call: "enqueue n tx e s = (r, s1)" by fastforce
  with accepted [of e n tx s s1] Cons.prems obtain err where err: "r = Some err" by (cases r) auto
  with call refused have "s1 = s" by blast
  with call err Cons.IH [of "Suc n"] Cons.prems show ?case by (simp add: EnqueueTx_def)
qed simp

end

section \<open>The database store as a transactional outbox\<close>

text \<open>A propagator adds metadata; it does not touch the rest of the envelope.\<close>

definition metadata_store :: "string \<Rightarrow> bool \<Rightarrow> ((string \<times> string) list \<Rightarrow> (string \<times> string) list) option \<Rightarrow> GORMStore" where
  "metadata_store table skip inject =
     \<lparr>gs_table = table, gs_skipLocked = skip, gs_propagator = map_option (\<lambda>f e. e\<lparr>env_Metadata := f (env_Metadata e)\<rparr>) inject\<rparr>"

definition gorm_honest :: "GORMStore \<Rightarrow> json_codec \<Rightarrow> (nat \<Rightarrow> enqueue_env) \<Rightarrow> nat \<Rightarrow> Envelope \<Rightarrow> bool" where
  "gorm_honest st codec env n e \<longleftrightarrow>
     (case gormbox_prepare (Some st) (env n) e of
        Inl x \<Rightarrow> \<not> err_is x ErrDuplicate
      | Inr p \<Rightarrow> (case jc_Marshal codec p of Inl x \<Rightarrow> \<not> err_is x ErrDuplicate | Inr _ \<Rightarrow> True)) \<and>
     (case ee_error (env n) of None \<Rightarrow> True | Some x \<Rightarrow> \<not> err_is x ErrDuplicate)"

lemma EnvelopeNormalize_ID:
  "EnvelopeNormalize raw now e = Inr n \<Longrightarrow> trim_space (env_ID e) \<noteq> [] \<Longrightarrow> env_ID n = trim_space (env_ID e)"
  by (auto elim!: EnvelopeNormalize_cases simp: fill_envelope_def trim_envelope_def)

lemma inherit_ID: "env_ID (inheritEventCausality ctx e) = env_ID e"
  by (simp add: inheritEventCausality_def Let_def split: option.split)

lemma prepare_ID:
  assumes "gormbox_prepare (Some (metadata_store table skip inject)) env e = Inr n" "trim_space (env_ID e) \<noteq> []"
  shows "env_ID n = trim_space (env_ID e)"
proof -
  from assms(1) obtain m where m: "EnvelopeNormalize (ee_raw env) (ee_clock env) (inheritEventCausality (ee_causality env) e) = Inr m"
    and n: "case inject of None \<Rightarrow> n = m | Some f \<Rightarrow> EnvelopeNormalize (ee_raw env) (ee_clock env) (m\<lparr>env_Metadata := f (env_Metadata m)\<rparr>) = Inr n"
    by (auto simp: gormbox_prepare_def PrepareForPublish_def metadata_store_def split: sum.splits option.splits)
  from EnvelopeNormalize_ID [OF m] assms(2) have "env_ID m = trim_space (env_ID e)" by (simp add: inherit_ID)
  with n assms(2) show ?thesis by (cases inject) (auto dest!: EnvelopeNormalize_ID)
qed

definition gorm_tx :: "GORMStore \<Rightarrow> json_codec \<Rightarrow> (nat \<Rightarrow> enqueue_env) \<Rightarrow> (unit option, outbox_table) tx_store" where
  "gorm_tx st codec env n tx e t = gormbox_EnqueueTx (Some st) codec (env n) tx e t"

lemma ErrInvalidTx_not_duplicate: "\<not> err_is ErrInvalidTx ErrDuplicate"
  by (simp add: ErrInvalidTx_def ErrDuplicate_def)

lemma update_keys: "fst ` set (AList.update k v t) = insert k (fst ` set t)"
  by (induction t) auto

interpretation gtx: tx_outbox "gorm_tx (metadata_store table skip inject) codec env" "\<lambda>t. fst ` set t"
    "gorm_honest (metadata_store table skip inject) codec env"
  for table skip inject codec env
proof (unfold_locales, goal_cases)
  case (1 n tx e s err s')
  then show ?case
    by (auto simp: gorm_tx_def gormbox_EnqueueTx_def gormbox_insert_def split: option.splits sum.splits if_splits)
next
  case (2 e n tx s s')
  then obtain p bs where p: "gormbox_prepare (Some (metadata_store table skip inject)) (env n) e = Inr p"
    and free: "map_of s (env_ID p) = None" and s': "s' = AList.update (env_ID p) (new_row (ee_now (env n)) p bs) s"
    by (auto simp: gorm_tx_def gormbox_EnqueueTx_def gormbox_insert_def split: option.splits sum.splits if_splits)
  from free show ?case unfolding s' update_keys prepare_ID [OF p 2(1)] by (simp add: map_of_eq_None_iff)
next
  case (3 e n tx s err s')
  then obtain p where p: "gormbox_prepare (Some (metadata_store table skip inject)) (env n) e = Inr p"
    and "map_of s (env_ID p) \<noteq> None"
    by (auto simp: gorm_tx_def gormbox_EnqueueTx_def gormbox_insert_def gorm_honest_def ErrInvalidTx_not_duplicate
        split: option.splits sum.splits if_splits)
  then show ?case unfolding prepare_ID [OF p 3(1)] by (simp add: map_of_eq_None_iff)
qed


section \<open>Ids\<close>

definition digest_ok :: "(string \<Rightarrow> string) \<Rightarrow> bool" where
  "digest_ok sha \<longleftrightarrow> (\<forall>m. length (sha m) = 32)"

text \<open>The messages hashed for the steps of a plan, and that the ids are long enough to tell them apart.\<close>

definition messages :: "string \<Rightarrow> SagaPlan \<Rightarrow> string set" where
  "messages kind plan = (\<lambda>step. join_nul [kind, sg_IdempotencyKey plan, step_ID step]) ` set (sg_Steps plan)"

definition collision_free :: "(string \<Rightarrow> string) \<Rightarrow> SagaPlan \<Rightarrow> bool" where
  "collision_free sha plan \<longleftrightarrow> inj_on (\<lambda>m. take 16 (sha m)) (messages ''saga'' plan)"

lemma hex_digit_inj: "m < 16 \<Longrightarrow> n < 16 \<Longrightarrow> hex_digit m = hex_digit n \<Longrightarrow> m = n"
proof -
  have "\<forall>m \<in> set [0..<16]. \<forall>n \<in> set [0..<16]. hex_digit m = hex_digit n \<longrightarrow> m = n" by code_simp
  then show "m < 16 \<Longrightarrow> n < 16 \<Longrightarrow> hex_digit m = hex_digit n \<Longrightarrow> m = n" by auto
qed

lemma hex_encode_Cons: "hex_encode (b # bs) = hex_digit (of_char b div 16) # hex_digit (of_char b mod 16) # hex_encode bs"
  by (simp add: hex_encode_def)

lemma hex_encode_inj: "hex_encode bs = hex_encode cs \<Longrightarrow> bs = cs"
proof (induction bs arbitrary: cs)
  case Nil
  then show ?case by (cases cs) (auto simp: hex_encode_def)
next
  case (Cons b bs)
  then obtain c cs' where cs: "cs = c # cs'" by (cases cs) (auto simp: hex_encode_def)
  have less: "of_char x div 16 < (16 :: nat)" for x using nat_of_char_less_256 [of x] by (simp add: less_mult_imp_div_less)
  from Cons.prems cs have "of_char b div 16 = (of_char c div 16 :: nat)" "of_char b mod 16 = (of_char c mod 16 :: nat)"
    using hex_digit_inj [OF less less] hex_digit_inj [of "of_char b mod 16" "of_char c mod 16"] by (auto simp: hex_encode_Cons)
  then have "of_char b = (of_char c :: nat)" by (metis mult_div_mod_eq)
  with Cons.IH [of cs'] Cons.prems cs show ?case by (simp add: hex_encode_Cons)
qed

lemma deterministicID_ok:
  assumes "digest_ok sha"
  shows "deterministicID sha parts \<noteq> []" "trim_space (deterministicID sha parts) = deterministicID sha parts"
proof -
  have "length (take 16 (sha (join_nul parts))) = 16" using assms by (simp add: digest_ok_def)
  then have "take 16 (sha (join_nul parts)) \<noteq> []" by auto
  then show "deterministicID sha parts \<noteq> []" unfolding deterministicID_def by (rule hex_encode_nonempty)
qed (simp add: deterministicID_def)

lemma validate_steps_distinct:
  "validate_steps seen steps = None \<Longrightarrow> distinct (map (\<lambda>s. trim_space (step_ID s)) steps) \<and> (\<forall>s \<in> set steps. trim_space (step_ID s) \<notin> set seen)"
  by (induction seen steps rule: validate_steps.induct) (auto simp: Let_def split: if_splits)

lemma command_ids_distinct:
  assumes "saga_Validate plan = None" "collision_free sha plan"
  shows "distinct (map (command_id sha plan) (sg_Steps plan))"
proof -
  have d: "distinct (map (\<lambda>s. trim_space (step_ID s)) (sg_Steps plan))"
    using assms(1) validate_steps_distinct by (auto simp: saga_Validate_def split: if_splits)
  have "x = y" if xy: "x \<in> set (sg_Steps plan)" "y \<in> set (sg_Steps plan)" "command_id sha plan x = command_id sha plan y" for x y
  proof -
    from xy(3) have "take 16 (sha (join_nul [''saga'', sg_IdempotencyKey plan, step_ID x])) = take 16 (sha (join_nul [''saga'', sg_IdempotencyKey plan, step_ID y]))"
      unfolding command_id_def deterministicID_def by (rule hex_encode_inj)
    with assms(2) xy(1,2) have "join_nul [''saga'', sg_IdempotencyKey plan, step_ID x] = join_nul [''saga'', sg_IdempotencyKey plan, step_ID y]"
      unfolding collision_free_def messages_def by (auto dest: inj_onD)
    then have "step_ID x = step_ID y" by simp
    with d xy(1,2) show "x = y" unfolding distinct_map by (metis inj_onD)
  qed
  with d show ?thesis by (auto simp: distinct_map intro: inj_onI)
qed

text \<open>The separator is not escaped: a key or a step id that contains it makes the commands of two different sagas one event,
  and the second is dropped as a duplicate.\<close>

lemma nul_ids_collide:
  "sg_IdempotencyKey p = ''a'' @ NUL # ''b'' \<Longrightarrow> step_ID s = ''c'' \<Longrightarrow> sg_IdempotencyKey q = ''a'' \<Longrightarrow> step_ID r = ''b'' @ NUL # ''c'' \<Longrightarrow>
     command_id sha p s = command_id sha q r"
  by (simp add: command_id_def deterministicID_def)

section \<open>Staging a plan\<close>

lemma command_envelopes_ids:
  assumes "digest_ok sha"
  shows "command_envelopes sha raw clock plan n steps = Inr es \<Longrightarrow> map env_ID es = map (command_id sha plan) steps"
proof (induction steps arbitrary: n es)
  case (Cons step steps)
  then obtain e rest where e: "EnvelopeNormalize raw (clock n)
        (saga_envelope plan (command_id sha plan step) step (step_Command step) (command_metadata plan n step)) = Inr e"
    and rest: "command_envelopes sha raw clock plan (Suc n) steps = Inr rest" "es = e # rest"
    by (auto split: sum.splits)
  from EnvelopeNormalize_ID [OF e] deterministicID_ok [OF assms] have "env_ID e = command_id sha plan step"
    by (simp add: saga_envelope_def command_id_def)
  with Cons.IH [OF rest(1)] rest(2) show ?case by simp
qed simp

lemma Envelopes_ids:
  assumes "digest_ok sha" "Envelopes sha raw clock plan = Inr es"
  shows "saga_Validate plan = None" "map env_ID es = map (command_id sha plan) (sg_Steps plan)"
    "list_all (\<lambda>e. trim_space (env_ID e) \<noteq> []) es" "(\<lambda>e. trim_space (env_ID e)) ` set es = command_id sha plan ` set (sg_Steps plan)"
proof -
  from assms(2) show v: "saga_Validate plan = None" by (auto simp: Envelopes_def split: option.splits)
  with assms show m: "map env_ID es = map (command_id sha plan) (sg_Steps plan)" by (simp add: Envelopes_def command_envelopes_ids)
  have id: "env_ID ` set es = command_id sha plan ` set (sg_Steps plan)" using m by (metis list.set_map)
  have "env_ID e \<noteq> [] \<and> trim_space (env_ID e) = env_ID e" if "e \<in> set es" for e
  proof -
    from that id obtain step where "env_ID e = command_id sha plan step" by blast
    then show ?thesis using deterministicID_ok [OF assms(1)] by (simp add: command_id_def)
  qed
  then show "list_all (\<lambda>e. trim_space (env_ID e) \<noteq> []) es" "(\<lambda>e. trim_space (env_ID e)) ` set es = command_id sha plan ` set (sg_Steps plan)"
    using id by (auto simp: list_all_iff image_iff) 
qed

text \<open>Property C30: a saga is staged exactly once. When staging a plan in the database outbox reports no error, the outbox holds
  a record for the command of every step under its deterministic id, and no other new record; the ids differ from step to step
  unless the digest collides; and staging the same plan again, at any time, from any context, in any transaction, adds
  nothing.\<close>

theorem saga_staged_exactly_once:
  assumes sha: "digest_ok sha" and honest: "\<And>n e. gorm_honest (metadata_store table skip inject) codec env n e"
    and run: "saga_EnqueueTx sha raw clock (Some (gorm_tx (metadata_store table skip inject) codec env)) (Some tx) plan t = (None, t1)"
  shows "fst ` set t1 = fst ` set t \<union> command_id sha plan ` set (sg_Steps plan) \<and>
    (collision_free sha plan \<longrightarrow> distinct (map (command_id sha plan) (sg_Steps plan))) \<and>
    (\<forall>raw' clock' inject' codec' env' tx'.
       snd (saga_EnqueueTx sha raw' clock' (Some (gorm_tx (metadata_store table skip inject') codec' env')) (Some tx') plan t1) = t1)"
proof -
  from run obtain es where es: "Envelopes sha raw clock plan = Inr es"
    and all: "enqueue_all (gorm_tx (metadata_store table skip inject) codec env) tx 0 es t = (None, t1)"
    by (auto simp: saga_EnqueueTx_def split: sum.splits)
  note ids = Envelopes_ids [OF sha es]
  have filed: "fst ` set t1 = fst ` set t \<union> command_id sha plan ` set (sg_Steps plan)"
    using gtx.enqueue_all_files [OF all ids(3)] honest ids(4) by simp
  have "snd (saga_EnqueueTx sha raw' clock' (Some (gorm_tx (metadata_store table skip inject') codec' env')) (Some tx') plan t1) = t1"
    for raw' clock' inject' codec' env' tx'
  proof (cases "Envelopes sha raw' clock' plan")
    case (Inr es')
    note ids' = Envelopes_ids [OF sha Inr]
    have "\<forall>e \<in> set es'. trim_space (env_ID e) \<noteq> [] \<and> trim_space (env_ID e) \<in> fst ` set t1"
      using ids'(3,4) filed by (auto simp: list_all_iff)
    from gtx.enqueue_all_filed [OF this] Inr show ?thesis by (simp add: saga_EnqueueTx_def)
  qed (simp add: saga_EnqueueTx_def)
  with filed command_ids_distinct [OF ids(1)] show ?thesis by blast
qed


section \<open>Compensation\<close>

text \<open>What the compensation of a step must be.\<close>

definition compensates :: "(string \<Rightarrow> string) \<Rightarrow> SagaPlan \<Rightarrow> Step \<Rightarrow> Envelope \<Rightarrow> bool" where
  "compensates sha plan step e \<longleftrightarrow>
     (case step_Compensation step of
        None \<Rightarrow> False
      | Some c \<Rightarrow> env_ID e = compensation_id sha plan step \<and> Topic e = trim_space (cmd_Topic c) \<and> env_Type e = trim_space (cmd_Type c) \<and>
          Payload e = cmd_Payload c \<and> env_Subject e = trim_space (step_ID step) \<and> CorrelationID e = sg_ID plan)"

lemma compensation_envelope:
  assumes "digest_ok sha" "step_Compensation step = Some c" "\<not> blank (sg_ID plan)"
    and e: "EnvelopeNormalize raw now (saga_envelope plan (compensation_id sha plan step) step c md) = Inr e"
  shows "compensates sha plan step e"
proof -
  have "sg_ID plan \<noteq> []" using assms(3) by (auto simp: blank_def)
  moreover from EnvelopeNormalize_ID [OF e] deterministicID_ok [OF assms(1)] have "env_ID e = compensation_id sha plan step"
    by (simp add: saga_envelope_def compensation_id_def)
  ultimately show ?thesis using assms(2) e
    by (auto elim!: EnvelopeNormalize_cases simp: compensates_def fill_envelope_def trim_envelope_def saga_envelope_def)
qed

lemma undo_envelopes_spec:
  assumes "digest_ok sha" "\<not> blank (sg_ID plan)"
  shows "undo_envelopes sha raw clock plan steps = Inr es \<Longrightarrow>
    list_all2 (compensates sha plan) (filter (\<lambda>s. step_Compensation s \<noteq> None) steps) es"
proof (induction steps arbitrary: es)
  case (Cons step steps)
  show ?case
  proof (cases "step_Compensation step")
    case (Some c)
    with Cons.prems obtain e rest where e: "EnvelopeNormalize raw (clock (length steps))
          (saga_envelope plan (compensation_id sha plan step) step c (compensation_metadata plan step)) = Inr e"
      and rest: "undo_envelopes sha raw clock plan steps = Inr rest" "es = e # rest" by (auto split: sum.splits)
    from compensation_envelope [OF assms(1) Some assms(2) e] Cons.IH [OF rest(1)] Some rest(2) show ?thesis by simp
  qed (use Cons in simp)
qed simp

text \<open>Compensations undo a saga backwards. For a valid plan the compensations after \<open>completed\<close> steps are refused
  exactly when the count is out of range or an envelope is invalid; otherwise there is one envelope for each completed step that
  has a compensation, from the last such step to the first, each with the command the plan gives for it, its own
  deterministic id and the correlation id of the saga.\<close>

theorem compensations_reverse:
  assumes "digest_ok sha" "saga_Validate plan = None"
  shows "(completed < 0 \<or> int (length (sg_Steps plan)) < completed \<longrightarrow> CompensationEnvelopes sha raw clock plan completed = Inl ErrInvalidPlan) \<and>
    (\<forall>es. CompensationEnvelopes sha raw clock plan completed = Inr es \<longrightarrow> 0 \<le> completed \<and> completed \<le> int (length (sg_Steps plan)) \<and>
      list_all2 (compensates sha plan) (rev (filter (\<lambda>s. step_Compensation s \<noteq> None) (take (nat completed) (sg_Steps plan)))) es)"
proof -
  have "\<not> blank (sg_ID plan)" using assms(2) by (auto simp: saga_Validate_def split: if_splits)
  with undo_envelopes_spec [OF assms(1), of plan raw clock "rev (take (nat completed) (sg_Steps plan))"] assms(2) show ?thesis
    by (auto simp: CompensationEnvelopes_def rev_filter split: if_splits)
qed

section \<open>Witnesses\<close>

definition ex_sha :: "string \<Rightarrow> string" where
  "ex_sha m = take 32 (rev m @ replicate 32 NUL)"

definition ex_step :: "string \<Rightarrow> Step" where
  "ex_step ident = \<lparr>step_ID = ident, step_Command = \<lparr>cmd_Topic = ''t'', cmd_Type = ''y'', cmd_Payload = []\<rparr>,
     step_Compensation = Some \<lparr>cmd_Topic = ''t'', cmd_Type = ''y'', cmd_Payload = []\<rparr>\<rparr>"

definition ex_plan :: SagaPlan where
  "ex_plan = \<lparr>sg_ID = ''i'', sg_IdempotencyKey = ''j'', sg_Source = [], sg_Steps = [ex_step ''t'', ex_step ''y'']\<rparr>"

definition ex_any_codec :: json_codec where
  "ex_any_codec = \<lparr>jc_Marshal = \<lambda>e. Inr [], jc_Unmarshal = \<lambda>bs. Inl ErrNotFound\<rparr>"

definition ex_staging :: "nat \<Rightarrow> enqueue_env" where
  "ex_staging n = \<lparr>ee_raw = ex_raw, ee_clock = 7, ee_now = 7, ee_causality = None, ee_error = None\<rparr>"

definition ex_staged :: "goerr option \<times> outbox_table" where
  "ex_staged = saga_EnqueueTx ex_sha ex_raw (\<lambda>_. 7) (Some (gorm_tx (metadata_store DefaultTable False None) ex_any_codec ex_staging)) (Some (Some ())) ex_plan []"

lemma ex_sha_ok: "digest_ok ex_sha"
  by (auto simp: digest_ok_def ex_sha_def min_def)

definition ex_command :: Command where "ex_command = \<lparr>cmd_Topic = ''t'', cmd_Type = ''y'', cmd_Payload = []\<rparr>"

lemma keys_trim [simp]:
  "trim_space ''saga.id'' = ''saga.id''" "trim_space ''saga.step'' = ''saga.step''" "trim_space ''saga.index'' = ''saga.index''"
  "trim_space ''idempotency.key'' = ''idempotency.key''" "trim_space ''saga.compensation.topic'' = ''saga.compensation.topic''"
  "trim_space ''saga.compensation.type'' = ''saga.compensation.type''" "trim_space ''saga.compensation'' = ''saga.compensation''"
  by (simp_all add: trim_space_plain plain_char_def less_eq_char_def)

lemma ex_metadata_ok:
  assumes "length x = 1" "n < 2"
  shows "list_ex bad_metadata (command_metadata ex_plan n (ex_step x)) = False" "length (command_metadata ex_plan n (ex_step x)) = 6"
    "list_ex bad_metadata (compensation_metadata ex_plan (ex_step x)) = False" "length (compensation_metadata ex_plan (ex_step x)) = 4"
proof -
  have "n = 0 \<or> n = 1" using assms(2) by auto
  then have d: "length (decimal n) = 1" by (auto simp: decimal_def digits_loop.simps)
  show "list_ex bad_metadata (command_metadata ex_plan n (ex_step x)) = False" "length (command_metadata ex_plan n (ex_step x)) = 6"
    "list_ex bad_metadata (compensation_metadata ex_plan (ex_step x)) = False" "length (compensation_metadata ex_plan (ex_step x)) = 4"
    using assms(1) d by (simp_all add: command_metadata_def compensation_metadata_def ex_plan_def ex_step_def bad_metadata_def MaxMetadataKeyLength_def MaxMetadataValueLength_def)
qed

lemma ex_normalizes:
  assumes "x \<in> {''t'', ''y''}" "\<not> list_ex bad_metadata md" "length md \<le> 6"
  shows "\<exists>e. EnvelopeNormalize ex_raw 7 (saga_envelope ex_plan (deterministicID ex_sha parts) (ex_step x) ex_command md) = Inr e"
proof -
  let ?e = "saga_envelope ex_plan (deterministicID ex_sha parts) (ex_step x) ex_command md"
  have "length (deterministicID ex_sha parts) = 32" using ex_sha_ok by (simp add: deterministicID_def length_hex_encode digest_ok_def)
  then have "\<not> bad_envelope (trim_envelope ?e)"
    using assms deterministicID_ok(2) [OF ex_sha_ok]
    by (auto simp: bad_envelope_def trim_envelope_def saga_envelope_def ex_plan_def ex_step_def ex_command_def MaxTopicLength_def MaxTypeLength_def
        MaxSourceLength_def MaxSubjectLength_def MaxIDLength_def MaxMetadataEntries_def)
  then show ?thesis by (auto simp: EnvelopeNormalize_def Let_def newID_def ex_raw_def)
qed

lemma ex_commands: "\<exists>e1 e2. Envelopes ex_sha ex_raw (\<lambda>_. 7) ex_plan = Inr [e1, e2] \<and> valid_envelope e1 \<and> valid_envelope e2"
proof -
  have v: "saga_Validate ex_plan = None" by (simp add: saga_Validate_def ex_plan_def ex_step_def blank_def)
  obtain e1 where e1: "EnvelopeNormalize ex_raw 7 (saga_envelope ex_plan (command_id ex_sha ex_plan (ex_step ''t'')) (ex_step ''t'') ex_command (command_metadata ex_plan 0 (ex_step ''t''))) = Inr e1"
    using ex_normalizes [of "''t''"] ex_metadata_ok(1,2) [of "''t''" 0] unfolding command_id_def by fastforce
  obtain e2 where e2: "EnvelopeNormalize ex_raw 7 (saga_envelope ex_plan (command_id ex_sha ex_plan (ex_step ''y'')) (ex_step ''y'') ex_command (command_metadata ex_plan 1 (ex_step ''y''))) = Inr e2"
    using ex_normalizes [of "''y''"] ex_metadata_ok(1,2) [of "''y''" 1] unfolding command_id_def by fastforce
  have "sg_Steps ex_plan = [ex_step ''t'', ex_step ''y'']" "step_Command (ex_step x) = ex_command" for x
    by (simp_all add: ex_plan_def ex_step_def ex_command_def)
  with v e1 e2 have "Envelopes ex_sha ex_raw (\<lambda>_. 7) ex_plan = Inr [e1, e2]" by (simp add: Envelopes_def)
  with EnvelopeNormalize_valid [OF e1] EnvelopeNormalize_valid [OF e2] ex_source [of 7] show ?thesis by auto
qed

lemma ex_enqueue_valid:
  "valid_envelope e \<Longrightarrow> gorm_tx (metadata_store DefaultTable False None) ex_any_codec ex_staging n (Some ()) e t =
     (if map_of t (env_ID e) \<noteq> None then (Some ErrDuplicate, t) else (None, AList.update (env_ID e) (new_row 7 e []) t))"
  by (simp add: gorm_tx_def gormbox_EnqueueTx_def gormbox_insert_def gormbox_prepare_def PrepareForPublish_def metadata_store_def
      ex_staging_def ex_any_codec_def inheritEventCausality_def CausalityFromContext_def EnvelopeNormalize_fixed)

lemma ex_staged_ok: "fst ex_staged = None"
proof -
  obtain e1 e2 where "Envelopes ex_sha ex_raw (\<lambda>_. 7) ex_plan = Inr [e1, e2]" "valid_envelope e1" "valid_envelope e2" using ex_commands by blast
  then show ?thesis by (simp add: ex_staged_def saga_EnqueueTx_def EnqueueTx_def ex_enqueue_valid)
qed

lemma Normalize_error: "EnvelopeNormalize raw now e = Inl x \<Longrightarrow> raw = Inr bs \<Longrightarrow> x = ErrInvalidEnvelope"
  by (auto simp: EnvelopeNormalize_def Let_def newID_def split: if_splits sum.splits)

lemma ex_staging_honest: "gorm_honest (metadata_store DefaultTable False None) ex_any_codec ex_staging n e"
proof -
  have "\<not> err_is ErrInvalidEnvelope ErrDuplicate" by (simp add: ErrInvalidEnvelope_def ErrDuplicate_def)
  then show ?thesis
    by (auto simp: gorm_honest_def gormbox_prepare_def PrepareForPublish_def metadata_store_def ex_staging_def ex_any_codec_def
        split: sum.split dest!: Normalize_error [OF _ ex_raw_def])
qed

theorem saga_staged_exactly_once_witness:
  "fst ` set (snd ex_staged) = {command_id ex_sha ex_plan (ex_step ''t''), command_id ex_sha ex_plan (ex_step ''y'')} \<and>
   snd (saga_EnqueueTx ex_sha ex_raw (\<lambda>_. 9) (Some (gorm_tx (metadata_store DefaultTable False None) ex_any_codec ex_staging)) (Some (Some ()))
     ex_plan (snd ex_staged)) = snd ex_staged"
proof -
  have run: "saga_EnqueueTx ex_sha ex_raw (\<lambda>_. 7) (Some (gorm_tx (metadata_store DefaultTable False None) ex_any_codec ex_staging)) (Some (Some ())) ex_plan [] =
      (None, snd ex_staged)" using ex_staged_ok by (simp add: ex_staged_def prod_eq_iff)
  from saga_staged_exactly_once [OF ex_sha_ok ex_staging_honest run] show ?thesis by (auto simp: ex_plan_def)
qed

theorem compensations_reverse_witness:
  "\<exists>es. CompensationEnvelopes ex_sha ex_raw (\<lambda>_. 7) ex_plan 2 = Inr es \<and> map env_Subject es = [''y'', ''t'']"
proof -
  have v: "saga_Validate ex_plan = None" by (simp add: saga_Validate_def ex_plan_def ex_step_def blank_def)
  obtain e1 where e1: "EnvelopeNormalize ex_raw 7 (saga_envelope ex_plan (compensation_id ex_sha ex_plan (ex_step ''t'')) (ex_step ''t'') ex_command (compensation_metadata ex_plan (ex_step ''t''))) = Inr e1"
    using ex_normalizes [of "''t''"] ex_metadata_ok(3,4) [of "''t''" 0] unfolding compensation_id_def by fastforce
  obtain e2 where e2: "EnvelopeNormalize ex_raw 7 (saga_envelope ex_plan (compensation_id ex_sha ex_plan (ex_step ''y'')) (ex_step ''y'') ex_command (compensation_metadata ex_plan (ex_step ''y''))) = Inr e2"
    using ex_normalizes [of "''y''"] ex_metadata_ok(3,4) [of "''y''" 0] unfolding compensation_id_def by fastforce
  have "sg_Steps ex_plan = [ex_step ''t'', ex_step ''y'']" "step_Compensation (ex_step x) = Some ex_command" for x
    by (simp_all add: ex_plan_def ex_step_def ex_command_def)
  with v e1 e2 have es: "CompensationEnvelopes ex_sha ex_raw (\<lambda>_. 7) ex_plan 2 = Inr [e2, e1]" by (simp add: CompensationEnvelopes_def)
  with compensations_reverse [OF ex_sha_ok v, of 2 ex_raw "\<lambda>_. 7"]
  have "list_all2 (compensates ex_sha ex_plan) [ex_step ''y'', ex_step ''t''] [e2, e1]" by (simp add: ex_plan_def ex_step_def)
  then show ?thesis using es by (simp add: compensates_def ex_step_def)
qed

end
