(* ===== verification/Tries.thy ===== *)
theory Tries
  imports Prelude
begin

text \<open>
  The tries of \<open>pkg/trie\<close>: \<open>RuneTrie\<close>, keyed by the runes of a string, and \<open>PathTrie\<close>, keyed by its path segments. A node holds
  an optional value and its children, a Go map, as an association list; the nodes of a trie are not shared, so a trie is a
  tree. Both implement the interface \<open>Trier\<close>, which the locale \<open>trier\<close> states. A string is a sequence of bytes, and
  ranging over it decodes UTF-8 as the language defines it: an invalid byte is the rune U+FFFD of width one.
\<close>

section \<open>Runes\<close>

definition RuneError :: nat where "RuneError = 65533"

definition byte_in :: "nat \<Rightarrow> nat \<Rightarrow> char \<Rightarrow> bool" where
  "byte_in lo hi c = (lo \<le> (of_char c :: nat) \<and> (of_char c :: nat) \<le> hi)"

definition low6 :: "char \<Rightarrow> nat" where
  "low6 c = of_char c mod 64"

text \<open>The length a leading byte announces and the range of the second byte; length 0 marks a byte that cannot lead.\<close>

definition rune_lead :: "nat \<Rightarrow> nat \<times> nat \<times> nat" where
  "rune_lead b =
     (if b < 128 then (1, 0, 0)
      else if b < 194 then (0, 0, 0)
      else if b < 224 then (2, 128, 191)
      else if b = 224 then (3, 160, 191)
      else if b = 237 then (3, 128, 159)
      else if b < 240 then (3, 128, 191)
      else if b = 240 then (4, 144, 191)
      else if b < 244 then (4, 128, 191)
      else if b = 244 then (4, 128, 143)
      else (0, 0, 0))"

text \<open>The first rune of a string and its width.\<close>

definition decode_rune :: "string \<Rightarrow> nat \<times> nat" where
  "decode_rune s =
     (case s of
        [] \<Rightarrow> (RuneError, 0)
      | c0 # rest \<Rightarrow>
        (case rune_lead (of_char c0) of
           (n, lo, hi) \<Rightarrow>
             if n = 1 then (of_char c0, 1)
             else if n = 0 \<or> length s < n \<or> \<not> byte_in lo hi (rest ! 0) \<or> list_ex (\<lambda>c. \<not> byte_in 128 191 c) (take (n - 2) (drop 1 rest))
             then (RuneError, 1)
             else (fold (\<lambda>c acc. acc * 64 + low6 c) (take (n - 1) rest) (of_char c0 mod 2 ^ (7 - n)), n)))"

lemma decode_rune_width: "s \<noteq> [] \<Longrightarrow> 0 < snd (decode_rune s) \<and> snd (decode_rune s) \<le> length s"
  by (auto simp: decode_rune_def split: list.splits prod.splits)

text \<open>\<open>for i, r := range s\<close>: the runes with their widths; the index of a rune is the sum of the widths before it.\<close>

function runes :: "string \<Rightarrow> (nat \<times> nat) list" where
  "runes s = (if s = [] then [] else (case decode_rune s of (r, w) \<Rightarrow> (r, w) # runes (drop w s)))"
  by pat_completeness auto
termination
proof (relation "measure length")
  fix s r w
  assume "s \<noteq> []" "(r, w) = decode_rune s"
  with decode_rune_width [of s] show "(drop w s, s) \<in> measure length" by (cases "decode_rune s") auto
qed simp

declare runes.simps [simp del]

lemma runes_Nil [simp]: "runes [] = []"
  by (simp add: runes.simps)

lemma runes_code [code]:
  "runes [] = []" "runes (c # s) = (let rw = decode_rune (c # s) in rw # runes (drop (snd rw) (c # s)))"
  by (simp, subst runes.simps, simp add: Let_def split: prod.split)

definition rune_key :: "string \<Rightarrow> nat list" where
  "rune_key s = map fst (runes s)"

text \<open>\<open>string(r)\<close>: the encoding of a rune.\<close>

definition encode_rune :: "nat \<Rightarrow> string" where
  "encode_rune r =
     (if r < 128 then [char_of r]
      else if r < 2048 then [char_of (192 + r div 64), char_of (128 + r mod 64)]
      else if (55296 \<le> r \<and> r < 57344) \<or> 1114112 \<le> r then [CHR 0xEF, CHR 0xBF, CHR 0xBD]
      else if r < 65536 then [char_of (224 + r div 4096), char_of (128 + r div 64 mod 64), char_of (128 + r mod 64)]
      else [char_of (240 + r div 262144), char_of (128 + r div 4096 mod 64), char_of (128 + r div 64 mod 64), char_of (128 + r mod 64)])"

text \<open>A string is valid when no byte of it decodes to an error.\<close>

definition valid_utf8 :: "string \<Rightarrow> bool" where
  "valid_utf8 s = list_all (\<lambda>rw. rw \<noteq> (RuneError, 1)) (runes s)"

lemma mod_offset: "x < n \<Longrightarrow> b = k * n + x \<Longrightarrow> b mod n = (x :: nat)"
  by simp

lemma low_digit: "b < 64 \<Longrightarrow> (a * 64 + b) div 64 = (a :: nat) \<and> (a * 64 + b) mod 64 = b"
  by simp

lemma div_4096: "(r :: nat) div 4096 = r div 64 div 64" "(r :: nat) div 262144 = r div 64 div 64 div 64"
  by (simp_all add: div_mult2_eq [symmetric])

lemma encode_two:
  assumes "2 \<le> x" "x < 32" "y < 64"
  shows "encode_rune (x * 64 + y) = [char_of (192 + x), char_of (128 + y)]"
proof -
  define r where "r = x * 64 + y"
  have "\<not> r < 128" "r < 2048" using assms by (auto simp: r_def)
  moreover have "r div 64 = x" "r mod 64 = y" using low_digit [OF assms(3), of x] by (simp_all add: r_def)
  ultimately show ?thesis by (simp add: encode_rune_def r_def [symmetric])
qed

lemma encode_three:
  assumes "x < 16" "y < 64" "z < 64" "x = 0 \<Longrightarrow> 32 \<le> y" "x = 13 \<Longrightarrow> y < 32"
  shows "encode_rune ((x * 64 + y) * 64 + z) = [char_of (224 + x), char_of (128 + y), char_of (128 + z)]"
proof -
  define p where "p = x * 64 + y"
  define r where "r = p * 64 + z"
  have "x = 0 \<and> 32 \<le> y \<or> x = 13 \<and> y < 32 \<or> (0 < x \<and> x < 13) \<or> 13 < x" using assms(4,5) by linarith
  then have "\<not> r < 2048 \<and> \<not> (55296 \<le> r \<and> r < 57344) \<and> r < 65536" using assms(1-3) unfolding r_def p_def by auto
  moreover have "r div 64 = p" "r mod 64 = z" using low_digit [OF assms(3), of p] by (simp_all add: r_def)
  moreover have "p div 64 = x" "p mod 64 = y" using low_digit [OF assms(2), of x] by (simp_all add: p_def)
  ultimately have "encode_rune r = [char_of (224 + x), char_of (128 + y), char_of (128 + z)]" by (auto simp: encode_rune_def div_4096)
  then show ?thesis by (simp only: r_def p_def)
qed

lemma encode_four:
  assumes "x \<le> 4" "y < 64" "z < 64" "u < 64" "x = 0 \<Longrightarrow> 16 \<le> y" "x = 4 \<Longrightarrow> y < 16"
  shows "encode_rune (((x * 64 + y) * 64 + z) * 64 + u) = [char_of (240 + x), char_of (128 + y), char_of (128 + z), char_of (128 + u)]"
proof -
  define p where "p = x * 64 + y"
  define q where "q = p * 64 + z"
  define r where "r = q * 64 + u"
  have "x = 0 \<and> 16 \<le> y \<or> x = 4 \<and> y < 16 \<or> (0 < x \<and> x < 4)" using assms(1,5,6) by linarith
  then have "\<not> r < 65536 \<and> r < 1114112" using assms(1-4) unfolding r_def q_def p_def by auto
  moreover have "r div 64 = q" "r mod 64 = u" using low_digit [OF assms(4), of q] by (simp_all add: r_def)
  moreover have "q div 64 = p" "q mod 64 = z" using low_digit [OF assms(3), of p] by (simp_all add: q_def)
  moreover have "p div 64 = x" "p mod 64 = y" using low_digit [OF assms(2), of x] by (simp_all add: p_def)
  ultimately have "encode_rune r = [char_of (240 + x), char_of (128 + y), char_of (128 + z), char_of (128 + u)]"
    by (simp add: encode_rune_def div_4096)
  then show ?thesis by (simp only: r_def q_def p_def)
qed

text \<open>Decoding a rune and encoding it again gives the bytes it was decoded from.\<close>

lemma byte_offset: "byte_in 128 191 c \<Longrightarrow> low6 c < 64 \<and> 128 + low6 c = of_char c"
proof -
  assume "byte_in 128 191 c"
  then obtain y where "(of_char c :: nat) = 128 + y" "y < 64" by (auto simp: byte_in_def nat_le_iff_add)
  moreover have "(128 + y) mod 64 = y" using mod_offset [OF \<open>y < 64\<close>, of _ 2] by simp
  ultimately show ?thesis by (simp add: low6_def)
qed

lemma encode_decode:
  assumes dec: "decode_rune s = (r, w)" and s: "s \<noteq> []" and ok: "(r, w) \<noteq> (RuneError, 1)"
  shows "encode_rune r = take w s"
proof -
  obtain c0 rest where s: "s = c0 # rest" using s by (cases s) auto
  define b where "b = (of_char c0 :: nat)"
  obtain n lo hi where lead: "rune_lead b = (n, lo, hi)" by (metis prod_cases3)
  have b: "char_of b = c0" by (simp add: b_def)
  consider "n = 1" | "n = 0" | "n = 2" | "n = 3" | "n = 4"
    using lead by (auto simp: rune_lead_def split: if_splits)
  then show ?thesis
  proof cases
    case 1
    with lead dec s have "r = b" "w = 1" "b < 128" by (auto simp: decode_rune_def b_def rune_lead_def split: if_splits)
    then show ?thesis using s b by (simp add: encode_rune_def)
  next
    case 2
    with lead dec s ok show ?thesis by (auto simp: decode_rune_def b_def split: if_splits)
  next
    case 3
    with lead dec s ok obtain c1 rs where v: "rest = c1 # rs" "byte_in lo hi c1" "r = b mod 32 * 64 + low6 c1" "w = 2"
      by (cases rest) (auto simp: decode_rune_def b_def split: if_splits)
    from lead 3 have r: "194 \<le> b" "b < 224" "lo = 128" "hi = 191" by (auto simp: rune_lead_def split: if_splits)
    then obtain x where x: "b = 192 + x" "2 \<le> x" "x < 32" by (auto simp: nat_le_iff_add)
    note c1 = byte_offset [of c1]
    from encode_two [OF x(2,3), of "low6 c1"] c1 v r x(1) have "encode_rune (x * 64 + low6 c1) = [char_of b, char_of (of_char c1 :: nat)]" by simp
    moreover have "b mod 32 = x" by (rule mod_offset [where k = 6]) (use x in simp_all)
    ultimately show ?thesis using v s b by simp
  next
    case 4
    with lead dec s ok obtain c1 c2 rs where v: "rest = c1 # c2 # rs" "byte_in lo hi c1" "byte_in 128 191 c2"
      "r = (b mod 16 * 64 + low6 c1) * 64 + low6 c2" "w = 3"
      by (cases rest; cases "tl rest") (auto simp: decode_rune_def b_def split: if_splits)
    from lead 4 have r: "224 \<le> b" "b < 240" "128 \<le> lo" "hi \<le> 191" "b = 224 \<longrightarrow> lo = 160" "b = 237 \<longrightarrow> hi = 159"
      by (auto simp: rune_lead_def split: if_splits)
    then obtain x where x: "b = 224 + x" "x < 16" by (auto simp: nat_le_iff_add)
    have "byte_in 128 191 c1" using v(2) r(3,4) by (simp add: byte_in_def)
    note c1 = byte_offset [OF this] and c2 = byte_offset [OF v(3)]
    have "x = 0 \<Longrightarrow> 32 \<le> low6 c1" "x = 13 \<Longrightarrow> low6 c1 < 32" using c1 v(2) r(5,6) x(1) by (auto simp: byte_in_def)
    from encode_three [OF x(2) _ _ this, of "low6 c2"] c1 c2 x(1)
    have "encode_rune ((x * 64 + low6 c1) * 64 + low6 c2) = [char_of b, char_of (of_char c1 :: nat), char_of (of_char c2 :: nat)]" by simp
    moreover have "b mod 16 = x" by (rule mod_offset [where k = 14]) (use x in simp_all)
    ultimately show ?thesis using v s b by simp
  next
    case 5
    with lead dec s ok obtain c1 c2 c3 rs where v: "rest = c1 # c2 # c3 # rs" "byte_in lo hi c1" "byte_in 128 191 c2" "byte_in 128 191 c3"
      "r = ((b mod 8 * 64 + low6 c1) * 64 + low6 c2) * 64 + low6 c3" "w = 4"
      by (cases rest; cases "tl rest"; cases "tl (tl rest)") (auto simp: decode_rune_def b_def split: if_splits)
    from lead 5 have r: "240 \<le> b" "b \<le> 244" "128 \<le> lo" "hi \<le> 191" "b = 240 \<longrightarrow> lo = 144" "b = 244 \<longrightarrow> hi = 143"
      by (auto simp: rune_lead_def split: if_splits)
    then obtain x where x: "b = 240 + x" "x \<le> 4" by (intro that [of "b - 240"]) simp_all
    have "byte_in 128 191 c1" using v(2) r(3,4) by (simp add: byte_in_def)
    note c1 = byte_offset [OF this] and c2 = byte_offset [OF v(3)] and c3 = byte_offset [OF v(4)]
    have "x = 0 \<Longrightarrow> 16 \<le> low6 c1" "x = 4 \<Longrightarrow> low6 c1 < 16" using c1 v(2) r(5,6) x(1) by (auto simp: byte_in_def)
    from encode_four [OF x(2) _ _ _ this, of "low6 c2" "low6 c3"] c1 c2 c3 x(1)
    have "encode_rune (((x * 64 + low6 c1) * 64 + low6 c2) * 64 + low6 c3) =
      [char_of b, char_of (of_char c1 :: nat), char_of (of_char c2 :: nat), char_of (of_char c3 :: nat)]" by simp
    moreover have "b mod 8 = x" by (rule mod_offset [where k = 30]) (use x in simp_all)
    ultimately show ?thesis using v s b by simp
  qed
qed

lemma valid_utf8_roundtrip: "valid_utf8 s \<Longrightarrow> concat (map encode_rune (rune_key s)) = s"
proof (induction s rule: runes.induct)
  case (1 s)
  show ?case
  proof (cases "s = []")
    case False
    obtain r w where rw: "decode_rune s = (r, w)" by fastforce
    with False have step: "runes s = (r, w) # runes (drop w s)" by (simp add: runes.simps [of s])
    with 1(2) have ok: "(r, w) \<noteq> (RuneError, 1)" "valid_utf8 (drop w s)" by (simp_all add: valid_utf8_def)
    from 1(1) [OF False rw [symmetric] ok(2)] have "concat (map encode_rune (rune_key (drop w s))) = drop w s" by simp
    with encode_decode [OF rw False ok(1)] step show ?thesis by (simp add: rune_key_def)
  qed (simp add: rune_key_def)
qed

lemma valid_utf8_inj: "valid_utf8 s \<Longrightarrow> valid_utf8 s' \<Longrightarrow> rune_key s = rune_key s' \<Longrightarrow> s = s'"
  using valid_utf8_roundtrip by metis

section \<open>Nodes\<close>

datatype ('k, 'v) trie_node = TrieNode (tn_value: "'v option") (tn_children: "('k \<times> ('k, 'v) trie_node) list")

type_synonym 'v RuneTrie = "(nat, 'v) trie_node"
type_synonym 'v PathTrie = "(string, 'v) trie_node"

definition new_node :: "('k, 'v) trie_node" where
  "new_node = TrieNode None []"

definition isLeaf :: "('k, 'v) trie_node \<Rightarrow> bool" where
  "isLeaf t = (case tn_children t of [] \<Rightarrow> True | _ \<Rightarrow> False)"

definition set_child :: "'k \<Rightarrow> ('k, 'v) trie_node \<Rightarrow> ('k, 'v) trie_node \<Rightarrow> ('k, 'v) trie_node" where
  "set_child k c t = TrieNode (tn_value t) (AList.update k c (tn_children t))"

definition drop_child :: "'k \<Rightarrow> ('k, 'v) trie_node \<Rightarrow> ('k, 'v) trie_node" where
  "drop_child k t = TrieNode (tn_value t) (AList.delete k (tn_children t))"

fun node_get :: "'k list \<Rightarrow> ('k, 'v) trie_node \<Rightarrow> 'v option" where
  "node_get [] t = tn_value t"
| "node_get (k # ks) t = (case map_of (tn_children t) k of None \<Rightarrow> None | Some c \<Rightarrow> node_get ks c)"

fun node_put :: "'k list \<Rightarrow> 'v option \<Rightarrow> ('k, 'v) trie_node \<Rightarrow> bool \<times> ('k, 'v) trie_node" where
  "node_put [] v t = (Option.is_none (tn_value t), TrieNode v (tn_children t))"
| "node_put (k # ks) v t =
     (case node_put ks v (case map_of (tn_children t) k of None \<Rightarrow> new_node | Some c \<Rightarrow> c) of
        (isNewVal, c) \<Rightarrow> (isNewVal, set_child k c t))"

text \<open>
  The two loops of \<open>Delete\<close>: down to the node, recording the ancestors, and back up over the record while nodes become empty.
  The flag says that the loop reached this node and has to look at the entry of its parent. \<open>RuneTrie\<close> keeps the record
  in an array with one slot per byte, filled at the index of each rune: a rune of several bytes leaves empty slots behind it, and
  the way back dereferences the nil node of the last of them. \<open>PathTrie\<close> appends to the record, which is the case of width one.
\<close>

definition nil_deref :: string where
  "nil_deref = ''runtime error: invalid memory address or nil pointer dereference''"

fun node_delete :: "('k \<times> nat) list \<Rightarrow> ('k, 'v) trie_node \<Rightarrow> (string, bool) outcome \<times> ('k, 'v) trie_node \<times> bool" where
  "node_delete [] t = (Return True, TrieNode None (tn_children t), isLeaf t)"
| "node_delete ((k, w) # ks) t =
     (case map_of (tn_children t) k of
        None \<Rightarrow> (Return False, t, False)
      | Some c \<Rightarrow>
        (case node_delete ks c of
           (out, c', climb) \<Rightarrow>
             if \<not> climb then (out, set_child k c' t, False)
             else if 1 < w then (Panic nil_deref, set_child k c' t, False)
             else (out, drop_child k t, Option.is_none (tn_value t) \<and> isLeaf (drop_child k t))))"

text \<open>The walk, over the children in the order of the list: the code ranges over a map, in any order.\<close>

type_synonym ('v, 's) WalkFunc = "string \<Rightarrow> 'v \<Rightarrow> 's \<Rightarrow> goerr option \<times> 's"

fun node_walk :: "('k \<Rightarrow> string) \<Rightarrow> ('v, 's) WalkFunc \<Rightarrow> string \<Rightarrow> ('k, 'v) trie_node \<Rightarrow> 's \<Rightarrow> goerr option \<times> 's"
  and walk_children :: "('k \<Rightarrow> string) \<Rightarrow> ('v, 's) WalkFunc \<Rightarrow> string \<Rightarrow> ('k \<times> ('k, 'v) trie_node) list \<Rightarrow> 's \<Rightarrow> goerr option \<times> 's" where
  "node_walk render walker key (TrieNode v cs) s =
     (case v of
        None \<Rightarrow> walk_children render walker key cs s
      | Some x \<Rightarrow>
        (case walker key x s of
           (Some err, s') \<Rightarrow> (Some err, s')
         | (None, s') \<Rightarrow> walk_children render walker key cs s'))"
| "walk_children render walker key [] s = (None, s)"
| "walk_children render walker key ((k, c) # cs) s =
     (case node_walk render walker (key @ render k) c s of
        (Some err, s') \<Rightarrow> (Some err, s')
      | (None, s') \<Rightarrow> walk_children render walker key cs s')"

section \<open>The two tries\<close>

definition NewRuneTrie :: "'v RuneTrie" where
  "NewRuneTrie = new_node"

definition rune_Get :: "'v RuneTrie \<Rightarrow> string \<Rightarrow> 'v option" where
  "rune_Get t key = node_get (rune_key key) t"

definition rune_Put :: "string \<Rightarrow> 'v option \<Rightarrow> 'v RuneTrie \<Rightarrow> bool \<times> 'v RuneTrie" where
  "rune_Put key value t = (case value of None \<Rightarrow> (True, t) | Some _ \<Rightarrow> node_put (rune_key key) value t)"

definition rune_Delete :: "string \<Rightarrow> 'v RuneTrie \<Rightarrow> (string, bool) outcome \<times> 'v RuneTrie" where
  "rune_Delete key t = (case node_delete (runes key) t of (out, t', _) \<Rightarrow> (out, t'))"

definition rune_Walk :: "('v, 's) WalkFunc \<Rightarrow> 'v RuneTrie \<Rightarrow> 's \<Rightarrow> goerr option \<times> 's" where
  "rune_Walk walker t s = node_walk encode_rune walker [] t s"

definition slash :: char where "slash = CHR 0x2F"

text \<open>\<open>PathSegmenter\<close>: the segment that starts at an index, with its leading slash, and the index of the next one, if any.\<close>

definition PathSegmenter :: "string \<Rightarrow> nat \<Rightarrow> string \<times> nat option" where
  "PathSegmenter path start =
     (if length path = 0 \<or> length path - 1 < start then ([], None)
      else let tail = drop (start + 1) path; n = length (takeWhile (\<lambda>c. c \<noteq> slash) tail) in
        if n = length tail then (drop start path, None)
        else (take (n + 1) (drop start path), Some (start + n + 1)))"

lemma PathSegmenter_next:
  assumes "PathSegmenter key i = (part, Some j)"
  shows "i < j \<and> j < length key \<and> part = take (j - i) (drop i key)"
proof -
  define n where "n = length (takeWhile (\<lambda>c. c \<noteq> slash) (drop (Suc i) key))"
  have "n \<le> length key - Suc i" using length_takeWhile_le [of "\<lambda>c. c \<noteq> slash" "drop (Suc i) key"] by (simp add: n_def)
  with assms show ?thesis by (auto simp: PathSegmenter_def Let_def n_def [symmetric] split: if_splits)
qed

function path_parts :: "string \<Rightarrow> nat \<Rightarrow> string list" where
  "path_parts key i =
     (case PathSegmenter key i of
        (part, None) \<Rightarrow> [part]
      | (part, Some j) \<Rightarrow> part # path_parts key j)"
  by pat_completeness auto
termination
  by (relation "measure (\<lambda>(key, i). length key - i)") (auto dest!: sym [of _ "PathSegmenter _ _"] PathSegmenter_next)

declare path_parts.simps [simp del]

text \<open>The same, by pattern matching on the answer of the segmenter, for evaluation.\<close>

fun path_continue :: "string \<Rightarrow> string \<times> nat option \<Rightarrow> string list" where
  "path_continue key (part, None) = [part]"
| "path_continue key (part, Some j) = part # path_parts key j"

lemma path_parts_code [code]: "path_parts key i = path_continue key (PathSegmenter key i)"
  by (subst path_parts.simps) (cases "PathSegmenter key i"; cases "snd (PathSegmenter key i)"; simp)

definition NewPathTrie :: "'v PathTrie" where
  "NewPathTrie = new_node"

definition path_Get :: "'v PathTrie \<Rightarrow> string \<Rightarrow> 'v option" where
  "path_Get t key = node_get (path_parts key 0) t"

definition path_Put :: "string \<Rightarrow> 'v option \<Rightarrow> 'v PathTrie \<Rightarrow> bool \<times> 'v PathTrie" where
  "path_Put key value t = node_put (path_parts key 0) value t"

definition path_Delete :: "string \<Rightarrow> 'v PathTrie \<Rightarrow> (string, bool) outcome \<times> 'v PathTrie" where
  "path_Delete key t = (case node_delete (map (\<lambda>part. (part, 1)) (path_parts key 0)) t of (out, t', _) \<Rightarrow> (out, t'))"

definition path_Walk :: "('v, 's) WalkFunc \<Rightarrow> 'v PathTrie \<Rightarrow> 's \<Rightarrow> goerr option \<times> 's" where
  "path_Walk walker t s = node_walk id walker [] t s"

section \<open>Lookup after update\<close>

lemma map_of_children [simp]:
  "map_of (tn_children (set_child k c t)) = (map_of (tn_children t))(k \<mapsto> c)"
  "map_of (tn_children (drop_child k t)) = (map_of (tn_children t))(k := None)"
  by (simp_all add: set_child_def drop_child_def update_conv' delete_conv')

lemma tn_value_children [simp]: "tn_value (set_child k c t) = tn_value t" "tn_value (drop_child k t) = tn_value t"
  by (simp_all add: set_child_def drop_child_def)

lemma node_get_new [simp]: "node_get ks new_node = None"
  by (cases ks) (simp_all add: new_node_def)

lemma node_get_put: "node_get ks' (snd (node_put ks v t)) = (if ks' = ks then v else node_get ks' t)"
proof (induction ks arbitrary: t ks')
  case Nil
  show ?case by (cases ks') simp_all
next
  case (Cons k ks)
  note IH = Cons [of _ "case map_of (tn_children t) k of None \<Rightarrow> new_node | Some c \<Rightarrow> c"]
  show ?case
  proof (cases ks')
    case (Cons k' ks'')
    with IH [of ks''] show ?thesis by (auto split: prod.split option.split)
  qed (simp split: prod.split)
qed

lemma node_put_isNew: "fst (node_put ks v t) \<longleftrightarrow> node_get ks t = None"
proof (induction ks arbitrary: t)
  case (Cons k ks)
  show ?case using Cons [of new_node] Cons [of "the (map_of (tn_children t) k)"] by (auto split: prod.splits option.splits)
qed (auto simp: Option.is_none_def)

lemma node_delete_climb: "node_delete rs t = (out, t', True) \<Longrightarrow> t' = new_node"
proof (cases rs)
  case (Cons r rs')
  assume "node_delete rs t = (out, t', True)"
  with Cons show ?thesis
    by (cases r) (auto simp: drop_child_def isLeaf_def new_node_def Option.is_none_def split: option.splits prod.splits list.splits if_splits)
qed (auto simp: isLeaf_def new_node_def split: list.splits)

lemma node_get_delete: "node_get ks (fst (snd (node_delete rs t))) = (if ks = map fst rs then None else node_get ks t)"
proof (induction rs arbitrary: t ks)
  case Nil
  show ?case by (cases ks) simp_all
next
  case (Cons r rs)
  obtain k w where r: "r = (k, w)" by fastforce
  show ?case
  proof (cases "map_of (tn_children t) k")
    case None
    then show ?thesis by (cases ks) (auto simp: r)
  next
    case (Some c)
    obtain out c' climb where d: "node_delete rs c = (out, c', climb)" by (metis prod_cases3)
    have IH: "node_get ks' c' = (if ks' = map fst rs then None else node_get ks' c)" for ks'
      using Cons [of ks' c] d by simp
    show ?thesis
    proof (cases climb)
      case True
      then have "c' = new_node" using node_delete_climb [of rs c out c'] d by simp
      with IH have gone: "node_get ks' c = None" if "ks' \<noteq> map fst rs" for ks' using that by (metis node_get_new)
      show ?thesis using True Some d IH gone by (cases ks) (auto simp: r)
    next
      case False
      then show ?thesis using Some d IH by (cases ks) (auto simp: r)
    qed
  qed
qed

lemma node_delete_missing: "node_delete rs t = (Return False, t', climb) \<Longrightarrow> node_get (map fst rs) t = None"
  by (induction rs arbitrary: t t' climb) (auto split: option.splits prod.splits if_splits)

text \<open>\<open>Delete\<close> returns whether a node was there, unless a rune of several bytes on the way back makes it panic.\<close>

lemma node_delete_plain: "list_all (\<lambda>r. snd r \<le> 1) rs \<Longrightarrow> \<exists>b. fst (node_delete rs t) = Return b"
proof (induction rs arbitrary: t)
  case (Cons r rs)
  then show ?case using Cons.IH [of "the (map_of (tn_children t) (fst r))"]
    by (cases r) (fastforce split: option.splits prod.splits)
qed auto

section \<open>The interface\<close>

text \<open>
  A history of updates, in the order of the calls: every key, and every value, nil included, may be put. \<open>replay\<close> runs it on a trie;
  a \<open>Delete\<close> that panics leaves the trie as it was at that point.
\<close>

datatype 'v trie_op = OpPut string "'v option" | OpDelete string

fun replay ::
  "(string \<Rightarrow> 'v option \<Rightarrow> 't \<Rightarrow> bool \<times> 't) \<Rightarrow> (string \<Rightarrow> 't \<Rightarrow> (string, bool) outcome \<times> 't) \<Rightarrow> 'v trie_op list \<Rightarrow> 't \<Rightarrow> 't" where
  "replay put remove [] t = t"
| "replay put remove (OpPut k v # us) t = replay put remove us (snd (put k v t))"
| "replay put remove (OpDelete k # us) t = replay put remove us (snd (remove k t))"

fun op_key :: "'v trie_op \<Rightarrow> string" where
  "op_key (OpPut k v) = k"
| "op_key (OpDelete k) = k"

text \<open>
  What a map holds under a key after a history: \<open>sel\<close> picks the updates of the key, \<open>stores\<close> the values that a put stores, and
  \<open>cur\<close> is the value before.
\<close>

fun last_update :: "(string \<Rightarrow> bool) \<Rightarrow> ('v option \<Rightarrow> bool) \<Rightarrow> 'v trie_op list \<Rightarrow> 'v option \<Rightarrow> 'v option" where
  "last_update sel stores [] cur = cur"
| "last_update sel stores (OpPut k v # us) cur = last_update sel stores us (if sel k \<and> stores v then v else cur)"
| "last_update sel stores (OpDelete k # us) cur = last_update sel stores us (if sel k then None else cur)"

lemma last_update_cong:
  "(\<And>op. op \<in> set us \<Longrightarrow> sel (op_key op) = sel' (op_key op)) \<Longrightarrow> last_update sel stores us cur = last_update sel' stores us cur"
proof (induction us arbitrary: cur)
  case (Cons op us)
  have "sel (op_key op) = sel' (op_key op)" "last_update sel stores us c = last_update sel' stores us c" for c
    using Cons by simp_all
  then show ?case by (cases op) simp_all
qed simp

text \<open>
  What a client of a \<open>Trier\<close> relies on: it behaves as a map from the keys that its segmentation tells apart. \<open>same\<close> relates strings with
  the same segments, and \<open>stores\<close> says which values a put stores: \<open>RuneTrie.Put\<close> ignores nil, \<open>PathTrie.Put\<close> does not.
\<close>

locale trier =
  fixes get :: "'t \<Rightarrow> string \<Rightarrow> 'v option"
    and put :: "string \<Rightarrow> 'v option \<Rightarrow> 't \<Rightarrow> bool \<times> 't"
    and remove :: "string \<Rightarrow> 't \<Rightarrow> (string, bool) outcome \<times> 't"
    and empty :: 't
    and same :: "string \<Rightarrow> string \<Rightarrow> bool"
    and stores :: "'v option \<Rightarrow> bool"
  assumes get_empty: "get empty k = None"
    and get_put: "get (snd (put k v t)) k' = (if same k k' \<and> stores v then v else get t k')"
    and put_new: "fst (put k v t) \<longleftrightarrow> \<not> stores v \<or> get t k = None"
    and get_remove: "get (snd (remove k t)) k' = (if same k k' then None else get t k')"
    and remove_absent: "fst (remove k t) = Return False \<Longrightarrow> get t k = None"
    and same_refl: "same k k"
begin

lemma replay_get: "get (replay put remove us t) k = last_update (\<lambda>k'. same k' k) stores us (get t k)"
proof (induction us arbitrary: t)
  case (Cons op us)
  then show ?case by (cases op) (simp_all add: get_put get_remove)
qed simp

lemma put_remove: "get (snd (remove k (snd (put k v t)))) k' = (if same k k' then None else get t k')"
  by (simp add: get_put get_remove)

end

interpretation rune: trier rune_Get rune_Put rune_Delete NewRuneTrie "\<lambda>k k'. rune_key k' = rune_key k" "\<lambda>v. v \<noteq> None"
proof
  fix t :: "'v RuneTrie" and k k' v
  show "rune_Get (snd (rune_Put k v t)) k' = (if rune_key k' = rune_key k \<and> v \<noteq> None then v else rune_Get t k')"
    by (cases v) (simp_all add: rune_Get_def rune_Put_def node_get_put)
  show "fst (rune_Put k v t) = (\<not> v \<noteq> None \<or> rune_Get t k = None)" by (cases v) (simp_all add: rune_Get_def rune_Put_def node_put_isNew)
  show "rune_Get (snd (rune_Delete k t)) k' = (if rune_key k' = rune_key k then None else rune_Get t k')"
    using node_get_delete [of "rune_key k'" "runes k" t] by (auto simp: rune_Get_def rune_Delete_def rune_key_def split: prod.splits)
  show "rune_Get t k = None" if "fst (rune_Delete k t) = Return False"
    using that node_delete_missing by (fastforce simp: rune_Get_def rune_Delete_def rune_key_def split: prod.splits)
qed (simp_all add: rune_Get_def NewRuneTrie_def)

lemma path_parts_concat: "i < length key \<Longrightarrow> concat (path_parts key i) = drop i key"
proof (induction key i rule: path_parts.induct)
  case (1 key i)
  obtain part j where p: "PathSegmenter key i = (part, j)" by fastforce
  show ?case
  proof (cases j)
    case None
    with p 1(2) show ?thesis by (auto simp: path_parts.simps [of key i] PathSegmenter_def Let_def split: if_splits)
  next
    case (Some j')
    with PathSegmenter_next p have j: "i < j'" "j' < length key" "part = take (j' - i) (drop i key)" by auto
    with 1(1) [OF p [symmetric]] p Some have "concat (path_parts key i) = take (j' - i) (drop i key) @ drop (j' - i) (drop i key)"
      by (simp add: path_parts.simps [of key i])
    then show ?thesis by (simp only: append_take_drop_id)
  qed
qed

lemma path_parts_Nil [simp]: "path_parts [] 0 = [[]]"
  by (subst path_parts.simps) (simp add: PathSegmenter_def)

lemma path_parts_roundtrip: "concat (path_parts key 0) = key"
  by (cases "key = []") (simp_all add: path_parts_concat)

lemma path_parts_inj: "path_parts k 0 = path_parts k' 0 \<longleftrightarrow> k = k'"
  by (metis path_parts_roundtrip)

interpretation path: trier path_Get path_Put path_Delete NewPathTrie "(=)" "\<lambda>v. True"
proof
  fix t :: "'v PathTrie" and k k' v
  show "path_Get (snd (path_Put k v t)) k' = (if k = k' \<and> True then v else path_Get t k')"
    by (auto simp: path_Get_def path_Put_def node_get_put path_parts_inj)
  show "fst (path_Put k v t) = (\<not> True \<or> path_Get t k = None)" by (simp add: path_Get_def path_Put_def node_put_isNew)
  show "path_Get (snd (path_Delete k t)) k' = (if k = k' then None else path_Get t k')"
    using node_get_delete [of "path_parts k' 0" "map (\<lambda>part. (part, 1)) (path_parts k 0)" t]
    by (auto simp: path_Get_def path_Delete_def path_parts_inj comp_def split: prod.splits)
  show "path_Get t k = None" if "fst (path_Delete k t) = Return False"
    using that node_delete_missing [of "map (\<lambda>part. (part, 1)) (path_parts k 0)" t]
    by (auto simp: path_Get_def path_Delete_def comp_def split: prod.splits)
qed (simp_all add: path_Get_def NewPathTrie_def)

section \<open>Well-formed tries\<close>

text \<open>The keys of a map are distinct; in a trimmed trie every node but the root leads to a value.\<close>

fun node_wf :: "('k, 'v) trie_node \<Rightarrow> bool" where
  "node_wf (TrieNode v cs) = (distinct (map fst cs) \<and> list_all (\<lambda>kc. node_wf (snd kc)) cs)"

fun node_trim :: "('k, 'v) trie_node \<Rightarrow> bool" where
  "node_trim (TrieNode v cs) =
     list_all (\<lambda>kc. \<not> (Option.is_none (tn_value (snd kc)) \<and> isLeaf (snd kc)) \<and> node_trim (snd kc)) cs"

lemma isLeaf_iff: "isLeaf t \<longleftrightarrow> tn_children t = []"
  by (simp add: isLeaf_def split: list.split)

lemma empty_node_iff: "Option.is_none (tn_value t) \<and> isLeaf t \<longleftrightarrow> t = new_node"
  by (cases t) (auto simp: isLeaf_iff new_node_def Option.is_none_def)

lemma node_wf_child: "node_wf t \<Longrightarrow> map_of (tn_children t) k = Some c \<Longrightarrow> node_wf c"
  by (cases t) (auto simp: list_all_iff dest: map_of_SomeD)

lemma node_wf_set: "node_wf t \<Longrightarrow> node_wf c \<Longrightarrow> node_wf (set_child k c t)"
proof (cases t)
  case (TrieNode v cs)
  assume wf: "node_wf t" "node_wf c"
  have "list_all (\<lambda>kc. node_wf (snd kc)) (AList.update k c cs)" if "list_all (\<lambda>kc. node_wf (snd kc)) cs"
    using that wf(2) by (induction cs) auto
  with TrieNode wf show ?thesis by (simp add: set_child_def distinct_update)
qed

lemma node_wf_drop: "node_wf t \<Longrightarrow> node_wf (drop_child k t)"
proof (cases t)
  case (TrieNode v cs)
  assume "node_wf t"
  moreover have "set (AList.delete k cs) \<subseteq> set cs" by (simp add: AList.delete_eq)
  ultimately show ?thesis using TrieNode by (auto simp: drop_child_def list_all_iff distinct_delete)
qed

lemma node_wf_new [simp]: "node_wf new_node"
  by (simp add: new_node_def)

lemma node_wf_put: "node_wf t \<Longrightarrow> node_wf (snd (node_put ks v t))"
proof (induction ks arbitrary: t)
  case Nil
  then show ?case by (cases t) simp
next
  case (Cons k ks)
  let ?c = "case map_of (tn_children t) k of None \<Rightarrow> new_node | Some c \<Rightarrow> c"
  have "node_wf ?c" using node_wf_child [OF Cons.prems] by (cases "map_of (tn_children t) k") auto
  moreover obtain b c where "node_put ks v ?c = (b, c)" by fastforce
  ultimately show ?case using Cons.IH [of ?c] Cons.prems by (simp add: node_wf_set)
qed

lemma node_wf_delete: "node_wf t \<Longrightarrow> node_wf (fst (snd (node_delete rs t)))"
proof (induction rs arbitrary: t)
  case Nil
  then show ?case by (cases t) simp
next
  case (Cons r rs)
  obtain k w where r: "r = (k, w)" by fastforce
  show ?case
  proof (cases "map_of (tn_children t) k")
    case (Some c)
    from Cons.IH [OF node_wf_child [OF Cons.prems Some]] Cons.prems Some show ?thesis
      by (auto simp: r node_wf_set node_wf_drop split: prod.split)
  qed (use Cons.prems r in simp)
qed

lemma node_trim_I: "(\<And>k c. (k, c) \<in> set (tn_children t) \<Longrightarrow> c \<noteq> new_node \<and> node_trim c) \<Longrightarrow> node_trim t"
  by (cases t) (auto simp: list_all_iff empty_node_iff)

lemma node_trim_D: "node_trim t \<Longrightarrow> (k, c) \<in> set (tn_children t) \<Longrightarrow> c \<noteq> new_node \<and> node_trim c"
  by (cases t) (auto simp: list_all_iff empty_node_iff)

lemma set_children:
  "set (tn_children (set_child k c t)) \<subseteq> insert (k, c) (set (tn_children t))" "set (tn_children (drop_child k t)) \<subseteq> set (tn_children t)"
proof -
  have "set (AList.update k c cs) \<subseteq> insert (k, c) (set cs)" for cs by (induction cs) auto
  then show "set (tn_children (set_child k c t)) \<subseteq> insert (k, c) (set (tn_children t))" by (simp add: set_child_def)
  show "set (tn_children (drop_child k t)) \<subseteq> set (tn_children t)" by (auto simp: drop_child_def AList.delete_eq)
qed

lemma node_trim_set:
  assumes "node_trim t" "node_trim c" "c \<noteq> new_node"
  shows "node_trim (set_child k c t) \<and> set_child k c t \<noteq> new_node"
proof
  show "node_trim (set_child k c t)"
  proof (rule node_trim_I)
    fix k' d
    assume "(k', d) \<in> set (tn_children (set_child k c t))"
    with set_children(1) [of k c t] have "(k', d) = (k, c) \<or> (k', d) \<in> set (tn_children t)" by blast
    then show "d \<noteq> new_node \<and> node_trim d" using assms(2,3) node_trim_D [OF assms(1)] by blast
  qed
  show "set_child k c t \<noteq> new_node"
  proof
    assume "set_child k c t = new_node"
    then have "map_of (tn_children (new_node :: ('a, 'b) trie_node)) k = Some c" using map_of_children(1) [of k c t] by simp
    then show False by (simp add: new_node_def)
  qed
qed

lemma node_trim_drop:
  assumes "node_trim t"
  shows "node_trim (drop_child k t)"
proof (rule node_trim_I)
  fix k' d
  assume "(k', d) \<in> set (tn_children (drop_child k t))"
  with set_children(2) [of k t] have "(k', d) \<in> set (tn_children t)" by blast
  then show "d \<noteq> new_node \<and> node_trim d" by (rule node_trim_D [OF assms])
qed

lemma node_trim_lookup: "node_trim t \<Longrightarrow> map_of (tn_children t) k = Some c \<Longrightarrow> c \<noteq> new_node \<and> node_trim c"
  by (erule node_trim_D) (rule map_of_SomeD)

lemma node_trim_new [simp]: "node_trim new_node"
  by (simp add: new_node_def)

lemma node_trim_put: "node_trim t \<Longrightarrow> node_trim (snd (node_put ks (Some v) t)) \<and> snd (node_put ks (Some v) t) \<noteq> new_node"
proof (induction ks arbitrary: t)
  case Nil
  then show ?case by (cases t) (simp add: new_node_def)
next
  case (Cons k ks)
  let ?c = "case map_of (tn_children t) k of None \<Rightarrow> new_node | Some c \<Rightarrow> c"
  have "node_trim ?c" using node_trim_lookup [OF Cons.prems] by (cases "map_of (tn_children t) k") auto
  moreover obtain b c where put: "node_put ks (Some v) ?c = (b, c)" by fastforce
  ultimately have c: "node_trim c" "c \<noteq> new_node" using Cons.IH [of ?c] by simp_all
  from node_trim_set [OF Cons.prems this] put show ?case by simp
qed

lemma node_trim_delete:
  "node_trim t \<Longrightarrow> node_delete rs t = (Return b, t', climb) \<Longrightarrow> node_trim t' \<and> (t \<noteq> new_node \<longrightarrow> \<not> climb \<longrightarrow> t' \<noteq> new_node)"
proof (induction rs arbitrary: t b t' climb)
  case Nil
  then show ?case by (cases t) (auto simp: isLeaf_iff new_node_def)
next
  case (Cons r rs)
  obtain k w where r: "r = (k, w)" by fastforce
  show ?case
  proof (cases "map_of (tn_children t) k")
    case None
    with Cons.prems r show ?thesis by auto
  next
    case (Some c)
    then have c: "node_trim c" "c \<noteq> new_node" using node_trim_lookup [OF Cons.prems(1)] by simp_all
    obtain out c' cl where d: "node_delete rs c = (out, c', cl)" by (metis prod_cases3)
    show ?thesis
    proof (cases cl)
      case False
      with Cons.prems(2) r Some d have t': "t' = set_child k c' t" "out = Return b" by auto
      with Cons.IH [OF c(1)] d c(2) False have "node_trim c'" "c' \<noteq> new_node" by auto
      from node_trim_set [OF Cons.prems(1) this, of k] t' show ?thesis by simp
    next
      case True
      with Cons.prems(2) r Some d have t': "t' = drop_child k t" "climb = (Option.is_none (tn_value t) \<and> isLeaf (drop_child k t))"
        by (auto split: if_splits)
      with empty_node_iff [of t'] have "climb = (t' = new_node)" by simp
      then show ?thesis using node_trim_drop [OF Cons.prems(1)] t'(1) by blast
    qed
  qed
qed

section \<open>Deleting what was put\<close>

lemma update_absent: "map_of cs k = None \<Longrightarrow> AList.delete k (AList.update k c cs) = cs"
  by (induction cs) (auto simp: AList.delete_eq split: if_splits)

lemma update_back: "map_of cs k = Some c \<Longrightarrow> AList.update k c cs = cs"
  by (induction cs) (auto split: if_splits)

lemma drop_set_child: "map_of (tn_children t) k = None \<Longrightarrow> drop_child k (set_child k c t) = t"
  by (cases t) (simp add: drop_child_def set_child_def update_absent)

lemma set_set_child: "map_of (tn_children t) k = Some c \<Longrightarrow> set_child k c (set_child k c' t) = t"
  by (cases t) (simp add: set_child_def update_back)

lemma delete_put_new:
  "list_all (\<lambda>r. snd r \<le> 1) rs \<Longrightarrow> node_delete rs (snd (node_put (map fst rs) v new_node)) = (Return True, new_node, True)"
proof (induction rs)
  case Nil
  show ?case by (simp add: new_node_def isLeaf_def)
next
  case (Cons r rs)
  obtain k w where r: "r = (k, w)" by fastforce
  obtain isNew c1 where put: "node_put (map fst rs) v new_node = (isNew, c1)" by fastforce
  have none: "map_of (tn_children (new_node :: ('a, 'b) trie_node)) k = None" by (simp add: new_node_def)
  from Cons put have "node_delete rs c1 = (Return True, new_node, True)" by simp
  with put r none Cons.prems show ?case using empty_node_iff [of new_node] by (simp add: drop_set_child Option.is_none_def)
qed

lemma delete_put_absent:
  assumes "list_all (\<lambda>r. snd r \<le> 1) rs" "node_trim t" "node_get (map fst rs) t = None"
  shows "\<exists>climb. node_delete rs (snd (node_put (map fst rs) v t)) = (Return True, t, climb)"
  using assms
proof (induction rs arbitrary: t)
  case Nil
  then show ?case by (cases t) simp
next
  case (Cons r rs)
  obtain k w where r: "r = (k, w)" by fastforce
  show ?case
  proof (cases "map_of (tn_children t) k")
    case None
    obtain isNew c1 where put: "node_put (map fst rs) v new_node = (isNew, c1)" by fastforce
    with delete_put_new [of rs v] Cons.prems(1) have "node_delete rs c1 = (Return True, new_node, True)" by simp
    with None put r Cons.prems(1) show ?thesis by (simp add: drop_set_child)
  next
    case (Some c)
    then have c: "node_trim c" "c \<noteq> new_node" using node_trim_lookup [OF Cons.prems(2)] by simp_all
    obtain isNew c1 where put: "node_put (map fst rs) v c = (isNew, c1)" by fastforce
    from Cons.IH [OF _ c(1)] Cons.prems Some r put obtain climb where "node_delete rs c1 = (Return True, c, climb)" by auto
    with node_delete_climb c(2) have "node_delete rs c1 = (Return True, c, False)" by (cases climb) auto
    with Some r put show ?thesis by (auto simp: set_set_child)
  qed
qed

text \<open>The node of a key, if there is one.\<close>

fun node_at :: "'k list \<Rightarrow> ('k, 'v) trie_node \<Rightarrow> ('k, 'v) trie_node option" where
  "node_at [] t = Some t"
| "node_at (k # ks) t = (case map_of (tn_children t) k of None \<Rightarrow> None | Some c \<Rightarrow> node_at ks c)"

lemma node_get_at: "node_get ks t = (case node_at ks t of None \<Rightarrow> None | Some c \<Rightarrow> tn_value c)"
  by (induction ks arbitrary: t) (auto split: option.split)

lemma update_twice: "AList.update k c (AList.update k c' cs) = AList.update k c cs"
  by (induction cs) auto

lemma delete_update: "AList.delete k (AList.update k c cs) = AList.delete k cs"
  by (induction cs) (auto simp: AList.delete_eq)

lemma child_after_set: "set_child k c (set_child k c' t) = set_child k c t" "drop_child k (set_child k c' t) = drop_child k t"
  by (simp_all add: set_child_def drop_child_def update_twice delete_update)

text \<open>Deleting a key that has a node does not depend on the value of the node.\<close>

lemma delete_put_present:
  "node_at (map fst rs) t = Some c \<Longrightarrow> node_delete rs (snd (node_put (map fst rs) v t)) = node_delete rs t"
proof (induction rs arbitrary: t)
  case Nil
  then show ?case by (cases t) (simp add: isLeaf_def)
next
  case (Cons r rs)
  obtain k w where r: "r = (k, w)" by fastforce
  with Cons.prems obtain d where d: "map_of (tn_children t) k = Some d" "node_at (map fst rs) d = Some c"
    by (auto split: option.splits)
  obtain isNew d1 where put: "node_put (map fst rs) v d = (isNew, d1)" by fastforce
  with Cons.IH [OF d(2)] have "node_delete rs d1 = node_delete rs d" by simp
  with d(1) put r show ?case by (simp add: child_after_set split: prod.split)
qed

lemma delete_present: "node_at (map fst rs) t = Some c \<Longrightarrow> fst (node_delete rs t) \<noteq> Return False"
  by (induction rs arbitrary: t) (fastforce split: option.splits prod.splits if_splits)+

lemma node_at_put: "\<exists>c. node_at ks (snd (node_put ks v t)) = Some c"
proof (induction ks arbitrary: t)
  case (Cons k ks)
  obtain b c where "node_put ks v (case map_of (tn_children t) k of None \<Rightarrow> new_node | Some c \<Rightarrow> c) = (b, c)" by fastforce
  with Cons [of "case map_of (tn_children t) k of None \<Rightarrow> new_node | Some c \<Rightarrow> c"] show ?case by simp
qed simp

lemma delete_trimmed_absent:
  assumes "node_trim t" "node_get (map fst rs) t = None"
  shows "fst (snd (node_delete rs t)) = t"
  using assms
proof (induction rs arbitrary: t)
  case Nil
  then show ?case by (cases t) simp
next
  case (Cons r rs)
  obtain k w where r: "r = (k, w)" by fastforce
  show ?case
  proof (cases "map_of (tn_children t) k")
    case (Some c)
    then have c: "node_trim c" "c \<noteq> new_node" using node_trim_lookup [OF Cons.prems(1)] by simp_all
    obtain out c' climb where d: "node_delete rs c = (out, c', climb)" by (metis prod_cases3)
    from Cons.IH [OF c(1)] Cons.prems(2) Some r d have c': "c' = c" by simp
    with node_delete_climb d c(2) have "\<not> climb" by (cases climb) auto
    moreover have "set_child k c t = t" using Some by (cases t) (simp add: set_child_def update_back)
    ultimately show ?thesis using Some r d c' by simp
  qed (simp add: r)
qed

text \<open>Putting a key and deleting it gives the trie that deleting it gives.\<close>

lemma delete_put:
  assumes "list_all (\<lambda>r. snd r \<le> 1) rs" "node_trim t"
  shows "\<exists>climb. node_delete rs (snd (node_put (map fst rs) v t)) = (Return True, fst (snd (node_delete rs t)), climb)"
proof (cases "node_get (map fst rs) t")
  case None
  from delete_put_absent [OF assms None, of v] delete_trimmed_absent [OF assms(2) None] show ?thesis by simp
next
  case (Some x)
  then obtain c where c: "node_at (map fst rs) t = Some c" by (auto simp: node_get_at split: option.splits)
  obtain b where "fst (node_delete rs t) = Return b" using node_delete_plain [OF assms(1)] by blast
  with delete_present [OF c] delete_put_present [OF c, of v] show ?thesis by (cases "node_delete rs t") auto
qed

section \<open>Walking\<close>

text \<open>The entries of a trie in the order of the walk, and the walk as a loop over them that stops at the first error.\<close>

fun node_entries :: "('k, 'v) trie_node \<Rightarrow> ('k list \<times> 'v) list" where
  "node_entries (TrieNode v cs) =
     (case v of None \<Rightarrow> [] | Some x \<Rightarrow> [([], x)]) @ concat (map (\<lambda>kc. map (\<lambda>e. (fst kc # fst e, snd e)) (node_entries (snd kc))) cs)"

fun visit_entries :: "('v, 's) WalkFunc \<Rightarrow> (string \<times> 'v) list \<Rightarrow> 's \<Rightarrow> goerr option \<times> 's" where
  "visit_entries walker [] s = (None, s)"
| "visit_entries walker ((key, x) # es) s =
     (case walker key x s of (Some err, s') \<Rightarrow> (Some err, s') | (None, s') \<Rightarrow> visit_entries walker es s')"

lemma visit_append:
  "visit_entries walker (es @ es') s =
     (case visit_entries walker es s of (Some err, s') \<Rightarrow> (Some err, s') | (None, s') \<Rightarrow> visit_entries walker es' s')"
  by (induction walker es s rule: visit_entries.induct) (auto split: prod.split option.split)

definition rendered :: "('k \<Rightarrow> string) \<Rightarrow> string \<Rightarrow> ('k list \<times> 'v) list \<Rightarrow> (string \<times> 'v) list" where
  "rendered render key es = map (\<lambda>e. (key @ concat (map render (fst e)), snd e)) es"

lemma node_walk_visit:
  "node_walk render walker key t s = visit_entries walker (rendered render key (node_entries t)) s"
  "walk_children render walker key cs s =
     visit_entries walker (rendered render key (concat (map (\<lambda>kc. map (\<lambda>e. (fst kc # fst e, snd e)) (node_entries (snd kc))) cs))) s"
proof (induction render walker key t s and render walker key cs s rule: node_walk_walk_children.induct)
  case (3 render walker key k c cs s)
  then show ?case by (auto simp: visit_append rendered_def comp_def split: prod.split option.split)
qed (auto simp: rendered_def visit_append split: prod.split option.split)

lemma node_entries_get: "node_wf t \<Longrightarrow> (ks, v) \<in> set (node_entries t) \<longleftrightarrow> node_get ks t = Some v"
proof (induction t arbitrary: ks)
  case (TrieNode x cs)
  show ?case
  proof (cases ks)
    case Nil
    then show ?thesis by (auto split: option.split)
  next
    case (Cons k ks')
    have "map_of cs k = Some c \<longleftrightarrow> (k, c) \<in> set cs" for c using TrieNode.prems by (auto simp: map_of_eq_Some_iff)
    moreover have "(ks', v) \<in> set (node_entries c) \<longleftrightarrow> node_get ks' c = Some v" if "(k, c) \<in> set cs" for c
      using TrieNode that by (auto simp: list_all_iff)
    moreover have "(k # ks', v) \<in> set (node_entries (TrieNode x cs)) \<longleftrightarrow> (\<exists>c. (k, c) \<in> set cs \<and> (ks', v) \<in> set (node_entries c))"
      by (cases x) force+
    ultimately have "(k # ks', v) \<in> set (node_entries (TrieNode x cs)) \<longleftrightarrow> (\<exists>c. map_of cs k = Some c \<and> node_get ks' c = Some v)" by blast
    then show ?thesis using Cons by (simp split: option.split)
  qed
qed

lemma node_entries_distinct: "node_wf t \<Longrightarrow> distinct (map fst (node_entries t))"
proof (induction t)
  case (TrieNode x cs)
  have "distinct (map fst (concat (map (\<lambda>kc. map (\<lambda>e. (fst kc # fst e, snd e)) (node_entries (snd kc))) ds)))"
    if "set ds \<subseteq> set cs" "distinct (map fst ds)" for ds
    using that
  proof (induction ds)
    case (Cons kc ds)
    have "distinct (map fst (node_entries (snd kc)))"
      using TrieNode Cons.prems(1) by (cases kc) (auto simp: list_all_iff)
    then have "distinct (map (\<lambda>e. fst kc # fst e) (node_entries (snd kc)))" by (simp add: distinct_map inj_on_def)
    moreover have "(fst kc, d) \<notin> set ds" for d using Cons.prems(2) by (auto simp: image_iff)
    ultimately show ?case using Cons by (auto simp: comp_def)
  qed simp
  with TrieNode.prems show ?case by (auto simp: comp_def split: option.split)
qed

section \<open>Properties\<close>

text \<open>Property C35: a rune trie is a map on its keys. After any history of \<open>Put\<close> and \<open>Delete\<close> calls, with any strings as keys and nil among the
  values, whether or not a \<open>Delete\<close> panicked, \<open>Get\<close> returns the value that the last effective update of the key left: a \<open>Put\<close> of a value other
  than nil stores it, a \<open>Put\<close> of nil changes nothing, a \<open>Delete\<close> leaves nil. The updates of a key are those whose keys have the
  same runes; among valid UTF-8 strings these are the updates of the very same string.\<close>

theorem rune_trie_map:
  "rune_Get (replay rune_Put rune_Delete us NewRuneTrie) k =
     last_update (\<lambda>k'. rune_key k' = rune_key k) (\<lambda>v. v \<noteq> None) us None \<and>
   (valid_utf8 k \<longrightarrow> (\<forall>op \<in> set us. valid_utf8 (op_key op)) \<longrightarrow>
      rune_Get (replay rune_Put rune_Delete us NewRuneTrie) k = last_update (\<lambda>k'. k' = k) (\<lambda>v. v \<noteq> None) us None)"
proof -
  have lookup: "rune_Get (replay rune_Put rune_Delete us NewRuneTrie) k =
     last_update (\<lambda>k'. rune_key k' = rune_key k) (\<lambda>v. v \<noteq> None) us None"
    using rune.replay_get [of us NewRuneTrie k] by (simp add: rune.get_empty eq_commute)
  moreover have "last_update (\<lambda>k'. rune_key k' = rune_key k) (\<lambda>v. v \<noteq> None) us None = last_update (\<lambda>k'. k' = k) (\<lambda>v. v \<noteq> None) us None"
    if "valid_utf8 k" "\<forall>op \<in> set us. valid_utf8 (op_key op)"
    using that valid_utf8_inj by (intro last_update_cong) auto
  ultimately show ?thesis by simp
qed

definition ex_updates :: "nat trie_op list" where
  "ex_updates = [OpPut ''a'' (Some 1), OpPut [CHR 0xC3, CHR 0xA9] (Some 2), OpPut ''ab'' (Some 3), OpDelete [CHR 0xC3, CHR 0xA9],
     OpPut ''a'' (Some 4), OpPut ''a'' None]"

theorem rune_trie_map_witness: "rune_Get (replay rune_Put rune_Delete ex_updates NewRuneTrie) ''a'' = Some 4"
proof -
  have "runes ''a'' = [(97, 1)]" "runes ''ab'' = [(97, 1), (98, 1)]" "runes [CHR 0xC3, CHR 0xA9] = [(233, 2)]" by code_simp+
  then have "valid_utf8 ''a''" "\<forall>op \<in> set ex_updates. valid_utf8 (op_key op)" by (simp_all add: ex_updates_def valid_utf8_def RuneError_def)
  with rune_trie_map [of ex_updates "''a''"] have "rune_Get (replay rune_Put rune_Delete ex_updates NewRuneTrie) ''a'' =
     last_update (\<lambda>k'. k' = ''a'') (\<lambda>v. v \<noteq> None) ex_updates None" by blast
  then show ?thesis by (simp add: ex_updates_def)
qed

text \<open>Invalid bytes are one rune, so that different keys share an entry.\<close>

lemma invalid_keys_collide:
  "rune_Get (snd (rune_Put [CHR 0xFF] (Some v) NewRuneTrie)) [CHR 0xFE] = Some v"
proof -
  have "rune_key [CHR 0xFE] = rune_key [CHR 0xFF]"
    by (simp add: rune_key_def runes_code decode_rune_def rune_lead_def)
  then show ?thesis by (simp add: rune.get_put)
qed


definition walks_entries :: "'v RuneTrie \<Rightarrow> (nat list \<times> 'v) list \<Rightarrow> bool" where
  "walks_entries t es \<longleftrightarrow> distinct (map fst es) \<and> (\<forall>ks v. (ks, v) \<in> set es \<longleftrightarrow> node_get ks t = Some v)"

lemma replay_wf: "node_wf t \<Longrightarrow> node_wf (replay rune_Put rune_Delete us t)"
proof (induction us arbitrary: t)
  case (Cons op us)
  have "node_wf (snd (rune_Delete k t))" for k using node_wf_delete [OF Cons.prems, of "runes k"]
    by (cases "node_delete (runes k) t") (simp add: rune_Delete_def)
  moreover have "node_wf (snd (rune_Put k v t))" for k v using node_wf_put [OF Cons.prems] Cons.prems by (cases v) (simp_all add: rune_Put_def)
  ultimately show ?case using Cons.IH by (cases op) simp_all
qed simp

text \<open>The walk of a trie visits exactly its entries, each once, and stops at the first error of the walker. This holds
  after any history of updates.\<close>

theorem rune_walk_visits_once:
  "\<exists>es. walks_entries (replay rune_Put rune_Delete us NewRuneTrie) es \<and>
     rune_Walk walker (replay rune_Put rune_Delete us NewRuneTrie) s = visit_entries walker (rendered encode_rune [] es) s"
proof -
  define t where "t = replay rune_Put rune_Delete us NewRuneTrie"
  have "node_wf t" unfolding t_def by (rule replay_wf) (simp add: NewRuneTrie_def)
  then have "walks_entries t (node_entries t)"
    by (simp add: walks_entries_def node_entries_distinct node_entries_get)
  then show ?thesis unfolding t_def [symmetric] rune_Walk_def node_walk_visit by blast
qed

lemma path_delete_total: "\<exists>b t' climb. node_delete (map (\<lambda>part. (part, 1)) ps) t = (Return b, t', climb)"
  using node_delete_plain [of "map (\<lambda>part. (part, 1)) ps" t] by (cases "node_delete (map (\<lambda>part. (part, 1)) ps) t") (auto simp: list_all_iff)

lemma path_Delete_trim: "node_trim t \<Longrightarrow> node_trim (snd (path_Delete k t))"
proof -
  assume t: "node_trim t"
  obtain b t' climb where d: "node_delete (map (\<lambda>part. (part, 1)) (path_parts k 0)) t = (Return b, t', climb)"
    using path_delete_total by blast
  with node_trim_delete [OF t this] show ?thesis by (simp add: path_Delete_def)
qed

lemma replay_trim: "node_trim t \<Longrightarrow> \<forall>k. OpPut k None \<notin> set us \<Longrightarrow> node_trim (replay path_Put path_Delete us t)"
proof (induction us arbitrary: t)
  case (Cons op us)
  have "node_trim (snd (path_Put k (Some v) t))" for k v using node_trim_put [OF Cons.prems(1)] by (simp add: path_Put_def)
  moreover have "\<forall>k. OpPut k None \<notin> set us" "op \<noteq> OpPut k None" for k using Cons.prems(2) by auto
  moreover note Cons.IH path_Delete_trim [OF Cons.prems(1)]
  ultimately show ?case by (cases op) (auto simp del: split_paired_All, metis option.exhaust)
qed simp

text \<open>Property C36: what a \<open>Put\<close> and a \<open>Delete\<close> of the same key leave of a path trie, for any trie that a history of \<open>Put\<close> and \<open>Delete\<close> calls
  produced. The \<open>Delete\<close> returns true; afterwards the key reads as nil and every other key reads as before. When the history put no nil,
  the result is, node for node, what the \<open>Delete\<close> alone gives, so that no empty branch stays behind; and when the key had no value,
  this is the trie as it was before the \<open>Put\<close>.\<close>

theorem path_put_delete_restores:
  assumes t: "t = replay path_Put path_Delete us NewPathTrie"
  shows "fst (path_Delete k (snd (path_Put k v t))) = Return True \<and>
    path_Get (snd (path_Delete k (snd (path_Put k v t)))) k' = (if k' = k then None else path_Get t k') \<and>
    ((\<forall>k. OpPut k None \<notin> set us) \<longrightarrow>
       snd (path_Delete k (snd (path_Put k v t))) = snd (path_Delete k t) \<and>
       (path_Get t k = None \<longrightarrow> snd (path_Delete k (snd (path_Put k v t))) = t))"
proof (intro conjI impI)
  let ?rs = "map (\<lambda>part. (part, 1 :: nat)) (path_parts k 0)"
  have rs: "map fst ?rs = path_parts k 0" "list_all (\<lambda>r. snd r \<le> 1) ?rs" by (simp_all add: comp_def list_all_iff)
  obtain c where "node_at (map fst ?rs) (snd (path_Put k v t)) = Some c" using node_at_put rs(1) by (metis path_Put_def)
  from delete_present [OF this] have "fst (node_delete ?rs (snd (path_Put k v t))) \<noteq> Return False" .
  moreover obtain b where "fst (node_delete ?rs (snd (path_Put k v t))) = Return b" using node_delete_plain [OF rs(2)] by blast
  moreover have "fst (path_Delete k (snd (path_Put k v t))) = fst (node_delete ?rs (snd (path_Put k v t)))"
    by (simp add: path_Delete_def split: prod.split)
  ultimately show "fst (path_Delete k (snd (path_Put k v t))) = Return True" by (cases b) simp_all
  show "path_Get (snd (path_Delete k (snd (path_Put k v t)))) k' = (if k' = k then None else path_Get t k')"
    using path.put_remove [of k v t k'] by auto
  assume "\<forall>k. OpPut k None \<notin> set us"
  then have trim: "node_trim t" unfolding t by (intro replay_trim) (simp_all add: NewPathTrie_def)
  from delete_put [OF rs(2) this, of v] rs(1) show del: "snd (path_Delete k (snd (path_Put k v t))) = snd (path_Delete k t)"
    by (auto simp: path_Put_def path_Delete_def split: prod.splits)
  assume "path_Get t k = None"
  with delete_trimmed_absent [OF trim, of ?rs] rs(1) have "snd (path_Delete k t) = t"
    by (auto simp: path_Get_def path_Delete_def split: prod.splits)
  with del show "snd (path_Delete k (snd (path_Put k v t))) = t" by simp
qed

definition ex_paths :: "nat PathTrie" where
  "ex_paths = replay path_Put path_Delete [OpPut ''/a'' (Some 1), OpPut ''/a/b/c'' (Some 2)] NewPathTrie"

theorem path_put_delete_restores_witness: "path_Delete ''/a/b'' (snd (path_Put ''/a/b'' (Some 3) ex_paths)) = (Return True, ex_paths)"
proof -
  have "path_Get ex_paths ''/a/b'' = None" by code_simp
  with path_put_delete_restores [OF ex_paths_def, of "''/a/b''" "Some 3" "''/a''"]
  have "fst (path_Delete ''/a/b'' (snd (path_Put ''/a/b'' (Some 3) ex_paths))) = Return True"
    "snd (path_Delete ''/a/b'' (snd (path_Put ''/a/b'' (Some 3) ex_paths))) = ex_paths" by auto
  then show ?thesis by (rule prod_eqI [where q = "(Return True, ex_paths)", unfolded fst_conv snd_conv])
qed

text \<open>A nil that was put leaves an empty node, which a later \<open>Delete\<close> below it removes: the trie is not restored node for node.\<close>

lemma nil_leaf_not_restored:
  "path_Delete ''/a/b'' (snd (path_Put ''/a/b'' (Some True) (snd (path_Put ''/a'' None NewPathTrie)))) = (Return True, NewPathTrie) \<and>
   snd (path_Put ''/a'' None NewPathTrie) \<noteq> (NewPathTrie :: bool PathTrie)"
  by code_simp

lemma node_delete_wide:
  "node_at (map fst (rs @ [(r, w)])) t = Some c \<Longrightarrow> isLeaf c \<Longrightarrow> 1 < w \<Longrightarrow>
     \<exists>t' c'. node_delete (rs @ [(r, w)]) t = (Panic nil_deref, t', False) \<and> node_at (map fst (rs @ [(r, w)])) t' = Some c'"
proof (induction rs arbitrary: t)
  case Nil
  then show ?case by (auto simp: set_child_def update_conv split: option.splits)
next
  case (Cons q rs)
  obtain k u where q: "q = (k, u)" by fastforce
  with Cons.prems(1) obtain d where d: "map_of (tn_children t) k = Some d" "node_at (map fst (rs @ [(r, w)])) d = Some c"
    by (auto split: option.splits)
  from Cons.IH [OF this(2) Cons.prems(2,3)] d q show ?case by (auto simp: set_child_def update_conv)
qed

text \<open>Property C38: \<open>RuneTrie.Delete\<close> panics on a key whose node is a leaf when the last rune of the key takes more than one byte: its record
  of ancestors has no node in the slots between the start of that rune and the end of the key. The value of the key is gone by then,
  but its node stays.\<close>

theorem rune_delete_wide_panics:
  assumes "runes key = rs @ [(r, w)]" "1 < w" "node_at (rune_key key) t = Some c" "isLeaf c"
  shows "fst (rune_Delete key t) = Panic nil_deref \<and> rune_Get (snd (rune_Delete key t)) key = None \<and>
    (\<exists>c'. node_at (rune_key key) (snd (rune_Delete key t)) = Some c')"
proof -
  from node_delete_wide [of rs r w t c] assms obtain t' c' where "node_delete (runes key) t = (Panic nil_deref, t', False)"
    "node_at (rune_key key) t' = Some c'" by (auto simp: rune_key_def)
  with rune.get_remove [of key t key] show ?thesis by (simp add: rune_Delete_def)
qed

definition ex_accent :: string where "ex_accent = [CHR 0x63, CHR 0xC3, CHR 0xA9]"

theorem rune_delete_wide_panics_witness:
  "fst (rune_Delete ex_accent (snd (rune_Put ex_accent (Some True) NewRuneTrie))) = Panic nil_deref"
proof -
  have "runes ex_accent = [(99, 1)] @ [(233, 2)]" by code_simp
  moreover have "(1 :: nat) < 2" by simp
  moreover have "node_at (rune_key ex_accent) (snd (rune_Put ex_accent (Some True) NewRuneTrie)) = Some (TrieNode (Some True) [])" by code_simp
  moreover have "isLeaf (TrieNode (Some True) [] :: bool RuneTrie)" by (simp add: isLeaf_def)
  ultimately show ?thesis by (rule rune_delete_wide_panics [THEN conjunct1])
qed

end
