(* ===== verification/EventBus.thy ===== *)
theory EventBus
  imports Tries "HOL-Library.Word"
begin

text \<open>
  The in-process event bus (\<open>framework/core/eventBus/trie_event_bus.go\<close>). A rune trie maps a topic to its \<open>nodeManager\<close>, which holds the
  newest of its subscriptions; the subscriptions of a topic are a doubly linked list of payloads that come from a
  \<open>sync.Pool\<close> and go back to it. Managers and payloads are shared by pointers, so the model has a store for each: an
  address is a natural number, nil is \<^const>\<open>None\<close>. Which object the pool hands out is an argument (\<open>choice\<close>): an index into the
  pool, or a fresh object when it is out of range.

  Every method holds the lock of the bus, for writing, or for reading together with the one of the manager, so a method is one
  step. The handlers of a publication run after the locks are released and may call the bus: a handler is a value \<open>'h\<close>, and what
  calling it does to the bus and to the world is an argument. A loop over the linked list that does not end is \<^const>\<open>None\<close>.
\<close>

section \<open>Data\<close>

definition TopicExistErr :: goerr where "TopicExistErr = Err ''topic is exist'' []"
definition TopicNotExistErr :: goerr where "TopicNotExistErr = Err ''topic not exist'' []"
definition TopicNotMatchErr :: goerr where "TopicNotMatchErr = Err ''topic not match'' []"
definition busClosed :: goerr where "busClosed = Err ''event bus is closed'' []"

record 'h payload =
  pl_index :: "64 word"
  pl_pre :: "nat option"
  pl_next :: "nat option"
  pl_handle :: "'h option"

record nodeManager =
  nm_indexer :: "64 word"
  nm_payloadIndex :: "nat option"

record ('h, 'p) trieEventBus =
  tb_node :: "nat RuneTrie"
  tb_managers :: "nat \<Rightarrow> nodeManager"
  tb_nextManager :: nat
  tb_payloads :: "nat \<Rightarrow> 'h payload"
  tb_nextPayload :: nat
  tb_pool :: "nat list"
  tb_pending :: "(string \<times> 'p) list"
  tb_closed :: bool

definition new_payload :: "'h payload" where
  "new_payload = \<lparr>pl_index = 0, pl_pre = None, pl_next = None, pl_handle = None\<rparr>"

definition new_manager :: nodeManager where
  "new_manager = \<lparr>nm_indexer = 0, nm_payloadIndex = None\<rparr>"

definition NewTrieEventBus :: "('h, 'p) trieEventBus" where
  "NewTrieEventBus =
     \<lparr>tb_node = NewRuneTrie, tb_managers = (\<lambda>_. new_manager), tb_nextManager = 0, tb_payloads = (\<lambda>_. new_payload),
      tb_nextPayload = 0, tb_pool = [], tb_pending = [], tb_closed = False\<rparr>"

section \<open>Payloads\<close>

definition loadPayload :: "nat \<Rightarrow> ('h, 'p) trieEventBus \<Rightarrow> nat \<times> ('h, 'p) trieEventBus" where
  "loadPayload choice bus =
     (let (a, bus) =
        (if choice < length (tb_pool bus)
         then (tb_pool bus ! choice, bus\<lparr>tb_pool := take choice (tb_pool bus) @ drop (Suc choice) (tb_pool bus)\<rparr>)
         else (tb_nextPayload bus,
               bus\<lparr>tb_nextPayload := Suc (tb_nextPayload bus), tb_payloads := (tb_payloads bus)(tb_nextPayload bus := new_payload)\<rparr>))
      in (a, bus\<lparr>tb_payloads := (tb_payloads bus)(a := (tb_payloads bus a)\<lparr>pl_handle := None, pl_next := None, pl_pre := None\<rparr>)\<rparr>))"

definition putPayload :: "nat \<Rightarrow> ('h, 'p) trieEventBus \<Rightarrow> ('h, 'p) trieEventBus" where
  "putPayload a bus = bus\<lparr>tb_pool := a # tb_pool bus\<rparr>"

definition set_next :: "nat option \<Rightarrow> nat option \<Rightarrow> (nat \<Rightarrow> 'h payload) \<Rightarrow> nat \<Rightarrow> 'h payload" where
  "set_next q v h = (case q of None \<Rightarrow> h | Some b \<Rightarrow> h(b := (h b)\<lparr>pl_next := v\<rparr>))"

definition set_pre :: "nat option \<Rightarrow> nat option \<Rightarrow> (nat \<Rightarrow> 'h payload) \<Rightarrow> nat \<Rightarrow> 'h payload" where
  "set_pre q v h = (case q of None \<Rightarrow> h | Some b \<Rightarrow> h(b := (h b)\<lparr>pl_pre := v\<rparr>))"

section \<open>Topics and subscriptions\<close>

definition createTopic :: "string \<Rightarrow> ('h, 'p) trieEventBus \<Rightarrow> goerr option \<times> ('h, 'p) trieEventBus" where
  "createTopic topic bus =
     (case rune_Get (tb_node bus) topic of
        Some _ \<Rightarrow> (Some TopicExistErr, bus)
      | None \<Rightarrow>
        (let m = tb_nextManager bus in
         (None, bus\<lparr>tb_node := snd (rune_Put topic (Some m) (tb_node bus)), tb_managers := (tb_managers bus)(m := new_manager),
                   tb_nextManager := Suc m\<rparr>)))"

definition CreateTopic :: "string \<Rightarrow> ('h, 'p) trieEventBus \<Rightarrow> goerr option \<times> ('h, 'p) trieEventBus" where
  "CreateTopic topic bus = (if tb_closed bus then (Some busClosed, bus) else createTopic topic bus)"

text \<open>The end of \<open>Subscribe\<close>: the payload becomes the newest of the manager.\<close>

definition link_payload :: "nat \<Rightarrow> 'h \<Rightarrow> nat \<Rightarrow> ('h, 'p) trieEventBus \<Rightarrow> 64 word \<times> ('h, 'p) trieEventBus" where
  "link_payload choice handle m bus =
     (let subIndex = nm_indexer (tb_managers bus m) + 1;
          head = nm_payloadIndex (tb_managers bus m);
          (a, bus) = loadPayload choice bus;
          h = (tb_payloads bus)(a := (tb_payloads bus a)\<lparr>pl_handle := Some handle, pl_index := subIndex\<rparr>);
          h = set_pre (Some a) head (set_next head (Some a) h)
      in (subIndex, bus\<lparr>tb_payloads := h, tb_managers := (tb_managers bus)(m := \<lparr>nm_indexer = subIndex, nm_payloadIndex = Some a\<rparr>)\<rparr>))"

definition Subscribe ::
  "nat \<Rightarrow> string \<Rightarrow> 'h option \<Rightarrow> ('h, 'p) trieEventBus \<Rightarrow> (string, 64 word result) outcome \<times> ('h, 'p) trieEventBus" where
  "Subscribe choice topic handle bus =
     (case handle of
        None \<Rightarrow> (Return (Inl (Err ''subscribe handle is nil'' [])), bus)
      | Some h \<Rightarrow>
        if tb_closed bus then (Return (Inl busClosed), bus)
        else
          (case createTopic topic bus of
             (err, bus1) \<Rightarrow>
               if err \<noteq> None \<and> err \<noteq> Some TopicExistErr then (Return (Inl (the err)), bus1)
               else
                 (case rune_Get (tb_node bus1) topic of
                    None \<Rightarrow> (Panic ''interface conversion: interface is nil, not *nodeManager'', bus1)
                  | Some m \<Rightarrow> (case link_payload choice h m bus1 of (subIndex, bus2) \<Rightarrow> (Return (Inr subIndex), bus2)))))"

partial_function (option) find_payload :: "(nat \<Rightarrow> 'h payload) \<Rightarrow> 64 word \<Rightarrow> nat option \<Rightarrow> nat option option" where
  "find_payload h subIndex p =
     (case p of
        None \<Rightarrow> Some None
      | Some a \<Rightarrow> if pl_index (h a) = subIndex then Some (Some a) else find_payload h subIndex (pl_pre (h a)))"

definition unlink :: "nat \<Rightarrow> nat \<Rightarrow> ('h, 'p) trieEventBus \<Rightarrow> ('h, 'p) trieEventBus" where
  "unlink m a bus =
     (let h = tb_payloads bus; h = set_next (pl_pre (h a)) (pl_next (h a)) h; h = set_pre (pl_next (h a)) (pl_pre (h a)) h;
          manager = tb_managers bus m;
          manager = (if nm_payloadIndex manager = Some a then manager\<lparr>nm_payloadIndex := pl_pre (h a)\<rparr> else manager)
      in putPayload a (bus\<lparr>tb_payloads := h, tb_managers := (tb_managers bus)(m := manager)\<rparr>))"

definition UnSubscribe :: "string \<Rightarrow> 64 word \<Rightarrow> ('h, 'p) trieEventBus \<Rightarrow> (goerr option \<times> ('h, 'p) trieEventBus) option" where
  "UnSubscribe topic subIndex bus =
     (case rune_Get (tb_node bus) topic of
        None \<Rightarrow> Some (Some TopicNotExistErr, bus)
      | Some m \<Rightarrow>
        (case nm_payloadIndex (tb_managers bus m) of
           None \<Rightarrow> Some (None, bus)
         | Some p \<Rightarrow>
           (case find_payload (tb_payloads bus) subIndex (Some p) of
              None \<Rightarrow> None
            | Some None \<Rightarrow> Some (Some TopicNotMatchErr, bus)
            | Some (Some a) \<Rightarrow> Some (None, unlink m a bus))))"

section \<open>Publication\<close>

partial_function (option) collect_handles :: "(nat \<Rightarrow> 'h payload) \<Rightarrow> nat option \<Rightarrow> 'h option list \<Rightarrow> 'h option list option" where
  "collect_handles h p handles =
     (case p of None \<Rightarrow> Some handles | Some a \<Rightarrow> collect_handles h (pl_pre (h a)) (handles @ [pl_handle (h a)]))"

text \<open>The part of \<open>Publish\<close> under the locks: the handlers to call, or the error.\<close>

definition publish_handles :: "string \<Rightarrow> ('h, 'p) trieEventBus \<Rightarrow> 'h option list result option" where
  "publish_handles topic bus =
     (if tb_closed bus then Some (Inl busClosed)
      else case rune_Get (tb_node bus) topic of
        None \<Rightarrow> Some (Inr [])
      | Some m \<Rightarrow> map_option Inr (collect_handles (tb_payloads bus) (nm_payloadIndex (tb_managers bus m)) []))"

type_synonym ('h, 'p, 'w) bus_state = "('h, 'p) trieEventBus \<times> 'w"
type_synonym ('h, 'p, 'w) handle_call = "'h \<Rightarrow> 'p \<Rightarrow> ('h, 'p, 'w) bus_state \<Rightarrow> (string, unit) outcome \<times> ('h, 'p, 'w) bus_state"

fun run_handles :: "('h, 'p, 'w) handle_call \<Rightarrow> 'p \<Rightarrow> 'h option list \<Rightarrow> ('h, 'p, 'w) bus_state \<Rightarrow> (string, goerr option) outcome \<times> ('h, 'p, 'w) bus_state" where
  "run_handles call param [] s = (Return None, s)"
| "run_handles call param (None # hs) s = (Panic nil_deref, s)"
| "run_handles call param (Some h # hs) s =
     (case call h param s of (Panic p, s') \<Rightarrow> (Panic p, s') | (Return _, s') \<Rightarrow> run_handles call param hs s')"

definition Publish ::
  "('h, 'p, 'w) handle_call \<Rightarrow> string \<Rightarrow> 'p \<Rightarrow> ('h, 'p, 'w) bus_state \<Rightarrow> ((string, goerr option) outcome \<times> ('h, 'p, 'w) bus_state) option" where
  "Publish call topic param s =
     (case publish_handles topic (fst s) of
        None \<Rightarrow> None
      | Some (Inl err) \<Rightarrow> Some (Return (Some err), s)
      | Some (Inr handles) \<Rightarrow> Some (run_handles call param handles s))"

partial_function (option) release_payloads :: "nat option \<Rightarrow> ('h, 'p) trieEventBus \<Rightarrow> ('h, 'p) trieEventBus option" where
  "release_payloads p bus =
     (case p of None \<Rightarrow> Some bus | Some a \<Rightarrow> release_payloads (pl_pre (tb_payloads bus a)) (putPayload a bus))"

definition DestroyTopic :: "string \<Rightarrow> ('h, 'p) trieEventBus \<Rightarrow> ((string, goerr option) outcome \<times> ('h, 'p) trieEventBus) option" where
  "DestroyTopic topic bus =
     (case rune_Get (tb_node bus) topic of
        None \<Rightarrow> Some (Return (Some TopicNotExistErr), bus)
      | Some m \<Rightarrow>
        (case release_payloads (nm_payloadIndex (tb_managers bus m)) bus of
           None \<Rightarrow> None
         | Some bus1 \<Rightarrow>
           (case rune_Delete topic (tb_node bus1) of
              (Panic p, t) \<Rightarrow> Some (Panic p, bus1\<lparr>tb_node := t\<rparr>)
            | (Return _, t) \<Rightarrow> Some (Return None, bus1\<lparr>tb_node := t\<rparr>))))"

text \<open>The loops by pattern matching on the pointer, for evaluation.\<close>

lemma payload_loops_code [code]:
  "find_payload h i None = Some None"
  "find_payload h i (Some a) = (if pl_index (h a) = i then Some (Some a) else find_payload h i (pl_pre (h a)))"
  "collect_handles h None handles = Some handles"
  "collect_handles h (Some a) handles = collect_handles h (pl_pre (h a)) (handles @ [pl_handle (h a)])"
  "release_payloads None bus = Some bus"
  "release_payloads (Some a) bus = release_payloads (pl_pre (tb_payloads bus a)) (putPayload a bus)"
  by (simp_all add: find_payload.simps collect_handles.simps release_payloads.simps)

section \<open>Delayed publication and closing\<close>

text \<open>A delayed publication is a goroutine that waits for its timer or for the end of the bus. Of the goroutines that wait, the
  \<open>i\<close>-th goes on: its timer fired, or, when the bus is closed, its context may be done first.\<close>

definition DelayPublish :: "string \<Rightarrow> 'p \<Rightarrow> ('h, 'p) trieEventBus \<Rightarrow> goerr option \<times> ('h, 'p) trieEventBus" where
  "DelayPublish topic param bus =
     (if tb_closed bus then (Some busClosed, bus) else (None, bus\<lparr>tb_pending := tb_pending bus @ [(topic, param)]\<rparr>))"

definition delayed_step ::
  "('h, 'p, 'w) handle_call \<Rightarrow> bool \<Rightarrow> nat \<Rightarrow> ('h, 'p, 'w) bus_state \<Rightarrow> ((string, goerr option) outcome \<times> ('h, 'p, 'w) bus_state) option" where
  "delayed_step call fired i s =
     (let bus = fst s; rest = bus\<lparr>tb_pending := take i (tb_pending bus) @ drop (Suc i) (tb_pending bus)\<rparr> in
      if length (tb_pending bus) \<le> i then Some (Return None, s)
      else if fired then Publish call (fst (tb_pending bus ! i)) (snd (tb_pending bus ! i)) (rest, snd s)
      else if tb_closed bus then Some (Return None, (rest, snd s))
      else Some (Return None, s))"

text \<open>\<open>Close\<close>; its wait for the goroutines of delayed publications changes nothing.\<close>

definition bus_Close :: "('h, 'p) trieEventBus \<Rightarrow> ('h, 'p) trieEventBus" where
  "bus_Close bus = bus\<lparr>tb_closed := True\<rparr>"

section \<open>The specification\<close>

text \<open>
  A bus as its users see it: each topic, named by its runes, has the number of its last subscription and its subscriptions, the
  newest first.
\<close>

record 'h spec_bus =
  sp_topics :: "nat list \<Rightarrow> (64 word \<times> (64 word \<times> 'h) list) option"
  sp_closed :: bool

definition spec_new :: "'h spec_bus" where
  "spec_new = \<lparr>sp_topics = (\<lambda>_. None), sp_closed = False\<rparr>"

fun drop_first :: "'k \<Rightarrow> ('k \<times> 'a) list \<Rightarrow> ('k \<times> 'a) list" where
  "drop_first k [] = []"
| "drop_first k (x # xs) = (if fst x = k then xs else x # drop_first k xs)"

datatype 'h bus_op = OpCreate string | OpSubscribe nat string 'h | OpUnSubscribe string "64 word" | OpDestroy string | OpClose

datatype bus_res = ResErr "goerr option" | ResIndex "64 word" | ResPanic

definition spec_create :: "nat list \<Rightarrow> 'h spec_bus \<Rightarrow> bus_res \<times> 'h spec_bus" where
  "spec_create ks sp =
     (if sp_closed sp then (ResErr (Some busClosed), sp)
      else case sp_topics sp ks of
        Some _ \<Rightarrow> (ResErr (Some TopicExistErr), sp)
      | None \<Rightarrow> (ResErr None, sp\<lparr>sp_topics := (sp_topics sp)(ks \<mapsto> (0, []))\<rparr>))"

definition spec_subscribe :: "nat list \<Rightarrow> 'h \<Rightarrow> 'h spec_bus \<Rightarrow> bus_res \<times> 'h spec_bus" where
  "spec_subscribe ks h sp =
     (if sp_closed sp then (ResErr (Some busClosed), sp)
      else case (case sp_topics sp ks of None \<Rightarrow> (0, []) | Some t \<Rightarrow> t) of
        (i, subs) \<Rightarrow> (ResIndex (i + 1), sp\<lparr>sp_topics := (sp_topics sp)(ks \<mapsto> (i + 1, (i + 1, h) # subs))\<rparr>))"

definition spec_unsubscribe :: "nat list \<Rightarrow> 64 word \<Rightarrow> 'h spec_bus \<Rightarrow> bus_res \<times> 'h spec_bus" where
  "spec_unsubscribe ks i sp =
     (case sp_topics sp ks of
        None \<Rightarrow> (ResErr (Some TopicNotExistErr), sp)
      | Some (n, subs) \<Rightarrow>
        if subs = [] then (ResErr None, sp)
        else if i \<in> fst ` set subs then (ResErr None, sp\<lparr>sp_topics := (sp_topics sp)(ks \<mapsto> (n, drop_first i subs))\<rparr>)
        else (ResErr (Some TopicNotMatchErr), sp))"

definition spec_destroy :: "nat list \<Rightarrow> 'h spec_bus \<Rightarrow> bus_res \<times> 'h spec_bus" where
  "spec_destroy ks sp =
     (case sp_topics sp ks of
        None \<Rightarrow> (ResErr (Some TopicNotExistErr), sp)
      | Some _ \<Rightarrow> (ResErr None, sp\<lparr>sp_topics := (sp_topics sp)(ks := None)\<rparr>))"

fun spec_step :: "'h bus_op \<Rightarrow> 'h spec_bus \<Rightarrow> bus_res \<times> 'h spec_bus" where
  "spec_step (OpCreate topic) sp = spec_create (rune_key topic) sp"
| "spec_step (OpSubscribe choice topic h) sp = spec_subscribe (rune_key topic) h sp"
| "spec_step (OpUnSubscribe topic i) sp = spec_unsubscribe (rune_key topic) i sp"
| "spec_step (OpDestroy topic) sp = spec_destroy (rune_key topic) sp"
| "spec_step OpClose sp = (ResErr None, sp\<lparr>sp_closed := True\<rparr>)"

definition spec_publish :: "string \<Rightarrow> 'h spec_bus \<Rightarrow> 'h option list result" where
  "spec_publish topic sp =
     (if sp_closed sp then Inl busClosed
      else case sp_topics sp (rune_key topic) of None \<Rightarrow> Inr [] | Some (_, subs) \<Rightarrow> Inr (map (Some \<circ> snd) subs))"

fun bus_step :: "'h bus_op \<Rightarrow> ('h, 'p) trieEventBus \<Rightarrow> (bus_res \<times> ('h, 'p) trieEventBus) option" where
  "bus_step (OpCreate topic) bus = (case CreateTopic topic bus of (err, bus') \<Rightarrow> Some (ResErr err, bus'))"
| "bus_step (OpSubscribe choice topic h) bus =
     (case Subscribe choice topic (Some h) bus of
        (Panic _, bus') \<Rightarrow> Some (ResPanic, bus')
      | (Return (Inl err), bus') \<Rightarrow> Some (ResErr (Some err), bus')
      | (Return (Inr i), bus') \<Rightarrow> Some (ResIndex i, bus'))"
| "bus_step (OpUnSubscribe topic i) bus = (case UnSubscribe topic i bus of None \<Rightarrow> None | Some (err, bus') \<Rightarrow> Some (ResErr err, bus'))"
| "bus_step (OpDestroy topic) bus =
     (case DestroyTopic topic bus of
        None \<Rightarrow> None
      | Some (Panic _, bus') \<Rightarrow> Some (ResPanic, bus')
      | Some (Return err, bus') \<Rightarrow> Some (ResErr err, bus'))"
| "bus_step OpClose bus = Some (ResErr None, bus_Close bus)"

fun bus_run :: "'h bus_op list \<Rightarrow> ('h, 'p) trieEventBus \<Rightarrow> (bus_res list \<times> ('h, 'p) trieEventBus) option" where
  "bus_run [] bus = Some ([], bus)"
| "bus_run (op # ops) bus =
     (case bus_step op bus of
        None \<Rightarrow> None
      | Some (r, bus1) \<Rightarrow> (case bus_run ops bus1 of None \<Rightarrow> None | Some (rs, bus2) \<Rightarrow> Some (r # rs, bus2)))"

fun spec_run :: "'h bus_op list \<Rightarrow> 'h spec_bus \<Rightarrow> bus_res list \<times> 'h spec_bus" where
  "spec_run [] sp = ([], sp)"
| "spec_run (op # ops) sp =
     (case spec_step op sp of (r, sp1) \<Rightarrow> (case spec_run ops sp1 of (rs, sp2) \<Rightarrow> (r # rs, sp2)))"

text \<open>The results of a run against those of the specification: they are equal, except that a \<open>DestroyTopic\<close> that should succeed may panic when
  the topic has a rune of several bytes; it has removed the topic all the same.\<close>

definition multi_byte :: "string \<Rightarrow> bool" where
  "multi_byte s = list_ex (\<lambda>rw. 1 < snd rw) (runes s)"

fun res_refines :: "'h bus_op \<Rightarrow> bus_res \<Rightarrow> bus_res \<Rightarrow> bool" where
  "res_refines (OpDestroy topic) r r' \<longleftrightarrow> r = r' \<or> multi_byte topic \<and> r = ResPanic \<and> r' = ResErr None"
| "res_refines op r r' \<longleftrightarrow> r = r'"

fun run_refines :: "'h bus_op list \<Rightarrow> bus_res list \<Rightarrow> bus_res list \<Rightarrow> bool" where
  "run_refines [] [] [] = True"
| "run_refines (op # ops) (r # rs) (r' # rs') \<longleftrightarrow> res_refines op r r' \<and> run_refines ops rs rs'"
| "run_refines _ _ _ = False"

section \<open>Linked lists of payloads\<close>

text \<open>The payloads \<open>xs\<close> lead from \<open>p\<close> to \<open>q\<close> along \<open>pre\<close>, and \<open>next\<close> leads back: the first has next \<open>n\<close>, and \<open>m\<close> is the last.\<close>

fun dseg :: "(nat \<Rightarrow> 'h payload) \<Rightarrow> nat option \<Rightarrow> nat option \<Rightarrow> nat list \<Rightarrow> nat option \<Rightarrow> nat option \<Rightarrow> bool" where
  "dseg h p n [] q m \<longleftrightarrow> p = q \<and> n = m"
| "dseg h p n (a # as) q m \<longleftrightarrow> p = Some a \<and> pl_next (h a) = n \<and> dseg h (pl_pre (h a)) (Some a) as q m"

definition dll :: "(nat \<Rightarrow> 'h payload) \<Rightarrow> nat option \<Rightarrow> nat option \<Rightarrow> nat list \<Rightarrow> bool" where
  "dll h p n xs \<longleftrightarrow> (\<exists>m. dseg h p n xs None m)"

lemma dseg_append [simp]: "dseg h p n (xs @ ys) q m \<longleftrightarrow> (\<exists>p' n'. dseg h p n xs p' n' \<and> dseg h p' n' ys q m)"
  by (induction xs arbitrary: p n) auto

lemma dseg_frame: "(\<And>a. a \<in> set xs \<Longrightarrow> h' a = h a) \<Longrightarrow> dseg h' p n xs q m = dseg h p n xs q m"
  by (induction xs arbitrary: p n) auto

lemma dll_frame: "(\<And>a. a \<in> set xs \<Longrightarrow> h' a = h a) \<Longrightarrow> dll h' p n xs = dll h p n xs"
  using dseg_frame [of xs h' h] by (simp add: dll_def)

lemma dll_Nil [simp]: "dll h p n [] \<longleftrightarrow> p = None"
  by (simp add: dll_def)

lemma dll_Cons [simp]: "dll h p n (a # as) \<longleftrightarrow> p = Some a \<and> pl_next (h a) = n \<and> dll h (pl_pre (h a)) (Some a) as"
  by (auto simp: dll_def)

lemma dll_append: "dll h p n (xs @ ys) \<longleftrightarrow> (\<exists>p' n'. dseg h p n xs p' n' \<and> dll h p' n' ys)"
  by (auto simp: dll_def)

lemma dll_head: "dll h p n xs \<Longrightarrow> p = (case xs of [] \<Rightarrow> None | a # _ \<Rightarrow> Some a)"
  by (cases xs) auto

lemma dseg_last: "dseg h p n xs q m \<Longrightarrow> m = (if xs = [] then n else Some (last xs))"
  by (induction xs arbitrary: p n) (auto split: if_splits)

lemma set_links_same [simp]:
  "pl_index (set_next q v h a) = pl_index (h a)" "pl_handle (set_next q v h a) = pl_handle (h a)" "pl_pre (set_next q v h a) = pl_pre (h a)"
  "pl_index (set_pre q v h a) = pl_index (h a)" "pl_handle (set_pre q v h a) = pl_handle (h a)" "pl_next (set_pre q v h a) = pl_next (h a)"
  by (simp_all add: set_next_def set_pre_def split: option.split)

lemma set_links_other:
  "q \<noteq> Some a \<Longrightarrow> set_next q v h a = h a" "q \<noteq> Some a \<Longrightarrow> set_pre q v h a = h a"
  by (auto simp: set_next_def set_pre_def split: option.split)

lemma set_links_hit [simp]: "pl_next (set_next (Some a) v h a) = v" "pl_pre (set_pre (Some a) v h a) = v"
  by (simp_all add: set_next_def set_pre_def)

lemma dll_relink_head:
  assumes "dll h p n xs" "distinct xs"
  shows "dll (set_next p n' h) p n' xs"
proof (cases xs)
  case (Cons a as)
  with assms have "dll (set_next p n' h) (pl_pre (h a)) (Some a) as = dll h (pl_pre (h a)) (Some a) as"
    by (intro dll_frame set_links_other) auto
  with Cons assms show ?thesis by simp
qed (use assms in simp)

lemma dseg_relink_last:
  assumes "dseg h p n (us @ [b]) q m" "distinct (us @ [b])"
  shows "dseg (set_pre (Some b) q' h) p n (us @ [b]) q' m"
proof -
  have "dseg (set_pre (Some b) q' h) p n us x y = dseg h p n us x y" for x y
    using assms(2) by (intro dseg_frame set_links_other) auto
  with assms(1) show ?thesis by auto
qed

lemma dll_find: "dll h p n xs \<Longrightarrow> find_payload h i p = Some (find (\<lambda>a. pl_index (h a) = i) xs)"
  by (induction xs arbitrary: p n) (subst find_payload.simps, simp)+

lemma dll_collect: "dll h p n xs \<Longrightarrow> collect_handles h p acc = Some (acc @ map (\<lambda>a. pl_handle (h a)) xs)"
  by (induction xs arbitrary: p n acc) (subst collect_handles.simps, simp)+

lemma dll_release: "dll (tb_payloads bus) p n xs \<Longrightarrow> release_payloads p bus = Some (bus\<lparr>tb_pool := rev xs @ tb_pool bus\<rparr>)"
  by (induction xs arbitrary: p n bus) (subst release_payloads.simps, simp add: putPayload_def)+

text \<open>Taking a payload out of its list, as \<^const>\<open>unlink\<close> does.\<close>

lemma dll_unlink:
  assumes "dll h p None (xs @ a # ys)" "distinct (xs @ a # ys)"
    and h1: "h1 = set_next (pl_pre (h a)) (pl_next (h a)) h" and h2: "h2 = set_pre (pl_next (h1 a)) (pl_pre (h1 a)) h1"
  shows "dll h2 (if p = Some a then pl_pre (h2 a) else p) None (xs @ ys)" "p = Some a \<longleftrightarrow> xs = []"
proof -
  from assms(1) obtain p' n' where seg: "dseg h p None xs p' n'" "p' = Some a" "pl_next (h a) = n'" "dll h (pl_pre (h a)) (Some a) ys"
    by (auto simp: dll_append)
  have n': "n' = (if xs = [] then None else Some (last xs))" using dseg_last [OF seg(1)] by simp
  have tail: "pl_pre (h a) = (case ys of [] \<Rightarrow> None | b # _ \<Rightarrow> Some b)" using dll_head [OF seg(4)] .
  then have off: "pl_pre (h a) \<noteq> Some b" if "b \<notin> set ys" for b using that by (auto split: list.splits)
  have ha: "h1 a = h a" unfolding h1 by (rule set_links_other) (use off assms(2) in auto)
  have ys1: "dll h1 (pl_pre (h a)) n' ys" unfolding h1 seg(3) using dll_relink_head [OF seg(4)] assms(2) by simp
  have "n' \<noteq> Some b" if "b \<in> set ys" for b using that assms(2) last_in_set [of xs] by (auto simp: n' disjoint_iff simp del: last_in_set)
  then have ys2: "dll h2 (pl_pre (h a)) n' ys"
    using ys1 unfolding h2 ha seg(3) by (subst dll_frame [where h = h1]) (auto intro: set_links_other)
  show iff: "p = Some a \<longleftrightarrow> xs = []" using seg(1,2) assms(2) by (cases xs) auto
  show "dll h2 (if p = Some a then pl_pre (h2 a) else p) None (xs @ ys)"
  proof (cases xs rule: rev_cases)
    case Nil
    then have "h2 a = h a" unfolding h2 ha seg(3) n' by (simp add: set_pre_def ha)
    with Nil iff ys2 n' show ?thesis by simp
  next
    case (snoc us b)
    have "dseg h1 p None xs p' n'" unfolding h1 using seg(1) assms(2) off by (subst dseg_frame [where h = h]) (auto intro!: set_links_other)
    then have "dseg h2 p None xs (pl_pre (h a)) n'"
      using dseg_relink_last [of h1 p None us b p' n' "pl_pre (h a)"] snoc assms(2) unfolding h2 ha seg(3) n' by simp
    with ys2 iff snoc show ?thesis by (auto simp: dll_append)
  qed
qed

section \<open>The invariant\<close>

text \<open>
  \<open>ls\<close> gives the payloads of each manager. The payloads of the managers in the trie are linked lists; no payload is in two lists, or in a
  list and in the pool; every topic has a manager of its own.
\<close>

definition bus_inv :: "(nat \<Rightarrow> nat list) \<Rightarrow> ('h, 'p) trieEventBus \<Rightarrow> bool" where
  "bus_inv ls bus \<longleftrightarrow>
     (\<forall>ks m. node_get ks (tb_node bus) = Some m \<longrightarrow>
        m < tb_nextManager bus \<and> dll (tb_payloads bus) (nm_payloadIndex (tb_managers bus m)) None (ls m)) \<and>
     (\<forall>ks ks' m. node_get ks (tb_node bus) = Some m \<longrightarrow> node_get ks' (tb_node bus) = Some m \<longrightarrow> ks = ks') \<and>
     (\<forall>m a. a \<in> set (ls m) \<longrightarrow> m < tb_nextManager bus \<and> a < tb_nextPayload bus \<and> a \<notin> set (tb_pool bus) \<and> pl_handle (tb_payloads bus a) \<noteq> None) \<and>
     (\<forall>m. distinct (ls m)) \<and> (\<forall>m m'. m \<noteq> m' \<longrightarrow> set (ls m) \<inter> set (ls m') = {}) \<and>
     distinct (tb_pool bus) \<and> (\<forall>a \<in> set (tb_pool bus). a < tb_nextPayload bus)"

lemma bus_invD:
  assumes "bus_inv ls bus"
  shows "node_get ks (tb_node bus) = Some m \<Longrightarrow> m < tb_nextManager bus"
    "node_get ks (tb_node bus) = Some m \<Longrightarrow> dll (tb_payloads bus) (nm_payloadIndex (tb_managers bus m)) None (ls m)"
    "node_get ks (tb_node bus) = Some m \<Longrightarrow> node_get ks' (tb_node bus) = Some m \<Longrightarrow> ks = ks'"
    "a \<in> set (ls m) \<Longrightarrow> m < tb_nextManager bus" "a \<in> set (ls m) \<Longrightarrow> a < tb_nextPayload bus"
    "a \<in> set (ls m) \<Longrightarrow> a \<notin> set (tb_pool bus)" "a \<in> set (ls m) \<Longrightarrow> pl_handle (tb_payloads bus a) \<noteq> None"
    "distinct (ls m)" "m \<noteq> m' \<Longrightarrow> set (ls m) \<inter> set (ls m') = {}" "distinct (tb_pool bus)" "a \<in> set (tb_pool bus) \<Longrightarrow> a < tb_nextPayload bus"
  using assms unfolding bus_inv_def by blast+

lemma bus_invI:
  assumes "\<And>ks m. node_get ks (tb_node bus) = Some m \<Longrightarrow> m < tb_nextManager bus"
    "\<And>ks m. node_get ks (tb_node bus) = Some m \<Longrightarrow> dll (tb_payloads bus) (nm_payloadIndex (tb_managers bus m)) None (ls m)"
    "\<And>ks ks' m. node_get ks (tb_node bus) = Some m \<Longrightarrow> node_get ks' (tb_node bus) = Some m \<Longrightarrow> ks = ks'"
    "\<And>m a. a \<in> set (ls m) \<Longrightarrow> m < tb_nextManager bus \<and> a < tb_nextPayload bus \<and> a \<notin> set (tb_pool bus) \<and> pl_handle (tb_payloads bus a) \<noteq> None"
    "\<And>m. distinct (ls m)" "\<And>m m'. m \<noteq> m' \<Longrightarrow> set (ls m) \<inter> set (ls m') = {}"
    "distinct (tb_pool bus)" "\<And>a. a \<in> set (tb_pool bus) \<Longrightarrow> a < tb_nextPayload bus"
  shows "bus_inv ls bus"
  using assms unfolding bus_inv_def by blast

text \<open>What the users see of a bus with this invariant.\<close>

definition subs_of :: "(nat \<Rightarrow> 'h payload) \<Rightarrow> nat list \<Rightarrow> (64 word \<times> 'h) list" where
  "subs_of h xs = map (\<lambda>a. (pl_index (h a), the (pl_handle (h a)))) xs"

definition view :: "(nat \<Rightarrow> nat list) \<Rightarrow> ('h, 'p) trieEventBus \<Rightarrow> 'h spec_bus" where
  "view ls bus =
     \<lparr>sp_topics = (\<lambda>ks. map_option (\<lambda>m. (nm_indexer (tb_managers bus m), subs_of (tb_payloads bus) (ls m))) (node_get ks (tb_node bus))),
      sp_closed = tb_closed bus\<rparr>"

lemma subs_of_frame: "(\<And>a. a \<in> set xs \<Longrightarrow> pl_index (h' a) = pl_index (h a) \<and> pl_handle (h' a) = pl_handle (h a)) \<Longrightarrow> subs_of h' xs = subs_of h xs"
  by (simp add: subs_of_def)

lemma view_update:
  assumes inv: "bus_inv ls bus" and m: "node_get ks (tb_node bus) = Some m"
    and same: "tb_node bus' = tb_node bus" "tb_closed bus' = tb_closed bus"
    and other: "\<And>m'. m' \<noteq> m \<Longrightarrow> nm_indexer (tb_managers bus' m') = nm_indexer (tb_managers bus m') \<and>
      subs_of (tb_payloads bus') (ls' m') = subs_of (tb_payloads bus) (ls m')"
  shows "view ls' bus' = (view ls bus)\<lparr>sp_topics := (sp_topics (view ls bus))(ks \<mapsto>
    (nm_indexer (tb_managers bus' m), subs_of (tb_payloads bus') (ls' m)))\<rparr>"
proof -
  have "sp_topics (view ls' bus') ks' = ((sp_topics (view ls bus))(ks \<mapsto>
    (nm_indexer (tb_managers bus' m), subs_of (tb_payloads bus') (ls' m)))) ks'" for ks'
  proof (cases "node_get ks' (tb_node bus)")
    case None
    with m show ?thesis by (auto simp: view_def same)
  next
    case (Some m')
    then have "m' = m \<longleftrightarrow> ks' = ks" using bus_invD(3) [OF inv m, of ks'] m by auto
    with Some other [of m'] show ?thesis by (cases "ks' = ks") (auto simp: view_def same)
  qed
  then have "sp_topics (view ls' bus') = (sp_topics (view ls bus))(ks \<mapsto> (nm_indexer (tb_managers bus' m), subs_of (tb_payloads bus') (ls' m)))"
    by (rule ext)
  then show ?thesis by (simp add: view_def same(2))
qed

lemma rune_Get_node: "rune_Get t topic = node_get (rune_key topic) t"
  by (simp add: rune_Get_def)

lemma node_get_rune_Put: "node_get ks (snd (rune_Put topic (Some v) t)) = (if ks = rune_key topic then Some v else node_get ks t)"
  by (simp add: rune_Put_def node_get_put)

lemma node_get_rune_Delete: "node_get ks (snd (rune_Delete topic t)) = (if ks = rune_key topic then None else node_get ks t)"
  using node_get_delete [of ks "runes topic" t] by (cases "node_delete (runes topic) t") (simp add: rune_Delete_def rune_key_def)

lemma new_bus_inv: "bus_inv (\<lambda>_. []) NewTrieEventBus"
  by (simp add: bus_inv_def NewTrieEventBus_def NewRuneTrie_def)

lemma view_new: "view (\<lambda>_. []) NewTrieEventBus = spec_new"
  by (simp add: view_def NewTrieEventBus_def NewRuneTrie_def spec_new_def)

lemma publish_handles_view:
  assumes "bus_inv ls bus"
  shows "publish_handles topic bus = Some (spec_publish topic (view ls bus))"
proof (cases "node_get (rune_key topic) (tb_node bus)")
  case None
  then show ?thesis by (simp add: publish_handles_def spec_publish_def view_def rune_Get_node)
next
  case (Some m)
  have "map (\<lambda>a. pl_handle (tb_payloads bus a)) (ls m) = map (Some \<circ> snd) (subs_of (tb_payloads bus) (ls m))"
    using bus_invD(7) [OF assms] by (auto simp: subs_of_def)
  with dll_collect [OF bus_invD(2) [OF assms Some], of "[]"] Some show ?thesis
    by (simp add: publish_handles_def spec_publish_def view_def rune_Get_node)
qed

lemma createTopic_ok:
  assumes inv: "bus_inv ls bus" and run: "createTopic topic bus = (err, bus')"
  shows "bus_inv ls bus' \<and> tb_closed bus' = tb_closed bus \<and> (\<exists>m. node_get (rune_key topic) (tb_node bus') = Some m) \<and>
    (case sp_topics (view ls bus) (rune_key topic) of
       Some _ \<Rightarrow> err = Some TopicExistErr \<and> bus' = bus
     | None \<Rightarrow> err = None \<and> view ls bus' = (view ls bus)\<lparr>sp_topics := (sp_topics (view ls bus))(rune_key topic \<mapsto> (0, []))\<rparr>)"
proof (cases "node_get (rune_key topic) (tb_node bus)")
  case (Some m)
  with assms show ?thesis by (auto simp: createTopic_def rune_Get_node view_def)
next
  case None
  define m where "m = tb_nextManager bus"
  note D = bus_invD [OF inv]
  from run None have bus': "err = None" "bus' = bus\<lparr>tb_node := snd (rune_Put topic (Some m) (tb_node bus)),
      tb_managers := (tb_managers bus)(m := new_manager), tb_nextManager := Suc m\<rparr>"
    by (simp_all add: createTopic_def rune_Get_node m_def Let_def)
  have lsm: "ls m = []" using D(4) [of _ m] by (cases "ls m") (auto simp: m_def)
  have other: "m' \<noteq> m" if "node_get ks (tb_node bus) = Some m'" for ks m' using D(1) [OF that] by (simp add: m_def)
  have "bus_inv ls bus'"
  proof (rule bus_invI)
    fix ks m' assume g: "node_get ks (tb_node bus') = Some m'"
    show "m' < tb_nextManager bus'" using g D(1) [of ks m'] by (auto simp: bus' node_get_rune_Put m_def split: if_splits)
    show "dll (tb_payloads bus') (nm_payloadIndex (tb_managers bus' m')) None (ls m')"
      using g D(2) [of ks m'] other [of ks m'] lsm by (auto simp: bus' node_get_rune_Put new_manager_def split: if_splits)
    fix ks' assume "node_get ks' (tb_node bus') = Some m'"
    with g show "ks = ks'" using D(3) [of ks m' ks'] other [of ks m'] other [of ks' m'] by (auto simp: bus' node_get_rune_Put split: if_splits)
  qed (use D(4-11) in \<open>auto simp: bus' m_def less_SucI\<close>)
  moreover have "view ls bus' = (view ls bus)\<lparr>sp_topics := (sp_topics (view ls bus))(rune_key topic \<mapsto> (0, []))\<rparr>"
    using lsm other by (auto simp: view_def bus' node_get_rune_Put new_manager_def subs_of_def fun_eq_iff cong: map_option_cong)
  ultimately show ?thesis using None by (simp add: bus' view_def node_get_rune_Put)
qed

lemma loadPayload_fresh:
  assumes inv: "bus_inv ls bus" and load: "loadPayload choice bus = (a, bus')"
  obtains "\<And>m. a \<notin> set (ls m)" "a < tb_nextPayload bus'" "tb_nextPayload bus \<le> tb_nextPayload bus'" "a \<notin> set (tb_pool bus')"
    "distinct (tb_pool bus')" "set (tb_pool bus') \<subseteq> set (tb_pool bus)" "tb_node bus' = tb_node bus" "tb_managers bus' = tb_managers bus"
    "tb_nextManager bus' = tb_nextManager bus" "tb_closed bus' = tb_closed bus" "\<And>b. b \<noteq> a \<Longrightarrow> tb_payloads bus' b = tb_payloads bus b"
    "pl_next (tb_payloads bus' a) = None"
proof (cases "choice < length (tb_pool bus)")
  case True
  note D = bus_invD [OF inv]
  let ?pool = "take choice (tb_pool bus) @ drop (Suc choice) (tb_pool bus)"
  from True have split: "tb_pool bus = take choice (tb_pool bus) @ tb_pool bus ! choice # drop (Suc choice) (tb_pool bus)" by (rule id_take_nth_drop)
  have a: "a = tb_pool bus ! choice" "tb_pool bus' = ?pool" using load True by (auto simp: loadPayload_def Let_def)
  have "distinct (take choice (tb_pool bus) @ a # drop (Suc choice) (tb_pool bus))" using D(10) split a(1) by simp
  then have pool: "distinct ?pool" "a \<notin> set ?pool" by auto
  have mem: "a \<in> set (tb_pool bus)" using a(1) True by simp
  have sub: "set ?pool \<subseteq> set (tb_pool bus)" using set_take_subset set_drop_subset by fastforce
  show ?thesis
    by (rule that) (use load True pool sub mem D(6) [of a] D(11) [OF mem] a(2) in \<open>auto simp: loadPayload_def Let_def\<close>)
next
  case False
  note D = bus_invD [OF inv]
  have a: "a = tb_nextPayload bus" using load False by (simp add: loadPayload_def Let_def)
  show ?thesis
    by (rule that) (use load False a D(5) [of a] D(10) D(11) [of a] in \<open>auto simp: loadPayload_def Let_def\<close>)
qed

lemma dll_link:
  assumes "dll h p None xs" "distinct xs" "a \<notin> set xs" "pl_next (h a) = None"
  shows "dll (set_pre (Some a) p (set_next p (Some a) h)) (Some a) None (a # xs)"
proof -
  have p: "p \<noteq> Some a" using dll_head [OF assms(1)] assms(3) by (auto split: list.splits)
  have "dll (set_next p (Some a) h) p (Some a) xs" using dll_relink_head [OF assms(1,2)] .
  then have "dll (set_pre (Some a) p (set_next p (Some a) h)) p (Some a) xs"
    using assms(3) by (subst dll_frame) (auto intro!: set_links_other(2))
  with p assms(4) show ?thesis by (simp add: set_links_other(1))
qed

lemma link_payload_ok:
  assumes inv: "bus_inv ls bus" and m: "node_get ks (tb_node bus) = Some m" and run: "link_payload choice handle m bus = (i, bus')"
  shows "\<exists>a. bus_inv (ls(m := a # ls m)) bus' \<and> i = nm_indexer (tb_managers bus m) + 1 \<and>
    view (ls(m := a # ls m)) bus' =
      (view ls bus)\<lparr>sp_topics := (sp_topics (view ls bus))(ks \<mapsto> (i, (i, handle) # subs_of (tb_payloads bus) (ls m)))\<rparr>"
proof -
  note D = bus_invD [OF inv]
  define p where "p = nm_payloadIndex (tb_managers bus m)"
  obtain a bus1 where load: "loadPayload choice bus = (a, bus1)" by fastforce
  from inv load obtain F: "\<And>m. a \<notin> set (ls m)" "a < tb_nextPayload bus1" "tb_nextPayload bus \<le> tb_nextPayload bus1" "a \<notin> set (tb_pool bus1)"
    "distinct (tb_pool bus1)" "set (tb_pool bus1) \<subseteq> set (tb_pool bus)" "tb_node bus1 = tb_node bus" "tb_managers bus1 = tb_managers bus"
    "tb_nextManager bus1 = tb_nextManager bus" "tb_closed bus1 = tb_closed bus" "\<And>b. b \<noteq> a \<Longrightarrow> tb_payloads bus1 b = tb_payloads bus b"
    "pl_next (tb_payloads bus1 a) = None" by (rule loadPayload_fresh) blast
  define h where "h = (tb_payloads bus1)(a := (tb_payloads bus1 a)\<lparr>pl_handle := Some handle, pl_index := i\<rparr>)"
  define h' where "h' = set_pre (Some a) p (set_next p (Some a) h)"
  from run have i: "i = nm_indexer (tb_managers bus m) + 1"
    and bus': "bus' = bus1\<lparr>tb_payloads := h', tb_managers := (tb_managers bus)(m := \<lparr>nm_indexer = i, nm_payloadIndex = Some a\<rparr>)\<rparr>"
    by (auto simp: link_payload_def load Let_def h_def h'_def p_def F(8))
  have same: "h b = tb_payloads bus b" if "b \<noteq> a" for b using that F(11) by (simp add: h_def)
  have data: "pl_index (h' b) = pl_index (tb_payloads bus b) \<and> pl_handle (h' b) = pl_handle (tb_payloads bus b)" if "b \<noteq> a" for b
    using same [OF that] by (simp add: h'_def)
  have dllm: "dll (tb_payloads bus) p None (ls m)" using D(2) [OF m] by (simp add: p_def)
  have "h b = tb_payloads bus b" if "b \<in> set (ls m)" for b using same F(1) that by metis
  then have "dll h p None (ls m)" using dllm dll_frame [of "ls m" h "tb_payloads bus"] by blast
  from dll_link [OF this D(8) F(1)] have new: "dll h' (Some a) None (a # ls m)" using F(12) by (simp add: h_def h'_def)
  have old: "dll h' q None (ls m') = dll (tb_payloads bus) q None (ls m')" if "m' \<noteq> m" for m' q
  proof (rule dll_frame)
    fix b assume b: "b \<in> set (ls m')"
    then have "b \<noteq> a" "b \<notin> set (ls m)" using F(1) D(9) [OF that] by auto
    moreover from this have "p \<noteq> Some b" using dll_head [OF dllm] by (auto split: list.splits)
    ultimately show "h' b = tb_payloads bus b" using same by (simp add: h'_def set_links_other)
  qed
  have "bus_inv (ls(m := a # ls m)) bus'"
  proof (rule bus_invI)
    fix ks' m' assume g: "node_get ks' (tb_node bus') = Some m'"
    then have g': "node_get ks' (tb_node bus) = Some m'" by (simp add: bus' F(7))
    show "m' < tb_nextManager bus'" using D(1) [OF g'] by (simp add: bus' F(9))
    show "dll (tb_payloads bus') (nm_payloadIndex (tb_managers bus' m')) None ((ls(m := a # ls m)) m')"
      using new old D(2) [OF g'] by (cases "m' = m") (simp_all add: bus')
    fix ks'' assume "node_get ks'' (tb_node bus') = Some m'"
    then show "ks' = ks''" using D(3) [OF g'] by (simp add: bus' F(7))
  next
    fix m' b assume "b \<in> set ((ls(m := a # ls m)) m')"
    then consider "b = a" "m' = m" | "b \<in> set (ls m')" by (auto split: if_splits)
    then show "m' < tb_nextManager bus' \<and> b < tb_nextPayload bus' \<and> b \<notin> set (tb_pool bus') \<and> pl_handle (tb_payloads bus' b) \<noteq> None"
    proof cases
      case 1
      then show ?thesis using D(1) [OF m] F(2,4,9) by (simp add: bus' h'_def h_def)
    next
      case 2
      then have "b \<noteq> a" using F(1) by auto
      with data D(4-7) [OF 2] F(3,6,9) show ?thesis by (auto simp: bus')
    qed
  next
    fix m' show "distinct ((ls(m := a # ls m)) m')" using D(8) F(1) by simp
    fix m'' assume "m' \<noteq> m''"
    then show "set ((ls(m := a # ls m)) m') \<inter> set ((ls(m := a # ls m)) m'') = {}" using D(9) [of m' m''] F(1) by auto
  next
    show "distinct (tb_pool bus')" using F(5) by (simp add: bus')
    show "b < tb_nextPayload bus'" if "b \<in> set (tb_pool bus')" for b using that F(3,6) D(11) [of b] by (auto simp: bus')
  qed
  have "subs_of h' (ls m') = subs_of (tb_payloads bus) (ls m')" for m' using data F(1) by (intro subs_of_frame) metis
  moreover from this have "subs_of h' (a # ls m) = (i, handle) # subs_of (tb_payloads bus) (ls m)"
    by (simp add: subs_of_def h'_def h_def)
  ultimately have "view (ls(m := a # ls m)) bus' =
      (view ls bus)\<lparr>sp_topics := (sp_topics (view ls bus))(ks \<mapsto> (i, (i, handle) # subs_of (tb_payloads bus) (ls m)))\<rparr>"
    using view_update [OF inv m, of bus' "ls(m := a # ls m)"] by (simp add: bus' F(7,10))
  with \<open>bus_inv (ls(m := a # ls m)) bus'\<close> i show ?thesis by blast
qed

lemma unlink_ok:
  assumes inv: "bus_inv ls bus" and m: "node_get ks (tb_node bus) = Some m" and split: "ls m = xs @ a # ys"
  shows "bus_inv (ls(m := xs @ ys)) (unlink m a bus) \<and>
    view (ls(m := xs @ ys)) (unlink m a bus) =
      (view ls bus)\<lparr>sp_topics := (sp_topics (view ls bus))(ks \<mapsto> (nm_indexer (tb_managers bus m), subs_of (tb_payloads bus) (xs @ ys)))\<rparr>"
proof -
  note D = bus_invD [OF inv]
  define h where "h = tb_payloads bus"
  define p where "p = nm_payloadIndex (tb_managers bus m)"
  define h1 where "h1 = set_next (pl_pre (h a)) (pl_next (h a)) h"
  define h2 where "h2 = set_pre (pl_next (h1 a)) (pl_pre (h1 a)) h1"
  let ?ls = "ls(m := xs @ ys)"
  have dllm: "dll h p None (xs @ a # ys)" using D(2) [OF m] split by (simp add: h_def p_def)
  have dist: "distinct (xs @ a # ys)" using D(8) [of m] split by simp
  note U = dll_unlink [OF dllm dist h1_def h2_def]
  let ?m = "(tb_managers bus m)\<lparr>nm_payloadIndex := (if p = Some a then pl_pre (h2 a) else p)\<rparr>"
  have bus': "unlink m a bus = bus\<lparr>tb_payloads := h2, tb_managers := (tb_managers bus)(m := ?m), tb_pool := a # tb_pool bus\<rparr>"
    unfolding unlink_def Let_def h_def [symmetric] h1_def [symmetric] h2_def [symmetric] p_def putPayload_def by simp
  have data: "pl_index (h2 b) = pl_index (h b) \<and> pl_handle (h2 b) = pl_handle (h b)" for b by (simp add: h2_def h1_def)
  have links: "set_option (pl_pre (h a)) \<union> set_option (pl_next (h a)) \<subseteq> set (ls m)"
  proof -
    from dllm obtain p' n' where seg: "dseg h p None xs p' n'" "pl_next (h a) = n'" "dll h (pl_pre (h a)) (Some a) ys"
      by (auto simp: dll_append)
    show ?thesis using dseg_last [OF seg(1)] dll_head [OF seg(3)] seg(2) split by (auto split: if_splits list.splits)
  qed
  have old: "dll h2 q None (ls m') = dll h q None (ls m')" if "m' \<noteq> m" for m' q
  proof (rule dll_frame)
    fix b assume "b \<in> set (ls m')"
    then have "b \<notin> set (ls m)" using D(9) [OF that] by blast
    with links have "pl_pre (h a) \<noteq> Some b" "pl_next (h a) \<noteq> Some b" by auto
    moreover have "pl_next (h1 a) = pl_next (h a)"
      unfolding h1_def by (rule arg_cong [OF set_links_other(1)])
        (use links dist split dll_head [of h "pl_pre (h a)" "Some a" ys] dllm in \<open>auto simp: dll_append split: list.splits\<close>)
    ultimately show "h2 b = h b" by (simp add: h2_def h1_def set_links_other)
  qed
  have a: "a < tb_nextPayload bus" "a \<notin> set (tb_pool bus)" using D(5) [of a m] D(6) [of a m] split by auto
  have sub: "set (?ls m') \<subseteq> set (ls m')" and off: "a \<notin> set (?ls m')" for m'
    using split dist D(9) [of m' m] by (auto split: if_splits)
  have "bus_inv ?ls (unlink m a bus)"
  proof (rule bus_invI)
    fix ks' m' assume "node_get ks' (tb_node (unlink m a bus)) = Some m'"
    then have g: "node_get ks' (tb_node bus) = Some m'" by (simp add: bus')
    show "m' < tb_nextManager (unlink m a bus)" using D(1) [OF g] by (simp add: bus')
    show "dll (tb_payloads (unlink m a bus)) (nm_payloadIndex (tb_managers (unlink m a bus) m')) None (?ls m')"
      using U(1) old D(2) [OF g] by (cases "m' = m") (simp_all add: bus' h_def)
    fix ks'' assume "node_get ks'' (tb_node (unlink m a bus)) = Some m'"
    then show "ks' = ks''" using D(3) [OF g] by (simp add: bus')
  next
    fix m' b assume b: "b \<in> set (?ls m')"
    then have b': "b \<in> set (ls m')" "b \<noteq> a" using sub [of m'] off [of m'] by blast+
    show "m' < tb_nextManager (unlink m a bus) \<and> b < tb_nextPayload (unlink m a bus) \<and> b \<notin> set (tb_pool (unlink m a bus)) \<and>
      pl_handle (tb_payloads (unlink m a bus) b) \<noteq> None"
      using D(4-7) [OF b'(1)] b'(2) data [of b] by (simp add: bus' h_def)
  next
    fix m' show "distinct (?ls m')" using D(8) [of m'] dist by simp
    fix m'' assume "m' \<noteq> m''"
    then show "set (?ls m') \<inter> set (?ls m'') = {}" using D(9) [of m' m''] sub [of m'] sub [of m''] by blast
  qed (use a D(10,11) in \<open>auto simp: bus'\<close>)
  moreover have "subs_of h2 zs = subs_of h zs" for zs using data by (intro subs_of_frame) simp
  then have "view ?ls (unlink m a bus) =
      (view ls bus)\<lparr>sp_topics := (sp_topics (view ls bus))(ks \<mapsto> (nm_indexer (tb_managers bus m), subs_of (tb_payloads bus) (xs @ ys)))\<rparr>"
    using view_update [OF inv m, of "unlink m a bus" ?ls] by (simp add: bus' h_def)
  ultimately show ?thesis by blast
qed

lemma find_split: "find P xs = Some a \<Longrightarrow> \<exists>us vs. xs = us @ a # vs \<and> P a \<and> (\<forall>u \<in> set us. \<not> P u)"
proof (induction xs)
  case (Cons x xs)
  show ?case
  proof (cases "P x")
    case True
    with Cons.prems have "x # xs = [] @ a # xs" "P a" by auto
    then show ?thesis by (metis empty_iff list.set(1))
  next
    case False
    with Cons obtain us vs where "xs = us @ a # vs \<and> P a \<and> (\<forall>u \<in> set us. \<not> P u)" by auto
    with False show ?thesis by (intro exI [of _ "x # us"] exI [of _ vs]) auto
  qed
qed simp

lemma drop_first_split: "(\<forall>u \<in> set us. fst u \<noteq> k) \<Longrightarrow> drop_first k (us @ (k, v) # vs) = us @ vs"
  by (induction us) auto

lemma UnSubscribe_ok:
  assumes inv: "bus_inv ls bus"
  shows "\<exists>err bus' ls'. UnSubscribe topic i bus = Some (err, bus') \<and> bus_inv ls' bus' \<and>
    spec_unsubscribe (rune_key topic) i (view ls bus) = (ResErr err, view ls' bus')"
proof (cases "node_get (rune_key topic) (tb_node bus)")
  case None
  then show ?thesis using inv by (auto simp: UnSubscribe_def rune_Get_node spec_unsubscribe_def view_def)
next
  case (Some m)
  let ?h = "tb_payloads bus" and ?p = "nm_payloadIndex (tb_managers bus m)"
  have topics: "sp_topics (view ls bus) (rune_key topic) = Some (nm_indexer (tb_managers bus m), subs_of ?h (ls m))"
    using Some by (simp add: view_def)
  note dllm = bus_invD(2) [OF inv Some]
  note found = dll_find [OF dllm, of i]
  show ?thesis
  proof (cases "ls m = []")
    case True
    with dllm have "?p = None" by simp
    then show ?thesis using inv Some topics True by (auto simp: UnSubscribe_def rune_Get_node spec_unsubscribe_def subs_of_def)
  next
    case False
    then obtain q where p: "?p = Some q" using dll_head [OF dllm] by (cases "ls m") auto
    show ?thesis
    proof (cases "find (\<lambda>a. pl_index (?h a) = i) (ls m)")
      case None
      then have "i \<notin> fst ` set (subs_of ?h (ls m))" by (auto simp: find_None_all subs_of_def)
      then show ?thesis using inv Some topics False p found None
        by (auto simp: UnSubscribe_def rune_Get_node spec_unsubscribe_def subs_of_def)
    next
      case (Some a)
      from find_split [OF this] obtain us vs where sp: "ls m = us @ a # vs" "pl_index (?h a) = i" "\<forall>u \<in> set us. pl_index (?h u) \<noteq> i" by blast
      have d: "drop_first i (subs_of ?h (ls m)) = subs_of ?h (us @ vs)"
        unfolding sp(1) subs_of_def using drop_first_split [of "map (\<lambda>a. (pl_index (?h a), the (pl_handle (?h a)))) us" i] sp(2,3) by simp
      have mem: "i \<in> fst ` set (subs_of ?h (ls m))" using sp(1,2) by (force simp: subs_of_def)
      have ne: "subs_of ?h (ls m) \<noteq> []" using False by (simp add: subs_of_def)
      from \<open>node_get (rune_key topic) (tb_node bus) = Some m\<close> unlink_ok [OF inv _ sp(1)]
      have u: "bus_inv (ls(m := us @ vs)) (unlink m a bus)"
        "view (ls(m := us @ vs)) (unlink m a bus) = (view ls bus)\<lparr>sp_topics := (sp_topics (view ls bus))(rune_key topic \<mapsto>
          (nm_indexer (tb_managers bus m), subs_of ?h (us @ vs)))\<rparr>" by auto
      have "UnSubscribe topic i bus = Some (None, unlink m a bus)"
        using \<open>node_get (rune_key topic) (tb_node bus) = Some m\<close> p found Some by (simp add: UnSubscribe_def rune_Get_node)
      moreover have "spec_unsubscribe (rune_key topic) i (view ls bus) = (ResErr None, view (ls(m := us @ vs)) (unlink m a bus))"
        using topics mem ne d u(2) by (simp add: spec_unsubscribe_def)
      ultimately show ?thesis using u(1) by blast
    qed
  qed
qed

lemma rune_Delete_panics: "fst (rune_Delete topic t) = Panic p \<Longrightarrow> multi_byte topic"
  using node_delete_plain [of "runes topic" t]
  by (auto simp: rune_Delete_def multi_byte_def list_ex_iff list_all_iff split: prod.splits) (meson not_le)

lemma DestroyTopic_ok:
  assumes inv: "bus_inv ls bus"
  shows "\<exists>out bus' ls' r. DestroyTopic topic bus = Some (out, bus') \<and> bus_inv ls' bus' \<and>
    spec_destroy (rune_key topic) (view ls bus) = (ResErr r, view ls' bus') \<and> (out = Return r \<or> multi_byte topic \<and> (\<exists>p. out = Panic p) \<and> r = None)"
proof (cases "node_get (rune_key topic) (tb_node bus)")
  case None
  then show ?thesis using inv by (auto simp: DestroyTopic_def rune_Get_node spec_destroy_def view_def)
next
  case (Some m)
  note D = bus_invD [OF inv]
  define t where "t = snd (rune_Delete topic (tb_node bus))"
  define bus' where "bus' = bus\<lparr>tb_pool := rev (ls m) @ tb_pool bus, tb_node := t\<rparr>"
  let ?ls = "ls(m := [])"
  have get: "node_get ks t = (if ks = rune_key topic then None else node_get ks (tb_node bus))" for ks
    unfolding t_def by (rule node_get_rune_Delete)
  have other: "m' \<noteq> m \<and> node_get ks (tb_node bus) = Some m'" if "node_get ks t = Some m'" for ks m'
    using that D(3) [OF Some, of ks] by (auto simp: get split: if_splits)
  have "bus_inv ?ls bus'"
  proof (rule bus_invI)
    fix ks m' assume "node_get ks (tb_node bus') = Some m'"
    then have g: "m' \<noteq> m" "node_get ks (tb_node bus) = Some m'" using other by (auto simp: bus'_def)
    show "m' < tb_nextManager bus'" using D(1) [OF g(2)] by (simp add: bus'_def)
    show "dll (tb_payloads bus') (nm_payloadIndex (tb_managers bus' m')) None (?ls m')" using D(2) [OF g(2)] g(1) by (simp add: bus'_def)
    fix ks' assume "node_get ks' (tb_node bus') = Some m'"
    then show "ks = ks'" using D(3) [OF g(2)] other by (simp add: bus'_def)
  next
    fix m' a assume a: "a \<in> set (?ls m')"
    then have "a \<in> set (ls m')" "a \<notin> set (ls m)" using D(9) [of m' m] by (auto split: if_splits)
    with D(4-7) [of a m'] show "m' < tb_nextManager bus' \<and> a < tb_nextPayload bus' \<and> a \<notin> set (tb_pool bus') \<and> pl_handle (tb_payloads bus' a) \<noteq> None"
      by (simp add: bus'_def)
  qed (use D(5,6,8-11) in \<open>auto simp: bus'_def\<close>)
  moreover have "spec_destroy (rune_key topic) (view ls bus) = (ResErr None, view ?ls bus')"
    using Some other by (auto simp: spec_destroy_def view_def bus'_def get fun_eq_iff cong: map_option_cong)
  moreover have "DestroyTopic topic bus = Some (case fst (rune_Delete topic (tb_node bus)) of Panic p \<Rightarrow> Panic p | Return _ \<Rightarrow> Return None, bus')"
    using Some dll_release [OF D(2) [OF Some]]
    by (auto simp: DestroyTopic_def rune_Get_node bus'_def t_def split: prod.splits outcome.splits)
  ultimately show ?thesis using rune_Delete_panics [of topic "tb_node bus"] by (cases "fst (rune_Delete topic (tb_node bus))") auto
qed

lemma CreateTopic_ok:
  assumes inv: "bus_inv ls bus" and run: "CreateTopic topic bus = (err, bus')"
  shows "bus_inv ls bus' \<and> spec_create (rune_key topic) (view ls bus) = (ResErr err, view ls bus')"
proof (cases "tb_closed bus")
  case True
  with run inv show ?thesis by (auto simp: CreateTopic_def spec_create_def view_def)
next
  case False
  with run have "createTopic topic bus = (err, bus')" by (simp add: CreateTopic_def)
  from createTopic_ok [OF inv this] False show ?thesis
    by (cases "sp_topics (view ls bus) (rune_key topic)") (auto simp: spec_create_def view_def)
qed

lemma Subscribe_ok:
  assumes inv: "bus_inv ls bus"
  shows "\<exists>r bus' ls'. Subscribe choice topic (Some h) bus = (Return r, bus') \<and> bus_inv ls' bus' \<and>
    spec_subscribe (rune_key topic) h (view ls bus) = ((case r of Inl e \<Rightarrow> ResErr (Some e) | Inr i \<Rightarrow> ResIndex i), view ls' bus')"
proof (cases "tb_closed bus")
  case True
  then show ?thesis using inv by (auto simp: Subscribe_def spec_subscribe_def view_def)
next
  case False
  obtain err bus1 where c: "createTopic topic bus = (err, bus1)" by fastforce
  note C = createTopic_ok [OF inv c]
  obtain m where m: "node_get (rune_key topic) (tb_node bus1) = Some m" using C by blast
  obtain i bus2 where l: "link_payload choice h m bus1 = (i, bus2)" by fastforce
  from link_payload_ok [OF _ m l] C obtain a where L: "bus_inv (ls(m := a # ls m)) bus2" "i = nm_indexer (tb_managers bus1 m) + 1"
    "view (ls(m := a # ls m)) bus2 =
       (view ls bus1)\<lparr>sp_topics := (sp_topics (view ls bus1))(rune_key topic \<mapsto> (i, (i, h) # subs_of (tb_payloads bus1) (ls m)))\<rparr>" by blast
  have err: "err = None \<or> err = Some TopicExistErr" using C by (auto split: option.splits)
  have topic1: "sp_topics (view ls bus1) (rune_key topic) = Some (nm_indexer (tb_managers bus1 m), subs_of (tb_payloads bus1) (ls m))"
    using m by (simp add: view_def)
  have "Subscribe choice topic (Some h) bus = (Return (Inr i), bus2)"
    using False c err m l by (auto simp: Subscribe_def rune_Get_node)
  moreover have "spec_subscribe (rune_key topic) h (view ls bus) = (ResIndex i, view (ls(m := a # ls m)) bus2)"
  proof (cases "sp_topics (view ls bus) (rune_key topic)")
    case None
    with C have v: "view ls bus1 = (view ls bus)\<lparr>sp_topics := (sp_topics (view ls bus))(rune_key topic \<mapsto> (0, []))\<rparr>" by simp
    with topic1 have z: "nm_indexer (tb_managers bus1 m) = 0" "subs_of (tb_payloads bus1) (ls m) = []" by simp_all
    show ?thesis using None False L(2) by (simp add: L(3) v z spec_subscribe_def) (simp add: view_def)
  next
    case (Some t)
    with C have "bus1 = bus" by simp
    with topic1 False show ?thesis by (simp add: L(2,3) spec_subscribe_def) (simp add: view_def)
  qed
  ultimately show ?thesis using L(1) by (intro exI [of _ "Inr i"] exI [of _ bus2] exI [of _ "ls(m := a # ls m)"]) simp
qed

lemma bus_step_refines:
  assumes inv: "bus_inv ls bus"
  shows "\<exists>r bus' ls'. bus_step op bus = Some (r, bus') \<and> bus_inv ls' bus' \<and> view ls' bus' = snd (spec_step op (view ls bus)) \<and>
    res_refines op r (fst (spec_step op (view ls bus)))"
proof (cases op)
  case (OpCreate topic)
  obtain err bus' where "CreateTopic topic bus = (err, bus')" by fastforce
  with CreateTopic_ok [OF inv this] OpCreate show ?thesis by auto
next
  case (OpSubscribe choice topic h)
  from Subscribe_ok [OF inv, of choice topic h] obtain r bus' ls' where
    "Subscribe choice topic (Some h) bus = (Return r, bus')" "bus_inv ls' bus'"
    "spec_subscribe (rune_key topic) h (view ls bus) = ((case r of Inl e \<Rightarrow> ResErr (Some e) | Inr i \<Rightarrow> ResIndex i), view ls' bus')" by blast
  with OpSubscribe show ?thesis by (cases r) auto
next
  case (OpUnSubscribe topic i)
  with UnSubscribe_ok [OF inv, of topic i] show ?thesis by fastforce
next
  case (OpDestroy topic)
  from DestroyTopic_ok [OF inv, of topic] obtain out bus' ls' r where
    "DestroyTopic topic bus = Some (out, bus')" "bus_inv ls' bus'" "spec_destroy (rune_key topic) (view ls bus) = (ResErr r, view ls' bus')"
    "out = Return r \<or> multi_byte topic \<and> (\<exists>p. out = Panic p) \<and> r = None" by blast
  with OpDestroy show ?thesis by (cases out) auto
next
  case OpClose
  have "bus_inv ls (bus_Close bus)" using inv by (simp add: bus_Close_def bus_inv_def)
  moreover have "view ls (bus_Close bus) = (view ls bus)\<lparr>sp_closed := True\<rparr>" by (simp add: bus_Close_def view_def)
  ultimately show ?thesis using OpClose by auto
qed

lemma bus_run_refines:
  "bus_inv ls bus \<Longrightarrow> \<exists>rs bus' ls'. bus_run ops bus = Some (rs, bus') \<and> bus_inv ls' bus' \<and> view ls' bus' = snd (spec_run ops (view ls bus)) \<and>
     run_refines ops rs (fst (spec_run ops (view ls bus)))"
proof (induction ops arbitrary: ls bus)
  case Nil
  then show ?case by auto
next
  case (Cons op ops)
  from bus_step_refines [OF Cons.prems, of op] obtain r bus1 ls1 where
    1: "bus_step op bus = Some (r, bus1)" "bus_inv ls1 bus1" "view ls1 bus1 = snd (spec_step op (view ls bus))"
      "res_refines op r (fst (spec_step op (view ls bus)))" by blast
  from Cons.IH [OF 1(2)] obtain rs bus2 ls2 where
    2: "bus_run ops bus1 = Some (rs, bus2)" "bus_inv ls2 bus2" "view ls2 bus2 = snd (spec_run ops (view ls1 bus1))"
      "run_refines ops rs (fst (spec_run ops (view ls1 bus1)))" by blast
  have "spec_run (op # ops) (view ls bus) = (fst (spec_step op (view ls bus)) # fst (spec_run ops (view ls1 bus1)), snd (spec_run ops (view ls1 bus1)))"
    by (simp add: 1(3) split: prod.split)
  with 1 2 show ?case by auto
qed

section \<open>Properties\<close>

lemma run_refines_exact: "run_refines ops rs rs' \<Longrightarrow> \<forall>topic. OpDestroy topic \<in> set ops \<longrightarrow> \<not> multi_byte topic \<Longrightarrow> rs = rs'"
proof (induction ops rs rs' rule: run_refines.induct)
  case (2 op ops r rs r' rs')
  then show ?case by (cases op) auto
qed simp_all

text \<open>Property C23: the event bus refines its specification. Every sequence of calls that create topics, subscribe, unsubscribe, destroy topics and
  close the bus, with any choice of the payload pool, comes to an end (no loop over a linked list runs forever). Each call answers as the
  specification does, except that a \<open>DestroyTopic\<close> of a topic with a rune of several bytes may panic where the specification succeeds,
  having removed the topic; so when no such topic is destroyed the answers are those of the specification. Afterwards a publication
  reaches exactly the current subscribers of its topic, the newest first, and none when the bus is closed.\<close>

theorem bus_refines_spec:
  "\<exists>rs bus. bus_run ops (NewTrieEventBus :: ('h, 'p) trieEventBus) = Some (rs, bus) \<and> run_refines ops rs (fst (spec_run ops spec_new)) \<and>
     ((\<forall>topic. OpDestroy topic \<in> set ops \<longrightarrow> \<not> multi_byte topic) \<longrightarrow> rs = fst (spec_run ops spec_new)) \<and>
     (\<forall>topic. publish_handles topic bus = Some (spec_publish topic (snd (spec_run ops spec_new))))"
proof -
  from bus_run_refines [OF new_bus_inv, of ops] obtain rs ls and bus :: "('h, 'p) trieEventBus" where
    r: "bus_run ops (NewTrieEventBus :: ('h, 'p) trieEventBus) = Some (rs, bus)" "bus_inv ls bus" "view ls bus = snd (spec_run ops spec_new)"
      "run_refines ops rs (fst (spec_run ops spec_new))"
    unfolding view_new by blast
  have "publish_handles topic bus = Some (spec_publish topic (snd (spec_run ops spec_new)))" for topic
    using publish_handles_view [OF r(2)] r(3) by simp
  with r(1,4) run_refines_exact [OF r(4)] show ?thesis by blast
qed

definition ex_bus_ops :: "bool bus_op list" where
  "ex_bus_ops = [OpSubscribe 0 ''t'' False, OpSubscribe 0 ''t'' True, OpUnSubscribe ''t'' 1, OpDestroy ''t'', OpDestroy ''t'']"

theorem bus_refines_spec_witness:
  "\<exists>bus. bus_run ex_bus_ops (NewTrieEventBus :: (bool, unit) trieEventBus) =
     Some ([ResIndex 1, ResIndex 2, ResErr None, ResErr None, ResErr (Some TopicNotExistErr)], bus)"
proof -
  have "runes ''t'' = [(116, 1)]" by code_simp
  then have "\<forall>topic. OpDestroy topic \<in> set ex_bus_ops \<longrightarrow> \<not> multi_byte topic" by (simp add: ex_bus_ops_def multi_byte_def)
  moreover have "fst (spec_run ex_bus_ops spec_new) = [ResIndex 1, ResIndex 2, ResErr None, ResErr None, ResErr (Some TopicNotExistErr)]"
    by (simp add: ex_bus_ops_def spec_new_def spec_subscribe_def spec_unsubscribe_def spec_destroy_def)
  ultimately show ?thesis using bus_refines_spec [of ex_bus_ops] by fastforce
qed

text \<open>The numbers of the subscriptions of a topic are distinct, as long as there were fewer than $2^{64}$ calls, so that a number
  unsubscribes one handler.\<close>

definition numbered :: "nat \<Rightarrow> 'h spec_bus \<Rightarrow> bool" where
  "numbered n sp \<longleftrightarrow> (\<forall>ks i subs. sp_topics sp ks = Some (i, subs) \<longrightarrow>
     unat i \<le> n \<and> distinct (map fst subs) \<and> (\<forall>j \<in> fst ` set subs. 0 < unat j \<and> unat j \<le> unat i))"

lemma set_drop_first: "set (drop_first k xs) \<subseteq> set xs"
  by (induction xs) auto

lemma distinct_drop_first: "distinct (map fst xs) \<Longrightarrow> distinct (map fst (drop_first k xs)) \<and> k \<notin> fst ` set (drop_first k xs)"
proof (induction xs)
  case (Cons x xs)
  then show ?case using set_drop_first [of k xs] by auto
qed simp

lemma drop_first_filter: "distinct (map fst xs) \<Longrightarrow> drop_first k xs = filter (\<lambda>x. fst x \<noteq> k) xs"
proof (induction xs)
  case (Cons x xs)
  have "\<forall>y \<in> set xs. fst y \<noteq> fst x" using Cons.prems by (auto simp: image_iff)
  then have "filter (\<lambda>y. fst y \<noteq> fst x) xs = xs" by (simp add: filter_id_conv)
  with Cons show ?case by auto
qed simp

lemma numbered_upd:
  "numbered n sp \<Longrightarrow> unat i \<le> n \<Longrightarrow> distinct (map fst subs) \<Longrightarrow> \<forall>j \<in> fst ` set subs. 0 < unat j \<and> unat j \<le> unat i \<Longrightarrow>
     numbered n (sp\<lparr>sp_topics := (sp_topics sp)(ks \<mapsto> (i, subs))\<rparr>)"
  unfolding numbered_def by simp

lemma numbered_mono: "numbered n sp \<Longrightarrow> n \<le> n' \<Longrightarrow> numbered n' sp"
  unfolding numbered_def by (meson order_trans)

lemma numbered_step:
  assumes n: "numbered n sp" and bound: "n + 1 < 2 ^ 64"
  shows "numbered (n + 1) (snd (spec_step op sp))"
proof -
  have up: "numbered (n + 1) sp" using numbered_mono [OF n] by simp
  show ?thesis
  proof (cases op)
    case (OpCreate topic)
    then show ?thesis using up numbered_upd [OF up, of 0 "[]"] by (auto simp: spec_create_def split: option.split)
  next
    case (OpSubscribe choice topic h)
    obtain i subs where t: "(case sp_topics sp (rune_key topic) of None \<Rightarrow> (0, []) | Some t \<Rightarrow> t) = (i, subs)" by fastforce
    with n have i: "unat i \<le> n" "distinct (map fst subs)" "\<forall>j \<in> fst ` set subs. 0 < unat j \<and> unat j \<le> unat i"
      by (auto simp: numbered_def split: option.splits)
    have "unat (i + 1) = unat i + 1" using i(1) bound by (simp add: unat_plus_if_size word_size)
    with i have "numbered (n + 1) (sp\<lparr>sp_topics := (sp_topics sp)(rune_key topic \<mapsto> (i + 1, (i + 1, h) # subs))\<rparr>)"
      by (intro numbered_upd [OF up]) (fastforce intro: le_SucI)+
    with OpSubscribe up t show ?thesis by (auto simp: spec_subscribe_def split: prod.split)
  next
    case (OpUnSubscribe topic i)
    show ?thesis
    proof (cases "sp_topics sp (rune_key topic)")
      case (Some t)
      obtain k subs where t: "t = (k, subs)" by fastforce
      have "numbered (n + 1) (sp\<lparr>sp_topics := (sp_topics sp)(rune_key topic \<mapsto> (k, drop_first i subs))\<rparr>)"
      proof (rule numbered_upd [OF up])
        have k: "unat k \<le> n + 1" "distinct (map fst subs)" "\<forall>j \<in> fst ` set subs. 0 < unat j \<and> unat j \<le> unat k"
          using up Some t by (simp_all add: numbered_def)
        then show "unat k \<le> n + 1" "distinct (map fst (drop_first i subs))" "\<forall>j \<in> fst ` set (drop_first i subs). 0 < unat j \<and> unat j \<le> unat k"
          using distinct_drop_first [of subs i] set_drop_first [of i subs] by blast+
      qed
      then show ?thesis using OpUnSubscribe Some t up by (auto simp: spec_unsubscribe_def)
    qed (use OpUnSubscribe up in \<open>simp add: spec_unsubscribe_def\<close>)
  next
    case (OpDestroy topic)
    then show ?thesis using up by (auto simp: spec_destroy_def numbered_def split: option.split)
  next
    case OpClose
    then show ?thesis using up by (simp add: numbered_def)
  qed
qed

lemma numbered_run: "numbered n sp \<Longrightarrow> n + length ops < 2 ^ 64 \<Longrightarrow> numbered (n + length ops) (snd (spec_run ops sp))"
proof (induction ops arbitrary: n sp)
  case (Cons op ops)
  then have "numbered (n + 1) (snd (spec_step op sp))" by (intro numbered_step) simp_all
  from Cons.IH [OF this] Cons.prems(2) show ?case by (simp split: prod.split) (metis snd_conv)
qed simp

text \<open>An unsubscription takes away one subscriber. After fewer than $2^{64}$ calls, the subscriptions of a topic have distinct
  numbers; a successful \<open>UnSubscribe\<close> leaves all those with another number, in their order, and the subscribers of all other topics.\<close>

theorem unsubscribe_exact:
  assumes run: "bus_run ops (NewTrieEventBus :: ('h, 'p) trieEventBus) = Some (rs, bus)" and bound: "length ops < 2 ^ 64"
    and un: "UnSubscribe topic i bus = Some (None, bus')" and "open": "\<not> tb_closed bus"
  shows "\<exists>subs. distinct (map fst subs) \<and> publish_handles topic bus = Some (Inr (map (Some \<circ> snd) subs)) \<and>
    publish_handles topic bus' = Some (Inr (map (Some \<circ> snd) (filter (\<lambda>s. fst s \<noteq> i) subs))) \<and>
    (\<forall>topic'. rune_key topic' \<noteq> rune_key topic \<longrightarrow> publish_handles topic' bus' = publish_handles topic' bus)"
proof -
  from bus_run_refines [OF new_bus_inv, of ops] obtain rs' ls and b :: "('h, 'p) trieEventBus" where
    "bus_run ops (NewTrieEventBus :: ('h, 'p) trieEventBus) = Some (rs', b)" "bus_inv ls b" "view ls b = snd (spec_run ops spec_new)"
    unfolding view_new by blast
  with run have inv: "bus_inv ls bus" and v: "view ls bus = snd (spec_run ops spec_new)" by simp_all
  have "numbered 0 (spec_new :: 'h spec_bus)" by (simp add: numbered_def spec_new_def)
  from numbered_run [OF this, of ops] bound v have num: "numbered (length ops) (view ls bus)" by simp
  from UnSubscribe_ok [OF inv, of topic i] un obtain ls' where
    inv': "bus_inv ls' bus'" and sp: "spec_unsubscribe (rune_key topic) i (view ls bus) = (ResErr None, view ls' bus')" by auto
  note pub = publish_handles_view [OF inv] publish_handles_view [OF inv']
  from sp obtain n subs where t: "sp_topics (view ls bus) (rune_key topic) = Some (n, subs)"
    by (auto simp: spec_unsubscribe_def split: option.splits)
  with num have d: "distinct (map fst subs)" by (simp add: numbered_def)
  have v': "view ls' bus' = snd (spec_unsubscribe (rune_key topic) i (view ls bus))" "fst (spec_unsubscribe (rune_key topic) i (view ls bus)) = ResErr None"
    using sp by simp_all
  have t': "sp_topics (view ls' bus') (rune_key topic) = Some (n, filter (\<lambda>s. fst s \<noteq> i) subs)"
    and other: "ks \<noteq> rune_key topic \<Longrightarrow> sp_topics (view ls' bus') ks = sp_topics (view ls bus) ks"
    and closed: "sp_closed (view ls' bus') = sp_closed (view ls bus)" for ks
    using v'(2) t drop_first_filter [OF d, of i] unfolding v'(1) by (auto simp: spec_unsubscribe_def split: if_splits)
  have "\<not> sp_closed (view ls bus)" using "open" by (simp add: view_def)
  with pub t t' other closed d show ?thesis by (intro exI [of _ subs]) (simp add: spec_publish_def)
qed

text \<open>A destroyed topic that is subscribed again counts from one: the number of an old subscription unsubscribes the new one.\<close>

definition ex_stale :: "nat bus_op list" where
  "ex_stale = [OpSubscribe 0 ''t'' 1, OpDestroy ''t'', OpSubscribe 0 ''t'' 2, OpUnSubscribe ''t'' 1]"

lemma stale_unsubscribe:
  "(case bus_run ex_stale (NewTrieEventBus :: (nat, unit) trieEventBus) of
      None \<Rightarrow> False
    | Some (rs, bus) \<Rightarrow> rs = [ResIndex 1, ResErr None, ResIndex 1, ResErr None] \<and> publish_handles ''t'' bus = Some (Inr []))"
  by code_simp

definition ex_subscribed :: "nat bus_op list" where
  "ex_subscribed = [OpSubscribe 0 ''t'' 1, OpSubscribe 0 ''t'' 2, OpSubscribe 0 ''t'' 3]"

theorem unsubscribe_exact_witness:
  "\<exists>bus bus'. bus_run ex_subscribed (NewTrieEventBus :: (nat, unit) trieEventBus) = Some ([ResIndex 1, ResIndex 2, ResIndex 3], bus) \<and>
     UnSubscribe ''t'' 2 bus = Some (None, bus') \<and> publish_handles ''t'' bus' = Some (Inr [Some 3, Some 1]) \<and>
     (\<exists>subs :: (64 word \<times> nat) list. distinct (map fst subs) \<and> map (Some \<circ> snd) (filter (\<lambda>s. fst s \<noteq> 2) subs) = [Some 3, Some 1])"
proof -
  have ev: "case bus_run ex_subscribed (NewTrieEventBus :: (nat, unit) trieEventBus) of
      None \<Rightarrow> False
    | Some (rs, bus) \<Rightarrow> rs = [ResIndex 1, ResIndex 2, ResIndex 3] \<and> \<not> tb_closed bus \<and>
       (case UnSubscribe ''t'' 2 bus of None \<Rightarrow> False | Some (err, bus') \<Rightarrow> err = None \<and> publish_handles ''t'' bus' = Some (Inr [Some 3, Some 1]))"
    by code_simp
  then obtain bus bus' where r: "bus_run ex_subscribed (NewTrieEventBus :: (nat, unit) trieEventBus) = Some ([ResIndex 1, ResIndex 2, ResIndex 3], bus)"
    "UnSubscribe ''t'' 2 bus = Some (None, bus')" "publish_handles ''t'' bus' = Some (Inr [Some 3, Some 1])" "\<not> tb_closed bus"
    by (auto split: option.splits)
  have "length ex_subscribed < 2 ^ 64" by (simp add: ex_subscribed_def)
  from unsubscribe_exact [OF r(1) this r(2,4)] r(3) obtain subs :: "(64 word \<times> nat) list" where
    "distinct (map fst subs)" "map (Some \<circ> snd) (filter (\<lambda>s. fst s \<noteq> 2) subs) = [Some 3, Some 1]" by auto
  with r show ?thesis by (intro exI [of _ bus] exI [of _ bus'] conjI exI [of _ subs]) assumption+
qed

text \<open>What a publication does with the handlers: each is called once with the parameter, in order, until one panics.\<close>

lemma run_handles_total:
  assumes "\<And>h s. \<exists>s'. call h param s = (Return (), s')"
  shows "\<exists>s'. run_handles call param (map Some hs) s = (Return None, s') \<and> s' = fold (\<lambda>h s. snd (call h param s)) hs s"
proof (induction hs arbitrary: s)
  case (Cons h hs)
  obtain s' where "call h param s = (Return (), s')" using assms by blast
  with Cons [of s'] show ?case by simp
qed simp

end
