(* ===== verification/LocalBroker.thy ===== *)
theory LocalBroker
  imports EventBus Envelope RuntimeContext
begin

text \<open>
  The local broker (\<open>framework/event/local.go\<close>, \<open>broker.go\<close>): it adapts the in-process event bus to the broker contract. A publication
  prepares the envelope and hands it to the handlers of the topic, one after the other; an error or a panic of one does not keep the
  others from running, and all errors come back to the publisher. A handler starts in a context of its own.

  Application code is a parameter: a handler is a value \<open>'h\<close>, and \<open>run\<close> says what calling it in a context with an envelope does to the
  bus and to the state of the broker, which it may use. The errors of a delivery are kept beside that state for the time of the
  publication. The values of a context are those of \<open>RuntimeContext\<close> and the causality of \<open>Envelope\<close>; of its signals it matters
  whether it is done (\<open>ctx.Err()\<close>).
\<close>

section \<open>Data\<close>

definition ErrClosed :: goerr where "ErrClosed = Err ''event: broker closed'' []"
definition ErrNilHandler :: goerr where "ErrNilHandler = Err ''event: handler is nil'' []"
definition ErrNilBroker :: goerr where "ErrNilBroker = Err ''event: broker is nil'' []"

record 'u event_ctx =
  ec_values :: "'u Context"
  ec_causality :: "Causality option"
  ec_err :: "goerr option"

definition event_background :: "'u event_ctx" where
  "event_background = \<lparr>ec_values = Background, ec_causality = None, ec_err = None\<rparr>"

record 'u Propagator =
  pr_Inject :: "'u event_ctx \<Rightarrow> Envelope \<Rightarrow> Envelope"
  pr_Extract :: "'u event_ctx \<Rightarrow> Envelope \<Rightarrow> 'u event_ctx"

text \<open>A parameter of the bus: a delivery of this broker, or a value that another user of the bus published.\<close>

datatype 'u bus_param = LocalDelivery "'u event_ctx" Envelope | OtherValue

record subscription =
  su_topic :: string
  su_index :: "64 word"
  su_done :: bool
  su_err :: "goerr option"

record 'x broker_state =
  bs_closed :: bool
  bs_subs :: "subscription list"
  bs_ext :: 'x

type_synonym ('h, 'u, 'x) broker_world = "('h, 'u bus_param) trieEventBus \<times> 'x broker_state"
type_synonym ('h, 'u, 'x) event_handler = "'u event_ctx \<Rightarrow> ('h, 'u, 'x) broker_world \<Rightarrow> (string, goerr option) outcome \<times> ('h, 'u, 'x) broker_world"
type_synonym ('h, 'u, 'x) event_run = "'h \<Rightarrow> Envelope \<Rightarrow> ('h, 'u, 'x) event_handler"

record ('h, 'u, 'x) LocalBroker =
  lb_ownsBus :: bool
  lb_chain :: "(('h, 'u, 'x) event_handler \<Rightarrow> ('h, 'u, 'x) event_handler) list"
  lb_propagator :: "'u Propagator option"

definition broker_Name :: string where "broker_Name = ''local-eventbus''"

definition NewLocalBroker ::
  "('h, 'u bus_param) trieEventBus option \<Rightarrow> (('h, 'u, 'x) event_handler \<Rightarrow> ('h, 'u, 'x) event_handler) option list \<Rightarrow> 'u Propagator option \<Rightarrow> 'x
     \<Rightarrow> ('h, 'u, 'x) LocalBroker \<times> ('h, 'u, 'x) broker_world" where
  "NewLocalBroker bus middlewares propagator x =
     (\<lparr>lb_ownsBus = Option.is_none bus, lb_chain = some_values middlewares, lb_propagator = propagator\<rparr>,
      (case bus of None \<Rightarrow> NewTrieEventBus | Some b \<Rightarrow> b, \<lparr>bs_closed = False, bs_subs = [], bs_ext = x\<rparr>))"

section \<open>Handling one event\<close>

text \<open>\<open>signalOnlyContext\<close>: no value passes, cancellation does.\<close>

definition signal_only :: "'u event_ctx \<Rightarrow> 'u event_ctx" where
  "signal_only ctx = ctx\<lparr>ec_values := Background, ec_causality := None\<rparr>"

definition event_metadata :: "Metadata \<Rightarrow> Envelope \<Rightarrow> Metadata" where
  "event_metadata m e =
     m\<lparr>md_transport := ''event'', md_protocol := broker_Name, md_operation := Topic e, md_method := env_Type e,
       md_attributes := AList.update ''event.type'' (env_Type e) (md_attributes m)\<rparr>"

definition handler_context :: "('h, 'u, 'x) LocalBroker \<Rightarrow> 'u event_ctx \<Rightarrow> Envelope \<Rightarrow> 'u event_ctx" where
  "handler_context broker ctx e =
     (let c = signal_only ctx; c = c\<lparr>ec_causality := WithEnvelopeContext (ec_causality c) e\<rparr>;
          c = (case lb_propagator broker of None \<Rightarrow> c | Some p \<Rightarrow> pr_Extract p c e)
      in c\<lparr>ec_values := WithMetadata (Some (ec_values c)) (event_metadata (fst (MetadataFrom (Some (ec_values c)))) e)\<rparr>)"

definition safeHandle ::
  "(('h, 'u, 'x) event_handler \<Rightarrow> ('h, 'u, 'x) event_handler) list \<Rightarrow> ('h, 'u, 'x) event_handler \<Rightarrow> 'u event_ctx \<Rightarrow> ('h, 'u, 'x) broker_world
     \<Rightarrow> goerr option \<times> ('h, 'u, 'x) broker_world" where
  "safeHandle chain handler ctx s =
     (case foldr (\<lambda>m wrapped. m wrapped) chain handler ctx s of
        (Return err, s') \<Rightarrow> (err, s')
      | (Panic p, s') \<Rightarrow> (Some (Join [Err ''event: consumer panic: %v'' [p]]), s'))"

text \<open>The closure that \<open>Subscribe\<close> hands to the bus, with the errors of the delivery as part of the world.\<close>

definition broker_call ::
  "('h, 'u, 'x) LocalBroker \<Rightarrow> ('h, 'u, 'x) event_run \<Rightarrow> ('h, 'u bus_param, goerr list \<times> 'x broker_state) handle_call" where
  "broker_call broker run h param s =
     (case (param, s) of
        (OtherValue, _) \<Rightarrow> (Return (), s)
      | (LocalDelivery ctx e, (bus, (errs, x))) \<Rightarrow>
        (case safeHandle (lb_chain broker) (run h e) (handler_context broker ctx e) (bus, x) of
           (None, (bus', x')) \<Rightarrow> (Return (), (bus', (errs, x')))
         | (Some err, (bus', x')) \<Rightarrow> (Return (), (bus', (errs @ [err], x')))))"

section \<open>Publication and subscription\<close>

definition local_Publish ::
  "('h, 'u, 'x) LocalBroker option \<Rightarrow> ('h, 'u, 'x) event_run \<Rightarrow> string result \<Rightarrow> int \<Rightarrow> 'u event_ctx option \<Rightarrow> Envelope \<Rightarrow> ('h, 'u, 'x) broker_world
     \<Rightarrow> ((string, goerr option) outcome \<times> ('h, 'u, 'x) broker_world) option" where
  "local_Publish broker run raw now ctx envelope s =
     (case broker of
        None \<Rightarrow> Some (Return (Some ErrNilBroker), s)
      | Some b \<Rightarrow>
        if bs_closed (snd s) then Some (Return (Some ErrClosed), s)
        else
          (let c = (case ctx of None \<Rightarrow> event_background | Some c \<Rightarrow> c) in
           case ec_err c of
             Some err \<Rightarrow> Some (Return (Some err), s)
           | None \<Rightarrow>
             (case PrepareForPublish raw now (ec_causality c) (map_option (\<lambda>p. pr_Inject p c) (lb_propagator b)) envelope of
                Inl err \<Rightarrow> Some (Return (Some err), s)
              | Inr prepared \<Rightarrow>
                (case Publish (broker_call b run) (Topic prepared) (LocalDelivery c prepared) (fst s, ([], snd s)) of
                   None \<Rightarrow> None
                 | Some (Panic p, (bus, (errs, x))) \<Rightarrow> Some (Panic p, (bus, x))
                 | Some (Return (Some err), (bus, (errs, x))) \<Rightarrow> Some (Return (Some err), (bus, x))
                 | Some (Return None, (bus, (errs, x))) \<Rightarrow> Some (Return (err_join (map Some errs)), (bus, x))))))"

definition local_Subscribe ::
  "('h, 'u, 'x) LocalBroker option \<Rightarrow> nat \<Rightarrow> 'u event_ctx option \<Rightarrow> string \<Rightarrow> 'h option \<Rightarrow> ('h, 'u, 'x) broker_world
     \<Rightarrow> (string, nat result) outcome \<times> ('h, 'u, 'x) broker_world" where
  "local_Subscribe broker choice ctx topic handler s =
     (case broker of
        None \<Rightarrow> (Return (Inl ErrNilBroker), s)
      | Some b \<Rightarrow>
        (case handler of
           None \<Rightarrow> (Return (Inl ErrNilHandler), s)
         | Some h \<Rightarrow>
           (let topic = trim_space topic; c = (case ctx of None \<Rightarrow> event_background | Some c \<Rightarrow> c) in
            if topic = [] then (Return (Inl ErrInvalidEnvelope), s)
            else if bs_closed (snd s) then (Return (Inl ErrClosed), s)
            else case ec_err c of
              Some err \<Rightarrow> (Return (Inl err), s)
            | None \<Rightarrow>
              (case Subscribe choice topic (Some h) (fst s) of
                 (Panic p, bus) \<Rightarrow> (Panic p, (bus, snd s))
               | (Return (Inl err), bus) \<Rightarrow> (Return (Inl err), (bus, snd s))
               | (Return (Inr i), bus) \<Rightarrow>
                   (Return (Inr (length (bs_subs (snd s)))),
                    (bus, (snd s)\<lparr>bs_subs := bs_subs (snd s) @ [\<lparr>su_topic = topic, su_index = i, su_done = False, su_err = None\<rparr>]\<rparr>))))))"

text \<open>\<open>subscription.Close\<close>. The goroutine of a subscription calls it when its context or the one of the broker is done.\<close>

definition subscription_Close ::
  "nat option \<Rightarrow> ('h, 'u, 'x) broker_world \<Rightarrow> (goerr option \<times> ('h, 'u, 'x) broker_world) option" where
  "subscription_Close sub s =
     (case sub of
        None \<Rightarrow> Some (None, s)
      | Some k \<Rightarrow>
        (let current = bs_subs (snd s) ! k in
         if su_done current then Some (su_err current, s)
         else
           (case UnSubscribe (su_topic current) (su_index current) (fst s) of
              None \<Rightarrow> None
            | Some (err, bus) \<Rightarrow>
                Some (err, (bus, (snd s)\<lparr>bs_subs := (bs_subs (snd s))[k := current\<lparr>su_done := True, su_err := err\<rparr>]\<rparr>)))))"

definition local_Close :: "('h, 'u, 'x) LocalBroker option \<Rightarrow> ('h, 'u, 'x) broker_world \<Rightarrow> goerr option \<times> ('h, 'u, 'x) broker_world" where
  "local_Close broker s =
     (case broker of
        None \<Rightarrow> (None, s)
      | Some b \<Rightarrow>
        if bs_closed (snd s) then (None, s)
        else (None, (if lb_ownsBus b then bus_Close (fst s) else fst s, (snd s)\<lparr>bs_closed := True\<rparr>)))"

section \<open>What a publication does\<close>

text \<open>The handlers one after the other, with the errors they return.\<close>

fun deliver_all ::
  "('h, 'u, 'x) LocalBroker \<Rightarrow> ('h, 'u, 'x) event_run \<Rightarrow> 'u event_ctx \<Rightarrow> Envelope \<Rightarrow> 'h list \<Rightarrow> ('h, 'u, 'x) broker_world
     \<Rightarrow> goerr option list \<times> ('h, 'u, 'x) broker_world" where
  "deliver_all broker run hctx e [] s = ([], s)"
| "deliver_all broker run hctx e (h # hs) s =
     (case safeHandle (lb_chain broker) (run h e) hctx s of
        (err, s1) \<Rightarrow> (case deliver_all broker run hctx e hs s1 of (errs, s2) \<Rightarrow> (err # errs, s2)))"

lemma run_handles_deliver:
  "run_handles (broker_call b run) (LocalDelivery c e) (map Some hs) (bus, (errs, x)) =
     (case deliver_all b run (handler_context b c e) e hs (bus, x) of
        (es, (bus', x')) \<Rightarrow> (Return None, (bus', (errs @ some_values es, x'))))"
proof (induction hs arbitrary: bus errs x)
  case (Cons h hs)
  obtain err bus1 x1 where h: "safeHandle (lb_chain b) (run h e) (handler_context b c e) (bus, x) = (err, (bus1, x1))" by (metis prod_cases3)
  show ?case
  proof (cases err)
    case None
    with h Cons [of bus1 errs x1] show ?thesis by (simp add: broker_call_def split: prod.split)
  next
    case (Some y)
    with h Cons [of bus1 "errs @ [y]" x1] show ?thesis by (simp add: broker_call_def split: prod.split)
  qed
qed simp

lemma err_join_some_values: "err_join (map Some (some_values es)) = err_join es"
proof -
  have "some_values (map Some xs) = xs" for xs :: "goerr list" by (induction xs) auto
  then show ?thesis by (simp add: err_join_def)
qed

lemma deliver_all_length: "deliver_all b run hctx e hs s = (errs, s') \<Longrightarrow> length errs = length hs"
  by (induction hs arbitrary: s errs) (auto split: prod.splits)

text \<open>The subscribers of a topic after a history of calls, the newest first.\<close>

definition subscribers :: "'h bus_op list \<Rightarrow> string \<Rightarrow> 'h list" where
  "subscribers ops topic =
     (case sp_topics (snd (spec_run ops spec_new)) (rune_key topic) of None \<Rightarrow> [] | Some (_, subs) \<Rightarrow> map snd subs)"

lemma publish_handles_subscribers:
  assumes "bus_run ops (NewTrieEventBus :: ('h, 'p) trieEventBus) = Some (rs, bus)" "\<not> tb_closed bus"
  shows "publish_handles topic bus = Some (Inr (map Some (subscribers ops topic)))"
proof -
  from bus_run_refines [OF new_bus_inv, of ops] obtain rs' ls and b :: "('h, 'p) trieEventBus" where
    "bus_run ops (NewTrieEventBus :: ('h, 'p) trieEventBus) = Some (rs', b)" "bus_inv ls b" "view ls b = snd (spec_run ops spec_new)"
    unfolding view_new by blast
  with assms(1) have inv: "bus_inv ls bus" and v: "view ls bus = snd (spec_run ops spec_new)" by simp_all
  have "\<not> sp_closed (view ls bus)" using assms(2) by (simp add: view_def)
  with publish_handles_view [OF inv, of topic] show ?thesis
    by (simp add: v spec_publish_def subscribers_def split: option.split)
qed

lemma local_Publish_delivers:
  assumes bus: "bus_run ops (NewTrieEventBus :: ('h, 'u bus_param) trieEventBus) = Some (rs, bus)" "\<not> tb_closed bus"
    and up: "\<not> bs_closed x" "ec_err c = None"
    and prep: "PrepareForPublish raw now (ec_causality c) (map_option (\<lambda>p. pr_Inject p c) (lb_propagator b)) envelope = Inr prepared"
    and del: "deliver_all b run (handler_context b c prepared) prepared (subscribers ops (Topic prepared)) (bus, x) = (errs, s')"
  shows "local_Publish (Some b) run raw now (Some c) envelope (bus, x) = Some (Return (err_join errs), s')"
proof -
  obtain bus' x' where s': "s' = (bus', x')" by fastforce
  have "Publish (broker_call b run) (Topic prepared) (LocalDelivery c prepared) (bus, ([], x)) = Some (Return None, (bus', (some_values errs, x')))"
    using publish_handles_subscribers [OF bus, of "Topic prepared"] del s'
    by (simp add: Publish_def run_handles_deliver)
  with up prep s' show ?thesis by (simp add: local_Publish_def err_join_some_values)
qed

text \<open>A publication through the local broker reaches every subscriber. On an open broker over a bus with any history, an envelope that
  can be prepared is handled by exactly the current subscribers of its topic, the newest first, each in the handler
  context and whether or not an earlier one failed or panicked; the publication returns, never panics, and its error joins theirs,
  so that it is nil only when all of them returned nil.\<close>

theorem local_publish_reaches_all:
  assumes "bus_run ops (NewTrieEventBus :: ('h, 'u bus_param) trieEventBus) = Some (rs, bus)" "\<not> tb_closed bus"
    "\<not> bs_closed x" "ec_err c = None"
    "PrepareForPublish raw now (ec_causality c) (map_option (\<lambda>p. pr_Inject p c) (lb_propagator b)) envelope = Inr prepared"
  shows "\<exists>errs s' res. deliver_all b run (handler_context b c prepared) prepared (subscribers ops (Topic prepared)) (bus, x) = (errs, s') \<and>
    length errs = length (subscribers ops (Topic prepared)) \<and>
    local_Publish (Some b) run raw now (Some c) envelope (bus, x) = Some (Return res, s') \<and> (res = None \<longleftrightarrow> (\<forall>e \<in> set errs. e = None)) \<and>
    (\<forall>e r. Some e \<in> set errs \<longrightarrow> res = Some r \<longrightarrow> err_is r e)"
proof -
  obtain errs s' where del: "deliver_all b run (handler_context b c prepared) prepared (subscribers ops (Topic prepared)) (bus, x) = (errs, s')"
    by (rule prod.exhaust)
  from local_Publish_delivers [OF assms this] deliver_all_length [OF this] del err_join_None_iff [of errs] err_join_is [of errs] show ?thesis
    by (intro exI [of _ errs] exI [of _ s'] exI [of _ "err_join errs"] conjI allI impI)
qed

section \<open>Confinement\<close>

lemma run_handles_param: "(\<And>h s. call h p s = call h q s) \<Longrightarrow> run_handles call p hs s = run_handles call q hs s"
proof (induction hs arbitrary: s)
  case (Cons h hs)
  then show ?case by (cases h) (simp_all split: prod.split outcome.split)
qed simp

lemma handler_context_signal: "ec_err c = ec_err c' \<Longrightarrow> handler_context b c e = handler_context b c' e"
proof -
  assume "ec_err c = ec_err c'"
  then have "signal_only c = signal_only c'" by (simp add: signal_only_def)
  then show ?thesis by (simp add: handler_context_def)
qed

text \<open>Property C25: a subscriber learns nothing of the publisher but the envelope, the causality, whether its context is done, and what the propagator
  of the broker, if it has one, injects from the context. Publications of the same envelope in two contexts that agree on these
  have the same effect, whatever principal, grants, execution frame or idempotency claim the contexts carry. The context a handler starts in does not
  depend on these values either, with a propagator or without one, and without one it holds none of them.\<close>

theorem local_publish_confined:
  assumes same: "\<forall>p. lb_propagator b = Some p \<longrightarrow> pr_Inject p c = pr_Inject p c'"
    and signals: "ec_causality c = ec_causality c'" "ec_err c = ec_err c'"
  shows "local_Publish (Some b) run raw now (Some c) envelope s = local_Publish (Some b) run raw now (Some c') envelope s \<and>
    handler_context b c e = handler_context b c' e \<and>
    (lb_propagator b = None \<longrightarrow>
       cx_principal (ec_values (handler_context b c e)) = None \<and> cx_authorized (ec_values (handler_context b c e)) = None \<and>
       cx_frame (ec_values (handler_context b c e)) = None \<and> cx_claim (ec_values (handler_context b c e)) = None \<and>
       cx_idempotencyKey (ec_values (handler_context b c e)) = None)"
proof -
  note ctx = handler_context_signal [OF signals(2)]
  have "broker_call b run h (LocalDelivery c prepared) st = broker_call b run h (LocalDelivery c' prepared) st" for h prepared st
    by (simp add: broker_call_def ctx split: prod.split)
  then have pub: "Publish (broker_call b run) topic (LocalDelivery c prepared) st = Publish (broker_call b run) topic (LocalDelivery c' prepared) st" for topic prepared st
    using run_handles_param [of "broker_call b run" "LocalDelivery c prepared" "LocalDelivery c' prepared"]
    by (simp add: Publish_def split: option.split sum.split)
  have inject: "map_option (\<lambda>p. pr_Inject p c) (lb_propagator b) = map_option (\<lambda>p. pr_Inject p c') (lb_propagator b)"
    using same by (cases "lb_propagator b") simp_all
  have "local_Publish (Some b) run raw now (Some c) envelope s = local_Publish (Some b) run raw now (Some c') envelope s"
    unfolding local_Publish_def option.simps(5) Let_def signals inject pub ..
  then show ?thesis using ctx [of b e] by (simp add: handler_context_def Let_def signal_only_def Background_def)
qed

section \<open>A broker with a handler that panics\<close>

definition ex_local :: "(bool, unit, nat) LocalBroker" where
  "ex_local = \<lparr>lb_ownsBus = True, lb_chain = [], lb_propagator = None\<rparr>"

definition ex_handle :: "(bool, unit, nat) event_run" where
  "ex_handle h e ctx s = (if h then (Panic ''boom'', s) else (Return None, (fst s, (snd s)\<lparr>bs_ext := bs_ext (snd s) + 1\<rparr>)))"

definition ex_subscriptions :: "bool bus_op list" where
  "ex_subscriptions = [OpSubscribe 0 ''t'' False, OpSubscribe 0 ''t'' True]"

definition ex_event :: Envelope where
  "ex_event =
     \<lparr>SchemaVersionE = 1, env_ID = ''e'', Topic = ''t'', env_Type = ''y'', Source = [], env_Subject = [], CorrelationID = ''e'', CausationID = [],
      OccurredAt = 7, ContentType = ''j'', DeliveryAttempt = 0, Payload = [], env_Metadata = []\<rparr>"

lemma ex_subscriptions_bus: "\<exists>rs bus. bus_run ex_subscriptions (NewTrieEventBus :: (bool, unit bus_param) trieEventBus) = Some (rs, bus) \<and> \<not> tb_closed bus"
proof -
  have "case bus_run ex_subscriptions (NewTrieEventBus :: (bool, unit bus_param) trieEventBus) of None \<Rightarrow> False | Some (rs, bus) \<Rightarrow> \<not> tb_closed bus"
    by code_simp
  then show ?thesis by (auto split: option.splits)
qed

lemma ex_event_prepared: "PrepareForPublish raw now None None ex_event = Inr ex_event"
proof -
  have "valid_envelope ex_event"
    by (simp add: valid_envelope_def ex_event_def trim_envelope_def bad_envelope_def trim_space_plain plain_char_def
        MaxTopicLength_def MaxTypeLength_def MaxSourceLength_def MaxSubjectLength_def MaxIDLength_def MaxMetadataEntries_def)
  from EnvelopeNormalize_fixed [OF this] show ?thesis by (simp add: PrepareForPublish_def inheritEventCausality_def CausalityFromContext_def)
qed

theorem local_publish_reaches_all_witness:
  "\<exists>bus (errs :: goerr option list) s' res. local_Publish (Some ex_local) ex_handle (Inr []) 5 (Some event_background) ex_event (bus, \<lparr>bs_closed = False, bs_subs = [], bs_ext = 3\<rparr>)
     = Some (Return res, s') \<and> length errs = 2 \<and> (res = None \<longleftrightarrow> (\<forall>e \<in> set errs. e = None))"
proof -
  let ?x = "\<lparr>bs_closed = False, bs_subs = [], bs_ext = 3\<rparr> :: nat broker_state"
  obtain rs and bus :: "(bool, unit bus_param) trieEventBus" where bus: "bus_run ex_subscriptions (NewTrieEventBus :: (bool, unit bus_param) trieEventBus) = Some (rs, bus)" "\<not> tb_closed bus"
    using ex_subscriptions_bus by blast
  have len: "length (subscribers ex_subscriptions (Topic ex_event)) = 2" by code_simp
  have "PrepareForPublish (Inr []) 5 (ec_causality (event_background :: unit event_ctx))
      (map_option (\<lambda>p. pr_Inject p event_background) (lb_propagator ex_local)) ex_event = Inr ex_event"
    by (simp add: ex_local_def event_background_def ex_event_prepared)
  moreover have "\<not> bs_closed ?x" "ec_err (event_background :: unit event_ctx) = None" by (simp_all add: event_background_def)
  ultimately obtain res s' and errs :: "goerr option list" where
    "length errs = length (subscribers ex_subscriptions (Topic ex_event))"
    "local_Publish (Some ex_local) ex_handle (Inr []) 5 (Some event_background) ex_event (bus, ?x) = Some (Return res, s')"
    "res = None \<longleftrightarrow> (\<forall>e \<in> set errs. e = None)"
    using local_publish_reaches_all [OF bus, of ?x event_background "Inr []" 5 ex_local ex_event ex_event ex_handle] by blast
  with len have "local_Publish (Some ex_local) ex_handle (Inr []) 5 (Some event_background) ex_event (bus, ?x) = Some (Return res, s')"
    "length errs = 2" "res = None \<longleftrightarrow> (\<forall>e \<in> set errs. e = None)" by (simp_all only:)
  then show ?thesis by (intro exI [of _ bus] exI [of _ errs] exI [of _ s'] exI [of _ res] conjI)
qed

text \<open>A propagator that forwards the subject of the envelope and nothing of the context.\<close>

definition ex_propagated :: "(bool, unit, nat) LocalBroker" where
  "ex_propagated = ex_local\<lparr>lb_propagator := Some \<lparr>pr_Inject = \<lambda>ctx e. e\<lparr>env_Subject := ''traced''\<rparr>, pr_Extract = \<lambda>ctx e. ctx\<rparr>\<rparr>"

theorem local_publish_confined_witness:
  "local_Publish (Some ex_propagated) ex_handle (Inr []) 5 (Some (event_background\<lparr>ec_values := WithPrincipal None no_principal\<rparr>)) ex_event
       (snd (NewLocalBroker None [] None 3)) =
     local_Publish (Some ex_propagated) ex_handle (Inr []) 5 (Some event_background) ex_event (snd (NewLocalBroker None [] None 3))"
proof -
  let ?c = "event_background\<lparr>ec_values := WithPrincipal None no_principal\<rparr> :: unit event_ctx"
  have "\<forall>p. lb_propagator ex_propagated = Some p \<longrightarrow> pr_Inject p ?c = pr_Inject p event_background" by (simp add: ex_propagated_def)
  moreover have "ec_causality ?c = ec_causality (event_background :: unit event_ctx)" "ec_err ?c = ec_err (event_background :: unit event_ctx)" by simp_all
  ultimately show ?thesis by (rule local_publish_confined [THEN conjunct1])
qed

end
