(* ===== verification/ModuleDescriptor.thy ===== *)
theory ModuleDescriptor
  imports Prelude
begin

text \<open>
  Module descriptors and capability contracts: the data of \<open>framework/core/modulecatalog/descriptor.go\<close>
  and \<open>capability.go\<close>, and the normalisation every descriptor goes through before the catalog, the
  context factory and the capability collector use it. \<open>'b\<close> stands for the Go function type
  \<open>BuildFunc\<close>, which the code only tests against nil and calls elsewhere; \<^const>\<open>None\<close> is nil.
\<close>

section \<open>Data\<close>

record DatabaseRequirement =
  db_name :: string

record RPCRequirement =
  rpc_name :: string

record Requirements =
  ConfigKey :: string
  ReqLogger :: bool
  ReqDatabases :: "DatabaseRequirement list"
  ReqEventBus :: bool
  ReqRPC :: "RPCRequirement list"

record CapabilityContract =
  cap_name :: string
  cap_package :: string
  cap_type :: string

record 'b Descriptor =
  d_name :: string
  d_version :: string
  d_depends :: "string list"
  d_reqs :: Requirements
  d_provides :: "CapabilityContract list"
  d_build :: "'b option"

section \<open>Name patterns\<close>

text \<open>\<open>moduleNamePattern\<close> and \<open>capabilityNamePattern\<close>: \<open>^[a-z][a-z0-9._-]{0,127}$\<close>.\<close>

definition module_name_char :: "char \<Rightarrow> bool" where
  "module_name_char c \<longleftrightarrow> is_lower c \<or> is_digit c \<or> c = CHR ''.'' \<or> c = CHR ''_'' \<or> c = CHR ''-''"

fun moduleNamePattern :: "string \<Rightarrow> bool" where
  "moduleNamePattern [] = False"
| "moduleNamePattern (c # cs) = (is_lower c \<and> length cs \<le> 127 \<and> list_all module_name_char cs)"

definition capabilityNamePattern :: "string \<Rightarrow> bool" where
  "capabilityNamePattern s = moduleNamePattern s"

text \<open>\<open>capabilityTypePattern\<close>: \<open>^[A-Z][A-Za-z0-9_]*$\<close>.\<close>

fun capabilityTypePattern :: "string \<Rightarrow> bool" where
  "capabilityTypePattern [] = False"
| "capabilityTypePattern (c # cs) =
     (is_upper c \<and> list_all (\<lambda>c. is_upper c \<or> is_lower c \<or> is_digit c \<or> c = CHR ''_'') cs)"

section \<open>Normalisation\<close>

definition name_step :: "string \<Rightarrow> string \<Rightarrow> string \<Rightarrow> string result" where
  "name_step owner kind v =
     (let v = trim_space v in
      if \<not> moduleNamePattern v then Inl (Err ''modulecatalog: module %q invalid %s %q'' [owner, kind, v])
      else if v = owner then Inl (Err ''modulecatalog: module %q depends on itself'' [owner])
      else Inr v)"

definition duplicate_name :: "string \<Rightarrow> string \<Rightarrow> string \<Rightarrow> goerr" where
  "duplicate_name owner kind v = Err ''modulecatalog: module %q duplicate %s %q'' [owner, kind, v]"

definition normalizeNames :: "string list \<Rightarrow> string \<Rightarrow> string \<Rightarrow> string list result" where
  "normalizeNames values owner kind =
     (case dedup_loop (name_step owner kind) id (duplicate_name owner kind) [] values of
        Inl e \<Rightarrow> Inl e
      | Inr result \<Rightarrow> Inr (sort result))"

definition database_step :: "string \<Rightarrow> DatabaseRequirement \<Rightarrow> DatabaseRequirement result" where
  "database_step owner v =
     (let v = v\<lparr>db_name := trim_space (db_name v)\<rparr> in
      if \<not> moduleNamePattern (db_name v)
      then Inl (Err ''modulecatalog: module %q invalid database requirement %q'' [owner, db_name v])
      else Inr v)"

definition duplicate_database :: "string \<Rightarrow> string \<Rightarrow> goerr" where
  "duplicate_database owner n = Err ''modulecatalog: module %q duplicate database requirement %q'' [owner, n]"

definition normalizeDatabaseRequirements ::
  "string \<Rightarrow> DatabaseRequirement list \<Rightarrow> DatabaseRequirement list result" where
  "normalizeDatabaseRequirements owner values =
     (case dedup_loop (database_step owner) db_name (duplicate_database owner) [] values of
        Inl e \<Rightarrow> Inl e
      | Inr result \<Rightarrow> Inr (sort_key db_name result))"

definition rpc_step :: "string \<Rightarrow> RPCRequirement \<Rightarrow> RPCRequirement result" where
  "rpc_step owner v =
     (let v = v\<lparr>rpc_name := trim_space (rpc_name v)\<rparr> in
      if \<not> moduleNamePattern (rpc_name v)
      then Inl (Err ''modulecatalog: module %q invalid RPC requirement %q'' [owner, rpc_name v])
      else Inr v)"

definition duplicate_rpc :: "string \<Rightarrow> string \<Rightarrow> goerr" where
  "duplicate_rpc owner n = Err ''modulecatalog: module %q duplicate RPC requirement %q'' [owner, n]"

definition normalizeRPCRequirements ::
  "string \<Rightarrow> RPCRequirement list \<Rightarrow> RPCRequirement list result" where
  "normalizeRPCRequirements owner values =
     (case dedup_loop (rpc_step owner) rpc_name (duplicate_rpc owner) [] values of
        Inl e \<Rightarrow> Inl e
      | Inr result \<Rightarrow> Inr (sort_key rpc_name result))"

definition normalizeCapabilityContract :: "CapabilityContract \<Rightarrow> CapabilityContract result" where
  "normalizeCapabilityContract contract =
     (let contract = contract\<lparr>cap_name := trim_space (cap_name contract)\<rparr>;
          contract = contract\<lparr>cap_package := trim_space (cap_package contract)\<rparr>;
          contract = contract\<lparr>cap_type := trim_space (cap_type contract)\<rparr>
      in if \<not> capabilityNamePattern (cap_name contract)
         then Inl (Err ''modulecatalog: invalid capability name %q'' [cap_name contract])
         else if cap_package contract = []
              \<or> list_ex (\<lambda>c. c \<in> {CHR '' '', CHR 0x09, CHR 0x0D, CHR 0x0A}) (cap_package contract)
              \<or> hd (cap_package contract) = CHR ''.'' \<or> last (cap_package contract) = CHR ''/''
         then Inl (Err ''modulecatalog: invalid capability package %q'' [cap_package contract])
         else if \<not> capabilityTypePattern (cap_type contract)
         then Inl (Err ''modulecatalog: invalid capability type %q'' [cap_type contract])
         else Inr contract)"

definition contract_key :: "CapabilityContract \<Rightarrow> string \<times> string \<times> string" where
  "contract_key c = (cap_name c, cap_package c, cap_type c)"

definition contract_step :: "string \<Rightarrow> CapabilityContract \<Rightarrow> CapabilityContract result" where
  "contract_step owner v =
     (case normalizeCapabilityContract v of
        Inl e \<Rightarrow> Inl (Wrap ''modulecatalog: module %q capability declaration: %w'' [owner] e)
      | Inr n \<Rightarrow> Inr n)"

definition duplicate_contract :: "string \<Rightarrow> string \<Rightarrow> goerr" where
  "duplicate_contract owner n = Err ''modulecatalog: module %q duplicate capability declaration %q'' [owner, n]"

definition normalizeCapabilityContracts ::
  "string \<Rightarrow> CapabilityContract list \<Rightarrow> CapabilityContract list result" where
  "normalizeCapabilityContracts owner values =
     (case dedup_loop (contract_step owner) cap_name (duplicate_contract owner) [] values of
        Inl e \<Rightarrow> Inl e
      | Inr result \<Rightarrow> Inr (sort_key contract_key result))"

definition normalizeDescriptor :: "'b Descriptor \<Rightarrow> 'b Descriptor result" where
  "normalizeDescriptor d =
     (let d = d\<lparr>d_name := trim_space (d_name d), d_version := trim_space (d_version d)\<rparr> in
      if \<not> moduleNamePattern (d_name d)
      then Inl (Err ''modulecatalog: invalid module name %q'' [d_name d])
      else case normalizeNames (d_depends d) (d_name d) ''dependency'' of
        Inl e \<Rightarrow> Inl e
      | Inr deps \<Rightarrow>
        (let r = (d_reqs d)\<lparr>ConfigKey := trim_space (ConfigKey (d_reqs d))\<rparr> in
         case normalizeDatabaseRequirements (d_name d) (ReqDatabases r) of
           Inl e \<Rightarrow> Inl e
         | Inr dbs \<Rightarrow>
           (case normalizeRPCRequirements (d_name d) (ReqRPC r) of
              Inl e \<Rightarrow> Inl e
            | Inr rpcs \<Rightarrow>
              (case normalizeCapabilityContracts (d_name d) (d_provides d) of
                 Inl e \<Rightarrow> Inl e
               | Inr provides \<Rightarrow>
                 if provides \<noteq> [] \<and> d_build d = None
                 then Inl (Err ''modulecatalog: module %q declares capabilities but has no Build function'' [d_name d])
                 else Inr (d\<lparr>d_depends := deps,
                             d_reqs := r\<lparr>ReqDatabases := dbs, ReqRPC := rpcs\<rparr>,
                             d_provides := provides\<rparr>)))))"

text \<open>
  Copying a descriptor copies its slices, so that the catalog and its callers share no memory. In a
  value model the copy is equal to its source.
\<close>

definition cloneDescriptor :: "'b Descriptor \<Rightarrow> 'b Descriptor" where
  "cloneDescriptor d =
     d\<lparr>d_depends := [] @ d_depends d,
       d_reqs := (d_reqs d)\<lparr>ReqDatabases := [] @ ReqDatabases (d_reqs d), ReqRPC := [] @ ReqRPC (d_reqs d)\<rparr>,
       d_provides := [] @ d_provides d\<rparr>"

lemma cloneDescriptor_eq [simp]: "cloneDescriptor d = d"
  by (simp add: cloneDescriptor_def)

section \<open>Well-formed descriptors\<close>

text \<open>What normalisation establishes; everything downstream relies on this and nothing else.\<close>

definition wf_contract :: "CapabilityContract \<Rightarrow> bool" where
  "wf_contract c \<longleftrightarrow> normalizeCapabilityContract c = Inr c"

definition wf_descriptor :: "'b Descriptor \<Rightarrow> bool" where
  "wf_descriptor d \<longleftrightarrow>
     moduleNamePattern (d_name d) \<and> trim_space (d_version d) = d_version d \<and>
     list_all moduleNamePattern (d_depends d) \<and> d_name d \<notin> set (d_depends d) \<and>
     sorted (d_depends d) \<and> distinct (d_depends d) \<and>
     trim_space (ConfigKey (d_reqs d)) = ConfigKey (d_reqs d) \<and>
     list_all (\<lambda>r. moduleNamePattern (db_name r)) (ReqDatabases (d_reqs d)) \<and>
     sorted (map db_name (ReqDatabases (d_reqs d))) \<and> distinct (map db_name (ReqDatabases (d_reqs d))) \<and>
     list_all (\<lambda>r. moduleNamePattern (rpc_name r)) (ReqRPC (d_reqs d)) \<and>
     sorted (map rpc_name (ReqRPC (d_reqs d))) \<and> distinct (map rpc_name (ReqRPC (d_reqs d))) \<and>
     list_all wf_contract (d_provides d) \<and>
     sorted (map contract_key (d_provides d)) \<and> distinct (map cap_name (d_provides d)) \<and>
     (d_provides d \<noteq> [] \<longrightarrow> d_build d \<noteq> None)"

lemma is_lower_plain: "is_lower c \<Longrightarrow> plain_char c"
  by (auto simp: is_lower_def plain_char_def less_eq_char_def)

lemma module_name_char_plain: "module_name_char c \<Longrightarrow> plain_char c"
  by (auto simp: module_name_char_def is_lower_def is_digit_def plain_char_def less_eq_char_def)

lemma moduleNamePattern_trim: "moduleNamePattern s \<Longrightarrow> trim_space s = s"
proof (cases s)
  case (Cons c cs)
  assume "moduleNamePattern s"
  with Cons have "plain_char (hd s)" "plain_char (last s)"
    by (auto simp: is_lower_plain list_all_iff module_name_char_plain)
  then show ?thesis by (rule trim_space_plain)
qed simp

lemma normalizeCapabilityContract_wf: "normalizeCapabilityContract c = Inr c' \<Longrightarrow> wf_contract c'"
  by (auto simp: wf_contract_def normalizeCapabilityContract_def Let_def split: if_splits)

lemma name_step_Inr: "name_step owner kind x = Inr y \<longleftrightarrow> y = trim_space x \<and> moduleNamePattern y \<and> y \<noteq> owner"
  by (auto simp: name_step_def Let_def)

lemma database_step_Inr:
  "database_step owner x = Inr y \<longleftrightarrow> y = x\<lparr>db_name := trim_space (db_name x)\<rparr> \<and> moduleNamePattern (db_name y)"
  by (auto simp: database_step_def Let_def)

lemma rpc_step_Inr:
  "rpc_step owner x = Inr y \<longleftrightarrow> y = x\<lparr>rpc_name := trim_space (rpc_name x)\<rparr> \<and> moduleNamePattern (rpc_name y)"
  by (auto simp: rpc_step_def Let_def)

lemma contract_step_Inr: "contract_step owner x = Inr y \<longleftrightarrow> normalizeCapabilityContract x = Inr y"
  by (auto simp: contract_step_def split: sum.splits)

lemma normalizeNames_spec:
  assumes "normalizeNames values owner kind = Inr ys"
  shows "sorted ys \<and> distinct ys \<and> owner \<notin> set ys \<and> list_all moduleNamePattern ys \<and> set ys = trim_space ` set values"
proof -
  from assms obtain xs where xs: "dedup_loop (name_step owner kind) id (duplicate_name owner kind) [] values = Inr xs"
    and ys: "ys = sort xs"
    by (auto simp: normalizeNames_def split: sum.splits)
  have "distinct xs" using dedup_loop_distinct [OF xs] by simp
  moreover have "\<And>y. y \<in> set xs \<Longrightarrow> \<exists>x \<in> set values. y = trim_space x \<and> moduleNamePattern y \<and> y \<noteq> owner"
    using dedup_loop_normal [OF xs] by (auto simp: name_step_Inr)
  moreover have "\<forall>x \<in> set values. \<exists>y \<in> set xs. y = trim_space x"
    using dedup_loop_covers [OF xs] by (auto simp: name_step_Inr)
  ultimately show ?thesis unfolding ys by (auto simp: list_all_iff)
qed

lemma normalizeDatabaseRequirements_spec:
  assumes "normalizeDatabaseRequirements owner values = Inr ys"
  shows "sorted (map db_name ys) \<and> distinct (map db_name ys) \<and> list_all (\<lambda>r. moduleNamePattern (db_name r)) ys"
proof -
  from assms obtain xs where xs: "dedup_loop (database_step owner) db_name (duplicate_database owner) [] values = Inr xs"
    and ys: "ys = sort_key db_name xs"
    by (auto simp: normalizeDatabaseRequirements_def split: sum.splits)
  have "distinct (map db_name xs)" using dedup_loop_distinct [OF xs] by simp
  moreover have "\<And>y. y \<in> set xs \<Longrightarrow> moduleNamePattern (db_name y)"
    using dedup_loop_normal [OF xs] by (auto simp: database_step_Inr)
  ultimately show ?thesis
    unfolding ys by (simp add: list_all_iff distinct_map)
qed

lemma normalizeRPCRequirements_spec:
  assumes "normalizeRPCRequirements owner values = Inr ys"
  shows "sorted (map rpc_name ys) \<and> distinct (map rpc_name ys) \<and> list_all (\<lambda>r. moduleNamePattern (rpc_name r)) ys"
proof -
  from assms obtain xs where xs: "dedup_loop (rpc_step owner) rpc_name (duplicate_rpc owner) [] values = Inr xs"
    and ys: "ys = sort_key rpc_name xs"
    by (auto simp: normalizeRPCRequirements_def split: sum.splits)
  have "distinct (map rpc_name xs)" using dedup_loop_distinct [OF xs] by simp
  moreover have "\<And>y. y \<in> set xs \<Longrightarrow> moduleNamePattern (rpc_name y)"
    using dedup_loop_normal [OF xs] by (auto simp: rpc_step_Inr)
  ultimately show ?thesis
    unfolding ys by (simp add: list_all_iff distinct_map)
qed

lemma normalizeCapabilityContracts_spec:
  assumes "normalizeCapabilityContracts owner values = Inr ys"
  shows "sorted (map contract_key ys) \<and> distinct (map cap_name ys) \<and> list_all wf_contract ys"
proof -
  from assms obtain xs where xs: "dedup_loop (contract_step owner) cap_name (duplicate_contract owner) [] values = Inr xs"
    and ys: "ys = sort_key contract_key xs"
    by (auto simp: normalizeCapabilityContracts_def split: sum.splits)
  have "distinct (map cap_name xs)" using dedup_loop_distinct [OF xs] by simp
  moreover have "\<And>y. y \<in> set xs \<Longrightarrow> wf_contract y"
    using dedup_loop_normal [OF xs] by (auto simp: contract_step_Inr dest: normalizeCapabilityContract_wf)
  ultimately show ?thesis
    unfolding ys by (simp add: list_all_iff distinct_map)
qed

lemma normalizeNames_fixed:
  assumes "list_all moduleNamePattern xs" "owner \<notin> set xs" "sorted xs" "distinct xs"
  shows "normalizeNames xs owner kind = Inr xs"
  unfolding normalizeNames_def
  by (subst dedup_loop_fixed_Nil)
     (use assms in \<open>auto simp: list_all_iff name_step_Inr sort_key_fixed moduleNamePattern_trim\<close>)

lemma normalizeDatabaseRequirements_fixed:
  assumes "list_all (\<lambda>r. moduleNamePattern (db_name r)) xs" "sorted (map db_name xs)" "distinct (map db_name xs)"
  shows "normalizeDatabaseRequirements owner xs = Inr xs"
  unfolding normalizeDatabaseRequirements_def
  by (subst dedup_loop_fixed_Nil)
     (use assms in \<open>auto simp: list_all_iff database_step_Inr sort_key_fixed moduleNamePattern_trim\<close>)

lemma normalizeRPCRequirements_fixed:
  assumes "list_all (\<lambda>r. moduleNamePattern (rpc_name r)) xs" "sorted (map rpc_name xs)" "distinct (map rpc_name xs)"
  shows "normalizeRPCRequirements owner xs = Inr xs"
  unfolding normalizeRPCRequirements_def
  by (subst dedup_loop_fixed_Nil)
     (use assms in \<open>auto simp: list_all_iff rpc_step_Inr sort_key_fixed moduleNamePattern_trim\<close>)

lemma normalizeCapabilityContracts_fixed:
  assumes "list_all wf_contract xs" "sorted (map contract_key xs)" "distinct (map cap_name xs)"
  shows "normalizeCapabilityContracts owner xs = Inr xs"
  unfolding normalizeCapabilityContracts_def
  by (subst dedup_loop_fixed_Nil)
     (use assms in \<open>auto simp: list_all_iff contract_step_Inr sort_key_fixed wf_contract_def\<close>)

lemma normalizeDescriptor_wf [wf_intros]:
  assumes "normalizeDescriptor d = Inr d'"
  shows "wf_descriptor d'"
  using assms
  by (auto simp: normalizeDescriptor_def wf_descriptor_def Let_def split: if_splits sum.splits
      dest!: normalizeNames_spec normalizeDatabaseRequirements_spec normalizeRPCRequirements_spec
        normalizeCapabilityContracts_spec)

lemma normalizeDescriptor_fixed:
  assumes "wf_descriptor d"
  shows "normalizeDescriptor d = Inr d"
  using assms
  by (auto simp: normalizeDescriptor_def wf_descriptor_def Let_def moduleNamePattern_trim
      normalizeNames_fixed normalizeDatabaseRequirements_fixed normalizeRPCRequirements_fixed
      normalizeCapabilityContracts_fixed)

lemma normalizeDescriptor_name:
  assumes "normalizeDescriptor d = Inr d'"
  shows "d_name d' = trim_space (d_name d) \<and> set (d_depends d') = trim_space ` set (d_depends d) \<and> d_build d' = d_build d"
  using assms
  by (auto simp: normalizeDescriptor_def Let_def split: if_splits sum.splits dest!: normalizeNames_spec)

text \<open>
  Property C9: normalisation either refuses a descriptor or yields a well-formed one that a second
  normalisation leaves as it is. The context factory and the capability collector, which normalise the
  descriptors of a sealed plan again, therefore see exactly what the catalog sealed.
\<close>

theorem normalizeDescriptor_idempotent:
  assumes "normalizeDescriptor d = Inr d'"
  shows "wf_descriptor d' \<and> normalizeDescriptor d' = Inr d' \<and> d_name d' = trim_space (d_name d) \<and>
    set (d_depends d') = trim_space ` set (d_depends d)"
  using normalizeDescriptor_wf [OF assms] normalizeDescriptor_fixed normalizeDescriptor_name [OF assms] by blast

definition padded_descriptor :: "unit Descriptor" where
  "padded_descriptor =
     \<lparr>d_name = '' orders '', d_version = ''v1 '', d_depends = ['' users'', ''audit''],
      d_reqs = \<lparr>ConfigKey = [], ReqLogger = True, ReqDatabases = [\<lparr>db_name = '' main''\<rparr>], ReqEventBus = False, ReqRPC = []\<rparr>,
      d_provides = [], d_build = None\<rparr>"

theorem normalizeDescriptor_idempotent_witness:
  "\<exists>d'. normalizeDescriptor padded_descriptor = Inr d' \<and> d_depends d' = [''audit'', ''users''] \<and> wf_descriptor d'"
proof -
  let ?d = "padded_descriptor\<lparr>d_name := ''orders'', d_version := ''v1'', d_depends := [''audit'', ''users''],
    d_reqs := (d_reqs padded_descriptor)\<lparr>ReqDatabases := [\<lparr>db_name = ''main''\<rparr>]\<rparr>\<rparr>"
  have "normalizeDescriptor padded_descriptor = Inr ?d" by code_simp
  moreover have "wf_descriptor ?d" using normalizeDescriptor_idempotent [OF calculation] by blast
  moreover have "d_depends ?d = [''audit'', ''users'']" by simp
  ultimately show ?thesis by blast
qed

end
