(* ===== verification/AssemblyPlan.thy ===== *)
theory AssemblyPlan
  imports OperationPlan ModuleDescriptor Tries
begin

text \<open>
  Assembly plans (\<open>pkg/assemblyplan/plan.go\<close>, \<open>capability.go\<close>): the compiler from the applications, operations and modules of a service
  to the document that generated bootstrap code follows, with its normalisation and validation. The compiler derives the closure of the
  application dependencies, the inventory of module requirements and the bootstrap target; the validator derives them again and refuses a
  stale document.

  \<open>stableStrings\<close> is that of \<open>OperationPlan\<close>, the cycle search that of \<open>CycleSearch\<close>, the patterns of capability names and types those of
  \<open>ModuleDescriptor\<close>: the code repeats them. \<open>sort.Slice\<close> is a stable sort; it sorts elements with equal keys only in documents that
  are refused. \<open>strings.ToLower\<close> is modelled for ASCII letters. Two strings have the same JSON text when they have
  the same runes: an invalid byte is written as an escape, which a valid rune never is. Normalisation also writes through the slices of its
  argument; here it only returns a new value.
\<close>

section \<open>Data\<close>

record Evidence =
  ev_Ownership :: string
  ev_Source :: string
  ev_Ref :: string

record CapabilityRequirement =
  cr_Name :: string
  cr_Package :: string
  cr_Type :: string
  cr_Evidence :: Evidence

record AsmApplication =
  ap_ID :: string
  ap_Domain :: string
  ap_Name :: string
  ap_Capabilities :: "CapabilityRequirement list"
  ap_Evidence :: Evidence

record Dependency =
  de_From :: string
  de_To :: string
  de_Evidence :: Evidence

record BindingReference =
  br_OperationID :: string
  br_Transport :: string
  br_Index :: int
  br_Evidence :: Evidence

record AsmOperation =
  ao_ID :: string
  ao_Application :: string
  ao_Bindings :: "BindingReference list"
  ao_Evidence :: Evidence

record ModuleRequirements =
  mq_ConfigKey :: string
  mq_Logger :: bool
  mq_Databases :: "string list"
  mq_EventBus :: bool
  mq_RPC :: "string list"

record AsmModule =
  mo_Name :: string
  mo_Version :: string
  mo_Requirements :: ModuleRequirements
  mo_Evidence :: Evidence

record AsmRequirement =
  rq_Module :: string
  rq_Kind :: string
  rq_Name :: string
  rq_Evidence :: Evidence

record BootstrapTarget =
  tg_Name :: string
  tg_Applications :: "string list"
  tg_Modules :: "string list"
  tg_External :: "string list"
  tg_Internal :: "string list"
  tg_Evidence :: Evidence

record AsmPlan =
  as_SchemaVersion :: int
  as_Identity :: string
  as_Applications :: "AsmApplication list"
  as_ApplicationDependencies :: "Dependency list"
  as_ApplicationDependencyClosure :: "Dependency list"
  as_Operations :: "AsmOperation list"
  as_OperationDependencies :: "Dependency list"
  as_Modules :: "AsmModule list"
  as_ModuleDependencies :: "Dependency list"
  as_Requirements :: "AsmRequirement list"
  as_Targets :: "BootstrapTarget list"

record ApplicationInput =
  ai_ID :: string
  ai_Domain :: string
  ai_Name :: string
  ai_DependsOn :: "string list"
  ai_Capabilities :: "CapabilityRequirement list"
  ai_Evidence :: Evidence

record BindingInput =
  bi_Transport :: string
  bi_Index :: int
  bi_Evidence :: Evidence

record OperationInput =
  oi_ID :: string
  oi_Application :: string
  oi_RequiresOperations :: "string list"
  oi_Bindings :: "BindingInput list"
  oi_Evidence :: Evidence

record ModuleInput =
  mi_Name :: string
  mi_Version :: string
  mi_DependsOn :: "string list"
  mi_Requirements :: ModuleRequirements
  mi_Evidence :: Evidence

record AsmInput =
  in_Identity :: string
  in_Applications :: "ApplicationInput list"
  in_Operations :: "OperationInput list"
  in_Modules :: "ModuleInput list"

definition asm_SchemaVersion :: int where "asm_SchemaVersion = 1"
definition RootTarget :: string where "RootTarget = ''root''"
definition OwnershipCanonical :: string where "OwnershipCanonical = ''canonical''"
definition OwnershipReused :: string where "OwnershipReused = ''reused''"
definition OwnershipDerived :: string where "OwnershipDerived = ''derived''"
definition OwnershipRuntimeLocal :: string where "OwnershipRuntimeLocal = ''runtime_local''"

section \<open>Normalisation\<close>

definition lower_char :: "char \<Rightarrow> char" where
  "lower_char c = (if is_upper c then char_of (of_char c + 32 :: nat) else c)"

definition to_lower :: "string \<Rightarrow> string" where
  "to_lower s = map lower_char s"

definition normalizeEvidence :: "Evidence \<Rightarrow> Evidence" where
  "normalizeEvidence e = \<lparr>ev_Ownership = trim_space (ev_Ownership e), ev_Source = trim_space (ev_Source e), ev_Ref = trim_space (ev_Ref e)\<rparr>"

definition normalize_capability :: "CapabilityRequirement \<Rightarrow> CapabilityRequirement" where
  "normalize_capability c =
     \<lparr>cr_Name = trim_space (cr_Name c), cr_Package = trim_space (cr_Package c), cr_Type = trim_space (cr_Type c),
      cr_Evidence = normalizeEvidence (cr_Evidence c)\<rparr>"

definition normalizeCapabilityRequirements :: "CapabilityRequirement list \<Rightarrow> CapabilityRequirement list" where
  "normalizeCapabilityRequirements values = sort_key (\<lambda>c. (cr_Name c, cr_Package c, cr_Type c)) (map normalize_capability values)"

definition normalize_dependency :: "Dependency \<Rightarrow> Dependency" where
  "normalize_dependency d = \<lparr>de_From = trim_space (de_From d), de_To = trim_space (de_To d), de_Evidence = normalizeEvidence (de_Evidence d)\<rparr>"

definition normalizeDependencies :: "Dependency list \<Rightarrow> Dependency list" where
  "normalizeDependencies values = sort_key (\<lambda>d. (de_From d, de_To d)) (map normalize_dependency values)"

definition normalize_application :: "AsmApplication \<Rightarrow> AsmApplication" where
  "normalize_application a =
     \<lparr>ap_ID = trim_space (ap_ID a), ap_Domain = trim_space (ap_Domain a), ap_Name = trim_space (ap_Name a),
      ap_Capabilities = normalizeCapabilityRequirements (ap_Capabilities a), ap_Evidence = normalizeEvidence (ap_Evidence a)\<rparr>"

definition normalize_binding :: "BindingReference \<Rightarrow> BindingReference" where
  "normalize_binding b =
     \<lparr>br_OperationID = trim_space (br_OperationID b), br_Transport = to_lower (trim_space (br_Transport b)), br_Index = br_Index b,
      br_Evidence = normalizeEvidence (br_Evidence b)\<rparr>"

definition normalize_operation :: "AsmOperation \<Rightarrow> AsmOperation" where
  "normalize_operation p =
     \<lparr>ao_ID = trim_space (ao_ID p), ao_Application = trim_space (ao_Application p),
      ao_Bindings = sort_key (\<lambda>b. (br_Transport b, br_Index b)) (map normalize_binding (ao_Bindings p)),
      ao_Evidence = normalizeEvidence (ao_Evidence p)\<rparr>"

definition normalize_module_requirements :: "ModuleRequirements \<Rightarrow> ModuleRequirements" where
  "normalize_module_requirements q =
     q\<lparr>mq_ConfigKey := trim_space (mq_ConfigKey q), mq_Databases := stableStrings (mq_Databases q), mq_RPC := stableStrings (mq_RPC q)\<rparr>"

definition normalize_module :: "AsmModule \<Rightarrow> AsmModule" where
  "normalize_module m =
     \<lparr>mo_Name = trim_space (mo_Name m), mo_Version = trim_space (mo_Version m),
      mo_Requirements = normalize_module_requirements (mo_Requirements m), mo_Evidence = normalizeEvidence (mo_Evidence m)\<rparr>"

definition normalize_requirement :: "AsmRequirement \<Rightarrow> AsmRequirement" where
  "normalize_requirement r =
     \<lparr>rq_Module = trim_space (rq_Module r), rq_Kind = to_lower (trim_space (rq_Kind r)), rq_Name = trim_space (rq_Name r),
      rq_Evidence = normalizeEvidence (rq_Evidence r)\<rparr>"

definition normalizeRequirements :: "AsmRequirement list \<Rightarrow> AsmRequirement list" where
  "normalizeRequirements values = sort_key (\<lambda>r. (rq_Module r, rq_Kind r, rq_Name r)) (map normalize_requirement values)"

definition normalize_target :: "BootstrapTarget \<Rightarrow> BootstrapTarget" where
  "normalize_target t =
     \<lparr>tg_Name = trim_space (tg_Name t), tg_Applications = stableStrings (tg_Applications t), tg_Modules = stableStrings (tg_Modules t),
      tg_External = stableStrings (tg_External t), tg_Internal = stableStrings (tg_Internal t), tg_Evidence = normalizeEvidence (tg_Evidence t)\<rparr>"

definition asm_Normalize :: "AsmPlan \<Rightarrow> AsmPlan" where
  "asm_Normalize p =
     \<lparr>as_SchemaVersion = (if as_SchemaVersion p = 0 then asm_SchemaVersion else as_SchemaVersion p),
      as_Identity = trim_space (as_Identity p),
      as_Applications = sort_key ap_ID (map normalize_application (as_Applications p)),
      as_ApplicationDependencies = normalizeDependencies (as_ApplicationDependencies p),
      as_ApplicationDependencyClosure = normalizeDependencies (as_ApplicationDependencyClosure p),
      as_Operations = sort_key ao_ID (map normalize_operation (as_Operations p)),
      as_OperationDependencies = normalizeDependencies (as_OperationDependencies p),
      as_Modules = sort_key mo_Name (map normalize_module (as_Modules p)),
      as_ModuleDependencies = normalizeDependencies (as_ModuleDependencies p),
      as_Requirements = normalizeRequirements (as_Requirements p),
      as_Targets = sort_key tg_Name (map normalize_target (as_Targets p))\<rparr>"

definition normalize_application_input :: "ApplicationInput \<Rightarrow> ApplicationInput" where
  "normalize_application_input a =
     \<lparr>ai_ID = trim_space (ai_ID a), ai_Domain = trim_space (ai_Domain a), ai_Name = trim_space (ai_Name a),
      ai_DependsOn = stableStrings (ai_DependsOn a), ai_Capabilities = normalizeCapabilityRequirements (ai_Capabilities a),
      ai_Evidence = normalizeEvidence (ai_Evidence a)\<rparr>"

definition normalize_binding_input :: "BindingInput \<Rightarrow> BindingInput" where
  "normalize_binding_input b =
     \<lparr>bi_Transport = to_lower (trim_space (bi_Transport b)), bi_Index = bi_Index b, bi_Evidence = normalizeEvidence (bi_Evidence b)\<rparr>"

definition normalize_operation_input :: "OperationInput \<Rightarrow> OperationInput" where
  "normalize_operation_input p =
     \<lparr>oi_ID = trim_space (oi_ID p), oi_Application = trim_space (oi_Application p),
      oi_RequiresOperations = stableStrings (oi_RequiresOperations p),
      oi_Bindings = sort_key (\<lambda>b. (bi_Transport b, bi_Index b)) (map normalize_binding_input (oi_Bindings p)),
      oi_Evidence = normalizeEvidence (oi_Evidence p)\<rparr>"

definition normalize_module_input :: "ModuleInput \<Rightarrow> ModuleInput" where
  "normalize_module_input m =
     \<lparr>mi_Name = trim_space (mi_Name m), mi_Version = trim_space (mi_Version m), mi_DependsOn = stableStrings (mi_DependsOn m),
      mi_Requirements = normalize_module_requirements (mi_Requirements m), mi_Evidence = normalizeEvidence (mi_Evidence m)\<rparr>"

definition normalizeInput :: "AsmInput \<Rightarrow> AsmInput" where
  "normalizeInput i =
     \<lparr>in_Identity = trim_space (in_Identity i),
      in_Applications = sort_key ai_ID (map normalize_application_input (in_Applications i)),
      in_Operations = sort_key oi_ID (map normalize_operation_input (in_Operations i)),
      in_Modules = sort_key mi_Name (map normalize_module_input (in_Modules i))\<rparr>"

section \<open>Derived parts\<close>

text \<open>The adjacency lists of a map from a node to its direct dependencies, in the order of the edges.\<close>

definition add_edge :: "Dependency \<Rightarrow> (string \<times> string list) list \<Rightarrow> (string \<times> string list) list" where
  "add_edge edge adjacency = AList.update (de_From edge) (getl adjacency (de_From edge) @ [de_To edge]) adjacency"

definition stable_adjacency :: "(string \<times> string list) list \<Rightarrow> string \<Rightarrow> string list" where
  "stable_adjacency adjacency = getl (map (\<lambda>(node, next). (node, stableStrings next)) adjacency)"

text \<open>The closure \<open>visit\<close> of \<open>dependencyClosure\<close>, with a bound on its depth.\<close>

fun closure_visit :: "nat \<Rightarrow> (string \<Rightarrow> string list) \<Rightarrow> string \<Rightarrow> string list \<Rightarrow> string list option"
  and closure_visit_all :: "nat \<Rightarrow> (string \<Rightarrow> string list) \<Rightarrow> string list \<Rightarrow> string list \<Rightarrow> string list option" where
  "closure_visit 0 adj current visited = None"
| "closure_visit (Suc k) adj current visited = closure_visit_all k adj (adj current) visited"
| "closure_visit_all k adj [] visited = Some visited"
| "closure_visit_all k adj (n # ns) visited =
     (if n \<in> set visited then closure_visit_all k adj ns visited
      else case closure_visit k adj n (visited @ [n]) of
             None \<Rightarrow> None
           | Some visited' \<Rightarrow> closure_visit_all k adj ns visited')"

definition closure_nodes :: "Dependency list \<Rightarrow> string list" where
  "closure_nodes deps = sort (remdups (concat (map (\<lambda>e. [de_From e, de_To e]) deps)))"

definition closure_edge :: "string \<Rightarrow> string \<Rightarrow> string \<Rightarrow> Dependency" where
  "closure_edge source from to =
     \<lparr>de_From = from, de_To = to,
      de_Evidence = \<lparr>ev_Ownership = OwnershipDerived, ev_Source = source, ev_Ref = from @ ''->'' @ to\<rparr>\<rparr>"

definition closure_from :: "(string \<Rightarrow> string list) \<Rightarrow> string list \<Rightarrow> string \<Rightarrow> string \<Rightarrow> Dependency list" where
  "closure_from adj ids source from =
     (case closure_visit (length ids + 2) adj from [] of
        None \<Rightarrow> []
      | Some visited \<Rightarrow> map (closure_edge source from) (filter (\<lambda>to. to \<noteq> from) visited))"

definition dependencyClosure :: "Dependency list \<Rightarrow> string \<Rightarrow> Dependency list" where
  "dependencyClosure direct source =
     (let deps = normalizeDependencies direct;
          adj = stable_adjacency (fold add_edge deps []);
          ids = closure_nodes deps
      in normalizeDependencies (concat (map (closure_from adj ids source) ids)))"

definition asm_firstCycle :: "Dependency list \<Rightarrow> string list \<Rightarrow> string list option" where
  "asm_firstCycle dependencies nodes =
     (let adjacency = fold add_edge dependencies (fold (\<lambda>node. AList.update node []) nodes [])
      in search_cycle (length adjacency + 1) (stable_adjacency adjacency) (stableStrings nodes))"

definition base_requirement :: "AsmModule \<Rightarrow> string \<Rightarrow> string \<Rightarrow> string \<Rightarrow> AsmRequirement" where
  "base_requirement m kind name ref =
     \<lparr>rq_Module = mo_Name m, rq_Kind = kind, rq_Name = name,
      rq_Evidence = \<lparr>ev_Ownership = OwnershipReused, ev_Source = ev_Source (mo_Evidence m), ev_Ref = ev_Ref (mo_Evidence m) @ ref\<rparr>\<rparr>"

definition requirementsForModule :: "AsmModule \<Rightarrow> AsmRequirement list" where
  "requirementsForModule m =
     (let q = mo_Requirements m in
      normalizeRequirements
        ((if mq_ConfigKey q \<noteq> [] then [base_requirement m ''config'' (mq_ConfigKey q) ''/requirements/configKey''] else []) @
         (if mq_Logger q then [base_requirement m ''logger'' [] ''/requirements/logger''] else []) @
         map (\<lambda>d. base_requirement m ''database'' d (''/requirements/databases/'' @ d)) (stableStrings (mq_Databases q)) @
         (if mq_EventBus q then [base_requirement m ''event_bus'' [] ''/requirements/eventBus''] else []) @
         map (\<lambda>r. base_requirement m ''rpc'' r (''/requirements/rpc/'' @ r)) (stableStrings (mq_RPC q))))"

definition deriveRootTarget :: "AsmPlan \<Rightarrow> BootstrapTarget" where
  "deriveRootTarget p =
     \<lparr>tg_Name = RootTarget,
      tg_Applications = stableStrings (map ap_ID (as_Applications p)),
      tg_Modules = stableStrings (map mo_Name (as_Modules p)),
      tg_External = stableStrings (map ao_ID (filter (\<lambda>x. ao_Bindings x \<noteq> []) (as_Operations p))),
      tg_Internal = stableStrings (map ao_ID (filter (\<lambda>x. ao_Bindings x = []) (as_Operations p))),
      tg_Evidence = \<lparr>ev_Ownership = OwnershipDerived, ev_Source = ''assemblyplan'', ev_Ref = ''targets/root''\<rparr>\<rparr>"

section \<open>Validation\<close>

definition validateEvidence :: "Evidence \<Rightarrow> string \<Rightarrow> goerr option" where
  "validateEvidence e owner =
     (if ev_Ownership e \<notin> {OwnershipCanonical, OwnershipReused, OwnershipDerived, OwnershipRuntimeLocal}
      then Some (Err ''assemblyplan: %s has invalid evidence ownership %q'' [owner, ev_Ownership e])
      else if ev_Source e = [] \<or> ev_Ref e = [] then Some (Err ''assemblyplan: %s requires evidence source and ref'' [owner])
      else None)"

text \<open>A loop that keeps what it has seen and returns the first error.\<close>

fun check_all :: "('a list \<Rightarrow> 'a \<Rightarrow> goerr option) \<Rightarrow> 'a list \<Rightarrow> 'a list \<Rightarrow> goerr option" where
  "check_all err seen [] = None"
| "check_all err seen (x # xs) = (case err seen x of Some e \<Rightarrow> Some e | None \<Rightarrow> check_all err (seen @ [x]) xs)"

definition bad_package :: "string \<Rightarrow> bool" where
  "bad_package p \<longleftrightarrow> p = [] \<or> list_ex (\<lambda>c. c \<in> {CHR '' '', CHR 0x09, CHR 0x0D, CHR 0x0A}) p \<or> hd p = CHR ''.'' \<or> last p = CHR ''/''"

definition capability_error :: "string \<Rightarrow> CapabilityRequirement list \<Rightarrow> CapabilityRequirement \<Rightarrow> goerr option" where
  "capability_error application seen v =
     (if \<not> capabilityNamePattern (cr_Name v)
      then Some (Err ''assemblyplan: application %s has invalid capability name %q'' [application, cr_Name v])
      else if bad_package (cr_Package v)
      then Some (Err ''assemblyplan: application %s capability %q has invalid package %q'' [application, cr_Name v, cr_Package v])
      else if \<not> capabilityTypePattern (cr_Type v)
      then Some (Err ''assemblyplan: application %s capability %q has invalid type %q'' [application, cr_Name v, cr_Type v])
      else case find (\<lambda>previous. cr_Name previous = cr_Name v) seen of
        Some previous \<Rightarrow>
          if cr_Package previous = cr_Package v \<and> cr_Type previous = cr_Type v
          then Some (Err ''assemblyplan: application %s has duplicate capability %q'' [application, cr_Name v])
          else Some (Err ''assemblyplan: application %s capability %q has conflicting contracts'' [application, cr_Name v])
      | None \<Rightarrow> validateEvidence (cr_Evidence v) (''application capability '' @ application @ ''/'' @ cr_Name v))"

definition validateCapabilityRequirements :: "string \<Rightarrow> CapabilityRequirement list \<Rightarrow> goerr option" where
  "validateCapabilityRequirements application values = check_all (capability_error application) [] (normalizeCapabilityRequirements values)"

definition application_error :: "AsmApplication list \<Rightarrow> AsmApplication \<Rightarrow> goerr option" where
  "application_error seen a =
     (if ap_ID a = [] \<or> ap_Domain a = [] \<or> ap_Name a = [] then Some (Err ''assemblyplan: application id, domain, and name are required'' [])
      else if ap_ID a \<noteq> ap_Domain a @ ''/'' @ ap_Name a
      then Some (Err ''assemblyplan: application %s does not match domain/name %s/%s'' [ap_ID a, ap_Domain a, ap_Name a])
      else if ap_ID a \<in> ap_ID ` set seen then Some (Err ''assemblyplan: duplicate application %s'' [ap_ID a])
      else case validateCapabilityRequirements (ap_ID a) (ap_Capabilities a) of
        Some e \<Rightarrow> Some e
      | None \<Rightarrow> validateEvidence (ap_Evidence a) (''application '' @ ap_ID a))"

definition dependency_key :: "Dependency \<Rightarrow> string" where
  "dependency_key d = de_From d @ [CHR 0x00] @ de_To d"

definition dependency_error :: "string \<Rightarrow> string list \<Rightarrow> Dependency list \<Rightarrow> Dependency \<Rightarrow> goerr option" where
  "dependency_error kind nodes seen d =
     (if de_From d \<notin> set nodes then Some (Err ''assemblyplan: %s dependency has unknown source %s'' [kind, de_From d])
      else if de_To d \<notin> set nodes then Some (Err ''assemblyplan: %s %s requires unknown %s %s'' [kind, de_From d, kind, de_To d])
      else if de_From d = de_To d then Some (Err ''assemblyplan: %s %s cannot depend on itself'' [kind, de_From d])
      else if dependency_key d \<in> dependency_key ` set seen
      then Some (Err ''assemblyplan: duplicate %s dependency %s -> %s'' [kind, de_From d, de_To d])
      else validateEvidence (de_Evidence d) (kind @ '' dependency '' @ de_From d @ '' -> '' @ de_To d))"

definition validateDependencies :: "string \<Rightarrow> Dependency list \<Rightarrow> string list \<Rightarrow> goerr option" where
  "validateDependencies kind dependencies nodes = check_all (dependency_error kind nodes) [] (normalizeDependencies dependencies)"

text \<open>The two checks of a dependency graph. The bound of the search is never reached (lemma \<open>asm_firstCycle_correct\<close>).\<close>

definition graph_error :: "string \<Rightarrow> Dependency list \<Rightarrow> string list \<Rightarrow> goerr option" where
  "graph_error kind dependencies nodes =
     (case validateDependencies kind dependencies nodes of
        Some e \<Rightarrow> Some e
      | None \<Rightarrow>
        (case asm_firstCycle dependencies nodes of
           None \<Rightarrow> Some (Err ''assemblyplan: depth bound reached'' [])
         | Some cycle \<Rightarrow>
           if cycle \<noteq> [] then Some (Err ''assemblyplan: %s dependency cycle: %s'' [kind, join_strings '' -> '' cycle]) else None))"

text \<open>\<open>strconv.Itoa\<close> of a number that is not negative.\<close>

function itoa :: "nat \<Rightarrow> string" where
  "itoa n = (if n < 10 then [char_of (48 + n)] else itoa (n div 10) @ [char_of (48 + n mod 10)])"
  by pat_completeness auto
termination by (relation "measure id") auto

declare itoa.simps [simp del]

definition binding_key :: "BindingReference \<Rightarrow> string" where
  "binding_key b = br_Transport b @ '':'' @ itoa (nat (br_Index b))"

definition binding_error :: "string \<Rightarrow> BindingReference list \<Rightarrow> BindingReference \<Rightarrow> goerr option" where
  "binding_error oid seen b =
     (if br_OperationID b \<noteq> oid then Some (Err ''assemblyplan: binding operation %s does not match owner %s'' [br_OperationID b, oid])
      else if br_Index b < 0 then Some (Err ''assemblyplan: operation %s has negative binding index'' [oid])
      else if br_Transport b \<notin> {''http'', ''rpc''} then Some (Err ''assemblyplan: operation %s has unsupported transport %q'' [oid, br_Transport b])
      else if binding_key b \<in> binding_key ` set seen then Some (Err ''assemblyplan: operation %s has duplicate binding %s'' [oid, binding_key b])
      else validateEvidence (br_Evidence b) (''binding '' @ oid @ ''/'' @ binding_key b))"

definition operation_error :: "string list \<Rightarrow> AsmOperation list \<Rightarrow> AsmOperation \<Rightarrow> goerr option" where
  "operation_error applications seen p =
     (if ao_ID p = [] then Some (Err ''assemblyplan: operation id is required'' [])
      else if ao_ID p \<in> ao_ID ` set seen then Some (Err ''assemblyplan: duplicate operation %s'' [ao_ID p])
      else if ao_Application p \<notin> set applications
      then Some (Err ''assemblyplan: operation %s references unknown application %s'' [ao_ID p, ao_Application p])
      else case validateEvidence (ao_Evidence p) (''operation '' @ ao_ID p) of
        Some e \<Rightarrow> Some e
      | None \<Rightarrow> check_all (binding_error (ao_ID p)) [] (ao_Bindings p))"

definition module_error :: "AsmModule list \<Rightarrow> AsmModule \<Rightarrow> goerr option" where
  "module_error seen m =
     (if mo_Name m = [] then Some (Err ''assemblyplan: module name is required'' [])
      else if mo_Name m \<in> mo_Name ` set seen then Some (Err ''assemblyplan: duplicate module %s'' [mo_Name m])
      else validateEvidence (mo_Evidence m) (''module '' @ mo_Name m))"

definition validateRequirement :: "AsmRequirement \<Rightarrow> goerr option" where
  "validateRequirement r =
     (let evidence = validateEvidence (rq_Evidence r) (''requirement '' @ rq_Module r @ ''/'' @ rq_Kind r) in
      if rq_Kind r \<in> {''config'', ''database'', ''rpc''} then
        (if rq_Name r = [] then Some (Err ''assemblyplan: %s requirement for module %s requires a name'' [rq_Kind r, rq_Module r]) else evidence)
      else if rq_Kind r \<in> {''logger'', ''event_bus''} then
        (if rq_Name r \<noteq> [] then Some (Err ''assemblyplan: %s requirement for module %s must not carry a name'' [rq_Kind r, rq_Module r]) else evidence)
      else Some (Err ''assemblyplan: module %s has unsupported requirement kind %q'' [rq_Module r, rq_Kind r]))"

definition requirement_inventory_error :: "string list \<Rightarrow> AsmRequirement \<Rightarrow> goerr option" where
  "requirement_inventory_error modules r =
     (if rq_Module r \<notin> set modules then Some (Err ''assemblyplan: requirement references unknown module %s'' [rq_Module r])
      else validateRequirement r)"

text \<open>The comparisons of the code are on the JSON text.\<close>

definition evidence_text :: "Evidence \<Rightarrow> (nat \<times> nat) list \<times> (nat \<times> nat) list \<times> (nat \<times> nat) list" where
  "evidence_text e = (runes (ev_Ownership e), runes (ev_Source e), runes (ev_Ref e))"

definition dependency_text :: "Dependency \<Rightarrow> (nat \<times> nat) list \<times> (nat \<times> nat) list \<times> (nat \<times> nat) list \<times> (nat \<times> nat) list \<times> (nat \<times> nat) list" where
  "dependency_text d = (runes (de_From d), runes (de_To d), evidence_text (de_Evidence d))"

definition requirement_text ::
  "AsmRequirement \<Rightarrow> (nat \<times> nat) list \<times> (nat \<times> nat) list \<times> (nat \<times> nat) list \<times> (nat \<times> nat) list \<times> (nat \<times> nat) list \<times> (nat \<times> nat) list" where
  "requirement_text r = (runes (rq_Module r), runes (rq_Kind r), runes (rq_Name r), evidence_text (rq_Evidence r))"

definition equalDependencies :: "Dependency list \<Rightarrow> Dependency list \<Rightarrow> bool" where
  "equalDependencies left right = (map dependency_text (normalizeDependencies left) = map dependency_text (normalizeDependencies right))"

definition equalRequirements :: "AsmRequirement list \<Rightarrow> AsmRequirement list \<Rightarrow> bool" where
  "equalRequirements left right = (map requirement_text (normalizeRequirements left) = map requirement_text (normalizeRequirements right))"

definition strings_equal :: "string list \<Rightarrow> string list \<Rightarrow> bool" where
  "strings_equal left right = (map runes (stableStrings left) = map runes (stableStrings right))"

definition equalTarget :: "BootstrapTarget \<Rightarrow> BootstrapTarget \<Rightarrow> bool" where
  "equalTarget left right \<longleftrightarrow>
     runes (tg_Name left) = runes (tg_Name right) \<and> strings_equal (tg_Applications left) (tg_Applications right) \<and>
     strings_equal (tg_Modules left) (tg_Modules right) \<and> strings_equal (tg_External left) (tg_External right) \<and>
     strings_equal (tg_Internal left) (tg_Internal right) \<and>
     evidence_text (normalizeEvidence (tg_Evidence left)) = evidence_text (normalizeEvidence (tg_Evidence right))"

definition closure_source :: string where "closure_source = ''application-dependency-closure''"

text \<open>\<open>Validate\<close> after its normalisation; the maps of the code hold the ids of the lists that passed.\<close>

definition validate_assembly :: "AsmPlan \<Rightarrow> goerr option" where
  "validate_assembly p =
     (let applications = sort (map ap_ID (as_Applications p)); operations = sort (map ao_ID (as_Operations p)); modules = sort (map mo_Name (as_Modules p)) in
      if as_SchemaVersion p \<noteq> asm_SchemaVersion then Some (Err ''assemblyplan: unsupported schemaVersion %d'' [])
      else if as_Identity p = [] then Some (Err ''assemblyplan: identity is required'' [])
      else case check_all application_error [] (as_Applications p) of Some e \<Rightarrow> Some e | None \<Rightarrow>
      (case graph_error ''application'' (as_ApplicationDependencies p) applications of Some e \<Rightarrow> Some e | None \<Rightarrow>
      if \<not> equalDependencies (normalizeDependencies (dependencyClosure (as_ApplicationDependencies p) closure_source)) (as_ApplicationDependencyClosure p)
      then Some (Err ''assemblyplan: stale application dependency closure'' [])
      else case check_all (operation_error applications) [] (as_Operations p) of Some e \<Rightarrow> Some e | None \<Rightarrow>
      (case graph_error ''operation'' (as_OperationDependencies p) operations of Some e \<Rightarrow> Some e | None \<Rightarrow>
      (case check_all module_error [] (as_Modules p) of Some e \<Rightarrow> Some e | None \<Rightarrow>
      (case graph_error ''module'' (as_ModuleDependencies p) modules of Some e \<Rightarrow> Some e | None \<Rightarrow>
      if \<not> equalRequirements (normalizeRequirements (concat (map requirementsForModule (as_Modules p)))) (as_Requirements p)
      then Some (Err ''assemblyplan: module capability requirement inventory is stale or incomplete'' [])
      else case first_error (requirement_inventory_error modules) (as_Requirements p) of Some e \<Rightarrow> Some e | None \<Rightarrow>
      (case as_Targets p of
         [target] \<Rightarrow>
           if tg_Name target \<noteq> RootTarget then Some (Err ''assemblyplan: schema v1 requires exactly one %q bootstrap target'' [RootTarget])
           else if \<not> equalTarget (deriveRootTarget p) target then Some (Err ''assemblyplan: root bootstrap target is stale or incomplete'' [])
           else None
       | _ \<Rightarrow> Some (Err ''assemblyplan: schema v1 requires exactly one %q bootstrap target'' [RootTarget])))))))"

definition asm_Validate :: "AsmPlan \<Rightarrow> goerr option" where
  "asm_Validate p = validate_assembly (asm_Normalize p)"

section \<open>Compilation\<close>

definition input_dependency :: "string \<Rightarrow> string \<Rightarrow> Evidence \<Rightarrow> string \<Rightarrow> Dependency" where
  "input_dependency link from e to =
     \<lparr>de_From = from, de_To = to, de_Evidence = \<lparr>ev_Ownership = OwnershipReused, ev_Source = ev_Source e, ev_Ref = ev_Ref e @ link @ to\<rparr>\<rparr>"

definition compile_application :: "ApplicationInput \<Rightarrow> AsmApplication" where
  "compile_application a =
     \<lparr>ap_ID = ai_ID a, ap_Domain = ai_Domain a, ap_Name = ai_Name a, ap_Capabilities = ai_Capabilities a, ap_Evidence = ai_Evidence a\<rparr>"

definition compile_binding :: "string \<Rightarrow> BindingInput \<Rightarrow> BindingReference" where
  "compile_binding oid b = \<lparr>br_OperationID = oid, br_Transport = bi_Transport b, br_Index = bi_Index b, br_Evidence = bi_Evidence b\<rparr>"

definition compile_operation :: "OperationInput \<Rightarrow> AsmOperation" where
  "compile_operation p =
     \<lparr>ao_ID = oi_ID p, ao_Application = oi_Application p, ao_Bindings = map (compile_binding (oi_ID p)) (oi_Bindings p), ao_Evidence = oi_Evidence p\<rparr>"

definition compile_module :: "ModuleInput \<Rightarrow> AsmModule" where
  "compile_module m = \<lparr>mo_Name = mi_Name m, mo_Version = mi_Version m, mo_Requirements = mi_Requirements m, mo_Evidence = mi_Evidence m\<rparr>"

definition application_dependencies :: "ApplicationInput \<Rightarrow> Dependency list" where
  "application_dependencies a = map (input_dependency ''/requires/'' (ai_ID a) (ai_Evidence a)) (ai_DependsOn a)"

definition operation_dependencies :: "OperationInput \<Rightarrow> Dependency list" where
  "operation_dependencies p = map (input_dependency ''/requiresOperations/'' (oi_ID p) (oi_Evidence p)) (oi_RequiresOperations p)"

definition module_dependencies :: "ModuleInput \<Rightarrow> Dependency list" where
  "module_dependencies m = map (input_dependency ''/dependsOn/'' (mi_Name m) (mi_Evidence m)) (mi_DependsOn m)"

definition assemble :: "AsmInput \<Rightarrow> AsmPlan" where
  "assemble i =
     (let dependencies = concat (map application_dependencies (in_Applications i)); modules = map compile_module (in_Modules i) in
      \<lparr>as_SchemaVersion = asm_SchemaVersion, as_Identity = in_Identity i,
       as_Applications = map compile_application (in_Applications i),
       as_ApplicationDependencies = dependencies,
       as_ApplicationDependencyClosure = dependencyClosure dependencies closure_source,
       as_Operations = map compile_operation (in_Operations i),
       as_OperationDependencies = concat (map operation_dependencies (in_Operations i)),
       as_Modules = modules,
       as_ModuleDependencies = concat (map module_dependencies (in_Modules i)),
       as_Requirements = concat (map requirementsForModule modules),
       as_Targets = []\<rparr>)"

definition Compile :: "AsmInput \<Rightarrow> AsmPlan result" where
  "Compile input =
     (let i = normalizeInput input;
          i = (if in_Identity i = [] then i\<lparr>in_Identity := RootTarget\<rparr> else i);
          plan = asm_Normalize (assemble i);
          plan = asm_Normalize (plan\<lparr>as_Targets := [deriveRootTarget plan]\<rparr>)
      in case asm_Validate plan of Some e \<Rightarrow> Inl e | None \<Rightarrow> Inr plan)"

text \<open>\<open>json.MarshalIndent\<close> and sha256 are arguments.\<close>

definition CanonicalJSON :: "(AsmPlan \<Rightarrow> string result) \<Rightarrow> AsmPlan \<Rightarrow> string result" where
  "CanonicalJSON marshal p =
     (let p = asm_Normalize p in
      case asm_Validate p of
        Some e \<Rightarrow> Inl e
      | None \<Rightarrow> (case marshal p of Inl e \<Rightarrow> Inl e | Inr data \<Rightarrow> Inr (data @ [CHR 0x0A])))"

definition asm_Digest :: "(AsmPlan \<Rightarrow> string result) \<Rightarrow> (string \<Rightarrow> string) \<Rightarrow> AsmPlan \<Rightarrow> string result" where
  "asm_Digest marshal sha256 p = (case CanonicalJSON marshal p of Inl e \<Rightarrow> Inl e | Inr data \<Rightarrow> Inr (hex_encode (sha256 data)))"

record Summary =
  sm_Identity :: string
  sm_Applications :: "string list"
  sm_Modules :: "string list"
  sm_External :: "string list"
  sm_Internal :: "string list"
  sm_RequirementCount :: nat
  sm_ApplicationEdgeCount :: nat
  sm_OperationEdgeCount :: nat
  sm_ModuleEdgeCount :: nat

definition Inspect :: "AsmPlan \<Rightarrow> Summary result" where
  "Inspect p =
     (let p = asm_Normalize p in
      case asm_Validate p of
        Some e \<Rightarrow> Inl e
      | None \<Rightarrow>
        (let target = hd (as_Targets p) in
         Inr \<lparr>sm_Identity = as_Identity p, sm_Applications = tg_Applications target, sm_Modules = tg_Modules target,
              sm_External = tg_External target, sm_Internal = tg_Internal target, sm_RequirementCount = length (as_Requirements p),
              sm_ApplicationEdgeCount = length (as_ApplicationDependencies p), sm_OperationEdgeCount = length (as_OperationDependencies p),
              sm_ModuleEdgeCount = length (as_ModuleDependencies p)\<rparr>))"

section \<open>Normalisation is idempotent\<close>

lemma sort_map_idem: "(\<And>x. f (f x) = f x) \<Longrightarrow> sort_key k (map f (sort_key k (map f xs))) = sort_key k (map f xs)"
proof -
  assume f: "\<And>x. f (f x) = f x"
  have "map f (sort_key k (map f xs)) = sort_key k (map f xs)" by (rule map_idI) (auto simp: f)
  then show ?thesis by (simp add: sort_key_fixed)
qed

lemma stableStrings_Nil [simp]: "stableStrings [] = []"
  by (simp add: stableStrings_def)

lemma stableStrings_fixed: "sorted vs \<Longrightarrow> distinct vs \<Longrightarrow> \<forall>v \<in> set vs. trim_space v = v \<and> v \<noteq> [] \<Longrightarrow> stableStrings vs = vs"
  by (rule sorted_distinct_ex1) (auto simp: stableStrings_spec image_iff)

lemma stableStrings_sort: "distinct vs \<Longrightarrow> \<forall>v \<in> set vs. trim_space v = v \<and> v \<noteq> [] \<Longrightarrow> stableStrings vs = sort vs"
  by (rule sorted_distinct_ex1) (auto simp: stableStrings_spec image_iff)

text \<open>Lower case neither makes nor removes white space.\<close>

lemma lower_char_ws: "w \<in> set ws_encodings \<Longrightarrow> c \<in> set w \<Longrightarrow> lower_char d = c \<longleftrightarrow> d = c"
proof -
  assume "w \<in> set ws_encodings" "c \<in> set w"
  then have "\<not> is_upper c" "\<not> is_lower c" by (auto simp: ws_encodings_def is_upper_def is_lower_def less_eq_char_def)
  moreover have "is_upper d \<Longrightarrow> is_lower (lower_char d)"
    by (auto simp: lower_char_def is_upper_def is_lower_def less_eq_char_def)
  ultimately show ?thesis by (auto simp: lower_char_def)
qed

lemma map_lower_ws: "w \<in> set ws_encodings \<Longrightarrow> set v \<subseteq> set w \<Longrightarrow> map lower_char xs = v \<longleftrightarrow> xs = v"
proof -
  assume w: "w \<in> set ws_encodings" "set v \<subseteq> set w"
  have "lower_char d = d" if "d \<in> set xs" "map lower_char xs = v \<or> xs = v" for d
  proof -
    from that w(2) have "lower_char d \<in> set w \<or> d \<in> set w" by auto
    then show ?thesis using lower_char_ws [OF w(1), of "lower_char d" d] lower_char_ws [OF w(1), of d d] by auto
  qed
  then show ?thesis by (metis map_idI)
qed

lemma ws_prefix_lower: "ws_prefix (to_lower s) = ws_prefix s"
proof -
  have "find (\<lambda>w. take (length w) (to_lower s) = w) ws = find (\<lambda>w. take (length w) s = w) ws" if "set ws \<subseteq> set ws_encodings" for ws
    using that map_lower_ws [OF _ order_refl] by (induction ws) (auto simp: to_lower_def take_map)
  then show ?thesis by (simp add: ws_prefix_def)
qed

lemma ws_suffix_lower: "ws_suffix (to_lower s) = ws_suffix s"
proof -
  have "find (\<lambda>w. length w \<le> length s \<and> drop (length s - length w) (to_lower s) = w) ws =
      find (\<lambda>w. length w \<le> length s \<and> drop (length s - length w) s = w) ws" if "set ws \<subseteq> set ws_encodings" for ws
    using that map_lower_ws [OF _ order_refl] by (induction ws) (auto simp: to_lower_def drop_map)
  then show ?thesis by (simp add: ws_suffix_def to_lower_def)
qed

lemma trim_lower [simp]: "trim_space (to_lower (trim_space s)) = to_lower (trim_space s)"
  by (rule trim_space_fixed) (simp_all add: ws_prefix_lower ws_suffix_lower trim_space_ends)

lemma to_lower_idem [simp]: "to_lower (to_lower s) = to_lower s"
proof -
  have "lower_char (lower_char c) = lower_char c" for c
    by (auto simp: lower_char_def is_upper_def less_eq_char_def)
  then show ?thesis by (simp add: to_lower_def)
qed

lemma normal_items [simp]:
  "normalizeEvidence (normalizeEvidence e) = normalizeEvidence e"
  "normalize_dependency (normalize_dependency d) = normalize_dependency d"
  "normalize_capability (normalize_capability c) = normalize_capability c"
  "normalize_binding (normalize_binding b) = normalize_binding b"
  "normalize_requirement (normalize_requirement r) = normalize_requirement r"
  "normalize_module_requirements (normalize_module_requirements q) = normalize_module_requirements q"
  "normalize_target (normalize_target t) = normalize_target t"
  by (simp_all add: normalizeEvidence_def normalize_dependency_def normalize_capability_def normalize_binding_def normalize_requirement_def
      normalize_module_requirements_def normalize_target_def)

lemma normal_lists [simp]:
  "normalizeDependencies (normalizeDependencies ds) = normalizeDependencies ds"
  "normalizeCapabilityRequirements (normalizeCapabilityRequirements cs) = normalizeCapabilityRequirements cs"
  "normalizeRequirements (normalizeRequirements rs) = normalizeRequirements rs"
  unfolding normalizeDependencies_def normalizeCapabilityRequirements_def normalizeRequirements_def by (simp_all only: sort_map_idem normal_items)

lemma normal_entries [simp]:
  "normalize_application (normalize_application a) = normalize_application a"
  "normalize_operation (normalize_operation p) = normalize_operation p"
  "normalize_module (normalize_module m) = normalize_module m"
  by (simp_all add: normalize_application_def normalize_operation_def normalize_module_def sort_map_idem)

lemma asm_Normalize_idem [simp]: "asm_Normalize (asm_Normalize p) = asm_Normalize p"
  by (simp add: asm_Normalize_def sort_map_idem asm_SchemaVersion_def)

section \<open>The closure of the dependencies\<close>

lemma closure_visit_grows:
  "closure_visit k adj x vis = Some vis' \<Longrightarrow> set vis \<subseteq> set vis'"
  "closure_visit_all k adj ns vis = Some vis' \<Longrightarrow> set vis \<subseteq> set vis'"
  by (induction k adj x vis and k adj ns vis arbitrary: vis' and vis' rule: closure_visit_closure_visit_all.induct)
     (auto split: if_splits option.splits)

lemma closure_visit_closed:
  "closure_visit k adj x vis = Some vis' \<Longrightarrow> set (adj x) \<subseteq> set vis' \<and> (\<forall>y \<in> set vis' - set vis. set (adj y) \<subseteq> set vis')"
  "closure_visit_all k adj ns vis = Some vis' \<Longrightarrow> set ns \<subseteq> set vis' \<and> (\<forall>y \<in> set vis' - set vis. set (adj y) \<subseteq> set vis')"
proof (induction k adj x vis and k adj ns vis arbitrary: vis' and vis' rule: closure_visit_closure_visit_all.induct)
  case (4 k adj n ns vis)
  show ?case
  proof (cases "n \<in> set vis")
    case True
    with 4(1) [OF True] 4(4) closure_visit_grows(2) [of k adj ns vis vis'] show ?thesis by auto
  next
    case False
    with 4(4) obtain vis1 where v: "closure_visit k adj n (vis @ [n]) = Some vis1" "closure_visit_all k adj ns vis1 = Some vis'"
      by (auto split: option.splits)
    have g: "insert n (set vis) \<subseteq> set vis1" "set vis1 \<subseteq> set vis'"
      using closure_visit_grows(1) [OF v(1)] closure_visit_grows(2) [OF v(2)] by auto
    have one: "set (adj n) \<subseteq> set vis1" "\<forall>y \<in> set vis1 - insert n (set vis). set (adj y) \<subseteq> set vis1" using 4(2) [OF False v(1)] by auto
    have two: "set ns \<subseteq> set vis'" "\<forall>y \<in> set vis' - set vis1. set (adj y) \<subseteq> set vis'" using 4(3) [OF False v] by auto
    have "set (adj y) \<subseteq> set vis'" if "y \<in> set vis'" "y \<notin> set vis" for y
      using that one two g by (cases "y \<in> set vis1"; cases "y = n") blast+
    with two(1) g show ?thesis by auto
  qed
qed auto

lemma closure_visit_sound:
  "closure_visit k adj x vis = Some vis' \<Longrightarrow> set vis' \<subseteq> set vis \<union> {y. (x, y) \<in> (succs adj)\<^sup>+}"
  "closure_visit_all k adj ns vis = Some vis' \<Longrightarrow> set vis' \<subseteq> set vis \<union> {y. \<exists>n \<in> set ns. (n, y) \<in> (succs adj)\<^sup>*}"
proof (induction k adj x vis and k adj ns vis arbitrary: vis' and vis' rule: closure_visit_closure_visit_all.induct)
  case (2 k adj x vis)
  then have "set vis' \<subseteq> set vis \<union> {y. \<exists>n \<in> set (adj x). (n, y) \<in> (succs adj)\<^sup>*}" by simp
  moreover have "(x, y) \<in> (succs adj)\<^sup>+" if "n \<in> set (adj x)" "(n, y) \<in> (succs adj)\<^sup>*" for n y
    using that by (intro rtrancl_into_trancl2 [of x n]) (simp_all add: succs_def)
  ultimately show ?case by blast
next
  case (4 k adj n ns vis)
  show ?case
  proof (cases "n \<in> set vis")
    case True
    with 4(1) [OF True] 4(4) show ?thesis by auto
  next
    case False
    with 4(4) obtain vis1 where v: "closure_visit k adj n (vis @ [n]) = Some vis1" "closure_visit_all k adj ns vis1 = Some vis'"
      by (auto split: option.splits)
    have "set vis1 \<subseteq> set vis \<union> {y. (n, y) \<in> (succs adj)\<^sup>*}" using 4(2) [OF False v(1)] by (auto dest: trancl_into_rtrancl)
    with 4(3) [OF False v] show ?thesis by auto
  qed
qed auto

lemma closure_visit_distinct:
  "closure_visit k adj x vis = Some vis' \<Longrightarrow> distinct vis \<Longrightarrow> distinct vis'"
  "closure_visit_all k adj ns vis = Some vis' \<Longrightarrow> distinct vis \<Longrightarrow> distinct vis'"
  by (induction k adj x vis and k adj ns vis arbitrary: vis' and vis' rule: closure_visit_closure_visit_all.induct)
     (auto split: if_splits option.splits)

lemma closure_visit_returns:
  "\<forall>x. set (adj x) \<subseteq> set ids \<Longrightarrow> card (set ids - set vis) < k \<Longrightarrow> \<exists>vis'. closure_visit k adj x vis = Some vis'"
  "\<forall>x. set (adj x) \<subseteq> set ids \<Longrightarrow> set ns \<subseteq> set ids \<Longrightarrow> card (set ids - set vis) \<le> k \<Longrightarrow> \<exists>vis'. closure_visit_all k adj ns vis = Some vis'"
proof (induction k adj x vis and k adj ns vis rule: closure_visit_closure_visit_all.induct)
  case (4 k adj n ns vis)
  show ?case
  proof (cases "n \<in> set vis")
    case True
    with 4(1) [OF True] 4(4-6) show ?thesis by simp
  next
    case False
    have "set ids - set (vis @ [n]) \<subset> set ids - set vis" using False 4(5) by auto
    then have less: "card (set ids - set (vis @ [n])) < card (set ids - set vis)" by (intro psubset_card_mono) auto
    then obtain vis1 where v: "closure_visit k adj n (vis @ [n]) = Some vis1" using 4(2) [OF False 4(4)] 4(6) by auto
    have "card (set ids - set vis1) \<le> card (set ids - set vis)"
      using closure_visit_grows(1) [OF v] by (intro card_mono) auto
    with 4(3) [OF False v 4(4)] 4(5,6) False v show ?thesis by simp
  qed
qed auto

lemma closure_visit_exact:
  assumes "\<forall>x. set (adj x) \<subseteq> set ids"
  shows "\<exists>vis. closure_visit (length ids + 2) adj x [] = Some vis \<and> set vis = {y. (x, y) \<in> (succs adj)\<^sup>+} \<and> distinct vis"
proof -
  have "card (set ids - set []) < length ids + 2" using card_length [of ids] by simp
  from closure_visit_returns(1) [OF assms this] obtain vis where v: "closure_visit (length ids + 2) adj x [] = Some vis" by blast
  have "y \<in> set vis" if "(x, y) \<in> (succs adj)\<^sup>+" for y
    using that closure_visit_closed(1) [OF v] by (induction rule: trancl_induct) (auto simp: succs_def)
  with closure_visit_sound(1) [OF v] closure_visit_distinct(1) [OF v] v show ?thesis by auto
qed

lemma getl_fold_edge: "getl (fold add_edge deps m) x = getl m x @ map de_To (filter (\<lambda>d. de_From d = x) deps)"
  by (induction deps arbitrary: m) (auto simp: add_edge_def)

lemma stable_adjacency_getl: "stable_adjacency m x = stableStrings (getl m x)"
  by (auto simp: stable_adjacency_def getl_def map_of_map split: option.splits)

text \<open>The relation that a list of dependencies declares. \<open>stableStrings\<close> drops an empty target.\<close>

definition dependency_rel :: "Dependency list \<Rightarrow> (string \<times> string) set" where
  "dependency_rel deps = {ab \<in> (\<lambda>d. (trim_space (de_From d), trim_space (de_To d))) ` set deps. snd ab \<noteq> []}"

lemma set_normalizeDependencies [simp]: "set (normalizeDependencies deps) = normalize_dependency ` set deps"
  by (simp add: normalizeDependencies_def)

lemma normalize_dependency_fields [simp]:
  "de_From (normalize_dependency d) = trim_space (de_From d)" "de_To (normalize_dependency d) = trim_space (de_To d)"
  by (simp_all add: normalize_dependency_def)

lemma dependency_rel_normal [simp]: "dependency_rel (normalizeDependencies deps) = dependency_rel deps"
  by (simp add: dependency_rel_def image_image)

lemma succs_adjacency:
  assumes "\<And>d. d \<in> set deps \<Longrightarrow> trim_space (de_From d) = de_From d"
  shows "succs (stable_adjacency (fold add_edge deps [])) = dependency_rel deps"
  using assms by (force simp: succs_def stable_adjacency_getl getl_fold_edge stableStrings_spec(2) dependency_rel_def)

lemma closure_from_pairs:
  assumes "\<forall>x. set (adj x) \<subseteq> set ids"
  shows "(\<lambda>d. (de_From d, de_To d)) ` set (closure_from adj ids source x) = {x} \<times> {y. (x, y) \<in> (succs adj)\<^sup>+ \<and> y \<noteq> x}"
proof -
  from closure_visit_exact [OF assms, of x] obtain vis where v: "closure_visit (length ids + 2) adj x [] = Some vis"
    "set vis = {y. (x, y) \<in> (succs adj)\<^sup>+}" by blast
  then have "(\<lambda>d. (de_From d, de_To d)) ` set (closure_from adj ids source x) = Pair x ` {y \<in> set vis. y \<noteq> x}"
    by (simp add: closure_from_def closure_edge_def image_image)
  then show ?thesis unfolding v(2) by auto
qed

lemma dependencyClosure_pairs:
  "(\<lambda>d. (de_From d, de_To d)) ` set (dependencyClosure direct source) = {(a, b). (a, b) \<in> (dependency_rel direct)\<^sup>+ \<and> a \<noteq> b}"
proof -
  define deps where "deps = normalizeDependencies direct"
  define adj where "adj = stable_adjacency (fold add_edge deps [])"
  define ids where "ids = closure_nodes deps"
  have trimmed: "trim_space (de_From d) = de_From d \<and> trim_space (de_To d) = de_To d" if "d \<in> set deps" for d
    using that by (auto simp: deps_def)
  have rel: "succs adj = dependency_rel direct"
    unfolding adj_def by (subst succs_adjacency) (use trimmed in \<open>auto simp: deps_def\<close>)
  have ids: "set ids = de_From ` set deps \<union> de_To ` set deps" by (auto simp: ids_def closure_nodes_def)
  have sub: "\<forall>x. set (adj x) \<subseteq> set ids"
    using trimmed by (fastforce simp: adj_def stable_adjacency_getl getl_fold_edge stableStrings_spec(2) ids)
  have field: "a \<in> set ids \<and> trim_space a = a \<and> trim_space b = b" if "(a, b) \<in> dependency_rel direct" for a b
    using that by (auto simp: ids deps_def dependency_rel_def image_image)
  then have trancl: "a \<in> set ids \<and> trim_space a = a \<and> trim_space b = b" if "(a, b) \<in> (dependency_rel direct)\<^sup>+" for a b
    using that by (meson tranclD tranclD2)
  let ?raw = "concat (map (closure_from adj ids source) ids)"
  have raw: "(\<lambda>d. (de_From d, de_To d)) ` set ?raw = {(a, b). (a, b) \<in> (dependency_rel direct)\<^sup>+ \<and> a \<noteq> b}"
    using closure_from_pairs [OF sub, of source] trancl by (auto simp: rel image_UN)
  then have "(\<lambda>d. (trim_space (de_From d), trim_space (de_To d))) ` set ?raw = {(a, b). (a, b) \<in> (dependency_rel direct)\<^sup>+ \<and> a \<noteq> b}"
    (is "?f ` _ = ?P")
  proof -
    have "?f d = (de_From d, de_To d)" if "d \<in> set ?raw" for d
      using that raw trancl [of "de_From d" "de_To d"] by (auto simp: set_eq_iff image_iff)
    then have "?f ` set ?raw = (\<lambda>d. (de_From d, de_To d)) ` set ?raw" by (intro image_cong) auto
    with raw show ?thesis by simp
  qed
  then show ?thesis unfolding dependencyClosure_def Let_def deps_def [symmetric] adj_def [symmetric] ids_def [symmetric] by (simp add: image_image)
qed

section \<open>What the checks decide\<close>

lemma or_else_None: "(case a of None \<Rightarrow> r | Some e \<Rightarrow> Some e) = None \<longleftrightarrow> a = None \<and> r = None"
  by (cases a) auto

lemma keys_fold_edge: "fst ` set (fold add_edge deps m) = fst ` set m \<union> de_From ` set deps"
  by (induction deps arbitrary: m) (auto simp: add_edge_def dom_update)

lemma keys_fold_nodes: "fst ` set (fold (\<lambda>node. AList.update node []) nodes m) = fst ` set m \<union> set nodes"
  by (induction nodes arbitrary: m) (auto simp: dom_update)

lemma getl_fold_nodes: "getl m x = [] \<Longrightarrow> getl (fold (\<lambda>node. AList.update node []) nodes m) x = []"
  by (induction nodes arbitrary: m) auto

lemma asm_firstCycle_correct:
  assumes nodes: "\<forall>n \<in> set nodes. trim_space n = n \<and> n \<noteq> []" and deps: "\<forall>d \<in> set deps. de_From d \<in> set nodes"
  shows "\<exists>c. asm_firstCycle deps nodes = Some c \<and> (c = [] \<longleftrightarrow> acyclic (dependency_rel deps))"
proof -
  define adjacency where "adjacency = fold add_edge deps (fold (\<lambda>node. AList.update node []) nodes [])"
  have adj: "stable_adjacency adjacency x = stableStrings (map de_To (filter (\<lambda>d. de_From d = x) deps))" for x
    by (simp add: adjacency_def stable_adjacency_getl getl_fold_edge getl_fold_nodes)
  have set_nodes: "set (stableStrings nodes) = set nodes" using nodes by (auto simp: stableStrings_spec(2) image_iff)
  have trimmed: "trim_space (de_From d) = de_From d" if "d \<in> set deps" for d using nodes deps that by auto
  have "succs (stable_adjacency adjacency) = dependency_rel deps"
    using trimmed by (force simp: succs_def adj stableStrings_spec(2) dependency_rel_def)
  moreover have "x \<in> set (stableStrings nodes)" if "stable_adjacency adjacency x \<noteq> []" for x
  proof -
    have "filter (\<lambda>d. de_From d = x) deps \<noteq> []" using that by (auto simp: adj)
    then obtain d where "d \<in> set deps" "de_From d = x" by (auto simp: filter_empty_conv)
    with deps show ?thesis by (auto simp: set_nodes)
  qed
  moreover have "length (stableStrings nodes) < length adjacency + 1"
  proof -
    have "length (stableStrings nodes) = card (set nodes)"
      using distinct_card [OF stableStrings_spec(1), of nodes] by (simp add: set_nodes)
    also have "\<dots> \<le> card (fst ` set adjacency)" by (intro card_mono) (auto simp: adjacency_def keys_fold_edge keys_fold_nodes)
    also have "\<dots> \<le> length adjacency" using card_image_le card_length order_trans finite_set by metis
    finally show ?thesis by simp
  qed
  ultimately show ?thesis
    using search_cycle_correct [of "stable_adjacency adjacency" "stableStrings nodes" "length adjacency + 1"]
    by (auto simp: asm_firstCycle_def Let_def adjacency_def [symmetric])
qed

lemma check_all_None:
  assumes "\<And>seen x. err seen x = None \<longleftrightarrow> key x \<notin> key ` set seen \<and> ok x"
  shows "check_all err seen xs = None \<longleftrightarrow> distinct (map key xs) \<and> key ` set seen \<inter> key ` set xs = {} \<and> (\<forall>x \<in> set xs. ok x)"
proof (induction xs arbitrary: seen)
  case (Cons x xs)
  then show ?case unfolding check_all.simps or_else_None assms by auto
qed simp

definition evidence_ok :: "Evidence \<Rightarrow> bool" where
  "evidence_ok e \<longleftrightarrow> ev_Ownership e \<in> {OwnershipCanonical, OwnershipReused, OwnershipDerived, OwnershipRuntimeLocal} \<and> ev_Source e \<noteq> [] \<and> ev_Ref e \<noteq> []"

lemma validateEvidence_None [simp]: "validateEvidence e owner = None \<longleftrightarrow> evidence_ok e"
  by (auto simp: validateEvidence_def evidence_ok_def)

definition capability_ok :: "CapabilityRequirement \<Rightarrow> bool" where
  "capability_ok c \<longleftrightarrow> capabilityNamePattern (cr_Name c) \<and> \<not> bad_package (cr_Package c) \<and> capabilityTypePattern (cr_Type c) \<and> evidence_ok (cr_Evidence c)"

lemma capability_error_None: "capability_error application seen c = None \<longleftrightarrow> cr_Name c \<notin> cr_Name ` set seen \<and> capability_ok c"
proof -
  have "find (\<lambda>previous. cr_Name previous = cr_Name c) seen = None \<longleftrightarrow> cr_Name c \<notin> cr_Name ` set seen"
    by (auto simp: find_None_all image_iff)
  then show ?thesis by (auto simp: capability_error_def capability_ok_def split: option.splits if_splits)
qed

definition capabilities_ok :: "CapabilityRequirement list \<Rightarrow> bool" where
  "capabilities_ok cs \<longleftrightarrow> distinct (map cr_Name cs) \<and> list_all capability_ok cs"

definition application_ok :: "AsmApplication \<Rightarrow> bool" where
  "application_ok a \<longleftrightarrow> ap_Domain a \<noteq> [] \<and> ap_Name a \<noteq> [] \<and> ap_ID a = ap_Domain a @ ''/'' @ ap_Name a \<and>
     capabilities_ok (normalizeCapabilityRequirements (ap_Capabilities a)) \<and> evidence_ok (ap_Evidence a)"

lemma validateCapabilities_None: "validateCapabilityRequirements application cs = None \<longleftrightarrow> capabilities_ok (normalizeCapabilityRequirements cs)"
  by (simp add: validateCapabilityRequirements_def capabilities_ok_def list_all_iff check_all_None [OF capability_error_None])

lemma application_error_None: "application_error seen a = None \<longleftrightarrow> ap_ID a \<notin> ap_ID ` set seen \<and> application_ok a"
  unfolding application_error_def application_ok_def by (auto simp: or_else_None validateCapabilities_None)

definition binding_ok :: "string \<Rightarrow> BindingReference \<Rightarrow> bool" where
  "binding_ok oid b \<longleftrightarrow> br_OperationID b = oid \<and> 0 \<le> br_Index b \<and> br_Transport b \<in> {''http'', ''rpc''} \<and> evidence_ok (br_Evidence b)"

lemma binding_error_None: "binding_error oid seen b = None \<longleftrightarrow> binding_key b \<notin> binding_key ` set seen \<and> binding_ok oid b"
  by (auto simp: binding_error_def binding_ok_def)

definition operation_ok :: "string set \<Rightarrow> AsmOperation \<Rightarrow> bool" where
  "operation_ok applications p \<longleftrightarrow> ao_ID p \<noteq> [] \<and> ao_Application p \<in> applications \<and> evidence_ok (ao_Evidence p) \<and>
     distinct (map binding_key (ao_Bindings p)) \<and> list_all (binding_ok (ao_ID p)) (ao_Bindings p)"

lemma operation_error_None:
  "operation_error applications seen p = None \<longleftrightarrow> ao_ID p \<notin> ao_ID ` set seen \<and> operation_ok (set applications) p"
proof -
  have "check_all (binding_error (ao_ID p)) [] (ao_Bindings p) = None \<longleftrightarrow>
      distinct (map binding_key (ao_Bindings p)) \<and> list_all (binding_ok (ao_ID p)) (ao_Bindings p)"
    by (simp add: check_all_None [OF binding_error_None] list_all_iff)
  then show ?thesis unfolding operation_error_def operation_ok_def by (auto simp: or_else_None)
qed

definition module_ok :: "AsmModule \<Rightarrow> bool" where
  "module_ok m \<longleftrightarrow> mo_Name m \<noteq> [] \<and> evidence_ok (mo_Evidence m)"

lemma module_error_None: "module_error seen m = None \<longleftrightarrow> mo_Name m \<notin> mo_Name ` set seen \<and> module_ok m"
  by (auto simp: module_error_def module_ok_def)

definition dependency_ok :: "string set \<Rightarrow> Dependency \<Rightarrow> bool" where
  "dependency_ok nodes d \<longleftrightarrow> de_From d \<in> nodes \<and> de_To d \<in> nodes \<and> de_From d \<noteq> de_To d \<and> evidence_ok (de_Evidence d)"

lemma dependency_error_None:
  "dependency_error kind nodes seen d = None \<longleftrightarrow> dependency_key d \<notin> dependency_key ` set seen \<and> dependency_ok (set nodes) d"
  by (auto simp: dependency_error_def dependency_ok_def)

lemma graph_error_None:
  assumes nodes: "\<forall>n \<in> set nodes. trim_space n = n \<and> n \<noteq> []" and deps: "normalizeDependencies deps = deps"
  shows "graph_error kind deps nodes = None \<longleftrightarrow>
    distinct (map dependency_key deps) \<and> list_all (dependency_ok (set nodes)) deps \<and> acyclic (dependency_rel deps)"
proof -
  have v: "validateDependencies kind deps nodes = None \<longleftrightarrow> distinct (map dependency_key deps) \<and> list_all (dependency_ok (set nodes)) deps"
    by (simp add: validateDependencies_def deps check_all_None [OF dependency_error_None] list_all_iff)
  show ?thesis
  proof (cases "validateDependencies kind deps nodes")
    case None
    with v have "\<forall>d \<in> set deps. de_From d \<in> set nodes" by (auto simp: list_all_iff dependency_ok_def)
    from asm_firstCycle_correct [OF nodes this] None v show ?thesis by (auto simp: graph_error_def)
  next
    case (Some e)
    with v show ?thesis by (auto simp: graph_error_def)
  qed
qed

definition graph_ok :: "string set \<Rightarrow> Dependency list \<Rightarrow> bool" where
  "graph_ok nodes deps \<longleftrightarrow> distinct (map dependency_key deps) \<and> list_all (dependency_ok nodes) deps \<and> acyclic (dependency_rel deps)"

definition requirement_ok :: "string set \<Rightarrow> AsmRequirement \<Rightarrow> bool" where
  "requirement_ok modules r \<longleftrightarrow> rq_Module r \<in> modules \<and> evidence_ok (rq_Evidence r) \<and>
     (rq_Kind r \<in> {''config'', ''database'', ''rpc''} \<and> rq_Name r \<noteq> [] \<or> rq_Kind r \<in> {''logger'', ''event_bus''} \<and> rq_Name r = [])"

text \<open>What \<open>Validate\<close> accepts, on a normal plan.\<close>

definition assembly_ok :: "AsmPlan \<Rightarrow> bool" where
  "assembly_ok p \<longleftrightarrow>
     as_SchemaVersion p = asm_SchemaVersion \<and> as_Identity p \<noteq> [] \<and>
     distinct (map ap_ID (as_Applications p)) \<and> list_all application_ok (as_Applications p) \<and>
     graph_ok (ap_ID ` set (as_Applications p)) (as_ApplicationDependencies p) \<and>
     equalDependencies (dependencyClosure (as_ApplicationDependencies p) closure_source) (as_ApplicationDependencyClosure p) \<and>
     distinct (map ao_ID (as_Operations p)) \<and> list_all (operation_ok (ap_ID ` set (as_Applications p))) (as_Operations p) \<and>
     graph_ok (ao_ID ` set (as_Operations p)) (as_OperationDependencies p) \<and>
     distinct (map mo_Name (as_Modules p)) \<and> list_all module_ok (as_Modules p) \<and>
     graph_ok (mo_Name ` set (as_Modules p)) (as_ModuleDependencies p) \<and>
     equalRequirements (concat (map requirementsForModule (as_Modules p))) (as_Requirements p) \<and>
     list_all (requirement_ok (mo_Name ` set (as_Modules p))) (as_Requirements p) \<and>
     (\<exists>target. as_Targets p = [target] \<and> tg_Name target = RootTarget \<and> equalTarget (deriveRootTarget p) target)"

lemma requirement_inventory_None: "requirement_inventory_error modules r = None \<longleftrightarrow> requirement_ok (set modules) r"
  by (auto simp: requirement_inventory_error_def validateRequirement_def requirement_ok_def Let_def)

lemma normal_plan_fields:
  assumes "asm_Normalize p = p"
  shows "map normalize_application (as_Applications p) = as_Applications p" "map normalize_operation (as_Operations p) = as_Operations p"
    "map normalize_module (as_Modules p) = as_Modules p"
    "normalizeDependencies (as_ApplicationDependencies p) = as_ApplicationDependencies p"
    "normalizeDependencies (as_OperationDependencies p) = as_OperationDependencies p"
    "normalizeDependencies (as_ModuleDependencies p) = as_ModuleDependencies p"
proof -
  have fixed: "map f xs = xs" if "sort_key k (map f xs) = xs" "\<And>x. f (f x) = f x" for f :: "'a \<Rightarrow> 'a" and k :: "'a \<Rightarrow> string" and xs
  proof (rule map_idI)
    fix x assume "x \<in> set xs"
    then have "x \<in> f ` set xs" by (metis that(1) set_map set_sort)
    then show "f x = x" using that(2) by auto
  qed
  have "sort_key ap_ID (map normalize_application (as_Applications p)) = as_Applications p" "sort_key ao_ID (map normalize_operation (as_Operations p)) = as_Operations p"
    "sort_key mo_Name (map normalize_module (as_Modules p)) = as_Modules p"
    using arg_cong [OF assms, of as_Applications] arg_cong [OF assms, of as_Operations] arg_cong [OF assms, of as_Modules]
    by (simp_all add: asm_Normalize_def)
  then show "map normalize_application (as_Applications p) = as_Applications p" "map normalize_operation (as_Operations p) = as_Operations p"
    "map normalize_module (as_Modules p) = as_Modules p" by (auto intro!: fixed simp del: map_idI)
  show "normalizeDependencies (as_ApplicationDependencies p) = as_ApplicationDependencies p"
    "normalizeDependencies (as_OperationDependencies p) = as_OperationDependencies p"
    "normalizeDependencies (as_ModuleDependencies p) = as_ModuleDependencies p"
    using arg_cong [OF assms, of as_ApplicationDependencies] arg_cong [OF assms, of as_OperationDependencies] arg_cong [OF assms, of as_ModuleDependencies]
    by (simp_all add: asm_Normalize_def)
qed

lemma normal_plan_ids:
  assumes "asm_Normalize p = p"
  shows "a \<in> set (as_Applications p) \<Longrightarrow> trim_space (ap_ID a) = ap_ID a" "x \<in> set (as_Operations p) \<Longrightarrow> trim_space (ao_ID x) = ao_ID x"
    "m \<in> set (as_Modules p) \<Longrightarrow> trim_space (mo_Name m) = mo_Name m"
proof -
  have "f x = x" if "map f xs = xs" "x \<in> set xs" for f :: "'a \<Rightarrow> 'a" and x xs using that by (metis map_eq_conv map_ident)
  note fixed = this
  show "a \<in> set (as_Applications p) \<Longrightarrow> trim_space (ap_ID a) = ap_ID a"
    using fixed [OF normal_plan_fields(1) [OF assms], of a] by (metis normalize_application_def AsmApplication.simps(1))
  show "x \<in> set (as_Operations p) \<Longrightarrow> trim_space (ao_ID x) = ao_ID x"
    using fixed [OF normal_plan_fields(2) [OF assms], of x] by (metis normalize_operation_def AsmOperation.simps(1))
  show "m \<in> set (as_Modules p) \<Longrightarrow> trim_space (mo_Name m) = mo_Name m"
    using fixed [OF normal_plan_fields(3) [OF assms], of m] by (metis normalize_module_def AsmModule.simps(1))
qed

lemma validate_assembly_None:
  assumes normal: "asm_Normalize p = p"
  shows "validate_assembly p = None \<longleftrightarrow> assembly_ok p"
proof -
  note ids = normal_plan_ids [OF normal]
  note deps = normal_plan_fields(4-6) [OF normal]
  have apps: "check_all application_error [] (as_Applications p) = None \<longleftrightarrow> distinct (map ap_ID (as_Applications p)) \<and> list_all application_ok (as_Applications p)"
    by (simp add: check_all_None [OF application_error_None] list_all_iff)
  have ops: "check_all (operation_error (sort (map ap_ID (as_Applications p)))) [] (as_Operations p) = None \<longleftrightarrow>
      distinct (map ao_ID (as_Operations p)) \<and> list_all (operation_ok (ap_ID ` set (as_Applications p))) (as_Operations p)"
    by (simp add: check_all_None [OF operation_error_None] list_all_iff)
  have mods: "check_all module_error [] (as_Modules p) = None \<longleftrightarrow> distinct (map mo_Name (as_Modules p)) \<and> list_all module_ok (as_Modules p)"
    by (simp add: check_all_None [OF module_error_None] list_all_iff)
  have reqs: "first_error (requirement_inventory_error (sort (map mo_Name (as_Modules p)))) (as_Requirements p) = None \<longleftrightarrow>
      list_all (requirement_ok (mo_Name ` set (as_Modules p))) (as_Requirements p)"
    by (simp add: first_error_None requirement_inventory_None list_all_iff)
  have g1: "graph_error k (as_ApplicationDependencies p) (sort (map ap_ID (as_Applications p))) = None \<longleftrightarrow> graph_ok (ap_ID ` set (as_Applications p)) (as_ApplicationDependencies p)"
    if "list_all application_ok (as_Applications p)" for k
    using that ids(1) graph_error_None [of "sort (map ap_ID (as_Applications p))", OF _ deps(1)]
    by (auto simp: graph_ok_def list_all_iff application_ok_def)
  have g2: "graph_error k (as_OperationDependencies p) (sort (map ao_ID (as_Operations p))) = None \<longleftrightarrow> graph_ok (ao_ID ` set (as_Operations p)) (as_OperationDependencies p)"
    if "list_all (operation_ok (ap_ID ` set (as_Applications p))) (as_Operations p)" for k
    using that ids(2) graph_error_None [of "sort (map ao_ID (as_Operations p))", OF _ deps(2)]
    by (auto simp: graph_ok_def list_all_iff operation_ok_def)
  have g3: "graph_error k (as_ModuleDependencies p) (sort (map mo_Name (as_Modules p))) = None \<longleftrightarrow> graph_ok (mo_Name ` set (as_Modules p)) (as_ModuleDependencies p)"
    if "list_all module_ok (as_Modules p)" for k
    using that ids(3) graph_error_None [of "sort (map mo_Name (as_Modules p))", OF _ deps(3)]
    by (auto simp: graph_ok_def list_all_iff module_ok_def)
  have eqd: "equalDependencies (normalizeDependencies ds) es = equalDependencies ds es" for ds es by (simp add: equalDependencies_def)
  have eqr: "equalRequirements (normalizeRequirements rs) qs = equalRequirements rs qs" for rs qs by (simp add: equalRequirements_def)
  have tgt: "(case as_Targets p of [] \<Rightarrow> Some e | [target] \<Rightarrow> if tg_Name target \<noteq> RootTarget then Some e else if \<not> equalTarget t target then Some e' else None
      | target # x # xs \<Rightarrow> Some e) = None \<longleftrightarrow> (\<exists>target. as_Targets p = [target] \<and> tg_Name target = RootTarget \<and> equalTarget t target)" for e e' t
    by (auto split: list.splits)
  have iff: "(if b then Some e else r) = None \<longleftrightarrow> \<not> b \<and> r = None" for b and e :: goerr and r by simp
  show ?thesis unfolding validate_assembly_def assembly_ok_def Let_def or_else_None iff apps ops mods reqs eqd eqr tgt not_not
    by (simp add: g1 g2 g3 conj_assoc cong: conj_cong)
qed

end
