(* ===== verification/AssemblyCompile.thy ===== *)
theory AssemblyCompile
  imports AssemblyPlan
begin

text \<open>
  What the compiler of \<open>AssemblyPlan\<close> does: the input and the plan it assembles are normal, so that validation judges the input alone, and the
  parts it derives always pass.
\<close>

section \<open>What the compiler produces\<close>

text \<open>A string with a visible ASCII character is not all white space.\<close>

lemma ws_not_plain: "w \<in> set ws_encodings \<Longrightarrow> c \<in> set w \<Longrightarrow> \<not> plain_char c"
  unfolding ws_encodings_def plain_char_def by (auto simp: less_eq_char_def)

lemma trim_left_plain: "c \<in> set s \<Longrightarrow> plain_char c \<Longrightarrow> c \<in> set (trim_left s)"
proof (induction s rule: trim_left.induct)
  case (1 s)
  show ?case
  proof (cases "ws_prefix s = 0")
    case True
    with 1 show ?thesis by (simp add: trim_left.simps [of s])
  next
    case False
    then obtain w where w: "w \<in> set ws_encodings" "take (length w) s = w" "ws_prefix s = length w"
      by (auto simp: ws_prefix_def dest: find_Some_mem split: option.splits)
    have "c \<notin> set w" using w(1) 1(3) ws_not_plain by blast
    moreover have "set s = set w \<union> set (drop (length w) s)" by (metis w(2) append_take_drop_id set_append)
    ultimately have "c \<in> set (drop (ws_prefix s) s)" using 1(2) w(3) by auto
    with 1(1) [OF False] 1(3) False show ?thesis by (simp add: trim_left.simps [of s])
  qed
qed

lemma trim_right_plain: "c \<in> set s \<Longrightarrow> plain_char c \<Longrightarrow> c \<in> set (trim_right s)"
proof (induction s rule: trim_right.induct)
  case (1 s)
  show ?case
  proof (cases "ws_suffix s = 0")
    case True
    with 1 show ?thesis by (simp add: trim_right.simps [of s])
  next
    case False
    then obtain w where w: "w \<in> set ws_encodings" "length w \<le> length s" "drop (length s - length w) s = w" "ws_suffix s = length w"
      by (auto simp: ws_suffix_def dest: find_Some_mem split: option.splits)
    have "c \<notin> set w" using w(1) 1(3) ws_not_plain by blast
    moreover have "set s = set (take (length s - length w) s) \<union> set w" by (metis w(3) append_take_drop_id set_append)
    ultimately have "c \<in> set (take (length s - ws_suffix s) s)" using 1(2) w(4) by auto
    with 1(1) [OF False] 1(3) False show ?thesis by (simp add: trim_right.simps [of s])
  qed
qed

lemma trim_nonempty: "c \<in> set s \<Longrightarrow> plain_char c \<Longrightarrow> trim_space s \<noteq> []"
  using trim_left_plain trim_right_plain unfolding trim_space_def by fastforce

lemma trim_slash: "trim_space (s @ CHR ''/'' # t) \<noteq> []"
  by (rule trim_nonempty [of "CHR ''/''"]) (auto simp: plain_char_def less_eq_char_def)

text \<open>The input as the compiler uses it, and the plan before its target is derived.\<close>

definition prepared :: "AsmInput \<Rightarrow> AsmInput" where
  "prepared input = (let i = normalizeInput input in if in_Identity i = [] then i\<lparr>in_Identity := RootTarget\<rparr> else i)"

definition compiled :: "AsmInput \<Rightarrow> AsmPlan" where
  "compiled i = (let plan = asm_Normalize (assemble i) in plan\<lparr>as_Targets := [deriveRootTarget plan]\<rparr>)"

lemma prepared_fields:
  "in_Applications (prepared input) = sort_key ai_ID (map normalize_application_input (in_Applications input))"
  "in_Operations (prepared input) = sort_key oi_ID (map normalize_operation_input (in_Operations input))"
  "in_Modules (prepared input) = sort_key mi_Name (map normalize_module_input (in_Modules input))"
  "trim_space (in_Identity (prepared input)) = in_Identity (prepared input)" "in_Identity (prepared input) \<noteq> []"
proof -
  have "trim_space RootTarget = RootTarget" "RootTarget \<noteq> []" by (simp_all add: RootTarget_def trim_space_plain plain_char_def)
  then show "in_Applications (prepared input) = sort_key ai_ID (map normalize_application_input (in_Applications input))"
    "in_Operations (prepared input) = sort_key oi_ID (map normalize_operation_input (in_Operations input))"
    "in_Modules (prepared input) = sort_key mi_Name (map normalize_module_input (in_Modules input))"
    "trim_space (in_Identity (prepared input)) = in_Identity (prepared input)" "in_Identity (prepared input) \<noteq> []"
    by (simp_all add: prepared_def normalizeInput_def Let_def)
qed

lemma entries_normal:
  "a \<in> set (in_Applications (prepared input)) \<Longrightarrow> normalize_application (compile_application a) = compile_application a"
  "x \<in> set (in_Operations (prepared input)) \<Longrightarrow> normalize_operation (compile_operation x) = compile_operation x"
  "m \<in> set (in_Modules (prepared input)) \<Longrightarrow> normalize_module (compile_module m) = compile_module m"
proof -
  assume "a \<in> set (in_Applications (prepared input))"
  then obtain b where "a = normalize_application_input b" by (auto simp: prepared_fields)
  then show "normalize_application (compile_application a) = compile_application a"
    by (simp add: normalize_application_def compile_application_def normalize_application_input_def)
next
  assume "m \<in> set (in_Modules (prepared input))"
  then obtain b where "m = normalize_module_input b" by (auto simp: prepared_fields)
  then show "normalize_module (compile_module m) = compile_module m" by (simp add: normalize_module_def compile_module_def normalize_module_input_def)
next
  assume "x \<in> set (in_Operations (prepared input))"
  then obtain b where x: "x = normalize_operation_input b" by (auto simp: prepared_fields)
  let ?bs = "map (compile_binding (oi_ID x)) (oi_Bindings x)"
  have "sort_key (\<lambda>b. (br_Transport b, br_Index b)) (map normalize_binding ?bs) = ?bs"
  proof -
    have "normalize_binding (compile_binding (oi_ID x) c) = compile_binding (oi_ID x) c" if "c \<in> set (oi_Bindings x)" for c
      using that by (auto simp: x normalize_operation_input_def normalize_binding_def compile_binding_def normalize_binding_input_def)
    then have same: "map normalize_binding ?bs = ?bs" by simp
    have keys: "map (\<lambda>b. (br_Transport b, br_Index b)) ?bs = map (\<lambda>b. (bi_Transport b, bi_Index b)) (oi_Bindings x)"
      by (simp add: compile_binding_def)
    show ?thesis unfolding same by (rule sort_key_fixed, unfold keys) (simp add: x normalize_operation_input_def)
  qed
  moreover have "oi_ID x = trim_space (oi_ID x)" "oi_Application x = trim_space (oi_Application x)" "oi_Evidence x = normalizeEvidence (oi_Evidence x)"
    by (simp_all add: x normalize_operation_input_def)
  ultimately show "normalize_operation (compile_operation x) = compile_operation x"
    by (simp add: normalize_operation_def compile_operation_def)
qed


lemma compiled_fields:
  "as_Applications (compiled (prepared input)) = map compile_application (in_Applications (prepared input))"
  "as_Operations (compiled (prepared input)) = map compile_operation (in_Operations (prepared input))"
  "as_Modules (compiled (prepared input)) = map compile_module (in_Modules (prepared input))"
proof -
  let ?i = "prepared input"
  have apps: "map normalize_application (map compile_application (in_Applications ?i)) = map compile_application (in_Applications ?i)"
    using entries_normal(1) [of _ input] by simp
  have ops: "map normalize_operation (map compile_operation (in_Operations ?i)) = map compile_operation (in_Operations ?i)"
    using entries_normal(2) [of _ input] by simp
  have mods: "map normalize_module (map compile_module (in_Modules ?i)) = map compile_module (in_Modules ?i)"
    using entries_normal(3) [of _ input] by simp
  have keys: "map ap_ID (map compile_application xs) = map ai_ID xs" "map ao_ID (map compile_operation ys) = map oi_ID ys"
    "map mo_Name (map compile_module zs) = map mi_Name zs" for xs ys zs
    by (simp_all add: compile_application_def compile_operation_def compile_module_def)
  have sorted: "sorted (map ai_ID (in_Applications ?i))" "sorted (map oi_ID (in_Operations ?i))" "sorted (map mi_Name (in_Modules ?i))"
    by (simp_all add: prepared_fields)
  show "as_Applications (compiled ?i) = map compile_application (in_Applications ?i)"
    using sort_key_fixed [of ap_ID "map compile_application (in_Applications ?i)"] sorted(1)
    by (simp only: compiled_def assemble_def asm_Normalize_def Let_def AsmPlan.simps apps keys)
  show "as_Operations (compiled ?i) = map compile_operation (in_Operations ?i)"
    using sort_key_fixed [of ao_ID "map compile_operation (in_Operations ?i)"] sorted(2)
    by (simp only: compiled_def assemble_def asm_Normalize_def Let_def AsmPlan.simps ops keys)
  show "as_Modules (compiled ?i) = map compile_module (in_Modules ?i)"
    using sort_key_fixed [of mo_Name "map compile_module (in_Modules ?i)"] sorted(3)
    by (simp only: compiled_def assemble_def asm_Normalize_def Let_def AsmPlan.simps mods keys)
qed

lemma dependencyClosure_normal [simp]:
  "normalizeDependencies (dependencyClosure deps source) = dependencyClosure deps source"
  "dependencyClosure (normalizeDependencies deps) source = dependencyClosure deps source"
  by (simp_all add: dependencyClosure_def Let_def)

lemma normalize_root_target [simp]: "normalize_target (deriveRootTarget p) = deriveRootTarget p"
proof -
  have "trim_space RootTarget = RootTarget" "trim_space OwnershipDerived = OwnershipDerived" "trim_space ''assemblyplan'' = ''assemblyplan''"
    "trim_space ''targets/root'' = ''targets/root''"
    by (simp_all add: RootTarget_def OwnershipDerived_def trim_space_plain plain_char_def)
  then show ?thesis by (simp add: normalize_target_def deriveRootTarget_def normalizeEvidence_def)
qed

lemma set_targets_normal: "asm_Normalize p = p \<Longrightarrow> asm_Normalize (p\<lparr>as_Targets := [deriveRootTarget q]\<rparr>) = p\<lparr>as_Targets := [deriveRootTarget q]\<rparr>"
proof -
  assume p: "asm_Normalize p = p"
  have "asm_Normalize (p\<lparr>as_Targets := [deriveRootTarget q]\<rparr>) = (asm_Normalize p)\<lparr>as_Targets := [deriveRootTarget q]\<rparr>" by (simp add: asm_Normalize_def)
  with p show ?thesis by simp
qed

lemma compiled_normal [simp]: "asm_Normalize (compiled i) = compiled i"
  by (simp add: compiled_def Let_def set_targets_normal)

lemma Compile_compiled: "Compile input = (case validate_assembly (compiled (prepared input)) of Some e \<Rightarrow> Inl e | None \<Rightarrow> Inr (compiled (prepared input)))"
proof -
  have "Compile input = (case asm_Validate (asm_Normalize (compiled (prepared input))) of
      Some e \<Rightarrow> Inl e | None \<Rightarrow> Inr (asm_Normalize (compiled (prepared input))))"
    by (simp only: Compile_def prepared_def compiled_def Let_def)
  then show ?thesis by (simp only: compiled_normal asm_Validate_def)
qed

lemma compiled_other:
  "as_SchemaVersion (compiled i) = asm_SchemaVersion" "as_Identity (compiled i) = trim_space (in_Identity i)"
  "as_ApplicationDependencies (compiled i) = normalizeDependencies (concat (map application_dependencies (in_Applications i)))"
  "as_ApplicationDependencyClosure (compiled i) = dependencyClosure (as_ApplicationDependencies (compiled i)) closure_source"
  "as_OperationDependencies (compiled i) = normalizeDependencies (concat (map operation_dependencies (in_Operations i)))"
  "as_ModuleDependencies (compiled i) = normalizeDependencies (concat (map module_dependencies (in_Modules i)))"
  "as_Requirements (compiled i) = normalizeRequirements (concat (map requirementsForModule (map compile_module (in_Modules i))))"
  "as_Targets (compiled i) = [deriveRootTarget (compiled i)]"
  by (simp_all add: compiled_def assemble_def asm_Normalize_def Let_def asm_SchemaVersion_def deriveRootTarget_def)

text \<open>The graph of one kind of input entry: its name, its links and its evidence.\<close>

definition link_rel :: "('a \<Rightarrow> string) \<Rightarrow> ('a \<Rightarrow> string list) \<Rightarrow> 'a list \<Rightarrow> (string \<times> string) set" where
  "link_rel name links xs = {(name x, d) |x d. x \<in> set xs \<and> d \<in> set (links x)}"

definition link_deps :: "string \<Rightarrow> ('a \<Rightarrow> string) \<Rightarrow> ('a \<Rightarrow> Evidence) \<Rightarrow> ('a \<Rightarrow> string list) \<Rightarrow> 'a list \<Rightarrow> Dependency list" where
  "link_deps l name ev links xs = concat (map (\<lambda>x. map (input_dependency (CHR ''/'' # l) (name x) (ev x)) (links x)) xs)"

definition entries_ok :: "('a \<Rightarrow> string) \<Rightarrow> ('a \<Rightarrow> Evidence) \<Rightarrow> ('a \<Rightarrow> string list) \<Rightarrow> 'a list \<Rightarrow> bool" where
  "entries_ok name ev links xs \<longleftrightarrow> distinct (map name xs) \<and>
     (\<forall>x \<in> set xs. trim_space (name x) = name x \<and> CHR 0x00 \<notin> set (name x) \<and> evidence_ok (ev x) \<and> normalizeEvidence (ev x) = ev x \<and>
        distinct (links x) \<and> (\<forall>d \<in> set (links x). trim_space d = d \<and> d \<noteq> []))"

lemma nul_key_inj: "CHR 0x00 \<notin> set a \<Longrightarrow> CHR 0x00 \<notin> set a' \<Longrightarrow> a @ CHR 0x00 # b = a' @ CHR 0x00 # b' \<longleftrightarrow> a = a' \<and> b = b'"
proof -
  assume a: "CHR 0x00 \<notin> set a" "CHR 0x00 \<notin> set a'"
  have "takeWhile (\<lambda>c. c \<noteq> CHR 0x00) (x @ CHR 0x00 # y) = x" if "CHR 0x00 \<notin> set x" for x y
    using that by (subst takeWhile_append2) auto
  with a show ?thesis by (metis same_append_eq list.inject)
qed

lemma link_deps_keys:
  assumes "entries_ok name ev links xs"
  shows "distinct (map dependency_key (link_deps l name ev links xs))"
proof -
  let ?key = "\<lambda>x d. name x @ CHR 0x00 # d"
  have "map dependency_key (link_deps l name ev links xs) = concat (map (\<lambda>x. map (?key x) (links x)) xs)"
    by (simp add: link_deps_def map_concat comp_def input_dependency_def dependency_key_def)
  moreover have "distinct (concat (map (\<lambda>x. map (?key x) (links x)) xs))"
    using assms
  proof (induction xs)
    case (Cons x xs)
    have xs: "entries_ok name ev links xs" and x: "name x \<notin> name ` set xs" "distinct (links x)" "CHR 0x00 \<notin> set (name x)"
      using Cons.prems by (auto simp: entries_ok_def)
    have "?key x d \<noteq> ?key y e" if "y \<in> set xs" for d e y
      using that x xs nul_key_inj [of "name x" "name y" d e] by (auto simp: entries_ok_def)
    moreover have "distinct (map (?key x) (links x))" using x(2) by (simp add: distinct_map inj_on_def)
    ultimately show ?case using Cons.IH [OF xs] by auto
  qed simp
  ultimately show ?thesis by simp
qed

lemma sort_map_distinct: "distinct (map k (sort_key f xs)) \<longleftrightarrow> distinct (map k xs)"
  by (metis mset_map mset_sort mset_eq_imp_distinct_iff)

lemma input_dependency_normal:
  assumes "trim_space x = x" "trim_space d = d" "evidence_ok e" "normalizeEvidence e = e"
  shows "de_From (normalize_dependency (input_dependency (CHR ''/'' # l) x e d)) = x" "de_To (normalize_dependency (input_dependency (CHR ''/'' # l) x e d)) = d"
    "evidence_ok (de_Evidence (normalize_dependency (input_dependency (CHR ''/'' # l) x e d)))"
proof -
  have "trim_space OwnershipReused = OwnershipReused" by (simp add: OwnershipReused_def trim_space_plain plain_char_def)
  moreover have "trim_space (ev_Source e) = ev_Source e" using arg_cong [OF assms(4), of ev_Source] by (simp add: normalizeEvidence_def)
  ultimately show "evidence_ok (de_Evidence (normalize_dependency (input_dependency (CHR ''/'' # l) x e d)))"
    using assms(3) trim_slash by (simp add: normalize_dependency_def input_dependency_def normalizeEvidence_def evidence_ok_def)
qed (simp_all add: input_dependency_def assms)

lemma link_graph_ok:
  assumes ok: "entries_ok name ev links xs"
  shows "graph_ok (name ` set xs) (normalizeDependencies (link_deps l name ev links xs)) \<longleftrightarrow>
    link_rel name links xs \<subseteq> UNIV \<times> name ` set xs \<and> acyclic (link_rel name links xs)"
    and "dependency_rel (link_deps l name ev links xs) = link_rel name links xs"
proof -
  let ?deps = "link_deps l name ev links xs"
  have entry: "trim_space (name x) = name x" "evidence_ok (ev x)" "normalizeEvidence (ev x) = ev x" "d \<in> set (links x) \<Longrightarrow> trim_space d = d" "d \<in> set (links x) \<Longrightarrow> d \<noteq> []"
    if "x \<in> set xs" for x d using ok that by (auto simp: entries_ok_def)
  have deps: "set ?deps = (\<lambda>(x, d). input_dependency (CHR ''/'' # l) (name x) (ev x) d) ` (SIGMA x : set xs. set (links x))"
    by (auto simp: link_deps_def)
  show rel: "dependency_rel ?deps = link_rel name links xs"
  proof -
    have "(\<lambda>d. (trim_space (de_From d), trim_space (de_To d))) ` set ?deps = (\<lambda>(x, d). (name x, d)) ` (SIGMA x : set xs. set (links x))"
      unfolding deps image_image by (intro image_cong refl) (use entry in \<open>auto simp: input_dependency_def\<close>)
    also have "\<dots> = link_rel name links xs" by (auto simp: link_rel_def)
    finally have "dependency_rel ?deps = {ab \<in> link_rel name links xs. snd ab \<noteq> []}" by (simp add: dependency_rel_def)
    also have "\<dots> = link_rel name links xs" using entry(5) by (auto simp: link_rel_def)
    finally show ?thesis .
  qed
  have keys: "distinct (map dependency_key (normalizeDependencies ?deps))"
  proof -
    have "normalize_dependency d = d\<lparr>de_Evidence := normalizeEvidence (de_Evidence d)\<rparr>" if "d \<in> set ?deps" for d
      using that entry by (auto simp: deps normalize_dependency_def input_dependency_def)
    then have "map dependency_key (map normalize_dependency ?deps) = map dependency_key ?deps" by (simp add: dependency_key_def)
    with link_deps_keys [OF ok, of l] show ?thesis by (simp only: normalizeDependencies_def sort_map_distinct)
  qed
  have "list_all (dependency_ok N) (normalizeDependencies ?deps) \<longleftrightarrow> (\<forall>(a, b) \<in> link_rel name links xs. a \<in> N \<and> b \<in> N \<and> a \<noteq> b)" for N
  proof -
    have "dependency_ok N (normalize_dependency (input_dependency (CHR ''/'' # l) (name x) (ev x) d)) \<longleftrightarrow> name x \<in> N \<and> d \<in> N \<and> name x \<noteq> d"
      if "x \<in> set xs" "d \<in> set (links x)" for x d
      using input_dependency_normal [OF entry(1) [OF that(1)] entry(4) [OF that] entry(2,3) [OF that(1)], of l] by (simp add: dependency_ok_def)
    then have "list_all (dependency_ok N) (normalizeDependencies ?deps) \<longleftrightarrow> (\<forall>x \<in> set xs. \<forall>d \<in> set (links x). name x \<in> N \<and> d \<in> N \<and> name x \<noteq> d)"
      by (simp add: list_all_iff deps)
    then show ?thesis by (auto simp: link_rel_def)
  qed
  moreover have "a \<in> name ` set xs" if "(a, b) \<in> link_rel name links xs" for a b using that by (auto simp: link_rel_def)
  moreover have "(b, b) \<notin> link_rel name links xs" if "acyclic (link_rel name links xs)" for b
    using that by (auto simp: acyclic_def)
  ultimately show "graph_ok (name ` set xs) (normalizeDependencies ?deps) \<longleftrightarrow> link_rel name links xs \<subseteq> UNIV \<times> name ` set xs \<and> acyclic (link_rel name links xs)"
    using keys by (auto simp: graph_ok_def rel)
qed

section \<open>When compilation succeeds\<close>

lemma base_requirement_ok:
  assumes "mo_Name m \<in> N" "trim_space (mo_Name m) = mo_Name m" "module_ok m" "normalizeEvidence (mo_Evidence m) = mo_Evidence m" "trim_space n = n"
    and kind: "k \<in> {''config'', ''database'', ''rpc''} \<and> n \<noteq> [] \<or> k \<in> {''logger'', ''event_bus''} \<and> n = []"
  shows "requirement_ok N (normalize_requirement (base_requirement m k n (CHR ''/'' # ref)))"
proof -
  have "to_lower (trim_space k) = k"
  proof -
    have "k \<in> {''config'', ''database'', ''rpc'', ''logger'', ''event_bus''}" using kind by auto
    moreover have "list_all (\<lambda>k. to_lower (trim_space k) = k) [''config'', ''database'', ''rpc'', ''logger'', ''event_bus'']" by code_simp
    ultimately show ?thesis by auto
  qed
  moreover have "trim_space OwnershipReused = OwnershipReused" by (simp add: OwnershipReused_def trim_space_plain plain_char_def)
  moreover have "trim_space (ev_Source (mo_Evidence m)) = ev_Source (mo_Evidence m)"
    using arg_cong [OF assms(4), of ev_Source] by (simp add: normalizeEvidence_def)
  ultimately show ?thesis
    using assms trim_slash by (simp add: requirement_ok_def normalize_requirement_def base_requirement_def normalizeEvidence_def evidence_ok_def module_ok_def)
qed

lemma set_normalizeRequirements [simp]: "set (normalizeRequirements rs) = normalize_requirement ` set rs"
  by (simp add: normalizeRequirements_def)

lemma requirements_ok:
  assumes m: "mo_Name m \<in> N" "normalize_module m = m" "module_ok m" and r: "r \<in> set (requirementsForModule m)"
  shows "requirement_ok N r"
proof -
  have norm: "trim_space (mo_Name m) = mo_Name m" "normalizeEvidence (mo_Evidence m) = mo_Evidence m" "trim_space (mq_ConfigKey (mo_Requirements m)) = mq_ConfigKey (mo_Requirements m)"
    using arg_cong [OF m(2), of mo_Name] arg_cong [OF m(2), of mo_Evidence] arg_cong [OF m(2), of "\<lambda>m. mq_ConfigKey (mo_Requirements m)"]
    by (simp_all add: normalize_module_def normalize_module_requirements_def)
  note base = base_requirement_ok [OF m(1) norm(1) m(3) norm(2)]
  from r show ?thesis
    by (auto simp: requirementsForModule_def Let_def norm(3) intro!: base dest!: stableStrings_trimmed split: if_splits)
qed

definition input_ok :: "AsmInput \<Rightarrow> bool" where
  "input_ok i \<longleftrightarrow>
     distinct (map ai_ID (in_Applications i)) \<and> list_all (application_ok \<circ> compile_application) (in_Applications i) \<and>
     link_rel ai_ID ai_DependsOn (in_Applications i) \<subseteq> UNIV \<times> ai_ID ` set (in_Applications i) \<and>
     acyclic (link_rel ai_ID ai_DependsOn (in_Applications i)) \<and>
     distinct (map oi_ID (in_Operations i)) \<and> list_all (operation_ok (ai_ID ` set (in_Applications i)) \<circ> compile_operation) (in_Operations i) \<and>
     link_rel oi_ID oi_RequiresOperations (in_Operations i) \<subseteq> UNIV \<times> oi_ID ` set (in_Operations i) \<and>
     acyclic (link_rel oi_ID oi_RequiresOperations (in_Operations i)) \<and>
     distinct (map mi_Name (in_Modules i)) \<and> list_all (module_ok \<circ> compile_module) (in_Modules i) \<and>
     link_rel mi_Name mi_DependsOn (in_Modules i) \<subseteq> UNIV \<times> mi_Name ` set (in_Modules i) \<and>
     acyclic (link_rel mi_Name mi_DependsOn (in_Modules i))"

text \<open>The code joins the two ids of a dependency with a NUL byte; ids without one keep the pairs apart.\<close>

definition nul_free :: "AsmInput \<Rightarrow> bool" where
  "nul_free i \<longleftrightarrow> (\<forall>a \<in> set (in_Applications i). CHR 0x00 \<notin> set (ai_ID a)) \<and> (\<forall>x \<in> set (in_Operations i). CHR 0x00 \<notin> set (oi_ID x)) \<and>
     (\<forall>m \<in> set (in_Modules i). CHR 0x00 \<notin> set (mi_Name m))"

lemma equal_refl [simp]: "equalDependencies d d" "equalRequirements r r" "equalTarget t t"
  by (simp_all add: equalDependencies_def equalRequirements_def equalTarget_def strings_equal_def)

lemma prepared_deps:
  "concat (map application_dependencies as) = link_deps ''requires/'' ai_ID ai_Evidence ai_DependsOn as"
  "concat (map operation_dependencies xs) = link_deps ''requiresOperations/'' oi_ID oi_Evidence oi_RequiresOperations xs"
  "concat (map module_dependencies ms) = link_deps ''dependsOn/'' mi_Name mi_Evidence mi_DependsOn ms"
  unfolding link_deps_def application_dependencies_def operation_dependencies_def module_dependencies_def by (rule refl)+

lemma prepared_entries:
  assumes "nul_free (prepared input)"
  shows "distinct (map ai_ID (in_Applications (prepared input))) \<Longrightarrow> list_all (application_ok \<circ> compile_application) (in_Applications (prepared input)) \<Longrightarrow>
      entries_ok ai_ID ai_Evidence ai_DependsOn (in_Applications (prepared input))"
    "distinct (map oi_ID (in_Operations (prepared input))) \<Longrightarrow> list_all (operation_ok A \<circ> compile_operation) (in_Operations (prepared input)) \<Longrightarrow>
      entries_ok oi_ID oi_Evidence oi_RequiresOperations (in_Operations (prepared input))"
    "distinct (map mi_Name (in_Modules (prepared input))) \<Longrightarrow> list_all (module_ok \<circ> compile_module) (in_Modules (prepared input)) \<Longrightarrow>
      entries_ok mi_Name mi_Evidence mi_DependsOn (in_Modules (prepared input))"
proof -
  let ?i = "prepared input"
  have a: "trim_space (ai_ID a) = ai_ID a \<and> normalizeEvidence (ai_Evidence a) = ai_Evidence a \<and> distinct (ai_DependsOn a) \<and>
      (\<forall>d \<in> set (ai_DependsOn a). trim_space d = d \<and> d \<noteq> [])"
    if "a \<in> set (in_Applications ?i)" for a using that by (auto simp: prepared_fields normalize_application_input_def stableStrings_spec(1) dest: stableStrings_trimmed)
  have x: "trim_space (oi_ID x) = oi_ID x \<and> normalizeEvidence (oi_Evidence x) = oi_Evidence x \<and> distinct (oi_RequiresOperations x) \<and>
      (\<forall>d \<in> set (oi_RequiresOperations x). trim_space d = d \<and> d \<noteq> [])"
    if "x \<in> set (in_Operations ?i)" for x using that by (auto simp: prepared_fields normalize_operation_input_def stableStrings_spec(1) dest: stableStrings_trimmed)
  have m: "trim_space (mi_Name m) = mi_Name m \<and> normalizeEvidence (mi_Evidence m) = mi_Evidence m \<and> distinct (mi_DependsOn m) \<and>
      (\<forall>d \<in> set (mi_DependsOn m). trim_space d = d \<and> d \<noteq> [])"
    if "m \<in> set (in_Modules ?i)" for m using that by (auto simp: prepared_fields normalize_module_input_def stableStrings_spec(1) dest: stableStrings_trimmed)
  have ev: "application_ok (compile_application a) \<Longrightarrow> evidence_ok (ai_Evidence a)" "operation_ok A (compile_operation x) \<Longrightarrow> evidence_ok (oi_Evidence x)"
    "module_ok (compile_module m) \<Longrightarrow> evidence_ok (mi_Evidence m)" for a x m
    by (simp_all add: application_ok_def compile_application_def operation_ok_def compile_operation_def module_ok_def compile_module_def)
  note nul = assms [unfolded nul_free_def]
  show "entries_ok ai_ID ai_Evidence ai_DependsOn (in_Applications ?i)"
    if "distinct (map ai_ID (in_Applications ?i))" "list_all (application_ok \<circ> compile_application) (in_Applications ?i)"
    using that nul a ev(1) unfolding entries_ok_def list_all_iff comp_apply by blast
  show "entries_ok oi_ID oi_Evidence oi_RequiresOperations (in_Operations ?i)"
    if "distinct (map oi_ID (in_Operations ?i))" "list_all (operation_ok A \<circ> compile_operation) (in_Operations ?i)"
    using that nul x ev(2) unfolding entries_ok_def list_all_iff comp_apply by blast
  show "entries_ok mi_Name mi_Evidence mi_DependsOn (in_Modules ?i)"
    if "distinct (map mi_Name (in_Modules ?i))" "list_all (module_ok \<circ> compile_module) (in_Modules ?i)"
    using that nul m ev(3) unfolding entries_ok_def list_all_iff comp_apply by blast
qed

lemma compile_keys [simp]: "ap_ID (compile_application a) = ai_ID a" "ao_ID (compile_operation x) = oi_ID x" "mo_Name (compile_module m) = mi_Name m"
  by (simp_all add: compile_application_def compile_operation_def compile_module_def)

lemma compiled_requirements_ok:
  assumes "list_all (module_ok \<circ> compile_module) (in_Modules (prepared input))"
  shows "list_all (requirement_ok (mi_Name ` set (in_Modules (prepared input)))) (as_Requirements (compiled (prepared input)))"
proof -
  let ?ms = "in_Modules (prepared input)"
  have "requirement_ok (mi_Name ` set ?ms) (normalize_requirement r)" if "m \<in> set ?ms" "r \<in> set (requirementsForModule (compile_module m))" for m r
  proof -
    have "r = normalize_requirement r" using that(2) by (auto simp: requirementsForModule_def Let_def)
    with requirements_ok [of "compile_module m" "mi_Name ` set ?ms" r] that assms entries_normal(3) show ?thesis by (auto simp: list_all_iff)
  qed
  then show ?thesis by (auto simp: compiled_other list_all_iff)
qed

lemma assembly_ok_input:
  assumes "nul_free (prepared input)"
  shows "assembly_ok (compiled (prepared input)) \<longleftrightarrow> input_ok (prepared input)"
proof -
  let ?i = "prepared input"
  note E = prepared_entries [OF assms]
  have g1: "graph_ok (ai_ID ` set (in_Applications ?i)) (as_ApplicationDependencies (compiled ?i)) \<longleftrightarrow>
      link_rel ai_ID ai_DependsOn (in_Applications ?i) \<subseteq> UNIV \<times> ai_ID ` set (in_Applications ?i) \<and> acyclic (link_rel ai_ID ai_DependsOn (in_Applications ?i))"
    if "distinct (map ai_ID (in_Applications ?i))" "list_all (application_ok \<circ> compile_application) (in_Applications ?i)"
    unfolding compiled_other prepared_deps by (rule link_graph_ok(1) [OF E(1) [OF that]])
  have g2: "graph_ok (oi_ID ` set (in_Operations ?i)) (as_OperationDependencies (compiled ?i)) \<longleftrightarrow>
      link_rel oi_ID oi_RequiresOperations (in_Operations ?i) \<subseteq> UNIV \<times> oi_ID ` set (in_Operations ?i) \<and> acyclic (link_rel oi_ID oi_RequiresOperations (in_Operations ?i))"
    if "distinct (map oi_ID (in_Operations ?i))" "list_all (operation_ok (ai_ID ` set (in_Applications ?i)) \<circ> compile_operation) (in_Operations ?i)"
    unfolding compiled_other prepared_deps by (rule link_graph_ok(1) [OF E(2) [OF that]])
  have g3: "graph_ok (mi_Name ` set (in_Modules ?i)) (as_ModuleDependencies (compiled ?i)) \<longleftrightarrow>
      link_rel mi_Name mi_DependsOn (in_Modules ?i) \<subseteq> UNIV \<times> mi_Name ` set (in_Modules ?i) \<and> acyclic (link_rel mi_Name mi_DependsOn (in_Modules ?i))"
    if "distinct (map mi_Name (in_Modules ?i))" "list_all (module_ok \<circ> compile_module) (in_Modules ?i)"
    unfolding compiled_other prepared_deps by (rule link_graph_ok(1) [OF E(3) [OF that]])
  have keys: "map ap_ID (map compile_application as) = map ai_ID as" "ap_ID ` set (map compile_application as) = ai_ID ` set as"
    "map ao_ID (map compile_operation xs) = map oi_ID xs" "ao_ID ` set (map compile_operation xs) = oi_ID ` set xs"
    "map mo_Name (map compile_module ms) = map mi_Name ms" "mo_Name ` set (map compile_module ms) = mi_Name ` set ms"
    "list_all P (map compile_application as) = list_all (P \<circ> compile_application) as" "list_all Q (map compile_operation xs) = list_all (Q \<circ> compile_operation) xs"
    "list_all R (map compile_module ms) = list_all (R \<circ> compile_module) ms" for as xs ms P Q R
    by (simp_all add: image_image list.pred_map)
  have req: "equalRequirements (concat (map requirementsForModule (map compile_module ms))) (normalizeRequirements (concat (map requirementsForModule (map compile_module ms))))" for ms
    by (simp add: equalRequirements_def)
  have reqs: "equalRequirements (concat (map requirementsForModule (map compile_module (in_Modules ?i)))) (as_Requirements (compiled ?i))"
    unfolding compiled_other by (rule req)
  have id: "as_Identity (compiled ?i) \<noteq> []" using prepared_fields(4,5) [of input] by (simp add: compiled_other(2))
  have target: "\<exists>target. as_Targets (compiled ?i) = [target] \<and> tg_Name target = RootTarget \<and> equalTarget (deriveRootTarget (compiled ?i)) target"
    by (simp add: compiled_other(8)) (simp add: deriveRootTarget_def)
  have closure: "equalDependencies (dependencyClosure (as_ApplicationDependencies (compiled ?i)) closure_source) (as_ApplicationDependencyClosure (compiled ?i))"
    by (simp add: compiled_other(4))
  show ?thesis
    unfolding assembly_ok_def input_ok_def compiled_fields keys using compiled_other(1) id target closure reqs
    by (simp add: g1 g2 g3 compiled_requirements_ok cong: conj_cong)
qed

section \<open>Properties\<close>

lemma Compile_Inr: "Compile input = Inr plan \<longleftrightarrow> plan = compiled (prepared input) \<and> assembly_ok plan"
  using validate_assembly_None [OF compiled_normal, of "prepared input"] by (auto simp: Compile_compiled split: option.splits)

text \<open>Property C14: the compiler succeeds exactly on well-formed input. The input must name every application by its domain and name, give every
  entry an id of its own and evidence, refer only to entries that exist, and have no dependency cycle; the parts the compiler derives
  (closure, inventory, target) then always pass the validation that ends it. Ids must be free of NUL bytes.\<close>

theorem Compile_succeeds_iff:
  assumes "nul_free (prepared input)"
  shows "(\<exists>plan. Compile input = Inr plan) \<longleftrightarrow> input_ok (prepared input)"
  using assembly_ok_input [OF assms] by (simp add: Compile_Inr)

text \<open>What a module asks of its platform, as kinds and names.\<close>

definition module_needs :: "ModuleRequirements \<Rightarrow> (string \<times> string) list" where
  "module_needs q =
     (if mq_ConfigKey q \<noteq> [] then [(''config'', mq_ConfigKey q)] else []) @ (if mq_Logger q then [(''logger'', [])] else []) @
     map (Pair ''database'') (mq_Databases q) @ (if mq_EventBus q then [(''event_bus'', [])] else []) @ map (Pair ''rpc'') (mq_RPC q)"

lemma requirement_needs:
  assumes "normalize_module m = m"
  shows "(\<lambda>r. (rq_Module r, rq_Kind r, rq_Name r)) ` set (requirementsForModule m) = Pair (mo_Name m) ` set (module_needs (mo_Requirements m))"
proof -
  let ?q = "mo_Requirements m" and ?key = "\<lambda>r. (rq_Module r, rq_Kind r, rq_Name r)"
  have q: "trim_space (mo_Name m) = mo_Name m" "trim_space (mq_ConfigKey ?q) = mq_ConfigKey ?q" "stableStrings (mq_Databases ?q) = mq_Databases ?q"
    "stableStrings (mq_RPC ?q) = mq_RPC ?q"
    using arg_cong [OF assms, of mo_Name] arg_cong [OF assms, of "\<lambda>m. mq_ConfigKey (mo_Requirements m)"]
      arg_cong [OF assms, of "\<lambda>m. mq_Databases (mo_Requirements m)"] arg_cong [OF assms, of "\<lambda>m. mq_RPC (mo_Requirements m)"]
    by (simp_all add: normalize_module_def normalize_module_requirements_def)
  have kinds: "to_lower (trim_space ''config'') = ''config''" "to_lower (trim_space ''database'') = ''database''" "to_lower (trim_space ''rpc'') = ''rpc''"
    "to_lower (trim_space ''logger'') = ''logger''" "to_lower (trim_space ''event_bus'') = ''event_bus''" by code_simp+
  have key: "?key (normalize_requirement (base_requirement m k n ref)) = (mo_Name m, to_lower (trim_space k), trim_space n)" for k n ref
    by (simp add: normalize_requirement_def base_requirement_def q(1))
  have trimmed: "map (\<lambda>d. (x, k, trim_space d)) ds = map (\<lambda>d. (x, k, d)) ds" if "stableStrings ds = ds" for x k :: string and ds
    using stableStrings_trimmed [of _ ds] that by auto
  have ifs: "map f (if c then [x] else []) = (if c then [f x] else [])" for f :: "'a \<Rightarrow> 'b" and c x by simp
  let ?raw = "(if mq_ConfigKey ?q \<noteq> [] then [base_requirement m ''config'' (mq_ConfigKey ?q) ''/requirements/configKey''] else []) @
     (if mq_Logger ?q then [base_requirement m ''logger'' [] ''/requirements/logger''] else []) @
     map (\<lambda>d. base_requirement m ''database'' d (''/requirements/databases/'' @ d)) (stableStrings (mq_Databases ?q)) @
     (if mq_EventBus ?q then [base_requirement m ''event_bus'' [] ''/requirements/eventBus''] else []) @
     map (\<lambda>r. base_requirement m ''rpc'' r (''/requirements/rpc/'' @ r)) (stableStrings (mq_RPC ?q))"
  have "map (\<lambda>r. ?key (normalize_requirement r)) ?raw = map (Pair (mo_Name m)) (module_needs ?q)"
    unfolding module_needs_def map_append ifs map_map comp_def key kinds q trim_space_Nil trimmed [OF q(3)] trimmed [OF q(4)] by (rule refl)
  then have "set (map (\<lambda>r. ?key (normalize_requirement r)) ?raw) = set (map (Pair (mo_Name m)) (module_needs ?q))" by (simp only:)
  then have "?key ` normalize_requirement ` set ?raw = Pair (mo_Name m) ` set (module_needs ?q)" unfolding set_map image_image .
  moreover have "set (requirementsForModule m) = normalize_requirement ` set ?raw"
    unfolding requirementsForModule_def Let_def set_normalizeRequirements ..
  ultimately show ?thesis by (simp only:)
qed

lemma plan_lists:
  assumes normal: "asm_Normalize plan = plan" and ok: "assembly_ok plan"
  shows "stableStrings (map ap_ID (as_Applications plan)) = map ap_ID (as_Applications plan)"
    "stableStrings (map mo_Name (as_Modules plan)) = map mo_Name (as_Modules plan)"
    "stableStrings (map ao_ID (filter P (as_Operations plan))) = map ao_ID (filter P (as_Operations plan))"
proof -
  note ids = normal_plan_ids [OF normal]
  have sorted: "sorted (map ap_ID (as_Applications plan))" "sorted (map mo_Name (as_Modules plan))" "sorted (map ao_ID (as_Operations plan))"
    by (subst normal [symmetric], simp add: asm_Normalize_def)+
  show "stableStrings (map ap_ID (as_Applications plan)) = map ap_ID (as_Applications plan)"
    by (rule stableStrings_fixed) (use sorted ok ids in \<open>auto simp: assembly_ok_def list_all_iff application_ok_def\<close>)
  show "stableStrings (map mo_Name (as_Modules plan)) = map mo_Name (as_Modules plan)"
    by (rule stableStrings_fixed) (use sorted ok ids in \<open>auto simp: assembly_ok_def list_all_iff module_ok_def\<close>)
  show "stableStrings (map ao_ID (filter P (as_Operations plan))) = map ao_ID (filter P (as_Operations plan))"
    by (rule stableStrings_fixed) (use sorted ok ids in \<open>auto simp: assembly_ok_def list_all_iff operation_ok_def sorted_filter distinct_map_filter\<close>)
qed

lemma compiled_inventory:
  "(\<lambda>r. (rq_Module r, rq_Kind r, rq_Name r)) ` set (as_Requirements (compiled (prepared input))) =
     (\<Union>m \<in> set (as_Modules (compiled (prepared input))). Pair (mo_Name m) ` set (module_needs (mo_Requirements m)))"
proof -
  let ?key = "\<lambda>r. (rq_Module r, rq_Kind r, rq_Name r)" and ?ms = "as_Modules (compiled (prepared input))"
  have ms: "normalize_module m = m" if "m \<in> set ?ms" for m using that entries_normal(3) by (auto simp: compiled_fields)
  have "set (as_Requirements (compiled (prepared input))) = (\<Union>m \<in> set ?ms. normalize_requirement ` set (requirementsForModule m))"
    by (simp add: compiled_other compiled_fields image_UN)
  also have "\<dots> = (\<Union>m \<in> set ?ms. set (requirementsForModule m))"
    by (simp add: requirementsForModule_def Let_def image_image)
  finally show ?thesis using requirement_needs [OF ms] by (simp add: image_UN)
qed

text \<open>Property C15: what a compiled plan holds. It is normal and valid; its closure holds exactly the pairs of applications of which the first depends on the second,
  directly or through others; its inventory holds exactly what its modules ask for; its only target, the root, lists all
  applications and modules, and every operation on the external list if it has bindings and on the internal list if it has none.\<close>

theorem Compile_plan:
  assumes "Compile input = Inr plan"
  shows "asm_Normalize plan = plan \<and> asm_Validate plan = None \<and>
    (\<lambda>d. (de_From d, de_To d)) ` set (as_ApplicationDependencyClosure plan) = (dependency_rel (as_ApplicationDependencies plan))\<^sup>+ \<and>
    (\<lambda>r. (rq_Module r, rq_Kind r, rq_Name r)) ` set (as_Requirements plan) = (\<Union>m \<in> set (as_Modules plan). Pair (mo_Name m) ` set (module_needs (mo_Requirements m))) \<and>
    (\<exists>t. as_Targets plan = [t] \<and> tg_Applications t = map ap_ID (as_Applications plan) \<and> tg_Modules t = map mo_Name (as_Modules plan) \<and>
       tg_External t = map ao_ID (filter (\<lambda>x. ao_Bindings x \<noteq> []) (as_Operations plan)) \<and>
       tg_Internal t = map ao_ID (filter (\<lambda>x. ao_Bindings x = []) (as_Operations plan)))"
proof -
  from assms have plan: "plan = compiled (prepared input)" and ok: "assembly_ok plan" by (auto simp: Compile_Inr)
  have normal: "asm_Normalize plan = plan" by (simp add: plan)
  have "acyclic (dependency_rel (as_ApplicationDependencies plan))" using ok by (simp add: assembly_ok_def graph_ok_def)
  then have "{(a, b). (a, b) \<in> (dependency_rel (as_ApplicationDependencies plan))\<^sup>+ \<and> a \<noteq> b} = (dependency_rel (as_ApplicationDependencies plan))\<^sup>+"
    by (auto simp: acyclic_def)
  then have closure: "(\<lambda>d. (de_From d, de_To d)) ` set (as_ApplicationDependencyClosure plan) = (dependency_rel (as_ApplicationDependencies plan))\<^sup>+"
    unfolding plan compiled_other(4) dependencyClosure_pairs .
  have valid: "asm_Validate plan = None" using validate_assembly_None [OF normal] ok by (simp add: asm_Validate_def normal)
  have target: "as_Targets plan = [deriveRootTarget plan]" unfolding plan by (rule compiled_other(8))
  show ?thesis
    using normal valid closure compiled_inventory [of input, folded plan] target plan_lists [OF normal ok] by (auto simp: deriveRootTarget_def)
qed

lemma sort_key_perm:
  assumes "mset xs = mset ys" "distinct (map k xs)"
  shows "sort_key k xs = sort_key k ys"
proof (rule properties_for_sort_key)
  show "mset (sort_key k ys) = mset xs" using assms(1) by simp
  have d: "distinct (map k (sort_key k ys))" using assms by (metis mset_eq_imp_distinct_iff mset_map mset_sort)
  show "filter (\<lambda>x. k z = k x) (sort_key k ys) = filter (\<lambda>x. k z = k x) xs" if "z \<in> set (sort_key k ys)" for z
  proof -
    have one: "filter (\<lambda>x. k z = k x) zs = [z]" if "distinct (map k zs)" "z \<in> set zs" for zs
      using that by (induction zs) (auto simp: filter_empty_conv image_iff)
    have "z \<in> set xs" using that assms(1) by (metis set_mset_mset set_sort)
    with one [OF d that] one [OF assms(2)] show ?thesis by simp
  qed
qed simp

text \<open>Property C16: the order in which the entries of an input are declared does not matter: when the compiler accepts an input, it gives the same plan for
  every permutation of its applications, operations and modules.\<close>

theorem Compile_order_independent:
  assumes "Compile input = Inr plan" "in_Identity input' = in_Identity input" "mset (in_Applications input') = mset (in_Applications input)"
    "mset (in_Operations input') = mset (in_Operations input)" "mset (in_Modules input') = mset (in_Modules input)"
  shows "Compile input' = Inr plan"
proof -
  have ok: "assembly_ok (compiled (prepared input))" using assms(1) by (auto simp: Compile_Inr)
  have d: "distinct (map ap_ID (as_Applications (compiled (prepared input))))" "distinct (map ao_ID (as_Operations (compiled (prepared input))))"
    "distinct (map mo_Name (as_Modules (compiled (prepared input))))" using ok by (simp_all add: assembly_ok_def)
  have perm: "sort_key k (map f xs') = sort_key k (map f xs)" if "mset xs' = mset xs" "distinct (map k (sort_key k (map f xs)))" for f :: "'a \<Rightarrow> 'b" and k :: "'b \<Rightarrow> string" and xs xs'
    by (rule sort_key_perm [symmetric]) (use that in \<open>simp_all add: sort_map_distinct mset_map\<close>)
  have "prepared input' = prepared input"
    using d perm [OF assms(3), of ai_ID normalize_application_input] perm [OF assms(4), of oi_ID normalize_operation_input] perm [OF assms(5), of mi_Name normalize_module_input]
    by (simp add: compiled_fields prepared_fields comp_def) (simp add: prepared_def normalizeInput_def assms(2))
  with assms(1) show ?thesis by (auto simp: Compile_Inr)
qed

section \<open>An input\<close>

definition ex_evidence :: Evidence where
  "ex_evidence = \<lparr>ev_Ownership = ''canonical'', ev_Source = ''s'', ev_Ref = '' r''\<rparr>"

definition ex_applications :: "ApplicationInput list" where
  "ex_applications =
     [\<lparr>ai_ID = ''d/b'', ai_Domain = ''d'', ai_Name = ''b'', ai_DependsOn = [], ai_Capabilities = [], ai_Evidence = ex_evidence\<rparr>,
      \<lparr>ai_ID = ''d/a '', ai_Domain = ''d'', ai_Name = ''a'', ai_DependsOn = ['' d/b''], ai_Capabilities = [], ai_Evidence = ex_evidence\<rparr>]"

definition ex_modules_input :: "ModuleInput list" where
  "ex_modules_input =
     [\<lparr>mi_Name = ''m'', mi_Version = [], mi_DependsOn = [],
       mi_Requirements = \<lparr>mq_ConfigKey = [], mq_Logger = True, mq_Databases = [''x''], mq_EventBus = False, mq_RPC = []\<rparr>, mi_Evidence = ex_evidence\<rparr>]"

definition ex_operations_input :: "OperationInput list" where
  "ex_operations_input =
     [\<lparr>oi_ID = ''o'', oi_Application = ''d/a'', oi_RequiresOperations = [],
       oi_Bindings = [\<lparr>bi_Transport = ''HTTP'', bi_Index = 0, bi_Evidence = ex_evidence\<rparr>], oi_Evidence = ex_evidence\<rparr>]"

definition ex_input :: AsmInput where
  "ex_input = \<lparr>in_Identity = [], in_Applications = ex_applications, in_Operations = ex_operations_input, in_Modules = ex_modules_input\<rparr>"

lemma ex_input_compiles: "\<exists>plan. Compile ex_input = Inr plan"
proof -
  have "\<not> isl (Compile ex_input)" by code_simp
  then show ?thesis by (cases "Compile ex_input") auto
qed

theorem Compile_succeeds_iff_witness: "input_ok (prepared ex_input)"
proof -
  have "nul_free (prepared ex_input)" by code_simp
  from Compile_succeeds_iff [OF this] ex_input_compiles show ?thesis by blast
qed

theorem Compile_plan_witness:
  "\<exists>plan t. Compile ex_input = Inr plan \<and> as_Targets plan = [t] \<and> tg_Applications t = map ap_ID (as_Applications plan) \<and>
     (\<lambda>d. (de_From d, de_To d)) ` set (as_ApplicationDependencyClosure plan) = (dependency_rel (as_ApplicationDependencies plan))\<^sup>+"
proof -
  obtain plan where plan: "Compile ex_input = Inr plan" using ex_input_compiles by blast
  from Compile_plan [OF this] obtain t where "as_Targets plan = [t]" "tg_Applications t = map ap_ID (as_Applications plan)"
    "(\<lambda>d. (de_From d, de_To d)) ` set (as_ApplicationDependencyClosure plan) = (dependency_rel (as_ApplicationDependencies plan))\<^sup>+"
    by (elim conjE exE)
  with plan show ?thesis by (intro exI conjI)
qed

theorem Compile_order_independent_witness:
  "\<exists>plan. Compile ex_input = Inr plan \<and> Compile (ex_input\<lparr>in_Applications := rev (in_Applications ex_input)\<rparr>) = Inr plan"
proof -
  obtain plan where plan: "Compile ex_input = Inr plan" using ex_input_compiles by blast
  have "Compile (ex_input\<lparr>in_Applications := rev (in_Applications ex_input)\<rparr>) = Inr plan"
    by (rule Compile_order_independent [OF plan]) simp_all
  with plan show ?thesis by blast
qed

end
