(* ===== verification/ModuleCatalog.thy ===== *)
theory ModuleCatalog
  imports ModuleDescriptor
begin

text \<open>
  The module catalog of \<open>framework/core/modulecatalog/catalog.go\<close>: registration, sealing, and the
  dependency resolution that fixes the order in which an application builds its modules. The map of
  descriptors is an association list; the counters and adjacency lists of \<open>resolvePlan\<close> are maps read
  with Go's zero value for a missing key. A nil receiver is \<^const>\<open>None\<close>. The mutex of the catalog
  makes each method one atomic step.
\<close>

section \<open>Data\<close>

record 'b Plan =
  plan_descriptors :: "'b Descriptor list"

record 'b Catalog =
  cat_descriptors :: "(string \<times> 'b Descriptor) list"
  cat_sealed :: bool
  cat_plan :: "'b Plan"

record ConfigRequirement =
  cfg_module :: string
  cfg_key :: string

record RequirementSet =
  rs_modules :: "string list"
  rs_configs :: "ConfigRequirement list"
  rs_logger :: bool
  rs_databases :: "DatabaseRequirement list"
  rs_eventbus :: bool
  rs_rpc :: "RPCRequirement list"

definition empty_plan :: "'b Plan" where
  "empty_plan = \<lparr>plan_descriptors = []\<rparr>"

section \<open>Plans\<close>

definition plan_names :: "'b Plan \<Rightarrow> string list" where
  "plan_names plan = map d_name (plan_descriptors plan)"

text \<open>
  \<open>Plan.Requirements\<close> collects the names of databases and RPC targets in maps and sorts the keys; the
  set of keys of the map is a \<open>remdups\<close> here.
\<close>

definition plan_requirements :: "'b Plan \<Rightarrow> RequirementSet" where
  "plan_requirements plan =
     (let ds = plan_descriptors plan in
      \<lparr>rs_modules = plan_names plan,
       rs_configs = sort_key (\<lambda>c. (cfg_module c, cfg_key c))
         (map (\<lambda>d. \<lparr>cfg_module = d_name d, cfg_key = ConfigKey (d_reqs d)\<rparr>)
            (filter (\<lambda>d. ConfigKey (d_reqs d) \<noteq> []) ds)),
       rs_logger = list_ex (\<lambda>d. ReqLogger (d_reqs d)) ds,
       rs_databases = map (\<lambda>n. \<lparr>db_name = n\<rparr>)
         (sort (remdups (concat (map (\<lambda>d. map db_name (ReqDatabases (d_reqs d))) ds)))),
       rs_eventbus = list_ex (\<lambda>d. ReqEventBus (d_reqs d)) ds,
       rs_rpc = map (\<lambda>n. \<lparr>rpc_name = n\<rparr>)
         (sort (remdups (concat (map (\<lambda>d. map rpc_name (ReqRPC (d_reqs d))) ds))))\<rparr>)"

definition clonePlan :: "'b Plan \<Rightarrow> 'b Plan" where
  "clonePlan plan = plan\<lparr>plan_descriptors := map cloneDescriptor (plan_descriptors plan)\<rparr>"

lemma clonePlan_eq [simp]: "clonePlan plan = plan"
  by (simp add: clonePlan_def map_idI)

section \<open>Dependency resolution\<close>

definition insertSorted :: "string list \<Rightarrow> string \<Rightarrow> string list" where
  "insertSorted values v =
     (let index = search_strings values v in take index values @ v # drop index values)"

fun add_providers :: "string \<Rightarrow> CapabilityContract list \<Rightarrow> (string \<times> string) list \<Rightarrow> (string \<times> string) list result" where
  "add_providers name [] providers = Inr providers"
| "add_providers name (c # cs) providers =
     (case map_of providers (cap_name c) of
        Some previous \<Rightarrow>
          Inl (Err ''modulecatalog: capability %q has multiple providers: %q and %q'' [cap_name c, previous, name])
      | None \<Rightarrow> add_providers name cs (AList.update (cap_name c) name providers))"

fun collect_providers ::
  "(string \<times> 'b Descriptor) list \<Rightarrow> string list \<Rightarrow> (string \<times> string) list \<Rightarrow> (string \<times> string) list result" where
  "collect_providers ds [] providers = Inr providers"
| "collect_providers ds (name # names) providers =
     (case map_of ds name of
        None \<Rightarrow> collect_providers ds names providers
      | Some d \<Rightarrow>
          (case add_providers name (d_provides d) providers of
             Inl e \<Rightarrow> Inl e
           | Inr providers' \<Rightarrow> collect_providers ds names providers'))"

type_synonym indegrees = "(string \<times> int) list"
type_synonym adjacency = "(string \<times> string list) list"

fun add_edges ::
  "(string \<times> 'b Descriptor) list \<Rightarrow> string \<Rightarrow> string list \<Rightarrow> indegrees \<times> adjacency \<Rightarrow> (indegrees \<times> adjacency) result" where
  "add_edges ds name [] st = Inr st"
| "add_edges ds name (dep # deps) (ind, dependents) =
     (if map_of ds dep = None
      then Inl (Err ''modulecatalog: module %q dependency %q is not registered'' [name, dep])
      else add_edges ds name deps
             (AList.update name (get0 ind name + 1) ind,
              AList.update dep (getl dependents dep @ [name]) dependents))"

definition deps_of :: "(string \<times> 'b Descriptor) list \<Rightarrow> string \<Rightarrow> string list" where
  "deps_of ds name = (case map_of ds name of None \<Rightarrow> [] | Some d \<Rightarrow> d_depends d)"

fun collect_edges ::
  "(string \<times> 'b Descriptor) list \<Rightarrow> string list \<Rightarrow> indegrees \<times> adjacency \<Rightarrow> (indegrees \<times> adjacency) result" where
  "collect_edges ds [] st = Inr st"
| "collect_edges ds (name # names) st =
     (case add_edges ds name (deps_of ds name) st of
        Inl e \<Rightarrow> Inl e
      | Inr st' \<Rightarrow> collect_edges ds names st')"

text \<open>The inner loop over the dependents of a module that was just ordered.\<close>

fun release :: "string list \<Rightarrow> indegrees \<Rightarrow> string list \<Rightarrow> indegrees \<times> string list" where
  "release [] ind ready = (ind, ready)"
| "release (d # ds) ind ready =
     (let v = get0 ind d - 1 in
      release ds (AList.update d v ind) (if v = 0 then insertSorted ready d else ready))"

definition positive :: "indegrees \<Rightarrow> nat" where
  "positive ind = length (filter (\<lambda>p. 0 < snd p) ind)"

lemma length_insertSorted: "length (insertSorted xs v) = Suc (length xs)"
proof -
  have "length (insertSorted xs v) =
    length (take (search_strings xs v) xs @ drop (search_strings xs v) xs) + 1"
    unfolding insertSorted_def Let_def by simp
  then show ?thesis by (simp del: length_append)
qed

lemma positive_update_le: "v \<le> get0 ind d \<Longrightarrow> positive (AList.update d v ind) \<le> positive ind"
proof (induction ind)
  case (Cons p ind)
  then show ?case by (cases p) (auto simp: positive_def get0_def split: if_splits)
qed (simp add: positive_def get0_def)

lemma positive_update_zero: "get0 ind d = 1 \<Longrightarrow> Suc (positive (AList.update d 0 ind)) = positive ind"
proof (induction ind)
  case (Cons p ind)
  then show ?case by (cases p) (auto simp: positive_def get0_def split: if_splits)
qed (simp add: get0_def)

lemma release_potential:
  "release ds ind ready = (ind', ready') \<Longrightarrow> length ready' + positive ind' \<le> length ready + positive ind"
proof (induction ds arbitrary: ind ready)
  case (Cons d ds)
  let ?v = "get0 ind d - 1"
  let ?ready = "if ?v = 0 then insertSorted ready d else ready"
  have "length ready' + positive ind' \<le> length ?ready + positive (AList.update d ?v ind)"
    using Cons.prems by (intro Cons.IH) (simp add: Let_def)
  also have "\<dots> \<le> length ready + positive ind"
  proof (cases "?v = 0")
    case True
    then have "get0 ind d = 1" by simp
    with positive_update_zero [of ind d] True show ?thesis by (simp add: length_insertSorted)
  next
    case False
    with positive_update_le [of ?v ind d] show ?thesis by simp
  qed
  finally show ?case .
qed simp

function kahn :: "adjacency \<Rightarrow> string list \<Rightarrow> indegrees \<Rightarrow> string list \<Rightarrow> indegrees \<times> string list" where
  "kahn dependents [] ind ordered = (ind, ordered)"
| "kahn dependents (name # ready) ind ordered =
     kahn dependents (snd (release (getl dependents name) ind ready))
       (fst (release (getl dependents name) ind ready)) (ordered @ [name])"
  by pat_completeness auto
termination
proof (relation "measure (\<lambda>(dependents, ready, ind, ordered). length ready + positive ind)", goal_cases)
  case (2 dependents name ready ind ordered)
  show ?case
    using release_potential [of "getl dependents name" ind ready]
    by (cases "release (getl dependents name) ind ready") force
qed simp

definition resolvePlan :: "(string \<times> 'b Descriptor) list \<Rightarrow> 'b Plan result" where
  "resolvePlan ds =
     (let names = sort (map fst ds) in
      case collect_providers ds names [] of
        Inl e \<Rightarrow> Inl e
      | Inr _ \<Rightarrow>
        (case collect_edges ds names (map (\<lambda>n. (n, 0)) names, []) of
           Inl e \<Rightarrow> Inl e
         | Inr (indegree, dependents) \<Rightarrow>
           (let dependents = map (\<lambda>(n, xs). (n, sort xs)) dependents;
                ready = filter (\<lambda>n. get0 indegree n = 0) names;
                (indegree', ordered) = kahn dependents ready indegree []
            in if length ordered \<noteq> length ds
               then Inl (Err ''modulecatalog: dependency cycle among %s''
                           (filter (\<lambda>n. 0 < get0 indegree' n) names))
               else Inr \<lparr>plan_descriptors = map (\<lambda>n. cloneDescriptor (the (map_of ds n))) ordered\<rparr>)))"

section \<open>The catalog\<close>

definition New :: "'b Catalog" where
  "New = \<lparr>cat_descriptors = [], cat_sealed = False, cat_plan = empty_plan\<rparr>"

definition Register :: "'b Catalog option \<Rightarrow> 'b Descriptor \<Rightarrow> goerr option \<times> 'b Catalog option" where
  "Register catalog descriptor =
     (case catalog of
        None \<Rightarrow> (Some (Err ''modulecatalog: nil catalog'' []), None)
      | Some c \<Rightarrow>
        (case normalizeDescriptor descriptor of
           Inl e \<Rightarrow> (Some e, Some c)
         | Inr normalized \<Rightarrow>
           if cat_sealed c then (Some (Err ''modulecatalog: catalog is sealed'' []), Some c)
           else if map_of (cat_descriptors c) (d_name normalized) \<noteq> None
           then (Some (Err ''modulecatalog: duplicate module %q'' [d_name normalized]), Some c)
           else (None, Some (c\<lparr>cat_descriptors :=
                   AList.update (d_name normalized) (cloneDescriptor normalized) (cat_descriptors c)\<rparr>))))"

definition Seal :: "'b Catalog option \<Rightarrow> 'b Plan result \<times> 'b Catalog option" where
  "Seal catalog =
     (case catalog of
        None \<Rightarrow> (Inl (Err ''modulecatalog: nil catalog'' []), None)
      | Some c \<Rightarrow>
        if cat_sealed c then (Inr (clonePlan (cat_plan c)), Some c)
        else case resolvePlan (cat_descriptors c) of
               Inl e \<Rightarrow> (Inl e, Some c)
             | Inr plan \<Rightarrow> (Inr (clonePlan plan), Some (c\<lparr>cat_plan := plan, cat_sealed := True\<rparr>)))"

definition IsSealed :: "'b Catalog option \<Rightarrow> bool" where
  "IsSealed catalog = (case catalog of None \<Rightarrow> False | Some c \<Rightarrow> cat_sealed c)"

definition Len :: "'b Catalog option \<Rightarrow> nat" where
  "Len catalog = (case catalog of None \<Rightarrow> 0 | Some c \<Rightarrow> length (cat_descriptors c))"

section \<open>Correctness of the resolution\<close>

lemma insertSorted_sorted: "sorted xs \<Longrightarrow> sorted (insertSorted xs v)"
proof -
  assume xs: "sorted xs"
  have split: "xs = takeWhile (\<lambda>x. x < v) xs @ dropWhile (\<lambda>x. x < v) xs" by simp
  have "v \<le> y" if "y \<in> set (dropWhile (\<lambda>x. x < v) xs)" for y
  proof -
    have "dropWhile (\<lambda>x. x < v) xs \<noteq> []" using that by (metis empty_iff empty_set)
    then obtain h t where ht: "dropWhile (\<lambda>x. x < v) xs = h # t" by (meson neq_Nil_conv)
    then have "\<not> h < v" by (simp add: dropWhile_eq_Cons_conv)
    moreover have "sorted (h # t)" using xs ht by (metis sorted_append split)
    ultimately show ?thesis using that ht by (fastforce simp: not_less)
  qed
  moreover have "x \<le> v" if "x \<in> set (takeWhile (\<lambda>x. x < v) xs)" for x
    using set_takeWhileD [OF that] less_imp_le by blast
  moreover have "sorted (takeWhile (\<lambda>x. x < v) xs)" "sorted (dropWhile (\<lambda>x. x < v) xs)"
    "\<forall>x \<in> set (takeWhile (\<lambda>x. x < v) xs). \<forall>y \<in> set (dropWhile (\<lambda>x. x < v) xs). x \<le> y"
    using xs by (metis sorted_append split)+
  ultimately show ?thesis
    by (auto simp: insertSorted_def Let_def search_strings_split sorted_append)
qed

lemma set_insertSorted: "set (insertSorted xs v) = insert v (set xs)"
proof -
  have "set xs = set (take (search_strings xs v) xs) \<union> set (drop (search_strings xs v) xs)"
    by (metis append_take_drop_id set_append)
  then show ?thesis by (auto simp: insertSorted_def Let_def)
qed

lemma distinct_insertSorted: "v \<notin> set xs \<Longrightarrow> distinct xs \<Longrightarrow> distinct (insertSorted xs v)"
proof -
  assume v: "v \<notin> set xs" and d: "distinct xs"
  let ?i = "search_strings xs v"
  have "distinct (take ?i xs @ drop ?i xs)" using d by simp
  moreover have "v \<notin> set (take ?i xs)" "v \<notin> set (drop ?i xs)"
    using v by (auto dest: in_set_takeD in_set_dropD)
  ultimately show ?thesis by (simp add: insertSorted_def Let_def del: append_take_drop_id)
qed

lemma release_spec:
  assumes "release ds ind ready = (ind', ready')" and "distinct ds" and "sorted ready" and "distinct ready"
    and "\<forall>m \<in> set ds. m \<notin> set ready"
  shows "get0 ind' m = get0 ind m - (if m \<in> set ds then 1 else 0)"
    and "sorted ready'" and "distinct ready'"
    and "set ready' = set ready \<union> {m \<in> set ds. get0 ind m = 1}"
proof -
  have "(\<forall>m. get0 ind' m = get0 ind m - (if m \<in> set ds then 1 else 0)) \<and> sorted ready' \<and> distinct ready' \<and>
    set ready' = set ready \<union> {m \<in> set ds. get0 ind m = 1}"
    using assms
  proof (induction ds arbitrary: ind ready)
    case (Cons d ds)
    let ?v = "get0 ind d - 1"
    let ?ready = "if ?v = 0 then insertSorted ready d else ready"
    have rel: "release ds (AList.update d ?v ind) ?ready = (ind', ready')"
      using Cons.prems(1) by (simp add: Let_def)
    have "distinct ds" "sorted ?ready" "distinct ?ready" "\<forall>m \<in> set ds. m \<notin> set ?ready"
      using Cons.prems by (auto simp: insertSorted_sorted distinct_insertSorted set_insertSorted)
    from Cons.IH [OF rel this] Cons.prems(2) show ?case
      by (auto simp: set_insertSorted split: if_splits)
  qed simp
  then show "get0 ind' m = get0 ind m - (if m \<in> set ds then 1 else 0)" and "sorted ready'" and "distinct ready'"
    and "set ready' = set ready \<union> {m \<in> set ds. get0 ind m = 1}" by auto
qed

lemma add_edges_spec:
  assumes "add_edges ds name deps st = Inr st'" and "distinct deps"
  shows "get0 (fst st') m = get0 (fst st) m + (if m = name then int (length deps) else 0)"
    and "getl (snd st') x = getl (snd st) x @ (if x \<in> set deps then [name] else [])"
    and "set deps \<subseteq> fst ` set ds"
proof -
  have "(\<forall>m. get0 (fst st') m = get0 (fst st) m + (if m = name then int (length deps) else 0)) \<and>
    (\<forall>x. getl (snd st') x = getl (snd st) x @ (if x \<in> set deps then [name] else [])) \<and> set deps \<subseteq> fst ` set ds"
    using assms
  proof (induction deps arbitrary: st)
    case (Cons dep deps)
    obtain ind adj where st: "st = (ind, adj)" by (cases st)
    let ?st = "(AList.update name (get0 ind name + 1) ind, AList.update dep (getl adj dep @ [name]) adj)"
    from Cons.prems st have "map_of ds dep \<noteq> None" and "add_edges ds name deps ?st = Inr st'" "distinct deps"
      by (auto split: if_splits)
    with Cons.IH [of ?st] Cons.prems(2) st show ?case
      by (auto simp: map_of_eq_None_iff intro: map_of_Some_key)
  qed simp
  then show "get0 (fst st') m = get0 (fst st) m + (if m = name then int (length deps) else 0)"
    and "getl (snd st') x = getl (snd st) x @ (if x \<in> set deps then [name] else [])"
    and "set deps \<subseteq> fst ` set ds" by blast+
qed

lemma collect_edges_spec:
  assumes "collect_edges ds names st = Inr st'" and "distinct names" and "\<forall>n \<in> set names. distinct (deps_of ds n)"
  shows "(\<forall>m. get0 (fst st') m = get0 (fst st) m + (if m \<in> set names then int (length (deps_of ds m)) else 0)) \<and>
    (\<forall>x. getl (snd st') x = getl (snd st) x @ filter (\<lambda>n. x \<in> set (deps_of ds n)) names) \<and>
    (\<forall>n \<in> set names. set (deps_of ds n) \<subseteq> fst ` set ds)"
  using assms
proof (induction names arbitrary: st)
  case (Cons name names)
  then obtain st1 where 1: "add_edges ds name (deps_of ds name) st = Inr st1"
    and 2: "collect_edges ds names st1 = Inr st'"
    by (auto split: sum.splits)
  note add_edges_spec [OF 1]
  with Cons.IH [OF 2] Cons.prems show ?case by auto
qed simp

lemma getl_map_sort: "getl (map (\<lambda>(n, xs). (n, sort xs)) adj) x = sort (getl adj x)"
  by (simp add: getl_def map_of_map split: option.splits)

text \<open>\<open>topo deps S o\<close>: with the modules of \<open>S\<close> done, the order \<open>o\<close> puts every module after its dependencies.\<close>

fun topo :: "('n \<Rightarrow> 'n list) \<Rightarrow> 'n set \<Rightarrow> 'n list \<Rightarrow> bool" where
  "topo deps S [] = True"
| "topo deps S (n # ns) = (set (deps n) \<subseteq> S \<and> topo deps (insert n S) ns)"

lemma topo_append: "topo deps S (xs @ ys) = (topo deps S xs \<and> topo deps (S \<union> set xs) ys)"
  by (induction xs arbitrary: S) auto

lemma topo_nth: "topo deps S o' \<Longrightarrow> i < length o' \<Longrightarrow> set (deps (o' ! i)) \<subseteq> S \<union> set (take i o')"
proof (induction o' arbitrary: S i)
  case (Cons n ns)
  then show ?case by (cases i) fastforce+
qed simp

definition kahn_inv :: "string list \<Rightarrow> (string \<Rightarrow> string list) \<Rightarrow> string list \<Rightarrow> indegrees \<Rightarrow> string list \<Rightarrow> bool" where
  "kahn_inv names deps ready ind ordered \<longleftrightarrow>
     distinct (ordered @ ready) \<and> set (ordered @ ready) \<subseteq> set names \<and> sorted ready \<and>
     (\<forall>m \<in> set names. get0 ind m = int (card (set (deps m) - set ordered))) \<and>
     (\<forall>m \<in> set names. m \<in> set (ordered @ ready) \<longleftrightarrow> get0 ind m = 0) \<and>
     topo deps {} ordered"

lemma kahn_inv_step:
  assumes inv: "kahn_inv names deps (n # ready) ind ordered"
    and adj: "distinct (getl adj n)" "set (getl adj n) = {m \<in> set names. n \<in> set (deps m)}"
    and rel: "release (getl adj n) ind ready = (ind', ready')"
  shows "kahn_inv names deps ready' ind' (ordered @ [n])"
proof -
  have cnt: "get0 ind m = int (card (set (deps m) - set ordered))"
    and zer: "m \<in> set (ordered @ n # ready) \<longleftrightarrow> get0 ind m = 0" if "m \<in> set names" for m
    using inv that unfolding kahn_inv_def by blast+
  have dist: "distinct (ordered @ n # ready)" and sub: "set (ordered @ n # ready) \<subseteq> set names"
    and r: "sorted ready" "distinct ready" and top: "topo deps {} ordered"
    using inv unfolding kahn_inv_def by simp_all
  have n: "n \<in> set names" "n \<notin> set ordered" "get0 ind n = 0" using dist sub zer [of n] by simp_all
  have pos: "1 \<le> get0 ind m" and nm: "m \<in> set names" if "m \<in> set (getl adj n)" for m
  proof -
    from that adj n show "m \<in> set names" by auto
    from that adj n have "n \<in> set (deps m) - set ordered" by auto
    then have "card (set (deps m) - set ordered) > 0" by (auto simp: card_gt_0_iff)
    with cnt [OF \<open>m \<in> set names\<close>] show "1 \<le> get0 ind m" by simp
  qed
  have fresh: "m \<notin> set (ordered @ n # ready)" if "m \<in> set (getl adj n)" for m
    using zer [OF nm [OF that]] pos [OF that] by simp
  then have "\<forall>m \<in> set (getl adj n). m \<notin> set ready" by simp
  note spec = release_spec [OF rel adj(1) r this]
  have ind': "get0 ind' m = int (card (set (deps m) - set (ordered @ [n])))" if m: "m \<in> set names" for m
  proof (cases "n \<in> set (deps m)")
    case True
    with n have mem: "n \<in> set (deps m) - set ordered" by simp
    have "set (deps m) - set (ordered @ [n]) = set (deps m) - set ordered - {n}" by auto
    then have "card (set (deps m) - set (ordered @ [n])) = card (set (deps m) - set ordered) - 1"
      using mem by (simp add: card_Diff_singleton)
    moreover have "card (set (deps m) - set ordered) > 0" using mem by (auto simp: card_gt_0_iff)
    moreover have "m \<in> set (getl adj n)" using True m adj(2) by simp
    ultimately show ?thesis using spec(1) [of m] cnt [OF m] by (simp add: of_nat_diff)
  next
    case False
    then have "set (deps m) - set (ordered @ [n]) = set (deps m) - set ordered" by auto
    moreover have "m \<notin> set (getl adj n)" using False adj(2) by simp
    ultimately show ?thesis using spec(1) [of m] cnt [OF m] by simp
  qed
  have "m \<in> set ((ordered @ [n]) @ ready') \<longleftrightarrow> get0 ind' m = 0" if m: "m \<in> set names" for m
    using zer [OF m] spec(1) [of m] spec(4) pos [of m] by auto
  moreover have "card (set (deps n) - set ordered) = 0" using cnt [of n] n by simp
  then have "topo deps {} (ordered @ [n])" using top by (simp add: topo_append)
  moreover have "distinct ((ordered @ [n]) @ ready')" using spec(3,4) fresh dist by auto
  moreover have "set ((ordered @ [n]) @ ready') \<subseteq> set names" using spec(4) adj(2) sub by auto
  ultimately show ?thesis using spec(2) ind' by (simp add: kahn_inv_def)
qed

lemma kahn_inv_final:
  assumes "kahn adj ready ind ordered = (ind', ordered')" and "kahn_inv names deps ready ind ordered"
    and "\<forall>n \<in> set names. distinct (getl adj n) \<and> set (getl adj n) = {m \<in> set names. n \<in> set (deps m)}"
  shows "kahn_inv names deps [] ind' ordered'"
  using assms
proof (induction adj ready ind ordered rule: kahn.induct)
  case (2 adj name ready ind ordered)
  obtain ind1 ready1 where rel: "release (getl adj name) ind ready = (ind1, ready1)" by fastforce
  have "name \<in> set names" using "2.prems"(2) by (simp add: kahn_inv_def)
  with "2.prems" have "kahn_inv names deps ready1 ind1 (ordered @ [name])"
    by (intro kahn_inv_step [OF "2.prems"(2) _ _ rel]) auto
  with "2.IH" "2.prems" rel show ?case by simp
qed simp

text \<open>
  The loop ends with an empty ready list; a module that was not ordered then has a dependency that was
  not ordered either.
\<close>

lemma kahn_inv_stuck:
  assumes "kahn_inv names deps [] ind ordered" and "m \<in> set names" "m \<notin> set ordered"
  shows "\<exists>d \<in> set (deps m). d \<notin> set ordered"
proof -
  have "get0 ind m \<noteq> 0" and "get0 ind m = int (card (set (deps m) - set ordered))"
    using assms by (auto simp: kahn_inv_def)
  then have "card (set (deps m) - set ordered) \<noteq> 0" by simp
  then have "set (deps m) - set ordered \<noteq> {}" by (metis card.empty)
  then show ?thesis by blast
qed

definition dep_rel :: "(string \<times> 'b Descriptor) list \<Rightarrow> (string \<times> string) set" where
  "dep_rel ds = {(d, n). n \<in> fst ` set ds \<and> d \<in> set (deps_of ds n)}"

definition wf_descriptors :: "(string \<times> 'b Descriptor) list \<Rightarrow> bool" where
  "wf_descriptors ds \<longleftrightarrow> distinct (map fst ds) \<and> (\<forall>(n, d) \<in> set ds. n = d_name d \<and> wf_descriptor d)"

lemma wf_descriptors_lookup:
  assumes "wf_descriptors ds" and "map_of ds n = Some d"
  shows "d_name d = n \<and> wf_descriptor d"
  using assms(1) map_of_SomeD [OF assms(2)] by (auto simp: wf_descriptors_def)

lemma wf_descriptors_deps: "wf_descriptors ds \<Longrightarrow> distinct (deps_of ds n)"
  by (auto simp: deps_of_def wf_descriptor_def dest: wf_descriptors_lookup split: option.splits)

text \<open>The whole run of the loop, from the counters that \<open>resolvePlan\<close> sets up.\<close>

lemma resolve_run:
  assumes wf: "wf_descriptors ds"
    and edges: "collect_edges ds names (map (\<lambda>n. (n, 0)) names, []) = Inr (ind, adj)"
    and names: "names = sort (map fst ds)"
    and run: "kahn (map (\<lambda>(n, xs). (n, sort xs)) adj) (filter (\<lambda>n. get0 ind n = 0) names) ind [] = (ind', ordered)"
  shows "kahn_inv names (deps_of ds) [] ind' ordered"
proof (rule kahn_inv_final [OF run])
  have dn: "distinct names" and deps: "\<forall>n \<in> set names. distinct (deps_of ds n)"
    using wf by (simp_all add: names wf_descriptors_def wf_descriptors_deps [OF wf])
  have zero: "get0 (map (\<lambda>n. (n, 0)) names) m = 0" for m
    by (induction names) (auto simp: get0_def)
  note spec = collect_edges_spec [OF edges dn deps, simplified zero fst_conv snd_conv]
  have ind: "get0 ind m = int (card (set (deps_of ds m)))" if "m \<in> set names" for m
    using spec that deps by (auto simp: distinct_card)
  show "kahn_inv names (deps_of ds) (filter (\<lambda>n. get0 ind n = 0) names) ind []"
    using ind dn by (auto simp: kahn_inv_def names intro: sorted_filter [where f = id, simplified])
  show "\<forall>n \<in> set names. distinct (getl (map (\<lambda>(n, xs). (n, sort xs)) adj) n) \<and>
      set (getl (map (\<lambda>(n, xs). (n, sort xs)) adj) n) = {m \<in> set names. n \<in> set (deps_of ds m)}"
    using spec dn by (auto simp: getl_map_sort)
qed

text \<open>When each of the two checks before the loop succeeds.\<close>

definition caps_of :: "(string \<times> 'b Descriptor) list \<Rightarrow> string \<Rightarrow> string list" where
  "caps_of ds name = (case map_of ds name of None \<Rightarrow> [] | Some d \<Rightarrow> map cap_name (d_provides d))"

lemma add_providers_keys:
  "add_providers name cs providers = Inr p \<Longrightarrow> fst ` set p = fst ` set providers \<union> cap_name ` set cs"
proof (induction cs arbitrary: providers)
  case (Cons c cs)
  then have "add_providers name cs (AList.update (cap_name c) name providers) = Inr p"
    by (auto split: option.splits)
  from Cons.IH [OF this] show ?case by (simp add: dom_update)
qed simp

lemma add_providers_iff:
  "(\<exists>p. add_providers name cs providers = Inr p) \<longleftrightarrow>
     distinct (map cap_name cs) \<and> (\<forall>c \<in> set cs. cap_name c \<notin> fst ` set providers)"
proof (induction cs arbitrary: providers)
  case (Cons c cs)
  show ?case
  proof (cases "map_of providers (cap_name c)")
    case None
    then have "cap_name c \<notin> fst ` set providers" by (simp add: map_of_eq_None_iff)
    then show ?thesis
      using Cons.IH [of "AList.update (cap_name c) name providers"] None by (auto simp: dom_update image_iff)
  next
    case (Some n)
    then show ?thesis using map_of_Some_key [OF Some] by simp
  qed
qed simp

lemma collect_providers_iff:
  "(\<exists>p. collect_providers ds names providers = Inr p) \<longleftrightarrow>
     distinct (concat (map (caps_of ds) names)) \<and>
     (\<forall>c \<in> set (concat (map (caps_of ds) names)). c \<notin> fst ` set providers)"
proof (induction names arbitrary: providers)
  case (Cons name names)
  show ?case
  proof (cases "map_of ds name")
    case None
    with Cons.IH show ?thesis by (simp add: caps_of_def)
  next
    case (Some d)
    note ok = add_providers_iff [of name "d_provides d" providers]
    define C where "C = concat (map (caps_of ds) names)"
    have caps: "concat (map (caps_of ds) (name # names)) = map cap_name (d_provides d) @ C"
      using Some by (simp add: caps_of_def C_def)
    show ?thesis
    proof (cases "add_providers name (d_provides d) providers")
      case (Inl e)
      with Some ok show ?thesis unfolding caps by auto
    next
      case (Inr p)
      have "(\<exists>q. collect_providers ds (name # names) providers = Inr q) \<longleftrightarrow>
          distinct C \<and> (\<forall>c \<in> set C. c \<notin> fst ` set p)"
        using Cons.IH [of p] Some Inr by (simp add: C_def)
      with add_providers_keys [OF Inr] ok Inr show ?thesis unfolding caps
        by auto (metis fst_conv image_eqI)
    qed
  qed
qed simp

lemma add_edges_iff: "(\<exists>st'. add_edges ds name deps st = Inr st') \<longleftrightarrow> set deps \<subseteq> fst ` set ds"
proof (induction deps arbitrary: st)
  case (Cons dep deps)
  then show ?case by (cases st) (auto simp: map_of_eq_None_iff)
qed simp

lemma collect_edges_iff:
  "(\<exists>st'. collect_edges ds names st = Inr st') \<longleftrightarrow> (\<forall>n \<in> set names. set (deps_of ds n) \<subseteq> fst ` set ds)"
proof (induction names arbitrary: st)
  case (Cons name names)
  then show ?case
    using add_edges_iff [of ds name "deps_of ds name" st]
    by (cases "add_edges ds name (deps_of ds name) st") auto
qed simp

lemma resolvePlan_InrD:
  assumes "wf_descriptors ds" and "resolvePlan ds = Inr plan"
  shows "\<exists>ind ordered. kahn_inv (sort (map fst ds)) (deps_of ds) [] ind ordered \<and> length ordered = length ds \<and>
    plan = \<lparr>plan_descriptors = map (\<lambda>n. the (map_of ds n)) ordered\<rparr>"
proof -
  let ?names = "sort (map fst ds)"
  from assms(2) obtain ind adj where edges: "collect_edges ds ?names (map (\<lambda>n. (n, 0)) ?names, []) = Inr (ind, adj)"
    by (auto simp: resolvePlan_def Let_def split: sum.splits prod.splits if_splits)
  obtain ind' ordered where run: "kahn (map (\<lambda>(n, xs). (n, sort xs)) adj)
      (filter (\<lambda>n. get0 ind n = 0) ?names) ind [] = (ind', ordered)" by fastforce
  have "length ordered = length ds" "plan = \<lparr>plan_descriptors = map (\<lambda>n. the (map_of ds n)) ordered\<rparr>"
    using assms(2) edges run by (auto simp: resolvePlan_def Let_def split: sum.splits if_splits)
  with resolve_run [OF assms(1) edges refl run] show ?thesis by blast
qed

lemma kahn_inv_perm:
  assumes "wf_descriptors ds" and "kahn_inv (sort (map fst ds)) deps [] ind ordered" and "length ordered = length ds"
  shows "distinct ordered \<and> set ordered = fst ` set ds"
proof -
  have "distinct ordered" "set ordered \<subseteq> set (map fst ds)" using assms(2) by (auto simp: kahn_inv_def)
  moreover have "card (set ordered) = card (set (map fst ds))"
    using assms(1,3) \<open>distinct ordered\<close> unfolding wf_descriptors_def
    by (metis distinct_card length_map)
  ultimately show ?thesis by (metis card_subset_eq finite_set set_map)
qed

lemma topo_acyclic:
  assumes "topo deps {} ordered" and "distinct ordered"
  shows "acyclic {(d, n). n \<in> set ordered \<and> d \<in> set (deps n)}"
proof -
  define pos where "pos n = (LEAST i. i < length ordered \<and> ordered ! i = n)" for n
  have pos: "pos (ordered ! i) = i" if "i < length ordered" for i
    unfolding pos_def using that assms(2) by (intro Least_equality) (auto simp: nth_eq_iff_index_eq)
  have "{(d, n). n \<in> set ordered \<and> d \<in> set (deps n)} \<subseteq> measure pos"
  proof clarsimp
    fix d n assume n: "n \<in> set ordered" and d: "d \<in> set (deps n)"
    from n obtain i where i: "i < length ordered" "ordered ! i = n" by (auto simp: in_set_conv_nth)
    with topo_nth [OF assms(1) i(1)] d have "d \<in> set (take i ordered)" by auto
    then obtain j where "j < i" "ordered ! j = d" using i by (auto simp: in_set_conv_nth)
    with pos [of i] pos [of j] i show "pos d < pos n" by simp
  qed
  then show ?thesis by (metis acyclic_subset wf_acyclic wf_measure)
qed

lemma kahn_inv_complete:
  assumes inv: "kahn_inv (sort (map fst ds)) (deps_of ds) [] ind ordered" and acyc: "acyclic (dep_rel ds)"
    and reg: "\<forall>n \<in> fst ` set ds. set (deps_of ds n) \<subseteq> fst ` set ds"
  shows "set ordered = fst ` set ds"
proof (rule ccontr)
  have sub: "set ordered \<subseteq> fst ` set ds" using inv by (simp add: kahn_inv_def)
  assume "set ordered \<noteq> fst ` set ds"
  with sub obtain m where m: "m \<in> fst ` set ds - set ordered" by blast
  have "finite (dep_rel ds)"
  proof (rule finite_subset)
    show "dep_rel ds \<subseteq> fst ` set ds \<times> fst ` set ds" using reg by (auto simp: dep_rel_def)
  qed simp
  with acyc have "wf (dep_rel ds)" by (simp add: finite_acyclic_wf)
  then obtain z where z: "z \<in> fst ` set ds - set ordered"
    and min: "\<And>y. (y, z) \<in> dep_rel ds \<Longrightarrow> y \<notin> fst ` set ds - set ordered"
    using m by (rule wfE_min) blast
  obtain d where "d \<in> set (deps_of ds z)" "d \<notin> set ordered"
    using kahn_inv_stuck [OF inv] z by auto
  with min [of d] z reg show False by (auto simp: dep_rel_def)
qed

section \<open>Properties of the resolution\<close>

lemma resolvePlan_order:
  assumes wf: "wf_descriptors ds" and ok: "resolvePlan ds = Inr plan"
  shows "distinct (plan_names plan) \<and> set (plan_names plan) = fst ` set ds \<and>
    set (plan_descriptors plan) = snd ` set ds \<and>
    (\<forall>i < length (plan_descriptors plan). \<forall>dep \<in> set (d_depends (plan_descriptors plan ! i)).
       \<exists>j < i. d_name (plan_descriptors plan ! j) = dep)"
proof -
  from resolvePlan_InrD [OF wf ok] obtain ind ordered where
    inv: "kahn_inv (sort (map fst ds)) (deps_of ds) [] ind ordered" and len: "length ordered = length ds"
    and plan: "plan_descriptors plan = map (\<lambda>n. the (map_of ds n)) ordered" by auto
  have perm: "distinct ordered" "set ordered = fst ` set ds" using kahn_inv_perm [OF wf inv len] by auto
  have at: "\<exists>d. map_of ds n = Some d \<and> d_name d = n \<and> deps_of ds n = d_depends d" if "n \<in> set ordered" for n
    using that perm(2) wf_descriptors_lookup [OF wf, of n] by (cases "map_of ds n") (auto simp: map_of_eq_None_iff deps_of_def)
  then have name: "d_name (the (map_of ds n)) = n" "d_depends (the (map_of ds n)) = deps_of ds n" if "n \<in> set ordered" for n
    using that by fastforce+
  then have names: "plan_names plan = ordered" using plan by (auto simp: plan_names_def map_idI)
  have "\<exists>j < i. d_name (plan_descriptors plan ! j) = dep"
    if i: "i < length ordered" and dep: "dep \<in> set (d_depends (plan_descriptors plan ! i))" for i dep
  proof -
    have "dep \<in> set (take i ordered)"
      using topo_nth [of "deps_of ds" "{}" ordered i] inv i dep plan name by (auto simp: kahn_inv_def)
    then obtain j where "j < i" "ordered ! j = dep" using i by (auto simp: in_set_conv_nth)
    with i plan name show ?thesis by (intro exI [of _ j]) auto
  qed
  moreover have "set (plan_descriptors plan) = snd ` set ds"
  proof -
    have "(\<lambda>n. the (map_of ds n)) ` fst ` set ds = snd ` set ds"
      using wf by (force simp: wf_descriptors_def image_iff)
    then show ?thesis by (simp add: plan perm)
  qed
  ultimately show ?thesis using perm names plan by auto
qed

text \<open>
  Property C6: a plan that \<open>resolvePlan\<close> returns holds every registered module exactly once, and every
  module comes after each of the modules it depends on.
\<close>

theorem resolvePlan_topological:
  assumes wf: "wf_descriptors ds" and ok: "resolvePlan ds = Inr plan"
  shows "distinct (plan_names plan) \<and> set (plan_names plan) = fst ` set ds \<and>
    set (plan_descriptors plan) = snd ` set ds \<and>
    (\<forall>i < length (plan_descriptors plan). \<forall>dep \<in> set (d_depends (plan_descriptors plan ! i)).
       \<exists>j < i. d_name (plan_descriptors plan ! j) = dep)"
  using assms by (rule resolvePlan_order)

text \<open>
  Property C7: resolution succeeds exactly when no capability name has two declarations, every
  dependency is registered, and the dependency relation has no cycle.
\<close>

theorem resolvePlan_succeeds_iff:
  assumes wf: "wf_descriptors ds"
  shows "(\<exists>plan. resolvePlan ds = Inr plan) \<longleftrightarrow>
    distinct (concat (map (\<lambda>(n, d). map cap_name (d_provides d)) ds)) \<and>
    (\<forall>n \<in> fst ` set ds. set (deps_of ds n) \<subseteq> fst ` set ds) \<and> acyclic (dep_rel ds)"
proof -
  let ?names = "sort (map fst ds)"
  have dist: "distinct (map fst ds)" using wf by (simp add: wf_descriptors_def)
  have "map (caps_of ds) (map fst ds) = map (\<lambda>(n, d). map cap_name (d_provides d)) ds"
    using dist by (auto simp: caps_of_def)
  then have "mset (concat (map (caps_of ds) (map fst ds))) = mset (concat (map (\<lambda>(n, d). map cap_name (d_provides d)) ds))"
    by (simp only:)
  moreover have "mset (concat (map (caps_of ds) ?names)) = mset (concat (map (caps_of ds) (map fst ds)))"
    by (rule mset_concat_map_cong) simp
  ultimately have mseq: "mset (concat (map (caps_of ds) ?names)) = mset (concat (map (\<lambda>(n, d). map cap_name (d_provides d)) ds))"
    by simp
  have caps: "(\<exists>p. collect_providers ds ?names [] = Inr p) \<longleftrightarrow>
      distinct (concat (map (\<lambda>(n, d). map cap_name (d_provides d)) ds))"
    using collect_providers_iff [of ds ?names "[]"] mset_eq_imp_distinct_iff [OF mseq] by simp
  have edges: "(\<exists>st. collect_edges ds ?names (map (\<lambda>n. (n, 0)) ?names, []) = Inr st) \<longleftrightarrow>
      (\<forall>n \<in> fst ` set ds. set (deps_of ds n) \<subseteq> fst ` set ds)"
    using collect_edges_iff [of ds ?names] by simp
  show ?thesis
  proof
    assume "\<exists>plan. resolvePlan ds = Inr plan"
    then obtain plan where ok: "resolvePlan ds = Inr plan" by blast
    then have "\<exists>p. collect_providers ds ?names [] = Inr p"
      and "\<exists>st. collect_edges ds ?names (map (\<lambda>n. (n, 0)) ?names, []) = Inr st"
      by (auto simp: resolvePlan_def Let_def split: sum.splits)
    moreover from resolvePlan_InrD [OF wf ok] obtain ind ordered where
      inv: "kahn_inv ?names (deps_of ds) [] ind ordered" and len: "length ordered = length ds" by auto
    have "dep_rel ds = {(d, n). n \<in> set ordered \<and> d \<in> set (deps_of ds n)}"
      using kahn_inv_perm [OF wf inv len] by (auto simp: dep_rel_def)
    with inv have "acyclic (dep_rel ds)" by (auto simp: kahn_inv_def intro: topo_acyclic)
    ultimately show "distinct (concat (map (\<lambda>(n, d). map cap_name (d_provides d)) ds)) \<and>
      (\<forall>n \<in> fst ` set ds. set (deps_of ds n) \<subseteq> fst ` set ds) \<and> acyclic (dep_rel ds)"
      using caps edges by blast
  next
    assume conds: "distinct (concat (map (\<lambda>(n, d). map cap_name (d_provides d)) ds)) \<and>
      (\<forall>n \<in> fst ` set ds. set (deps_of ds n) \<subseteq> fst ` set ds) \<and> acyclic (dep_rel ds)"
    then obtain p ind adj where p: "collect_providers ds ?names [] = Inr p"
      and e: "collect_edges ds ?names (map (\<lambda>n. (n, 0)) ?names, []) = Inr (ind, adj)"
      using caps edges by fastforce
    obtain ind' ordered where run: "kahn (map (\<lambda>(n, xs). (n, sort xs)) adj)
        (filter (\<lambda>n. get0 ind n = 0) ?names) ind [] = (ind', ordered)" by fastforce
    have inv: "kahn_inv ?names (deps_of ds) [] ind' ordered" by (rule resolve_run [OF wf e refl run])
    have "set ordered = fst ` set ds" using kahn_inv_complete [OF inv] conds by blast
    then have "length ordered = length ds"
      using inv dist unfolding kahn_inv_def by (metis append_Nil2 distinct_card length_map set_map)
    then show "\<exists>plan. resolvePlan ds = Inr plan"
      using p e run by (simp add: resolvePlan_def Let_def)
  qed
qed

text \<open>
  The plan, or the error, depends only on which modules are registered and not on the
  order of registration.
\<close>

theorem resolvePlan_order_independent:
  assumes "distinct (map fst ds)" and "distinct (map fst ds')" and "set ds = set ds'"
  shows "resolvePlan ds = resolvePlan ds'"
proof -
  have maps: "map_of ds = map_of ds'" using assms by (simp add: map_of_inject_set)
  have names: "sort (map fst ds) = sort (map fst ds')"
    using assms by (intro sorted_distinct_ex1) auto
  have providers: "collect_providers ds ns p = collect_providers ds' ns p" for ns p
    by (induction ns arbitrary: p) (auto simp: maps split: option.splits sum.splits)
  have add: "add_edges ds n deps st = add_edges ds' n deps st" for n deps st
  proof (induction deps arbitrary: st)
    case (Cons d deps)
    then show ?case by (cases st) (simp add: maps)
  qed simp
  have edges: "collect_edges ds ns st = collect_edges ds' ns st" for ns st
    by (induction ns arbitrary: st) (auto simp: add maps deps_of_def split: sum.splits)
  have len: "length ds = length ds'" by (metis names length_map length_sort)
  show ?thesis by (simp only: resolvePlan_def names providers edges maps len)
qed

section \<open>The catalog as a state machine\<close>

inductive catalog_step :: "'b Catalog \<Rightarrow> 'b Catalog \<Rightarrow> bool" where
  register: "Register (Some c) d = (err, Some c') \<Longrightarrow> catalog_step c c'"
| seal: "Seal (Some c) = (r, Some c') \<Longrightarrow> catalog_step c c'"

inductive_cases catalog_stepE: "catalog_step c c'"

inductive catalog_reachable :: "'b Catalog \<Rightarrow> bool" where
  start: "catalog_reachable New"
| step: "catalog_reachable c \<Longrightarrow> catalog_step c c' \<Longrightarrow> catalog_reachable c'"

definition catalog_inv :: "'b Catalog \<Rightarrow> bool" where
  "catalog_inv c \<longleftrightarrow> wf_descriptors (cat_descriptors c) \<and>
     (cat_sealed c \<longrightarrow> resolvePlan (cat_descriptors c) = Inr (cat_plan c))"

lemma Register_cases:
  assumes "Register (Some c) d = (err, Some c')"
  shows "c' = c \<and> err \<noteq> None \<or>
    (\<exists>n. normalizeDescriptor d = Inr n \<and> \<not> cat_sealed c \<and> d_name n \<notin> fst ` set (cat_descriptors c) \<and> err = None \<and>
       c' = c\<lparr>cat_descriptors := AList.update (d_name n) n (cat_descriptors c)\<rparr>)"
  using assms by (auto simp: Register_def map_of_eq_None_iff split: sum.splits if_splits)

lemma wf_descriptors_update [wf_intros]:
  assumes "wf_descriptors ds" and "wf_descriptor d"
  shows "wf_descriptors (AList.update (d_name d) d ds)"
proof -
  have "distinct (map fst (AList.update (d_name d) d ds))"
    using assms by (simp add: wf_descriptors_def distinct_update)
  moreover have "n = d_name e \<and> wf_descriptor e" if "(n, e) \<in> set (AList.update (d_name d) d ds)" for n e
  proof -
    have "map_of (AList.update (d_name d) d ds) n = Some e"
      using that calculation by (metis distinct_map_of_mem)
    then show ?thesis
      using assms wf_descriptors_lookup [OF assms(1), of n e] by (auto simp: update_conv' split: if_splits)
  qed
  ultimately show ?thesis by (auto simp: wf_descriptors_def)
qed

lemma catalog_step_inv [wf_intros]: "catalog_step c c' \<Longrightarrow> catalog_inv c \<Longrightarrow> catalog_inv c'"
proof (induction rule: catalog_step.induct)
  case (register c d err c')
  from Register_cases [OF register(1)] show ?case
  proof (elim disjE exE conjE)
    fix n
    assume n: "normalizeDescriptor d = Inr n" "\<not> cat_sealed c"
      and c': "c' = c\<lparr>cat_descriptors := AList.update (d_name n) n (cat_descriptors c)\<rparr>"
    have "wf_descriptors (AList.update (d_name n) n (cat_descriptors c))"
      using register(2) normalizeDescriptor_wf [OF n(1)] by (simp add: catalog_inv_def wf_descriptors_update)
    with n c' show ?case by (simp add: catalog_inv_def)
  qed (use register(2) in simp)
next
  case (seal c r c')
  then show ?case by (auto simp: Seal_def catalog_inv_def split: if_splits sum.splits)
qed

lemma catalog_reachable_inv: "catalog_reachable c \<Longrightarrow> catalog_inv c"
proof (induction rule: catalog_reachable.induct)
  case start
  show ?case by (simp add: catalog_inv_def New_def wf_descriptors_def)
qed (rule catalog_step_inv)

lemma Seal_order:
  assumes "catalog_reachable c" "fst (Seal (Some c)) = Inr plan" "plan_descriptors plan = us @ d # vs" "dep \<in> set (d_depends d)"
  shows "dep \<in> d_name ` set us"
proof -
  have "wf_descriptors (cat_descriptors c)" "resolvePlan (cat_descriptors c) = Inr plan"
    using catalog_reachable_inv [OF assms(1)] assms(2) by (auto simp: Seal_def catalog_inv_def split: if_splits sum.splits)
  from resolvePlan_order [OF this] have order: "\<forall>i < length (plan_descriptors plan). \<forall>dep \<in> set (d_depends (plan_descriptors plan ! i)).
      \<exists>j < i. d_name (plan_descriptors plan ! j) = dep" by blast
  have "length us < length (plan_descriptors plan)" "plan_descriptors plan ! length us = d" using assms(3) by simp_all
  with order assms(4) obtain j where "j < length us" "d_name (plan_descriptors plan ! j) = dep" by metis
  then show ?thesis using assms(3) by (auto simp: nth_append)
qed

text \<open>
  Property C8: in every state the catalog can reach, \<open>Seal\<close> returns a plan that lists the registered
  modules with dependencies first; once it has, the catalog is frozen: every later \<open>Register\<close> fails and
  leaves it unchanged, and every later \<open>Seal\<close> returns the same plan.
\<close>

theorem Seal_freezes_catalog:
  assumes reach: "catalog_reachable c" and seal: "Seal (Some c) = (Inr plan, Some c')"
  shows "set (plan_names plan) = fst ` set (cat_descriptors c) \<and> topo (deps_of (cat_descriptors c)) {} (plan_names plan) \<and>
    (\<forall>d. \<exists>e. Register (Some c') d = (Some e, Some c')) \<and> Seal (Some c') = (Inr plan, Some c')"
proof -
  from reach have inv: "catalog_inv c" by (rule catalog_reachable_inv)
  then have wf: "wf_descriptors (cat_descriptors c)" by (simp add: catalog_inv_def)
  have c': "cat_sealed c'" "cat_plan c' = plan" "resolvePlan (cat_descriptors c) = Inr plan"
    using seal inv by (auto simp: Seal_def catalog_inv_def split: if_splits sum.splits)
  from resolvePlan_InrD [OF wf c'(3)] obtain ind ordered where
    run: "kahn_inv (sort (map fst (cat_descriptors c))) (deps_of (cat_descriptors c)) [] ind ordered"
    and len: "length ordered = length (cat_descriptors c)"
    and plan: "plan_descriptors plan = map (\<lambda>n. the (map_of (cat_descriptors c) n)) ordered" by auto
  have perm: "set ordered = fst ` set (cat_descriptors c)" using kahn_inv_perm [OF wf run len] by simp
  have "d_name (the (map_of (cat_descriptors c) n)) = n" if "n \<in> set ordered" for n
    using that perm wf_descriptors_lookup [OF wf, of n]
    by (cases "map_of (cat_descriptors c) n") (auto simp: map_of_eq_None_iff)
  then have names: "plan_names plan = ordered" using plan by (auto simp: plan_names_def map_idI)
  have "\<exists>e. Register (Some c') d = (Some e, Some c')" for d
    using c'(1) by (cases "normalizeDescriptor d") (auto simp: Register_def)
  moreover have "Seal (Some c') = (Inr plan, Some c')" using c' by (simp add: Seal_def)
  moreover have "topo (deps_of (cat_descriptors c)) {} (plan_names plan)"
    using run names by (simp add: kahn_inv_def)
  ultimately show ?thesis using names perm by simp
qed

section \<open>Examples\<close>

definition no_reqs :: Requirements where
  "no_reqs = \<lparr>ConfigKey = [], ReqLogger = False, ReqDatabases = [], ReqEventBus = False, ReqRPC = []\<rparr>"

definition mod_a :: "unit Descriptor" where
  "mod_a = \<lparr>d_name = ''a'', d_version = [], d_depends = [''b''], d_reqs = no_reqs, d_provides = [], d_build = None\<rparr>"

definition mod_b :: "unit Descriptor" where
  "mod_b = \<lparr>d_name = ''b'', d_version = [], d_depends = [], d_reqs = no_reqs, d_provides = [], d_build = None\<rparr>"

definition ex_modules :: "(string \<times> unit Descriptor) list" where
  "ex_modules = [(''a'', mod_a), (''b'', mod_b)]"

definition ex_plan :: "unit Plan" where
  "ex_plan = \<lparr>plan_descriptors = [mod_b, mod_a]\<rparr>"

definition ex_catalog :: "unit Catalog" where
  "ex_catalog = New\<lparr>cat_descriptors := ex_modules\<rparr>"

lemma ex_modules_wf: "wf_descriptors ex_modules"
  by code_simp

lemma ex_modules_resolve: "resolvePlan ex_modules = Inr ex_plan"
  by code_simp

lemma ex_catalog_reachable: "catalog_reachable ex_catalog"
proof (rule catalog_reachable.step)
  show "catalog_reachable (New\<lparr>cat_descriptors := [(''a'', mod_a)]\<rparr>)"
    by (rule catalog_reachable.step [OF catalog_reachable.start],
        rule catalog_step.register [where d = mod_a and err = None]) code_simp
  show "catalog_step (New\<lparr>cat_descriptors := [(''a'', mod_a)]\<rparr>) ex_catalog"
    by (rule catalog_step.register [where d = mod_b and err = None]) code_simp
qed

theorem resolvePlan_topological_witness:
  "set (plan_names ex_plan) = {''a'', ''b''} \<and> (\<exists>j < 1. d_name (plan_descriptors ex_plan ! j) = ''b'')"
proof -
  note t = resolvePlan_topological [OF ex_modules_wf ex_modules_resolve]
  have "1 < length (plan_descriptors ex_plan)" "''b'' \<in> set (d_depends (plan_descriptors ex_plan ! 1))"
    by (simp_all add: ex_plan_def mod_a_def)
  with t have "\<exists>j < 1. d_name (plan_descriptors ex_plan ! j) = ''b''" by blast
  moreover have "fst ` set ex_modules = {''a'', ''b''}" by (simp add: ex_modules_def)
  ultimately show ?thesis using t by simp
qed

theorem resolvePlan_succeeds_iff_witness:
  "resolvePlan ex_modules = Inr ex_plan \<and> acyclic (dep_rel ex_modules)"
  using resolvePlan_succeeds_iff [OF ex_modules_wf] ex_modules_resolve by blast

theorem resolvePlan_order_independent_witness:
  "resolvePlan [(''b'', mod_b), (''a'', mod_a)] = Inr ex_plan"
proof -
  have "distinct (map fst [(''b'', mod_b), (''a'', mod_a)])" "distinct (map fst ex_modules)"
    "set [(''b'', mod_b), (''a'', mod_a)] = set ex_modules"
    by (simp_all add: ex_modules_def insert_commute)
  from resolvePlan_order_independent [OF this] ex_modules_resolve show ?thesis by (simp only:)
qed

theorem Seal_freezes_catalog_witness:
  "set (plan_names ex_plan) = {''a'', ''b''} \<and>
   (\<exists>e. Register (Some (ex_catalog\<lparr>cat_plan := ex_plan, cat_sealed := True\<rparr>)) mod_a =
     (Some e, Some (ex_catalog\<lparr>cat_plan := ex_plan, cat_sealed := True\<rparr>)))"
proof -
  have "Seal (Some ex_catalog) = (Inr ex_plan, Some (ex_catalog\<lparr>cat_plan := ex_plan, cat_sealed := True\<rparr>))"
    by code_simp
  from Seal_freezes_catalog [OF ex_catalog_reachable this] show ?thesis
    by (simp add: ex_catalog_def ex_modules_def)
qed

end
