(* ===== verification/Capability.thy ===== *)
theory Capability
  imports ModuleCatalog
begin

text \<open>
  Capabilities of composed modules (\<open>framework/core/modulecatalog/capability.go\<close>): typed keys, the
  collection of what built module instances export against what their sealed descriptors declare, and
  the resolution of a key. A module instance is its name and, when it implements
  \<open>CapabilityExporter\<close>, the list that \<open>ExportCapabilities\<close> returns; \<open>'v\<close> is the Go type \<open>any\<close> of exported
  values. The type assertion to \<open>T\<close> is the argument \<open>assignable\<close> of \<open>ResolveCapability\<close>.
\<close>

section \<open>Data\<close>

record CapabilityKey =
  key_contract :: CapabilityContract

record 'v CapabilityExport =
  ex_contract :: CapabilityContract
  ex_value :: 'v

record 'v Instance =
  inst_name :: string
  inst_exports :: "'v CapabilityExport list option"

record 'v capabilityValue =
  cv_module :: string
  cv_contract :: CapabilityContract
  cv_value :: 'v

record 'v CapabilitySet =
  cs_values :: "(string \<times> 'v capabilityValue) list"

type_synonym contracts = "(string \<times> CapabilityContract) list"
type_synonym 'v bindings = "(string \<times> 'v capabilityValue) list"

section \<open>Keys and sets\<close>

definition NewCapabilityKey :: "string \<Rightarrow> string \<Rightarrow> string \<Rightarrow> CapabilityKey result" where
  "NewCapabilityKey name packagePath typeName =
     (case normalizeCapabilityContract \<lparr>cap_name = name, cap_package = packagePath, cap_type = typeName\<rparr> of
        Inl e \<Rightarrow> Inl e
      | Inr contract \<Rightarrow> Inr \<lparr>key_contract = contract\<rparr>)"

definition ExportCapability :: "CapabilityKey \<Rightarrow> 'v \<Rightarrow> 'v CapabilityExport" where
  "ExportCapability key value = \<lparr>ex_contract = key_contract key, ex_value = value\<rparr>"

definition EmptyCapabilitySet :: "'v CapabilitySet" where
  "EmptyCapabilitySet = \<lparr>cs_values = []\<rparr>"

definition set_len :: "'v CapabilitySet \<Rightarrow> nat" where
  "set_len cs = length (cs_values cs)"

definition set_names :: "'v CapabilitySet \<Rightarrow> string list" where
  "set_names cs = sort (map fst (cs_values cs))"

definition ResolveCapability :: "('v \<Rightarrow> bool) \<Rightarrow> 'v CapabilitySet \<Rightarrow> CapabilityKey \<Rightarrow> 'v result" where
  "ResolveCapability assignable cs key =
     (case normalizeCapabilityContract (key_contract key) of
        Inl e \<Rightarrow> Inl e
      | Inr contract \<Rightarrow>
        (case map_of (cs_values cs) (cap_name contract) of
           None \<Rightarrow> Inl (Err ''modulecatalog: capability %q is not provided'' [cap_name contract])
         | Some binding \<Rightarrow>
           if cv_contract binding \<noteq> contract
           then Inl (Err ''modulecatalog: capability %q contract mismatch: provider=%s.%s consumer=%s.%s''
                       [cap_name contract, cap_package (cv_contract binding), cap_type (cv_contract binding),
                        cap_package contract, cap_type contract])
           else if \<not> assignable (cv_value binding)
           then Inl (Err ''modulecatalog: capability %q exported by module %q is not assignable to %s.%s''
                       [cap_name contract, cv_module binding, cap_package contract, cap_type contract])
           else Inr (cv_value binding)))"

section \<open>Collection\<close>

text \<open>The loop over the descriptors: the declared contracts per module, and the module names.\<close>

fun declare_contracts :: "CapabilityContract list \<Rightarrow> contracts \<Rightarrow> contracts" where
  "declare_contracts [] m = m"
| "declare_contracts (c # cs) m = declare_contracts cs (AList.update (cap_name c) c m)"

fun declare_modules ::
  "'b Descriptor list \<Rightarrow> (string \<times> contracts) list \<Rightarrow> string list \<Rightarrow> ((string \<times> contracts) list \<times> string list) result" where
  "declare_modules [] declared names = Inr (declared, names)"
| "declare_modules (d # ds) declared names =
     (case normalizeDescriptor d of
        Inl e \<Rightarrow> Inl e
      | Inr n \<Rightarrow>
        declare_modules ds (AList.update (d_name n) (declare_contracts (d_provides n) []) declared)
          (names @ [d_name n]))"

fun index_instances :: "'v Instance option list \<Rightarrow> (string \<times> 'v Instance) list \<Rightarrow> (string \<times> 'v Instance) list result" where
  "index_instances [] m = Inr m"
| "index_instances (None # is) m = index_instances is m"
| "index_instances (Some i # is) m =
     (let name = trim_space (inst_name i) in
      if map_of m name \<noteq> None
      then Inl (Err ''modulecatalog: duplicate built module instance %q'' [name])
      else index_instances is (AList.update name i m))"

fun normalize_exports :: "string \<Rightarrow> 'v CapabilityExport list \<Rightarrow> 'v CapabilityExport list result" where
  "normalize_exports moduleName [] = Inr []"
| "normalize_exports moduleName (e # es) =
     (case normalizeCapabilityContract (ex_contract e) of
        Inl err \<Rightarrow> Inl (Wrap ''modulecatalog: module %q capability export: %w'' [moduleName] err)
      | Inr contract \<Rightarrow>
        (case normalize_exports moduleName es of
           Inl err \<Rightarrow> Inl err
         | Inr es' \<Rightarrow> Inr (e\<lparr>ex_contract := contract\<rparr> # es')))"

fun add_exports ::
  "string \<Rightarrow> contracts \<Rightarrow> 'v CapabilityExport list \<Rightarrow> string list \<Rightarrow> 'v bindings \<Rightarrow> (string list \<times> 'v bindings) result" where
  "add_exports moduleName contracts [] seen values = Inr (seen, values)"
| "add_exports moduleName contracts (e # es) seen values =
     (let contract = ex_contract e; name = cap_name contract in
      case map_of contracts name of
        None \<Rightarrow> Inl (Err ''modulecatalog: module %q exports undeclared capability %q'' [moduleName, name])
      | Some declared \<Rightarrow>
        if declared \<noteq> contract
        then Inl (Err ''modulecatalog: module %q capability %q contract differs from descriptor'' [moduleName, name])
        else if name \<in> set seen
        then Inl (Err ''modulecatalog: module %q exports capability %q more than once'' [moduleName, name])
        else (case map_of values name of
                Some previous \<Rightarrow>
                  Inl (Err ''modulecatalog: capability %q has multiple providers: %q and %q''
                         [name, cv_module previous, moduleName])
              | None \<Rightarrow>
                  add_exports moduleName contracts es (seen @ [name])
                    (AList.update name \<lparr>cv_module = moduleName, cv_contract = contract, cv_value = ex_value e\<rparr> values)))"

text \<open>The body of the loop over the module names.\<close>

definition collect_module ::
  "string \<Rightarrow> contracts \<Rightarrow> 'v Instance option \<Rightarrow> 'v bindings \<Rightarrow> 'v bindings result" where
  "collect_module moduleName contracts instance values =
     (let exporter = Option.bind instance inst_exports in
      if contracts = [] then
        (if (case exporter of None \<Rightarrow> False | Some es \<Rightarrow> es \<noteq> [])
         then Inl (Err ''modulecatalog: module %q exports capabilities but descriptor declares none'' [moduleName])
         else Inr values)
      else if instance = None
      then Inl (Err ''modulecatalog: module %q declares capabilities but has no built instance'' [moduleName])
      else
        (case exporter of
           None \<Rightarrow> Inl (Err ''modulecatalog: module %q declares capabilities but instance does not export them'' [moduleName])
         | Some raw \<Rightarrow>
           (case normalize_exports moduleName raw of
              Inl e \<Rightarrow> Inl e
            | Inr exports \<Rightarrow>
              (case add_exports moduleName contracts (sort_key (\<lambda>e. contract_key (ex_contract e)) exports) [] values of
                 Inl e \<Rightarrow> Inl e
               | Inr (seen, values') \<Rightarrow>
                 (case find (\<lambda>n. n \<notin> set seen) (sort (map fst contracts)) of
                    Some n \<Rightarrow> Inl (Err ''modulecatalog: module %q did not export declared capability %q'' [moduleName, n])
                  | None \<Rightarrow> Inr values')))))"

fun collect_modules ::
  "(string \<times> contracts) list \<Rightarrow> (string \<times> 'v Instance) list \<Rightarrow> string list \<Rightarrow> 'v bindings \<Rightarrow> 'v bindings result" where
  "collect_modules declared byModule [] values = Inr values"
| "collect_modules declared byModule (m # ms) values =
     (case collect_module m (getl declared m) (map_of byModule m) values of
        Inl e \<Rightarrow> Inl e
      | Inr values' \<Rightarrow> collect_modules declared byModule ms values')"

definition unplanned :: "(string \<times> contracts) list \<Rightarrow> (string \<times> 'v Instance) list \<Rightarrow> string \<Rightarrow> bool" where
  "unplanned declared byModule m \<longleftrightarrow>
     map_of declared m = None \<and>
     (case Option.bind (map_of byModule m) inst_exports of None \<Rightarrow> False | Some es \<Rightarrow> es \<noteq> [])"

definition CollectCapabilities :: "'b Descriptor list \<Rightarrow> 'v Instance option list \<Rightarrow> 'v CapabilitySet result" where
  "CollectCapabilities descriptors instances =
     (case declare_modules descriptors [] [] of
        Inl e \<Rightarrow> Inl e
      | Inr (declared, names) \<Rightarrow>
        (case index_instances instances [] of
           Inl e \<Rightarrow> Inl e
         | Inr byModule \<Rightarrow>
           (case collect_modules declared byModule (sort names) [] of
              Inl e \<Rightarrow> Inl e
            | Inr values \<Rightarrow>
              (case find (unplanned declared byModule) (sort (map fst byModule)) of
                 Some m \<Rightarrow> Inl (Err ''modulecatalog: built module %q is not present in sealed descriptor plan'' [m])
               | None \<Rightarrow> if values = [] then Inr EmptyCapabilitySet else Inr \<lparr>cs_values = values\<rparr>))))"

section \<open>What a successful collection holds\<close>

lemma declare_contracts_spec:
  "distinct (map cap_name cs) \<Longrightarrow> cap_name ` set cs \<inter> fst ` set m = {} \<Longrightarrow>
     declare_contracts cs m = m @ map (\<lambda>c. (cap_name c, c)) cs"
  by (induction cs arbitrary: m) (auto simp: update_fresh)

lemma declare_modules_spec:
  assumes "list_all wf_descriptor ds" and "distinct (map d_name ds)" and "d_name ` set ds \<inter> fst ` set m = {}"
  shows "declare_modules ds m ns =
    Inr (m @ map (\<lambda>d. (d_name d, map (\<lambda>c. (cap_name c, c)) (d_provides d))) ds, ns @ map d_name ds)"
  using assms
proof (induction ds arbitrary: m ns)
  case (Cons d ds)
  then have "normalizeDescriptor d = Inr d" "distinct (map cap_name (d_provides d))"
    by (simp_all add: normalizeDescriptor_fixed wf_descriptor_def)
  with Cons show ?case by (auto simp: update_fresh declare_contracts_spec)
qed simp

lemma index_instances_spec:
  "index_instances is m = Inr m' \<Longrightarrow> distinct (map fst m) \<Longrightarrow>
     distinct (map fst m') \<and> set m' = set m \<union> {(trim_space (inst_name i), i) | i. Some i \<in> set is}"
  by (induction "is" m rule: index_instances.induct)
     (auto simp: Let_def update_fresh map_of_eq_None_iff split: if_splits)

lemma normalize_exports_spec:
  "normalize_exports m es = Inr es' \<Longrightarrow>
     list_all2 (\<lambda>e e'. normalizeCapabilityContract (ex_contract e) = Inr (ex_contract e') \<and> ex_value e' = ex_value e) es es'"
  by (induction es arbitrary: es') (auto split: sum.splits)

definition bind_export :: "string \<Rightarrow> 'v CapabilityExport \<Rightarrow> string \<times> 'v capabilityValue" where
  "bind_export m e =
     (cap_name (ex_contract e), \<lparr>cv_module = m, cv_contract = ex_contract e, cv_value = ex_value e\<rparr>)"

lemma add_exports_spec:
  "add_exports m cs es seen vals = Inr (seen', vals') \<Longrightarrow>
     seen' = seen @ map (\<lambda>e. cap_name (ex_contract e)) es \<and> vals' = vals @ map (bind_export m) es \<and>
     (\<forall>e \<in> set es. map_of cs (cap_name (ex_contract e)) = Some (ex_contract e)) \<and>
     (distinct (map fst vals) \<longrightarrow> distinct (map fst vals'))"
proof (induction es arbitrary: seen vals)
  case (Cons e es)
  let ?n = "cap_name (ex_contract e)"
  have c: "map_of cs ?n = Some (ex_contract e)" and fresh: "map_of vals ?n = None"
    using Cons.prems by (simp_all add: Let_def split: option.splits if_splits)
  have rec: "add_exports m cs es (seen @ [?n]) (vals @ [bind_export m e]) = Inr (seen', vals')"
    using Cons.prems c fresh by (simp add: Let_def bind_export_def update_None split: if_splits)
  from fresh have "distinct (map fst vals) \<longrightarrow> distinct (map fst (vals @ [bind_export m e]))"
    by (simp add: map_of_eq_None_iff bind_export_def)
  with Cons.IH [OF rec] have dist: "distinct (map fst vals) \<longrightarrow> distinct (map fst vals')" by blast
  show ?case
    by (intro conjI) (use Cons.IH [OF rec] c dist in simp_all)
qed simp

text \<open>A binding that holds a value its module exported under the contract of the binding.\<close>

definition exported :: "'v Instance option \<Rightarrow> 'v capabilityValue \<Rightarrow> bool" where
  "exported instance b \<longleftrightarrow>
     (\<exists>i es e. instance = Some i \<and> inst_exports i = Some es \<and> e \<in> set es \<and>
        normalizeCapabilityContract (ex_contract e) = Inr (cv_contract b) \<and> cv_value b = ex_value e)"

text \<open>The bindings of one module: exactly its declared contracts, each with an exported value.\<close>

definition module_bindings :: "string \<Rightarrow> CapabilityContract list \<Rightarrow> 'v Instance option \<Rightarrow> 'v bindings \<Rightarrow> bool" where
  "module_bindings m cs instance bs \<longleftrightarrow>
     (\<forall>c \<in> set cs. \<exists>b. (cap_name c, b) \<in> set bs \<and> cv_contract b = c) \<and>
     (\<forall>(n, b) \<in> set bs. cv_module b = m \<and> cv_contract b \<in> set cs \<and> n = cap_name (cv_contract b) \<and> exported instance b)"

lemma collect_module_spec:
  assumes "collect_module m (map (\<lambda>c. (cap_name c, c)) cs) instance vals = Inr vals'"
    and dist: "distinct (map cap_name cs)"
  shows "\<exists>bs. vals' = vals @ bs \<and> module_bindings m cs instance bs \<and>
    (distinct (map fst vals) \<longrightarrow> distinct (map fst vals'))"
proof (cases "cs = []")
  case True
  with assms(1) show ?thesis
    by (auto simp: collect_module_def Let_def module_bindings_def split: if_splits)
next
  case False
  with assms(1) obtain i raw es seen where i: "instance = Some i" "inst_exports i = Some raw"
    and es: "normalize_exports m raw = Inr es"
    and add: "add_exports m (map (\<lambda>c. (cap_name c, c)) cs) (sort_key (\<lambda>e. contract_key (ex_contract e)) es) [] vals
      = Inr (seen, vals')"
    and all: "find (\<lambda>n. n \<notin> set seen) (sort (map fst (map (\<lambda>c. (cap_name c, c)) cs))) = None"
    by (cases "instance") (auto simp: collect_module_def Let_def split: if_splits option.splits sum.splits)
  let ?es = "sort_key (\<lambda>e. contract_key (ex_contract e)) es"
  note spec = add_exports_spec [OF add]
  have decl: "\<forall>e \<in> set es. ex_contract e \<in> set cs"
    using spec by (force dest: map_of_SomeD)
  have names: "\<forall>c \<in> set cs. \<exists>e \<in> set es. cap_name (ex_contract e) = cap_name c"
    using all conjunct1 [OF spec] by (fastforce simp: find_None_all image_iff)
  have cover: "\<forall>c \<in> set cs. \<exists>e \<in> set es. ex_contract e = c"
  proof
    fix c assume c: "c \<in> set cs"
    with names obtain e where e: "e \<in> set es" "cap_name (ex_contract e) = cap_name c" by blast
    from e(1) decl have "ex_contract e \<in> set cs" by blast
    with c e(2) dist have "ex_contract e = c" by (auto simp: distinct_map dest: inj_onD)
    with e(1) show "\<exists>e \<in> set es. ex_contract e = c" by blast
  qed
  have "\<forall>e \<in> set es. exported instance (snd (bind_export m e))"
    using list_all2_mem_right [OF normalize_exports_spec [OF es]] i
    unfolding exported_def bind_export_def by fastforce
  with decl cover have "module_bindings m cs instance (map (bind_export m) ?es)"
    by (fastforce simp: module_bindings_def bind_export_def)
  with spec show ?thesis by blast
qed

definition declared_by :: "'b Descriptor list \<Rightarrow> (string \<times> contracts) list" where
  "declared_by ds = map (\<lambda>d. (d_name d, map (\<lambda>c. (cap_name c, c)) (d_provides d))) ds"

text \<open>
  The bindings of the modules \<open>ms\<close> of a plan: every declared contract is bound, by its own module, and
  every binding is a declared contract with a value its module exported.
\<close>

definition plan_bindings :: "'b Descriptor list \<Rightarrow> (string \<times> 'v Instance) list \<Rightarrow> string set \<Rightarrow> 'v bindings \<Rightarrow> bool" where
  "plan_bindings ds byModule ms bs \<longleftrightarrow>
     (\<forall>d \<in> set ds. d_name d \<in> ms \<longrightarrow> (\<forall>c \<in> set (d_provides d).
        \<exists>b. (cap_name c, b) \<in> set bs \<and> cv_module b = d_name d \<and> cv_contract b = c)) \<and>
     (\<forall>(n, b) \<in> set bs. \<exists>d \<in> set ds. cv_module b = d_name d \<and> cv_contract b \<in> set (d_provides d) \<and>
        n = cap_name (cv_contract b) \<and> exported (map_of byModule (d_name d)) b)"

lemma getl_declared_by:
  assumes "distinct (map d_name ds)" "d \<in> set ds"
  shows "getl (declared_by ds) (d_name d) = map (\<lambda>c. (cap_name c, c)) (d_provides d)"
proof -
  have "map_of (declared_by ds) (d_name d) = Some (map (\<lambda>c. (cap_name c, c)) (d_provides d))"
    using assms by (intro map_of_is_SomeI) (auto simp: declared_by_def comp_def)
  then show ?thesis by (simp add: getl_def)
qed

lemma plan_bindings_extend:
  assumes "plan_bindings ds by ms vals" "module_bindings (d_name d) (d_provides d) (map_of by (d_name d)) bs"
    and "d \<in> set ds" "distinct (map d_name ds)"
  shows "plan_bindings ds by (insert (d_name d) ms) (vals @ bs)"
proof -
  have uniq: "d' = d" if "d' \<in> set ds" "d_name d' = d_name d" for d'
    using that assms(3,4) by (auto simp: distinct_map dest: inj_onD)
  from assms(2) have cover: "\<forall>c \<in> set (d_provides d). \<exists>b. (cap_name c, b) \<in> set bs \<and> cv_module b = d_name d \<and> cv_contract b = c"
    unfolding module_bindings_def by fast
  from assms(2) have sound: "\<forall>(n, b) \<in> set bs. cv_module b = d_name d \<and> cv_contract b \<in> set (d_provides d) \<and>
      n = cap_name (cv_contract b) \<and> exported (map_of by (d_name d)) b"
    unfolding module_bindings_def by blast
  have "\<exists>b. (cap_name c, b) \<in> set (vals @ bs) \<and> cv_module b = d_name d' \<and> cv_contract b = c"
    if "d' \<in> set ds" "d_name d' \<in> insert (d_name d) ms" "c \<in> set (d_provides d')" for d' c
  proof (cases "d_name d' = d_name d")
    case True
    with uniq that cover show ?thesis by (metis Un_iff set_append)
  next
    case False
    with that(2) have "d_name d' \<in> ms" by simp
    with that(1,3) assms(1) obtain b where "(cap_name c, b) \<in> set vals" "cv_module b = d_name d'" "cv_contract b = c"
      unfolding plan_bindings_def by blast
    then show ?thesis by auto
  qed
  moreover have "\<forall>(n, b) \<in> set bs. \<exists>d \<in> set ds. cv_module b = d_name d \<and> cv_contract b \<in> set (d_provides d) \<and>
        n = cap_name (cv_contract b) \<and> exported (map_of by (d_name d)) b"
    using assms(3) sound by blast
  moreover have "\<forall>(n, b) \<in> set vals. \<exists>d \<in> set ds. cv_module b = d_name d \<and> cv_contract b \<in> set (d_provides d) \<and>
        n = cap_name (cv_contract b) \<and> exported (map_of by (d_name d)) b"
    using assms(1) unfolding plan_bindings_def by blast
  ultimately show ?thesis unfolding plan_bindings_def set_append ball_Un by blast
qed

lemma collect_modules_spec:
  assumes "collect_modules (declared_by ds) by ms vals = Inr vals'"
    and wf: "list_all wf_descriptor ds" "distinct (map d_name ds)"
    and "set ms \<subseteq> d_name ` set ds" "plan_bindings ds by done vals" "distinct (map fst vals)"
  shows "plan_bindings ds by (set ms \<union> done) vals' \<and> distinct (map fst vals')"
  using assms(1,4-)
proof (induction ms arbitrary: vals "done")
  case (Cons m ms)
  then obtain d where d: "d \<in> set ds" "m = d_name d" by auto
  with wf have "distinct (map cap_name (d_provides d))" by (auto simp: list_all_iff wf_descriptor_def)
  moreover from Cons.prems(1) obtain vals1 where
    c: "collect_module m (map (\<lambda>c. (cap_name c, c)) (d_provides d)) (map_of by m) vals = Inr vals1"
    and rest: "collect_modules (declared_by ds) by ms vals1 = Inr vals'"
    using d getl_declared_by [OF wf(2) d(1)] by (auto split: sum.splits)
  ultimately obtain bs where bs: "vals1 = vals @ bs" "module_bindings m (d_provides d) (map_of by m) bs"
    "distinct (map fst vals1)"
    using collect_module_spec [OF c] Cons.prems(4) by blast
  then have "plan_bindings ds by (insert m done) vals1"
    using plan_bindings_extend [OF Cons.prems(3)] d wf(2) by blast
  from Cons.IH [OF rest _ this bs(3)] Cons.prems(2) show ?case by (simp add: Un_commute)
qed simp

text \<open>
  Property C13: a successful collection for a sealed plan binds every declared contract to a value that the
  instance of the declaring module exported under exactly that contract, binds nothing else, and every
  instance that exports something belongs to a module of the plan. Resolving the key of a declared contract
  then returns that value whenever it has the type the key asks for.
\<close>

theorem CollectCapabilities_exact:
  assumes wf: "list_all wf_descriptor ds" "distinct (map d_name ds)"
    and ok: "CollectCapabilities ds instances = Inr cs"
  shows "(\<forall>d \<in> set ds. \<forall>c \<in> set (d_provides d). \<exists>i es e.
            Some i \<in> set instances \<and> trim_space (inst_name i) = d_name d \<and> inst_exports i = Some es \<and> e \<in> set es \<and>
            normalizeCapabilityContract (ex_contract e) = Inr c \<and>
            map_of (cs_values cs) (cap_name c) = Some \<lparr>cv_module = d_name d, cv_contract = c, cv_value = ex_value e\<rparr> \<and>
            (assignable (ex_value e) \<longrightarrow> ResolveCapability assignable cs \<lparr>key_contract = c\<rparr> = Inr (ex_value e))) \<and>
         (\<forall>n b. map_of (cs_values cs) n = Some b \<longrightarrow>
            (\<exists>d \<in> set ds. cv_module b = d_name d \<and> cv_contract b \<in> set (d_provides d) \<and> cap_name (cv_contract b) = n)) \<and>
         (\<forall>i es. Some i \<in> set instances \<and> inst_exports i = Some es \<and> es \<noteq> [] \<longrightarrow>
            trim_space (inst_name i) \<in> d_name ` set ds)"
proof -
  have "declare_modules ds [] [] = Inr (declared_by ds, map d_name ds)"
    using declare_modules_spec [OF wf] by (simp add: declared_by_def)
  with ok obtain byM vals where idx: "index_instances instances [] = Inr byM"
    and col: "collect_modules (declared_by ds) byM (sort (map d_name ds)) [] = Inr vals"
    and unpl: "find (unplanned (declared_by ds) byM) (sort (map fst byM)) = None" and cs: "cs_values cs = vals"
    unfolding CollectCapabilities_def by (auto split: sum.splits option.splits if_splits simp: EmptyCapabilitySet_def)
  have byM: "distinct (map fst byM)" "set byM = {(trim_space (inst_name i), i) | i. Some i \<in> set instances}"
    using index_instances_spec [OF idx] by auto
  have bind: "plan_bindings ds byM (d_name ` set ds) vals" "distinct (map fst vals)"
    using collect_modules_spec [OF col wf, of "{}"] by (auto simp: plan_bindings_def)
  have norm: "normalizeCapabilityContract c = Inr c" if "d \<in> set ds" "c \<in> set (d_provides d)" for d c
    using wf(1) that by (auto simp: list_all_iff wf_descriptor_def wf_contract_def)
  have key: "map_of vals n = Some b \<longleftrightarrow> (n, b) \<in> set vals" for n b
    using distinct_map_of_mem [OF bind(2)] by simp
  have inst: "Some i \<in> set instances \<and> trim_space (inst_name i) = n" if "map_of byM n = Some i" for i n
    using map_of_SomeD [OF that] byM(2) by auto
  have 1: "\<exists>i es e. Some i \<in> set instances \<and> trim_space (inst_name i) = d_name d \<and> inst_exports i = Some es \<and> e \<in> set es \<and>
            normalizeCapabilityContract (ex_contract e) = Inr c \<and>
            map_of vals (cap_name c) = Some \<lparr>cv_module = d_name d, cv_contract = c, cv_value = ex_value e\<rparr>"
    if dc: "d \<in> set ds" "c \<in> set (d_provides d)" for d c
  proof -
    from bind(1) dc obtain b where b: "(cap_name c, b) \<in> set vals" "cv_module b = d_name d" "cv_contract b = c"
      unfolding plan_bindings_def by blast
    with bind(1) have "exported (map_of byM (d_name d)) b" unfolding plan_bindings_def by fastforce
    with b(3) obtain i es e where i: "map_of byM (d_name d) = Some i"
      and e: "inst_exports i = Some es" "e \<in> set es" "normalizeCapabilityContract (ex_contract e) = Inr c" "cv_value b = ex_value e"
      unfolding exported_def by blast
    have "b = \<lparr>cv_module = d_name d, cv_contract = c, cv_value = ex_value e\<rparr>" using b e by simp
    with b(1) key have "map_of vals (cap_name c) = Some \<lparr>cv_module = d_name d, cv_contract = c, cv_value = ex_value e\<rparr>" by simp
    with inst [OF i] e show ?thesis by blast
  qed
  have 2: "\<exists>d \<in> set ds. cv_module b = d_name d \<and> cv_contract b \<in> set (d_provides d) \<and> cap_name (cv_contract b) = n"
    if "map_of vals n = Some b" for n b
    using bind(1) that key unfolding plan_bindings_def by fastforce
  have 3: "trim_space (inst_name i) \<in> d_name ` set ds"
    if i: "Some i \<in> set instances" "inst_exports i = Some es" "es \<noteq> []" for i es
  proof -
    have "map_of byM (trim_space (inst_name i)) = Some i" using i byM by (intro map_of_is_SomeI) auto
    moreover from this have "trim_space (inst_name i) \<in> fst ` set byM" by (rule map_of_Some_key)
    ultimately have "map_of (declared_by ds) (trim_space (inst_name i)) \<noteq> None"
      using unpl i by (auto simp: find_None_all unplanned_def)
    then show ?thesis by (auto simp: declared_by_def map_of_eq_None_iff image_image)
  qed
  have res: "ResolveCapability assignable cs \<lparr>key_contract = c\<rparr> = Inr v"
    if "d \<in> set ds" "c \<in> set (d_provides d)" "assignable v"
      "map_of vals (cap_name c) = Some \<lparr>cv_module = d_name d, cv_contract = c, cv_value = v\<rparr>" for d c v
    using that norm cs by (simp add: ResolveCapability_def)
  show ?thesis unfolding cs
  proof (intro conjI ballI allI impI)
    fix d c assume dc: "d \<in> set ds" "c \<in> set (d_provides d)"
    from 1 [OF dc] res [OF dc] show "\<exists>i es e. Some i \<in> set instances \<and> trim_space (inst_name i) = d_name d \<and>
        inst_exports i = Some es \<and> e \<in> set es \<and> normalizeCapabilityContract (ex_contract e) = Inr c \<and>
        map_of vals (cap_name c) = Some \<lparr>cv_module = d_name d, cv_contract = c, cv_value = ex_value e\<rparr> \<and>
        (assignable (ex_value e) \<longrightarrow> ResolveCapability assignable cs \<lparr>key_contract = c\<rparr> = Inr (ex_value e))"
      by blast
  next
    fix n b assume "map_of vals n = Some b"
    then show "\<exists>d \<in> set ds. cv_module b = d_name d \<and> cv_contract b \<in> set (d_provides d) \<and> cap_name (cv_contract b) = n"
      by (rule 2)
  next
    fix i es assume "Some i \<in> set instances \<and> inst_exports i = Some es \<and> es \<noteq> []"
    then show "trim_space (inst_name i) \<in> d_name ` set ds" using 3 by blast
  qed
qed

definition ex_contract1 :: CapabilityContract where
  "ex_contract1 = \<lparr>cap_name = ''clock'', cap_package = ''p'', cap_type = ''C''\<rparr>"

definition mod_p :: "unit Descriptor" where
  "mod_p = \<lparr>d_name = ''p'', d_version = [], d_depends = [], d_reqs = no_reqs, d_provides = [ex_contract1], d_build = Some ()\<rparr>"

definition inst_p :: "nat Instance" where
  "inst_p = \<lparr>inst_name = ''p'', inst_exports = Some [\<lparr>ex_contract = ex_contract1, ex_value = 7\<rparr>]\<rparr>"

definition ex_capset :: "nat CapabilitySet" where
  "ex_capset = \<lparr>cs_values = [(''clock'', \<lparr>cv_module = ''p'', cv_contract = ex_contract1, cv_value = 7\<rparr>)]\<rparr>"

theorem CollectCapabilities_exact_witness:
  "ResolveCapability (\<lambda>_. True) ex_capset \<lparr>key_contract = ex_contract1\<rparr> = Inr 7"
proof -
  have "list_all wf_descriptor [mod_p]" by code_simp
  moreover have "distinct (map d_name [mod_p])" by simp
  moreover have "CollectCapabilities [mod_p] [Some inst_p] = Inr ex_capset" by code_simp
  ultimately have "\<exists>i es e. Some i \<in> set [Some inst_p] \<and> inst_exports i = Some es \<and> e \<in> set es \<and>
      ResolveCapability (\<lambda>_. True) ex_capset \<lparr>key_contract = ex_contract1\<rparr> = Inr (ex_value e)"
    using CollectCapabilities_exact [of "[mod_p]" "[Some inst_p]" ex_capset "\<lambda>_. True"]
    by (fastforce simp: mod_p_def)
  then show ?thesis by (auto simp: inst_p_def)
qed

end
