(* ===== verification/Lifecycle.thy ===== *)
theory Lifecycle
  imports Capability
begin

text \<open>
  The life cycle of an application (\<open>framework/core/application_lifecycle.go\<close>, \<open>lifecycle.go\<close>, \<open>runtime_component.go\<close>,
  \<open>application.go\<close> and the shutdown helpers of \<open>application_options.go\<close>): starting, stopping and checking the composition
  factory, the composed modules and the runtime components. The optional interfaces a Go value may implement
  (\<open>Startable\<close>, \<open>HealthChecker\<close>, \<open>Shutdowner\<close>, \<open>io.Closer\<close>) are optional hooks; a hook is a function of the world \<open>'w\<close>
  that returns an error or panics, and what it reads of its context is part of the world. Every hook that runs is
  recorded in the order of the calls. \<open>Start\<close> and \<open>Shutdown\<close> hold the life cycle mutex, so a history is a sequence of them.
\<close>

section \<open>Data\<close>

datatype AppState = AppStateNew | AppStateInitializing | AppStateStarting | AppStateReady | AppStateStopping | AppStateStopped | AppStateFailed

fun AppState_String :: "AppState \<Rightarrow> string" where
  "AppState_String AppStateNew = ''new''"
| "AppState_String AppStateInitializing = ''initializing''"
| "AppState_String AppStateStarting = ''starting''"
| "AppState_String AppStateReady = ''ready''"
| "AppState_String AppStateStopping = ''stopping''"
| "AppState_String AppStateStopped = ''stopped''"
| "AppState_String AppStateFailed = ''failed''"

type_synonym 'w hook = "'w \<Rightarrow> (string, goerr option) outcome \<times> 'w"

record 'w Hooks =
  hk_Start :: "'w hook option"
  hk_Health :: "'w hook option"
  hk_Shutdown :: "'w hook option"
  hk_Close :: "'w hook option"

record ('w, 'v) Module =
  mo_instance :: "'v Instance"
  mo_hooks :: "'w Hooks"

record 'w RuntimeComponent =
  rc_Name :: string
  rc_StartFunc :: "'w hook option"
  rc_HealthFunc :: "'w hook option"
  rc_ShutdownFunc :: "'w hook option"

record RuntimeInventory =
  ri_Routes :: "string list"
  ri_RPCClientConfigured :: bool
  ri_RPCServerCount :: int

record ('w, 'v) App =
  app_modules :: "('w, 'v) Module list"
  app_factory :: "'w Hooks option"
  app_components :: "'w RuntimeComponent list"
  app_inventory :: RuntimeInventory
  app_eventBus :: "'w hook option"
  app_state :: AppState

record HealthCheck =
  hc_Name :: string
  hc_Healthy :: bool
  hc_Error :: string

record HealthReport =
  hr_State :: string
  hr_Live :: bool
  hr_Ready :: bool
  hr_Checks :: "HealthCheck list"

section \<open>Calls\<close>

datatype owner = Factory | AModule string | AComponent string | TheEventBus | AResource string

text \<open>The calls of a run. The flag of \<open>Builds\<close> says whether what was built has to be released: it has a method or function for that.\<close>

datatype call = Builds owner bool | Starts owner | Checks owner | Stops owner

record 'w run =
  rn_world :: 'w
  rn_calls :: "call list"

abbreviation mo_name :: "('w, 'v) Module \<Rightarrow> string" where
  "mo_name m \<equiv> inst_name (mo_instance m)"

definition safeLifecycleCall :: "string \<Rightarrow> call \<Rightarrow> 'w hook \<Rightarrow> 'w run \<Rightarrow> goerr option \<times> 'w run" where
  "safeLifecycleCall name c fn r =
     (case fn (rn_world r) of
        (Return err, w) \<Rightarrow> (err, \<lparr>rn_world = w, rn_calls = rn_calls r @ [c]\<rparr>)
      | (Panic p, w) \<Rightarrow> (Some (Err ''%s panicked: %v'' [name, p]), \<lparr>rn_world = w, rn_calls = rn_calls r @ [c]\<rparr>))"

section \<open>Shutting down\<close>

definition shutdownComposedInstance :: "('w, 'v) Module \<Rightarrow> 'w run \<Rightarrow> goerr option \<times> 'w run" where
  "shutdownComposedInstance m r =
     (case hk_Shutdown (mo_hooks m) of
        Some h \<Rightarrow> safeLifecycleCall (''shutdown composed module '' @ mo_name m) (Stops (AModule (mo_name m))) h r
      | None \<Rightarrow>
        (case hk_Close (mo_hooks m) of
           Some h \<Rightarrow> safeLifecycleCall (''close composed module '' @ mo_name m) (Stops (AModule (mo_name m))) h r
         | None \<Rightarrow> (None, r)))"

definition shutdownCompositionFactory :: "'w Hooks option \<Rightarrow> 'w run \<Rightarrow> goerr option \<times> 'w run" where
  "shutdownCompositionFactory factory r =
     (case factory of
        None \<Rightarrow> (None, r)
      | Some f \<Rightarrow>
        (case hk_Shutdown f of
           Some h \<Rightarrow> safeLifecycleCall ''shutdown composition capabilities'' (Stops Factory) h r
         | None \<Rightarrow>
           (case hk_Close f of
              Some h \<Rightarrow> safeLifecycleCall ''close composition capabilities'' (Stops Factory) h r
            | None \<Rightarrow> (None, r))))"

text \<open>The loops count down; here they run over the reversed list.\<close>

fun shutdown_modules :: "('w, 'v) Module list \<Rightarrow> 'w run \<Rightarrow> goerr option list \<times> 'w run" where
  "shutdown_modules [] r = ([], r)"
| "shutdown_modules (m # ms) r =
     (case shutdownComposedInstance m r of
        (err, r1) \<Rightarrow>
          (case shutdown_modules ms r1 of
             (errs, r2) \<Rightarrow> (map_option (Wrap ''shutdown module %s: %w'' [mo_name m]) err # errs, r2)))"

fun shutdown_components :: "'w RuntimeComponent list \<Rightarrow> 'w run \<Rightarrow> goerr option list \<times> 'w run" where
  "shutdown_components [] r = ([], r)"
| "shutdown_components (c # cs) r =
     (case rc_ShutdownFunc c of
        None \<Rightarrow> shutdown_components cs r
      | Some h \<Rightarrow>
        (case safeLifecycleCall (''shutdown runtime component '' @ rc_Name c) (Stops (AComponent (rc_Name c))) h r of
           (err, r1) \<Rightarrow>
             (case shutdown_components cs r1 of
                (errs, r2) \<Rightarrow> (map_option (Wrap ''shutdown runtime component %s: %w'' [rc_Name c]) err # errs, r2))))"

definition shutdownRuntimeComponents :: "'w RuntimeComponent list \<Rightarrow> 'w run \<Rightarrow> goerr option list \<times> 'w run" where
  "shutdownRuntimeComponents components = shutdown_components (rev components)"

definition close_event_bus :: "string \<Rightarrow> 'w hook option \<Rightarrow> 'w run \<Rightarrow> goerr option \<times> 'w run" where
  "close_event_bus name bus r = (case bus of None \<Rightarrow> (None, r) | Some h \<Rightarrow> safeLifecycleCall name (Stops TheEventBus) h r)"

definition shutdownComponents :: "('w, 'v) App \<Rightarrow> 'w run \<Rightarrow> goerr option list \<times> 'w run" where
  "shutdownComponents app r =
     (case shutdown_modules (rev (app_modules app)) r of
        (errs, r1) \<Rightarrow>
          (case shutdownCompositionFactory (app_factory app) r1 of
             (ferr, r2) \<Rightarrow>
               (case close_event_bus ''close event bus'' (app_eventBus app) r2 of
                  (berr, r3) \<Rightarrow> (errs @ [map_option (Wrap ''shutdown composition capabilities: %w'' []) ferr, berr], r3))))"

section \<open>Starting\<close>

text \<open>A start that fails leaves the position it reached.\<close>

fun start_modules :: "('w, 'v) Module list \<Rightarrow> 'w run \<Rightarrow> goerr option \<times> 'w run" where
  "start_modules [] r = (None, r)"
| "start_modules (m # ms) r =
     (case hk_Start (mo_hooks m) of
        None \<Rightarrow> start_modules ms r
      | Some h \<Rightarrow>
        (case safeLifecycleCall (''start module '' @ mo_name m) (Starts (AModule (mo_name m))) h r of
           (None, r1) \<Rightarrow> start_modules ms r1
         | (Some err, r1) \<Rightarrow> (Some (Wrap ''start module %s: %w'' [mo_name m] err), r1)))"

definition nil_function :: "'w hook" where
  "nil_function w = (Panic ''runtime error: invalid memory address or nil pointer dereference'', w)"

fun start_components :: "'w RuntimeComponent list \<Rightarrow> nat \<Rightarrow> 'w run \<Rightarrow> (goerr \<times> nat) option \<times> 'w run" where
  "start_components [] index r = (None, r)"
| "start_components (c # cs) index r =
     (case safeLifecycleCall (''start runtime component '' @ rc_Name c) (Starts (AComponent (rc_Name c)))
        (case rc_StartFunc c of Some h \<Rightarrow> h | None \<Rightarrow> nil_function) r of
        (None, r1) \<Rightarrow> start_components cs (Suc index) r1
      | (Some err, r1) \<Rightarrow> (Some (Wrap ''start runtime component %s: %w'' [rc_Name c] err, index), r1))"

definition start_factory :: "'w Hooks option \<Rightarrow> 'w run \<Rightarrow> goerr option \<times> 'w run" where
  "start_factory factory r =
     (case Option.bind factory hk_Start of
        None \<Rightarrow> (None, r)
      | Some h \<Rightarrow>
        (case safeLifecycleCall ''start composition capabilities'' (Starts Factory) h r of
           (None, r1) \<Rightarrow> (None, r1)
         | (Some err, r1) \<Rightarrow> (Some (Wrap ''start composition capabilities: %w'' [] err), r1)))"

text \<open>Giving up: the error of the start, joined with those of the cleanup.\<close>

definition give_up :: "goerr \<Rightarrow> 'w RuntimeComponent list \<Rightarrow> ('w, 'v) App \<Rightarrow> 'w run \<Rightarrow> goerr option \<times> ('w, 'v) App \<times> 'w run" where
  "give_up err started app r =
     (case shutdownRuntimeComponents started r of
        (cerrs, r1) \<Rightarrow>
          (case shutdownComponents app r1 of
             (errs, r2) \<Rightarrow> (err_join [Some err, err_join cerrs, err_join errs], app\<lparr>app_state := AppStateFailed\<rparr>, r2)))"

definition app_Start :: "('w, 'v) App option \<Rightarrow> 'w run \<Rightarrow> goerr option \<times> ('w, 'v) App option \<times> 'w run" where
  "app_Start application r =
     (case application of
        None \<Rightarrow> (Some (Err ''core: nil application'' []), None, r)
      | Some app \<Rightarrow>
        if app_state app = AppStateReady then (None, Some app, r)
        else if app_state app \<in> {AppStateStopping, AppStateStopped, AppStateFailed}
        then (Some (Err ''application cannot start from state %s'' [AppState_String (app_state app)]), Some app, r)
        else
          (let app1 = app\<lparr>app_state := AppStateStarting\<rparr> in
           case start_factory (app_factory app) r of
             (Some err, r1) \<Rightarrow> (case give_up err [] app1 r1 of (e, a, r') \<Rightarrow> (e, Some a, r'))
           | (None, r1) \<Rightarrow>
             (case start_modules (app_modules app) r1 of
                (Some err, r2) \<Rightarrow> (case give_up err [] app1 r2 of (e, a, r') \<Rightarrow> (e, Some a, r'))
              | (None, r2) \<Rightarrow>
                (case start_components (app_components app) 0 r2 of
                   (Some (err, index), r3) \<Rightarrow>
                     (case give_up err (take (Suc index) (app_components app)) app1 r3 of (e, a, r') \<Rightarrow> (e, Some a, r'))
                 | (None, r3) \<Rightarrow> (None, Some (app1\<lparr>app_state := AppStateReady\<rparr>), r3)))))"

definition app_Shutdown :: "('w, 'v) App option \<Rightarrow> 'w run \<Rightarrow> goerr option \<times> ('w, 'v) App option \<times> 'w run" where
  "app_Shutdown application r =
     (case application of
        None \<Rightarrow> (None, None, r)
      | Some app \<Rightarrow>
        if app_state app = AppStateStopped then (None, Some app, r)
        else
          (case shutdownRuntimeComponents (app_components app) r of
             (cerrs, r1) \<Rightarrow>
               (case shutdownComponents app r1 of
                  (errs, r2) \<Rightarrow> (err_join (cerrs @ errs), Some (app\<lparr>app_state := AppStateStopped\<rparr>), r2))))"

section \<open>Run and Stop\<close>

definition app_Stop :: "('w, 'v) App option \<Rightarrow> 'w run \<Rightarrow> ('w, 'v) App option \<times> 'w run" where
  "app_Stop application r = snd (app_Shutdown application r)"

text \<open>\<open>Run\<close> panics with the error of a failed start, and stops the application when \<open>run\<close> returns or panics.\<close>

definition app_Run ::
  "('w, 'v) App option \<Rightarrow> ('w \<Rightarrow> (string, unit) outcome \<times> 'w) option \<Rightarrow> 'w run \<Rightarrow> (goerr + string, unit) outcome \<times> ('w, 'v) App option \<times> 'w run" where
  "app_Run application body r =
     (case application of
        None \<Rightarrow> (Panic (Inr ''core: nil application''), None, r)
      | Some app \<Rightarrow>
        (case app_Start (Some (app\<lparr>app_state := AppStateInitializing\<rparr>)) r of
           (Some err, a, r1) \<Rightarrow> (Panic (Inl err), map_option (\<lambda>a. a\<lparr>app_state := AppStateFailed\<rparr>) a, r1)
         | (None, a, r1) \<Rightarrow>
           (case body of
              None \<Rightarrow> (Return (), app_Stop a r1)
            | Some f \<Rightarrow>
              (case f (rn_world r1) of
                 (Return u, w) \<Rightarrow> (Return (), app_Stop a (r1\<lparr>rn_world := w\<rparr>))
               | (Panic p, w) \<Rightarrow> (Panic (Inr p), app_Stop a (r1\<lparr>rn_world := w\<rparr>))))))"

section \<open>Health\<close>

definition health_check :: "(goerr \<Rightarrow> string) \<Rightarrow> string \<Rightarrow> string \<Rightarrow> call \<Rightarrow> 'w hook \<Rightarrow> HealthReport \<Rightarrow> 'w run \<Rightarrow> HealthReport \<times> 'w run" where
  "health_check errtext name label c h report r =
     (case safeLifecycleCall label c h r of
        (None, r1) \<Rightarrow> (report\<lparr>hr_Checks := hr_Checks report @ [\<lparr>hc_Name = name, hc_Healthy = True, hc_Error = []\<rparr>]\<rparr>, r1)
      | (Some err, r1) \<Rightarrow>
          (report\<lparr>hr_Checks := hr_Checks report @ [\<lparr>hc_Name = name, hc_Healthy = False, hc_Error = errtext err\<rparr>], hr_Ready := False\<rparr>, r1))"

fun health_checks ::
  "(goerr \<Rightarrow> string) \<Rightarrow> (string \<times> string \<times> call \<times> 'w hook) list \<Rightarrow> HealthReport \<Rightarrow> 'w run \<Rightarrow> HealthReport \<times> 'w run" where
  "health_checks errtext [] report r = (report, r)"
| "health_checks errtext ((name, label, c, h) # hs) report r =
     (case health_check errtext name label c h report r of (report1, r1) \<Rightarrow> health_checks errtext hs report1 r1)"

definition checked_modules :: "('w, 'v) Module list \<Rightarrow> (string \<times> string \<times> call \<times> 'w hook) list" where
  "checked_modules ms =
     some_values (map (\<lambda>m. map_option (\<lambda>h. (''module.'' @ mo_name m, ''health module '' @ mo_name m, Checks (AModule (mo_name m)), h))
       (hk_Health (mo_hooks m))) ms)"

definition checked_components :: "'w RuntimeComponent list \<Rightarrow> (string \<times> string \<times> call \<times> 'w hook) list" where
  "checked_components cs =
     some_values (map (\<lambda>c. map_option (\<lambda>h. (''runtime.'' @ rc_Name c, ''health runtime component '' @ rc_Name c, Checks (AComponent (rc_Name c)), h))
       (rc_HealthFunc c)) cs)"

definition checked_factory :: "'w Hooks option \<Rightarrow> (string \<times> string \<times> call \<times> 'w hook) list" where
  "checked_factory factory =
     some_values [map_option (\<lambda>h. (''composition.capabilities'', ''health composition capabilities'', Checks Factory, h)) (Option.bind factory hk_Health)]"

definition app_Health :: "(goerr \<Rightarrow> string) \<Rightarrow> ('w, 'v) App \<Rightarrow> 'w run \<Rightarrow> HealthReport \<times> 'w run" where
  "app_Health errtext app r =
     (let state = app_state app;
          report = \<lparr>hr_State = AppState_String state, hr_Live = (state \<noteq> AppStateStopped \<and> state \<noteq> AppStateFailed),
                    hr_Ready = (state = AppStateReady), hr_Checks = []\<rparr>
      in if state = AppStateStopped \<or> state = AppStateFailed then (report, r)
         else health_checks errtext
           (checked_factory (app_factory app) @ checked_modules (app_modules app) @ checked_components (app_components app)) report r)"


text \<open>The same three operations for a resource of any kind.\<close>

definition startResource :: "owner \<Rightarrow> 'w Hooks \<Rightarrow> 'w run \<Rightarrow> goerr option \<times> 'w run" where
  "startResource own resource r =
     (case hk_Start resource of Some h \<Rightarrow> safeLifecycleCall ''start resource'' (Starts own) h r | None \<Rightarrow> (None, r))"

definition healthCheckResource :: "(goerr \<Rightarrow> string) \<Rightarrow> owner \<Rightarrow> string \<Rightarrow> 'w Hooks \<Rightarrow> 'w run \<Rightarrow> HealthCheck option \<times> 'w run" where
  "healthCheckResource errtext own name resource r =
     (case hk_Health resource of
        None \<Rightarrow> (None, r)
      | Some h \<Rightarrow>
        (case safeLifecycleCall (''health '' @ name) (Checks own) h r of
           (None, r1) \<Rightarrow> (Some \<lparr>hc_Name = name, hc_Healthy = True, hc_Error = []\<rparr>, r1)
         | (Some err, r1) \<Rightarrow> (Some \<lparr>hc_Name = name, hc_Healthy = False, hc_Error = errtext err\<rparr>, r1)))"

definition shutdownResource :: "owner \<Rightarrow> 'w Hooks \<Rightarrow> 'w run \<Rightarrow> goerr option \<times> 'w run" where
  "shutdownResource own resource r =
     (case hk_Shutdown resource of
        Some h \<Rightarrow> safeLifecycleCall ''shutdown resource'' (Stops own) h r
      | None \<Rightarrow> (case hk_Close resource of Some h \<Rightarrow> safeLifecycleCall ''close resource'' (Stops own) h r | None \<Rightarrow> (None, r)))"

section \<open>The calls of each phase\<close>

definition stoppable :: "'w Hooks \<Rightarrow> bool" where
  "stoppable h \<longleftrightarrow> hk_Shutdown h \<noteq> None \<or> hk_Close h \<noteq> None"

lemma stoppable_code [code]: "stoppable h \<longleftrightarrow> \<not> Option.is_none (hk_Shutdown h) \<or> \<not> Option.is_none (hk_Close h)"
  by (simp add: stoppable_def Option.is_none_def)

definition module_stops :: "('w, 'v) Module list \<Rightarrow> call list" where
  "module_stops ms = map (\<lambda>m. Stops (AModule (mo_name m))) (filter (\<lambda>m. stoppable (mo_hooks m)) ms)"

definition component_stops :: "'w RuntimeComponent list \<Rightarrow> call list" where
  "component_stops cs = map (\<lambda>c. Stops (AComponent (rc_Name c))) (filter (\<lambda>c. rc_ShutdownFunc c \<noteq> None) cs)"

definition factory_stops :: "'w Hooks option \<Rightarrow> call list" where
  "factory_stops f = (case f of None \<Rightarrow> [] | Some h \<Rightarrow> if stoppable h then [Stops Factory] else [])"

definition bus_stops :: "'w hook option \<Rightarrow> call list" where
  "bus_stops b = (if b = None then [] else [Stops TheEventBus])"

text \<open>Stopping: the given components and the modules from the last to the first, then the factory, then the event bus.\<close>

definition stop_calls :: "('w, 'v) App \<Rightarrow> 'w RuntimeComponent list \<Rightarrow> call list" where
  "stop_calls app cs = component_stops (rev cs) @ module_stops (rev (app_modules app)) @ factory_stops (app_factory app) @ bus_stops (app_eventBus app)"

definition module_starts :: "('w, 'v) Module list \<Rightarrow> call list" where
  "module_starts ms = map (\<lambda>m. Starts (AModule (mo_name m))) (filter (\<lambda>m. hk_Start (mo_hooks m) \<noteq> None) ms)"

definition component_starts :: "'w RuntimeComponent list \<Rightarrow> call list" where
  "component_starts cs = map (\<lambda>c. Starts (AComponent (rc_Name c))) cs"

definition factory_starts :: "'w Hooks option \<Rightarrow> call list" where
  "factory_starts f = (if Option.bind f hk_Start = None then [] else [Starts Factory])"

definition start_calls :: "('w, 'v) App \<Rightarrow> call list" where
  "start_calls app = factory_starts (app_factory app) @ module_starts (app_modules app) @ component_starts (app_components app)"

lemma safe_calls: "safeLifecycleCall name c h r = (e, r') \<Longrightarrow> rn_calls r' = rn_calls r @ [c]"
  by (auto simp: safeLifecycleCall_def split: prod.splits outcome.splits)

lemma shutdown_instance_calls: "shutdownComposedInstance m r = (e, r') \<Longrightarrow> rn_calls r' = rn_calls r @ module_stops [m]"
  by (auto simp: shutdownComposedInstance_def module_stops_def stoppable_def split: option.splits dest: safe_calls)

lemma shutdown_modules_calls: "shutdown_modules ms r = (es, r') \<Longrightarrow> rn_calls r' = rn_calls r @ module_stops ms"
proof (induction ms arbitrary: r es)
  case (Cons m ms)
  then show ?case
    by (auto split: prod.splits dest!: shutdown_instance_calls) (auto simp: module_stops_def)
qed (simp add: module_stops_def)

lemma shutdown_components_calls: "shutdown_components cs r = (es, r') \<Longrightarrow> rn_calls r' = rn_calls r @ component_stops cs"
proof (induction cs arbitrary: r es)
  case (Cons c cs)
  then show ?case by (auto simp: component_stops_def split: prod.splits option.splits dest!: safe_calls)
qed (simp add: component_stops_def)

lemma shutdown_factory_calls: "shutdownCompositionFactory f r = (e, r') \<Longrightarrow> rn_calls r' = rn_calls r @ factory_stops f"
  by (auto simp: shutdownCompositionFactory_def factory_stops_def stoppable_def split: option.splits dest: safe_calls)

lemma close_bus_calls: "close_event_bus name b r = (e, r') \<Longrightarrow> rn_calls r' = rn_calls r @ bus_stops b"
  by (auto simp: close_event_bus_def bus_stops_def split: option.splits dest: safe_calls)

lemma shutdownComponents_calls:
  assumes "shutdownComponents app r = (es, r')"
  shows "rn_calls r' = rn_calls r @ stop_calls app []"
proof -
  obtain e1 r1 e2 r2 e3 where "shutdown_modules (rev (app_modules app)) r = (e1, r1)"
    "shutdownCompositionFactory (app_factory app) r1 = (e2, r2)" "close_event_bus ''close event bus'' (app_eventBus app) r2 = (e3, r')"
    using assms by (auto simp: shutdownComponents_def split: prod.splits)
  from shutdown_modules_calls [OF this(1)] shutdown_factory_calls [OF this(2)] close_bus_calls [OF this(3)] show ?thesis
    by (simp add: stop_calls_def component_stops_def)
qed

lemma stop_calls_split: "component_stops (rev cs) @ stop_calls app [] = stop_calls app cs"
  by (simp add: stop_calls_def component_stops_def)

lemma stop_calls_state [simp]: "stop_calls (app\<lparr>app_state := st\<rparr>) cs = stop_calls app cs"
  by (simp add: stop_calls_def)

lemma start_calls_state [simp]: "start_calls (app\<lparr>app_state := st\<rparr>) = start_calls app"
  by (simp add: start_calls_def)

lemma give_up_calls:
  assumes "give_up err cs app r = (res, app', r')"
  shows "res \<noteq> None \<and> app' = app\<lparr>app_state := AppStateFailed\<rparr> \<and> rn_calls r' = rn_calls r @ stop_calls app cs"
proof -
  obtain e1 r1 e2 where c: "shutdown_components (rev cs) r = (e1, r1)" "shutdownComponents app r1 = (e2, r')"
    and res: "res = err_join [Some err, err_join e1, err_join e2]" "app' = app\<lparr>app_state := AppStateFailed\<rparr>"
    using assms by (auto simp: give_up_def shutdownRuntimeComponents_def split: prod.splits)
  have "res \<noteq> None" unfolding res(1) by (simp add: err_join_None_iff)
  with shutdown_components_calls [OF c(1)] shutdownComponents_calls [OF c(2)] res(2) show ?thesis
    by (simp add: stop_calls_split)
qed

lemma start_factory_calls:
  "start_factory f r = (e, r') \<Longrightarrow> rn_calls r' = rn_calls r @ factory_starts f \<and> (e \<noteq> None \<longrightarrow> factory_starts f \<noteq> [])"
  by (auto simp: start_factory_def factory_starts_def split: option.splits prod.splits dest: safe_calls)

lemma start_modules_calls:
  "start_modules ms r = (e, r') \<Longrightarrow> \<exists>n \<le> length (module_starts ms). rn_calls r' = rn_calls r @ take n (module_starts ms) \<and>
     (if e = None then n = length (module_starts ms) else 0 < n)"
proof (induction ms arbitrary: r)
  case (Cons m ms)
  show ?case
  proof (cases "hk_Start (mo_hooks m)")
    case None
    then have "module_starts (m # ms) = module_starts ms" "start_modules (m # ms) r = start_modules ms r" by (simp_all add: module_starts_def)
    with Cons show ?thesis by presburger
  next
    case (Some h)
    obtain e1 r1 where call: "safeLifecycleCall (''start module '' @ mo_name m) (Starts (AModule (mo_name m))) h r = (e1, r1)" by fastforce
    have starts: "module_starts (m # ms) = Starts (AModule (mo_name m)) # module_starts ms" using Some by (simp add: module_starts_def)
    show ?thesis
    proof (cases e1)
      case None
      with Cons.prems Some call have "start_modules ms r1 = (e, r')" by simp
      from Cons.IH [OF this] obtain n where "n \<le> length (module_starts ms)" "rn_calls r' = rn_calls r1 @ take n (module_starts ms)"
        "if e = None then n = length (module_starts ms) else 0 < n" by blast
      then show ?thesis unfolding starts using safe_calls [OF call] by (intro exI [of _ "Suc n"]) auto
    next
      case (Some err)
      with Cons.prems \<open>hk_Start (mo_hooks m) = Some h\<close> call have "e \<noteq> None" "r' = r1" by auto
      then show ?thesis unfolding starts using safe_calls [OF call] by (intro exI [of _ 1]) auto
    qed
  qed
qed (simp add: module_starts_def)

lemma start_components_calls:
  "start_components cs i r = (e, r') \<Longrightarrow>
     (case e of None \<Rightarrow> rn_calls r' = rn_calls r @ component_starts cs
      | Some (err, j) \<Rightarrow> i \<le> j \<and> j < i + length cs \<and> rn_calls r' = rn_calls r @ take (Suc (j - i)) (component_starts cs))"
proof (induction cs arbitrary: i r)
  case (Cons c cs)
  let ?h = "case rc_StartFunc c of Some h \<Rightarrow> h | None \<Rightarrow> nil_function"
  obtain e1 r1 where call: "safeLifecycleCall (''start runtime component '' @ rc_Name c) (Starts (AComponent (rc_Name c))) ?h r = (e1, r1)" by fastforce
  show ?case
  proof (cases e1)
    case None
    with Cons.prems call have "start_components cs (Suc i) r1 = (e, r')" by simp
    from Cons.IH [OF this] safe_calls [OF call] show ?thesis
      by (auto simp: component_starts_def split: option.splits prod.splits simp flip: Suc_diff_Suc)
  next
    case (Some err)
    with Cons.prems call have "e = Some (Wrap ''start runtime component %s: %w'' [rc_Name c] err, i)" "r' = r1" by auto
    with safe_calls [OF call] show ?thesis by (simp add: component_starts_def)
  qed
qed (simp add: component_starts_def)


section \<open>Start and shutdown\<close>

definition fresh :: "AppState \<Rightarrow> bool" where
  "fresh st \<longleftrightarrow> st \<in> {AppStateNew, AppStateInitializing, AppStateStarting}"

text \<open>The components among the first \<open>n\<close> start calls.\<close>

definition started_components :: "('w, 'v) App \<Rightarrow> nat \<Rightarrow> 'w RuntimeComponent list" where
  "started_components app n = take (n - (length (start_calls app) - length (app_components app))) (app_components app)"

lemma app_Start_fresh:
  assumes "fresh (app_state app)"
  shows "app_Start (Some app) r =
     (case start_factory (app_factory app) r of
        (Some err, r1) \<Rightarrow> (case give_up err [] (app\<lparr>app_state := AppStateStarting\<rparr>) r1 of (e, a, r') \<Rightarrow> (e, Some a, r'))
      | (None, r1) \<Rightarrow>
        (case start_modules (app_modules app) r1 of
           (Some err, r2) \<Rightarrow> (case give_up err [] (app\<lparr>app_state := AppStateStarting\<rparr>) r2 of (e, a, r') \<Rightarrow> (e, Some a, r'))
         | (None, r2) \<Rightarrow>
           (case start_components (app_components app) 0 r2 of
              (Some (err, index), r3) \<Rightarrow>
                (case give_up err (take (Suc index) (app_components app)) (app\<lparr>app_state := AppStateStarting\<rparr>) r3 of (e, a, r') \<Rightarrow> (e, Some a, r'))
            | (None, r3) \<Rightarrow> (None, Some (app\<lparr>app_state := AppStateReady\<rparr>), r3))))"
  using assms unfolding app_Start_def fresh_def by (auto simp: Let_def split: option.split prod.split)

lemma gave_up:
  assumes "(case give_up err cs (app\<lparr>app_state := AppStateStarting\<rparr>) r1 of (e, a, r') \<Rightarrow> (e, Some a, r')) = (res, Some app', r')"
    and "rn_calls r1 = rn_calls r @ take n (start_calls app)" "0 < n" "n \<le> length (start_calls app)" "cs = started_components app n"
  shows "\<exists>e n. res = Some e \<and> app' = app\<lparr>app_state := AppStateFailed\<rparr> \<and> 0 < n \<and> n \<le> length (start_calls app) \<and>
    rn_calls r' = rn_calls r @ take n (start_calls app) @ stop_calls app (started_components app n)"
  using assms give_up_calls [of err cs "app\<lparr>app_state := AppStateStarting\<rparr>" r1] by (auto split: prod.splits)

lemma start_outcome:
  assumes "fresh (app_state app)" and run: "app_Start (Some app) r = (res, Some app', r')"
  shows "(res = None \<and> app' = app\<lparr>app_state := AppStateReady\<rparr> \<and> rn_calls r' = rn_calls r @ start_calls app) \<or>
    (\<exists>e n. res = Some e \<and> app' = app\<lparr>app_state := AppStateFailed\<rparr> \<and> 0 < n \<and> n \<le> length (start_calls app) \<and>
      rn_calls r' = rn_calls r @ take n (start_calls app) @ stop_calls app (started_components app n))"
proof -
  let ?F = "factory_starts (app_factory app)" and ?M = "module_starts (app_modules app)" and ?C = "component_starts (app_components app)"
  have len: "length (start_calls app) = length ?F + length ?M + length (app_components app)" by (simp add: start_calls_def component_starts_def)
  note run' = run [unfolded app_Start_fresh [OF assms(1)]]
  obtain e1 r1 where f: "start_factory (app_factory app) r = (e1, r1)" by fastforce
  note c1 = start_factory_calls [OF f]
  show ?thesis
  proof (cases e1)
    case (Some err)
    then have "rn_calls r1 = rn_calls r @ take (length ?F) (start_calls app)" "0 < length ?F" using c1 by (auto simp: start_calls_def)
    from gave_up [OF _ this, of err "[]" res app' r'] run' f Some len show ?thesis by (simp add: started_components_def)
  next
    case None
    obtain e2 r2 where m: "start_modules (app_modules app) r1 = (e2, r2)" by fastforce
    from start_modules_calls [OF m] obtain n where n: "n \<le> length ?M" "rn_calls r2 = rn_calls r1 @ take n ?M"
      "if e2 = None then n = length ?M else 0 < n" by blast
    then have c2: "rn_calls r2 = rn_calls r @ take (length ?F + n) (start_calls app)" using c1 by (simp add: start_calls_def)
    show ?thesis
    proof (cases e2)
      case (Some err)
      from gave_up [OF _ c2, of err "[]" res app' r'] run' f None m Some n len show ?thesis by (simp add: started_components_def)
    next
      case None
      obtain e3 r3 where c: "start_components (app_components app) 0 r2 = (e3, r3)" by fastforce
      note c3 = start_components_calls [OF c]
      show ?thesis
      proof (cases e3)
        case (Some x)
        obtain err j where x: "x = (err, j)" by (cases x)
        have j: "j < length (app_components app)" "rn_calls r3 = rn_calls r2 @ take (Suc j) ?C" using c3 unfolding Some x by simp_all
        have "take (length ?F + length ?M + Suc j) (start_calls app) = ?F @ ?M @ take (Suc j) ?C" by (simp add: start_calls_def)
        moreover have "rn_calls r2 = rn_calls r @ ?F @ ?M" using c2 n(3) \<open>e2 = None\<close> by (simp add: start_calls_def)
        ultimately have "rn_calls r3 = rn_calls r @ take (length ?F + length ?M + Suc j) (start_calls app)" using j(2) by simp
        note at_j = j(1) this
        from run' f \<open>e1 = None\<close> m \<open>e2 = None\<close> c Some x
        have "(case give_up err (take (Suc j) (app_components app)) (app\<lparr>app_state := AppStateStarting\<rparr>) r3 of (e, a, r') \<Rightarrow> (e, Some a, r')) = (res, Some app', r')"
          by simp
        moreover have "take (Suc j) (app_components app) = started_components app (length ?F + length ?M + Suc j)"
          by (simp add: started_components_def len)
        ultimately show ?thesis using gave_up [OF _ at_j(2)] at_j(1) len by auto
      next
        case None
        with run' f \<open>e1 = None\<close> m \<open>e2 = None\<close> c c3 c2 n(3) show ?thesis by (auto simp: start_calls_def)
      qed
    qed
  qed
qed

text \<open>Property C28: starting is all or nothing. A start of a new application calls the start hooks in order, factory, modules in
  dependency order, components; when all succeed the application is ready and nothing was shut down. As soon as one fails or
  panics, no further hook is started, and the components started so far (with the failing one), all modules, the factory and
  the event bus are shut down, each once and in reverse order, whatever they answer; the application has failed and the error
  is reported.\<close>

theorem start_all_or_nothing:
  assumes "fresh (app_state app)" and run: "app_Start (Some app) r = (res, Some app', r')"
  shows "(res = None \<and> app' = app\<lparr>app_state := AppStateReady\<rparr> \<and> rn_calls r' = rn_calls r @ start_calls app) \<or>
    (\<exists>e n. res = Some e \<and> app' = app\<lparr>app_state := AppStateFailed\<rparr> \<and> 0 < n \<and> n \<le> length (start_calls app) \<and>
      rn_calls r' = rn_calls r @ take n (start_calls app) @ stop_calls app (started_components app n))"
  using assms by (rule start_outcome)

lemma shutdown_calls:
  assumes "app_state app \<noteq> AppStateStopped" "app_Shutdown (Some app) r = (res, app', r')"
  shows "app' = Some (app\<lparr>app_state := AppStateStopped\<rparr>) \<and> rn_calls r' = rn_calls r @ stop_calls app (app_components app)"
proof -
  obtain e1 r1 e2 where c: "shutdown_components (rev (app_components app)) r = (e1, r1)" "shutdownComponents app r1 = (e2, r')"
    and "app' = Some (app\<lparr>app_state := AppStateStopped\<rparr>)"
    using assms by (auto simp: app_Shutdown_def shutdownRuntimeComponents_def split: prod.splits)
  with shutdown_components_calls [OF c(1)] shutdownComponents_calls [OF c(2)] show ?thesis by (simp add: stop_calls_split)
qed


section \<open>Histories\<close>

fun is_check :: "call \<Rightarrow> bool" where
  "is_check (Checks x) = True"
| "is_check c = False"

text \<open>Everything that can happen to an application: calls of its life cycle methods in any order, and changes of the world
  between them.\<close>

inductive app_reach :: "(goerr \<Rightarrow> string) \<Rightarrow> ('w, 'v) App \<Rightarrow> 'w \<Rightarrow> ('w, 'v) App \<Rightarrow> 'w run \<Rightarrow> bool"
  for errtext :: "goerr \<Rightarrow> string" and app0 :: "('w, 'v) App" and w0 :: 'w
where
  created: "app_reach errtext app0 w0 app0 \<lparr>rn_world = w0, rn_calls = []\<rparr>"
| start: "app_reach errtext app0 w0 app r \<Longrightarrow> app_Start (Some app) r = (e, Some app', r') \<Longrightarrow> app_reach errtext app0 w0 app' r'"
| shutdown: "app_reach errtext app0 w0 app r \<Longrightarrow> app_Shutdown (Some app) r = (e, Some app', r') \<Longrightarrow> app_reach errtext app0 w0 app' r'"
| health: "app_reach errtext app0 w0 app r \<Longrightarrow> app_Health errtext app r = (report, r') \<Longrightarrow> app_reach errtext app0 w0 app r'"
| world: "app_reach errtext app0 w0 app r \<Longrightarrow> app_reach errtext app0 w0 app (r\<lparr>rn_world := w\<rparr>)"

abbreviation work :: "'w run \<Rightarrow> call list" where
  "work r \<equiv> filter (\<lambda>c. \<not> is_check c) (rn_calls r)"

lemma no_checks [simp]:
  "filter (\<lambda>c. \<not> is_check c) (stop_calls app cs) = stop_calls app cs"
  "filter (\<lambda>c. \<not> is_check c) (take n (start_calls app)) = take n (start_calls app)"
  "filter (\<lambda>c. \<not> is_check c) (start_calls app) = start_calls app"
proof -
  have "\<not> is_check c" if "c \<in> set (stop_calls app cs) \<union> set (start_calls app)" for c
    using that by (auto simp: stop_calls_def component_stops_def module_stops_def factory_stops_def bus_stops_def start_calls_def
        factory_starts_def module_starts_def component_starts_def split: option.splits if_splits)
  then show "filter (\<lambda>c. \<not> is_check c) (stop_calls app cs) = stop_calls app cs"
    "filter (\<lambda>c. \<not> is_check c) (take n (start_calls app)) = take n (start_calls app)"
    "filter (\<lambda>c. \<not> is_check c) (start_calls app) = start_calls app"
    by (auto intro!: filter_True dest: in_set_takeD)
qed

lemma health_checks_spec:
  "health_checks errtext hs report r = (report', r') \<Longrightarrow> \<forall>(name, label, c, h) \<in> set hs. is_check c \<Longrightarrow>
     (\<exists>checks. hr_Checks report' = hr_Checks report @ checks \<and> map hc_Name checks = map fst hs \<and>
       hr_Ready report' = (hr_Ready report \<and> list_all hc_Healthy checks)) \<and>
     hr_State report' = hr_State report \<and> hr_Live report' = hr_Live report \<and> work r' = work r"
proof (induction hs arbitrary: report r)
  case (Cons x hs)
  obtain name label c h where x: "x = (name, label, c, h)" by (cases x)
  obtain e r1 where call: "safeLifecycleCall label c h r = (e, r1)" by fastforce
  let ?check = "\<lparr>hc_Name = name, hc_Healthy = (e = None), hc_Error = (case e of None \<Rightarrow> [] | Some err \<Rightarrow> errtext err)\<rparr>"
  let ?report = "report\<lparr>hr_Checks := hr_Checks report @ [?check], hr_Ready := (hr_Ready report \<and> e = None)\<rparr>"
  have "health_check errtext name label c h report r = (?report, r1)" using call by (simp add: health_check_def split: option.split)
  with Cons.prems x have rest: "health_checks errtext hs ?report r1 = (report', r')" "\<forall>(name, label, c, h) \<in> set hs. is_check c" by auto
  have "work r1 = work r" using safe_calls [OF call] Cons.prems(2) x by auto
  with Cons.IH [OF rest] x show ?case by force
qed simp

lemma all_checks: "\<forall>(name, label, c, h) \<in> set (checked_factory f @ checked_modules ms @ checked_components cs). is_check c"
  unfolding checked_factory_def checked_modules_def checked_components_def set_append set_some_values
  by (auto dest!: sym [of "Some _"])

definition checked :: "('w, 'v) App \<Rightarrow> string list" where
  "checked app = (if app_state app \<in> {AppStateStopped, AppStateFailed} then []
     else map fst (checked_factory (app_factory app) @ checked_modules (app_modules app) @ checked_components (app_components app)))"

lemma app_Health_spec:
  assumes "app_Health errtext app r = (report, r')"
  shows "work r' = work r" "map hc_Name (hr_Checks report) = checked app"
    "hr_Ready report \<longleftrightarrow> app_state app = AppStateReady \<and> list_all hc_Healthy (hr_Checks report)"
    "hr_Live report \<longleftrightarrow> app_state app \<notin> {AppStateStopped, AppStateFailed}"
proof -
  let ?hs = "checked_factory (app_factory app) @ checked_modules (app_modules app) @ checked_components (app_components app)"
  let ?report = "\<lparr>hr_State = AppState_String (app_state app), hr_Live = (app_state app \<noteq> AppStateStopped \<and> app_state app \<noteq> AppStateFailed),
                    hr_Ready = (app_state app = AppStateReady), hr_Checks = []\<rparr>"
  have "work r' = work r \<and> map hc_Name (hr_Checks report) = checked app \<and>
    (hr_Ready report \<longleftrightarrow> app_state app = AppStateReady \<and> list_all hc_Healthy (hr_Checks report)) \<and>
    (hr_Live report \<longleftrightarrow> app_state app \<notin> {AppStateStopped, AppStateFailed})"
  proof (cases "app_state app \<in> {AppStateStopped, AppStateFailed}")
    case True
    with assms show ?thesis by (auto simp: app_Health_def checked_def Let_def)
  next
    case False
    with assms have "health_checks errtext ?hs ?report r = (report, r')" by (auto simp: app_Health_def Let_def)
    from health_checks_spec [OF this all_checks] False show ?thesis by (auto simp: checked_def)
  qed
  then show "work r' = work r" "map hc_Name (hr_Checks report) = checked app"
    "hr_Ready report \<longleftrightarrow> app_state app = AppStateReady \<and> list_all hc_Healthy (hr_Checks report)"
    "hr_Live report \<longleftrightarrow> app_state app \<notin> {AppStateStopped, AppStateFailed}" by auto
qed

text \<open>What has been started and stopped when an application is in a state.\<close>

definition history :: "('w, 'v) App \<Rightarrow> AppState \<Rightarrow> call list \<Rightarrow> bool" where
  "history app st calls \<longleftrightarrow>
     (case st of
        AppStateNew \<Rightarrow> calls = []
      | AppStateReady \<Rightarrow> calls = start_calls app
      | AppStateFailed \<Rightarrow> (\<exists>n. 0 < n \<and> n \<le> length (start_calls app) \<and>
          calls = take n (start_calls app) @ stop_calls app (started_components app n))
      | AppStateStopped \<Rightarrow> (\<exists>before. calls = before @ stop_calls app (app_components app) \<and> (before = [] \<or> before = start_calls app \<or>
          (\<exists>n. 0 < n \<and> n \<le> length (start_calls app) \<and> before = take n (start_calls app) @ stop_calls app (started_components app n))))
      | _ \<Rightarrow> False)"

lemma started_components_state [simp]: "started_components (app\<lparr>app_state := st\<rparr>) n = started_components app n"
  by (simp add: started_components_def)

lemma history_start:
  assumes inv: "app = app0\<lparr>app_state := app_state app\<rparr>" "history app0 (app_state app) (work r)"
    and step: "app_Start (Some app) r = (e, Some app', r')"
  shows "app' = app0\<lparr>app_state := app_state app'\<rparr> \<and> history app0 (app_state app') (work r')"
proof (cases "app_state app = AppStateNew")
  case True
  have c: "start_calls app = start_calls app0" "stop_calls app cs = stop_calls app0 cs" "started_components app n = started_components app0 n" for cs n
    by (subst inv(1), simp)+
  have "work r = []" using inv(2) True by (simp add: history_def)
  moreover have "app\<lparr>app_state := st\<rparr> = app0\<lparr>app_state := st\<rparr>" for st by (subst inv(1)) simp
  ultimately show ?thesis using start_outcome [OF _ step] True c unfolding fresh_def by (fastforce simp: history_def)
next
  case False
  with step inv show ?thesis by (auto simp: app_Start_def history_def split: AppState.splits)
qed

lemma history_shutdown:
  assumes inv: "app = app0\<lparr>app_state := app_state app\<rparr>" "history app0 (app_state app) (work r)"
    and step: "app_Shutdown (Some app) r = (e, Some app', r')"
  shows "app' = app0\<lparr>app_state := app_state app'\<rparr> \<and> history app0 (app_state app') (work r')"
proof (cases "app_state app = AppStateStopped")
  case False
  have c: "stop_calls app cs = stop_calls app0 cs" "app_components app = app_components app0" for cs by (subst inv(1), simp)+
  have "app\<lparr>app_state := st\<rparr> = app0\<lparr>app_state := st\<rparr>" for st by (subst inv(1)) simp
  moreover have "work r' = work r @ stop_calls app0 (app_components app0)" using shutdown_calls [OF False step] c by simp
  moreover have "app' = app\<lparr>app_state := AppStateStopped\<rparr>" using shutdown_calls [OF False step] by simp
  ultimately show ?thesis using inv(2) False by (auto simp: history_def split: AppState.splits)
qed (use step inv in \<open>auto simp: app_Shutdown_def\<close>)


text \<open>In every history of an application its state tells what has been started and stopped. As long as it is new
  no hook has run; when it is ready every start hook has run exactly once, in order, and nothing was stopped; when it has
  failed, the start hooks up to the failing one have run and what they started was stopped; when it is stopped, everything
  was stopped in reverse order at the end, and no start hook ran after a stop. It is never seen in another state.\<close>

theorem lifecycle_history:
  assumes "app_reach errtext app0 w0 app r" and new: "app_state app0 = AppStateNew"
  shows "app = app0\<lparr>app_state := app_state app\<rparr> \<and> history app0 (app_state app) (work r)"
  using assms(1)
proof induction
  case created
  then show ?case using new by (simp add: history_def)
next
  case (start app r e app' r')
  then show ?case using history_start [of app app0 r] by blast
next
  case (shutdown app r e app' r')
  then show ?case using history_shutdown [of app app0 r] by blast
next
  case (health app r report r')
  then show ?case using app_Health_spec(1) by metis
next
  case (world app r w)
  then show ?case by simp
qed

text \<open>An application reports itself ready exactly when it is in the ready state and every health check passes. The
  checks of the factory, the modules and the components all run, also after one has failed or panicked; a stopped or failed
  application reports itself dead without running any.\<close>

theorem health_ready:
  "case app_Health errtext app r of (report, r') \<Rightarrow>
     hr_Ready report = (app_state app = AppStateReady \<and> list_all hc_Healthy (hr_Checks report)) \<and>
     hr_Live report = (app_state app \<notin> {AppStateStopped, AppStateFailed}) \<and> map hc_Name (hr_Checks report) = checked app \<and> work r' = work r"
proof (cases "app_Health errtext app r")
  case (Pair report r')
  from app_Health_spec [OF this] Pair show ?thesis by simp
qed

text \<open>A failed start has shut everything down, but it leaves the application in a state from which \<open>Shutdown\<close> does so once
  more: every module is stopped twice.\<close>

lemma failed_start_stops_twice:
  assumes "fresh (app_state app)" "app_Start (Some app) r = (Some e, Some app', r')" "app_Shutdown (Some app') r' = (res, app'', r'')"
  shows "\<exists>starts cs. rn_calls r'' = rn_calls r @ starts @ stop_calls app cs @ stop_calls app (app_components app)"
proof -
  from start_outcome [OF assms(1,2)] obtain n where app': "app' = app\<lparr>app_state := AppStateFailed\<rparr>"
    and calls: "rn_calls r' = rn_calls r @ take n (start_calls app) @ stop_calls app (started_components app n)" by auto
  have "rn_calls r'' = rn_calls r' @ stop_calls app (app_components app)"
    using shutdown_calls [of app' r'] assms(3) app' by simp
  with calls show ?thesis by auto
qed

text \<open>\<open>Start\<close> refuses a stopped application, \<open>Run\<close> does not: it starts it as if it were new.\<close>

lemma run_restarts_stopped: "app_Run (Some (app\<lparr>app_state := st\<rparr>)) body r = app_Run (Some app) body r"
  by (simp add: app_Run_def)

section \<open>Runtime components\<close>

fun normalize_components :: "string list \<Rightarrow> 'w RuntimeComponent list \<Rightarrow> 'w RuntimeComponent list result" where
  "normalize_components seen [] = Inr []"
| "normalize_components seen (c # cs) =
     (let name = trim_space (rc_Name c) in
      if name = [] then Inl (Err ''core: runtime component name is required'' [])
      else if rc_StartFunc c = None then Inl (Err ''core: runtime component %q start function is required'' [name])
      else if rc_ShutdownFunc c = None then Inl (Err ''core: runtime component %q shutdown function is required'' [name])
      else if name \<in> set seen then Inl (Err ''core: duplicate runtime component %q'' [name])
      else case normalize_components (name # seen) cs of Inl e \<Rightarrow> Inl e | Inr rest \<Rightarrow> Inr (c\<lparr>rc_Name := name\<rparr> # rest))"

definition normalizeRuntimeComponents :: "'w RuntimeComponent list \<Rightarrow> 'w RuntimeComponent list result" where
  "normalizeRuntimeComponents values =
     (case normalize_components [] values of Inl e \<Rightarrow> Inl e | Inr cs \<Rightarrow> Inr (sort_key rc_Name cs))"

fun unique_routes :: "string list \<Rightarrow> string list \<Rightarrow> string list" where
  "unique_routes seen [] = []"
| "unique_routes seen (route # routes) =
     (let route = trim_space route in
      if route = [] \<or> route \<in> set seen then unique_routes seen routes else route # unique_routes (route # seen) routes)"

definition normalizeRuntimeInventory :: "RuntimeInventory \<Rightarrow> RuntimeInventory result" where
  "normalizeRuntimeInventory value =
     (if ri_RPCServerCount value < 0 then Inl (Err ''core: runtime RPC server count cannot be negative'' [])
      else Inr (value\<lparr>ri_Routes := sort (unique_routes [] (ri_Routes value))\<rparr>))"

definition mergedRuntimeRoutes :: "string list \<Rightarrow> RuntimeInventory \<Rightarrow> string list" where
  "mergedRuntimeRoutes legacy inventory = sort (unique_routes [] (legacy @ ri_Routes inventory))"

definition wf_component :: "'w RuntimeComponent \<Rightarrow> bool" where
  "wf_component c \<longleftrightarrow> rc_Name c \<noteq> [] \<and> trim_space (rc_Name c) = rc_Name c \<and> rc_StartFunc c \<noteq> None \<and> rc_ShutdownFunc c \<noteq> None"

lemma normalize_components_spec:
  "normalize_components seen cs = Inr ds \<Longrightarrow> list_all wf_component ds \<and> distinct (map rc_Name ds) \<and> (\<forall>d \<in> set ds. rc_Name d \<notin> set seen)"
proof (induction cs arbitrary: seen ds)
  case (Cons c cs)
  let ?name = "trim_space (rc_Name c)"
  from Cons.prems obtain rest where ok: "?name \<noteq> []" "rc_StartFunc c \<noteq> None" "rc_ShutdownFunc c \<noteq> None" "?name \<notin> set seen"
    and rest: "normalize_components (?name # seen) cs = Inr rest" "ds = c\<lparr>rc_Name := ?name\<rparr> # rest"
    by (auto simp: Let_def split: if_splits sum.splits)
  from Cons.IH [OF rest(1)] ok rest(2) show ?case by (auto simp: wf_component_def)
qed simp

lemma normalizeRuntimeComponents_spec:
  assumes "normalizeRuntimeComponents cs = Inr ds"
  shows "list_all wf_component ds \<and> sorted (map rc_Name ds) \<and> distinct (map rc_Name ds)"
proof -
  obtain es where es: "normalize_components [] cs = Inr es" "ds = sort_key rc_Name es"
    using assms by (auto simp: normalizeRuntimeComponents_def split: sum.splits)
  have "distinct (map rc_Name (sort_key rc_Name es))"
    using normalize_components_spec [OF es(1)] by (simp add: distinct_map)
  then show ?thesis using normalize_components_spec [OF es(1)] es(2) by (simp add: list_all_iff)
qed

section \<open>Witnesses\<close>

text \<open>A module that starts, a component that panics on its first start; the world counts the calls.\<close>

definition ex_count :: "nat hook" where "ex_count w = (Return None, Suc w)"
definition ex_panics :: "nat hook" where "ex_panics w = (if w = 1 then Panic ''x'' else Return None, Suc w)"

definition ex_app :: "(nat, unit) App" where
  "ex_app = \<lparr>app_modules = [\<lparr>mo_instance = \<lparr>inst_name = ''m'', inst_exports = None\<rparr>,
        mo_hooks = \<lparr>hk_Start = Some ex_count, hk_Health = Some ex_count, hk_Shutdown = None, hk_Close = Some ex_count\<rparr>\<rparr>],
     app_factory = None,
     app_components = [\<lparr>rc_Name = ''c'', rc_StartFunc = Some ex_panics, rc_HealthFunc = None, rc_ShutdownFunc = Some ex_count\<rparr>],
     app_inventory = \<lparr>ri_Routes = [], ri_RPCClientConfigured = False, ri_RPCServerCount = 0\<rparr>, app_eventBus = Some ex_count, app_state = AppStateNew\<rparr>"

definition ex_begin :: "nat run" where "ex_begin = \<lparr>rn_world = 0, rn_calls = []\<rparr>"

definition ex_failed :: "goerr option \<times> (nat, unit) App option \<times> nat run" where
  "ex_failed = app_Start (Some ex_app) ex_begin"

lemma ex_failed_run:
  "\<exists>e. ex_failed = (Some e, Some (ex_app\<lparr>app_state := AppStateFailed\<rparr>), \<lparr>rn_world = 5,
     rn_calls = [Starts (AModule ''m''), Starts (AComponent ''c''), Stops (AComponent ''c''), Stops (AModule ''m''), Stops TheEventBus]\<rparr>)"
  by (simp add: ex_failed_def ex_begin_def app_Start_def ex_app_def start_factory_def safeLifecycleCall_def ex_count_def ex_panics_def
      give_up_def shutdownRuntimeComponents_def shutdownComponents_def shutdownComposedInstance_def shutdownCompositionFactory_def
      close_event_bus_def err_join_def)

theorem start_all_or_nothing_witness:
  "\<exists>e r' n. app_Start (Some ex_app) ex_begin = (Some e, Some (ex_app\<lparr>app_state := AppStateFailed\<rparr>), r') \<and>
     rn_calls r' = take n (start_calls ex_app) @ stop_calls ex_app (started_components ex_app n)"
proof -
  obtain e r' where run: "app_Start (Some ex_app) ex_begin = (Some e, Some (ex_app\<lparr>app_state := AppStateFailed\<rparr>), r')"
    using ex_failed_run by (auto simp: ex_failed_def)
  moreover have "fresh (app_state ex_app)" by (simp add: fresh_def ex_app_def)
  ultimately show ?thesis using start_all_or_nothing [of ex_app ex_begin] by (auto simp: ex_begin_def)
qed

theorem lifecycle_history_witness:
  "\<exists>app r. app_reach (\<lambda>e. []) ex_app 0 app r \<and> app_state app = AppStateStopped \<and> history ex_app AppStateStopped (work r)"
proof -
  obtain e r where failed: "app_Start (Some ex_app) ex_begin = (Some e, Some (ex_app\<lparr>app_state := AppStateFailed\<rparr>), r)"
    using ex_failed_run by (auto simp: ex_failed_def)
  have "app_reach (\<lambda>e. []) ex_app 0 (ex_app\<lparr>app_state := AppStateFailed\<rparr>) r"
    using app_reach.start [OF app_reach.created] failed by (metis ex_begin_def)
  moreover obtain e' app' r' where s: "app_Shutdown (Some (ex_app\<lparr>app_state := AppStateFailed\<rparr>)) r = (e', app', r')"
    by (metis prod_cases3)
  with shutdown_calls [OF _ s] have "app' = Some (ex_app\<lparr>app_state := AppStateStopped\<rparr>)" by simp
  ultimately have reach: "app_reach (\<lambda>e. []) ex_app 0 (ex_app\<lparr>app_state := AppStateStopped\<rparr>) r'"
    using app_reach.shutdown s by metis
  have "app_state ex_app = AppStateNew" by (simp add: ex_app_def)
  from lifecycle_history [OF reach this] reach show ?thesis by (intro exI conjI) auto
qed

end
