(* ===== verification/ContextFactory.thy ===== *)
theory ContextFactory
  imports ModuleCatalog
begin

text \<open>
  The static context factory of \<open>framework/core/modulecatalog/descriptor.go\<close>: it is prepared once with
  the aggregate requirements of a sealed plan and then hands each module a build context that holds only
  what the descriptor of that module declares. The platform capabilities are code outside the package:
  a configuration provider decodes a key of a
  module into a target \<open>'t\<close> (and may panic), a database or RPC provider maps
  a name to a handle, nil (\<^const>\<open>None\<close>) or an error. A call on a nil interface panics.
\<close>

section \<open>Data\<close>

type_synonym 't decoder = "string \<Rightarrow> string \<Rightarrow> 't \<Rightarrow> (unit, goerr option) outcome"
type_synonym 'h provider = "string \<Rightarrow> 'h option result"

record ('t, 'l, 'd, 'e, 'r) Capabilities =
  Config :: "'t decoder option"
  Logger :: "'l option"
  Databases :: "'d provider option"
  EventBus :: "'e option"
  RPC :: "'r provider option"

record ('t, 'l, 'd, 'e, 'r) StaticContextFactory =
  f_capabilities :: "('t, 'l, 'd, 'e, 'r) Capabilities"
  f_prepared :: bool
  f_requirements :: RequirementSet

record ('b, 't, 'l, 'd, 'e, 'r) staticBuildContext =
  bc_descriptor :: "'b Descriptor"
  bc_capabilities :: "('t, 'l, 'd, 'e, 'r) Capabilities"

definition no_requirements :: RequirementSet where
  "no_requirements = \<lparr>rs_modules = [], rs_configs = [], rs_logger = False, rs_databases = [], rs_eventbus = False, rs_rpc = []\<rparr>"

definition NewStaticContextFactory ::
  "('t, 'l, 'd, 'e, 'r) Capabilities \<Rightarrow> ('t, 'l, 'd, 'e, 'r) StaticContextFactory" where
  "NewStaticContextFactory capabilities =
     \<lparr>f_capabilities = capabilities, f_prepared = False, f_requirements = no_requirements\<rparr>"

section \<open>Helpers\<close>

fun containsName :: "string list \<Rightarrow> string \<Rightarrow> bool" where
  "containsName [] name = False"
| "containsName (v # vs) name = (v = name \<or> containsName vs name)"

definition cloneRequirementSet :: "RequirementSet \<Rightarrow> RequirementSet" where
  "cloneRequirementSet r =
     r\<lparr>rs_modules := [] @ rs_modules r, rs_configs := [] @ rs_configs r,
       rs_databases := [] @ rs_databases r, rs_rpc := [] @ rs_rpc r\<rparr>"

definition equalRequirementSets :: "RequirementSet \<Rightarrow> RequirementSet \<Rightarrow> bool" where
  "equalRequirementSets left right =
     (if rs_logger left \<noteq> rs_logger right \<or> rs_eventbus left \<noteq> rs_eventbus right
       \<or> length (rs_modules left) \<noteq> length (rs_modules right) \<or> length (rs_configs left) \<noteq> length (rs_configs right)
       \<or> length (rs_databases left) \<noteq> length (rs_databases right) \<or> length (rs_rpc left) \<noteq> length (rs_rpc right)
      then False
      else list_all (\<lambda>i. rs_modules left ! i = rs_modules right ! i) [0..<length (rs_modules left)]
       \<and> list_all (\<lambda>i. rs_configs left ! i = rs_configs right ! i) [0..<length (rs_configs left)]
       \<and> list_all (\<lambda>i. rs_databases left ! i = rs_databases right ! i) [0..<length (rs_databases left)]
       \<and> list_all (\<lambda>i. rs_rpc left ! i = rs_rpc right ! i) [0..<length (rs_rpc left)])"

definition lookup_handle :: "string \<Rightarrow> (string \<times> 'h option) list \<Rightarrow> 'h provider" where
  "lookup_handle missing handles name =
     (case map_of handles (trim_space name) of
        None \<Rightarrow> Inl (Err missing [name])
      | Some h \<Rightarrow> Inr h)"

definition databaseMap_GORM :: "(string \<times> 'd option) list \<Rightarrow> 'd provider" where
  "databaseMap_GORM = lookup_handle ''modulecatalog: database %q was not prepared''"

definition rpcMap_Connection :: "(string \<times> 'r option) list \<Rightarrow> 'r provider" where
  "rpcMap_Connection = lookup_handle ''modulecatalog: RPC target %q was not prepared''"

text \<open>\<open>Decode\<close> of \<open>restrictedConfigProvider\<close>; decoding through a nil delegate panics.\<close>

definition restricted_Decode :: "'t decoder option \<Rightarrow> string \<Rightarrow> string \<Rightarrow> 't decoder" where
  "restricted_Decode delegate m k moduleName key target =
     (if trim_space moduleName \<noteq> m \<or> trim_space key \<noteq> k
      then Return (Some (Err ''modulecatalog: module %q may only decode configuration key %q'' [m, k]))
      else case delegate of
        None \<Rightarrow> Panic ()
      | Some f \<Rightarrow> f m k target)"

section \<open>Prepare\<close>

text \<open>The two resolution loops differ in their messages only.\<close>

fun prepare_handles :: "string \<Rightarrow> string \<Rightarrow> 'h provider \<Rightarrow> string list \<Rightarrow> (string \<times> 'h option) list \<Rightarrow> (string \<times> 'h option) list result" where
  "prepare_handles failed missing get [] resolved = Inr resolved"
| "prepare_handles failed missing get (n # ns) resolved =
     (case get n of
        Inl e \<Rightarrow> Inl (Wrap failed [n] e)
      | Inr None \<Rightarrow> Inl (Err missing [n])
      | Inr (Some h) \<Rightarrow> prepare_handles failed missing get ns (AList.update n (Some h) resolved))"

definition prepare_databases :: "'d provider \<Rightarrow> DatabaseRequirement list \<Rightarrow> (string \<times> 'd option) list result" where
  "prepare_databases GORM rs =
     prepare_handles ''modulecatalog: prepare database %q: %w'' ''modulecatalog: database provider returned nil for %q''
       GORM (map db_name rs) []"

definition prepare_rpc :: "'r provider \<Rightarrow> RPCRequirement list \<Rightarrow> (string \<times> 'r option) list result" where
  "prepare_rpc Connection rs =
     prepare_handles ''modulecatalog: prepare RPC target %q: %w'' ''modulecatalog: RPC provider returned nil for %q''
       Connection (map rpc_name rs) []"

definition missing_capability :: "('t, 'l, 'd, 'e, 'r) Capabilities \<Rightarrow> RequirementSet \<Rightarrow> goerr option" where
  "missing_capability caps r =
     (if rs_configs r \<noteq> [] \<and> Config caps = None then Some (Err ''modulecatalog: configuration provider is required'' [])
      else if rs_logger r \<and> Logger caps = None then Some (Err ''modulecatalog: logger is required'' [])
      else if rs_databases r \<noteq> [] \<and> Databases caps = None then Some (Err ''modulecatalog: database provider is required'' [])
      else if rs_eventbus r \<and> EventBus caps = None then Some (Err ''modulecatalog: event bus is required'' [])
      else if rs_rpc r \<noteq> [] \<and> RPC caps = None then Some (Err ''modulecatalog: RPC provider is required'' [])
      else None)"

definition resolve_databases ::
  "('t, 'l, 'd, 'e, 'r) Capabilities \<Rightarrow> RequirementSet \<Rightarrow> ('t, 'l, 'd, 'e, 'r) Capabilities result" where
  "resolve_databases caps r =
     (if rs_databases r = [] then Inr caps
      else case prepare_databases (the (Databases caps)) (rs_databases r) of
        Inl e \<Rightarrow> Inl e
      | Inr resolved \<Rightarrow> Inr (caps\<lparr>Databases := Some (databaseMap_GORM resolved)\<rparr>))"

definition resolve_rpc ::
  "('t, 'l, 'd, 'e, 'r) Capabilities \<Rightarrow> RequirementSet \<Rightarrow> ('t, 'l, 'd, 'e, 'r) Capabilities result" where
  "resolve_rpc caps r =
     (if rs_rpc r = [] then Inr caps
      else case prepare_rpc (the (RPC caps)) (rs_rpc r) of
        Inl e \<Rightarrow> Inl e
      | Inr resolved \<Rightarrow> Inr (caps\<lparr>RPC := Some (rpcMap_Connection resolved)\<rparr>))"

definition Prepare ::
  "('t, 'l, 'd, 'e, 'r) StaticContextFactory option \<Rightarrow> RequirementSet
     \<Rightarrow> goerr option \<times> ('t, 'l, 'd, 'e, 'r) StaticContextFactory option" where
  "Prepare factory requirements =
     (case factory of
        None \<Rightarrow> (Some (Err ''modulecatalog: nil static context factory'' []), None)
      | Some f \<Rightarrow>
        (let r = cloneRequirementSet requirements in
         if f_prepared f then
           (if \<not> equalRequirementSets (f_requirements f) r
            then (Some (Err ''modulecatalog: static context factory already prepared for a different requirement set'' []), Some f)
            else (None, Some f))
         else case missing_capability (f_capabilities f) r of
           Some e \<Rightarrow> (Some e, Some f)
         | None \<Rightarrow>
           (case resolve_databases (f_capabilities f) r of
              Inl e \<Rightarrow> (Some e, Some f)
            | Inr caps \<Rightarrow>
              (case resolve_rpc caps r of
                 Inl e \<Rightarrow> (Some e, Some f)
               | Inr caps' \<Rightarrow>
                 (None, Some \<lparr>f_capabilities = caps', f_prepared = True, f_requirements = r\<rparr>)))))"

section \<open>ForModule\<close>

fun select_handles ::
  "'h provider option \<Rightarrow> string list \<Rightarrow> (string \<times> 'h option) list \<Rightarrow> (unit, (string \<times> 'h option) list result) outcome" where
  "select_handles get [] resolved = Return (Inr resolved)"
| "select_handles get (n # ns) resolved =
     (case get of
        None \<Rightarrow> Panic ()
      | Some g \<Rightarrow>
        (case g n of
           Inl e \<Rightarrow> Return (Inl e)
         | Inr h \<Rightarrow> select_handles get ns (AList.update n h resolved)))"

definition ForModule ::
  "('t, 'l, 'd, 'e, 'r) StaticContextFactory option \<Rightarrow> 'b Descriptor
     \<Rightarrow> (unit, ('b, 't, 'l, 'd, 'e, 'r) staticBuildContext result) outcome" where
  "ForModule factory descriptor =
     (case factory of
        None \<Rightarrow> Return (Inl (Err ''modulecatalog: nil static context factory'' []))
      | Some f \<Rightarrow>
        (case normalizeDescriptor descriptor of
           Inl e \<Rightarrow> Return (Inl e)
         | Inr d \<Rightarrow>
           if \<not> f_prepared f then Return (Inl (Err ''modulecatalog: static context factory is not prepared'' []))
           else if \<not> containsName (rs_modules (f_requirements f)) (d_name d)
           then Return (Inl (Err ''modulecatalog: module %q was not part of the prepared plan'' [d_name d]))
           else
             (let caps = f_capabilities f; q = d_reqs d;
                  cfg = if ConfigKey q \<noteq> []
                    then Some (restricted_Decode (Config caps) (d_name d) (ConfigKey q)) else None;
                  lg = if ReqLogger q then Logger caps else None;
                  bus = if ReqEventBus q then EventBus caps else None
              in case select_handles (Databases caps) (map db_name (ReqDatabases q)) [] of
                   Panic p \<Rightarrow> Panic p
                 | Return (Inl e) \<Rightarrow> Return (Inl e)
                 | Return (Inr dbs) \<Rightarrow>
                   (case select_handles (RPC caps) (map rpc_name (ReqRPC q)) [] of
                      Panic p \<Rightarrow> Panic p
                    | Return (Inl e) \<Rightarrow> Return (Inl e)
                    | Return (Inr conns) \<Rightarrow>
                      Return (Inr \<lparr>bc_descriptor = d,
                        bc_capabilities =
                          \<lparr>Config = cfg, Logger = lg,
                           Databases = (if ReqDatabases q \<noteq> [] then Some (databaseMap_GORM dbs) else None),
                           EventBus = bus,
                           RPC = (if ReqRPC q \<noteq> [] then Some (rpcMap_Connection conns) else None)\<rparr>\<rparr>)))))"

section \<open>What a prepared factory hands out\<close>

lemma containsName_iff [simp]: "containsName vs n \<longleftrightarrow> n \<in> set vs"
  by (induction vs) auto

lemma cloneRequirementSet_eq [simp]: "cloneRequirementSet r = r"
  by (simp add: cloneRequirementSet_def)

lemma list_all_upt_nth: "length xs = length ys \<Longrightarrow> list_all (\<lambda>i. xs ! i = ys ! i) [0..<length ys] \<longleftrightarrow> xs = ys"
  by (auto simp: list_all_iff intro: nth_equalityI)

lemma equalRequirementSets_iff: "equalRequirementSets l r \<longleftrightarrow> l = r"
proof
  assume eq: "equalRequirementSets l r"
  then have len: "length (rs_modules l) = length (rs_modules r)" "length (rs_configs l) = length (rs_configs r)"
    "length (rs_databases l) = length (rs_databases r)" "length (rs_rpc l) = length (rs_rpc r)"
    and flags: "rs_logger l = rs_logger r" "rs_eventbus l = rs_eventbus r"
    by (simp_all add: equalRequirementSets_def split: if_splits)
  from eq len flags have "rs_modules l = rs_modules r" "rs_configs l = rs_configs r"
    "rs_databases l = rs_databases r" "rs_rpc l = rs_rpc r"
    unfolding equalRequirementSets_def
    by (simp_all add: list_all_upt_nth [OF len(1)] list_all_upt_nth [OF len(2)] list_all_upt_nth [OF len(3)]
        list_all_upt_nth [OF len(4)])
  with flags show "l = r" by simp
qed (simp add: equalRequirementSets_def list_all_iff)

lemma prepare_handles_spec:
  "prepare_handles failed missing g ns m = Inr m' \<Longrightarrow>
     m' = fold (\<lambda>n. AList.update n (projr (g n))) ns m \<and> (\<forall>n \<in> set ns. \<exists>h. g n = Inr (Some h))"
  by (induction ns arbitrary: m) (auto split: sum.splits option.splits)

lemma select_handles_spec:
  "\<forall>n \<in> set ns. \<exists>h. g n = Inr h \<Longrightarrow>
     select_handles (Some g) ns m = Return (Inr (fold (\<lambda>n. AList.update n (projr (g n))) ns m))"
  by (induction ns arbitrary: m) auto

text \<open>
  A provider \<open>c\<close> of a build context is confined to the declared names \<open>ns\<close>: it is nil when nothing is
  declared; otherwise it answers exactly the declared names, with the handle the platform provider \<open>p\<close>
  gave for that name.
\<close>

definition confined_handles :: "string list \<Rightarrow> 'h provider option \<Rightarrow> 'h provider option \<Rightarrow> bool" where
  "confined_handles ns p c \<longleftrightarrow>
     (if ns = [] then c = None
      else \<exists>g q. c = Some g \<and> p = Some q \<and>
        (\<forall>n. if trim_space n \<in> set ns then \<exists>h. q (trim_space n) = Inr (Some h) \<and> g n = Inr (Some h) else \<exists>e. g n = Inl e))"

lemma confined_handlesI:
  assumes prep: "prepare_handles f1 f2 q all [] = Inr m" and sub: "set ns \<subseteq> set all" and trim: "\<forall>n \<in> set ns. trim_space n = n"
  shows "\<exists>m'. select_handles (Some (lookup_handle msg m)) ns [] = Return (Inr m') \<and>
    (ns \<noteq> [] \<longrightarrow> confined_handles ns (Some q) (Some (lookup_handle msg m')))"
proof -
  from prepare_handles_spec [OF prep] have m: "m = fold (\<lambda>n. AList.update n (projr (q n))) all []"
    and q: "\<forall>n \<in> set all. \<exists>h. q n = Inr (Some h)" by auto
  have get: "lookup_handle msg m n = q n" if "n \<in> set ns" for n
    using that sub trim q by (fastforce simp: lookup_handle_def m map_of_fold_update)
  let ?m' = "fold (\<lambda>n. AList.update n (projr (lookup_handle msg m n))) ns []"
  have "\<forall>n \<in> set ns. \<exists>h. lookup_handle msg m n = Inr h" using get sub q by force
  then have "select_handles (Some (lookup_handle msg m)) ns [] = Return (Inr ?m')" by (rule select_handles_spec)
  moreover have "if trim_space n \<in> set ns then \<exists>h. q (trim_space n) = Inr (Some h) \<and> lookup_handle msg ?m' n = Inr (Some h)
      else \<exists>e. lookup_handle msg ?m' n = Inl e" for n
  proof (cases "trim_space n \<in> set ns")
    case True
    with sub q obtain h where "q (trim_space n) = Inr (Some h)" by blast
    with True get [OF True] show ?thesis by (simp add: lookup_handle_def [of msg ?m'] map_of_fold_update)
  qed (simp add: lookup_handle_def [of msg ?m'] map_of_fold_update)
  then have "ns \<noteq> [] \<longrightarrow> confined_handles ns (Some q) (Some (lookup_handle msg ?m'))"
    unfolding confined_handles_def by simp
  ultimately show ?thesis by blast
qed

lemma Prepare_fresh:
  assumes "Prepare (Some (NewStaticContextFactory caps)) r = (None, Some f)"
  shows "f_prepared f \<and> f_requirements f = r \<and> missing_capability caps r = None \<and>
    Config (f_capabilities f) = Config caps \<and> Logger (f_capabilities f) = Logger caps \<and> EventBus (f_capabilities f) = EventBus caps \<and>
    (rs_databases r \<noteq> [] \<longrightarrow> (\<exists>m. prepare_databases (the (Databases caps)) (rs_databases r) = Inr m \<and>
       Databases (f_capabilities f) = Some (databaseMap_GORM m))) \<and>
    (rs_rpc r \<noteq> [] \<longrightarrow> (\<exists>m. prepare_rpc (the (RPC caps)) (rs_rpc r) = Inr m \<and>
       RPC (f_capabilities f) = Some (rpcMap_Connection m)))"
proof -
  from assms have miss: "missing_capability caps r = None"
    unfolding Prepare_def NewStaticContextFactory_def by (simp add: Let_def split: option.splits)
  with assms obtain c1 where c1: "resolve_databases caps r = Inr c1"
    unfolding Prepare_def NewStaticContextFactory_def by (simp add: Let_def split: sum.splits)
  with assms miss obtain c2 where c2: "resolve_rpc c1 r = Inr c2"
    and f: "f = \<lparr>f_capabilities = c2, f_prepared = True, f_requirements = r\<rparr>"
    unfolding Prepare_def NewStaticContextFactory_def by (simp add: Let_def split: sum.splits)
  from c1 have 1: "Config c1 = Config caps" "Logger c1 = Logger caps" "EventBus c1 = EventBus caps" "RPC c1 = RPC caps"
    "rs_databases r \<noteq> [] \<longrightarrow> (\<exists>m. prepare_databases (the (Databases caps)) (rs_databases r) = Inr m \<and>
       Databases c1 = Some (databaseMap_GORM m))"
    by (auto simp: resolve_databases_def split: if_splits sum.splits)
  from c2 have 2: "Config c2 = Config c1" "Logger c2 = Logger c1" "EventBus c2 = EventBus c1" "Databases c2 = Databases c1"
    "rs_rpc r \<noteq> [] \<longrightarrow> (\<exists>m. prepare_rpc (the (RPC c1)) (rs_rpc r) = Inr m \<and> RPC c2 = Some (rpcMap_Connection m))"
    by (auto simp: resolve_rpc_def split: if_splits sum.splits)
  show ?thesis using miss f 1 2 by simp
qed

lemma wf_descriptor_trim:
  assumes "wf_descriptor d"
  shows "\<forall>n \<in> set (map db_name (ReqDatabases (d_reqs d))). trim_space n = n"
    and "\<forall>n \<in> set (map rpc_name (ReqRPC (d_reqs d))). trim_space n = n"
  using assms by (auto simp: wf_descriptor_def list_all_iff moduleNamePattern_trim)

lemma plan_requirements_cover:
  assumes "d \<in> set (plan_descriptors plan)"
  shows "d_name d \<in> set (rs_modules (plan_requirements plan))"
    and "set (map db_name (ReqDatabases (d_reqs d))) \<subseteq> set (map db_name (rs_databases (plan_requirements plan)))"
    and "set (map rpc_name (ReqRPC (d_reqs d))) \<subseteq> set (map rpc_name (rs_rpc (plan_requirements plan)))"
    and "ReqLogger (d_reqs d) \<Longrightarrow> rs_logger (plan_requirements plan)"
    and "ReqEventBus (d_reqs d) \<Longrightarrow> rs_eventbus (plan_requirements plan)"
    and "ConfigKey (d_reqs d) \<noteq> [] \<Longrightarrow> rs_configs (plan_requirements plan) \<noteq> []"
proof -
  show "ConfigKey (d_reqs d) \<noteq> [] \<Longrightarrow> rs_configs (plan_requirements plan) \<noteq> []"
  proof -
    assume "ConfigKey (d_reqs d) \<noteq> []"
    with assms have "\<lparr>cfg_module = d_name d, cfg_key = ConfigKey (d_reqs d)\<rparr> \<in> set (rs_configs (plan_requirements plan))"
      by (auto simp: plan_requirements_def Let_def)
    then show "rs_configs (plan_requirements plan) \<noteq> []" by auto
  qed
qed (use assms in \<open>auto simp: plan_requirements_def plan_names_def Let_def list_ex_iff image_iff\<close>)

lemma select_prepared:
  assumes "rs \<noteq> [] \<longrightarrow> (\<exists>m. prepare_handles f1 f2 (the p) rs [] = Inr m \<and> p' = Some (lookup_handle msg m))"
    and "rs \<noteq> [] \<longrightarrow> p \<noteq> None" and "set ns \<subseteq> set rs" and "\<forall>n \<in> set ns. trim_space n = n"
  shows "\<exists>m'. select_handles p' ns [] = Return (Inr m') \<and>
    confined_handles ns p (if ns \<noteq> [] then Some (lookup_handle msg m') else None)"
proof (cases "ns = []")
  case False
  with assms(3) have "rs \<noteq> []" by auto
  with assms(1,2) obtain m q where "prepare_handles f1 f2 q rs [] = Inr m" "p' = Some (lookup_handle msg m)" "p = Some q" by auto
  with confined_handlesI [OF this(1) assms(3,4)] False show ?thesis by auto
qed (simp add: confined_handles_def)

text \<open>A requirement set covers a descriptor when it has everything the descriptor declares.\<close>

definition covers :: "RequirementSet \<Rightarrow> 'b Descriptor \<Rightarrow> bool" where
  "covers r d \<longleftrightarrow>
     d_name d \<in> set (rs_modules r) \<and> set (map db_name (ReqDatabases (d_reqs d))) \<subseteq> set (map db_name (rs_databases r)) \<and>
     set (map rpc_name (ReqRPC (d_reqs d))) \<subseteq> set (map rpc_name (rs_rpc r)) \<and>
     (ReqLogger (d_reqs d) \<longrightarrow> rs_logger r) \<and> (ReqEventBus (d_reqs d) \<longrightarrow> rs_eventbus r) \<and> (ConfigKey (d_reqs d) \<noteq> [] \<longrightarrow> rs_configs r \<noteq> [])"

lemma ForModule_covered:
  assumes wfd: "wf_descriptor d" and prep: "Prepare (Some (NewStaticContextFactory caps)) r = (None, Some f)" and cov: "covers r d"
  shows "\<exists>ctx. ForModule (Some f) d = Return (Inr ctx) \<and> bc_descriptor ctx = d \<and>
    Logger (bc_capabilities ctx) = (if ReqLogger (d_reqs d) then Logger caps else None) \<and>
    (ReqLogger (d_reqs d) \<longrightarrow> Logger caps \<noteq> None) \<and>
    EventBus (bc_capabilities ctx) = (if ReqEventBus (d_reqs d) then EventBus caps else None) \<and>
    (ReqEventBus (d_reqs d) \<longrightarrow> EventBus caps \<noteq> None) \<and>
    confined_handles (map db_name (ReqDatabases (d_reqs d))) (Databases caps) (Databases (bc_capabilities ctx)) \<and>
    confined_handles (map rpc_name (ReqRPC (d_reqs d))) (RPC caps) (RPC (bc_capabilities ctx)) \<and>
    (if ConfigKey (d_reqs d) = [] then Config (bc_capabilities ctx) = None
     else \<exists>dec p. Config (bc_capabilities ctx) = Some dec \<and> Config caps = Some p \<and>
       (\<forall>m k t. if trim_space m = d_name d \<and> trim_space k = ConfigKey (d_reqs d)
          then dec m k t = p (d_name d) (ConfigKey (d_reqs d)) t
          else \<exists>e. dec m k t = Return (Some e)))"
proof -
  let ?r = r and ?q = "d_reqs d"
  note P = Prepare_fresh [OF prep]
  have cover: "d_name d \<in> set (rs_modules r)" "set (map db_name (ReqDatabases (d_reqs d))) \<subseteq> set (map db_name (rs_databases r))"
    "set (map rpc_name (ReqRPC (d_reqs d))) \<subseteq> set (map rpc_name (rs_rpc r))" "ReqLogger (d_reqs d) \<Longrightarrow> rs_logger r"
    "ReqEventBus (d_reqs d) \<Longrightarrow> rs_eventbus r" "ConfigKey (d_reqs d) \<noteq> [] \<Longrightarrow> rs_configs r \<noteq> []"
    using cov by (simp_all add: covers_def)
  have have_caps: "rs_databases ?r \<noteq> [] \<longrightarrow> Databases caps \<noteq> None" "rs_rpc ?r \<noteq> [] \<longrightarrow> RPC caps \<noteq> None"
    "rs_logger ?r \<longrightarrow> Logger caps \<noteq> None" "rs_eventbus ?r \<longrightarrow> EventBus caps \<noteq> None"
    "rs_configs ?r \<noteq> [] \<longrightarrow> Config caps \<noteq> None"
    using P by (auto simp: missing_capability_def split: if_splits)
  obtain dbs where dbs: "select_handles (Databases (f_capabilities f)) (map db_name (ReqDatabases ?q)) [] = Return (Inr dbs)"
    "confined_handles (map db_name (ReqDatabases ?q)) (Databases caps)
       (if map db_name (ReqDatabases ?q) \<noteq> [] then Some (databaseMap_GORM dbs) else None)"
  proof -
    have "map db_name (rs_databases ?r) \<noteq> [] \<longrightarrow> (\<exists>m. prepare_handles ''modulecatalog: prepare database %q: %w''
        ''modulecatalog: database provider returned nil for %q'' (the (Databases caps)) (map db_name (rs_databases ?r)) [] = Inr m \<and>
        Databases (f_capabilities f) = Some (databaseMap_GORM m))"
      using P by (simp add: prepare_databases_def)
    from select_prepared [OF this [unfolded databaseMap_GORM_def] _ cover(2) wf_descriptor_trim(1) [OF wfd]] have_caps(1)
    show ?thesis using that unfolding databaseMap_GORM_def by blast
  qed
  obtain conns where conns: "select_handles (RPC (f_capabilities f)) (map rpc_name (ReqRPC ?q)) [] = Return (Inr conns)"
    "confined_handles (map rpc_name (ReqRPC ?q)) (RPC caps)
       (if map rpc_name (ReqRPC ?q) \<noteq> [] then Some (rpcMap_Connection conns) else None)"
  proof -
    have "map rpc_name (rs_rpc ?r) \<noteq> [] \<longrightarrow> (\<exists>m. prepare_handles ''modulecatalog: prepare RPC target %q: %w''
        ''modulecatalog: RPC provider returned nil for %q'' (the (RPC caps)) (map rpc_name (rs_rpc ?r)) [] = Inr m \<and>
        RPC (f_capabilities f) = Some (rpcMap_Connection m))"
      using P by (simp add: prepare_rpc_def)
    from select_prepared [OF this [unfolded rpcMap_Connection_def] _ cover(3) wf_descriptor_trim(2) [OF wfd]] have_caps(2)
    show ?thesis using that unfolding rpcMap_Connection_def by blast
  qed
  let ?ctx = "\<lparr>bc_descriptor = d, bc_capabilities =
      \<lparr>Config = (if ConfigKey ?q \<noteq> [] then Some (restricted_Decode (Config caps) (d_name d) (ConfigKey ?q)) else None),
       Logger = (if ReqLogger ?q then Logger caps else None),
       Databases = (if ReqDatabases ?q \<noteq> [] then Some (databaseMap_GORM dbs) else None),
       EventBus = (if ReqEventBus ?q then EventBus caps else None),
       RPC = (if ReqRPC ?q \<noteq> [] then Some (rpcMap_Connection conns) else None)\<rparr>\<rparr>"
  have "ForModule (Some f) d = Return (Inr ?ctx)"
    using P cover(1) dbs(1) conns(1) normalizeDescriptor_fixed [OF wfd] by (simp add: ForModule_def Let_def)
  moreover have "if ConfigKey ?q = [] then Config (bc_capabilities ?ctx) = None
     else \<exists>dec p. Config (bc_capabilities ?ctx) = Some dec \<and> Config caps = Some p \<and>
       (\<forall>m k t. if trim_space m = d_name d \<and> trim_space k = ConfigKey ?q then dec m k t = p (d_name d) (ConfigKey ?q) t
          else \<exists>e. dec m k t = Return (Some e))"
  proof (cases "ConfigKey ?q = []")
    case False
    with cover(6) have_caps(5) obtain p where "Config caps = Some p" by auto
    with False show ?thesis by (simp add: restricted_Decode_def)
  qed simp
  ultimately show ?thesis
    using dbs(2) conns(2) cover(4,5) have_caps(3,4) by (intro exI [of _ ?ctx] conjI) simp_all
qed

text \<open>
  Property C12: after a successful \<open>Prepare\<close> with the requirements of a plan, \<open>ForModule\<close> returns a build
  context for every module of the plan, and the context is confined to what the descriptor declares: the
  logger and the event bus are present exactly when required, the database and RPC providers answer exactly
  the declared names with the handles of the platform, and the configuration provider decodes only the
  module's own key, refusing every other request without consulting the platform.
\<close>

theorem ForModule_confined:
  assumes wf: "list_all wf_descriptor (plan_descriptors plan)"
    and prep: "Prepare (Some (NewStaticContextFactory caps)) (plan_requirements plan) = (None, Some f)"
    and d: "d \<in> set (plan_descriptors plan)"
  shows "\<exists>ctx. ForModule (Some f) d = Return (Inr ctx) \<and> bc_descriptor ctx = d \<and>
    Logger (bc_capabilities ctx) = (if ReqLogger (d_reqs d) then Logger caps else None) \<and>
    (ReqLogger (d_reqs d) \<longrightarrow> Logger caps \<noteq> None) \<and>
    EventBus (bc_capabilities ctx) = (if ReqEventBus (d_reqs d) then EventBus caps else None) \<and>
    (ReqEventBus (d_reqs d) \<longrightarrow> EventBus caps \<noteq> None) \<and>
    confined_handles (map db_name (ReqDatabases (d_reqs d))) (Databases caps) (Databases (bc_capabilities ctx)) \<and>
    confined_handles (map rpc_name (ReqRPC (d_reqs d))) (RPC caps) (RPC (bc_capabilities ctx)) \<and>
    (if ConfigKey (d_reqs d) = [] then Config (bc_capabilities ctx) = None
     else \<exists>dec p. Config (bc_capabilities ctx) = Some dec \<and> Config caps = Some p \<and>
       (\<forall>m k t. if trim_space m = d_name d \<and> trim_space k = ConfigKey (d_reqs d)
          then dec m k t = p (d_name d) (ConfigKey (d_reqs d)) t
          else \<exists>e. dec m k t = Return (Some e)))"
proof -
  from wf d have "wf_descriptor d" by (simp add: list_all_iff)
  moreover have "covers (plan_requirements plan) d" using plan_requirements_cover [OF d] by (simp add: covers_def)
  ultimately show ?thesis by (rule ForModule_covered [OF _ prep])
qed

text \<open>A prepared factory accepts the same requirements again and refuses every other set, unchanged.\<close>

lemma Prepare_once:
  assumes "Prepare (Some f) r = (None, Some f')"
  shows "Prepare (Some f') r' = (if r' = r then None
    else Some (Err ''modulecatalog: static context factory already prepared for a different requirement set'' []), Some f')"
proof -
  from assms have "f_prepared f' \<and> f_requirements f' = r"
    by (auto simp: Prepare_def Let_def equalRequirementSets_iff split: if_splits option.splits sum.splits)
  then show ?thesis by (auto simp: Prepare_def equalRequirementSets_iff)
qed

definition db_module :: "unit Descriptor" where
  "db_module = \<lparr>d_name = ''m'', d_version = [], d_depends = [],
     d_reqs = \<lparr>ConfigKey = ''k'', ReqLogger = True, ReqDatabases = [\<lparr>db_name = ''main''\<rparr>], ReqEventBus = False, ReqRPC = []\<rparr>,
     d_provides = [], d_build = None\<rparr>"

definition db_plan :: "unit Plan" where
  "db_plan = \<lparr>plan_descriptors = [db_module]\<rparr>"

definition platform :: "(nat, nat, nat, nat, nat) Capabilities" where
  "platform = \<lparr>Config = Some (\<lambda>m k t. Return None), Logger = Some 3, Databases = Some (\<lambda>n. Inr (Some (length n))),
     EventBus = Some 5, RPC = None\<rparr>"

theorem ForModule_confined_witness:
  "\<exists>(f :: (nat, nat, nat, nat, nat) StaticContextFactory) ctx. ForModule (Some f) db_module = Return (Inr ctx) \<and> EventBus (bc_capabilities ctx) = None \<and>
     confined_handles [''main''] (Databases platform) (Databases (bc_capabilities ctx))"
proof -
  let ?f = "\<lparr>f_capabilities = platform\<lparr>Databases := Some (databaseMap_GORM [(''main'', Some (length ''main''))])\<rparr>, f_prepared = True,
    f_requirements = plan_requirements db_plan\<rparr>"
  have wf: "list_all wf_descriptor (plan_descriptors db_plan)" by code_simp
  have "rs_databases (plan_requirements db_plan) = [\<lparr>db_name = ''main''\<rparr>]" "rs_rpc (plan_requirements db_plan) = []"
    "\<not> rs_eventbus (plan_requirements db_plan)"
    by (simp_all add: plan_requirements_def db_plan_def db_module_def)
  then have "Prepare (Some (NewStaticContextFactory platform)) (plan_requirements db_plan) = (None, Some ?f)"
    by (simp add: Prepare_def NewStaticContextFactory_def missing_capability_def platform_def resolve_databases_def
        resolve_rpc_def prepare_databases_def)
  note t = ForModule_confined [OF wf this, of db_module]
  have "db_module \<in> set (plan_descriptors db_plan)" by (simp add: db_plan_def)
  from t [OF this] obtain ctx where ctx: "ForModule (Some ?f) db_module = Return (Inr ctx)"
    "EventBus (bc_capabilities ctx) = (if ReqEventBus (d_reqs db_module) then EventBus platform else None)"
    "confined_handles (map db_name (ReqDatabases (d_reqs db_module))) (Databases platform) (Databases (bc_capabilities ctx))"
    by blast
  have "\<not> ReqEventBus (d_reqs db_module)" "map db_name (ReqDatabases (d_reqs db_module)) = [''main'']"
    by (simp_all add: db_module_def)
  with ctx show ?thesis by (intro exI [of _ ?f] exI [of _ ctx]) simp
qed

end
