(* ===== verification/Application.thy ===== *)
theory Application
  imports Lifecycle ContextFactory
begin

text \<open>
  The construction of an application (\<open>framework/core/application_options.go\<close>): the catalog is sealed, the context factory
  prepared, the modules built in plan order and their capabilities collected. A failure releases what was built. A context
  factory is a value \<open>'f\<close> with the operations \<open>FactoryOps\<close>; \<open>static_ops\<close> are those of \<open>StaticContextFactory\<close>. A \<open>BuildFunc\<close>
  is a function of the build context \<open>'c\<close> and the world.
\<close>

section \<open>Data\<close>

type_synonym ('c, 'w, 'v) BuildFunc = "'c \<Rightarrow> 'w \<Rightarrow> (string, ('w, 'v) Module option result) outcome \<times> 'w"

record ('f, 'k, 'c, 'w, 'v) FactoryOps =
  fo_new :: "'k \<Rightarrow> 'f"
  fo_Prepare :: "RequirementSet \<Rightarrow> 'f \<Rightarrow> goerr option \<times> 'f"
  fo_ForModule :: "('c, 'w, 'v) BuildFunc Descriptor \<Rightarrow> 'f \<Rightarrow> (string, 'c result) outcome"
  fo_hooks :: "'f \<Rightarrow> 'w Hooks"

record ('f, 'k, 'c, 'w, 'v) AppOptions =
  ao_Capabilities :: 'k
  ao_EventBus :: "'w hook option"
  ao_Catalog :: "('c, 'w, 'v) BuildFunc Catalog option"
  ao_ContextFactory :: "'f option"
  ao_RuntimeComponents :: "'w RuntimeComponent list"
  ao_RuntimeInventory :: RuntimeInventory

definition no_hooks :: "'w Hooks" where
  "no_hooks = \<lparr>hk_Start = None, hk_Health = None, hk_Shutdown = None, hk_Close = None\<rparr>"

text \<open>The static factory as a context factory. Its build context carries the descriptor; the build function in it, which a
  module has no use for, is left out.\<close>

definition describe :: "'b Descriptor \<Rightarrow> unit Descriptor" where
  "describe d = \<lparr>d_name = d_name d, d_version = d_version d, d_depends = d_depends d, d_reqs = d_reqs d, d_provides = d_provides d,
     d_build = map_option (\<lambda>_. ()) (d_build d)\<rparr>"

definition static_ops ::
  "(('t, 'l, 'd, 'e, 'r) StaticContextFactory option, ('t, 'l, 'd, 'e, 'r) Capabilities, (unit, 't, 'l, 'd, 'e, 'r) staticBuildContext, 'w, 'v) FactoryOps" where
  "static_ops =
     \<lparr>fo_new = \<lambda>caps. Some (NewStaticContextFactory caps),
      fo_Prepare = \<lambda>requirements f. Prepare f requirements,
      fo_ForModule = \<lambda>d f. (case ForModule f (describe d) of
        Panic _ \<Rightarrow> Panic ''runtime error: invalid memory address or nil pointer dereference'' | Return res \<Rightarrow> Return res),
      fo_hooks = \<lambda>f. no_hooks\<rparr>"

section \<open>Composition\<close>

fun shutdown_instances :: "('w, 'v) Module list \<Rightarrow> 'w run \<Rightarrow> goerr option list \<times> 'w run" where
  "shutdown_instances [] r = ([], r)"
| "shutdown_instances (m # ms) r =
     (case shutdownComposedInstance m r of
        (err, r1) \<Rightarrow> (case shutdown_instances ms r1 of (errs, r2) \<Rightarrow> (err # errs, r2)))"

definition shutdownComposedInstances :: "('w, 'v) Module list \<Rightarrow> 'w run \<Rightarrow> goerr option \<times> 'w run" where
  "shutdownComposedInstances instances r = (case shutdown_instances (rev instances) r of (errs, r1) \<Rightarrow> (err_join errs, r1))"

definition compositionBuildError :: "goerr \<Rightarrow> ('w, 'v) App \<Rightarrow> 'w run \<Rightarrow> goerr \<times> 'w run" where
  "compositionBuildError cause app r =
     (case close_event_bus ''close event bus after composition failure'' (app_eventBus app) r of
        (berr, r1) \<Rightarrow>
          (case shutdownComposedInstances (app_modules app) r1 of
             (merr, r2) \<Rightarrow>
               (case shutdownCompositionFactory (app_factory app) r2 of
                  (ferr, r3) \<Rightarrow> (Join (cause # some_values [merr, ferr, berr]), r3))))"

definition registerComposedModule :: "('w, 'v) Module \<Rightarrow> ('w, 'v) App \<Rightarrow> ('w, 'v) App" where
  "registerComposedModule m app = app\<lparr>app_modules := app_modules app @ [m]\<rparr>"

text \<open>The loop over the descriptors; the cause of a failure is returned, the caller cleans up.\<close>

fun build_modules ::
  "('f, 'k, 'c, 'w, 'v) FactoryOps \<Rightarrow> 'f option \<Rightarrow> ('c, 'w, 'v) BuildFunc Descriptor list \<Rightarrow> ('w, 'v) App \<Rightarrow> 'w run
     \<Rightarrow> (string, goerr option) outcome \<times> ('w, 'v) App \<times> 'w run" where
  "build_modules ops factory [] app r = (Return None, app, r)"
| "build_modules ops factory (d # ds) app r =
     (case d_build d of
        None \<Rightarrow> build_modules ops factory ds app r
      | Some build \<Rightarrow>
        (case factory of
           None \<Rightarrow> (Return (Some (Err ''core: module %s requires a context factory'' [d_name d])), app, r)
         | Some f \<Rightarrow>
           (case fo_ForModule ops d f of
              Panic p \<Rightarrow> (Panic p, app, r)
            | Return (Inl e) \<Rightarrow> (Return (Some (Wrap ''core: module %s context: %w'' [d_name d] e)), app, r)
            | Return (Inr c) \<Rightarrow>
              (case build c (rn_world r) of
                 (Panic p, w) \<Rightarrow> (Panic p, app, r\<lparr>rn_world := w\<rparr>)
               | (Return (Inl e), w) \<Rightarrow> (Return (Some (Wrap ''core: build module %s: %w'' [d_name d] e)), app, r\<lparr>rn_world := w\<rparr>)
               | (Return (Inr None), w) \<Rightarrow>
                   (Return (Some (Err ''core: build module %s returned nil instance'' [d_name d])), app, r\<lparr>rn_world := w\<rparr>)
               | (Return (Inr (Some m)), w) \<Rightarrow>
                 (let r1 = \<lparr>rn_world = w, rn_calls = rn_calls r @ [Builds (AModule (mo_name m)) (stoppable (mo_hooks m))]\<rparr> in
                  if trim_space (mo_name m) \<noteq> d_name d then
                    (case shutdownComposedInstance m r1 of
                       (err, r2) \<Rightarrow>
                         (Return (err_join [Some (Err ''core: built module name %q does not match descriptor %q'' [mo_name m, d_name d]), err]), app, r2))
                  else build_modules ops factory ds (registerComposedModule m app) r1)))))"

definition choose_factory :: "('f, 'k, 'c, 'w, 'v) FactoryOps \<Rightarrow> ('f, 'k, 'c, 'w, 'v) AppOptions \<Rightarrow> ('c, 'w, 'v) BuildFunc Plan \<Rightarrow> 'f option" where
  "choose_factory ops options plan =
     (case ao_ContextFactory options of
        Some f \<Rightarrow> Some f
      | None \<Rightarrow> if plan_descriptors plan \<noteq> [] then Some (fo_new ops (ao_Capabilities options)) else None)"

definition prepare_factory :: "('f, 'k, 'c, 'w, 'v) FactoryOps \<Rightarrow> RequirementSet \<Rightarrow> 'f option \<Rightarrow> goerr option \<times> 'f option" where
  "prepare_factory ops requirements factory =
     (case factory of
        None \<Rightarrow> (None, None)
      | Some f \<Rightarrow> (case fo_Prepare ops requirements f of (err, f') \<Rightarrow> (map_option (Wrap ''core: prepare module capabilities: %w'' []) err, Some f')))"

definition compose ::
  "('f, 'k, 'c, 'w, 'v) FactoryOps \<Rightarrow> ('f, 'k, 'c, 'w, 'v) AppOptions \<Rightarrow> ('c, 'w, 'v) BuildFunc Plan \<Rightarrow> ('w, 'v) App \<Rightarrow> 'w run
     \<Rightarrow> (string, (('w, 'v) App \<times> 'v CapabilitySet) result) outcome \<times> 'w run" where
  "compose ops options plan app0 r =
     (let factory = choose_factory ops options plan; app = app0\<lparr>app_factory := map_option (fo_hooks ops) factory\<rparr> in
      case prepare_factory ops (plan_requirements plan) factory of
        (Some cause, f) \<Rightarrow> (case compositionBuildError cause app r of (e, r') \<Rightarrow> (Return (Inl e), r'))
      | (None, f) \<Rightarrow>
        (case build_modules ops f (plan_descriptors plan) app r of
           (Panic p, app1, r1) \<Rightarrow> (Panic p, r1)
         | (Return (Some cause), app1, r1) \<Rightarrow> (case compositionBuildError cause app1 r1 of (e, r') \<Rightarrow> (Return (Inl e), r'))
         | (Return None, app1, r1) \<Rightarrow>
           (case CollectCapabilities (plan_descriptors plan) (map (Some \<circ> mo_instance) (app_modules app1)) of
              Inl e \<Rightarrow> (case compositionBuildError (Wrap ''core: collect module capability exports: %w'' [] e) app1 r1 of (e', r') \<Rightarrow> (Return (Inl e'), r'))
            | Inr caps \<Rightarrow> (Return (Inr (app1, caps)), r1))))"

definition NewAppWithCapabilities ::
  "('f, 'k, 'c, 'w, 'v) FactoryOps \<Rightarrow> ('f, 'k, 'c, 'w, 'v) AppOptions \<Rightarrow> 'w run
     \<Rightarrow> (string, (('w, 'v) App \<times> 'v CapabilitySet) result) outcome \<times> 'w run" where
  "NewAppWithCapabilities ops options r =
     (case normalizeRuntimeComponents (ao_RuntimeComponents options) of
        Inl e \<Rightarrow> (Return (Inl e), r)
      | Inr components \<Rightarrow>
        (case normalizeRuntimeInventory (ao_RuntimeInventory options) of
           Inl e \<Rightarrow> (Return (Inl e), r)
         | Inr inventory \<Rightarrow>
           (let app = \<lparr>app_modules = [], app_factory = None, app_components = components, app_inventory = inventory,
                       app_eventBus = ao_EventBus options, app_state = AppStateNew\<rparr>
            in case ao_Catalog options of
                 None \<Rightarrow> (Return (Inr (app, EmptyCapabilitySet)), r)
               | Some catalog \<Rightarrow>
                 (case fst (Seal (Some catalog)) of
                    Inl e \<Rightarrow> (Return (Inl e), r)
                  | Inr plan \<Rightarrow> compose ops options plan app r))))"

definition NewApp ::
  "('f, 'k, 'c, 'w, 'v) FactoryOps \<Rightarrow> ('f, 'k, 'c, 'w, 'v) AppOptions \<Rightarrow> 'w run \<Rightarrow> (string, ('w, 'v) App result) outcome \<times> 'w run" where
  "NewApp ops options r =
     (case NewAppWithCapabilities ops options r of
        (Panic p, r') \<Rightarrow> (Panic p, r')
      | (Return (Inl e), r') \<Rightarrow> (Return (Inl e), r')
      | (Return (Inr (app, caps)), r') \<Rightarrow> (Return (Inr app), r'))"

section \<open>What construction leaves behind\<close>

definition build_calls :: "('w, 'v) Module list \<Rightarrow> call list" where
  "build_calls ms = map (\<lambda>m. Builds (AModule (mo_name m)) (stoppable (mo_hooks m))) ms"

lemma shutdown_instances_calls: "shutdown_instances ms r = (es, r') \<Longrightarrow> rn_calls r' = rn_calls r @ module_stops ms"
proof (induction ms arbitrary: r es)
  case (Cons m ms)
  then show ?case
    by (auto split: prod.splits dest!: shutdown_instance_calls) (auto simp: module_stops_def)
qed (simp add: module_stops_def)

definition release_calls :: "('w, 'v) App \<Rightarrow> call list" where
  "release_calls app = bus_stops (app_eventBus app) @ module_stops (rev (app_modules app)) @ factory_stops (app_factory app)"

lemma compositionBuildError_calls:
  assumes "compositionBuildError cause app r = (e, r')"
  shows "rn_calls r' = rn_calls r @ release_calls app"
proof -
  obtain b r1 es r2 f where "close_event_bus ''close event bus after composition failure'' (app_eventBus app) r = (b, r1)"
    "shutdown_instances (rev (app_modules app)) r1 = (es, r2)" "shutdownCompositionFactory (app_factory app) r2 = (f, r')"
    using assms by (auto simp: compositionBuildError_def shutdownComposedInstances_def split: prod.splits)
  from close_bus_calls [OF this(1)] shutdown_instances_calls [OF this(2)] shutdown_factory_calls [OF this(3)] show ?thesis
    by (simp add: release_calls_def)
qed

text \<open>The module a failed build leaves over, if its name was wrong: it is stopped at once.\<close>

lemma build_modules_spec:
  fixes ops :: "('f, 'k, 'c, 'w, 'v) FactoryOps"
  shows "build_modules ops factory ds app r = (out, app', r') \<Longrightarrow>
     \<exists>built (odd :: ('w, 'v) Module list). app' = app\<lparr>app_modules := app_modules app @ built\<rparr> \<and> length odd \<le> 1 \<and>
       rn_calls r' = rn_calls r @ build_calls (built @ odd) @ module_stops odd \<and>
       (out = Return None \<longrightarrow> odd = [] \<and> map (\<lambda>m. trim_space (mo_name m)) built = map d_name (filter (\<lambda>d. d_build d \<noteq> None) ds))"
proof (induction ds arbitrary: app r)
  case Nil
  then show ?case by (intro exI [of _ "[]"]) (auto simp: build_calls_def module_stops_def)
next
  case (Cons d ds)
  have stop: ?case if "app' = app" "rn_calls r' = rn_calls r" "out \<noteq> Return None"
    using that by (intro exI [of _ "[]"]) (auto simp: build_calls_def module_stops_def)
  show ?case
  proof (cases "d_build d")
    case None
    with Cons show ?thesis by simp
  next
    case (Some build)
    show ?thesis
    proof (cases "\<exists>f c m w. factory = Some f \<and> fo_ForModule ops d f = Return (Inr c) \<and> build c (rn_world r) = (Return (Inr (Some m)), w)")
      case False
      with Cons.prems Some have "app' = app" "rn_calls r' = rn_calls r" "out \<noteq> Return None"
        by (auto split: option.splits outcome.splits sum.splits prod.splits)
      then show ?thesis by (rule stop)
    next
      case True
      then obtain f c m w where ok: "factory = Some f" "fo_ForModule ops d f = Return (Inr c)" "build c (rn_world r) = (Return (Inr (Some m)), w)" by blast
      define r1 where "r1 = \<lparr>rn_world = w, rn_calls = rn_calls r @ [Builds (AModule (mo_name m)) (stoppable (mo_hooks m))]\<rparr>"
      show ?thesis
      proof (cases "trim_space (mo_name m) = d_name d")
        case True
        with Cons.prems Some ok have "build_modules ops factory ds (registerComposedModule m app) r1 = (out, app', r')"
          by (simp add: r1_def)
        from Cons.IH [OF this] obtain built odd where
          b: "app' = app\<lparr>app_modules := app_modules app @ m # built\<rparr>" "length odd \<le> 1"
            "rn_calls r' = rn_calls r1 @ build_calls (built @ odd) @ module_stops odd"
            "out = Return None \<longrightarrow> odd = [] \<and> map (\<lambda>m. trim_space (mo_name m)) built = map d_name (filter (\<lambda>d. d_build d \<noteq> None) ds)"
          by (auto simp: registerComposedModule_def)
        then show ?thesis using True Some by (intro exI [of _ "m # built"] exI [of _ odd]) (auto simp: build_calls_def r1_def)
      next
        case False
        obtain e r2 where s: "shutdownComposedInstance m r1 = (e, r2)" by fastforce
        from Cons.prems Some ok False s have "app' = app" "r' = r2" "out \<noteq> Return None"
          by (auto simp: r1_def [symmetric] err_join_None_iff)
        then show ?thesis using shutdown_instance_calls [OF s]
          by (intro exI [of _ "[]"] exI [of _ "[m]"]) (auto simp: build_calls_def r1_def)
      qed
    qed
  qed
qed


lemma compose_failed:
  fixes ops :: "('f, 'k, 'c, 'w, 'v) FactoryOps"
  assumes "compose ops options plan app r = (Return (Inl e), r')" "app_modules app = []"
  shows "\<exists>built (odd :: ('w, 'v) Module list). length odd \<le> 1 \<and> rn_calls r' = rn_calls r @ build_calls (built @ odd) @ module_stops odd @
    release_calls (app\<lparr>app_modules := built, app_factory := map_option (fo_hooks ops) (choose_factory ops options plan)\<rparr>)"
proof -
  let ?app = "app\<lparr>app_factory := map_option (fo_hooks ops) (choose_factory ops options plan)\<rparr>"
  obtain p f where prep: "prepare_factory ops (plan_requirements plan) (choose_factory ops options plan) = (p, f)" by fastforce
  show ?thesis
  proof (cases p)
    case (Some cause)
    with assms prep have "\<exists>e. compositionBuildError cause ?app r = (e, r')" by (auto simp: compose_def Let_def split: prod.splits)
    then show ?thesis using assms(2) compositionBuildError_calls [of cause ?app r]
      by (intro exI [of _ "[]"]) (auto simp: build_calls_def module_stops_def release_calls_def)
  next
    case None
    obtain out app1 r1 where b: "build_modules ops f (plan_descriptors plan) ?app r = (out, app1, r1)" by (metis prod_cases3)
    from build_modules_spec [OF b] assms(2) obtain built odd where
      s: "app1 = ?app\<lparr>app_modules := built\<rparr>" "length odd \<le> 1" "rn_calls r1 = rn_calls r @ build_calls (built @ odd) @ module_stops odd" by auto
    from assms(1) prep None b obtain cause e' where "compositionBuildError cause app1 r1 = (e', r')"
      by (auto simp: compose_def Let_def split: prod.splits outcome.splits option.splits sum.splits)
    from compositionBuildError_calls [OF this] s show ?thesis by (intro exI conjI [OF s(2)]) (simp add: release_calls_def)
  qed
qed

lemma count_release [simp]:
  "count_list (bus_stops b) (Stops (AModule n)) = 0" "count_list (bus_stops b) (Builds x f) = 0"
  "count_list (factory_stops h) (Stops (AModule n)) = 0" "count_list (factory_stops h) (Builds x f) = 0"
  "count_list (module_stops ms) (Builds x f) = 0" "count_list (build_calls ms) (Stops x) = 0"
  by (simp_all add: bus_stops_def factory_stops_def module_stops_def build_calls_def split: option.split) (induction ms; simp)+

lemma count_built: "count_list (module_stops ms) (Stops (AModule n)) = count_list (build_calls ms) (Builds (AModule n) True)"
  by (induction ms) (auto simp: module_stops_def build_calls_def)

lemma build_calls_rev [simp]: "count_list (build_calls (rev ms)) x = count_list (build_calls ms) x"
  by (simp add: build_calls_def rev_map [symmetric])

lemma build_calls_append: "build_calls (xs @ ys) = build_calls xs @ build_calls ys"
  by (simp add: build_calls_def)

text \<open>Property C27: a construction that returns an error leaks nothing. In the calls it made, every module that a build function returned and
  that has a method to release it is stopped exactly as often as it was built. In detail: when \<open>NewApp\<close> fails before the plan of the
  catalog is known, no module was built and nothing was stopped. When it fails later, because the factory cannot be prepared, a build context
  cannot be made, a build fails or returns nil or a module of another name, or an export is wrong, the modules built so far are
  stopped, the last first, and so are the module with the wrong name, the event bus and the factory.\<close>

theorem construction_failure_releases:
  fixes ops :: "('f, 'k, 'c, 'w, 'v) FactoryOps"
  assumes "NewAppWithCapabilities ops options r = (Return (Inl e), r')"
  shows "\<exists>log. rn_calls r' = rn_calls r @ log \<and>
    (\<forall>n. count_list log (Stops (AModule n)) = count_list log (Builds (AModule n) True)) \<and>
    (log = [] \<and>
      (\<forall>c plan. ao_Catalog options = Some c \<longrightarrow> fst (Seal (Some c)) = Inr plan \<longrightarrow>
        isl (normalizeRuntimeComponents (ao_RuntimeComponents options)) \<or> isl (normalizeRuntimeInventory (ao_RuntimeInventory options))) \<or>
    (\<exists>c plan (built :: ('w, 'v) Module list) (odd :: ('w, 'v) Module list). ao_Catalog options = Some c \<and> fst (Seal (Some c)) = Inr plan \<and> length odd \<le> 1 \<and>
      log = build_calls (built @ odd) @ module_stops odd @ bus_stops (ao_EventBus options) @ module_stops (rev built) @
        factory_stops (map_option (fo_hooks ops) (choose_factory ops options plan))))"
proof (cases "\<exists>c plan. ao_Catalog options = Some c \<and> fst (Seal (Some c)) = Inr plan \<and>
    \<not> isl (normalizeRuntimeComponents (ao_RuntimeComponents options)) \<and> \<not> isl (normalizeRuntimeInventory (ao_RuntimeInventory options))")
  case False
  with assms have "r' = r"
    by (auto simp: NewAppWithCapabilities_def Let_def split: sum.splits option.splits)
  with False show ?thesis by (intro exI [of _ "[]"]) auto
next
  case True
  then obtain c plan where c: "ao_Catalog options = Some c" "fst (Seal (Some c)) = Inr plan"
    and ok: "\<not> isl (normalizeRuntimeComponents (ao_RuntimeComponents options))" "\<not> isl (normalizeRuntimeInventory (ao_RuntimeInventory options))" by blast
  from assms c ok obtain app where app: "compose ops options plan app r = (Return (Inl e), r')" "app_modules app = []" "app_eventBus app = ao_EventBus options"
    by (auto simp: NewAppWithCapabilities_def Let_def split: sum.splits)
  from compose_failed [OF app(1,2)] obtain built odd where b: "length odd \<le> 1"
    "rn_calls r' = rn_calls r @ build_calls (built @ odd) @ module_stops odd @
      release_calls (app\<lparr>app_modules := built, app_factory := map_option (fo_hooks ops) (choose_factory ops options plan)\<rparr>)"
    by blast
  define log where "log = build_calls (built @ odd) @ module_stops odd @ bus_stops (ao_EventBus options) @ module_stops (rev built) @
      factory_stops (map_option (fo_hooks ops) (choose_factory ops options plan))"
  have "rn_calls r' = rn_calls r @ log" using b(2) app(3) by (simp add: log_def release_calls_def)
  moreover have "count_list log (Stops (AModule n)) = count_list log (Builds (AModule n) True)" for n
    by (simp add: log_def build_calls_append count_built)
  ultimately show ?thesis using b(1) c log_def by blast
qed

lemma filter_split: "filter P xs = us' @ y # vs' \<Longrightarrow> \<exists>us vs. xs = us @ y # vs \<and> us' = filter P us"
proof (induction xs arbitrary: us')
  case (Cons x xs)
  show ?case
  proof (cases "P x")
    case False
    with Cons show ?thesis by (metis (no_types, lifting) append_Cons filter.simps(2))
  next
    case True
    show ?thesis
    proof (cases us')
      case Nil
      with Cons.prems True have "x # xs = [] @ y # xs" "us' = filter P []" by auto
      then show ?thesis by blast
    next
      case (Cons u us'')
      with Cons.prems True have "x = u" "filter P xs = us'' @ y # vs'" by auto
      with Cons.IH obtain us vs where "xs = us @ y # vs" "us'' = filter P us" by blast
      with True Cons \<open>x = u\<close> show ?thesis by (intro exI [of _ "x # us"] exI [of _ vs]) simp
    qed
  qed
qed simp


text \<open>A successful construction follows the plan. The modules of the application are exactly those of the plan that
  have a build function, in plan order and under their names, so every module comes after each module it depends on
  that is built at all; nothing was stopped; the capabilities are those collected from these modules; and the runtime components
  are complete and sorted by distinct names.\<close>

theorem construction_follows_plan:
  assumes reach: "catalog_reachable c" and c: "ao_Catalog options = Some c"
    and ok: "NewAppWithCapabilities ops options r = (Return (Inr (app, caps)), r')"
  shows "\<exists>plan built. fst (Seal (Some c)) = Inr plan \<and> built = filter (\<lambda>d. d_build d \<noteq> None) (plan_descriptors plan) \<and>
    app_state app = AppStateNew \<and> map (\<lambda>m. trim_space (mo_name m)) (app_modules app) = map d_name built \<and>
    (\<forall>us d vs. built = us @ d # vs \<longrightarrow> (\<forall>dep \<in> set (d_depends d). dep \<in> d_name ` set us \<or>
       (\<exists>u \<in> set (plan_descriptors plan). d_name u = dep \<and> d_build u = None))) \<and>
    rn_calls r' = rn_calls r @ build_calls (app_modules app) \<and>
    CollectCapabilities (plan_descriptors plan) (map (Some \<circ> mo_instance) (app_modules app)) = Inr caps \<and>
    list_all wf_component (app_components app) \<and> sorted (map rc_Name (app_components app)) \<and> distinct (map rc_Name (app_components app))"
proof -
  from ok c obtain comps inv plan where comps: "normalizeRuntimeComponents (ao_RuntimeComponents options) = Inr comps"
    and plan: "fst (Seal (Some c)) = Inr plan"
    and run: "compose ops options plan \<lparr>app_modules = [], app_factory = None, app_components = comps, app_inventory = inv,
      app_eventBus = ao_EventBus options, app_state = AppStateNew\<rparr> r = (Return (Inr (app, caps)), r')"
    by (auto simp: NewAppWithCapabilities_def Let_def split: sum.splits)
  from run obtain f app0 where b: "build_modules ops f (plan_descriptors plan) app0 r = (Return None, app, r')" "app_modules app0 = []"
    and app0: "app_components app0 = comps" "app_state app0 = AppStateNew"
    and caps: "CollectCapabilities (plan_descriptors plan) (map (Some \<circ> mo_instance) (app_modules app)) = Inr caps"
    by (auto simp: compose_def Let_def split: prod.splits outcome.splits option.splits sum.splits)
  from build_modules_spec [OF b(1)] b(2) have app: "app = app0\<lparr>app_modules := app_modules app\<rparr>" "rn_calls r' = rn_calls r @ build_calls (app_modules app)"
    "map (\<lambda>m. trim_space (mo_name m)) (app_modules app) = map d_name (filter (\<lambda>d. d_build d \<noteq> None) (plan_descriptors plan))"
    by (auto simp: module_stops_def)
  have st: "app_state app = AppStateNew" "app_components app = comps" using app0 by (subst app(1), simp)+
  have order: "dep \<in> d_name ` set us \<or> (\<exists>u \<in> set (plan_descriptors plan). d_name u = dep \<and> d_build u = None)"
    if split: "filter (\<lambda>d. d_build d \<noteq> None) (plan_descriptors plan) = us @ d # vs" and dep: "dep \<in> set (d_depends d)" for us d vs dep
  proof -
    from filter_split [OF split] obtain xs ys where xs: "plan_descriptors plan = xs @ d # ys" "us = filter (\<lambda>d. d_build d \<noteq> None) xs" by blast
    from Seal_order [OF reach plan xs(1) dep] obtain u where "u \<in> set xs" "d_name u = dep" by auto
    with xs show ?thesis by (cases "d_build u") auto
  qed
  from normalizeRuntimeComponents_spec [OF comps] plan st app order caps show ?thesis by blast
qed

section \<open>Two constructions\<close>

definition ex_ops :: "(unit, unit, unit, nat, unit) FactoryOps" where
  "ex_ops = \<lparr>fo_new = \<lambda>_. (), fo_Prepare = \<lambda>_ f. (None, f), fo_ForModule = \<lambda>_ _. Return (Inr ()), fo_hooks = \<lambda>_. no_hooks\<rparr>"

definition ex_module :: "(nat, unit) Module" where
  "ex_module = \<lparr>mo_instance = \<lparr>inst_name = ''a'', inst_exports = None\<rparr>, mo_hooks = no_hooks\<lparr>hk_Shutdown := Some (\<lambda>w. (Return None, w + 1))\<rparr>\<rparr>"

definition ex_descriptor :: "string \<Rightarrow> (unit, nat, unit) BuildFunc Descriptor" where
  "ex_descriptor name =
     \<lparr>d_name = name, d_version = ''1'', d_depends = [], d_reqs = no_reqs, d_provides = [],
      d_build = Some (\<lambda>_ w. (Return (Inr (Some ex_module)), w))\<rparr>"

definition ex_options :: "string \<Rightarrow> (unit, unit, unit, nat, unit) AppOptions" where
  "ex_options name =
     \<lparr>ao_Capabilities = (), ao_EventBus = None, ao_Catalog = snd (Register (Some New) (ex_descriptor name)), ao_ContextFactory = None,
      ao_RuntimeComponents = [], ao_RuntimeInventory = \<lparr>ri_Routes = [], ri_RPCClientConfigured = False, ri_RPCServerCount = 0\<rparr>\<rparr>"

lemma ex_constructs:
  "case NewAppWithCapabilities ex_ops (ex_options ''a'') ex_begin of
     (Return (Inr (app, caps)), r') \<Rightarrow> rn_calls r' = [Builds (AModule ''a'') True] | _ \<Rightarrow> False"
  by code_simp

lemma ex_fails:
  "case NewAppWithCapabilities ex_ops (ex_options ''b'') ex_begin of
     (Return (Inl e), r') \<Rightarrow> rn_calls r' = [Builds (AModule ''a'') True, Stops (AModule ''a'')] | _ \<Rightarrow> False"
  by code_simp

lemma ex_registered: "\<exists>c. ao_Catalog (ex_options name) = Some c \<and> catalog_reachable c"
proof -
  obtain err c where c: "Register (Some New) (ex_descriptor name) = (err, Some c)" 
    by (cases "normalizeDescriptor (ex_descriptor name)") (auto simp: Register_def New_def)
  then have "catalog_reachable c" using catalog_step.register catalog_reachable.intros by metis
  with c show ?thesis by (simp add: ex_options_def)
qed

theorem construction_failure_releases_witness:
  "\<exists>e r'. NewAppWithCapabilities ex_ops (ex_options ''b'') ex_begin = (Return (Inl e), r') \<and>
     count_list (rn_calls r') (Stops (AModule ''a'')) = count_list (rn_calls r') (Builds (AModule ''a'') True) \<and>
     rn_calls r' = [Builds (AModule ''a'') True, Stops (AModule ''a'')]"
proof -
  obtain e r' where run: "NewAppWithCapabilities ex_ops (ex_options ''b'') ex_begin = (Return (Inl e), r')"
    "rn_calls r' = [Builds (AModule ''a'') True, Stops (AModule ''a'')]"
    using ex_fails by (auto split: prod.splits outcome.splits sum.splits)
  from construction_failure_releases [OF run(1)] have
    "count_list (rn_calls r') (Stops (AModule ''a'')) = count_list (rn_calls r') (Builds (AModule ''a'') True)" by (auto simp: ex_begin_def)
  with run show ?thesis by blast
qed

theorem construction_follows_plan_witness:
  "\<exists>app caps r'. NewAppWithCapabilities ex_ops (ex_options ''a'') ex_begin = (Return (Inr (app, caps)), r') \<and>
     app_state app = AppStateNew \<and> rn_calls r' = build_calls (app_modules app) \<and> rn_calls r' = [Builds (AModule ''a'') True]"
proof -
  obtain app caps r' where run: "NewAppWithCapabilities ex_ops (ex_options ''a'') ex_begin = (Return (Inr (app, caps)), r')"
    "rn_calls r' = [Builds (AModule ''a'') True]"
    using ex_constructs by (auto split: prod.splits outcome.splits sum.splits)
  obtain c where c: "ao_Catalog (ex_options ''a'') = Some c" "catalog_reachable c" using ex_registered by blast
  from construction_follows_plan [OF c(2,1) run(1)] run show ?thesis by (auto simp: ex_begin_def)
qed

end
