(* ===== verification/Platform.thy ===== *)
theory Platform
  imports Lifecycle ContextFactory
begin

text \<open>
  The platform provider (\<open>framework/platform/provider.go\<close>, \<open>registry.go\<close>, \<open>logger.go\<close>): the context factory that owns the
  database and RPC resources of an application. It opens every required resource once, hands module-scoped views of them out
  through a static context factory, and starts, checks and closes them. The factories and the hooks of the resources are
  code of the host: functions of the world \<open>'w\<close>, which may panic; the provider recovers the panics of the hooks, not those of the factories. \<open>Prepare\<close> holds the lock of the provider throughout;
  \<open>Start\<close> and \<open>Shutdown\<close> take it only to enter and to leave, so other operations can come between their calls, which the step
  relation at the end describes. The timeouts of the contexts they pass on are part of the world.
\<close>

section \<open>Data\<close>

datatype providerState = providerStateNew | providerStatePrepared | providerStateStarting | providerStateStarted
  | providerStateStopping | providerStateStopped | providerStateFailed

record ('h, 'w) Resource =
  re_handle :: "'h option"
  re_Start :: "'w hook option"
  re_Health :: "'w hook option"
  re_Shutdown :: "'w hook option"

type_synonym ('h, 'w) ResourceFactory = "string \<Rightarrow> 'w \<Rightarrow> (string, ('h, 'w) Resource result) outcome \<times> 'w"

record 'w ownedResource =
  ow_key :: string
  ow_start :: "'w hook option"
  ow_health :: "'w hook option"
  ow_shutdown :: "'w hook option"

text \<open>A logger of the host, or one that \<open>newModuleLogger\<close> put around another.\<close>

datatype 'l logger = HostLogger 'l | ModuleLogger "'l logger" string

record ('t, 'l, 'd, 'e, 'r, 'w) Options =
  op_Config :: "'t decoder option"
  op_Logger :: "'l logger option"
  op_EventBus :: "'e option"
  op_Databases :: "(string \<times> ('d, 'w) ResourceFactory option) list"
  op_RPC :: "(string \<times> ('r, 'w) ResourceFactory option) list"
  op_PrepareTimeout :: int

record ('t, 'l, 'd, 'e, 'r, 'w) Provider =
  pv_config :: "'t decoder option"
  pv_logger :: "'l logger option"
  pv_eventBus :: "'e option"
  pv_databaseSource :: "(string \<times> ('d, 'w) ResourceFactory) list"
  pv_rpcSource :: "(string \<times> ('r, 'w) ResourceFactory) list"
  pv_prepareTimeout :: int
  pv_state :: providerState
  pv_requirements :: RequirementSet
  pv_delegate :: "('t, 'l logger, 'd, 'e, 'r) StaticContextFactory option"
  pv_resources :: "'w ownedResource list"
  pv_shutdownErr :: "goerr option"

section \<open>Construction\<close>

text \<open>The loop over the map of factories, in the order in which it meets the entries. The two copies differ in their messages.\<close>

fun copy_factories ::
  "string \<Rightarrow> string \<Rightarrow> string \<Rightarrow> (string \<times> 'f option) list \<Rightarrow> (string \<times> 'f) list \<Rightarrow> (string \<times> 'f) list result" where
  "copy_factories invalid missing duplicate [] result = Inr result"
| "copy_factories invalid missing duplicate ((name, factory) # source) result =
     (let name = trim_space name in
      if \<not> moduleNamePattern name then Inl (Err invalid [name])
      else case factory of
        None \<Rightarrow> Inl (Err missing [name])
      | Some f \<Rightarrow>
        if map_of result name \<noteq> None then Inl (Err duplicate [name])
        else copy_factories invalid missing duplicate source (AList.update name f result))"

definition copyDatabaseFactories :: "(string \<times> 'f option) list \<Rightarrow> (string \<times> 'f) list result" where
  "copyDatabaseFactories source =
     copy_factories ''platform: invalid database capability name %q'' ''platform: database factory %q is nil'' ''platform: duplicate database capability %q'' source []"

definition copyRPCFactories :: "(string \<times> 'f option) list \<Rightarrow> (string \<times> 'f) list result" where
  "copyRPCFactories source =
     copy_factories ''platform: invalid RPC capability name %q'' ''platform: RPC factory %q is nil'' ''platform: duplicate RPC capability %q'' source []"

definition DefaultPrepareTimeout :: int where "DefaultPrepareTimeout = 30 * 10 ^ 9"

definition platform_New :: "('t, 'l, 'd, 'e, 'r, 'w) Options \<Rightarrow> ('t, 'l, 'd, 'e, 'r, 'w) Provider result" where
  "platform_New options =
     (let timeout = (if op_PrepareTimeout options = 0 then DefaultPrepareTimeout else op_PrepareTimeout options) in
      if timeout < 0 then Inl (Err ''platform: prepare timeout cannot be negative'' [])
      else case copyDatabaseFactories (op_Databases options) of
        Inl e \<Rightarrow> Inl e
      | Inr databases \<Rightarrow>
        (case copyRPCFactories (op_RPC options) of
           Inl e \<Rightarrow> Inl e
         | Inr rpc \<Rightarrow>
           Inr \<lparr>pv_config = op_Config options, pv_logger = op_Logger options, pv_eventBus = op_EventBus options, pv_databaseSource = databases,
             pv_rpcSource = rpc, pv_prepareTimeout = timeout, pv_state = providerStateNew, pv_requirements = no_requirements, pv_delegate = None,
             pv_resources = [], pv_shutdownErr = None\<rparr>))"

section \<open>Registries\<close>

record 'v Registry =
  rg_values :: "(string \<times> 'v) list"
  rg_sealed :: bool

definition NewRegistry :: "'v Registry" where
  "NewRegistry = \<lparr>rg_values = [], rg_sealed = False\<rparr>"

definition registry_Register :: "'v Registry option \<Rightarrow> string \<Rightarrow> 'v \<Rightarrow> goerr option \<times> 'v Registry option" where
  "registry_Register registry name v =
     (case registry of
        None \<Rightarrow> (Some (Err ''platform: nil provider registry'' []), None)
      | Some g \<Rightarrow>
        (let name = trim_space name in
         if \<not> moduleNamePattern name then (Some (Err ''platform: invalid provider capability name %q'' [name]), Some g)
         else if rg_sealed g then (Some (Err ''platform: provider registry is sealed'' []), Some g)
         else if map_of (rg_values g) name \<noteq> None then (Some (Err ''platform: duplicate provider capability %q'' [name]), Some g)
         else (None, Some (g\<lparr>rg_values := AList.update name v (rg_values g)\<rparr>))))"

definition registry_Seal :: "'v Registry option \<Rightarrow> 'v Registry option" where
  "registry_Seal registry = map_option (\<lambda>g. g\<lparr>rg_sealed := True\<rparr>) registry"

definition registry_Snapshot :: "'v Registry option \<Rightarrow> (string \<times> 'v) list" where
  "registry_Snapshot registry = (case registry of None \<Rightarrow> [] | Some g \<Rightarrow> rg_values g)"

definition registry_Names :: "'v Registry option \<Rightarrow> string list" where
  "registry_Names registry = (case registry of None \<Rightarrow> [] | Some g \<Rightarrow> sort (map fst (rg_values g)))"

section \<open>Loggers\<close>

definition newModuleLogger :: "'l logger option \<Rightarrow> string \<Rightarrow> 'l logger option" where
  "newModuleLogger delegate module_name = map_option (\<lambda>l. ModuleLogger l module_name) delegate"

text \<open>What the logger of the host is finally given to print.\<close>

fun print_values :: "'l logger \<Rightarrow> string list \<Rightarrow> 'l \<times> string list" where
  "print_values (HostLogger l) vs = (l, vs)"
| "print_values (ModuleLogger delegate m) vs = print_values delegate ((''module='' @ m @ '' '') # vs)"

section \<open>Requirements\<close>

definition canonicalRequirements :: "RequirementSet \<Rightarrow> RequirementSet" where
  "canonicalRequirements r =
     r\<lparr>rs_modules := sort (rs_modules r), rs_configs := sort_key (\<lambda>c. (cfg_module c, cfg_key c)) (rs_configs r),
       rs_databases := sort_key db_name (rs_databases r), rs_rpc := sort_key rpc_name (rs_rpc r)\<rparr>"

section \<open>Resources\<close>

definition safeResourceCall :: "string \<Rightarrow> call \<Rightarrow> 'w hook \<Rightarrow> 'w run \<Rightarrow> goerr option \<times> 'w run" where
  "safeResourceCall name c hook r =
     (case hook (rn_world r) of
        (Return err, w) \<Rightarrow> (err, \<lparr>rn_world = w, rn_calls = rn_calls r @ [c]\<rparr>)
      | (Panic p, w) \<Rightarrow> (Some (Err ''%s panicked: %v'' [name, p]), \<lparr>rn_world = w, rn_calls = rn_calls r @ [c]\<rparr>))"

text \<open>One iteration of each loop; the loop of \<open>shutdownResources\<close> counts down and runs over the reversed list here.\<close>

definition shutdown_one :: "'w ownedResource \<Rightarrow> 'w run \<Rightarrow> goerr option \<times> 'w run" where
  "shutdown_one x r =
     (case ow_shutdown x of
        None \<Rightarrow> (None, r)
      | Some h \<Rightarrow>
        (case safeResourceCall (''shutdown '' @ ow_key x) (Stops (AResource (ow_key x))) h r of
           (err, r1) \<Rightarrow> (map_option (Wrap ''platform: shutdown %s: %w'' [ow_key x]) err, r1)))"

fun shutdown_all :: "'w ownedResource list \<Rightarrow> 'w run \<Rightarrow> goerr option list \<times> 'w run" where
  "shutdown_all [] r = ([], r)"
| "shutdown_all (x # xs) r =
     (case shutdown_one x r of (err, r1) \<Rightarrow> (case shutdown_all xs r1 of (errs, r2) \<Rightarrow> (err # errs, r2)))"

definition shutdownResources :: "'w ownedResource list \<Rightarrow> 'w run \<Rightarrow> goerr option \<times> 'w run" where
  "shutdownResources resources r = (case shutdown_all (rev resources) r of (errs, r1) \<Rightarrow> (err_join errs, r1))"

definition start_one :: "'w ownedResource \<Rightarrow> 'w run \<Rightarrow> goerr option \<times> 'w run" where
  "start_one x r =
     (case ow_start x of
        None \<Rightarrow> (None, r)
      | Some h \<Rightarrow>
        (case safeResourceCall (''start '' @ ow_key x) (Starts (AResource (ow_key x))) h r of
           (err, r1) \<Rightarrow> (map_option (Wrap ''platform: start %s: %w'' [ow_key x]) err, r1)))"

fun start_all :: "'w ownedResource list \<Rightarrow> 'w run \<Rightarrow> goerr option \<times> 'w run" where
  "start_all [] r = (None, r)"
| "start_all (x # xs) r =
     (case start_one x r of (None, r1) \<Rightarrow> start_all xs r1 | (Some err, r1) \<Rightarrow> (Some err, r1))"

text \<open>The loops over the required databases and RPC targets: the handles and resources so far, and the error or panic that ended the loop. A
  resource with a nil handle was opened too, but it is not taken over.\<close>

definition owned :: "string \<Rightarrow> ('h, 'w) Resource \<Rightarrow> 'w ownedResource" where
  "owned key res = \<lparr>ow_key = key, ow_start = re_Start res, ow_health = re_Health res, ow_shutdown = re_Shutdown res\<rparr>"

definition open_call :: "'w ownedResource \<Rightarrow> call" where
  "open_call x = Builds (AResource (ow_key x)) (\<not> Option.is_none (ow_shutdown x))"

fun open_all ::
  "string \<Rightarrow> string \<Rightarrow> string \<Rightarrow> string \<Rightarrow> (string \<times> ('h, 'w) ResourceFactory) list \<Rightarrow> string list \<Rightarrow> (string \<times> 'h option) list
     \<Rightarrow> 'w ownedResource list \<Rightarrow> 'w run \<Rightarrow> (string, goerr option) outcome \<times> (string \<times> 'h option) list \<times> 'w ownedResource list \<times> 'w run" where
  "open_all missing failed nothing kind source [] handles resources r = (Return None, handles, resources, r)"
| "open_all missing failed nothing kind source (n # ns) handles resources r =
     (case map_of source n of
        None \<Rightarrow> (Return (Some (Err missing [n])), handles, resources, r)
      | Some open_resource \<Rightarrow>
        (case open_resource n (rn_world r) of
           (Panic p, w) \<Rightarrow> (Panic p, handles, resources, r\<lparr>rn_world := w\<rparr>)
         | (Return (Inl err), w) \<Rightarrow> (Return (Some (Wrap failed [n] err)), handles, resources, r\<lparr>rn_world := w\<rparr>)
         | (Return (Inr res), w) \<Rightarrow>
           (let x = owned (kind @ n) res; r1 = \<lparr>rn_world = w, rn_calls = rn_calls r @ [open_call x]\<rparr> in
            case re_handle res of
              None \<Rightarrow> (Return (Some (Err nothing [n])), handles, resources, r1)
            | Some h \<Rightarrow> open_all missing failed nothing kind source ns (AList.update n (Some h) handles) (resources @ [x]) r1)))"

definition open_databases ::
  "(string \<times> ('d, 'w) ResourceFactory) list \<Rightarrow> DatabaseRequirement list \<Rightarrow> 'w ownedResource list \<Rightarrow> 'w run
     \<Rightarrow> (string, goerr option) outcome \<times> (string \<times> 'd option) list \<times> 'w ownedResource list \<times> 'w run" where
  "open_databases source rs =
     open_all ''platform: required database %q is not configured'' ''platform: open database %q: %w'' ''platform: database factory %q returned nil''
       ''database:'' source (map db_name rs) []"

definition open_rpc ::
  "(string \<times> ('r, 'w) ResourceFactory) list \<Rightarrow> RPCRequirement list \<Rightarrow> 'w ownedResource list \<Rightarrow> 'w run
     \<Rightarrow> (string, goerr option) outcome \<times> (string \<times> 'r option) list \<times> 'w ownedResource list \<times> 'w run" where
  "open_rpc source rs =
     open_all ''platform: required RPC target %q is not configured'' ''platform: open RPC target %q: %w'' ''platform: RPC factory %q returned nil''
       ''rpc:'' source (map rpc_name rs) []"

definition preparedDatabases_GORM :: "(string \<times> 'd option) list \<Rightarrow> 'd provider" where
  "preparedDatabases_GORM = lookup_handle ''platform: database %q was not prepared''"

definition preparedRPC_Connection :: "(string \<times> 'r option) list \<Rightarrow> 'r provider" where
  "preparedRPC_Connection = lookup_handle ''platform: RPC target %q was not prepared''"

section \<open>Prepare and ForModule\<close>

definition unavailable :: "('t, 'l, 'd, 'e, 'r, 'w) Provider \<Rightarrow> RequirementSet \<Rightarrow> goerr option" where
  "unavailable p r =
     (if rs_configs r \<noteq> [] \<and> Option.is_none (pv_config p) then Some (Err ''platform: configuration provider is required'' [])
      else if rs_logger r \<and> Option.is_none (pv_logger p) then Some (Err ''platform: logger is required'' [])
      else if rs_eventbus r \<and> Option.is_none (pv_eventBus p) then Some (Err ''platform: event bus is required'' [])
      else None)"

definition clean_up :: "goerr \<Rightarrow> 'w ownedResource list \<Rightarrow> 'w run \<Rightarrow> goerr option \<times> 'w run" where
  "clean_up cause resources r = (case shutdownResources resources r of (err, r1) \<Rightarrow> (err_join [Some cause, err], r1))"

definition prepare_new ::
  "('t, 'l, 'd, 'e, 'r, 'w) Provider \<Rightarrow> RequirementSet \<Rightarrow> 'w run \<Rightarrow> (string, goerr option) outcome \<times> ('t, 'l, 'd, 'e, 'r, 'w) Provider \<times> 'w run" where
  "prepare_new p requirements r =
     (case open_databases (pv_databaseSource p) (rs_databases requirements) [] r of
        (Panic q, databases, resources, r1) \<Rightarrow> (Panic q, p, r1)
      | (Return (Some cause), databases, resources, r1) \<Rightarrow> (case clean_up cause resources r1 of (err, r2) \<Rightarrow> (Return err, p, r2))
      | (Return None, databases, resources, r1) \<Rightarrow>
        (case open_rpc (pv_rpcSource p) (rs_rpc requirements) resources r1 of
           (Panic q, connections, resources, r2) \<Rightarrow> (Panic q, p, r2)
         | (Return (Some cause), connections, resources, r2) \<Rightarrow> (case clean_up cause resources r2 of (err, r3) \<Rightarrow> (Return err, p, r3))
         | (Return None, connections, resources, r2) \<Rightarrow>
           (let resources = sort_key ow_key resources in
            case Prepare (Some (NewStaticContextFactory
                   \<lparr>Config = pv_config p, Logger = pv_logger p, Databases = Some (preparedDatabases_GORM databases), EventBus = pv_eventBus p,
                    RPC = Some (preparedRPC_Connection connections)\<rparr>)) requirements of
              (Some err, _) \<Rightarrow>
                (case clean_up (Wrap ''platform: prepare restricted module capabilities: %w'' [] err) resources r2 of (err, r3) \<Rightarrow> (Return err, p, r3))
            | (None, delegate) \<Rightarrow>
                (Return None, p\<lparr>pv_requirements := requirements, pv_resources := resources, pv_delegate := delegate, pv_state := providerStatePrepared\<rparr>, r2))))"

definition provider_Prepare ::
  "('t, 'l, 'd, 'e, 'r, 'w) Provider option \<Rightarrow> RequirementSet \<Rightarrow> 'w run
     \<Rightarrow> (string, goerr option) outcome \<times> ('t, 'l, 'd, 'e, 'r, 'w) Provider option \<times> 'w run" where
  "provider_Prepare provider requirements r =
     (case provider of
        None \<Rightarrow> (Return (Some (Err ''platform: provider is nil'' [])), None, r)
      | Some p \<Rightarrow>
        (let requirements = canonicalRequirements requirements in
         if pv_state p \<in> {providerStatePrepared, providerStateStarting, providerStateStarted} then
           (if equalRequirementSets (pv_requirements p) requirements then (Return None, Some p, r)
            else (Return (Some (Err ''platform: provider already prepared for a different requirement set'' [])), Some p, r))
         else if pv_state p \<in> {providerStateStopping, providerStateStopped, providerStateFailed}
         then (Return (Some (Err ''platform: provider cannot prepare after shutdown or failure'' [])), Some p, r)
         else case unavailable p requirements of
           Some e \<Rightarrow> (Return (Some e), Some p, r)
         | None \<Rightarrow> (case prepare_new p requirements r of (out, p', r') \<Rightarrow> (out, Some p', r'))))"

definition provider_ForModule ::
  "('t, 'l, 'd, 'e, 'r, 'w) Provider option \<Rightarrow> 'b Descriptor \<Rightarrow> (unit, ('b, 't, 'l logger, 'd, 'e, 'r) staticBuildContext result) outcome" where
  "provider_ForModule provider descriptor =
     (case provider of
        None \<Rightarrow> Return (Inl (Err ''platform: provider is nil'' []))
      | Some p \<Rightarrow>
        if pv_state p \<notin> {providerStatePrepared, providerStateStarting, providerStateStarted}
        then Return (Inl (Err ''platform: provider is not prepared'' []))
        else case pv_delegate p of
          None \<Rightarrow> Return (Inl (Err ''platform: module capability delegate is unavailable'' []))
        | Some delegate \<Rightarrow>
          (case ForModule (Some delegate) descriptor of
             Panic u \<Rightarrow> Panic u
           | Return (Inl err) \<Rightarrow> Return (Inl err)
           | Return (Inr ctx) \<Rightarrow>
               Return (Inr (ctx\<lparr>bc_capabilities := (bc_capabilities ctx)\<lparr>Logger := newModuleLogger (Logger (bc_capabilities ctx)) (d_name descriptor)\<rparr>\<rparr>))))"

section \<open>Start, Health and Shutdown\<close>

text \<open>What \<open>Start\<close> and \<open>Shutdown\<close> do under the lock when they begin: return at once, or change the state and go to work.\<close>

definition start_enter :: "('t, 'l, 'd, 'e, 'r, 'w) Provider \<Rightarrow> goerr option + ('t, 'l, 'd, 'e, 'r, 'w) Provider" where
  "start_enter p =
     (case pv_state p of
        providerStateStarted \<Rightarrow> Inl None
      | providerStateNew \<Rightarrow> Inl (Some (Err ''platform: provider is not prepared'' []))
      | providerStateStarting \<Rightarrow> Inl (Some (Err ''platform: provider start is already in progress'' []))
      | providerStatePrepared \<Rightarrow> Inr (p\<lparr>pv_state := providerStateStarting\<rparr>)
      | _ \<Rightarrow> Inl (Some (Err ''platform: provider cannot start after shutdown or failure'' [])))"

definition stop_enter :: "('t, 'l, 'd, 'e, 'r, 'w) Provider \<Rightarrow> goerr option + ('t, 'l, 'd, 'e, 'r, 'w) Provider" where
  "stop_enter p =
     (case pv_state p of
        providerStateStopped \<Rightarrow> Inl (pv_shutdownErr p)
      | providerStateStarting \<Rightarrow> Inl (Some (Err ''platform: provider start is in progress'' []))
      | providerStateStopping \<Rightarrow> Inl (Some (Err ''platform: provider shutdown is already in progress'' []))
      | _ \<Rightarrow> Inr (p\<lparr>pv_state := providerStateStopping\<rparr>))"

definition provider_Start ::
  "('t, 'l, 'd, 'e, 'r, 'w) Provider option \<Rightarrow> 'w run \<Rightarrow> goerr option \<times> ('t, 'l, 'd, 'e, 'r, 'w) Provider option \<times> 'w run" where
  "provider_Start provider r =
     (case provider of
        None \<Rightarrow> (Some (Err ''platform: provider is nil'' []), None, r)
      | Some p \<Rightarrow>
        (case start_enter p of
           Inl err \<Rightarrow> (err, Some p, r)
         | Inr p1 \<Rightarrow>
           (case start_all (pv_resources p1) r of
              (None, r1) \<Rightarrow> (None, Some (p1\<lparr>pv_state := providerStateStarted\<rparr>), r1)
            | (Some err, r1) \<Rightarrow>
              (case shutdownResources (pv_resources p1) r1 of
                 (cleanupErr, r2) \<Rightarrow>
                   (err_join [Some err, cleanupErr], Some (p1\<lparr>pv_state := providerStateStopped, pv_shutdownErr := cleanupErr\<rparr>), r2)))))"

fun health_all :: "'w ownedResource list \<Rightarrow> 'w run \<Rightarrow> goerr option list \<times> 'w run" where
  "health_all [] r = ([], r)"
| "health_all (x # xs) r =
     (case ow_health x of
        None \<Rightarrow> health_all xs r
      | Some h \<Rightarrow>
        (case safeResourceCall (''health '' @ ow_key x) (Checks (AResource (ow_key x))) h r of
           (err, r1) \<Rightarrow>
             (case health_all xs r1 of (errs, r2) \<Rightarrow> (map_option (Wrap ''platform: health %s: %w'' [ow_key x]) err # errs, r2))))"

definition provider_Health :: "('t, 'l, 'd, 'e, 'r, 'w) Provider option \<Rightarrow> 'w run \<Rightarrow> goerr option \<times> 'w run" where
  "provider_Health provider r =
     (case provider of
        None \<Rightarrow> (Some (Err ''platform: provider is nil'' []), r)
      | Some p \<Rightarrow>
        if pv_state p = providerStateNew then (Some (Err ''platform: provider is not prepared'' []), r)
        else if pv_state p \<in> {providerStateStopping, providerStateStopped, providerStateFailed}
        then (Some (Err ''platform: provider is not healthy after shutdown or failure'' []), r)
        else (case health_all (pv_resources p) r of (errs, r1) \<Rightarrow> (err_join errs, r1)))"

definition provider_Shutdown ::
  "('t, 'l, 'd, 'e, 'r, 'w) Provider option \<Rightarrow> 'w run \<Rightarrow> goerr option \<times> ('t, 'l, 'd, 'e, 'r, 'w) Provider option \<times> 'w run" where
  "provider_Shutdown provider r =
     (case provider of
        None \<Rightarrow> (None, None, r)
      | Some p \<Rightarrow>
        (case stop_enter p of
           Inl err \<Rightarrow> (err, Some p, r)
         | Inr p1 \<Rightarrow>
           (case shutdownResources (pv_resources p1) r of
              (err, r1) \<Rightarrow> (err, Some (p1\<lparr>pv_state := providerStateStopped, pv_shutdownErr := err\<rparr>), r1))))"

definition ResourceKeys :: "('t, 'l, 'd, 'e, 'r, 'w) Provider option \<Rightarrow> string list" where
  "ResourceKeys provider = (case provider of None \<Rightarrow> [] | Some p \<Rightarrow> map ow_key (pv_resources p))"

section \<open>The calls of each phase\<close>

abbreviation opens :: "'w ownedResource list \<Rightarrow> call list" where
  "opens xs \<equiv> map open_call xs"

definition starts :: "'w ownedResource list \<Rightarrow> call list" where
  "starts xs = map (\<lambda>x. Starts (AResource (ow_key x))) (filter (\<lambda>x. ow_start x \<noteq> None) xs)"

definition stops :: "'w ownedResource list \<Rightarrow> call list" where
  "stops xs = map (\<lambda>x. Stops (AResource (ow_key x))) (filter (\<lambda>x. ow_shutdown x \<noteq> None) xs)"

lemma starts_append [simp]: "starts (xs @ ys) = starts xs @ starts ys" "starts [] = []"
  by (simp_all add: starts_def)

lemma stops_append [simp]: "stops (xs @ ys) = stops xs @ stops ys" "stops [] = []"
  by (simp_all add: stops_def)

lemma safe_resource_calls: "safeResourceCall name c h r = (e, r') \<Longrightarrow> rn_calls r' = rn_calls r @ [c]"
  by (auto simp: safeResourceCall_def split: prod.splits outcome.splits)

lemma shutdown_one_calls: "shutdown_one x r = (e, r') \<Longrightarrow> rn_calls r' = rn_calls r @ stops [x]"
  by (auto simp: shutdown_one_def stops_def dest: safe_resource_calls split: option.splits prod.splits)

lemma start_one_calls: "start_one x r = (e, r') \<Longrightarrow> rn_calls r' = rn_calls r @ starts [x]"
  by (auto simp: start_one_def starts_def dest: safe_resource_calls split: option.splits prod.splits)

lemma shutdown_all_calls: "shutdown_all xs r = (es, r') \<Longrightarrow> rn_calls r' = rn_calls r @ stops xs"
proof (induction xs arbitrary: r es)
  case (Cons x xs)
  obtain e r1 es' r2 where "shutdown_one x r = (e, r1)" "shutdown_all xs r1 = (es', r2)" by fastforce
  with Cons shutdown_one_calls [OF this(1)] show ?case using stops_append(1) [of "[x]" xs] by simp
qed simp

lemma shutdownResources_calls: "shutdownResources xs r = (e, r') \<Longrightarrow> rn_calls r' = rn_calls r @ stops (rev xs)"
  by (auto simp: shutdownResources_def dest: shutdown_all_calls split: prod.splits)

lemma clean_up_calls:
  assumes "clean_up cause xs r = (e, r')"
  shows "rn_calls r' = rn_calls r @ stops (rev xs)" "e \<noteq> None"
proof -
  obtain e1 r1 where "shutdownResources xs r = (e1, r1)" by fastforce
  with assms shutdownResources_calls [OF this] show "rn_calls r' = rn_calls r @ stops (rev xs)" "e \<noteq> None"
    by (auto simp: clean_up_def err_join_def)
qed

text \<open>What the provider expects of a factory: it returns, and a resource without a handle has nothing to release.\<close>

definition honest :: "(string \<times> ('h, 'w) ResourceFactory) list \<Rightarrow> bool" where
  "honest source \<longleftrightarrow> (\<forall>n f w. map_of source n = Some f \<longrightarrow>
     (case fst (f n w) of Panic q \<Rightarrow> False | Return (Inl e) \<Rightarrow> True | Return (Inr res) \<Rightarrow> re_handle res = None \<longrightarrow> re_Shutdown res = None))"

lemma honestD: "honest source \<Longrightarrow> map_of source n = Some f \<Longrightarrow>
  case fst (f n w) of Panic q \<Rightarrow> False | Return (Inl e) \<Rightarrow> True | Return (Inr res) \<Rightarrow> re_handle res = None \<longrightarrow> re_Shutdown res = None"
  unfolding honest_def by blast

text \<open>Resources that were opened and not taken over; they need no release when the factories are honest.\<close>

definition needless :: "'w ownedResource list \<Rightarrow> bool" where
  "needless xs \<longleftrightarrow> list_all (\<lambda>x. ow_shutdown x = None) xs"

lemma open_all_spec:
  fixes source :: "(string \<times> ('h, 'w) ResourceFactory) list"
  shows "open_all m1 m2 m3 kind source ns handles xs r = (out, handles', xs', r') \<Longrightarrow>
     \<exists>ys (left :: 'w ownedResource list). xs' = xs @ ys \<and> rn_calls r' = rn_calls r @ opens ys @ opens left \<and>
       (out = Return None \<longrightarrow> left = [] \<and> map ow_key ys = map ((@) kind) ns) \<and> (honest source \<longrightarrow> (\<exists>e. out = Return e) \<and> needless left)"
proof (induction ns arbitrary: handles xs r)
  case (Cons n ns)
  have stop: ?case if "xs' = xs" "rn_calls r' = rn_calls r @ opens left" "out \<noteq> Return None" "honest source \<longrightarrow> (\<exists>e. out = Return e) \<and> needless left" for left :: "'w ownedResource list"
    using that by - (rule exI [of _ "[]"], rule exI [of _ left], simp)
  show ?case
  proof (cases "map_of source n")
    case None
    with Cons.prems show ?thesis by (intro stop [of "[]"]) (auto simp: needless_def)
  next
    case (Some f)
    obtain res w where f: "f n (rn_world r) = (res, w)" by fastforce
    have hon: "honest source \<Longrightarrow> case res of Panic q \<Rightarrow> False | Return (Inl e) \<Rightarrow> True | Return (Inr x) \<Rightarrow> re_handle x = None \<longrightarrow> re_Shutdown x = None"
      using honestD [OF _ Some, of "rn_world r"] f by simp
    show ?thesis
    proof (cases "\<exists>x. res = Return (Inr x)")
      case False
      with Cons.prems Some f hon show ?thesis by (intro stop [of "[]"]) (auto simp: needless_def split: outcome.splits sum.splits)
    next
      case True
      then obtain x where x: "res = Return (Inr x)" by blast
      let ?x = "owned (kind @ n) x"
      show ?thesis
      proof (cases "re_handle x")
        case None
        with Cons.prems Some f x hon show ?thesis by (intro stop [of "[?x]"]) (auto simp: needless_def Let_def owned_def)
      next
        case (Some h)
        with Cons.prems \<open>map_of source n = Some f\<close> f x have "open_all m1 m2 m3 kind source ns (AList.update n (Some h) handles)
          (xs @ [?x]) \<lparr>rn_world = w, rn_calls = rn_calls r @ [open_call ?x]\<rparr> = (out, handles', xs', r')" by (simp add: Let_def)
        from Cons.IH [OF this] obtain ys and left :: "'w ownedResource list" where "xs' = (xs @ [?x]) @ ys"
          "rn_calls r' = rn_calls \<lparr>rn_world = w, rn_calls = rn_calls r @ [open_call ?x]\<rparr> @ opens ys @ opens left"
          "out = Return None \<longrightarrow> left = [] \<and> map ow_key ys = map ((@) kind) ns" "honest source \<longrightarrow> (\<exists>e. out = Return e) \<and> needless left" by blast
        then show ?thesis by - (rule exI [of _ "?x # ys"], rule exI [of _ left], simp add: owned_def)
      qed
    qed
  qed
qed (auto simp: needless_def)

definition honest_provider :: "('t, 'l, 'd, 'e, 'r, 'w) Provider \<Rightarrow> bool" where
  "honest_provider p \<longleftrightarrow> honest (pv_databaseSource p) \<and> honest (pv_rpcSource p)"

text \<open>A \<open>Prepare\<close> that fails closes what it took over (\<open>os\<close>) and nothing else (\<open>left\<close>); one that succeeds takes over all it opened.\<close>

definition failed_prepare :: "bool \<Rightarrow> 'w ownedResource list \<Rightarrow> call list \<Rightarrow> bool" where
  "failed_prepare H os log \<longleftrightarrow> (\<exists>(left :: 'w ownedResource list) (xs :: 'w ownedResource list). mset xs = mset os \<and> log = opens os @ opens left @ stops (rev xs) \<and> (H \<longrightarrow> needless left))"

lemma failed_prepareI:
  "mset xs = mset os \<Longrightarrow> H \<longrightarrow> needless left \<Longrightarrow> failed_prepare H os (opens os @ opens left @ stops (rev xs))" for xs left :: "'w ownedResource list"
  unfolding failed_prepare_def by blast

lemma failed_prepare_panic: "\<not> H \<Longrightarrow> failed_prepare H ([] :: 'w ownedResource list) (opens (ys :: 'w ownedResource list))"
  using failed_prepareI [of "[] :: 'w ownedResource list" "[]" H ys] by simp

lemma outcome_cases: "(\<exists>u. out = Panic u) \<or> out = Return None \<or> (\<exists>e. out = Return (Some e))"
proof (cases out)
  case (Return e)
  then show ?thesis by (cases e) auto
qed simp

lemma prepare_new_cases:
  fixes p :: "('t, 'l, 'd, 'e, 'r, 'w) Provider"
  assumes "prepare_new p q r = (out, p', r')"
  shows "p' = p \<and> (\<exists>(os :: 'w ownedResource list) log. failed_prepare (honest_provider p) os log \<and> rn_calls r' = rn_calls r @ log) \<or>
    out = Return None \<and> (\<exists>os delegate. p' = p\<lparr>pv_requirements := q, pv_resources := sort_key ow_key os, pv_delegate := delegate, pv_state := providerStatePrepared\<rparr> \<and>
      rn_calls r' = rn_calls r @ opens os \<and>
      map ow_key os = map (\<lambda>d. ''database:'' @ db_name d) (rs_databases q) @ map (\<lambda>d. ''rpc:'' @ rpc_name d) (rs_rpc q))"
proof -
  let ?H = "honest_provider p"
  obtain o1 dbs xs1 r1 where d: "open_databases (pv_databaseSource p) (rs_databases q) [] r = (o1, dbs, xs1, r1)" by (metis prod_cases4)
  from open_all_spec [OF d [unfolded open_databases_def]] obtain left1 :: "'w ownedResource list" where xs1: "rn_calls r1 = rn_calls r @ opens xs1 @ opens left1"
    "o1 = Return None \<longrightarrow> left1 = [] \<and> map ow_key xs1 = map (\<lambda>d. ''database:'' @ db_name d) (rs_databases q)"
    "?H \<longrightarrow> (\<exists>e. o1 = Return e) \<and> needless left1" by (auto simp: honest_provider_def)
  obtain o2 conns xs2 r2 where c: "open_rpc (pv_rpcSource p) (rs_rpc q) xs1 r1 = (o2, conns, xs2, r2)" by (metis prod_cases4)
  from open_all_spec [OF c [unfolded open_rpc_def]] obtain ys and left2 :: "'w ownedResource list" where ys: "xs2 = xs1 @ ys" "rn_calls r2 = rn_calls r1 @ opens ys @ opens left2"
    "o2 = Return None \<longrightarrow> left2 = [] \<and> map ow_key ys = map (\<lambda>d. ''rpc:'' @ rpc_name d) (rs_rpc q)"
    "?H \<longrightarrow> (\<exists>e. o2 = Return e) \<and> needless left2" by (auto simp: honest_provider_def)
  have xs2: "o1 = Return None \<Longrightarrow> rn_calls r2 = rn_calls r @ opens xs2 @ opens left2" using xs1 ys by simp
  have fail: ?thesis if "p' = p" "failed_prepare ?H os log" "rn_calls r' = rn_calls r @ log" for os :: "'w ownedResource list" and log using that by blast
  have cleaned: ?thesis if "clean_up cause xs r3 = (err, r4)" "mset xs = mset os" "rn_calls r3 = rn_calls r @ opens os @ opens left"
    "?H \<longrightarrow> needless left" "p' = p" "r' = r4" for cause r3 r4 err and xs os left :: "'w ownedResource list"
    using fail [OF that(5) failed_prepareI [OF that(2,4)]] clean_up_calls(1) [OF that(1)] that(3,6) by simp
  consider (p1) u where "o1 = Panic u" | (e1) e where "o1 = Return (Some e)" | (p2) u where "o1 = Return None" "o2 = Panic u"
    | (e2) e where "o1 = Return None" "o2 = Return (Some e)" | (ok) "o1 = Return None" "o2 = Return None"
    using outcome_cases [of o1] outcome_cases [of o2] by blast
  then show ?thesis
  proof cases
    case p1
    then have "\<not> ?H" "p' = p" "r' = r1" using assms d xs1(3) by (auto simp: prepare_new_def)
    with fail [OF this(2) failed_prepare_panic [OF this(1), of "xs1 @ left1"]] xs1(1) show ?thesis by simp
  next
    case (e1 e)
    obtain err r3 where cl: "clean_up e xs1 r1 = (err, r3)" by fastforce
    with assms d e1 have "p' = p" "r' = r3" by (auto simp: prepare_new_def)
    then show ?thesis using xs1(3) by (intro cleaned [OF cl refl xs1(1)]) blast+
  next
    case p2
    then have "\<not> ?H" "p' = p" "r' = r2" using assms d c ys(4) by (auto simp: prepare_new_def)
    with fail [OF this(2) failed_prepare_panic [OF this(1), of "xs2 @ left2"]] xs2 [OF p2(1)] show ?thesis by simp
  next
    case (e2 e)
    obtain err r3 where cl: "clean_up e xs2 r2 = (err, r3)" by fastforce
    with assms d c e2 have "p' = p" "r' = r3" by (auto simp: prepare_new_def)
    then show ?thesis using ys(4) by (intro cleaned [OF cl refl xs2 [OF e2(1)]]) blast+
  next
    case ok
    obtain e3 delegate where prep: "Prepare (Some (NewStaticContextFactory
        \<lparr>Config = pv_config p, Logger = pv_logger p, Databases = Some (preparedDatabases_GORM dbs), EventBus = pv_eventBus p,
         RPC = Some (preparedRPC_Connection conns)\<rparr>)) q = (e3, delegate)" by fastforce
    show ?thesis
    proof (cases e3)
      case (Some err)
      obtain e4 r4 where cl: "clean_up (Wrap ''platform: prepare restricted module capabilities: %w'' [] err) (sort_key ow_key xs2) r2 = (e4, r4)" by fastforce
      with assms d c ok prep Some have "p' = p" "r' = r4" by (auto simp: prepare_new_def Let_def)
      then show ?thesis using ys(4) by (intro cleaned [OF cl mset_sort xs2 [OF ok(1)]]) blast+
    next
      case None
      with assms d c ok prep xs2 xs1(2) ys(1,3) show ?thesis by (intro disjI2) (auto simp: prepare_new_def Let_def)
    qed
  qed
qed

section \<open>Concurrent histories\<close>

text \<open>A call of \<open>Start\<close> or \<open>Shutdown\<close> that has left the lock: the resources it has still to start or stop. A failed start turns into the stopping of
  all resources.\<close>

datatype 'w pending_op = Starting "'w ownedResource list" | Closing "'w ownedResource list" "goerr option list"

text \<open>One step of a provider under any number of concurrent calls: \<open>Prepare\<close> as a whole, the entry of \<open>Start\<close> or \<open>Shutdown\<close>, one
  iteration of a loop of a pending operation, its end; and what everybody else does, health checks included.\<close>

inductive pv_step ::
  "('t, 'l, 'd, 'e, 'r, 'w) Provider \<times> 'w pending_op list \<times> 'w run \<Rightarrow> ('t, 'l, 'd, 'e, 'r, 'w) Provider \<times> 'w pending_op list \<times> 'w run \<Rightarrow> bool" where
  prepare: "provider_Prepare (Some p) q r = (out, Some p', r') \<Longrightarrow> pv_step (p, ts, r) (p', ts, r')"
| start: "start_enter p = Inr p' \<Longrightarrow> pv_step (p, ts, r) (p', ts @ [Starting (pv_resources p')], r)"
| stop: "stop_enter p = Inr p' \<Longrightarrow> pv_step (p, ts, r) (p', ts @ [Closing (rev (pv_resources p')) []], r)"
| start_next: "start_one x r = (None, r') \<Longrightarrow> pv_step (p, ts @ Starting (x # xs) # us, r) (p, ts @ Starting xs # us, r')"
| start_failed: "start_one x r = (Some e, r') \<Longrightarrow>
    pv_step (p, ts @ Starting (x # xs) # us, r) (p, ts @ Closing (rev (pv_resources p)) [] # us, r')"
| started: "pv_step (p, ts @ Starting [] # us, r) (p\<lparr>pv_state := providerStateStarted\<rparr>, ts @ us, r)"
| close_next: "shutdown_one x r = (e, r') \<Longrightarrow> pv_step (p, ts @ Closing (x # xs) es # us, r) (p, ts @ Closing xs (es @ [e]) # us, r')"
| closed: "pv_step (p, ts @ Closing [] es # us, r) (p\<lparr>pv_state := providerStateStopped, pv_shutdownErr := err_join es\<rparr>, ts @ us, r)"
| others: "list_all is_check cs \<Longrightarrow> pv_step (p, ts, r) (p, ts, \<lparr>rn_world = w, rn_calls = rn_calls r @ cs\<rparr>)"

inductive pv_reach ::
  "('t, 'l, 'd, 'e, 'r, 'w) Provider \<Rightarrow> 'w \<Rightarrow> ('t, 'l, 'd, 'e, 'r, 'w) Provider \<times> 'w pending_op list \<times> 'w run \<Rightarrow> bool" for p0 w0 where
  initial: "pv_reach p0 w0 (p0, [], \<lparr>rn_world = w0, rn_calls = []\<rparr>)"
| step: "pv_reach p0 w0 c \<Longrightarrow> pv_step c c' \<Longrightarrow> pv_reach p0 w0 c'"

text \<open>A part of the log in which the resources \<open>os\<close> were opened and taken over, and \<open>left\<close> opened and not taken over, the first \<open>n\<close> started, and those
  taken over closed again: a failed preparation, or the life of the provider. In a balanced log these are all the same resources, and
  nothing that needs a release was not taken over, if \<open>H\<close> holds.\<close>

type_synonym 'w round = "'w ownedResource list \<times> 'w ownedResource list \<times> 'w ownedResource list \<times> nat"

definition round_calls :: "'w round \<Rightarrow> call list" where
  "round_calls x = (case x of (os, left, xs, n) \<Rightarrow> opens os @ opens left @ starts (take n xs) @ stops (rev xs))"

definition balanced :: "bool \<Rightarrow> 'w round list \<Rightarrow> bool" where
  "balanced H rs \<longleftrightarrow> (\<forall>(os, left, xs, n) \<in> set rs. mset xs = mset os \<and> (H \<longrightarrow> needless left))"

definition pv_phase ::
  "providerState \<Rightarrow> 'w ownedResource list \<Rightarrow> 'w pending_op list \<Rightarrow> call list \<Rightarrow> call list \<Rightarrow> nat \<Rightarrow> nat \<Rightarrow> goerr option list \<Rightarrow> bool" where
  "pv_phase st xs ts opening log m n es =
     (case st of
        providerStateNew \<Rightarrow> ts = [] \<and> xs = [] \<and> log = []
      | providerStatePrepared \<Rightarrow> ts = [] \<and> log = opening
      | providerStateStarting \<Rightarrow>
          ts = [Starting (drop n xs)] \<and> log = opening @ starts (take n xs) \<or>
          ts = [Closing (drop n (rev xs)) es] \<and> log = opening @ starts (take m xs) @ stops (take n (rev xs))
      | providerStateStarted \<Rightarrow> ts = [] \<and> log = opening @ starts xs
      | providerStateStopping \<Rightarrow> ts = [Closing (drop n (rev xs)) es] \<and> log = opening @ starts (take m xs) @ stops (take n (rev xs))
      | providerStateStopped \<Rightarrow> ts = [] \<and> log = []
      | providerStateFailed \<Rightarrow> False)"

definition pv_log :: "bool \<Rightarrow> providerState \<Rightarrow> 'w ownedResource list \<Rightarrow> 'w pending_op list \<Rightarrow> call list \<Rightarrow> bool" where
  "pv_log H st xs ts log \<longleftrightarrow>
     (\<exists>(rs :: 'w round list) (os :: 'w ownedResource list) rest m n es. balanced H rs \<and> mset xs = mset os \<and> n \<le> length xs \<and>
       log = concat (map round_calls rs) @ rest \<and> pv_phase st xs ts (opens os) rest m n es)"

definition pv_inv :: "('t, 'l, 'd, 'e, 'r, 'w) Provider \<Rightarrow> ('t, 'l, 'd, 'e, 'r, 'w) Provider \<times> 'w pending_op list \<times> 'w run \<Rightarrow> bool" where
  "pv_inv p0 c = (case c of (p, ts, r) \<Rightarrow> pv_databaseSource p = pv_databaseSource p0 \<and> pv_rpcSource p = pv_rpcSource p0 \<and>
     pv_log (honest_provider p0) (pv_state p) (pv_resources p) ts (work r))"

lemma work_phases [simp]:
  "filter (\<lambda>c. \<not> is_check c) (opens xs) = opens xs" "filter (\<lambda>c. \<not> is_check c) (starts xs) = starts xs"
  "filter (\<lambda>c. \<not> is_check c) (stops xs) = stops xs"
  by (induction xs) (auto simp: starts_def stops_def open_call_def)

lemma pv_logI:
  fixes rs :: "'w round list" and xs :: "'w ownedResource list"
  assumes "balanced H rs" "mset xs = mset os" "n \<le> length xs" "pv_phase st xs ts (opens os) rest m n es"
  shows "pv_log H st xs ts (concat (map round_calls rs) @ rest)"
  using assms unfolding pv_log_def by blast

lemma pv_logE:
  fixes xs :: "'w ownedResource list"
  assumes "pv_log H st xs ts log"
  obtains rs os rest m n es where "balanced H (rs :: 'w round list)" "mset xs = mset os" "n \<le> length xs" "log = concat (map round_calls rs) @ rest"
    "pv_phase st xs ts (opens os) rest m n es"
  using assms unfolding pv_log_def by blast

lemma pv_log_round:
  fixes rs :: "'w round list" and xs :: "'w ownedResource list"
  assumes "balanced H rs" "mset xs = mset os"
  shows "\<exists>rs' :: 'w round list. balanced H rs' \<and> concat (map round_calls rs) @ opens os @ starts (take m xs) @ stops (rev xs) = concat (map round_calls rs')"
  using assms by (intro exI [of _ "rs @ [(os, [], xs, m)]"]) (auto simp: balanced_def round_calls_def needless_def)

lemma pv_log_failed:
  fixes rs :: "'w round list" and os :: "'w ownedResource list"
  assumes "balanced H rs" "failed_prepare H os log"
  shows "\<exists>rs' :: 'w round list. balanced H rs' \<and> concat (map round_calls rs) @ log = concat (map round_calls rs') \<and> filter (\<lambda>c. \<not> is_check c) log = log"
proof -
  from assms(2) obtain left xs :: "'w ownedResource list" where "mset xs = mset os" "log = opens os @ opens left @ stops (rev xs)" "H \<longrightarrow> needless left"
    unfolding failed_prepare_def by blast
  with assms(1) show ?thesis by (intro exI [of _ "rs @ [(os, left, xs, 0)]"]) (auto simp: balanced_def round_calls_def)
qed

lemma pv_prepare_step:
  fixes p :: "('t, 'l, 'd, 'e, 'r, 'w) Provider"
  assumes inv: "pv_inv p0 (p, ts, r)" and run: "provider_Prepare (Some p) q r = (out, Some p', r')"
  shows "pv_inv p0 (p', ts, r')"
proof (cases "pv_state p = providerStateNew \<and> unavailable p (canonicalRequirements q) = None")
  case False
  with run have "p' = p" "r' = r"
    by (cases "pv_state p"; auto simp: provider_Prepare_def Let_def split: if_splits option.splits prod.splits)+
  with inv show ?thesis by simp
next
  case True
  with run have new: "prepare_new p (canonicalRequirements q) r = (out, p', r')"
    by (auto simp: provider_Prepare_def Let_def split: prod.splits)
  let ?H = "honest_provider p0"
  have H: "honest_provider p = ?H" using inv by (simp add: pv_inv_def honest_provider_def)
  from inv True obtain rs where rs: "balanced ?H (rs :: 'w round list)" "work r = concat (map round_calls rs)" "ts = []" "pv_resources p = []"
    by (auto elim!: pv_logE simp: pv_phase_def pv_inv_def)
  from prepare_new_cases [OF new, unfolded H] show ?thesis
  proof (elim disjE exE conjE, goal_cases)
    case (1 os log)
    from pv_log_failed [OF rs(1) 1(2)] 1(3) rs(2) obtain rs' where rs': "balanced ?H (rs' :: 'w round list)" "work r' = concat (map round_calls rs')"
      by auto
    have "pv_log ?H providerStateNew ([] :: 'w ownedResource list) [] (concat (map round_calls rs') @ [])"
      by (rule pv_logI [OF rs'(1), of _ "[]" 0 _ _ _ 0 "[]"]) (simp_all add: pv_phase_def)
    with rs' rs(3,4) 1(1) True inv show ?case by (simp add: pv_inv_def)
  next
    case (2 os delegate)
    have "pv_log ?H providerStatePrepared (sort_key ow_key os) [] (concat (map round_calls rs) @ opens os)"
      by (rule pv_logI [OF rs(1), of _ os 0 _ _ _ 0 "[]"]) (simp_all add: pv_phase_def)
    with 2 rs inv show ?case by (simp add: pv_inv_def)
  qed
qed

lemma work_add: "rn_calls r' = rn_calls r @ cs \<Longrightarrow> filter (\<lambda>c. \<not> is_check c) cs = cs \<Longrightarrow> work r' = work r @ cs"
  by simp

lemma pv_start_step:
  fixes p :: "('t, 'l, 'd, 'e, 'r, 'w) Provider"
  assumes "pv_log H (pv_state p) (pv_resources p) ts log" "start_enter p = Inr p'"
  shows "pv_log H (pv_state p') (pv_resources p') (ts @ [Starting (pv_resources p')]) log"
proof -
  have st: "pv_state p = providerStatePrepared" "p' = p\<lparr>pv_state := providerStateStarting\<rparr>"
    using assms(2) by (cases "pv_state p"; simp add: start_enter_def)+
  from assms(1) obtain rs os where "balanced H (rs :: 'w round list)" "mset (pv_resources p) = mset os" "ts = []" "log = concat (map round_calls rs) @ opens os"
    unfolding st(1) by (auto elim!: pv_logE simp: pv_phase_def)
  with pv_logI [OF this(1,2), of 0 providerStateStarting "[Starting (pv_resources p)]" "opens os" 0 "[]"] show ?thesis
    by (simp add: st pv_phase_def)
qed

lemma pv_stop_step:
  fixes p :: "('t, 'l, 'd, 'e, 'r, 'w) Provider"
  assumes "pv_log H (pv_state p) (pv_resources p) ts log" "stop_enter p = Inr p'"
  shows "pv_log H (pv_state p') (pv_resources p') (ts @ [Closing (rev (pv_resources p')) []]) log"
proof -
  have p': "p' = p\<lparr>pv_state := providerStateStopping\<rparr>" "pv_state p \<in> {providerStateNew, providerStatePrepared, providerStateStarted, providerStateFailed}"
    using assms(2) by (cases "pv_state p"; simp add: stop_enter_def)+
  from assms(1) obtain rs os rest m n es where rs: "balanced H (rs :: 'w round list)" "mset (pv_resources p) = mset os" "n \<le> length (pv_resources p)"
    "log = concat (map round_calls rs) @ rest" "pv_phase (pv_state p) (pv_resources p) ts (opens os) rest m n es" by (rule pv_logE)
  have "ts = []" and "\<exists>k. rest = opens os @ starts (take k (pv_resources p))"
  proof -
    show "ts = []" using rs(5) p'(2) by (auto simp: pv_phase_def)
    have "rest = opens os @ starts (take (if pv_state p = providerStateStarted then length (pv_resources p) else 0) (pv_resources p))"
      using rs(2,5) p'(2) by (auto simp: pv_phase_def)
    then show "\<exists>k. rest = opens os @ starts (take k (pv_resources p))" by blast
  qed
  then obtain k where k: "rest = opens os @ starts (take k (pv_resources p))" by blast
  with pv_logI [OF rs(1,2), of 0 providerStateStopping "[Closing (rev (pv_resources p)) []]" rest k "[]"] rs(4) \<open>ts = []\<close> show ?thesis
    by (simp add: p' pv_phase_def)
qed

lemma single_split: "ts @ t # us = [t'] \<longleftrightarrow> ts = [] \<and> us = [] \<and> t = t'"
  by (cases ts) auto

lemma pv_start_next:
  fixes p :: "('t, 'l, 'd, 'e, 'r, 'w) Provider"
  assumes inv: "pv_log H (pv_state p) (pv_resources p) (ts @ Starting (x # xs) # us) (work r)" and call: "start_one x r = (e, r')"
  shows "pv_log H (pv_state p) (pv_resources p) (ts @ (if e = None then Starting xs else Closing (rev (pv_resources p)) []) # us) (work r')"
proof -
  let ?xs = "pv_resources p"
  from inv obtain rs os rest m n es where rs: "balanced H (rs :: 'w round list)" "mset ?xs = mset os" "n \<le> length ?xs"
    "work r = concat (map round_calls rs) @ rest" "pv_phase (pv_state p) ?xs (ts @ Starting (x # xs) # us) (opens os) rest m n es" by (rule pv_logE)
  then have st: "pv_state p = providerStateStarting" "ts = []" "us = []" "drop n ?xs = x # xs" "rest = opens os @ starts (take n ?xs)"
    by (cases "pv_state p"; auto simp: pv_phase_def single_split)+
  then have n: "n < length ?xs" by (metis drop_eq_Nil leI list.distinct(1))
  have next_n: "take (Suc n) ?xs = take n ?xs @ [x]" "drop (Suc n) ?xs = xs"
    using st(4) by (metis n Cons_nth_drop_Suc list.inject take_Suc_conv_app_nth, metis Cons_nth_drop_Suc n list.inject)
  have w: "work r' = concat (map round_calls rs) @ opens os @ starts (take (Suc n) ?xs)"
    using work_add [OF start_one_calls [OF call]] rs(4) st(5) next_n(1) by simp
  show ?thesis
  proof (cases "e = None")
    case True
    from pv_logI [OF rs(1,2), of "Suc n" providerStateStarting "[Starting xs]" "opens os @ starts (take (Suc n) ?xs)" 0 "[]"] n w st next_n True
    show ?thesis by (simp add: pv_phase_def)
  next
    case False
    from pv_logI [OF rs(1,2), of 0 providerStateStarting "[Closing (rev ?xs) []]" "opens os @ starts (take (Suc n) ?xs)" "Suc n" "[]"] w st False
    show ?thesis by (auto simp: pv_phase_def)
  qed
qed

lemma pv_started_step:
  fixes p :: "('t, 'l, 'd, 'e, 'r, 'w) Provider"
  assumes inv: "pv_log H (pv_state p) (pv_resources p) (ts @ Starting [] # us) log"
  shows "pv_log H providerStateStarted (pv_resources p) (ts @ us) log"
proof -
  let ?xs = "pv_resources p"
  from inv obtain rs os rest m n es where rs: "balanced H (rs :: 'w round list)" "mset ?xs = mset os" "n \<le> length ?xs"
    "log = concat (map round_calls rs) @ rest" "pv_phase (pv_state p) ?xs (ts @ Starting [] # us) (opens os) rest m n es" by (rule pv_logE)
  then have "ts = []" "us = []" "drop n ?xs = []" "rest = opens os @ starts (take n ?xs)"
    by (cases "pv_state p"; auto simp: pv_phase_def single_split)+
  with pv_logI [OF rs(1,2), of 0 providerStateStarted "[]" rest 0 "[]"] rs(4) show ?thesis by (simp add: pv_phase_def)
qed

lemma pv_close_next:
  fixes p :: "('t, 'l, 'd, 'e, 'r, 'w) Provider"
  assumes inv: "pv_log H (pv_state p) (pv_resources p) (ts @ Closing (x # xs) errs # us) (work r)" and call: "shutdown_one x r = (e, r')"
  shows "pv_log H (pv_state p) (pv_resources p) (ts @ Closing xs errs' # us) (work r')"
proof -
  let ?xs = "pv_resources p"
  from inv obtain rs os rest m n es where rs: "balanced H (rs :: 'w round list)" "mset ?xs = mset os" "n \<le> length ?xs"
    "work r = concat (map round_calls rs) @ rest" "pv_phase (pv_state p) ?xs (ts @ Closing (x # xs) errs # us) (opens os) rest m n es" by (rule pv_logE)
  then have st: "pv_state p \<in> {providerStateStarting, providerStateStopping}" "ts = []" "us = []" "drop n (rev ?xs) = x # xs"
    "rest = opens os @ starts (take m ?xs) @ stops (take n (rev ?xs))"
    by (cases "pv_state p"; auto simp: pv_phase_def single_split)+
  then have n: "n < length (rev ?xs)" by (metis drop_eq_Nil leI list.distinct(1))
  have next_n: "take (Suc n) (rev ?xs) = take n (rev ?xs) @ [x]" "drop (Suc n) (rev ?xs) = xs"
    using st(4) by (metis n Cons_nth_drop_Suc list.inject take_Suc_conv_app_nth, metis Cons_nth_drop_Suc n list.inject)
  have w: "work r' = concat (map round_calls rs) @ opens os @ starts (take m ?xs) @ stops (take (Suc n) (rev ?xs))"
    using work_add [OF shutdown_one_calls [OF call]] rs(4) st(5) next_n(1) by simp
  from pv_logI [OF rs(1,2), of "Suc n" "pv_state p" "[Closing xs errs']" "opens os @ starts (take m ?xs) @ stops (take (Suc n) (rev ?xs))" m errs']
    n w st next_n show ?thesis by (auto simp: pv_phase_def)
qed

lemma pv_closed_step:
  fixes p :: "('t, 'l, 'd, 'e, 'r, 'w) Provider"
  assumes inv: "pv_log H (pv_state p) (pv_resources p) (ts @ Closing [] errs # us) log"
  shows "pv_log H providerStateStopped (pv_resources p) (ts @ us) log"
proof -
  let ?xs = "pv_resources p"
  from inv obtain rs os rest m n es where rs: "balanced H (rs :: 'w round list)" "mset ?xs = mset os" "n \<le> length ?xs"
    "log = concat (map round_calls rs) @ rest" "pv_phase (pv_state p) ?xs (ts @ Closing [] errs # us) (opens os) rest m n es" by (rule pv_logE)
  then have st: "ts = []" "us = []" "drop n (rev ?xs) = []" "rest = opens os @ starts (take m ?xs) @ stops (take n (rev ?xs))"
    by (cases "pv_state p"; auto simp: pv_phase_def single_split)+
  then have "log = concat (map round_calls rs) @ opens os @ starts (take m ?xs) @ stops (rev ?xs)" using rs(4) by simp
  then obtain rs' where "balanced H (rs' :: 'w round list)" "log = concat (map round_calls rs')" using pv_log_round [OF rs(1,2)] by metis
  with pv_logI [OF this(1) rs(2), of 0 providerStateStopped "[]" "[]" 0 "[]"] st show ?thesis by (simp add: pv_phase_def)
qed

lemma pv_inv_step:
  assumes "pv_step c c'" "pv_inv p0 c"
  shows "pv_inv p0 c'"
  using assms
proof cases
  case (prepare p q r out p' r' ts)
  with assms(2) pv_prepare_step show ?thesis by blast
next
  case (start p p' ts r)
  then have "pv_databaseSource p' = pv_databaseSource p" "pv_rpcSource p' = pv_rpcSource p" by (auto simp: start_enter_def split: providerState.splits)
  with start assms(2) pv_start_step show ?thesis by (auto simp: pv_inv_def)
next
  case (stop p p' ts r)
  then have "pv_databaseSource p' = pv_databaseSource p" "pv_rpcSource p' = pv_rpcSource p" by (auto simp: stop_enter_def split: providerState.splits)
  with stop assms(2) pv_stop_step show ?thesis by (auto simp: pv_inv_def)
next
  case (start_next x r r' p ts xs us)
  with assms(2) pv_start_next [OF _ start_next(3), of "honest_provider p0" p ts xs us] show ?thesis by (simp add: pv_inv_def)
next
  case (start_failed x r e r' p ts xs us)
  with assms(2) pv_start_next [OF _ start_failed(3), of "honest_provider p0" p ts xs us] show ?thesis by (simp add: pv_inv_def)
next
  case (started p ts us r)
  with assms(2) pv_started_step show ?thesis by (auto simp: pv_inv_def)
next
  case (close_next x r e r' p ts xs es us)
  with assms(2) pv_close_next [OF _ close_next(3), of "honest_provider p0" p ts xs es us] show ?thesis by (simp add: pv_inv_def)
next
  case (closed p ts es us r)
  with assms(2) pv_closed_step show ?thesis by (auto simp: pv_inv_def)
next
  case (others cs p ts r w)
  have "filter (\<lambda>c. \<not> is_check c) cs = []" using others(3) by (induction cs) auto
  with others assms(2) show ?thesis by (simp add: pv_inv_def)
qed

section \<open>Ownership of the resources\<close>

definition fresh_provider :: "('t, 'l, 'd, 'e, 'r, 'w) Provider \<Rightarrow> bool" where
  "fresh_provider p \<longleftrightarrow> pv_state p = providerStateNew \<and> pv_resources p = []"

lemma platform_New_fresh: "platform_New options = Inr p \<Longrightarrow> fresh_provider p"
  by (auto simp: platform_New_def Let_def fresh_provider_def split: if_splits sum.splits)

lemma count_phases [simp]:
  "count_list (opens os) (Stops x) = 0" "count_list (starts xs) (Builds x f) = 0" "count_list (starts xs) (Stops x) = 0" "count_list (stops xs) (Builds x f) = 0"
proof -
  show "count_list (opens os) (Stops x) = 0" by (induction os) (auto simp: open_call_def)
  show "count_list (starts xs) (Builds x f) = 0" "count_list (starts xs) (Stops x) = 0" "count_list (stops xs) (Builds x f) = 0"
    by (induction xs) (auto simp: starts_def stops_def)
qed

text \<open>The calls that close resources, counted against those that opened them with something to release.\<close>

lemma count_stops: "count_list (stops xs) (Stops (AResource k)) = count_list (opens xs) (Builds (AResource k) True)"
  by (induction xs) (auto simp: stops_def open_call_def Option.is_none_def)

lemma count_same: "mset xs = mset os \<Longrightarrow> count_list (opens xs) c = count_list (opens os) c"
  by (metis count_mset mset_map)

lemma count_needless: "needless xs \<Longrightarrow> count_list (opens xs) (Builds (AResource k) True) = 0"
  by (induction xs) (auto simp: needless_def open_call_def)

lemma stops_take_le:
  assumes "mset xs = mset os"
  shows "count_list (stops (take n (rev xs))) (Stops (AResource k)) \<le> count_list (opens os) (Builds (AResource k) True)"
proof -
  have "count_list (opens (take n (rev xs))) c \<le> count_list (opens (rev xs)) c" for c
    by (metis append_take_drop_id count_list_append le_add1 map_append)
  then show ?thesis using count_same [of "rev xs" os] assms by (simp add: count_stops)
qed

lemma round_balance:
  "mset xs = mset os \<Longrightarrow> count_list (round_calls (os, left, xs, n)) (Stops (AResource k)) + count_list (opens left) (Builds (AResource k) True) =
     count_list (round_calls (os, left, xs, n)) (Builds (AResource k) True)"
  using count_same [of "rev xs" os] by (simp add: round_calls_def count_stops)

lemma rounds_balance:
  "balanced H rs \<Longrightarrow> count_list (concat (map round_calls rs)) (Stops (AResource k)) \<le> count_list (concat (map round_calls rs)) (Builds (AResource k) True) \<and>
     (H \<longrightarrow> count_list (concat (map round_calls rs)) (Stops (AResource k)) = count_list (concat (map round_calls rs)) (Builds (AResource k) True))"
proof (induction rs)
  case (Cons x rs)
  obtain os left xs n where x: "x = (os, left, xs, n)" by (cases x)
  with Cons.prems have b: "mset xs = mset os" "H \<Longrightarrow> needless left" "balanced H rs" by (auto simp: balanced_def)
  from Cons.IH [OF b(3)] round_balance [OF b(1), of left n k] count_needless [OF b(2), of k] x show ?case by auto
qed simp

lemma pv_reach_inv:
  fixes p0 :: "('t, 'l, 'd, 'e, 'r, 'w) Provider"
  assumes "pv_reach p0 w0 c" "fresh_provider p0"
  shows "pv_inv p0 c"
  using assms(1)
proof induction
  case initial
  have "pv_log (honest_provider p0) providerStateNew ([] :: 'w ownedResource list) [] (concat (map round_calls ([] :: 'w round list)) @ [])"
    by (rule pv_logI [of _ "[]" _ "[]" 0 _ _ _ 0 "[]"]) (simp_all add: balanced_def pv_phase_def)
  with assms(2) show ?case by (simp add: pv_inv_def fresh_provider_def)
next
  case (step c c')
  then show ?case using pv_inv_step by blast
qed

text \<open>Property C29: a platform provider closes what it opened. In every history, with any number of concurrent calls of its operations, no resource is
  closed more often than resources with a shutdown function were opened under its key, and at most one \<open>Start\<close> or \<open>Shutdown\<close> is at work.
  Whenever the provider is new or stopped, nothing is at work, and if the factories neither panic nor give a resource without a handle a
  shutdown function, then every resource with a shutdown function has been closed exactly as often as it was opened: the log
  consists of rounds in each of which resources were opened, possibly started, and then all of those with a shutdown function closed, the last
  first. So a failed \<open>Prepare\<close>, a failed \<open>Start\<close> and a \<open>Shutdown\<close> leave nothing open.\<close>

theorem provider_releases_once:
  fixes p0 :: "('t, 'l, 'd, 'e, 'r, 'w) Provider"
  assumes "pv_reach p0 w0 (p, ts, r)" "fresh_provider p0"
  shows "count_list (work r) (Stops (AResource k)) \<le> count_list (work r) (Builds (AResource k) True) \<and> length ts \<le> 1 \<and>
    (pv_state p \<in> {providerStateNew, providerStateStopped} \<longrightarrow> ts = [] \<and>
      (honest_provider p0 \<longrightarrow>
         count_list (work r) (Stops (AResource k)) = count_list (work r) (Builds (AResource k) True) \<and>
         (\<exists>rs :: 'w round list. balanced True rs \<and> work r = concat (map round_calls rs))))"
proof -
  from pv_reach_inv [OF assms] obtain rs os rest m n es where rs: "balanced (honest_provider p0) (rs :: 'w round list)" "mset (pv_resources p) = mset os"
    "n \<le> length (pv_resources p)" "work r = concat (map round_calls rs) @ rest" "pv_phase (pv_state p) (pv_resources p) ts (opens os) rest m n es"
    by (auto simp: pv_inv_def elim!: pv_logE)
  have "count_list rest (Stops (AResource k)) \<le> count_list rest (Builds (AResource k) True)"
    using rs(5) stops_take_le [OF rs(2), of n k] by (cases "pv_state p") (auto simp: pv_phase_def)
  then have "count_list (work r) (Stops (AResource k)) \<le> count_list (work r) (Builds (AResource k) True)"
    using rounds_balance [OF rs(1), of k] rs(4) by simp
  moreover have "length ts \<le> 1" using rs(5) by (cases "pv_state p") (auto simp: pv_phase_def)
  moreover have "ts = [] \<and> work r = concat (map round_calls rs)" if "pv_state p \<in> {providerStateNew, providerStateStopped}"
    using that rs(4,5) by (auto simp: pv_phase_def)
  moreover have "balanced True rs" if "honest_provider p0" using rs(1) that by simp
  ultimately show ?thesis using rounds_balance [OF rs(1), of k] by auto
qed

section \<open>Views of the modules\<close>

text \<open>The handles come from the factories of the same name.\<close>

definition handles_from :: "(string \<times> ('h, 'w) ResourceFactory) list \<Rightarrow> (string \<times> 'h option) list \<Rightarrow> bool" where
  "handles_from source handles \<longleftrightarrow>
     (\<forall>n h. map_of handles n = Some h \<longrightarrow> (\<exists>f w x w'. map_of source n = Some f \<and> f n w = (Return (Inr x), w') \<and> re_handle x = h \<and> h \<noteq> None))"

lemma open_all_handles:
  "open_all m1 m2 m3 kind source ns handles xs r = (e, handles', xs', r') \<Longrightarrow> handles_from source handles \<Longrightarrow> handles_from source handles'"
proof (induction ns arbitrary: handles xs r)
  case (Cons n ns)
  show ?case
  proof (cases "\<exists>f x w h. map_of source n = Some f \<and> f n (rn_world r) = (Return (Inr x), w) \<and> re_handle x = Some h")
    case False
    with Cons.prems show ?thesis by (auto simp: Let_def split: option.splits prod.splits sum.splits outcome.splits)
  next
    case True
    then obtain f x w h where x: "map_of source n = Some f" "f n (rn_world r) = (Return (Inr x), w)" "re_handle x = Some h" by blast
    with Cons.prems(2) have "handles_from source (AList.update n (Some h) handles)"
      unfolding handles_from_def by (auto simp: update_conv' split: if_splits)
    with Cons.IH Cons.prems(1) x show ?thesis by (auto simp: Let_def)
  qed
qed simp

lemma prepare_new_delegate:
  assumes "prepare_new p q r = (Return None, p', r')"
  obtains dbs conns f where "handles_from (pv_databaseSource p) dbs" "handles_from (pv_rpcSource p) conns" "pv_delegate p' = Some f" "pv_state p' = providerStatePrepared"
    "Prepare (Some (NewStaticContextFactory \<lparr>Config = pv_config p, Logger = pv_logger p, Databases = Some (preparedDatabases_GORM dbs),
       EventBus = pv_eventBus p, RPC = Some (preparedRPC_Connection conns)\<rparr>)) q = (None, Some f)"
proof -
  obtain e1 dbs xs1 r1 where d: "open_databases (pv_databaseSource p) (rs_databases q) [] r = (e1, dbs, xs1, r1)" by (metis prod_cases4)
  have e1: "e1 = Return None" using assms d clean_up_calls(2) by (fastforce simp: prepare_new_def split: prod.splits outcome.splits option.splits)
  obtain e2 conns xs2 r2 where c: "open_rpc (pv_rpcSource p) (rs_rpc q) xs1 r1 = (e2, conns, xs2, r2)" by (metis prod_cases4)
  have e2: "e2 = Return None" using assms d e1 c clean_up_calls(2) by (fastforce simp: prepare_new_def split: prod.splits outcome.splits option.splits)
  let ?caps = "\<lparr>Config = pv_config p, Logger = pv_logger p, Databases = Some (preparedDatabases_GORM dbs), EventBus = pv_eventBus p,
    RPC = Some (preparedRPC_Connection conns)\<rparr>"
  obtain e3 del where prep: "Prepare (Some (NewStaticContextFactory ?caps)) q = (e3, del)" by fastforce
  have e3: "e3 = None" using assms d e1 c e2 prep clean_up_calls(2) by (cases e3) (fastforce simp: prepare_new_def Let_def split: prod.splits)+
  then obtain f where f: "del = Some f"
    using prep by (auto simp: Prepare_def Let_def split: if_splits option.splits sum.splits)
  have "handles_from (pv_databaseSource p) dbs" "handles_from (pv_rpcSource p) conns"
    using open_all_handles [OF d [unfolded open_databases_def]] open_all_handles [OF c [unfolded open_rpc_def]] by (simp_all add: handles_from_def)
  moreover have "pv_delegate p' = Some f" "pv_state p' = providerStatePrepared"
    using assms d e1 c e2 prep e3 f by (auto simp: prepare_new_def Let_def)
  ultimately show thesis using that prep e3 f by blast
qed

lemma covers_canonical: "covers r d \<Longrightarrow> covers (canonicalRequirements r) d"
proof -
  assume "covers r d"
  moreover have "sort_key (\<lambda>c. (cfg_module c, cfg_key c)) (rs_configs r) = [] \<longleftrightarrow> rs_configs r = []" by (metis length_0_conv length_sort)
  ultimately show ?thesis by (simp add: covers_def canonicalRequirements_def)
qed

text \<open>A prepared platform provider gives every module of the plan a view that is confined to what the module declares: the database and RPC
  handles of the declared names, which the factories of these names opened, and no others; the event bus when it is
  required; its own configuration key; and the logger of the host, when it is required, under the name of the module.\<close>

theorem provider_views_confined:
  fixes plan :: "'b Plan" and p :: "('t, 'l, 'd, 'e, 'r, 'w) Provider"
  assumes wf: "list_all wf_descriptor (plan_descriptors plan)" and d: "d \<in> set (plan_descriptors plan)" and new: "pv_state p = providerStateNew"
    and prep: "provider_Prepare (Some p) (plan_requirements plan) r = (Return None, Some p', r')"
  shows "\<exists>ctx dbs conns. provider_ForModule (Some p') d = Return (Inr ctx) \<and> bc_descriptor ctx = d \<and>
    Logger (bc_capabilities ctx) = (if ReqLogger (d_reqs d) then newModuleLogger (pv_logger p) (d_name d) else None) \<and>
    (ReqLogger (d_reqs d) \<longrightarrow> pv_logger p \<noteq> None) \<and>
    EventBus (bc_capabilities ctx) = (if ReqEventBus (d_reqs d) then pv_eventBus p else None) \<and>
    handles_from (pv_databaseSource p) dbs \<and> handles_from (pv_rpcSource p) conns \<and>
    confined_handles (map db_name (ReqDatabases (d_reqs d))) (Some (preparedDatabases_GORM dbs)) (Databases (bc_capabilities ctx)) \<and>
    confined_handles (map rpc_name (ReqRPC (d_reqs d))) (Some (preparedRPC_Connection conns)) (RPC (bc_capabilities ctx)) \<and>
    (if ConfigKey (d_reqs d) = [] then Config (bc_capabilities ctx) = None else Config (bc_capabilities ctx) \<noteq> None \<and> pv_config p \<noteq> None)"
proof -
  let ?q = "canonicalRequirements (plan_requirements plan)"
  have "prepare_new p ?q r = (Return None, p', r')"
    using prep new by (auto simp: provider_Prepare_def Let_def split: option.splits prod.splits)
  then obtain dbs conns f where h: "handles_from (pv_databaseSource p) dbs" "handles_from (pv_rpcSource p) conns"
    and p': "pv_delegate p' = Some f" "pv_state p' = providerStatePrepared"
    and f: "Prepare (Some (NewStaticContextFactory \<lparr>Config = pv_config p, Logger = pv_logger p, Databases = Some (preparedDatabases_GORM dbs),
       EventBus = pv_eventBus p, RPC = Some (preparedRPC_Connection conns)\<rparr>)) ?q = (None, Some f)"
    by (rule prepare_new_delegate)
  have "wf_descriptor d" using wf d by (simp add: list_all_iff)
  moreover have "covers ?q d" using plan_requirements_cover [OF d] by (intro covers_canonical) (simp add: covers_def)
  ultimately obtain ctx where ctx: "ForModule (Some f) d = Return (Inr ctx)" "bc_descriptor ctx = d"
    "Logger (bc_capabilities ctx) = (if ReqLogger (d_reqs d) then pv_logger p else None)" "ReqLogger (d_reqs d) \<longrightarrow> pv_logger p \<noteq> None"
    "EventBus (bc_capabilities ctx) = (if ReqEventBus (d_reqs d) then pv_eventBus p else None)"
    "confined_handles (map db_name (ReqDatabases (d_reqs d))) (Some (preparedDatabases_GORM dbs)) (Databases (bc_capabilities ctx))"
    "confined_handles (map rpc_name (ReqRPC (d_reqs d))) (Some (preparedRPC_Connection conns)) (RPC (bc_capabilities ctx))"
    "if ConfigKey (d_reqs d) = [] then Config (bc_capabilities ctx) = None else Config (bc_capabilities ctx) \<noteq> None \<and> pv_config p \<noteq> None"
    using ForModule_covered [OF _ f, of d] by (auto split: if_splits)
  let ?ctx = "ctx\<lparr>bc_capabilities := (bc_capabilities ctx)\<lparr>Logger := newModuleLogger (Logger (bc_capabilities ctx)) (d_name d)\<rparr>\<rparr>"
  have "provider_ForModule (Some p') d = Return (Inr ?ctx)" using ctx(1) p' by (simp add: provider_ForModule_def)
  moreover have "newModuleLogger None (d_name d) = (None :: 'l logger option)" by (simp add: newModuleLogger_def)
  ultimately show ?thesis using h ctx by (intro exI [of _ ?ctx] exI [of _ dbs] exI [of _ conns]) simp
qed

section \<open>Witnesses\<close>

text \<open>A provider with a factory for the database \<open>d\<close>, which counts what is opened and closed, and a plan with a module that needs it.\<close>

definition ex_options_db :: "(unit, nat, string, unit, unit, nat) Options" where
  "ex_options_db = \<lparr>op_Config = None, op_Logger = Some (HostLogger 3), op_EventBus = None,
     op_Databases = [('' d '', Some (\<lambda>n w. (Return (Inr \<lparr>re_handle = Some n, re_Start = None, re_Health = None, re_Shutdown = Some (\<lambda>w. (Return None, w + 1))\<rparr>), w + 1)))],
     op_RPC = [], op_PrepareTimeout = 0\<rparr>"

definition ex_provider :: "(unit, nat, string, unit, unit, nat) Provider" where
  "ex_provider = projr (platform_New ex_options_db)"

definition ex_needs_db :: "unit Plan" where
  "ex_needs_db = empty_plan\<lparr>plan_descriptors := [\<lparr>d_name = ''m'', d_version = [], d_depends = [],
     d_reqs = no_reqs\<lparr>ReqDatabases := [\<lparr>db_name = ''d''\<rparr>], ReqLogger := True\<rparr>, d_provides = [], d_build = Some ()\<rparr>]\<rparr>"

definition ex_prepared :: "(string, goerr option) outcome \<times> (unit, nat, string, unit, unit, nat) Provider option \<times> nat run" where
  "ex_prepared = provider_Prepare (Some ex_provider) (plan_requirements ex_needs_db) \<lparr>rn_world = 0, rn_calls = []\<rparr>"

lemma ex_prepared_ok:
  "case ex_prepared of (e, p, r) \<Rightarrow> e = Return None \<and> p \<noteq> None \<and> pv_state (the p) = providerStatePrepared \<and> rn_calls r = [Builds (AResource ''database:d'') True] \<and>
     map ow_key (pv_resources (the p)) = [''database:d'']"
  by code_simp

lemma ex_provider_honest: "honest_provider ex_provider"
proof -
  have "trim_space '' d '' = ''d''" "moduleNamePattern ''d''" by code_simp+
  then have "pv_databaseSource ex_provider = [(''d'', \<lambda>n w. (Return (Inr \<lparr>re_handle = Some n, re_Start = None, re_Health = None,
      re_Shutdown = Some (\<lambda>w. (Return None, w + 1))\<rparr>), w + 1))]" "pv_rpcSource ex_provider = []"
    by (simp_all add: ex_provider_def ex_options_db_def platform_New_def copyDatabaseFactories_def copyRPCFactories_def Let_def DefaultPrepareTimeout_def)
  then show ?thesis by (simp add: honest_provider_def honest_def split: if_splits)
qed

lemma ex_provider_fresh: "fresh_provider ex_provider"
  unfolding fresh_provider_def by code_simp

theorem provider_views_confined_witness:
  "\<exists>p' r' ctx. provider_Prepare (Some ex_provider) (plan_requirements ex_needs_db) \<lparr>rn_world = 0, rn_calls = []\<rparr> = (Return None, Some p', r') \<and>
     provider_ForModule (Some p') (hd (plan_descriptors ex_needs_db)) = Return (Inr ctx) \<and>
     Logger (bc_capabilities ctx) = Some (ModuleLogger (HostLogger 3) ''m'')"
proof -
  obtain p' r' where run: "provider_Prepare (Some ex_provider) (plan_requirements ex_needs_db) \<lparr>rn_world = 0, rn_calls = []\<rparr> = (Return None, Some p', r')"
    using ex_prepared_ok unfolding ex_prepared_def by (auto split: prod.splits)
  have wf: "list_all wf_descriptor (plan_descriptors ex_needs_db)" by code_simp
  have "pv_state ex_provider = providerStateNew" "pv_logger ex_provider = Some (HostLogger 3)" by code_simp+
  with provider_views_confined [OF wf _ this(1) run, of "hd (plan_descriptors ex_needs_db)"] run show ?thesis
    by (auto simp: ex_needs_db_def newModuleLogger_def)
qed

theorem provider_releases_once_witness:
  "\<exists>p r. pv_reach ex_provider 0 (p, [], r) \<and> pv_state p = providerStateStopped \<and>
     count_list (work r) (Stops (AResource ''database:d'')) = count_list (work r) (Builds (AResource ''database:d'') True) \<and>
     Builds (AResource ''database:d'') True \<in> set (rn_calls r) \<and> Stops (AResource ''database:d'') \<in> set (rn_calls r)"
proof -
  obtain p' r' where run: "provider_Prepare (Some ex_provider) (plan_requirements ex_needs_db) \<lparr>rn_world = 0, rn_calls = []\<rparr> = (Return None, Some p', r')"
    and p': "pv_state p' = providerStatePrepared" "rn_calls r' = [Builds (AResource ''database:d'') True]" "map ow_key (pv_resources p') = [''database:d'']"
    using ex_prepared_ok unfolding ex_prepared_def by (auto split: prod.splits)
  then obtain x where x: "pv_resources p' = [x]" "ow_key x = ''database:d''" by auto
  have "case ex_prepared of (e, p, r) \<Rightarrow> list_all (\<lambda>x. \<not> Option.is_none (ow_shutdown x)) (pv_resources (the p))" by code_simp
  with run x have hook: "ow_shutdown x \<noteq> None" unfolding ex_prepared_def by (auto simp: Option.is_none_def)
  let ?p1 = "p'\<lparr>pv_state := providerStateStopping\<rparr>"
  obtain e r2 where close: "shutdown_one x r' = (e, r2)" by fastforce
  have "pv_reach ex_provider 0 (p', [], r')" using pv_reach.step [OF pv_reach.initial pv_step.prepare [OF run]] .
  moreover have "stop_enter p' = Inr ?p1" by (simp add: stop_enter_def p')
  ultimately have "pv_reach ex_provider 0 (?p1, [] @ [Closing [x] []], r')" using pv_reach.step pv_step.stop x(1) by fastforce
  then have "pv_reach ex_provider 0 (?p1, [] @ Closing [] ([] @ [e]) # [], r2)" using pv_reach.step pv_step.close_next [OF close, of ?p1 "[]" "[]" "[]" "[]"] by simp
  then have reach: "pv_reach ex_provider 0 (?p1\<lparr>pv_state := providerStateStopped, pv_shutdownErr := err_join ([] @ [e])\<rparr>, [] @ [], r2)"
    by (rule pv_reach.step) (rule pv_step.closed)
  have "rn_calls r2 = [Builds (AResource ''database:d'') True, Stops (AResource ''database:d'')]"
    using shutdown_one_calls [OF close] hook x(2) p'(2) by (simp add: stops_def)
  with reach provider_releases_once [OF reach ex_provider_fresh, of "''database:d''"] ex_provider_honest show ?thesis
    by (intro exI [of _ "?p1\<lparr>pv_state := providerStateStopped, pv_shutdownErr := err_join ([] @ [e])\<rparr>"] exI [of _ r2]) simp
qed

text \<open>Without the assumption on the factories: a factory that panics takes \<open>Prepare\<close> with it, and what the factories before it opened stays open.\<close>

definition ex_panicking :: "(unit, nat, string, unit, unit, nat) Provider" where
  "ex_panicking = ex_provider\<lparr>pv_databaseSource := pv_databaseSource ex_provider @ [(''e'', \<lambda>n w. (Panic ''boom'', w))]\<rparr>"

lemma factory_panic_leaks:
  "case provider_Prepare (Some ex_panicking) (no_requirements\<lparr>rs_databases := [\<lparr>db_name = ''d''\<rparr>, \<lparr>db_name = ''e''\<rparr>]\<rparr>) \<lparr>rn_world = 0, rn_calls = []\<rparr> of
     (out, p, r) \<Rightarrow> out = Panic ''boom'' \<and> pv_state (the p) = providerStateNew \<and> map ow_key (pv_resources (the p)) = [] \<and>
       rn_calls r = [Builds (AResource ''database:d'') True]"
  by code_simp

end
