(* ===== verification/Middleware.thy ===== *)
theory Middleware
  imports RuntimeContext Float64
begin

text \<open>
  The transport-neutral middleware chain (\<open>framework/core/middleware/middleware.go\<close>) and what the resilience policies
  share: their errors and keys (\<open>framework/core/resilience/errors.go\<close>, \<open>key.go\<close>).

  A call context carries its metadata, its deadline, the time at which its caller cancels it, if it does, and the attempt
  number; its error is a function of the time. A handler maps a context and a world to an error or a panic and a new
  world; it may change the world in any way, so that what other goroutines do meanwhile is part of what the next handler
  does.
\<close>

section \<open>Call contexts\<close>

record call_ctx =
  cc_metadata :: "Metadata option"
  cc_deadline :: "int option"
  cc_cancel :: "int option"
  cc_attempt :: int

definition ErrCanceled :: goerr where "ErrCanceled = Err ''context canceled'' []"
definition ErrDeadlineExceeded :: goerr where "ErrDeadlineExceeded = Err ''context deadline exceeded'' []"

definition background_ctx :: call_ctx where
  "background_ctx = \<lparr>cc_metadata = None, cc_deadline = None, cc_cancel = None, cc_attempt = 0\<rparr>"

fun reached :: "int \<Rightarrow> int option \<Rightarrow> bool" where
  "reached now None = False"
| "reached now (Some t) = (t \<le> now)"

text \<open>\<open>ctx.Err()\<close>: the first of cancellation and deadline to have come.\<close>

definition ctx_err :: "int \<Rightarrow> call_ctx \<Rightarrow> goerr option" where
  "ctx_err now c =
     (case (cc_cancel c, cc_deadline c) of
        (Some a, Some d) \<Rightarrow> if a \<le> now \<and> a < d then Some ErrCanceled else if d \<le> now then Some ErrDeadlineExceeded else None
      | (Some a, None) \<Rightarrow> if a \<le> now then Some ErrCanceled else None
      | (None, Some d) \<Rightarrow> if d \<le> now then Some ErrDeadlineExceeded else None
      | (None, None) \<Rightarrow> None)"

lemma ctx_err_iff: "ctx_err now c \<noteq> None \<longleftrightarrow> reached now (cc_cancel c) \<or> reached now (cc_deadline c)"
  by (auto simp: ctx_err_def split: option.split)

text \<open>The metadata of a call, as \<open>runtimecontext.MetadataFrom\<close> returns it.\<close>

definition call_metadata :: "call_ctx \<Rightarrow> Metadata \<times> bool" where
  "call_metadata c = (case cc_metadata c of None \<Rightarrow> (no_metadata, False) | Some m \<Rightarrow> (m, True))"

section \<open>Handlers and chains\<close>

type_synonym 'w handler = "call_ctx \<Rightarrow> 'w \<Rightarrow> (string, goerr option) outcome \<times> 'w"
type_synonym 'w middleware = "'w handler \<Rightarrow> 'w handler"

record 'w Chain = middlewares :: "'w middleware list"

definition chain_Use :: "'w Chain \<Rightarrow> 'w middleware option list \<Rightarrow> 'w Chain" where
  "chain_Use chain ms = \<lparr>middlewares = middlewares chain @ some_values ms\<rparr>"

definition chain_New :: "'w middleware option list \<Rightarrow> 'w Chain" where
  "chain_New ms = chain_Use \<lparr>middlewares = []\<rparr> ms"

definition chain_Then :: "'w Chain \<Rightarrow> 'w handler option \<Rightarrow> 'w handler" where
  "chain_Then chain final =
     fold (\<lambda>m wrapped. m wrapped) (rev (middlewares chain)) (case final of None \<Rightarrow> (\<lambda>ctx w. (Return None, w)) | Some h \<Rightarrow> h)"

definition chain_Handle :: "'w Chain \<Rightarrow> call_ctx option \<Rightarrow> 'w handler option \<Rightarrow> 'w \<Rightarrow> (string, goerr option) outcome \<times> 'w" where
  "chain_Handle chain ctx final = chain_Then chain final (case ctx of None \<Rightarrow> background_ctx | Some c \<Rightarrow> c)"

lemma chain_Then_foldr: "chain_Then \<lparr>middlewares = ms\<rparr> (Some h) = foldr (\<lambda>m wrapped. m wrapped) ms h"
  by (simp add: chain_Then_def foldr_conv_fold)

section \<open>Errors and keys of the policies\<close>

definition ErrTimeoutBudgetExceeded :: goerr where "ErrTimeoutBudgetExceeded = Err ''resilience: timeout budget exceeded'' []"
definition ErrCircuitOpen :: goerr where "ErrCircuitOpen = Err ''resilience: circuit open'' []"
definition ErrRateLimited :: goerr where "ErrRateLimited = Err ''resilience: rate limited'' []"
definition ErrLoadShed :: goerr where "ErrLoadShed = Err ''resilience: load shed'' []"

text \<open>A \<open>*Rejection\<close> unwraps to its cause: policy and key are the arguments of the wrapping.\<close>

definition reject :: "string \<Rightarrow> string \<Rightarrow> goerr \<Rightarrow> goerr" where
  "reject policy key err = Wrap ''%s[%s]: %v'' [policy, key] err"

definition defaultPolicyKey :: string where "defaultPolicyKey = ''default''"

definition OperationKey :: "call_ctx \<Rightarrow> string" where
  "OperationKey ctx =
     (let (m, ok) = call_metadata ctx in
      if \<not> ok then defaultPolicyKey
      else case find (\<lambda>v. v \<noteq> []) (map trim_space [md_operation m, md_method m, md_route m, md_service m]) of
             Some value \<Rightarrow> value
           | None \<Rightarrow> defaultPolicyKey)"

definition resolveKey :: "call_ctx \<Rightarrow> (call_ctx \<Rightarrow> string) option \<Rightarrow> string" where
  "resolveKey ctx keyFn =
     (let key = trim_space ((case keyFn of None \<Rightarrow> OperationKey | Some f \<Rightarrow> f) ctx) in
      if key = [] then defaultPolicyKey else key)"

lemma resolveKey_nonempty: "resolveKey ctx keyFn \<noteq> []"
  by (simp add: resolveKey_def Let_def defaultPolicyKey_def)

text \<open>\<open>SelectorFeedback\<close> (\<open>selector.go\<close>): the rejections of the policies and a cancellation say nothing about a node.\<close>

datatype SelectorOutcome = SelectorSuccess | SelectorIgnore | SelectorFailure

definition SelectorFeedback :: "goerr option \<Rightarrow> SelectorOutcome" where
  "SelectorFeedback err =
     (case err of
        None \<Rightarrow> SelectorSuccess
      | Some e \<Rightarrow>
          if err_is e ErrCanceled \<or> err_is e ErrTimeoutBudgetExceeded \<or> err_is e ErrCircuitOpen \<or> err_is e ErrRateLimited \<or>
             err_is e ErrLoadShed then SelectorIgnore
          else SelectorFailure)"

lemma SelectorFeedback_reject:
  "cause \<in> {ErrTimeoutBudgetExceeded, ErrCircuitOpen, ErrRateLimited, ErrLoadShed} \<Longrightarrow>
     SelectorFeedback (Some (reject policy key cause)) = SelectorIgnore"
  by (auto simp: SelectorFeedback_def reject_def ErrTimeoutBudgetExceeded_def ErrCircuitOpen_def ErrRateLimited_def ErrLoadShed_def)

end
