(* ===== verification/Breaker.thy ===== *)
theory Breaker
  imports Middleware
begin

text \<open>
  The circuit breaker (\<open>framework/core/resilience/breaker.go\<close>). Each of its methods holds the mutex, so concurrent calls
  are a sequence of \<open>allow\<close> and \<open>complete\<close> steps, with the time each of them reads. The judgement of an error
  (\<open>IsFailure\<close>) is part of the configuration.
\<close>

section \<open>State and operations\<close>

datatype CircuitState = CircuitClosed | CircuitOpen | CircuitHalfOpen

record CircuitBreakerConfig =
  cb_Enabled :: bool
  FailureThreshold :: int
  SuccessThreshold :: int
  OpenTimeout :: int
  HalfOpenMaxRequests :: int
  IsFailure :: "(goerr option \<Rightarrow> bool) option"

record CircuitBreaker =
  cb_config :: CircuitBreakerConfig
  cb_state :: CircuitState
  cb_failures :: int
  cb_successes :: int
  cb_halfOpenInFlight :: int
  cb_openedAt :: int

record CircuitSnapshot =
  cs_State :: CircuitState
  cs_Failures :: int
  cs_Successes :: int
  cs_HalfOpenInFlight :: int
  cs_OpenedAt :: int

definition default_IsFailure :: "goerr option \<Rightarrow> bool" where
  "default_IsFailure err = (case err of None \<Rightarrow> False | Some e \<Rightarrow> \<not> err_is e ErrCanceled)"

definition normalizeCircuitConfig :: "CircuitBreakerConfig \<Rightarrow> CircuitBreakerConfig" where
  "normalizeCircuitConfig c =
     c\<lparr>FailureThreshold := (if FailureThreshold c \<le> 0 then 5 else FailureThreshold c),
       SuccessThreshold := (if SuccessThreshold c \<le> 0 then 2 else SuccessThreshold c),
       OpenTimeout := (if OpenTimeout c \<le> 0 then 30000000000 else OpenTimeout c),
       HalfOpenMaxRequests := (if HalfOpenMaxRequests c \<le> 0 then 1 else HalfOpenMaxRequests c),
       IsFailure := Some (case IsFailure c of None \<Rightarrow> default_IsFailure | Some f \<Rightarrow> f)\<rparr>"

definition NewCircuitBreaker :: "CircuitBreakerConfig \<Rightarrow> CircuitBreaker" where
  "NewCircuitBreaker config =
     \<lparr>cb_config = normalizeCircuitConfig config, cb_state = CircuitClosed, cb_failures = 0, cb_successes = 0,
      cb_halfOpenInFlight = 0, cb_openedAt = 0\<rparr>"

definition is_failure :: "CircuitBreaker \<Rightarrow> goerr option \<Rightarrow> bool" where
  "is_failure b err = (case IsFailure (cb_config b) of None \<Rightarrow> default_IsFailure err | Some f \<Rightarrow> f err)"

definition openLocked :: "int \<Rightarrow> CircuitBreaker \<Rightarrow> CircuitBreaker" where
  "openLocked now b =
     b\<lparr>cb_state := CircuitOpen, cb_openedAt := now, cb_failures := 0, cb_successes := 0, cb_halfOpenInFlight := 0\<rparr>"

text \<open>The move from open to half-open when the timeout has passed.\<close>

definition half_open :: "int \<Rightarrow> CircuitBreaker \<Rightarrow> CircuitBreaker" where
  "half_open now b =
     (if cb_state b = CircuitOpen \<and> OpenTimeout (cb_config b) \<le> now - cb_openedAt b
      then b\<lparr>cb_state := CircuitHalfOpen, cb_successes := 0, cb_halfOpenInFlight := 0\<rparr> else b)"

definition allow :: "int \<Rightarrow> CircuitBreaker \<Rightarrow> bool \<times> CircuitBreaker" where
  "allow now b0 =
     (let b = half_open now b0 in
      case cb_state b of
        CircuitClosed \<Rightarrow> (True, b)
      | CircuitOpen \<Rightarrow> (False, b)
      | CircuitHalfOpen \<Rightarrow>
          if HalfOpenMaxRequests (cb_config b) \<le> cb_halfOpenInFlight b then (False, b)
          else (True, b\<lparr>cb_halfOpenInFlight := cb_halfOpenInFlight b + 1\<rparr>))"

definition complete :: "int \<Rightarrow> goerr option \<Rightarrow> CircuitBreaker \<Rightarrow> CircuitBreaker" where
  "complete now err b =
     (case cb_state b of
        CircuitClosed \<Rightarrow>
          if is_failure b err then
            (let b = b\<lparr>cb_failures := cb_failures b + 1, cb_successes := 0\<rparr> in
             if FailureThreshold (cb_config b) \<le> cb_failures b then openLocked now b else b)
          else b\<lparr>cb_failures := 0\<rparr>
      | CircuitHalfOpen \<Rightarrow>
          (let b = b\<lparr>cb_halfOpenInFlight := (if 0 < cb_halfOpenInFlight b then cb_halfOpenInFlight b - 1 else cb_halfOpenInFlight b)\<rparr> in
           if is_failure b err then openLocked now b
           else
             (let b = b\<lparr>cb_successes := cb_successes b + 1\<rparr> in
              if SuccessThreshold (cb_config b) \<le> cb_successes b
              then b\<lparr>cb_state := CircuitClosed, cb_failures := 0, cb_successes := 0, cb_openedAt := 0\<rparr> else b))
      | CircuitOpen \<Rightarrow> b)"

definition breaker_Snapshot :: "CircuitBreaker option \<Rightarrow> CircuitSnapshot" where
  "breaker_Snapshot b =
     (case b of
        None \<Rightarrow> \<lparr>cs_State = CircuitClosed, cs_Failures = 0, cs_Successes = 0, cs_HalfOpenInFlight = 0, cs_OpenedAt = 0\<rparr>
      | Some b \<Rightarrow> \<lparr>cs_State = cb_state b, cs_Failures = cb_failures b, cs_Successes = cb_successes b,
                   cs_HalfOpenInFlight = cb_halfOpenInFlight b, cs_OpenedAt = cb_openedAt b\<rparr>)"

section \<open>Histories\<close>

datatype breaker_op = BAllow int | BComplete int "goerr option"

fun breaker_step :: "breaker_op \<Rightarrow> CircuitBreaker \<Rightarrow> CircuitBreaker" where
  "breaker_step (BAllow now) b = snd (allow now b)"
| "breaker_step (BComplete now err) b = complete now err b"

definition breaker_run :: "breaker_op list \<Rightarrow> CircuitBreaker \<Rightarrow> CircuitBreaker" where
  "breaker_run ops b = fold breaker_step ops b"

lemma half_open_config [simp]: "cb_config (half_open now b) = cb_config b"
  by (simp add: half_open_def)

lemma openLocked_simps [simp]:
  "cb_config (openLocked now b) = cb_config b" "cb_state (openLocked now b) = CircuitOpen" "cb_openedAt (openLocked now b) = now"
  "cb_failures (openLocked now b) = 0" "cb_successes (openLocked now b) = 0" "cb_halfOpenInFlight (openLocked now b) = 0"
  by (simp_all add: openLocked_def)

lemma allow_config [simp]: "cb_config (snd (allow now b)) = cb_config b"
  by (simp add: allow_def Let_def split: CircuitState.split)

lemma complete_config [simp]: "cb_config (complete now err b) = cb_config b"
  by (simp add: complete_def Let_def split: CircuitState.split)

lemma breaker_step_config [simp]: "cb_config (breaker_step op b) = cb_config b"
  by (cases op) simp_all

lemma breaker_run_config [simp]: "cb_config (breaker_run ops b) = cb_config b"
  unfolding breaker_run_def by (induction ops arbitrary: b) simp_all

text \<open>The counters of each state and their bounds.\<close>

definition breaker_inv :: "CircuitBreaker \<Rightarrow> bool" where
  "breaker_inv b \<longleftrightarrow>
     (case cb_state b of
        CircuitClosed \<Rightarrow> 0 \<le> cb_failures b \<and> cb_failures b < FailureThreshold (cb_config b) \<and> cb_openedAt b = 0
      | CircuitOpen \<Rightarrow> cb_failures b = 0 \<and> cb_successes b = 0 \<and> cb_halfOpenInFlight b = 0
      | CircuitHalfOpen \<Rightarrow> 0 \<le> cb_halfOpenInFlight b \<and> cb_halfOpenInFlight b \<le> HalfOpenMaxRequests (cb_config b) \<and>
          0 \<le> cb_successes b \<and> cb_successes b < SuccessThreshold (cb_config b) \<and> cb_failures b = 0)"

definition good_config :: "CircuitBreakerConfig \<Rightarrow> bool" where
  "good_config c \<longleftrightarrow> 0 < FailureThreshold c \<and> 0 < SuccessThreshold c \<and> 0 < OpenTimeout c \<and> 0 < HalfOpenMaxRequests c"

lemma normalize_good: "good_config (normalizeCircuitConfig c)"
  by (simp add: good_config_def normalizeCircuitConfig_def)

lemma breaker_step_inv: "good_config (cb_config b) \<Longrightarrow> breaker_inv b \<Longrightarrow> breaker_inv (breaker_step op b)"
  by (cases op; cases "cb_state b")
     (auto simp: breaker_inv_def good_config_def allow_def half_open_def complete_def openLocked_def Let_def)

lemma breaker_run_inv: "good_config (cb_config b) \<Longrightarrow> breaker_inv b \<Longrightarrow> breaker_inv (breaker_run ops b)"
  unfolding breaker_run_def by (induction ops arbitrary: b) (simp_all add: breaker_step_inv)

lemma new_breaker_inv: "breaker_inv (NewCircuitBreaker config)"
  using normalize_good [of config] by (simp add: NewCircuitBreaker_def breaker_inv_def good_config_def)

text \<open>The counters of a breaker with any history are within their bounds: while closed, fewer failures than the
  threshold; while half-open, at most \<open>HalfOpenMaxRequests\<close> slots taken and fewer successes than the threshold; while
  open, all counters zero.\<close>

theorem breaker_counters: "breaker_inv (breaker_run ops (NewCircuitBreaker config))"
  using breaker_run_inv new_breaker_inv normalize_good [of config] by (simp add: NewCircuitBreaker_def)

section \<open>An open breaker\<close>

text \<open>Property C33: an open breaker refuses every call until its timeout has passed. Whatever completions of earlier calls
  arrive meanwhile, its state does not change, and each \<open>allow\<close> before the end of the timeout returns false.\<close>

theorem breaker_open_refuses:
  assumes "cb_state b = CircuitOpen"
    and "\<forall>now. BAllow now \<in> set ops \<longrightarrow> now - cb_openedAt b < OpenTimeout (cb_config b)"
  shows "breaker_run ops b = b \<and> (\<forall>now. BAllow now \<in> set ops \<longrightarrow> \<not> fst (allow now b))"
proof -
  have refuse: "allow now b = (False, b)" if "BAllow now \<in> set ops" for now
    using assms that by (auto simp: allow_def half_open_def)
  have "breaker_step op b = b" if op: "op \<in> set ops" for op
  proof (cases op)
    case (BAllow now) with op refuse show ?thesis by simp
  next
    case (BComplete now err) with assms(1) show ?thesis by (simp add: complete_def)
  qed
  then have "breaker_run ops b = b" unfolding breaker_run_def by (induction ops) simp_all
  with refuse show ?thesis by simp
qed

section \<open>Tripping\<close>

text \<open>The reference: the results of a sequence of calls as booleans (true for a failure) and the number of failures in a
  row at its end.\<close>

fun trailing :: "bool list \<Rightarrow> int" where
  "trailing [] = 0"
| "trailing (f # fs) = (if f then trailing fs + 1 else 0)"

fun outcomes :: "CircuitBreaker \<Rightarrow> breaker_op list \<Rightarrow> bool list" where
  "outcomes b [] = []"
| "outcomes b (BAllow now # ops) = outcomes b ops"
| "outcomes b (BComplete now err # ops) = is_failure b err # outcomes b ops"

text \<open>The latest results come first: no suffix of the history, seen from any point of it, has \<open>n\<close> failures in a row.\<close>

fun calm :: "int \<Rightarrow> bool list \<Rightarrow> bool" where
  "calm n [] = (0 < n)"
| "calm n (f # fs) = (trailing (f # fs) < n \<and> calm n fs)"

lemma is_failure_cong: "cb_config b = cb_config b' \<Longrightarrow> is_failure b = is_failure b'"
  by (simp add: is_failure_def fun_eq_iff)

lemma outcomes_append: "outcomes b (xs @ ys) = outcomes b xs @ outcomes b ys"
  by (induction b xs rule: outcomes.induct) simp_all

lemma calm_closed:
  "calm (FailureThreshold (cb_config (NewCircuitBreaker config))) (rev (outcomes (NewCircuitBreaker config) ops)) \<Longrightarrow>
     cb_state (breaker_run ops (NewCircuitBreaker config)) = CircuitClosed \<and>
     cb_failures (breaker_run ops (NewCircuitBreaker config)) = trailing (rev (outcomes (NewCircuitBreaker config) ops))"
proof (induction ops rule: rev_induct)
  case Nil
  then show ?case by (simp add: breaker_run_def NewCircuitBreaker_def)
next
  case (snoc op ops)
  let ?b0 = "NewCircuitBreaker config"
  have run: "breaker_run (ops @ [op]) ?b0 = breaker_step op (breaker_run ops ?b0)" by (simp add: breaker_run_def)
  show ?case
  proof (cases op)
    case (BAllow now)
    with snoc show ?thesis unfolding run by (simp add: outcomes_append allow_def half_open_def)
  next
    case (BComplete now err)
    with snoc have IH: "cb_state (breaker_run ops ?b0) = CircuitClosed"
      "cb_failures (breaker_run ops ?b0) = trailing (rev (outcomes ?b0 ops))" by (simp_all add: outcomes_append)
    have "is_failure (breaker_run ops ?b0) err = is_failure ?b0 err" by (metis breaker_run_config is_failure_cong)
    with BComplete snoc.prems IH show ?thesis unfolding run by (auto simp: outcomes_append complete_def)
  qed
qed

text \<open>A new breaker trips exactly at the first \<open>FailureThreshold\<close> failures in a row. As long as no such run has
  been reported it is closed and lets every call through, whatever calls are admitted meanwhile; the next result opens it,
  at the time it is reported, exactly when it completes the run.\<close>

theorem breaker_trips:
  assumes "calm (FailureThreshold (normalizeCircuitConfig config)) (rev (outcomes (NewCircuitBreaker config) ops))"
  defines "b \<equiv> breaker_run ops (NewCircuitBreaker config)"
  shows "cb_state b = CircuitClosed \<and> (\<forall>t. fst (allow t b)) \<and>
    (cb_state (complete now err b) = CircuitOpen \<longleftrightarrow>
       FailureThreshold (normalizeCircuitConfig config) \<le>
         trailing (is_failure (NewCircuitBreaker config) err # rev (outcomes (NewCircuitBreaker config) ops))) \<and>
    (cb_state (complete now err b) = CircuitOpen \<longrightarrow> cb_openedAt (complete now err b) = now)"
proof -
  have cfg: "cb_config (NewCircuitBreaker config) = normalizeCircuitConfig config" by (simp add: NewCircuitBreaker_def)
  have st: "cb_state b = CircuitClosed" "cb_failures b = trailing (rev (outcomes (NewCircuitBreaker config) ops))" "cb_config b = normalizeCircuitConfig config"
    using calm_closed [of config ops] assms by (simp_all add: cfg b_def)
  have "is_failure b err = is_failure (NewCircuitBreaker config) err" by (rule fun_cong [OF is_failure_cong]) (simp add: st cfg)
  moreover have "0 < FailureThreshold (normalizeCircuitConfig config)" using normalize_good by (simp add: good_config_def)
  ultimately show ?thesis using st by (auto simp: allow_def half_open_def complete_def Let_def)
qed

section \<open>Recovery\<close>

definition probe :: "int \<Rightarrow> goerr option \<Rightarrow> CircuitBreaker \<Rightarrow> CircuitBreaker" where
  "probe now err b = complete now err (snd (allow now b))"

lemma probe_half_open:
  assumes "cb_state b = CircuitHalfOpen" "cb_halfOpenInFlight b = 0" "0 < HalfOpenMaxRequests (cb_config b)"
    and "\<not> is_failure b err" "cb_successes b + 1 < SuccessThreshold (cb_config b)"
  shows "fst (allow now b) \<and> cb_state (probe now err b) = CircuitHalfOpen \<and> cb_halfOpenInFlight (probe now err b) = 0 \<and>
    cb_successes (probe now err b) = cb_successes b + 1 \<and> cb_config (probe now err b) = cb_config b"
  using assms by (simp add: probe_def allow_def half_open_def complete_def is_failure_def Let_def)

lemma probes_half_open:
  assumes "cb_state b = CircuitHalfOpen" "cb_halfOpenInFlight b = 0" "0 < HalfOpenMaxRequests (cb_config b)"
    and "\<not> is_failure b err" "cb_successes b + int n < SuccessThreshold (cb_config b)"
  shows "cb_state ((probe now err ^^ n) b) = CircuitHalfOpen \<and> cb_halfOpenInFlight ((probe now err ^^ n) b) = 0 \<and>
    cb_successes ((probe now err ^^ n) b) = cb_successes b + int n \<and> cb_config ((probe now err ^^ n) b) = cb_config b"
  using assms(5)
proof (induction n)
  case (Suc n)
  let ?b = "(probe now err ^^ n) b"
  from Suc have IH: "cb_state ?b = CircuitHalfOpen" "cb_halfOpenInFlight ?b = 0" "cb_successes ?b = cb_successes b + int n" "cb_config ?b = cb_config b"
    by simp_all
  have "\<not> is_failure ?b err" using assms(4) is_failure_cong [OF IH(4)] by simp
  from probe_half_open [OF IH(1,2) _ this] IH assms(3) Suc.prems show ?case by simp
qed (use assms in simp)

text \<open>An open breaker recovers. Once the timeout has passed, \<open>SuccessThreshold\<close> successful probes in a row are
  admitted and close it with all counters reset, while a failed probe opens it again from the moment it fails.\<close>

theorem breaker_recovers:
  assumes "cb_state b = CircuitOpen" and "good_config (cb_config b)" and "OpenTimeout (cb_config b) \<le> now - cb_openedAt b"
    and "\<not> is_failure b ok"
  shows "cb_state ((probe now ok ^^ nat (SuccessThreshold (cb_config b))) b) = CircuitClosed \<and>
    cb_failures ((probe now ok ^^ nat (SuccessThreshold (cb_config b))) b) = 0 \<and>
    (is_failure b err \<longrightarrow> fst (allow now b) \<and> cb_state (probe now err b) = CircuitOpen \<and> cb_openedAt (probe now err b) = now)"
proof -
  define n where "n = nat (SuccessThreshold (cb_config b) - 1)"
  have n: "nat (SuccessThreshold (cb_config b)) = Suc n" "int n = SuccessThreshold (cb_config b) - 1"
    using assms(2) unfolding good_config_def n_def by linarith+
  let ?h = "b\<lparr>cb_state := CircuitHalfOpen, cb_successes := 0, cb_halfOpenInFlight := 0\<rparr>"
  have first: "allow now b = allow now ?h" using assms(1,3) by (simp add: allow_def half_open_def)
  then have probe1: "probe now e b = probe now e ?h" for e by (simp add: probe_def)
  have "(probe now ok ^^ Suc n) b = probe now ok ((probe now ok ^^ n) ?h)"
    by (cases n) (simp_all add: probe1 funpow_swap1 funpow_Suc_right del: funpow.simps(2))
  moreover have h: "cb_state ((probe now ok ^^ n) ?h) = CircuitHalfOpen \<and> cb_halfOpenInFlight ((probe now ok ^^ n) ?h) = 0 \<and>
      cb_successes ((probe now ok ^^ n) ?h) = int n \<and> cb_config ((probe now ok ^^ n) ?h) = cb_config b"
    using probes_half_open [of ?h ok n now] assms(2,4) n(2) by (simp add: good_config_def is_failure_def)
  moreover have "\<not> is_failure ((probe now ok ^^ n) ?h) ok" using assms(4) h by (simp add: is_failure_def)
  ultimately have "cb_state ((probe now ok ^^ Suc n) b) = CircuitClosed \<and> cb_failures ((probe now ok ^^ Suc n) b) = 0"
    using n(2) assms(2) by (simp add: probe_def [of now ok "(probe now ok ^^ n) ?h"] allow_def half_open_def complete_def good_config_def is_failure_def Let_def)
  moreover have "is_failure b err \<longrightarrow> fst (allow now b) \<and> cb_state (probe now err b) = CircuitOpen \<and> cb_openedAt (probe now err b) = now"
    using assms(1-3) by (simp add: probe_def allow_def half_open_def complete_def good_config_def is_failure_def Let_def)
  ultimately show ?thesis unfolding n(1) by blast
qed

section \<open>Witnesses\<close>

definition ex_circuit :: CircuitBreakerConfig where
  "ex_circuit = \<lparr>cb_Enabled = True, FailureThreshold = 2, SuccessThreshold = 3, OpenTimeout = 10, HalfOpenMaxRequests = 1, IsFailure = None\<rparr>"

definition ex_opened :: CircuitBreaker where
  "ex_opened = breaker_run [BComplete 1 (Some ErrLoadShed), BComplete 2 (Some ErrLoadShed)] (NewCircuitBreaker ex_circuit)"

lemma ex_opened_open: "cb_state ex_opened = CircuitOpen" "cb_openedAt ex_opened = 2" "OpenTimeout (cb_config ex_opened) = 10"
  "good_config (cb_config ex_opened)" "\<not> is_failure ex_opened None" "SuccessThreshold (cb_config ex_opened) = 3"
  by code_simp+

theorem breaker_open_refuses_witness:
  "breaker_run [BAllow 5, BComplete 6 None, BAllow 11] ex_opened = ex_opened \<and> \<not> fst (allow 11 ex_opened)"
  using breaker_open_refuses [OF ex_opened_open(1), of "[BAllow 5, BComplete 6 None, BAllow 11]"] by (auto simp: ex_opened_open)

theorem breaker_trips_witness:
  "cb_state (breaker_run [BAllow 1, BComplete 2 (Some ErrLoadShed)] (NewCircuitBreaker ex_circuit)) = CircuitClosed \<and>
   cb_state (complete 3 (Some ErrLoadShed) (breaker_run [BAllow 1, BComplete 2 (Some ErrLoadShed)] (NewCircuitBreaker ex_circuit))) = CircuitOpen"
proof -
  let ?ops = "[BAllow 1, BComplete 2 (Some ErrLoadShed)]"
  have "calm (FailureThreshold (normalizeCircuitConfig ex_circuit)) (rev (outcomes (NewCircuitBreaker ex_circuit) ?ops))" by code_simp
  moreover have "FailureThreshold (normalizeCircuitConfig ex_circuit) \<le>
      trailing (is_failure (NewCircuitBreaker ex_circuit) (Some ErrLoadShed) # rev (outcomes (NewCircuitBreaker ex_circuit) ?ops))" by code_simp
  ultimately show ?thesis using breaker_trips [of ex_circuit ?ops 3 "Some ErrLoadShed"] by blast
qed

theorem breaker_recovers_witness: "cb_state ((probe 12 None ^^ 3) ex_opened) = CircuitClosed"
  using breaker_recovers [OF ex_opened_open(1) ex_opened_open(4), of 12 None None] by (simp add: ex_opened_open)

text \<open>The slots of a half-open breaker are not tied to the calls that took them: the completion of a call that was admitted
  before the breaker opened frees the slot of a probe that is still running, and a second probe is admitted beside it
  although \<open>HalfOpenMaxRequests\<close> is one.\<close>

lemma stale_completion_frees_slot:
  "let b1 = breaker_run [BAllow 1, BAllow 1, BAllow 1, BComplete 1 (Some ErrLoadShed), BComplete 2 (Some ErrLoadShed)] (NewCircuitBreaker ex_circuit);
       (first, b2) = allow 12 b1;
       (second, b3) = allow 13 (complete 13 None b2)
   in HalfOpenMaxRequests (cb_config b1) = 1 \<and> first \<and> second"
  by code_simp

end
