(* ===== verification/RateLimit.thy ===== *)
theory RateLimit
  imports Middleware
begin

text \<open>
  The token bucket (\<open>framework/core/resilience/ratelimit.go\<close>). Tokens, rates and costs are doubles; the arithmetic of a
  refill is rounded operation by operation as the code computes it. \<open>Allow\<close> holds the mutex of the bucket, so concurrent
  calls are a sequence of calls with the time and the cost each of them reads.
\<close>

section \<open>State and operations\<close>

record RateLimitConfig =
  rl_Enabled :: bool
  Rate :: rat
  Burst :: int

record TokenBucket =
  tb_config :: RateLimitConfig
  tb_tokens :: rat
  tb_last :: int

record RateLimitSnapshot =
  rs_Tokens :: rat
  rs_Burst :: int
  rs_Rate :: rat

text \<open>The cost function of a configuration is applied by the caller: \<open>cost\<close> is what \<open>config.Cost(ctx)\<close> returns, 1 when the
  configuration has none.\<close>

definition NewTokenBucket :: "int \<Rightarrow> RateLimitConfig \<Rightarrow> TokenBucket" where
  "NewTokenBucket now config =
     (let config = config\<lparr>Burst := (if Burst config \<le> 0 then 1 else Burst config)\<rparr> in
      \<lparr>tb_config = config, tb_tokens = f64_of_int (Burst config), tb_last = now\<rparr>)"

text \<open>\<open>Duration.Seconds\<close>: the whole seconds plus the rest divided by 1e9.\<close>

definition Seconds :: "int \<Rightarrow> rat" where
  "Seconds d =
     (let sec = (if 0 \<le> d then d div 1000000000 else - (- d div 1000000000)); nsec = d - sec * 1000000000 in
      f64_add (f64_of_int sec) (f64_div (f64_of_int nsec) 1000000000))"

definition refill :: "int \<Rightarrow> TokenBucket \<Rightarrow> TokenBucket" where
  "refill now b =
     (let elapsed = Seconds (now - tb_last b) in
      if 0 < elapsed then
        (let tokens = f64_add (tb_tokens b) (f64_mul elapsed (Rate (tb_config b)));
             tokens = (if f64_of_int (Burst (tb_config b)) < tokens then f64_of_int (Burst (tb_config b)) else tokens)
         in b\<lparr>tb_tokens := tokens, tb_last := now\<rparr>)
      else b)"

definition bucket_Allow :: "int \<Rightarrow> rat \<Rightarrow> TokenBucket option \<Rightarrow> bool \<times> TokenBucket option" where
  "bucket_Allow now cost bucket =
     (case bucket of
        None \<Rightarrow> (True, None)
      | Some b \<Rightarrow>
          if \<not> rl_Enabled (tb_config b) \<or> Rate (tb_config b) \<le> 0 then (True, Some b)
          else if cost \<le> 0 then (True, Some b)
          else
            (let b = refill now b in
             if tb_tokens b < cost then (False, Some b)
             else (True, Some (b\<lparr>tb_tokens := f64_sub (tb_tokens b) cost\<rparr>))))"

definition bucket_Snapshot :: "TokenBucket option \<Rightarrow> RateLimitSnapshot" where
  "bucket_Snapshot bucket =
     (case bucket of
        None \<Rightarrow> \<lparr>rs_Tokens = 0, rs_Burst = 0, rs_Rate = 0\<rparr>
      | Some b \<Rightarrow> \<lparr>rs_Tokens = tb_tokens b, rs_Burst = Burst (tb_config b), rs_Rate = Rate (tb_config b)\<rparr>)"

section \<open>Histories\<close>

text \<open>A history is the list of the calls with their time and cost.\<close>

definition bucket_run :: "(int \<times> rat) list \<Rightarrow> TokenBucket \<Rightarrow> TokenBucket" where
  "bucket_run calls b = fold (\<lambda>(now, cost) b. case snd (bucket_Allow now cost (Some b)) of None \<Rightarrow> b | Some b' \<Rightarrow> b') calls b"

definition bucket_inv :: "TokenBucket \<Rightarrow> bool" where
  "bucket_inv b \<longleftrightarrow> 0 \<le> tb_tokens b \<and> tb_tokens b \<le> f64_of_int (Burst (tb_config b))"

lemma refill_inv: "bucket_inv b \<Longrightarrow> 0 \<le> Rate (tb_config b) \<Longrightarrow> bucket_inv (refill now b) \<and> tb_config (refill now b) = tb_config b"
  by (auto simp: refill_def bucket_inv_def Let_def f64_add_def f64_mul_def f64_nonneg f64_of_int_def)

lemma take_inv: "bucket_inv b \<Longrightarrow> 0 \<le> cost \<Longrightarrow> cost \<le> tb_tokens b \<Longrightarrow> bucket_inv (b\<lparr>tb_tokens := f64_sub (tb_tokens b) cost\<rparr>)"
proof -
  assume b: "bucket_inv b" "0 \<le> cost" "cost \<le> tb_tokens b"
  then have "tb_tokens b - cost \<le> f64_of_int (Burst (tb_config b))" by (simp add: bucket_inv_def)
  from f64_mono [OF this] b show ?thesis by (simp add: bucket_inv_def f64_sub_def f64_nonneg f64_of_int_def)
qed

lemma allow_inv:
  assumes "bucket_inv b"
  shows "\<exists>b'. snd (bucket_Allow now cost (Some b)) = Some b' \<and> bucket_inv b' \<and> tb_config b' = tb_config b"
proof (cases "rl_Enabled (tb_config b) \<and> 0 < Rate (tb_config b) \<and> 0 < cost")
  case True
  have r: "bucket_inv (refill now b)" "tb_config (refill now b) = tb_config b" using refill_inv [OF assms, of now] True by simp_all
  have "bucket_inv ((refill now b)\<lparr>tb_tokens := f64_sub (tb_tokens (refill now b)) cost\<rparr>)" if "\<not> tb_tokens (refill now b) < cost"
    using take_inv [OF r(1), of cost] that True by simp
  with r True show ?thesis by (simp add: bucket_Allow_def Let_def)
qed (use assms in \<open>auto simp: bucket_Allow_def\<close>)

lemma bucket_run_inv: "bucket_inv b \<Longrightarrow> bucket_inv (bucket_run calls b) \<and> tb_config (bucket_run calls b) = tb_config b"
proof (induction calls arbitrary: b)
  case (Cons c calls)
  obtain now cost where c: "c = (now, cost)" by fastforce
  from allow_inv [OF Cons.prems, of now cost] obtain b' where
    b': "snd (bucket_Allow now cost (Some b)) = Some b'" "bucket_inv b'" "tb_config b' = tb_config b" by blast
  from Cons.IH [OF b'(2)] b' show ?case by (simp add: bucket_run_def c)
qed (simp add: bucket_run_def)

text \<open>After any sequence of calls, at any times and costs, the tokens of a bucket are between zero and its burst.\<close>

theorem bucket_bounded:
  "0 \<le> tb_tokens (bucket_run calls (NewTokenBucket now config)) \<and>
   tb_tokens (bucket_run calls (NewTokenBucket now config)) \<le> f64_of_int (max 1 (Burst config))"
proof -
  have b: "Burst (tb_config (NewTokenBucket now config)) = max 1 (Burst config)" by (simp add: NewTokenBucket_def)
  have "bucket_inv (NewTokenBucket now config)" by (simp add: NewTokenBucket_def bucket_inv_def f64_of_int_nonneg)
  from bucket_run_inv [OF this, of calls] b show ?thesis by (metis bucket_inv_def)
qed

section \<open>Bursts\<close>

lemma refill_same: "refill (tb_last b) b = b"
  by (simp add: refill_def Seconds_def Let_def f64_add_def f64_div_def f64_of_int_def)

lemma unit_call:
  assumes "rl_Enabled (tb_config b)" "0 < Rate (tb_config b)" "tb_tokens b = of_int m" "0 \<le> m" "m < 2 ^ 53"
  shows "bucket_Allow (tb_last b) 1 (Some b) = (1 \<le> m, Some (b\<lparr>tb_tokens := of_int (max 0 (m - 1))\<rparr>))"
proof (cases "m = 0")
  case True
  then have "b\<lparr>tb_tokens := 0\<rparr> = b" using assms(3) by simp
  with True assms show ?thesis by (simp add: bucket_Allow_def refill_same)
next
  case False
  then have "f64 (of_int m - 1) = of_int (m - 1)" using f64_int [of "m - 1"] assms(4,5) by simp
  with False assms show ?thesis by (simp add: bucket_Allow_def refill_same f64_sub_def)
qed

lemma burst_run:
  assumes "rl_Enabled (tb_config b)" "0 < Rate (tb_config b)" "tb_tokens b = of_int m" "0 \<le> m" "m < 2 ^ 53"
  shows "bucket_run (replicate n (tb_last b, 1)) b = b\<lparr>tb_tokens := of_int (max 0 (m - int n))\<rparr>"
  using assms
proof (induction n arbitrary: b m)
  case 0
  then have "b\<lparr>tb_tokens := of_int m\<rparr> = b" by simp
  with 0 show ?case by (simp add: bucket_run_def)
next
  case (Suc n)
  let ?b = "b\<lparr>tb_tokens := of_int (max 0 (m - 1))\<rparr>"
  have "bucket_run (replicate (Suc n) (tb_last b, 1)) b = bucket_run (replicate n (tb_last ?b, 1)) ?b"
    using unit_call [OF Suc.prems] by (simp add: bucket_run_def)
  also have "\<dots> = ?b\<lparr>tb_tokens := of_int (max 0 (max 0 (m - 1) - int n))\<rparr>"
    by (rule Suc.IH) (use Suc.prems in auto)
  also have "\<dots> = b\<lparr>tb_tokens := of_int (max 0 (m - int (Suc n)))\<rparr>" by simp
  finally show ?case .
qed

text \<open>A new bucket admits exactly its burst at once. Of unit-cost calls made at the instant of its creation
  the first \<open>Burst\<close> are admitted and all later ones refused.\<close>

theorem bucket_burst:
  assumes "rl_Enabled config" "0 < Rate config" "Burst config < 2 ^ 53"
  shows "fst (bucket_Allow now 1 (Some (bucket_run (replicate n (now, 1)) (NewTokenBucket now config)))) \<longleftrightarrow> int n < max 1 (Burst config)"
proof -
  let ?b = "NewTokenBucket now config" and ?m = "max 1 (Burst config)"
  have b: "tb_last ?b = now" "rl_Enabled (tb_config ?b)" "0 < Rate (tb_config ?b)" "tb_tokens ?b = of_int ?m"
    using assms f64_int [of ?m] by (auto simp: NewTokenBucket_def Let_def f64_of_int_def)
  have r: "bucket_run (replicate n (now, 1)) ?b = ?b\<lparr>tb_tokens := of_int (max 0 (?m - int n))\<rparr>"
    using burst_run [of ?b ?m n] b assms(3) by simp
  have "bucket_Allow (tb_last (?b\<lparr>tb_tokens := of_int (max 0 (?m - int n))\<rparr>)) 1 (Some (?b\<lparr>tb_tokens := of_int (max 0 (?m - int n))\<rparr>)) =
      (1 \<le> max 0 (?m - int n), Some ((?b\<lparr>tb_tokens := of_int (max 0 (?m - int n))\<rparr>)\<lparr>tb_tokens := of_int (max 0 (max 0 (?m - int n) - 1))\<rparr>))"
    by (rule unit_call) (use b assms(3) in auto)
  then have "fst (bucket_Allow now 1 (Some (?b\<lparr>tb_tokens := of_int (max 0 (?m - int n))\<rparr>))) \<longleftrightarrow> 1 \<le> max 0 (?m - int n)"
    using b(1) by simp
  then show ?thesis unfolding r by linarith
qed

definition ex_limit :: RateLimitConfig where
  "ex_limit = \<lparr>rl_Enabled = True, Rate = 5, Burst = 2\<rparr>"

theorem bucket_burst_witness: "\<not> fst (bucket_Allow 7 1 (Some (bucket_run (replicate 2 (7, 1)) (NewTokenBucket 7 ex_limit))))"
  using bucket_burst [of ex_limit 7 2] by (simp add: ex_limit_def)

end
