(* ===== verification/LoadShed.thy ===== *)
theory LoadShed
  imports Middleware
begin

text \<open>
  The adaptive load shedder (\<open>framework/core/resilience/loadshed.go\<close>): a concurrency limit that shrinks by a factor when a
  call is slow or overloaded and grows by one after a number of fast successes. Both of its state changes hold the mutex, so
  concurrent calls are a sequence of \<open>acquire\<close> and \<open>release\<close> steps. The number of processors is an argument.
\<close>

section \<open>State and operations\<close>

record LoadShedConfig =
  ls_Enabled :: bool
  MinLimit :: int
  MaxLimit :: int
  InitialLimit :: int
  TargetLatency :: int
  IncreaseEvery :: int
  DecreaseFactor :: rat
  MinimumBudget :: int
  Overload :: "(goerr option \<Rightarrow> bool) option"

record LoadShedder =
  ls_config :: LoadShedConfig
  ls_limit :: int
  ls_inFlight :: int
  ls_successes :: int

record LoadShedSnapshot =
  lss_Limit :: int
  lss_InFlight :: int

text \<open>The double nearest to 0.8.\<close>

definition default_factor :: rat where "default_factor = f64 (8 / 10)"

definition normalizeLoadShedConfig :: "int \<Rightarrow> LoadShedConfig \<Rightarrow> LoadShedConfig" where
  "normalizeLoadShedConfig procs c =
     (let lo = (if MinLimit c \<le> 0 then 1 else MinLimit c);
          hi = (if MaxLimit c \<le> 0 then (if procs * 16 < 16 then 16 else procs * 16) else MaxLimit c);
          initial = (if InitialLimit c \<le> 0 \<or> hi < InitialLimit c then hi else InitialLimit c)
      in c\<lparr>MinLimit := lo, MaxLimit := hi, InitialLimit := (if initial < lo then lo else initial),
           TargetLatency := (if TargetLatency c \<le> 0 then 250000000 else TargetLatency c),
           IncreaseEvery := (if IncreaseEvery c \<le> 0 then 20 else IncreaseEvery c),
           DecreaseFactor := (if DecreaseFactor c \<le> 0 \<or> 1 \<le> DecreaseFactor c then default_factor else DecreaseFactor c),
           MinimumBudget := (if MinimumBudget c < 0 then 0 else MinimumBudget c)\<rparr>)"

definition NewLoadShedder :: "int \<Rightarrow> LoadShedConfig \<Rightarrow> LoadShedder" where
  "NewLoadShedder procs config =
     (let c = normalizeLoadShedConfig procs config in \<lparr>ls_config = c, ls_limit = InitialLimit c, ls_inFlight = 0, ls_successes = 0\<rparr>)"

text \<open>\<open>RemainingBudget\<close> (\<open>timeout.go\<close>).\<close>

definition RemainingBudget :: "int \<Rightarrow> call_ctx option \<Rightarrow> int option" where
  "RemainingBudget now ctx =
     (case ctx of
        None \<Rightarrow> None
      | Some c \<Rightarrow> (case cc_deadline c of None \<Rightarrow> None | Some d \<Rightarrow> Some (if d - now < 0 then 0 else d - now)))"

definition acquire :: "int \<Rightarrow> call_ctx \<Rightarrow> LoadShedder \<Rightarrow> int option \<times> LoadShedder" where
  "acquire now ctx s =
     (if 0 < MinimumBudget (ls_config s) \<and>
         (case RemainingBudget now (Some ctx) of None \<Rightarrow> False | Some remaining \<Rightarrow> remaining < MinimumBudget (ls_config s)) then (None, s)
      else if ls_limit s \<le> ls_inFlight s then (None, s)
      else (Some now, s\<lparr>ls_inFlight := ls_inFlight s + 1\<rparr>))"

definition is_overloaded :: "int \<Rightarrow> goerr option \<Rightarrow> LoadShedder \<Rightarrow> bool" where
  "is_overloaded latency err s =
     (TargetLatency (ls_config s) < latency \<or> (case Overload (ls_config s) of None \<Rightarrow> False | Some f \<Rightarrow> f err))"

definition decreased :: "LoadShedder \<Rightarrow> int" where
  "decreased s = max (MinLimit (ls_config s)) \<lfloor>f64_mul (f64_of_int (ls_limit s)) (DecreaseFactor (ls_config s))\<rfloor>"

definition release_shed :: "int \<Rightarrow> int \<Rightarrow> goerr option \<Rightarrow> LoadShedder \<Rightarrow> LoadShedder" where
  "release_shed now start err s0 =
     (let s = s0\<lparr>ls_inFlight := (if 0 < ls_inFlight s0 then ls_inFlight s0 - 1 else ls_inFlight s0)\<rparr> in
      if is_overloaded (now - start) err s then s\<lparr>ls_limit := decreased s, ls_successes := 0\<rparr>
      else if err \<noteq> None then s\<lparr>ls_successes := 0\<rparr>
      else if IncreaseEvery (ls_config s) \<le> ls_successes s + 1 \<and> ls_limit s < MaxLimit (ls_config s)
      then s\<lparr>ls_limit := ls_limit s + 1, ls_successes := 0\<rparr>
      else s\<lparr>ls_successes := ls_successes s + 1\<rparr>)"

definition shedder_Snapshot :: "LoadShedder option \<Rightarrow> LoadShedSnapshot" where
  "shedder_Snapshot s =
     (case s of None \<Rightarrow> \<lparr>lss_Limit = 0, lss_InFlight = 0\<rparr> | Some s \<Rightarrow> \<lparr>lss_Limit = ls_limit s, lss_InFlight = ls_inFlight s\<rparr>)"

section \<open>Histories\<close>

datatype shed_op = SAcquire int call_ctx | SRelease int int "goerr option"

text \<open>A step on the shedder and on the number of calls it has admitted and that have not been released.\<close>

fun shed_step :: "shed_op \<Rightarrow> LoadShedder \<times> int \<Rightarrow> LoadShedder \<times> int" where
  "shed_step (SAcquire now ctx) (s, held) =
     (case acquire now ctx s of (Some start, s') \<Rightarrow> (s', held + 1) | (None, s') \<Rightarrow> (s', held))"
| "shed_step (SRelease now start err) (s, held) = (release_shed now start err s, held - 1)"

text \<open>Each release belongs to an admitted call.\<close>

fun matched :: "shed_op list \<Rightarrow> LoadShedder \<times> int \<Rightarrow> bool" where
  "matched [] sh = True"
| "matched (SRelease now start err # ops) sh = (0 < snd sh \<and> matched ops (shed_step (SRelease now start err) sh))"
| "matched (op # ops) sh = matched ops (shed_step op sh)"

definition shed_inv :: "LoadShedder \<Rightarrow> bool" where
  "shed_inv s \<longleftrightarrow> 0 < MinLimit (ls_config s) \<and> MinLimit (ls_config s) \<le> ls_limit s \<and>
     ls_limit s \<le> max (MinLimit (ls_config s)) (MaxLimit (ls_config s)) \<and>
     0 \<le> ls_inFlight s \<and> ls_inFlight s \<le> max (MinLimit (ls_config s)) (MaxLimit (ls_config s)) \<and>
     0 < DecreaseFactor (ls_config s) \<and> DecreaseFactor (ls_config s) < 1 \<and>
     max (MinLimit (ls_config s)) (MaxLimit (ls_config s)) < 2 ^ 53"

lemma decreased_le:
  assumes "shed_inv s"
  shows "decreased s \<le> ls_limit s"
proof -
  have l: "0 < ls_limit s" "\<bar>ls_limit s\<bar> < 2 ^ 53" using assms by (auto simp: shed_inv_def)
  have "of_int (ls_limit s) * DecreaseFactor (ls_config s) \<le> of_int (ls_limit s) * 1"
    using assms l(1) by (intro mult_left_mono) (auto simp: shed_inv_def)
  then have "f64 (of_int (ls_limit s) * DecreaseFactor (ls_config s)) \<le> of_int (ls_limit s)" using l(2) by (intro f64_le_int) simp_all
  then have "\<lfloor>f64 (of_int (ls_limit s) * DecreaseFactor (ls_config s))\<rfloor> \<le> ls_limit s" by linarith
  then show ?thesis using assms l by (simp add: decreased_def f64_mul_def f64_of_int_def f64_int shed_inv_def)
qed

lemma acquire_inv: "shed_inv s \<Longrightarrow> shed_inv (snd (acquire now ctx s))"
  by (auto simp: acquire_def shed_inv_def)

lemma decreased_inFlight [simp]: "decreased (s\<lparr>ls_inFlight := n\<rparr>) = decreased s"
  by (simp add: decreased_def)

lemma release_inv: "shed_inv s \<Longrightarrow> shed_inv (release_shed now start err s)"
  using decreased_le [of s] by (auto simp: release_shed_def shed_inv_def Let_def decreased_def)

lemma release_count: "0 < ls_inFlight s \<Longrightarrow> ls_inFlight (release_shed now start err s) = ls_inFlight s - 1"
  by (simp add: release_shed_def Let_def)

lemma shed_config [simp]: "ls_config (fst (shed_step op sh)) = ls_config (fst sh)"
  by (cases op; cases sh) (auto simp: acquire_def release_shed_def Let_def split: option.split)

lemma shed_run_inv:
  "shed_inv s \<Longrightarrow> ls_inFlight s = held \<Longrightarrow> matched ops (s, held) \<Longrightarrow>
     shed_inv (fst (fold shed_step ops (s, held))) \<and> ls_inFlight (fst (fold shed_step ops (s, held))) = snd (fold shed_step ops (s, held)) \<and>
     ls_config (fst (fold shed_step ops (s, held))) = ls_config s"
proof (induction ops arbitrary: s held)
  case (Cons op ops)
  show ?case
  proof (cases op)
    case (SAcquire now ctx)
    obtain r s' where a: "acquire now ctx s = (r, s')" by fastforce
    have "shed_inv s'" "ls_config s' = ls_config s" "ls_inFlight s' = held + (if r = None then 0 else 1)"
      using acquire_inv [OF Cons.prems(1), of now ctx] Cons.prems(2) a by (auto simp: acquire_def split: if_splits)
    with Cons.IH [of s' "held + (if r = None then 0 else 1)"] Cons.prems(3) a SAcquire show ?thesis by (cases r) auto
  next
    case (SRelease now start err)
    have "shed_inv (release_shed now start err s)" "ls_inFlight (release_shed now start err s) = held - 1" "ls_config (release_shed now start err s) = ls_config s"
      using release_inv [OF Cons.prems(1)] release_count [of s] Cons.prems SRelease shed_config [of "SRelease now start err" "(s, held)"] by auto
    with Cons.IH [of "release_shed now start err s" "held - 1"] Cons.prems(3) SRelease show ?thesis by simp
  qed
qed simp

lemma new_shedder_inv:
  "max (MinLimit (normalizeLoadShedConfig procs config)) (MaxLimit (normalizeLoadShedConfig procs config)) < 2 ^ 53 \<Longrightarrow>
     shed_inv (NewLoadShedder procs config)"
proof -
  have f: "0 < default_factor \<and> default_factor < 1" by code_simp
  assume "max (MinLimit (normalizeLoadShedConfig procs config)) (MaxLimit (normalizeLoadShedConfig procs config)) < 2 ^ 53"
  with f show ?thesis by (auto simp: shed_inv_def NewLoadShedder_def normalizeLoadShedConfig_def Let_def)
qed

text \<open>Property C34: the shedder bounds concurrency. In every history in which each release belongs to an admitted call, its
  counter is the number of calls in flight, never more than the configured maximum (or the minimum limit, when that is
  larger), and the limit stays between the two.\<close>

theorem shed_bounds_concurrency:
  assumes "max (MinLimit (normalizeLoadShedConfig procs config)) (MaxLimit (normalizeLoadShedConfig procs config)) < 2 ^ 53"
    and "matched ops (NewLoadShedder procs config, 0)"
    and "fold shed_step ops (NewLoadShedder procs config, 0) = (s, held)"
  shows "ls_inFlight s = held \<and> 0 \<le> held \<and>
    held \<le> max (MinLimit (normalizeLoadShedConfig procs config)) (MaxLimit (normalizeLoadShedConfig procs config)) \<and>
    MinLimit (normalizeLoadShedConfig procs config) \<le> ls_limit s \<and>
    ls_limit s \<le> max (MinLimit (normalizeLoadShedConfig procs config)) (MaxLimit (normalizeLoadShedConfig procs config))"
proof -
  have z: "ls_inFlight (NewLoadShedder procs config) = 0" "ls_config (NewLoadShedder procs config) = normalizeLoadShedConfig procs config"
    by (simp_all add: NewLoadShedder_def Let_def)
  have "shed_inv s" "ls_inFlight s = held" and c: "ls_config s = normalizeLoadShedConfig procs config"
    using shed_run_inv [OF new_shedder_inv [OF assms(1)] z(1) assms(2)] unfolding assms(3) z(2) by simp_all
  then show ?thesis unfolding shed_inv_def c by blast
qed

section \<open>Adaptation\<close>

text \<open>Additive increase, multiplicative decrease. When a call is released, a slow or overloaded one cuts the
  limit to the floor of its product with the factor, but not below the minimum and never upwards; a failed one leaves it; a
  fast success raises it by one exactly when it completes \<open>IncreaseEvery\<close> successes in a row and the limit is below the
  maximum.\<close>

theorem shed_adapts:
  assumes "shed_inv s"
  shows "ls_limit (release_shed now start err s) =
      (if is_overloaded (now - start) err s then max (MinLimit (ls_config s)) \<lfloor>f64_mul (f64_of_int (ls_limit s)) (DecreaseFactor (ls_config s))\<rfloor>
       else if err = None \<and> IncreaseEvery (ls_config s) \<le> ls_successes s + 1 \<and> ls_limit s < MaxLimit (ls_config s) then ls_limit s + 1
       else ls_limit s) \<and>
    (is_overloaded (now - start) err s \<longrightarrow> ls_limit (release_shed now start err s) \<le> ls_limit s)"
proof -
  have o: "is_overloaded (now - start) err (s\<lparr>ls_inFlight := n\<rparr>) = is_overloaded (now - start) err s" for n by (simp add: is_overloaded_def)
  show ?thesis using decreased_le [OF assms] by (auto simp: release_shed_def Let_def o decreased_def)
qed

section \<open>Witnesses\<close>

definition ex_shed :: LoadShedConfig where
  "ex_shed = \<lparr>ls_Enabled = True, MinLimit = 1, MaxLimit = 10, InitialLimit = 10, TargetLatency = 5, IncreaseEvery = 2,
     DecreaseFactor = 1 / 2, MinimumBudget = 0, Overload = None\<rparr>"

theorem shed_bounds_concurrency_witness:
  "ls_inFlight (fst (fold shed_step [SAcquire 1 background_ctx, SAcquire 2 background_ctx, SRelease 9 1 None] (NewLoadShedder 1 ex_shed, 0))) = 1"
proof -
  let ?ops = "[SAcquire 1 background_ctx, SAcquire 2 background_ctx, SRelease 9 1 None]"
  have m: "matched ?ops (NewLoadShedder 1 ex_shed, 0)" by code_simp
  have b: "max (MinLimit (normalizeLoadShedConfig 1 ex_shed)) (MaxLimit (normalizeLoadShedConfig 1 ex_shed)) < 2 ^ 53" by code_simp
  have h: "snd (fold shed_step ?ops (NewLoadShedder 1 ex_shed, 0)) = 1" by code_simp
  from shed_bounds_concurrency [OF b m surjective_pairing] show ?thesis using h by simp
qed

theorem shed_adapts_witness: "ls_limit (release_shed 9 1 None (NewLoadShedder 1 ex_shed)) = 5"
proof -
  have i: "shed_inv (NewLoadShedder 1 ex_shed)" by code_simp
  have "is_overloaded (9 - 1) None (NewLoadShedder 1 ex_shed)"
    "max (MinLimit (ls_config (NewLoadShedder 1 ex_shed))) \<lfloor>f64_mul (f64_of_int (ls_limit (NewLoadShedder 1 ex_shed))) (DecreaseFactor (ls_config (NewLoadShedder 1 ex_shed)))\<rfloor> = 5"
    by code_simp+
  with shed_adapts [OF i, of 9 1 None] show ?thesis by simp
qed

end
