(* ===== verification/Policy.thy ===== *)
theory Policy
  imports Breaker RateLimit LoadShed
begin

text \<open>
  The outbound call policies as middleware and their composition: timeout budgets and retries (\<open>timeout.go\<close>, \<open>retry.go\<close>),
  the keyed groups of breakers, buckets and shedders with their middleware (\<open>breaker.go\<close>, \<open>ratelimit.go\<close>, \<open>loadshed.go\<close>),
  and \<open>RPCPolicy\<close> (\<open>policy.go\<close>, \<open>diagnostics.go\<close>, all under \<open>framework/core/resilience\<close>).

  The world of a policy holds the time, the three groups, the random samples that are still to be drawn and the rest of the
  system (\<open>pw_ext\<close>), which only the transport changes. A sleep moves the time forward, to the end of the timer or to the end
  of the context, whichever comes first; when both fall on the same instant the timer wins.
\<close>

section \<open>The world\<close>

record 'x pworld =
  pw_now :: int
  pw_breakers :: "(string \<times> CircuitBreaker) list"
  pw_buckets :: "(string \<times> TokenBucket) list"
  pw_shedders :: "(string \<times> LoadShedder) list"
  pw_samples :: "nat \<Rightarrow> rat"
  pw_drawn :: nat
  pw_ext :: 'x

text \<open>The lookup of a keyed group, which creates what it does not find.\<close>

definition find_or_new :: "string \<Rightarrow> 'v \<Rightarrow> (string \<times> 'v) list \<Rightarrow> (string \<times> 'v) list" where
  "find_or_new key fresh m = (if map_of m key = None then AList.update key fresh m else m)"

definition at_key :: "string \<Rightarrow> ('v \<Rightarrow> 'v) \<Rightarrow> (string \<times> 'v) list \<Rightarrow> (string \<times> 'v) list" where
  "at_key key f m = (case map_of m key of None \<Rightarrow> m | Some v \<Rightarrow> AList.update key (f v) m)"

lemma find_or_new_lookup: "map_of (find_or_new key fresh m) key = Some (case map_of m key of None \<Rightarrow> fresh | Some v \<Rightarrow> v)"
  by (simp add: find_or_new_def update_conv' split: option.split)

section \<open>Timeout budgets\<close>

record TimeoutBudgetConfig =
  to_Timeout :: int
  to_Reserve :: int
  to_Minimum :: int

definition availableTimeout :: "int \<Rightarrow> call_ctx \<Rightarrow> TimeoutBudgetConfig \<Rightarrow> int option result" where
  "availableTimeout now ctx config =
     (let reserve = (if to_Reserve config < 0 then 0 else to_Reserve config);
          minimum = (if to_Minimum config < 0 then 0 else to_Minimum config)
      in case cc_deadline ctx of
           Some deadline \<Rightarrow>
             (let available = deadline - now - reserve in
              if available \<le> 0 \<or> 0 < minimum \<and> available < minimum then Inl ErrTimeoutBudgetExceeded
              else Inr (Some (if 0 < to_Timeout config \<and> to_Timeout config < available then to_Timeout config else available)))
         | None \<Rightarrow>
             if 0 < to_Timeout config then
               if 0 < minimum \<and> to_Timeout config < minimum then Inl ErrTimeoutBudgetExceeded else Inr (Some (to_Timeout config))
             else Inr None)"

text \<open>\<open>context.WithTimeout\<close>: the deadline of the child is not after the one of its parent.\<close>

definition with_timeout :: "int \<Rightarrow> int \<Rightarrow> call_ctx \<Rightarrow> call_ctx" where
  "with_timeout now timeout ctx =
     ctx\<lparr>cc_deadline := Some (case cc_deadline ctx of None \<Rightarrow> now + timeout | Some d \<Rightarrow> min d (now + timeout))\<rparr>"

definition TimeoutBudget :: "TimeoutBudgetConfig \<Rightarrow> 'x pworld middleware" where
  "TimeoutBudget config next ctx w =
     (case availableTimeout (pw_now w) ctx config of
        Inl e \<Rightarrow> (Return (Some (reject ''timeout'' (OperationKey ctx) e)), w)
      | Inr None \<Rightarrow> next ctx w
      | Inr (Some timeout) \<Rightarrow>
          (let child = with_timeout (pw_now w) timeout ctx in
           case next child w of
             (Return None, w') \<Rightarrow> (Return (ctx_err (pw_now w') child), w')
           | (res, w') \<Rightarrow> (res, w')))"

section \<open>Retries\<close>

record RetryConfig =
  rt_MaxAttempts :: int
  rt_BaseDelay :: int
  rt_MaxDelay :: int
  rt_Multiplier :: rat
  rt_Jitter :: rat
  rt_Idempotent :: "(call_ctx \<Rightarrow> bool) option"
  rt_Retryable :: "(goerr \<Rightarrow> bool) option"

definition AttemptFrom :: "call_ctx option \<Rightarrow> int" where
  "AttemptFrom ctx = (case ctx of None \<Rightarrow> 0 | Some c \<Rightarrow> cc_attempt c)"

definition IdempotentFromMetadata :: "call_ctx \<Rightarrow> bool" where
  "IdempotentFromMetadata ctx =
     (let (m, ok) = call_metadata ctx in ok \<and> map_of (md_attributes m) ''resilience.idempotent'' = Some ''true'')"

definition IdempotentOperations :: "string list \<Rightarrow> call_ctx \<Rightarrow> bool" where
  "IdempotentOperations operations ctx = (OperationKey ctx \<in> set operations)"

fun delay_loop :: "RetryConfig \<Rightarrow> rat \<Rightarrow> nat \<Rightarrow> rat \<Rightarrow> rat" where
  "delay_loop config multiplier 0 delay = delay"
| "delay_loop config multiplier (Suc n) delay =
     (let delay = f64_mul delay multiplier in
      if 0 < rt_MaxDelay config \<and> rt_MaxDelay config \<le> int64_of_f64 delay then f64_of_int (rt_MaxDelay config)
      else delay_loop config multiplier n delay)"

definition retryDelay :: "RetryConfig \<Rightarrow> rat \<Rightarrow> rat \<Rightarrow> int \<Rightarrow> int" where
  "retryDelay config multiplier sample attempt =
     (if rt_BaseDelay config \<le> 0 then 0
      else
        (let delay = delay_loop config multiplier (nat (attempt - 1)) (f64_of_int (rt_BaseDelay config));
             delay =
               (if 0 < rt_Jitter config then
                  (let jitter = (if 1 < rt_Jitter config then 1 else rt_Jitter config);
                       factor = f64_add (f64_sub 1 jitter) (f64_mul sample (f64_mul 2 jitter))
                   in f64_mul delay factor)
                else delay)
         in if delay < 0 then 0 else int64_of_f64 delay))"

text \<open>The instant at which a context ends, if it does.\<close>

definition ctx_end :: "call_ctx \<Rightarrow> int option" where
  "ctx_end c =
     (case (cc_cancel c, cc_deadline c) of
        (Some a, Some d) \<Rightarrow> Some (min a d) | (Some a, None) \<Rightarrow> Some a | (None, Some d) \<Rightarrow> Some d | (None, None) \<Rightarrow> None)"

definition sleep :: "call_ctx \<Rightarrow> int \<Rightarrow> 'x pworld \<Rightarrow> goerr option \<times> 'x pworld" where
  "sleep ctx delay w =
     (case ctx_end ctx of
        Some t \<Rightarrow>
          if t < pw_now w + delay then (let t = max t (pw_now w) in (ctx_err t ctx, w\<lparr>pw_now := t\<rparr>))
          else (None, w\<lparr>pw_now := pw_now w + delay\<rparr>)
      | None \<Rightarrow> (None, w\<lparr>pw_now := pw_now w + delay\<rparr>))"

definition draw :: "'x pworld \<Rightarrow> rat \<times> 'x pworld" where
  "draw w = (pw_samples w (pw_drawn w), w\<lparr>pw_drawn := pw_drawn w + 1\<rparr>)"

text \<open>The pause after a failed attempt; a sample is drawn only for a jittered delay.\<close>

definition pause :: "RetryConfig \<Rightarrow> rat \<Rightarrow> call_ctx \<Rightarrow> int \<Rightarrow> 'x pworld \<Rightarrow> goerr option \<times> 'x pworld" where
  "pause config multiplier ctx attempt w =
     (let (sample, w) = (if 0 < rt_BaseDelay config \<and> 0 < rt_Jitter config then draw w else (0, w));
          delay = retryDelay config multiplier sample attempt
      in if delay \<le> 0 then (None, w) else sleep ctx delay w)"

fun retry_loop :: "RetryConfig \<Rightarrow> (goerr \<Rightarrow> bool) \<Rightarrow> rat \<Rightarrow> 'x pworld handler \<Rightarrow> call_ctx \<Rightarrow> nat \<Rightarrow> int \<Rightarrow> goerr option \<Rightarrow> 'x pworld \<Rightarrow>
    (string, goerr option) outcome \<times> 'x pworld" where
  "retry_loop config retryable multiplier next ctx 0 attempt lastErr w = (Return lastErr, w)"
| "retry_loop config retryable multiplier next ctx (Suc n) attempt lastErr w =
     (case ctx_err (pw_now w) ctx of
        Some e \<Rightarrow> (Return (Some e), w)
      | None \<Rightarrow>
        (case next (ctx\<lparr>cc_attempt := attempt\<rparr>) w of
           (Panic p, w') \<Rightarrow> (Panic p, w')
         | (Return None, w') \<Rightarrow> (Return None, w')
         | (Return (Some e), w') \<Rightarrow>
             if attempt = rt_MaxAttempts config \<or> \<not> retryable e then (Return (Some e), w')
             else
               (case pause config multiplier ctx attempt w' of
                  (Some cause, w'') \<Rightarrow> (Return (Some cause), w'')
                | (None, w'') \<Rightarrow> retry_loop config retryable multiplier next ctx n (attempt + 1) (Some e) w'')))"

definition Retry :: "RetryConfig \<Rightarrow> 'x pworld middleware" where
  "Retry config next ctx w =
     (case rt_Retryable config of
        None \<Rightarrow> next ctx w
      | Some retryable \<Rightarrow>
          if rt_MaxAttempts config \<le> 1 then next ctx w
          else if \<not> (case rt_Idempotent config of None \<Rightarrow> IdempotentFromMetadata | Some f \<Rightarrow> f) ctx then next ctx w
          else retry_loop config retryable (if rt_Multiplier config < 1 then 2 else rt_Multiplier config) next ctx
                 (nat (rt_MaxAttempts config)) 1 None w)"

section \<open>The limiters as middleware\<close>

definition Group_Breaker :: "CircuitBreakerConfig \<Rightarrow> string \<Rightarrow> 'x pworld \<Rightarrow> 'x pworld" where
  "Group_Breaker config key w = w\<lparr>pw_breakers := find_or_new key (NewCircuitBreaker config) (pw_breakers w)\<rparr>"

definition complete_at :: "string \<Rightarrow> goerr option \<Rightarrow> 'x pworld \<Rightarrow> 'x pworld" where
  "complete_at key err w = w\<lparr>pw_breakers := at_key key (complete (pw_now w) err) (pw_breakers w)\<rparr>"

definition breaker_Execute :: "string \<Rightarrow> CircuitBreaker \<Rightarrow> 'x pworld middleware" where
  "breaker_Execute key b next ctx w =
     (if \<not> cb_Enabled (cb_config b) then next ctx w
      else
        (case allow (pw_now w) b of
           (False, b') \<Rightarrow> (Return (Some ErrCircuitOpen), w\<lparr>pw_breakers := AList.update key b' (pw_breakers w)\<rparr>)
         | (True, b') \<Rightarrow>
             (case next ctx (w\<lparr>pw_breakers := AList.update key b' (pw_breakers w)\<rparr>) of
                (Return err, w') \<Rightarrow> (Return err, complete_at key err w')
              | (Panic p, w') \<Rightarrow> (Panic p, complete_at key (Some (Err ''downstream panic'' [])) w'))))"

definition Breaker_Middleware :: "CircuitBreakerConfig \<Rightarrow> (call_ctx \<Rightarrow> string) option \<Rightarrow> 'x pworld middleware" where
  "Breaker_Middleware config keyFn next ctx w =
     (let key = resolveKey ctx keyFn; w = Group_Breaker config key w in
      case map_of (pw_breakers w) key of
        None \<Rightarrow> next ctx w
      | Some b \<Rightarrow>
          if \<not> cb_Enabled (cb_config b) then next ctx w
          else
            (case breaker_Execute key b next ctx w of
               (Return (Some e), w') \<Rightarrow> (Return (Some (if err_is e ErrCircuitOpen then reject ''circuit'' key ErrCircuitOpen else e)), w')
             | (res, w') \<Rightarrow> (res, w')))"

definition Group_Bucket :: "RateLimitConfig \<Rightarrow> string \<Rightarrow> 'x pworld \<Rightarrow> 'x pworld" where
  "Group_Bucket config key w = w\<lparr>pw_buckets := find_or_new key (NewTokenBucket (pw_now w) config) (pw_buckets w)\<rparr>"

definition RateLimit_Middleware ::
  "RateLimitConfig \<Rightarrow> (call_ctx \<Rightarrow> rat) option \<Rightarrow> (call_ctx \<Rightarrow> string) option \<Rightarrow> 'x pworld middleware" where
  "RateLimit_Middleware config cost keyFn next ctx w =
     (let key = resolveKey ctx keyFn; w = Group_Bucket config key w in
      case bucket_Allow (pw_now w) (case cost of None \<Rightarrow> 1 | Some f \<Rightarrow> f ctx) (map_of (pw_buckets w) key) of
        (ok, b) \<Rightarrow>
          (let w = (case b of None \<Rightarrow> w | Some b \<Rightarrow> w\<lparr>pw_buckets := AList.update key b (pw_buckets w)\<rparr>) in
           if \<not> ok then (Return (Some (reject ''rate-limit'' key ErrRateLimited)), w) else next ctx w))"

definition Group_Shedder :: "int \<Rightarrow> LoadShedConfig \<Rightarrow> string \<Rightarrow> 'x pworld \<Rightarrow> 'x pworld" where
  "Group_Shedder procs config key w = w\<lparr>pw_shedders := find_or_new key (NewLoadShedder procs config) (pw_shedders w)\<rparr>"

definition release_at :: "string \<Rightarrow> int \<Rightarrow> goerr option \<Rightarrow> 'x pworld \<Rightarrow> 'x pworld" where
  "release_at key start err w = w\<lparr>pw_shedders := at_key key (release_shed (pw_now w) start err) (pw_shedders w)\<rparr>"

definition shedder_Execute :: "string \<Rightarrow> LoadShedder \<Rightarrow> 'x pworld middleware" where
  "shedder_Execute key s next ctx w =
     (if \<not> ls_Enabled (ls_config s) then next ctx w
      else
        (case acquire (pw_now w) ctx s of
           (None, s') \<Rightarrow> (Return (Some ErrLoadShed), w\<lparr>pw_shedders := AList.update key s' (pw_shedders w)\<rparr>)
         | (Some start, s') \<Rightarrow>
             (case next ctx (w\<lparr>pw_shedders := AList.update key s' (pw_shedders w)\<rparr>) of
                (Return err, w') \<Rightarrow> (Return err, release_at key start err w')
              | (Panic p, w') \<Rightarrow> (Panic p, release_at key start (Some ErrLoadShed) w'))))"

definition LoadShed_Middleware :: "int \<Rightarrow> LoadShedConfig \<Rightarrow> (call_ctx \<Rightarrow> string) option \<Rightarrow> 'x pworld middleware" where
  "LoadShed_Middleware procs config keyFn next ctx w =
     (let key = resolveKey ctx keyFn; w = Group_Shedder procs config key w in
      case map_of (pw_shedders w) key of
        None \<Rightarrow> next ctx w
      | Some s \<Rightarrow>
          if \<not> ls_Enabled (ls_config s) then next ctx w
          else
            (case shedder_Execute key s next ctx w of
               (Return (Some e), w') \<Rightarrow> (Return (Some (if e = ErrLoadShed then reject ''load-shed'' key ErrLoadShed else e)), w')
             | (res, w') \<Rightarrow> (res, w')))"

section \<open>The policy\<close>

record RPCPolicyConfig =
  rp_Key :: "(call_ctx \<Rightarrow> string) option"
  rp_Timeout :: TimeoutBudgetConfig
  rp_Retry :: RetryConfig
  rp_Circuit :: CircuitBreakerConfig
  rp_RateLimit :: RateLimitConfig
  rp_Cost :: "(call_ctx \<Rightarrow> rat) option"
  rp_LoadShed :: LoadShedConfig
  rp_procs :: int

definition Middlewares :: "RPCPolicyConfig \<Rightarrow> 'x pworld middleware list" where
  "Middlewares c =
     (if 0 < to_Timeout (rp_Timeout c) \<or> 0 < to_Minimum (rp_Timeout c) \<or> 0 < to_Reserve (rp_Timeout c) then [TimeoutBudget (rp_Timeout c)] else []) @
     (if 1 < rt_MaxAttempts (rp_Retry c) then [Retry (rp_Retry c)] else []) @
     (if rl_Enabled (rp_RateLimit c) then [RateLimit_Middleware (rp_RateLimit c) (rp_Cost c) (rp_Key c)] else []) @
     (if ls_Enabled (rp_LoadShed c) then [LoadShed_Middleware (rp_procs c) (rp_LoadShed c) (rp_Key c)] else []) @
     (if cb_Enabled (rp_Circuit c) then [Breaker_Middleware (rp_Circuit c) (rp_Key c)] else [])"

text \<open>\<open>middleware.UnaryClientInterceptor\<close> (\<open>middleware/rpc_client.go\<close>): the metadata of the call, then the chain around the
  invoker; \<open>RPCPolicy.UnaryClientInterceptor\<close> is it with the middlewares of the policy.\<close>

definition client_metadata :: "string \<Rightarrow> call_ctx \<Rightarrow> call_ctx" where
  "client_metadata rpc ctx =
     (let m = fst (call_metadata ctx) in
      ctx\<lparr>cc_metadata := Some (m\<lparr>md_transport := ''rpc'', md_protocol := ''grpc'', md_operation := rpc, md_method := rpc,
            md_attributes := AList.update ''rpc.direction'' ''client'' (md_attributes m)\<rparr>)\<rparr>)"

definition UnaryClientInterceptor :: "'w middleware list \<Rightarrow> call_ctx option \<Rightarrow> string \<Rightarrow> 'w handler \<Rightarrow> 'w \<Rightarrow> (string, goerr option) outcome \<times> 'w" where
  "UnaryClientInterceptor ms ctx rpc invoker w =
     chain_Handle (chain_New (map Some ms))
       (Some (client_metadata rpc (case ctx of None \<Rightarrow> background_ctx | Some c \<Rightarrow> c))) (Some invoker) w"

definition Policy_UnaryClientInterceptor ::
  "RPCPolicyConfig option \<Rightarrow> call_ctx option \<Rightarrow> string \<Rightarrow> 'x pworld handler \<Rightarrow> 'x pworld \<Rightarrow> (string, goerr option) outcome \<times> 'x pworld" where
  "Policy_UnaryClientInterceptor policy =
     (case policy of None \<Rightarrow> UnaryClientInterceptor [] | Some c \<Rightarrow> UnaryClientInterceptor (Middlewares c))"

record PolicySnapshot =
  ps_Circuit :: "CircuitSnapshot option"
  ps_Rate :: "RateLimitSnapshot option"
  ps_Load :: "LoadShedSnapshot option"

text \<open>\<open>Snapshot\<close> goes through the groups and so creates what is missing; \<open>PeekSnapshot\<close> only looks. A part that is not filled is
  \<^const>\<open>None\<close>.\<close>

definition policy_Snapshot :: "RPCPolicyConfig \<Rightarrow> string \<Rightarrow> 'x pworld \<Rightarrow> PolicySnapshot \<times> 'x pworld" where
  "policy_Snapshot c key w =
     (let w1 = (if cb_Enabled (rp_Circuit c) then Group_Breaker (rp_Circuit c) key w else w);
          w2 = (if rl_Enabled (rp_RateLimit c) then Group_Bucket (rp_RateLimit c) key w1 else w1);
          w3 = (if ls_Enabled (rp_LoadShed c) then Group_Shedder (rp_procs c) (rp_LoadShed c) key w2 else w2)
      in (\<lparr>ps_Circuit = (if cb_Enabled (rp_Circuit c) then Some (breaker_Snapshot (map_of (pw_breakers w3) key)) else None),
           ps_Rate = (if rl_Enabled (rp_RateLimit c) then Some (bucket_Snapshot (map_of (pw_buckets w3) key)) else None),
           ps_Load = (if ls_Enabled (rp_LoadShed c) then Some (shedder_Snapshot (map_of (pw_shedders w3) key)) else None)\<rparr>, w3))"

definition PeekSnapshot :: "RPCPolicyConfig \<Rightarrow> string \<Rightarrow> 'x pworld \<Rightarrow> PolicySnapshot \<times> bool" where
  "PeekSnapshot c key w =
     (let circuit = (if cb_Enabled (rp_Circuit c) then map_option (\<lambda>b. breaker_Snapshot (Some b)) (map_of (pw_breakers w) key) else None);
          rate = (if rl_Enabled (rp_RateLimit c) then map_option (\<lambda>b. bucket_Snapshot (Some b)) (map_of (pw_buckets w) key) else None);
          load = (if ls_Enabled (rp_LoadShed c) then map_option (\<lambda>s. shedder_Snapshot (Some s)) (map_of (pw_shedders w) key) else None)
      in (\<lparr>ps_Circuit = circuit, ps_Rate = rate, ps_Load = load\<rparr>, circuit \<noteq> None \<or> rate \<noteq> None \<or> load \<noteq> None))"

section \<open>How often a policy calls the transport\<close>

text \<open>The contract of a middleware with the chain: it calls its next handler at most \<open>n\<close> times and does nothing else to the rest
  of the system. The calls are counted by any measure of that rest that grows by at most \<open>k\<close> with each call.\<close>

locale bounded_middleware =
  fixes m :: "'x pworld middleware" and n :: nat
  assumes calls: "(\<And>ctx w. cnt (pw_ext (snd (next ctx w))) \<le> cnt (pw_ext w) + k) \<Longrightarrow>
    (cnt :: 'x \<Rightarrow> nat) (pw_ext (snd (m next ctx w))) \<le> cnt (pw_ext w) + n * k"

locale bounded_stack = outer: bounded_middleware m n + inner: bounded_middleware m' n'
  for m m' :: "'x pworld middleware" and n n' :: nat
begin

lemma stacked: "bounded_middleware (\<lambda>next. m (m' next)) (n * n')"
proof
  fix "next" :: "'x pworld handler" and cnt :: "'x \<Rightarrow> nat" and k ctx w
  assume n: "\<And>ctx w. cnt (pw_ext (snd (next ctx w))) \<le> cnt (pw_ext w) + k"
  have "cnt (pw_ext (snd (m' next ctx w))) \<le> cnt (pw_ext w) + n' * k" for ctx w by (rule inner.calls) (rule n)
  then have "cnt (pw_ext (snd (m (m' next) ctx w))) \<le> cnt (pw_ext w) + n * (n' * k)" by (rule outer.calls)
  then show "cnt (pw_ext (snd (m (m' next) ctx w))) \<le> cnt (pw_ext w) + n * n' * k" by (simp add: mult.assoc)
qed

end

lemma bounded_chain:
  "list_all2 bounded_middleware ms ns \<Longrightarrow> bounded_middleware (\<lambda>next. foldr (\<lambda>m wrapped. m wrapped) ms next) (prod_list ns)"
proof (induction ms ns rule: list_all2_induct)
  case Nil
  show ?case by unfold_locales simp
next
  case (Cons m ms n ns)
  then have "bounded_stack m (\<lambda>next. foldr (\<lambda>m wrapped. m wrapped) ms next) n (prod_list ns)" by (simp add: bounded_stack_def)
  from bounded_stack.stacked [OF this] show ?case by simp
qed

interpretation timeout: bounded_middleware "TimeoutBudget config" 1
proof
  fix "next" :: "'a pworld handler" and cnt :: "'a \<Rightarrow> nat" and k ctx w
  assume n: "\<And>ctx w. cnt (pw_ext (snd (next ctx w))) \<le> cnt (pw_ext w) + k"
  show "cnt (pw_ext (snd (TimeoutBudget config next ctx w))) \<le> cnt (pw_ext w) + 1 * k"
    using n [of ctx w] n [of _ w]
    by (auto simp: TimeoutBudget_def Let_def split: sum.split option.split prod.split outcome.split) (metis snd_conv)+
qed

interpretation limiter: bounded_middleware "RateLimit_Middleware config cost keyFn" 1
proof
  fix "next" :: "'a pworld handler" and cnt :: "'a \<Rightarrow> nat" and k ctx w
  assume n: "\<And>ctx w. cnt (pw_ext (snd (next ctx w))) \<le> cnt (pw_ext w) + k"
  have "cnt (pw_ext (snd (next ctx w'))) \<le> cnt (pw_ext w) + k" if "pw_ext w' = pw_ext w" for w w' :: "'a pworld"
    using n [of ctx w'] that by simp
  then show "cnt (pw_ext (snd (RateLimit_Middleware config cost keyFn next ctx w))) \<le> cnt (pw_ext w) + 1 * k"
    by (simp add: RateLimit_Middleware_def Let_def Group_Bucket_def split: prod.split option.split)
qed

lemma complete_at_ext [simp]: "pw_ext (complete_at key err w) = pw_ext w"
  by (simp add: complete_at_def)

lemma release_at_ext [simp]: "pw_ext (release_at key start err w) = pw_ext w"
  by (simp add: release_at_def)

lemma breaker_Execute_ext:
  "pw_ext (snd (breaker_Execute key b next ctx w)) = pw_ext w \<or>
   (\<exists>w'. pw_ext w' = pw_ext w \<and> pw_ext (snd (breaker_Execute key b next ctx w)) = pw_ext (snd (next ctx w')))"
proof (cases "cb_Enabled (cb_config b) \<and> fst (allow (pw_now w) b)")
  case True
  obtain b' where a: "allow (pw_now w) b = (True, b')" using True by (metis (full_types) prod.collapse)
  let ?w = "w\<lparr>pw_breakers := AList.update key b' (pw_breakers w)\<rparr>"
  have "pw_ext (snd (breaker_Execute key b next ctx w)) = pw_ext (snd (next ctx ?w))"
    using True a by (simp add: breaker_Execute_def split: prod.split outcome.split)
  moreover have "pw_ext ?w = pw_ext w" by simp
  ultimately show ?thesis by blast
next
  case False
  then show ?thesis by (cases "allow (pw_now w) b") (auto simp: breaker_Execute_def)
qed

lemma shedder_Execute_ext:
  "pw_ext (snd (shedder_Execute key s next ctx w)) = pw_ext w \<or>
   (\<exists>w'. pw_ext w' = pw_ext w \<and> pw_ext (snd (shedder_Execute key s next ctx w)) = pw_ext (snd (next ctx w')))"
proof (cases "ls_Enabled (ls_config s) \<and> fst (acquire (pw_now w) ctx s) \<noteq> None")
  case True
  obtain start s' where a: "acquire (pw_now w) ctx s = (Some start, s')" using True by (metis option.exhaust prod.collapse)
  let ?w = "w\<lparr>pw_shedders := AList.update key s' (pw_shedders w)\<rparr>"
  have "pw_ext (snd (shedder_Execute key s next ctx w)) = pw_ext (snd (next ctx ?w))"
    using True a by (simp add: shedder_Execute_def split: prod.split outcome.split)
  moreover have "pw_ext ?w = pw_ext w" by simp
  ultimately show ?thesis by blast
next
  case False
  then show ?thesis by (cases "acquire (pw_now w) ctx s") (auto simp: shedder_Execute_def)
qed

text \<open>A middleware that calls its next handler at most once, from a world with the same rest.\<close>

lemma bounded_once:
  assumes "\<And>next ctx w. pw_ext (snd (m next ctx w)) = pw_ext w \<or>
    (\<exists>ctx' w'. pw_ext w' = pw_ext w \<and> pw_ext (snd (m next ctx w)) = pw_ext (snd (next ctx' w')))"
  shows "bounded_middleware m 1"
proof
  fix "next" :: "'a pworld handler" and cnt :: "'a \<Rightarrow> nat" and k ctx w
  assume n: "\<And>ctx w. cnt (pw_ext (snd (next ctx w))) \<le> cnt (pw_ext w) + k"
  from assms [of "next" ctx w] show "cnt (pw_ext (snd (m next ctx w))) \<le> cnt (pw_ext w) + 1 * k"
  proof
    assume "\<exists>ctx' w'. pw_ext w' = pw_ext w \<and> pw_ext (snd (m next ctx w)) = pw_ext (snd (next ctx' w'))"
    then obtain ctx' w' where "pw_ext w' = pw_ext w" "pw_ext (snd (m next ctx w)) = pw_ext (snd (next ctx' w'))" by blast
    with n [of ctx' w'] show ?thesis by simp
  qed simp
qed

lemma shed_once: "bounded_middleware (LoadShed_Middleware procs config keyFn) 1"
proof (rule bounded_once)
  fix "next" :: "'a pworld handler" and ctx and w :: "'a pworld"
  let ?key = "resolveKey ctx keyFn" and ?w = "Group_Shedder procs config (resolveKey ctx keyFn) w"
  have e: "pw_ext ?w = pw_ext w" by (simp add: Group_Shedder_def)
  obtain s where s: "map_of (pw_shedders ?w) ?key = Some s" by (simp add: Group_Shedder_def find_or_new_lookup)
  have eq: "pw_ext (snd (LoadShed_Middleware procs config keyFn next ctx w)) =
      pw_ext (snd (if ls_Enabled (ls_config s) then shedder_Execute ?key s next ctx ?w else next ctx ?w))"
    using s by (simp add: LoadShed_Middleware_def Let_def split: prod.split outcome.split option.split)
  show "pw_ext (snd (LoadShed_Middleware procs config keyFn next ctx w)) = pw_ext w \<or>
      (\<exists>ctx' w'. pw_ext w' = pw_ext w \<and> pw_ext (snd (LoadShed_Middleware procs config keyFn next ctx w)) = pw_ext (snd (next ctx' w')))"
  proof (cases "ls_Enabled (ls_config s)")
    case True
    show ?thesis using shedder_Execute_ext [of ?key s "next" ctx ?w] unfolding eq e if_P [OF True] by blast
  next
    case False
    show ?thesis using e unfolding eq if_not_P [OF False] by blast
  qed
qed

lemma breaker_once: "bounded_middleware (Breaker_Middleware config keyFn) 1"
proof (rule bounded_once)
  fix "next" :: "'a pworld handler" and ctx and w :: "'a pworld"
  let ?key = "resolveKey ctx keyFn" and ?w = "Group_Breaker config (resolveKey ctx keyFn) w"
  have e: "pw_ext ?w = pw_ext w" by (simp add: Group_Breaker_def)
  obtain b where b: "map_of (pw_breakers ?w) ?key = Some b" by (simp add: Group_Breaker_def find_or_new_lookup)
  have eq: "pw_ext (snd (Breaker_Middleware config keyFn next ctx w)) =
      pw_ext (snd (if cb_Enabled (cb_config b) then breaker_Execute ?key b next ctx ?w else next ctx ?w))"
    using b by (simp add: Breaker_Middleware_def Let_def split: prod.split outcome.split option.split)
  show "pw_ext (snd (Breaker_Middleware config keyFn next ctx w)) = pw_ext w \<or>
      (\<exists>ctx' w'. pw_ext w' = pw_ext w \<and> pw_ext (snd (Breaker_Middleware config keyFn next ctx w)) = pw_ext (snd (next ctx' w')))"
  proof (cases "cb_Enabled (cb_config b)")
    case True
    show ?thesis using breaker_Execute_ext [of ?key b "next" ctx ?w] unfolding eq e if_P [OF True] by blast
  next
    case False
    show ?thesis using e unfolding eq if_not_P [OF False] by blast
  qed
qed

interpretation shedding: bounded_middleware "LoadShed_Middleware procs config keyFn" 1
  by (rule shed_once)

interpretation breaking: bounded_middleware "Breaker_Middleware config keyFn" 1
  by (rule breaker_once)

lemma pause_ext [simp]: "pw_ext (snd (pause config multiplier ctx attempt w)) = pw_ext w"
  by (simp add: pause_def sleep_def draw_def Let_def split: option.split)

lemma retry_loop_calls:
  fixes cnt :: "'x \<Rightarrow> nat"
  assumes n: "\<And>ctx w. cnt (pw_ext (snd (next ctx w))) \<le> cnt (pw_ext w) + k"
  shows "cnt (pw_ext (snd (retry_loop config retryable multiplier next ctx n attempt lastErr w))) \<le> cnt (pw_ext w) + n * k"
proof (induction n arbitrary: attempt lastErr w)
  case (Suc n)
  obtain res w' where c: "next (ctx\<lparr>cc_attempt := attempt\<rparr>) w = (res, w')" by fastforce
  have one: "cnt (pw_ext w') \<le> cnt (pw_ext w) + k" using n [of "ctx\<lparr>cc_attempt := attempt\<rparr>" w] c by simp
  obtain r w'' where p: "pause config multiplier ctx attempt w' = (r, w'')" by fastforce
  then have e: "pw_ext w'' = pw_ext w'" by (metis pause_ext snd_conv)
  have "cnt (pw_ext (snd (retry_loop config retryable multiplier next ctx n (attempt + 1) l w''))) \<le> cnt (pw_ext w) + (k + n * k)" for l
    using Suc.IH [of "attempt + 1" l w''] one e by simp
  then show ?case using one c p e by (auto split: option.split outcome.split)
qed simp

interpretation retrying: bounded_middleware "Retry config" "max 1 (nat (rt_MaxAttempts config))"
proof
  fix "next" :: "'a pworld handler" and cnt :: "'a \<Rightarrow> nat" and k ctx and w :: "'a pworld"
  assume n: "\<And>ctx w. cnt (pw_ext (snd (next ctx w))) \<le> cnt (pw_ext w) + k"
  define b where "b = max 1 (nat (rt_MaxAttempts config))"
  have b: "1 \<le> b" "nat (rt_MaxAttempts config) \<le> b" by (simp_all add: b_def)
  have "1 * k \<le> b * k" by (rule mult_right_mono [OF b(1)]) simp
  with n [of ctx w] have one: "cnt (pw_ext (snd (next ctx w))) \<le> cnt (pw_ext w) + b * k" by linarith
  have "nat (rt_MaxAttempts config) * k \<le> b * k" by (rule mult_right_mono [OF b(2)]) simp
  with retry_loop_calls [of cnt "next" k config _ _ ctx "nat (rt_MaxAttempts config)" 1 None w, OF n]
  have "cnt (pw_ext (snd (retry_loop config r mu next ctx (nat (rt_MaxAttempts config)) 1 None w))) \<le>
      cnt (pw_ext w) + b * k" for r mu by (meson add_le_cancel_left order_trans)
  with one have "cnt (pw_ext (snd (Retry config next ctx w))) \<le> cnt (pw_ext w) + b * k"
    by (simp add: Retry_def split: option.split)
  then show "cnt (pw_ext (snd (Retry config next ctx w))) \<le> cnt (pw_ext w) + max 1 (nat (rt_MaxAttempts config)) * k"
    by (simp only: b_def)
qed

text \<open>The bounds of the middlewares of a policy, in their order.\<close>

definition policy_bounds :: "RPCPolicyConfig \<Rightarrow> nat list" where
  "policy_bounds c =
     (if 0 < to_Timeout (rp_Timeout c) \<or> 0 < to_Minimum (rp_Timeout c) \<or> 0 < to_Reserve (rp_Timeout c) then [1] else []) @
     (if 1 < rt_MaxAttempts (rp_Retry c) then [max 1 (nat (rt_MaxAttempts (rp_Retry c)))] else []) @
     (if rl_Enabled (rp_RateLimit c) then [1] else []) @ (if ls_Enabled (rp_LoadShed c) then [1] else []) @
     (if cb_Enabled (rp_Circuit c) then [1] else [])"

lemma list_all2_optional: "P m n \<Longrightarrow> list_all2 P (if b then [m] else []) (if b then [n] else [])"
  by simp

lemma Middlewares_bounded: "list_all2 bounded_middleware (Middlewares c) (policy_bounds c)"
  unfolding Middlewares_def policy_bounds_def
  by (intro list_all2_appendI list_all2_optional timeout.bounded_middleware_axioms limiter.bounded_middleware_axioms shed_once
      breaker_once retrying.bounded_middleware_axioms)

text \<open>Property C32: a policy calls the transport at most \<open>MaxAttempts\<close> times per call (once when there are no retries). Whatever
  the configuration and the answers of the transport, any measure of the rest of the system that a transport call raises by
  at most one is raised by at most that number.\<close>

theorem policy_call_bound:
  fixes cnt :: "'x \<Rightarrow> nat"
  assumes "\<And>ctx w. cnt (pw_ext (snd (transport ctx w))) \<le> cnt (pw_ext w) + 1"
  shows "cnt (pw_ext (snd (Policy_UnaryClientInterceptor (Some c) ctx rpc transport w))) \<le>
    cnt (pw_ext w) + max 1 (nat (rt_MaxAttempts (rp_Retry c)))"
proof -
  have p: "prod_list (policy_bounds c) \<le> max 1 (nat (rt_MaxAttempts (rp_Retry c)))" by (simp add: policy_bounds_def)
  have s: "some_values (map Some ms) = ms" for ms :: "'x pworld middleware list" by (induction ms) simp_all
  let ?ctx = "client_metadata rpc (case ctx of None \<Rightarrow> background_ctx | Some c \<Rightarrow> c)"
  have "snd (Policy_UnaryClientInterceptor (Some c) ctx rpc transport w) = snd (foldr (\<lambda>m wrapped. m wrapped) (Middlewares c) transport ?ctx w)"
    by (simp add: Policy_UnaryClientInterceptor_def UnaryClientInterceptor_def chain_Handle_def chain_New_def chain_Use_def s chain_Then_foldr)
  then show ?thesis
    using bounded_middleware.calls [OF bounded_chain [OF Middlewares_bounded [of c]], of cnt transport 1 ?ctx w] assms p by fastforce
qed

interpretation shed_break: bounded_stack "LoadShed_Middleware procs sconfig keyFn" "Breaker_Middleware bconfig keyFn" 1 1
  by unfold_locales

section \<open>What an attempt goes through\<close>

text \<open>The part of the chain that retries wrap.\<close>

definition attempt_stack :: "RPCPolicyConfig \<Rightarrow> 'x pworld middleware" where
  "attempt_stack c next =
     RateLimit_Middleware (rp_RateLimit c) (rp_Cost c) (rp_Key c)
       (LoadShed_Middleware (rp_procs c) (rp_LoadShed c) (rp_Key c) (Breaker_Middleware (rp_Circuit c) (rp_Key c) next))"

definition group_bucket :: "RPCPolicyConfig \<Rightarrow> string \<Rightarrow> 'x pworld \<Rightarrow> TokenBucket" where
  "group_bucket c key w = (case map_of (pw_buckets w) key of None \<Rightarrow> NewTokenBucket (pw_now w) (rp_RateLimit c) | Some b \<Rightarrow> b)"

definition group_shedder :: "RPCPolicyConfig \<Rightarrow> string \<Rightarrow> 'x pworld \<Rightarrow> LoadShedder" where
  "group_shedder c key w = (case map_of (pw_shedders w) key of None \<Rightarrow> NewLoadShedder (rp_procs c) (rp_LoadShed c) | Some s \<Rightarrow> s)"

definition group_breaker :: "RPCPolicyConfig \<Rightarrow> string \<Rightarrow> 'x pworld \<Rightarrow> CircuitBreaker" where
  "group_breaker c key w = (case map_of (pw_breakers w) key of None \<Rightarrow> NewCircuitBreaker (rp_Circuit c) | Some b \<Rightarrow> b)"

text \<open>What the limiters leave alone on the way to the transport.\<close>

definition same_rest :: "'x pworld \<Rightarrow> 'x pworld \<Rightarrow> bool" where
  "same_rest w w' \<longleftrightarrow> pw_now w' = pw_now w \<and> pw_ext w' = pw_ext w"

definition call_cost :: "RPCPolicyConfig \<Rightarrow> call_ctx \<Rightarrow> rat" where
  "call_cost c ctx = (case rp_Cost c of None \<Rightarrow> 1 | Some f \<Rightarrow> f ctx)"

lemma bucket_Allow_Some: "\<exists>b'. snd (bucket_Allow now cost (Some b)) = Some b'"
  by (simp add: bucket_Allow_def Let_def)

text \<open>What the shedder and the breaker make of the outcome of the handler they let through.\<close>

definition shed_result :: "string \<Rightarrow> int \<Rightarrow> (string, goerr option) outcome \<times> 'x pworld \<Rightarrow> (string, goerr option) outcome \<times> 'x pworld" where
  "shed_result key t r =
     (case r of
        (Panic p, w) \<Rightarrow> (Panic p, release_at key t (Some ErrLoadShed) w)
      | (Return None, w) \<Rightarrow> (Return None, release_at key t None w)
      | (Return (Some e), w) \<Rightarrow> (Return (Some (if e = ErrLoadShed then reject ''load-shed'' key ErrLoadShed else e)), release_at key t (Some e) w))"

definition break_result :: "string \<Rightarrow> (string, goerr option) outcome \<times> 'x pworld \<Rightarrow> (string, goerr option) outcome \<times> 'x pworld" where
  "break_result key r =
     (case r of
        (Panic p, w) \<Rightarrow> (Panic p, complete_at key (Some (Err ''downstream panic'' [])) w)
      | (Return None, w) \<Rightarrow> (Return None, complete_at key None w)
      | (Return (Some e), w) \<Rightarrow> (Return (Some (if err_is e ErrCircuitOpen then reject ''circuit'' key ErrCircuitOpen else e)), complete_at key (Some e) w))"

text \<open>An outcome that is passed on, up to the relabelling of the rejections.\<close>

definition passed_on :: "(string, goerr option) outcome \<Rightarrow> (string, goerr option) outcome \<Rightarrow> bool" where
  "passed_on o1 o2 \<longleftrightarrow>
     (case o1 of
        Panic p \<Rightarrow> o2 = Panic p
      | Return None \<Rightarrow> o2 = Return None
      | Return (Some e) \<Rightarrow> \<exists>e'. o2 = Return (Some e') \<and> (\<not> err_is e ErrCircuitOpen \<and> e \<noteq> ErrLoadShed \<longrightarrow> e' = e))"

lemma shed_break_passed:
  "passed_on (fst r) (fst (shed_result key t (break_result key r))) \<and> pw_ext (snd (shed_result key t (break_result key r))) = pw_ext (snd r)"
  by (simp add: shed_result_def break_result_def passed_on_def split: prod.split outcome.split option.split)

lemma limiter_branches:
  defines "key ctx c \<equiv> resolveKey ctx (rp_Key c)"
  assumes "bucket_Allow (pw_now w) (call_cost c ctx) (Some (group_bucket c (key ctx c) w)) = (ok, Some b)"
  shows "RateLimit_Middleware (rp_RateLimit c) (rp_Cost c) (rp_Key c) next ctx w =
    (let w' = w\<lparr>pw_buckets := AList.update (key ctx c) b (find_or_new (key ctx c) (NewTokenBucket (pw_now w) (rp_RateLimit c)) (pw_buckets w))\<rparr> in
     if ok then next ctx w' else (Return (Some (reject ''rate-limit'' (key ctx c) ErrRateLimited)), w'))"
  using assms by (simp add: RateLimit_Middleware_def Let_def Group_Bucket_def find_or_new_lookup call_cost_def group_bucket_def)

lemma shedder_branches:
  defines "key ctx c \<equiv> resolveKey ctx (rp_Key c)"
  assumes "acquire (pw_now w) ctx (group_shedder c (key ctx c) w) = (start, s)" "ls_Enabled (ls_config (group_shedder c (key ctx c) w))"
  shows "LoadShed_Middleware (rp_procs c) (rp_LoadShed c) (rp_Key c) next ctx w =
    (let w' = w\<lparr>pw_shedders := AList.update (key ctx c) s (find_or_new (key ctx c) (NewLoadShedder (rp_procs c) (rp_LoadShed c)) (pw_shedders w))\<rparr> in
     case start of
       None \<Rightarrow> (Return (Some (reject ''load-shed'' (key ctx c) ErrLoadShed)), w')
     | Some t \<Rightarrow> shed_result (key ctx c) t (next ctx w'))"
  using assms
  by (simp add: LoadShed_Middleware_def Let_def Group_Shedder_def find_or_new_lookup group_shedder_def shedder_Execute_def shed_result_def
      split: option.split prod.split outcome.split)

lemma breaker_branches:
  defines "key ctx c \<equiv> resolveKey ctx (rp_Key c)"
  assumes "allow (pw_now w) (group_breaker c (key ctx c) w) = (ok, b)" "cb_Enabled (cb_config (group_breaker c (key ctx c) w))"
  shows "Breaker_Middleware (rp_Circuit c) (rp_Key c) next ctx w =
    (let w' = w\<lparr>pw_breakers := AList.update (key ctx c) b (find_or_new (key ctx c) (NewCircuitBreaker (rp_Circuit c)) (pw_breakers w))\<rparr> in
     if \<not> ok then (Return (Some (reject ''circuit'' (key ctx c) ErrCircuitOpen)), w')
     else break_result (key ctx c) (next ctx w'))"
  using assms
  by (cases ok) (simp_all add: Breaker_Middleware_def Let_def Group_Breaker_def find_or_new_lookup group_breaker_def breaker_Execute_def ErrCircuitOpen_def break_result_def
      split: option.split prod.split outcome.split)

text \<open>An attempt is governed by the limiter, the shedder and the breaker of its key, in that order. It is rejected
  with the error of the first of them that refuses it, and then the transport is not called; otherwise the transport is
  called once, at the same time and with the rest of the system as it was, and its outcome - success, error or panic - is
  the outcome of the attempt, the rejections of inner policies being relabelled.\<close>

theorem attempt_governed:
  fixes w :: "'x pworld" and transport :: "'x pworld handler"
  assumes "ls_Enabled (ls_config (group_shedder c (resolveKey ctx (rp_Key c)) w))"
    and "cb_Enabled (cb_config (group_breaker c (resolveKey ctx (rp_Key c)) w))"
  defines "key \<equiv> resolveKey ctx (rp_Key c)"
  defines "res \<equiv> attempt_stack c transport ctx w"
  defines "limited \<equiv> \<not> fst (bucket_Allow (pw_now w) (call_cost c ctx) (Some (group_bucket c key w)))"
  defines "shed \<equiv> fst (acquire (pw_now w) ctx (group_shedder c key w)) = None"
  defines "opened \<equiv> \<not> fst (allow (pw_now w) (group_breaker c key w))"
  shows "if limited then fst res = Return (Some (reject ''rate-limit'' key ErrRateLimited)) \<and> pw_ext (snd res) = pw_ext w
    else if shed then fst res = Return (Some (reject ''load-shed'' key ErrLoadShed)) \<and> pw_ext (snd res) = pw_ext w
    else if opened then fst res = Return (Some (reject ''circuit'' key ErrCircuitOpen)) \<and> pw_ext (snd res) = pw_ext w
    else \<exists>w1. same_rest w w1 \<and> pw_ext (snd res) = pw_ext (snd (transport ctx w1)) \<and> passed_on (fst (transport ctx w1)) (fst res)"
proof -
  obtain ok b where l: "bucket_Allow (pw_now w) (call_cost c ctx) (Some (group_bucket c key w)) = (ok, Some b)"
    by (metis bucket_Allow_Some prod.collapse)
  let ?w1 = "w\<lparr>pw_buckets := AList.update key b (find_or_new key (NewTokenBucket (pw_now w) (rp_RateLimit c)) (pw_buckets w))\<rparr>"
  obtain start s where a: "acquire (pw_now w) ctx (group_shedder c key w) = (start, s)" by fastforce
  let ?w2 = "?w1\<lparr>pw_shedders := AList.update key s (find_or_new key (NewLoadShedder (rp_procs c) (rp_LoadShed c)) (pw_shedders w))\<rparr>"
  obtain go br where o: "allow (pw_now w) (group_breaker c key w) = (go, br)" by fastforce
  let ?w3 = "?w2\<lparr>pw_breakers := AList.update key br (find_or_new key (NewCircuitBreaker (rp_Circuit c)) (pw_breakers w))\<rparr>"
  have g1: "group_shedder c key ?w1 = group_shedder c key w" by (simp add: group_shedder_def)
  have g2: "group_breaker c key ?w2 = group_breaker c key w" by (simp add: group_breaker_def)
  note L = limiter_branches [of w c ctx ok b, folded key_def, OF l]
  note S = shedder_branches [of ?w1 ctx c start s, folded key_def, unfolded g1, OF _ assms(1) [folded key_def]]
  note B = breaker_branches [of ?w2 c ctx go br, folded key_def, unfolded g2, OF _ assms(2) [folded key_def]]
  have rest: "same_rest w ?w3" by (simp add: same_rest_def)
  have e: "limited = (\<not> ok)" "shed = (start = None)" "opened = (\<not> go)" using l a o by (simp_all add: limited_def shed_def opened_def)
  have res: "res = (if \<not> ok then (Return (Some (reject ''rate-limit'' key ErrRateLimited)), ?w1)
      else LoadShed_Middleware (rp_procs c) (rp_LoadShed c) (rp_Key c) (Breaker_Middleware (rp_Circuit c) (rp_Key c) transport) ctx ?w1)"
    unfolding res_def attempt_stack_def L by (simp add: Let_def)
  show ?thesis
  proof (cases start)
    case None
    have "LoadShed_Middleware (rp_procs c) (rp_LoadShed c) (rp_Key c) next ctx ?w1 = (Return (Some (reject ''load-shed'' key ErrLoadShed)), ?w2)" for "next"
      using S [of "next"] a None by (simp add: Let_def)
    then show ?thesis using None unfolding e res by simp
  next
    case (Some t)
    have S': "LoadShed_Middleware (rp_procs c) (rp_LoadShed c) (rp_Key c) (Breaker_Middleware (rp_Circuit c) (rp_Key c) transport) ctx ?w1 =
        shed_result key t (Breaker_Middleware (rp_Circuit c) (rp_Key c) transport ctx ?w2)"
      using S [of "Breaker_Middleware (rp_Circuit c) (rp_Key c) transport"] a Some by (simp add: Let_def)
    show ?thesis
    proof (cases go)
      case False
      have "Breaker_Middleware (rp_Circuit c) (rp_Key c) transport ctx ?w2 = (Return (Some (reject ''circuit'' key ErrCircuitOpen)), ?w3)"
        using B [of transport] o False by (simp add: Let_def)
      then show ?thesis using Some False unfolding e res S' by (simp add: reject_def ErrLoadShed_def shed_result_def)
    next
      case True
      have B': "Breaker_Middleware (rp_Circuit c) (rp_Key c) transport ctx ?w2 = break_result key (transport ctx ?w3)"
        using B [of transport] o True by (simp add: Let_def)
      show ?thesis using Some True rest shed_break_passed [of "transport ctx ?w3" key t] unfolding e res S' B' by (cases ok) auto
    qed
  qed
qed

section \<open>Timeout budgets\<close>

text \<open>The budget of a call stays inside the one of its caller. A call with a deadline is rejected exactly when what is
  left after the reserve is nothing or less than the minimum; otherwise its own deadline is at least the reserve before the
  deadline of the caller, after the present, and no further away than the timeout.\<close>

theorem timeout_budget_kept:
  assumes "cc_deadline ctx = Some d"
  shows "(availableTimeout now ctx config = Inl ErrTimeoutBudgetExceeded \<longleftrightarrow>
      d - now \<le> max 0 (to_Reserve config) \<or> 0 < to_Minimum config \<and> d - now < max 0 (to_Reserve config) + to_Minimum config) \<and>
    (availableTimeout now ctx config \<noteq> Inl ErrTimeoutBudgetExceeded \<longrightarrow>
      (\<exists>t d'. availableTimeout now ctx config = Inr (Some t) \<and> cc_deadline (with_timeout now t ctx) = Some d' \<and>
         now < d' \<and> d' \<le> d - max 0 (to_Reserve config) \<and> (0 < to_Timeout config \<longrightarrow> d' - now \<le> to_Timeout config)))"
proof -
  define avail where "avail = d - now - max 0 (to_Reserve config)"
  have a: "availableTimeout now ctx config =
      (if avail \<le> 0 \<or> 0 < to_Minimum config \<and> avail < to_Minimum config then Inl ErrTimeoutBudgetExceeded
       else Inr (Some (if 0 < to_Timeout config \<and> to_Timeout config < avail then to_Timeout config else avail)))"
    using assms by (auto simp: availableTimeout_def Let_def avail_def max_def)
  show ?thesis unfolding a using assms by (auto simp: with_timeout_def avail_def)
qed

section \<open>Retry delays\<close>

lemma delay_loop_bounded:
  assumes "0 \<le> delay" "delay \<le> of_int (rt_MaxDelay config)" "0 < rt_MaxDelay config" "rt_MaxDelay config < 2 ^ 53" "1 \<le> multiplier" "multiplier \<le> 1000"
  shows "0 \<le> delay_loop config multiplier n delay \<and> delay_loop config multiplier n delay \<le> of_int (rt_MaxDelay config)"
  using assms(1,2)
proof (induction n arbitrary: delay)
  case (Suc n)
  let ?d = "f64_mul delay multiplier"
  have mx: "f64_of_int (rt_MaxDelay config) = of_int (rt_MaxDelay config)" using assms(3,4) by (simp add: f64_of_int_def f64_int)
  have "of_int (rt_MaxDelay config) < (of_int (2 ^ 53) :: rat)" using assms(4) by (simp only: of_int_less_iff)
  then have "delay * multiplier \<le> 2 ^ 53 * 1000" using Suc.prems assms(5,6) by (intro mult_mono) auto
  also have "(2::rat) ^ 53 * 1000 = of_int 1000 * 2 powi 53" by simp
  finally have "?d \<le> f64 (of_int 1000 * 2 powi 53)" unfolding f64_mul_def by (rule f64_mono)
  also have "\<dots> = of_int 1000 * 2 powi 53" by (rule f64_dyadic) simp_all
  finally have le: "?d \<le> of_int 1000 * 2 powi 53" .
  have ge: "0 \<le> ?d" using Suc.prems assms(5) by (simp add: f64_mul_def f64_nonneg)
  have "?d < 2 ^ 63" using le by simp
  then have fl: "int64_of_f64 ?d = \<lfloor>?d\<rfloor>" by (rule int64_floor [OF ge])
  show ?case
  proof (cases "rt_MaxDelay config \<le> \<lfloor>?d\<rfloor>")
    case False
    then have "?d \<le> of_int (rt_MaxDelay config)" by linarith
    with Suc.IH [OF ge] False assms(3) fl show ?thesis by simp
  qed (use assms(3) fl mx in simp)
qed simp

text \<open>Without jitter a retry waits at most \<open>MaxDelay\<close>. For a base delay not above it and a multiplier up to 1000 every
  delay is between zero and \<open>MaxDelay\<close>, whatever the attempt.\<close>

theorem retryDelay_bounded:
  assumes "rt_BaseDelay config \<le> rt_MaxDelay config" "0 < rt_MaxDelay config" "rt_MaxDelay config < 2 ^ 53"
    and "1 \<le> multiplier" "multiplier \<le> 1000" "rt_Jitter config \<le> 0"
  shows "0 \<le> retryDelay config multiplier sample attempt \<and> retryDelay config multiplier sample attempt \<le> rt_MaxDelay config"
proof (cases "rt_BaseDelay config \<le> 0")
  case False
  let ?d = "delay_loop config multiplier (nat (attempt - 1)) (f64_of_int (rt_BaseDelay config))"
  have "f64_of_int (rt_BaseDelay config) = of_int (rt_BaseDelay config)" using False assms(1,3) by (simp add: f64_of_int_def f64_int)
  then have "0 \<le> f64_of_int (rt_BaseDelay config)" "f64_of_int (rt_BaseDelay config) \<le> of_int (rt_MaxDelay config)" using False assms(1) by simp_all
  from delay_loop_bounded [OF this assms(2-5)] have d: "0 \<le> ?d" "?d \<le> of_int (rt_MaxDelay config)" by simp_all
  have "rt_MaxDelay config < 2 ^ 63" using assms(3) by simp
  then have "of_int (rt_MaxDelay config) < (of_int (2 ^ 63) :: rat)" by (simp only: of_int_less_iff)
  with d(2) have "?d < 2 ^ 63" by simp
  with d have "int64_of_f64 ?d = \<lfloor>?d\<rfloor>" by (simp add: int64_floor)
  moreover have "\<lfloor>?d\<rfloor> \<le> rt_MaxDelay config" "0 \<le> \<lfloor>?d\<rfloor>" using d by linarith+
  ultimately show ?thesis using False assms(6) d(1) by (simp add: retryDelay_def Let_def)
qed (use assms in \<open>simp add: retryDelay_def\<close>)

text \<open>The jitter is applied after the cut: a jittered delay can exceed \<open>MaxDelay\<close>. And the cut is made only when the delay grows: the
  first delay is the base delay even when that is larger.\<close>

definition ex_retry :: RetryConfig where
  "ex_retry = \<lparr>rt_MaxAttempts = 3, rt_BaseDelay = 100, rt_MaxDelay = 100, rt_Multiplier = 2, rt_Jitter = 0, rt_Idempotent = None,
     rt_Retryable = Some (\<lambda>e. True)\<rparr>"

lemma jittered_delay_exceeds: "retryDelay (ex_retry\<lparr>rt_Jitter := 1\<rparr>) 2 (3 / 4) 2 = 150"
  by code_simp

lemma first_delay_exceeds: "retryDelay (ex_retry\<lparr>rt_BaseDelay := 500\<rparr>) 2 0 1 = 500"
  by code_simp

section \<open>Witnesses\<close>

theorem retryDelay_bounded_witness: "retryDelay ex_retry 2 0 3 \<le> 100"
  using retryDelay_bounded [of ex_retry 2 0 3] by (simp add: ex_retry_def)

theorem timeout_budget_kept_witness:
  "\<exists>d'. cc_deadline (with_timeout 10 30 (background_ctx\<lparr>cc_deadline := Some 100\<rparr>)) = Some d' \<and> d' \<le> 80 \<and>
     availableTimeout 10 (background_ctx\<lparr>cc_deadline := Some 100\<rparr>) \<lparr>to_Timeout = 30, to_Reserve = 20, to_Minimum = 5\<rparr> = Inr (Some 30)"
proof -
  let ?ctx = "background_ctx\<lparr>cc_deadline := Some 100\<rparr>" and ?c = "\<lparr>to_Timeout = 30, to_Reserve = 20, to_Minimum = 5\<rparr>"
  have d: "cc_deadline ?ctx = Some 100" by simp
  have "availableTimeout 10 ?ctx ?c = Inr (Some 30)" by code_simp
  with timeout_budget_kept [OF d, of 10 ?c] show ?thesis by auto
qed

definition ex_policy :: RPCPolicyConfig where
  "ex_policy = \<lparr>rp_Key = None, rp_Timeout = \<lparr>to_Timeout = 0, to_Reserve = 0, to_Minimum = 0\<rparr>, rp_Retry = ex_retry, rp_Circuit = ex_circuit,
     rp_RateLimit = ex_limit, rp_Cost = None, rp_LoadShed = ex_shed, rp_procs = 1\<rparr>"

definition ex_pworld :: "nat pworld" where
  "ex_pworld = \<lparr>pw_now = 5, pw_breakers = [], pw_buckets = [], pw_shedders = [], pw_samples = (\<lambda>n. 0), pw_drawn = 0, pw_ext = 0\<rparr>"

definition ex_transport :: "nat pworld handler" where
  "ex_transport ctx w = (Return (Some ErrDeadlineExceeded), w\<lparr>pw_ext := Suc (pw_ext w)\<rparr>)"

theorem policy_call_bound_witness:
  "pw_ext (snd (Policy_UnaryClientInterceptor (Some ex_policy) None ''get'' ex_transport ex_pworld)) \<le> 3"
  using policy_call_bound [of "\<lambda>n. n" ex_transport ex_policy None "''get''" ex_pworld]
  by (simp add: ex_transport_def ex_policy_def ex_retry_def ex_pworld_def)

theorem attempt_governed_witness: "pw_ext (snd (attempt_stack ex_policy ex_transport background_ctx ex_pworld)) = 1"
proof -
  let ?k = "resolveKey background_ctx (rp_Key ex_policy)"
  have e: "ls_Enabled (ls_config (group_shedder ex_policy ?k ex_pworld))" "cb_Enabled (cb_config (group_breaker ex_policy ?k ex_pworld))" by code_simp+
  have g: "fst (bucket_Allow (pw_now ex_pworld) (call_cost ex_policy background_ctx) (Some (group_bucket ex_policy ?k ex_pworld)))"
    "fst (acquire (pw_now ex_pworld) background_ctx (group_shedder ex_policy ?k ex_pworld)) \<noteq> None"
    "fst (allow (pw_now ex_pworld) (group_breaker ex_policy ?k ex_pworld))" by code_simp+
  from attempt_governed [OF e, of ex_transport] g show ?thesis by (auto simp: ex_transport_def same_rest_def ex_pworld_def)
qed

end
