(* ===== verification/Snowflake.thy ===== *)
theory Snowflake
  imports Prelude "HOL-Library.Word"
begin

text \<open>
  The generator of 64-bit ids (\<open>pkg/uuid/snowflake.go\<close>): milliseconds since 2017 in the upper bits, a worker number of ten bits and a
  sequence number of twelve. All numbers are \<open>int64\<close>, here words of 64 bits, compared as signed integers. The clock is the list of
  its readings in milliseconds: a call takes the readings it needs from the front, and is \<^const>\<open>None\<close> when it waits for one that is not
  there. \<open>Generate\<close> holds the mutex of the generator, so its calls are a sequence.
\<close>

unbundle bit_operations_syntax

section \<open>The generator\<close>

definition twepoch :: "64 word" where "twepoch = 1483228800000"
definition workeridBits :: nat where "workeridBits = 10"
definition sequenceBits :: nat where "sequenceBits = 12"
definition workeridMax :: "64 word" where "workeridMax = (-1) XOR push_bit workeridBits (-1)"
definition sequenceMask :: "64 word" where "sequenceMask = (-1) XOR push_bit sequenceBits (-1)"
definition workeridShift :: nat where "workeridShift = sequenceBits"
definition timestampShift :: nat where "timestampShift = sequenceBits + workeridBits"

record Snowflake =
  sf_timestamp :: "64 word"
  sf_workerid :: "64 word"
  sf_sequence :: "64 word"

definition NewSnowflake :: "64 word \<Rightarrow> Snowflake result" where
  "NewSnowflake workerid =
     (if sint workerid < 0 \<or> sint workerid > sint workeridMax then Inl (Err ''workerid must be between 0 and 1023'' [])
      else Inr \<lparr>sf_timestamp = 0, sf_workerid = workerid, sf_sequence = 0\<rparr>)"

text \<open>The loop that waits for the next millisecond.\<close>

fun wait_clock :: "64 word \<Rightarrow> 64 word list \<Rightarrow> (64 word \<times> 64 word list) option" where
  "wait_clock timestamp [] = None"
| "wait_clock timestamp (now # clock) = (if sint now \<le> sint timestamp then wait_clock timestamp clock else Some (now, clock))"

definition make_id :: "64 word \<Rightarrow> 64 word \<Rightarrow> 64 word \<Rightarrow> 64 word" where
  "make_id now workerid sequence = push_bit timestampShift (now - twepoch) OR push_bit workeridShift workerid OR sequence"

definition Generate :: "Snowflake \<Rightarrow> 64 word list \<Rightarrow> (64 word \<times> Snowflake \<times> 64 word list) option" where
  "Generate s clock =
     (case clock of
        [] \<Rightarrow> None
      | now # clock \<Rightarrow>
        (let finish = (\<lambda>sequence now clock. Some (make_id now (sf_workerid s) sequence, s\<lparr>sf_timestamp := now, sf_sequence := sequence\<rparr>, clock)) in
         if sf_timestamp s = now then
           (let sequence = (sf_sequence s + 1) AND sequenceMask in
            if sequence = 0 then
              (if sint now \<le> sint (sf_timestamp s)
               then (case wait_clock (sf_timestamp s) clock of None \<Rightarrow> None | Some (now, clock) \<Rightarrow> finish sequence now clock)
               else finish sequence now clock)
            else finish sequence now clock)
         else finish 0 now clock))"

fun generate_many :: "nat \<Rightarrow> Snowflake \<Rightarrow> 64 word list \<Rightarrow> (64 word list \<times> Snowflake \<times> 64 word list) option" where
  "generate_many 0 s clock = Some ([], s, clock)"
| "generate_many (Suc n) s clock =
     (case Generate s clock of
        None \<Rightarrow> None
      | Some (i, s1, clock1) \<Rightarrow>
        (case generate_many n s1 clock1 of None \<Rightarrow> None | Some (is, s2, clock2) \<Rightarrow> Some (i # is, s2, clock2)))"

section \<open>The package\<close>

text \<open>The package variables. \<open>init\<close> declares a local variable \<open>snowFlake\<close> that shadows the one of the package, which stays nil until
  \<open>Init\<close>.\<close>

record uuid_state =
  uu_snowFlake :: "Snowflake option"
  uu_default :: "Snowflake option"
  uu_rand :: "Snowflake option"

definition drop_error :: "Snowflake result \<Rightarrow> Snowflake option" where
  "drop_error r = (case r of Inl _ \<Rightarrow> None | Inr s \<Rightarrow> Some s)"

definition uuid_init :: uuid_state where
  "uuid_init = \<lparr>uu_snowFlake = None, uu_default = drop_error (NewSnowflake 1), uu_rand = drop_error (NewSnowflake 1)\<rparr>"

definition Init :: "64 word \<Rightarrow> uuid_state \<Rightarrow> uuid_state" where
  "Init mechinaId u = (case uu_snowFlake u of None \<Rightarrow> u\<lparr>uu_snowFlake := drop_error (NewSnowflake mechinaId)\<rparr> | Some _ \<Rightarrow> u)"

text \<open>\<open>UniqueIdGenerater\<close>: a generator by pointer; the error of its construction is dropped, so the pointer may be nil.\<close>

definition NewUniqueIdGenerater :: "64 word \<Rightarrow> Snowflake option" where
  "NewUniqueIdGenerater mechiaId = drop_error (NewSnowflake mechiaId)"

definition generater_GetId :: "Snowflake option \<Rightarrow> 64 word list \<Rightarrow> ((string, 64 word) outcome \<times> Snowflake option \<times> 64 word list) option" where
  "generater_GetId g clock =
     (case g of
        None \<Rightarrow> Some (Panic ''runtime error: invalid memory address or nil pointer dereference'', None, clock)
      | Some s \<Rightarrow> (case Generate s clock of None \<Rightarrow> None | Some (i, s1, clock1) \<Rightarrow> Some (Return i, Some s1, clock1)))"

definition GetId :: "uuid_state \<Rightarrow> 64 word list \<Rightarrow> ((string, 64 word) outcome \<times> uuid_state \<times> 64 word list) option" where
  "GetId u clock = (case generater_GetId (uu_snowFlake u) clock of None \<Rightarrow> None | Some (out, g, clock1) \<Rightarrow> Some (out, u\<lparr>uu_snowFlake := g\<rparr>, clock1))"

text \<open>\<open>strconv.FormatInt(i, 16)\<close>\<close>

function hex_nat :: "nat \<Rightarrow> string" where
  "hex_nat n = (if n < 16 then [hex_digit n] else hex_nat (n div 16) @ [hex_digit (n mod 16)])"
  by pat_completeness auto
termination by (relation "measure id") auto

declare hex_nat.simps [simp del]

definition format_hex :: "64 word \<Rightarrow> string" where
  "format_hex i = (if sint i < 0 then ''-'' @ hex_nat (nat (- sint i)) else hex_nat (nat (sint i)))"

definition Next :: "uuid_state \<Rightarrow> 64 word list \<Rightarrow> ((string, string) outcome \<times> uuid_state \<times> 64 word list) option" where
  "Next u clock =
     (case generater_GetId (uu_default u) clock of
        None \<Rightarrow> None
      | Some (Panic p, g, clock1) \<Rightarrow> Some (Panic p, u\<lparr>uu_default := g\<rparr>, clock1)
      | Some (Return i, g, clock1) \<Rightarrow> Some (Return (format_hex i), u\<lparr>uu_default := g\<rparr>, clock1))"

definition MachineNext :: "64 word \<Rightarrow> uuid_state \<Rightarrow> 64 word list \<Rightarrow> ((string, string) outcome \<times> uuid_state \<times> 64 word list) option" where
  "MachineNext machineID u clock =
     (case generater_GetId (map_option (\<lambda>s. s\<lparr>sf_workerid := machineID\<rparr>) (uu_rand u)) clock of
        None \<Rightarrow> None
      | Some (Panic p, g, clock1) \<Rightarrow> Some (Panic p, u\<lparr>uu_rand := g\<rparr>, clock1)
      | Some (Return i, g, clock1) \<Rightarrow> Some (Return (format_hex i), u\<lparr>uu_rand := g\<rparr>, clock1))"

section \<open>The layout of an id\<close>

lemma or_shifted: "b < 2 ^ n \<Longrightarrow> push_bit n a OR b = a * 2 ^ n + (b :: nat)"
proof -
  assume "b < 2 ^ n"
  then have "take_bit n b = b" by (simp add: take_bit_nat_eq_self)
  then have low: "bit b m \<Longrightarrow> m < n" for m by (metis bit_take_bit_iff)
  have "push_bit n a AND b = 0" by (rule bit_eqI) (auto simp: bit_simps dest: low)
  then show ?thesis using disjunctive_add_eq_or [of "push_bit n a" b] by (simp add: push_bit_eq_mult)
qed

lemma sequenceMask_eq: "sequenceMask = mask 12"
  by (rule bit_word_eqI) (auto simp: sequenceMask_def sequenceBits_def bit_simps)

lemma workeridMax_eq: "workeridMax = 1023"
  by (simp add: workeridMax_def workeridBits_def mask_eq_exp_minus_1)

lemma masked_sequence: "unat ((q + 1 :: 64 word) AND sequenceMask) = (unat q + 1) mod 4096"
proof -
  have "(q + 1) AND sequenceMask = take_bit 12 (q + 1)" by (simp add: sequenceMask_eq take_bit_eq_mask)
  then have "unat ((q + 1) AND sequenceMask) = take_bit 12 (unat (q + 1))" by (simp add: unsigned_take_bit_eq)
  also have "\<dots> = (unat q + 1) mod 2 ^ 64 mod 2 ^ 12" by (simp add: take_bit_eq_mod unat_word_ariths)
  also have "\<dots> = (unat q + 1) mod 4096" by (simp add: mod_mod_cancel)
  finally show ?thesis .
qed

text \<open>The fields of an id do not overlap as long as the worker is valid and the time fits into 41 bits.\<close>

definition in_range :: "64 word \<Rightarrow> bool" where
  "in_range now \<longleftrightarrow> unat twepoch \<le> unat now \<and> unat now < unat twepoch + 2 ^ 41"

lemma unat_make_id:
  assumes "in_range now" "unat w < 1024" "unat q < 4096"
  shows "unat (make_id now w q) = (unat now - unat twepoch) * 2 ^ 22 + unat w * 2 ^ 12 + unat q"
proof -
  define t where "t = unat now - unat twepoch"
  have t: "unat (now - twepoch) = t" "t < 2 ^ 41"
    using assms(1) by (auto simp: in_range_def t_def unat_sub word_le_nat_alt)
  have "t * 2 ^ 22 < 2 ^ 64" "unat w * 2 ^ 12 < 2 ^ 64" using t(2) assms(2) by simp_all
  then have "take_bit 64 (push_bit 22 t) = push_bit 22 t" "take_bit 64 (push_bit 12 (unat w)) = push_bit 12 (unat w)"
    by (simp_all only: take_bit_nat_eq_self push_bit_eq_mult)
  then have "unat (push_bit 22 (now - twepoch)) = push_bit 22 t" "unat (push_bit 12 w) = push_bit 12 (unat w)"
    by (simp_all only: unsigned_push_bit_eq t(1)) simp_all
  then have "unat (make_id now w q) = push_bit 22 t OR (push_bit 12 (unat w) OR unat q)"
    unfolding make_id_def timestampShift_def workeridShift_def sequenceBits_def workeridBits_def by (simp add: unsigned_or_eq or.assoc)
  also have "\<dots> = push_bit 22 t OR (unat w * 2 ^ 12 + unat q)" using or_shifted [of "unat q" 12 "unat w"] assms(3) by simp
  also have "\<dots> = t * 2 ^ 22 + (unat w * 2 ^ 12 + unat q)" using or_shifted [of "unat w * 2 ^ 12 + unat q" 22 t] assms(2,3) by simp
  finally show ?thesis by (simp add: t_def)
qed

section \<open>Ids on a clock that does not go back\<close>

definition good_clock :: "64 word \<Rightarrow> 64 word list \<Rightarrow> bool" where
  "good_clock now clock = (list_all in_range clock \<and> sorted (map unat (now # clock)))"

definition good_state :: "Snowflake \<Rightarrow> bool" where
  "good_state s \<longleftrightarrow> unat (sf_timestamp s) < 2 ^ 63 \<and> unat (sf_workerid s) < 1024 \<and> unat (sf_sequence s) < 4096"

lemma sint_small: "unat (x :: 64 word) < 2 ^ 63 \<Longrightarrow> sint x = int (unat x)"
proof -
  assume "unat x < 2 ^ 63"
  then have "int (unat x) < int (2 ^ 63)" by (simp only: of_nat_less_iff)
  then have "uint x < 2 ^ 63" by simp
  moreover have "- (2 ^ 63) \<le> (0 :: int)" by simp
  then have "- (2 ^ 63) \<le> uint x" using uint_ge_0 [of x] by (rule order_trans)
  ultimately have "signed_take_bit 63 (uint x) = uint x" by (intro signed_take_bit_int_eq_self)
  then show ?thesis by (simp add: sint_uint)
qed

lemma in_range_small: "in_range x \<Longrightarrow> unat x < 2 ^ 63"
  by (simp add: in_range_def twepoch_def)

lemma wait_clock_good:
  "wait_clock ts clock = Some (now, clock') \<Longrightarrow> unat ts < 2 ^ 63 \<Longrightarrow> good_clock ts clock \<Longrightarrow>
     in_range now \<and> unat ts < unat now \<and> good_clock now clock'"
proof (induction clock)
  case (Cons c clock)
  have c: "in_range c" "good_clock c clock" "good_clock ts clock" using Cons.prems(3) by (auto simp: good_clock_def)
  show ?case
  proof (cases "sint c \<le> sint ts")
    case True
    with Cons c(3) show ?thesis by simp
  next
    case False
    with Cons.prems(1) have "now = c" "clock' = clock" by simp_all
    moreover have "unat ts < unat c"
      using False sint_small [OF Cons.prems(2)] sint_small [OF in_range_small [OF c(1)]] by linarith
    ultimately show ?thesis using c by simp
  qed
qed simp

text \<open>A call moves to a later millisecond or, within one, to the next sequence number.\<close>

lemma Generate_good:
  assumes run: "Generate s clock = Some (i, s', clock')" and s: "good_state s" and clock: "good_clock (sf_timestamp s) clock"
  shows "good_state s' \<and> in_range (sf_timestamp s') \<and> good_clock (sf_timestamp s') clock' \<and> sf_workerid s' = sf_workerid s \<and>
    i = make_id (sf_timestamp s') (sf_workerid s') (sf_sequence s') \<and>
    (unat (sf_timestamp s) < unat (sf_timestamp s') \<or> sf_timestamp s = sf_timestamp s' \<and> unat (sf_sequence s) < unat (sf_sequence s'))"
proof -
  from run obtain now clock1 where c: "clock = now # clock1" by (cases clock) (auto simp: Generate_def)
  have now: "in_range now" "good_clock now clock1" "good_clock (sf_timestamp s) clock1" "unat (sf_timestamp s) \<le> unat now"
    using clock by (auto simp: c good_clock_def)
  define q where "q = (sf_sequence s + 1) AND sequenceMask"
  have q: "unat q = (unat (sf_sequence s) + 1) mod 4096" unfolding q_def by (rule masked_sequence)
  have S: "unat (sf_timestamp s) < 2 ^ 63" "unat (sf_workerid s) < 1024" "unat (sf_sequence s) < 4096" using s by (simp_all add: good_state_def)
  consider (later) "sf_timestamp s \<noteq> now" | (same) "sf_timestamp s = now" "q \<noteq> 0" | (wrapped) "sf_timestamp s = now" "q = 0" by blast
  then show ?thesis
  proof cases
    case later
    then have "unat (sf_timestamp s) \<noteq> unat now" by (simp add: word_unat_eq_iff)
    with run c later now S in_range_small [OF now(1)] show ?thesis by (auto simp: Generate_def good_state_def)
  next
    case same
    from same(2) have "unat q \<noteq> 0" by (simp add: word_unat_eq_iff)
    with q have "unat q = unat (sf_sequence s) + 1" by (cases "unat (sf_sequence s) + 1 = 4096") (use S(3) in auto)
    with run c same now S q show ?thesis by (auto simp: Generate_def Let_def q_def [symmetric] good_state_def)
  next
    case wrapped
    with run c obtain now' where w: "wait_clock (sf_timestamp s) clock1 = Some (now', clock')"
      "s' = s\<lparr>sf_timestamp := now', sf_sequence := 0\<rparr>" "i = make_id now' (sf_workerid s) 0"
      by (auto simp: Generate_def Let_def q_def [symmetric] split: option.splits)
    from wait_clock_good [OF w(1) S(1) now(3)] S in_range_small [of now'] show ?thesis by (simp add: w(2,3) good_state_def)
  qed
qed

lemma make_id_less:
  assumes "in_range t" "in_range t'" "unat w < 1024" "unat q < 4096" "unat q' < 4096" "unat t < unat t' \<or> t = t' \<and> unat q < unat q'"
  shows "unat (make_id t w q) < unat (make_id t' w q')"
proof -
  have ids: "unat (make_id t w q) = (unat t - unat twepoch) * 2 ^ 22 + unat w * 2 ^ 12 + unat q"
    "unat (make_id t' w q') = (unat t' - unat twepoch) * 2 ^ 22 + unat w * 2 ^ 12 + unat q'"
    using assms(1-5) by (simp_all only: unat_make_id)
  show ?thesis
  proof (cases "unat t < unat t'")
    case True
    then have "unat t - unat twepoch + 1 \<le> unat t' - unat twepoch" using assms(1) unfolding in_range_def by linarith
    then have "(unat t - unat twepoch + 1) * 2 ^ 22 \<le> (unat t' - unat twepoch) * 2 ^ 22" by (rule mult_le_mono1)
    then show ?thesis using ids assms(4) by simp
  next
    case False
    then show ?thesis using ids assms(6) by auto
  qed
qed

lemma make_id_small: "in_range t \<Longrightarrow> unat w < 1024 \<Longrightarrow> unat q < 4096 \<Longrightarrow> unat (make_id t w q) < 2 ^ 63"
proof -
  assume a: "in_range t" "unat w < 1024" "unat q < 4096"
  have "unat t - unat twepoch < 2 ^ 41" using a(1) by (auto simp: in_range_def)
  with unat_make_id [OF a] a(2,3) show ?thesis by simp
qed

lemma generate_many_good:
  assumes "generate_many n s clock = Some (is, s', clock')" "good_state s" "in_range (sf_timestamp s)" "good_clock (sf_timestamp s) clock"
  shows "sorted_wrt (<) (map unat (make_id (sf_timestamp s) (sf_workerid s) (sf_sequence s) # is)) \<and> (\<forall>i \<in> set is. unat i < 2 ^ 63)"
  using assms
proof (induction n arbitrary: s clock "is")
  case (Suc n)
  from Suc.prems(1) obtain i s1 clock1 js where g: "Generate s clock = Some (i, s1, clock1)"
    and rest: "generate_many n s1 clock1 = Some (js, s', clock')" "is = i # js" by (auto split: option.splits)
  note G = Generate_good [OF g Suc.prems(2,4)]
  then have i: "i = make_id (sf_timestamp s1) (sf_workerid s1) (sf_sequence s1)" by blast
  have fields: "unat (sf_workerid s) < 1024" "unat (sf_sequence s) < 4096" "unat (sf_sequence s1) < 4096" "sf_workerid s1 = sf_workerid s"
    using Suc.prems(2) G by (auto simp: good_state_def)
  have less: "unat (make_id (sf_timestamp s) (sf_workerid s) (sf_sequence s)) < unat i"
    unfolding i fields(4) using G Suc.prems(3) fields by (intro make_id_less) auto
  moreover have "unat i < 2 ^ 63" unfolding i fields(4) using G fields by (intro make_id_small) auto
  moreover from Suc.IH [OF rest(1)] G have "sorted_wrt (<) (map unat (i # js))" "\<forall>j \<in> set js. unat j < 2 ^ 63" by (simp_all add: i)
  ultimately show ?case using rest(2) by auto
qed simp

lemma sint_nonneg_unat: "0 \<le> sint (w :: 64 word) \<Longrightarrow> int (unat w) = sint w"
proof -
  assume "0 \<le> sint w"
  then obtain k where k: "sint w = int k" using nonneg_int_cases by blast
  have "sint w < 2 ^ 63" using sint_lt [of w] by simp
  with k have small: "k < 2 ^ 64" by (simp add: k)
  have "w = of_int (sint w)" by simp
  then have "w = of_nat k" by (simp only: k of_int_of_nat_eq)
  then have "unat w = k" using small by (simp add: unsigned_of_nat take_bit_nat_eq_self)
  then show ?thesis by (simp only: k)
qed

lemma generate_many_length: "generate_many n s clock = Some (is, s', clock') \<Longrightarrow> length is = n"
  by (induction n arbitrary: s clock "is") (auto split: option.splits)

lemma generate_many_increasing:
  assumes run: "generate_many n s clock = Some (is, s', clock')" and good: "good_state s" "good_clock (sf_timestamp s) clock"
  shows "sorted_wrt (<) (map sint is) \<and> (\<forall>i \<in> set is. 0 \<le> sint i) \<and> length is = n"
proof (cases n)
  case 0
  with run show ?thesis by simp
next
  case (Suc k)
  from run Suc obtain i s1 clock1 js where g: "Generate s clock = Some (i, s1, clock1)"
    and rest: "generate_many k s1 clock1 = Some (js, s', clock')" "is = i # js" by (auto split: option.splits)
  note G = Generate_good [OF g good]
  then have i: "i = make_id (sf_timestamp s1) (sf_workerid s1) (sf_sequence s1)" by blast
  have R: "sorted_wrt (<) (map unat is)" "\<forall>j \<in> set js. unat j < 2 ^ 63"
    using generate_many_good [OF rest(1)] G rest(2) by simp_all
  have "unat i < 2 ^ 63" unfolding i using G by (intro make_id_small) (auto simp: good_state_def)
  with R(2) rest(2) have small: "\<forall>j \<in> set is. sint j = int (unat j)" by (auto simp only: sint_small list.set insert_iff)
  have "map sint is = map int (map unat is)" using small by simp
  then have "sorted_wrt (<) (map sint is)" using R(1) by (simp only: sorted_wrt_map of_nat_less_iff)
  moreover have "length is = n" using run by (rule generate_many_length)
  ultimately show ?thesis using small by simp
qed

text \<open>A call returns as long as the clock has a later millisecond to show: the readings after the time of the state.\<close>

definition later :: "64 word \<Rightarrow> 64 word list \<Rightarrow> 64 word set" where
  "later ts clock = {t \<in> set clock. unat ts < unat t}"

lemma later_finite [simp]: "finite (later ts clock)"
  by (simp add: later_def)

lemma wait_clock_returns:
  "later ts clock \<noteq> {} \<Longrightarrow> unat ts < 2 ^ 63 \<Longrightarrow> good_clock ts clock \<Longrightarrow>
     \<exists>now clock'. wait_clock ts clock = Some (now, clock') \<and> later ts clock \<subseteq> insert now (later now clock')"
proof (induction clock)
  case (Cons c clock)
  have c: "in_range c" "good_clock c clock" "good_clock ts clock" using Cons.prems(3) by (auto simp: good_clock_def)
  have le: "sint c \<le> sint ts \<longleftrightarrow> unat c \<le> unat ts"
    unfolding sint_small [OF Cons.prems(2)] sint_small [OF in_range_small [OF c(1)]] by (rule of_nat_le_iff)
  show ?case
  proof (cases "unat c \<le> unat ts")
    case True
    then have "later ts (c # clock) = later ts clock" by (auto simp: later_def)
    with Cons c(3) le True show ?thesis by simp
  next
    case False
    have "\<forall>t \<in> set clock. unat c \<le> unat t" using c(2) by (simp add: good_clock_def)
    then have "later ts (c # clock) \<subseteq> insert c (later c clock)" by (auto simp: later_def word_unat_eq_iff le_less)
    with le False show ?thesis by simp
  qed
qed (simp add: later_def)

lemma Generate_returns:
  assumes "good_state s" "good_clock (sf_timestamp s) clock" "later (sf_timestamp s) clock \<noteq> {}"
  shows "\<exists>i s' clock'. Generate s clock = Some (i, s', clock') \<and> later (sf_timestamp s) clock \<subseteq> insert (sf_timestamp s') (later (sf_timestamp s') clock')"
proof -
  from assms(3) obtain now clock1 where c: "clock = now # clock1" by (cases clock) (auto simp: later_def)
  have now: "good_clock now clock1" "good_clock (sf_timestamp s) clock1" "\<forall>t \<in> set clock1. unat now \<le> unat t"
    using assms(2) by (auto simp: c good_clock_def)
  define q where "q = (sf_sequence s + 1) AND sequenceMask"
  have ts: "unat (sf_timestamp s) < 2 ^ 63" using assms(1) by (simp add: good_state_def)
  have move: "later (sf_timestamp s) clock \<subseteq> insert now (later now clock1)" using now(3) by (auto simp: c later_def word_unat_eq_iff le_less)
  show ?thesis
  proof (cases "sf_timestamp s = now \<and> q = 0")
    case True
    then have "later (sf_timestamp s) clock = later (sf_timestamp s) clock1" by (auto simp: c later_def)
    with wait_clock_returns [OF _ ts now(2)] assms(3) obtain now' clock' where
      "wait_clock (sf_timestamp s) clock1 = Some (now', clock')" "later (sf_timestamp s) clock \<subseteq> insert now' (later now' clock')" by auto
    with True show ?thesis by (simp add: Generate_def c Let_def q_def [symmetric])
  next
    case False
    with move show ?thesis by (auto simp: Generate_def c Let_def q_def [symmetric])
  qed
qed

lemma generate_many_returns:
  "good_state s \<Longrightarrow> good_clock (sf_timestamp s) clock \<Longrightarrow> n \<le> card (later (sf_timestamp s) clock) \<Longrightarrow>
     \<exists>is s' clock'. generate_many n s clock = Some (is, s', clock')"
proof (induction n arbitrary: s clock)
  case (Suc n)
  then have "later (sf_timestamp s) clock \<noteq> {}" by auto
  from Generate_returns [OF Suc.prems(1,2) this] obtain i s1 clock1 where g: "Generate s clock = Some (i, s1, clock1)"
    and sub: "later (sf_timestamp s) clock \<subseteq> insert (sf_timestamp s1) (later (sf_timestamp s1) clock1)" by blast
  have "card (later (sf_timestamp s) clock) \<le> Suc (card (later (sf_timestamp s1) clock1))"
    using card_mono [OF _ sub] card_insert_le_m1 [of "Suc (card (later (sf_timestamp s1) clock1))"] by (simp add: card_insert_if split: if_splits)
  with Suc.prems(3) have "n \<le> card (later (sf_timestamp s1) clock1)" by simp
  with Suc.IH Generate_good [OF g Suc.prems(1,2)] obtain js s' clock' where "generate_many n s1 clock1 = Some (js, s', clock')" by blast
  with g show ?case by simp
qed simp

section \<open>Properties\<close>

text \<open>Property C37: the ids of a generator are distinct. With a worker number that \<open>NewSnowflake\<close> accepts and a clock that does not go
  back, between 2017 and 2086, any number of calls return strictly increasing, non-negative ids; and \<open>n\<close> calls do return when the
  clock shows at least \<open>n\<close> different milliseconds, so that the wait for the next one ends.\<close>

theorem snowflake_increasing:
  assumes new: "NewSnowflake w = Inr s" and clock: "list_all in_range clock" "sorted (map unat clock)"
  shows "(\<forall>is s' clock'. generate_many n s clock = Some (is, s', clock') \<longrightarrow>
      sorted_wrt (<) (map sint is) \<and> (\<forall>i \<in> set is. 0 \<le> sint i) \<and> length is = n) \<and>
    (n \<le> card (set clock) \<longrightarrow> (\<exists>is s' clock'. generate_many n s clock = Some (is, s', clock')))"
proof -
  from new have s: "s = \<lparr>sf_timestamp = 0, sf_workerid = w, sf_sequence = 0\<rparr>" "0 \<le> sint w" "sint w \<le> 1023"
    by (auto simp: NewSnowflake_def workeridMax_eq split: if_splits)
  then have "unat w < 1024" using sint_nonneg_unat [of w] by linarith
  then have good: "good_state s" "good_clock (sf_timestamp s) clock" using clock by (simp_all add: s(1) good_state_def good_clock_def)
  have "later (sf_timestamp s) clock = set clock" using clock(1) by (auto simp: s(1) later_def list_all_iff in_range_def twepoch_def)
  with generate_many_returns [OF good, of n] generate_many_increasing [OF _ good] show ?thesis by metis
qed

text \<open>A clock that goes back one millisecond and returns gives an id twice.\<close>

definition ex_clock_back :: "64 word list" where
  "ex_clock_back = [1600000000001, 1600000000000, 1600000000001]"

lemma clock_back_repeats:
  "case generate_many 3 \<lparr>sf_timestamp = 0, sf_workerid = 1, sf_sequence = 0\<rparr> ex_clock_back of
     Some ([i, j, k], _) \<Rightarrow> i = k | _ \<Rightarrow> False"
  by code_simp

text \<open>\<open>MachineNext\<close> takes a worker number as it comes: 1024 spills into the time, and the id is that of worker 0 a millisecond later.\<close>

lemma machine_spills: "make_id 1600000000000 1024 q = make_id 1600000000001 0 q"
proof -
  have "push_bit timestampShift (1600000000000 - twepoch) OR push_bit workeridShift 1024 =
      push_bit timestampShift (1600000000001 - twepoch) OR push_bit workeridShift 0" by code_simp
  then show ?thesis unfolding make_id_def by (simp only: or.assoc [symmetric])
qed

text \<open>Before \<open>Init\<close> the package generator is nil and \<open>GetId\<close> panics.\<close>

lemma GetId_before_Init: "\<exists>p. GetId uuid_init clock = Some (Panic p, uuid_init, clock)"
  by (simp add: GetId_def generater_GetId_def uuid_init_def)

definition ex_clock :: "64 word list" where
  "ex_clock = [1600000000000, 1600000000000, 1600000000001]"

theorem snowflake_increasing_witness:
  "\<exists>is s' clock'. generate_many 3 \<lparr>sf_timestamp = 0, sf_workerid = 5, sf_sequence = 0\<rparr> ex_clock = Some (is, s', clock') \<and>
     sorted_wrt (<) (map sint is) \<and> length is = 3"
proof -
  have new: "NewSnowflake 5 = Inr \<lparr>sf_timestamp = 0, sf_workerid = 5, sf_sequence = 0\<rparr>" by (simp add: NewSnowflake_def workeridMax_eq)
  have clock: "list_all in_range ex_clock" "sorted (map unat ex_clock)" by (simp_all add: ex_clock_def in_range_def twepoch_def)
  have "\<not> Option.is_none (generate_many 3 \<lparr>sf_timestamp = 0, sf_workerid = 5, sf_sequence = 0\<rparr> ex_clock)" by code_simp
  then obtain "is" s' clock' where run: "generate_many 3 \<lparr>sf_timestamp = 0, sf_workerid = 5, sf_sequence = 0\<rparr> ex_clock = Some (is, s', clock')"
    by (cases "generate_many 3 \<lparr>sf_timestamp = 0, sf_workerid = 5, sf_sequence = 0\<rparr> ex_clock") (auto simp: Option.is_none_def)
  from snowflake_increasing [OF new clock, of 3] run show ?thesis by blast
qed

end
