(* ===== verification/Spec2Isabelle.thy ===== *)
theory Spec2Isabelle
  imports IdempotentExecution IdempotencyGorm Authz RequestScope Saga LocalBroker AssemblyCompile Application Platform Policy Snowflake
begin

text \<open>
  A verification of yunka.io, a Go framework for modular services (\<open>src/\<close>). The framework composes an application from
  modules and capabilities, runs every operation through one executor (security, idempotency, transaction, application function),
  hands events to other services through a transactional outbox, and protects outbound calls with resilience policies. The
  development models those parts as executable functions on explicit states and proves what each promises; the properties
  are the theorems whose text starts with \<open>Property C\<close> and a number.

  \<^bold>\<open>The program and its model.\<close> Each theory models the files named; functions, types and fields keep the names of the source
  (a field carries a short prefix of its record).

  \<^item> \<open>Prelude\<close>: Go strings as byte lists with \<open>strings.TrimSpace\<close> and the byte order, errors as trees that \<open>errors.Is\<close>,
    \<open>errors.Join\<close> and \<open>%w\<close> walk (\<open>goerr\<close>), results as sums, calls that may panic (\<open>outcome\<close>), sorted keys of maps.
  \<^item> \<open>ModuleDescriptor\<close>, \<open>ModuleCatalog\<close>, \<open>Capability\<close>, \<open>ContextFactory\<close> (\<open>framework/core/modulecatalog\<close>):
    normalisation and validation of descriptors, the catalog with registration and sealing, dependency resolution by
    Kahn's algorithm, typed capability keys, exports and resolution, and the factory that hands a module only what it declared.
  \<^item> \<open>OperationPlan\<close> (\<open>pkg/operationplan/plan.go\<close>): normalisation and validation of operation plans, the reference and cycle
    searches; the depth-first search itself is in \<open>CycleSearch\<close>.
  \<^item> \<open>AssemblyPlan\<close>, \<open>AssemblyCompile\<close> (\<open>pkg/assemblyplan\<close>): the compiler from applications, operations and modules to the document
    that bootstrap code is generated from, its normalisation and its validation.
  \<^item> \<open>RuntimeContext\<close>, \<open>ExecScope\<close>, \<open>Idempotency\<close>, \<open>IdempotencyGorm\<close> (\<open>framework/execution\<close>) and \<open>Executor\<close>
    (\<open>framework/operation/executor.go\<close>): the values a context carries, the one unit of work of a root operation and its
    children, claims of idempotency keys in memory and in a database, and \<open>Execute\<close>/\<open>ExecuteChild\<close> with all their phases.
    \<open>IdempotentExecution\<close> composes the executor with the coordinator.
  \<^item> \<open>Authz\<close> (\<open>gateway/authz\<close>): policies, the grant and RBAC authorizers, guards and their chains, and the adapters that make
    them the security phases of the executor.
  \<^item> \<open>RequestScope\<close> (\<open>framework/requestscope\<close>): scopes that own a unit of work, views, composed repositories, \<open>Execute\<close>.
  \<^item> \<open>Envelope\<close>, \<open>Outbox\<close>, \<open>Float64\<close>, \<open>Dispatcher\<close>, \<open>OutboxGorm\<close> (\<open>framework/event\<close>): envelopes and their causality, the
    outbox in memory and in a database, and the dispatcher that claims, publishes and settles records. \<open>Saga\<close>
    (\<open>framework/workflow/saga\<close>) stages plans of remote commands in the outbox.
  \<^item> \<open>Tries\<close> (\<open>pkg/trie\<close>), \<open>EventBus\<close> (\<open>framework/core/eventBus\<close>) and \<open>LocalBroker\<close> (\<open>framework/event/local.go\<close>):
    tries keyed by runes or path segments, the bus that keeps the subscribers of a topic in a doubly linked list of pooled nodes, and
    the broker that delivers envelopes through it. The last section composes it with the dispatcher.
  \<^item> \<open>Snowflake\<close> (\<open>pkg/uuid/snowflake.go\<close>): the generator of 64-bit ids and the package functions around it.
  \<^item> \<open>Lifecycle\<close>, \<open>Application\<close> (\<open>framework/core\<close>) and \<open>Platform\<close> (\<open>framework/platform\<close>): construction of an
    application, its start, health and shutdown, and the provider that owns the shared databases and connections.
  \<^item> \<open>Middleware\<close>, \<open>Breaker\<close>, \<open>RateLimit\<close>, \<open>LoadShed\<close>, \<open>Policy\<close> (\<open>framework/core/middleware\<close>,
    \<open>framework/core/resilience\<close>): the middleware chain, the breaker, the token bucket, the load shedder, timeouts, retries and
    their composition around a remote call.

  \<^bold>\<open>States, errors, concurrency.\<close> A struct is a record, an interface with several implementations a record of functions or
  a locale, a pointer that may be nil an option, a Go map an association list or a map. A method that changes its receiver returns
  the new state; a method that takes a mutex for its whole body is one atomic step, and a method that calls the database several
  times is a list of atomic steps between which the model lets any other step happen (\<open>IdempotencyGorm\<close>, \<open>OutboxGorm\<close>,
  \<open>Platform\<close>, the deliveries of \<open>Dispatcher\<close>). Histories of operations are lists or inductive relations, and the invariants
  hold on everything reachable. Every early return, error and panic of the code is a branch of the model. Error texts keep the
  verbs of the format string instead of the formatted values.

  \<^bold>\<open>What the code calls and does not define\<close> is an argument: sha256, the JSON encoding, clocks, random bytes, the message
  broker, the database behind gorm and its units of work, the hooks, factories, resolvers and guards of an application, the
  handler of a call. What a theorem needs of them is a hypothesis or the law of a locale, which a witness or an interpretation
  instantiates.

  \<^bold>\<open>The interfaces.\<close> The locales state what one component relies on: \<open>idempotency_store\<close> (the coordinator's store, in memory and
  in a database), \<open>outbox_store\<close> (the store under the dispatcher, in memory and in a database), \<open>tx_outbox\<close> (the enqueuing side under
  the saga), \<open>trier\<close> (a trie as a map on keys, for both tries; the bus looks its topics up through it), \<open>bounded_middleware\<close> and \<open>bounded_stack\<close> (a middleware with a bound on its calls, under the policy chain). Each is
  interpreted on the definitions of the components that provide it.

  \<^bold>\<open>What the theorems show.\<close> Operations: a root operation opens one unit of work, commits it exactly when everything
  succeeded and rolls it back otherwise, panics included; nothing of an operation runs before security has accepted it, with the
  authorizers of the gateway in place; an idempotent operation that has succeeded never runs again. Composition: a dependency
  order exists exactly when the graph is complete and acyclic, respects all dependencies and does not depend on the order of
  registration; a sealed catalog never changes; a failed construction or start releases what was built, in reverse order, and a
  platform provider that is new or stopped has closed what its factories opened, provided that they do not panic and that a resource without a
  handle has nothing to close; a module sees only what it declared. The assembly compiler accepts exactly the well-formed inputs, its result is closed, complete and does not
  depend on the order of declaration. Events: a claimed record is delivered under an exclusive lease and ends published, retried or dead,
  each round settles everything it claimed, the database store refines the in-memory one, and a saga is staged
  exactly once; claims that skip locked rows run beside each other as if one after the other. A trie is a map, up to what each of the two does
  with nil; the bus refines a table of subscriber lists, its loops over linked nodes return, its answers are those of the table unless a topic with
  a rune of several bytes is destroyed, and a publication reaches exactly the subscribers of its topic, whose answers decide what becomes of the outbox record. Ids of one
  generator increase while its clock does not go back. Resilience: an open breaker refuses, admitted calls stay under the limit, and the number of remote calls
  of a policy is bounded by its attempts.

  \<^bold>\<open>Fuel and bounds.\<close> Loops recurse on a measure proved to decrease (the nodes not yet visited, the queue of Kahn's algorithm);
  loops that follow pointers (\<open>EventBus\<close>) are partial functions into \<open>option\<close>, and the refinement shows that they return;
  the cycle searches have fuel one above the number of ids, the closure search of \<open>AssemblyPlan\<close> two above, which \<open>search_cycle_correct\<close>
  and \<open>closure_visit_exact\<close> show is enough. A
  claim in the database store makes at most four tries, as the code does. Times are integers of nanoseconds; durations keep the 64-bit
  width where the code can overflow them. A \<open>float64\<close> is the rational number it denotes, rounded to the nearest double after every
  operation (\<open>Float64\<close>); NaN and infinities do not occur in the code modelled.

  \<^bold>\<open>Not modelled.\<close> The command line tools (\<open>app/cmd\<close>) and the generators, which read and write source trees; generated
  protocol buffers; adapters that only call grpc-go, gorm, nacos, redis, gin or OpenTelemetry; schema migrations; signal
  handling and the walk over the route tree in \<open>framework/core\<close>. The manifest lists every part with the reason.
\<close>

section \<open>Idempotent operations run at most once\<close>

text \<open>
  Property C3: once an execution of an idempotent operation under the in-memory coordinator has reported no
  error, whatever other workers claim and mark in the store afterwards, every later execution of the operation
  for the same tenant and key fails without running its application function.
\<close>

theorem Execute_at_most_once:
  assumes first: "Execute (Some ex1) (Some ctx1) plan input1 (Some invoke1) s = (Return (r, None), s1)"
    and store: "snd (rt_world s2) = idem_run memory_Claim memory_Mark ops (snd (rt_world s1))"
    and second: "Execute (Some ex2) (Some ctx2) plan input2 (Some invoke2) s2 = (res, s3)"
    and same: "claim_key ctx1 (normalizeRuntimePlan plan) = claim_key ctx2 (normalizeRuntimePlan plan)"
    and idem: "idempotent_plan (normalizeRuntimePlan plan)"
    and co: "ex_idempotency ex1 = Some (memory_coordinator raw1)" "ex_idempotency ex2 = Some (memory_coordinator raw2)"
    and sec: "security_transparent ex1 (normalizeRuntimePlan plan) input1" "security_transparent ex2 (normalizeRuntimePlan plan) input2"
  shows "\<exists>cs e. effects s3 = effects s2 @ cs \<and> Invoke \<notin> set cs \<and> res = Return (None, Some e)"
proof -
  from Execute_marks_success [OF first refl sec(1) idem co(1)] obtain a where
    "memory_view (snd (rt_world s1)) (claim_key ctx1 (normalizeRuntimePlan plan)) = Some (IdempotencySucceeded, a)" by blast
  then have "memory_view (snd (rt_world s2)) (claim_key ctx2 (normalizeRuntimePlan plan)) = Some (IdempotencySucceeded, a)"
    unfolding store same by (rule mem.run_keeps_success)
  from Execute_refused [OF second sec(2) idem co(2) this] show ?thesis .
qed

definition idem_executor :: "string \<Rightarrow> (nat \<times> MemoryIdempotencyStore option, nat, unit) executor" where
  "idem_executor a = \<lparr>ex_security = None, ex_transactions = None, ex_idempotency = Some (memory_coordinator (Inr a))\<rparr>"

definition idem_op_plan :: OpPlan where
  "idem_op_plan = (ex_op ''op'' [] [] [])\<lparr>op_execution := \<lparr>Transaction = [], Idempotency = ''required''\<rparr>\<rparr>"

definition idem_ctx :: "(nat \<times> MemoryIdempotencyStore option, nat) ctx" where
  "idem_ctx = WithIdempotencyKey None ''k''"

definition idem_invoker :: "(nat \<times> MemoryIdempotencyStore option, nat, unit, nat) Invoker" where
  "idem_invoker ctx w = (Return (Some (fst w), None), (fst w + 1, snd w))"

definition idem_first :: "(nat \<times> MemoryIdempotencyStore option, unit, nat) executed" where
  "idem_first = Execute (Some (idem_executor ''a'')) (Some idem_ctx) idem_op_plan () (Some idem_invoker)
     \<lparr>rt_world = (5, Some NewMemoryIdempotencyStore), rt_log = []\<rparr>"

lemma idem_first_ok: "fst idem_first = Return (Some 5, None)"
  by code_simp

theorem Execute_at_most_once_witness:
  "\<exists>cs e. effects (snd (Execute (Some (idem_executor ''b'')) (Some idem_ctx) idem_op_plan () (Some idem_invoker) (snd idem_first))) =
     effects (snd idem_first) @ cs \<and> Invoke \<notin> set cs"
proof -
  let ?second = "Execute (Some (idem_executor ''b'')) (Some idem_ctx) idem_op_plan () (Some idem_invoker) (snd idem_first)"
  have first: "Execute (Some (idem_executor ''a'')) (Some idem_ctx) idem_op_plan () (Some idem_invoker)
      \<lparr>rt_world = (5, Some NewMemoryIdempotencyStore), rt_log = []\<rparr> = (Return (Some 5, None), snd idem_first)"
    using idem_first_ok by (simp add: idem_first_def prod_eq_iff)
  have "snd (rt_world (snd idem_first)) = idem_run memory_Claim memory_Mark [] (snd (rt_world (snd idem_first)))" by simp
  from Execute_at_most_once [OF first this, of "idem_executor ''b''" idem_ctx "()" idem_invoker "fst ?second" "snd ?second"]
  show ?thesis
    by (simp add: idempotent_plan_def normalizeRuntimePlan_def idem_op_plan_def or_default_def idem_executor_def
        security_transparent_def trim_space_plain plain_char_def) blast
qed

section \<open>An outbox record reaches the subscribers of its topic\<close>

text \<open>The local broker as the broker of a dispatcher.\<close>

definition local_publisher ::
  "('h, 'u, 'x) LocalBroker \<Rightarrow> ('h, 'u, 'x) event_run \<Rightarrow> string result \<Rightarrow> int \<Rightarrow> 'u event_ctx \<Rightarrow> ('h, 'u, 'x) broker_world publisher" where
  "local_publisher b run raw now ctx e s = the (local_Publish (Some b) run raw now (Some ctx) e s)"

text \<open>
  Property C24: with the local broker behind the dispatcher, what becomes of an outbox record is decided by the subscribers of its
  topic. Each of them runs once on the envelope of the record; the store is asked to mark the record published exactly when
  all of them returned nil. Otherwise, also when one panicked, it is asked to retry the record while attempts are left and to
  dead-letter it else, with an error that carries the errors of all of them.
\<close>

theorem outbox_reaches_subscribers:
  assumes "dw_broker w = (bus, x)" "bus_run ops (NewTrieEventBus :: ('h, 'u bus_param) trieEventBus) = Some (rs, bus)" "\<not> tb_closed bus"
    "\<not> bs_closed x" "ec_err ctx = None" "Attempts r \<le> MaxAttempts c"
    "PrepareForPublish raw now (ec_causality ctx) (map_option (\<lambda>p. pr_Inject p ctx) (lb_propagator b)) (delivered r) = Inr e"
    "deliver_all b run (handler_context b ctx e) e (subscribers ops (Topic e)) (bus, x) = (errs, s')"
    "process c store (local_publisher b run raw now ctx) env r w = (res, w')"
  shows "dw_broker w' = s' \<and> length errs = length (subscribers ops (Topic e)) \<and>
    (if \<forall>err \<in> set errs. err = None
     then (res, dw_store w') = st_MarkPublished store (pe_err env) (ob_ID r) (WorkerID c) (pe_now env) (dw_store w)
     else \<exists>cause. (\<forall>err. Some err \<in> set errs \<longrightarrow> err_is cause err) \<and>
       dw_store w' = snd (if MaxAttempts c \<le> Attempts r
         then st_DeadLetter store (pe_err env) (ob_ID r) (WorkerID c) cause (dw_store w)
         else st_Retry store (pe_err env) (ob_ID r) (WorkerID c) (pe_now env + backoff c (pe_sample env) (Attempts r)) cause (dw_store w)))"
proof -
  have "local_publisher b run raw now ctx (delivered r) (bus, x) = (Return (err_join errs), s')"
    using local_Publish_delivers [OF assms(2-5,7,8)] by (simp add: local_publisher_def)
  then have pub: "process_publish c (local_publisher b run raw now ctx) r w =
      (Some (err_join errs), dw_observe (Attempted (delivered r) (err_join errs)) (w\<lparr>dw_broker := s'\<rparr>))"
    using assms(1,6) by (simp add: process_publish_def safePublish_def)
  show ?thesis
  proof (cases "err_join errs")
    case None
    then have ok: "\<forall>err \<in> set errs. err = None" by (simp add: err_join_None_iff)
    with assms(9) pub None deliver_all_length [OF assms(8)] show ?thesis
      by (auto simp: process_def process_settle_def settle_with_def dw_observe_def split: prod.splits option.splits)
  next
    case (Some cause)
    then have "\<not> (\<forall>err \<in> set errs. err = None)" by (metis err_join_None_iff option.distinct(1))
    moreover have "\<forall>err. Some err \<in> set errs \<longrightarrow> err_is cause err" using err_join_is [of errs] Some by blast
    moreover from assms(9) pub Some have "dw_broker w' = s'" "dw_store w' = snd (if MaxAttempts c \<le> Attempts r
         then st_DeadLetter store (pe_err env) (ob_ID r) (WorkerID c) cause (dw_store w)
         else st_Retry store (pe_err env) (ob_ID r) (WorkerID c) (pe_now env + backoff c (pe_sample env) (Attempts r)) cause (dw_store w))"
      by (auto simp: process_def process_settle_def settle_with_def dw_observe_def Let_def split: prod.splits option.splits if_splits)
    ultimately show ?thesis using deliver_all_length [OF assms(8)] by auto
  qed
qed

definition ex_delivery :: "(bool, unit bus_param) trieEventBus \<Rightarrow> goerr option \<times> (MemoryOutbox, (bool, unit, nat) broker_world) dispatch_world" where
  "ex_delivery bus = process (ex_config ''w'') (outbox_memory_store (\<lambda>e. []) 0)
     (local_publisher ex_local ex_handle (Inr []) 5 event_background) (ex_env 0) (new_record 7 ex_event)
     \<lparr>dw_store = ex_store, dw_broker = (bus, \<lparr>bs_closed = False, bs_subs = [], bs_ext = 3\<rparr>), dw_log = []\<rparr>"

theorem outbox_reaches_subscribers_witness:
  "\<exists>rs bus. bus_run ex_subscriptions NewTrieEventBus = Some (rs, bus) \<and>
     dw_broker (snd (ex_delivery bus)) =
       snd (deliver_all ex_local ex_handle (handler_context ex_local event_background ex_event) ex_event (subscribers ex_subscriptions ''t'')
              (bus, \<lparr>bs_closed = False, bs_subs = [], bs_ext = 3\<rparr>))"
proof -
  let ?x = "\<lparr>bs_closed = False, bs_subs = [], bs_ext = 3\<rparr> :: nat broker_state"
  obtain rs and bus :: "(bool, unit bus_param) trieEventBus" where bus: "bus_run ex_subscriptions NewTrieEventBus = Some (rs, bus)" "\<not> tb_closed bus"
    using ex_subscriptions_bus by blast
  have dlv: "delivered (new_record 7 ex_event) = ex_event" by (simp add: delivered_def new_record_def ex_event_def)
  have prep: "PrepareForPublish (Inr []) 5 (ec_causality (event_background :: unit event_ctx))
      (map_option (\<lambda>p. pr_Inject p event_background) (lb_propagator ex_local)) (delivered (new_record 7 ex_event)) = Inr ex_event"
    unfolding dlv by (simp add: ex_local_def event_background_def ex_event_prepared)
  have pre: "\<not> bs_closed ?x" "ec_err (event_background :: unit event_ctx) = None" "Attempts (new_record 7 ex_event) \<le> MaxAttempts (ex_config ''w'')"
    by (simp_all add: event_background_def new_record_def ex_config_def)
  obtain res w' where run: "ex_delivery bus = (res, w')" by (rule prod.exhaust)
  obtain errs s' where del: "deliver_all ex_local ex_handle (handler_context ex_local event_background ex_event) ex_event
      (subscribers ex_subscriptions (Topic ex_event)) (bus, ?x) = (errs, s')" by (rule prod.exhaust)
  have "Topic ex_event = ''t''" by (simp add: ex_event_def)
  with outbox_reaches_subscribers [OF _ bus pre prep del run [unfolded ex_delivery_def], THEN conjunct1] run del bus(1) show ?thesis by auto
qed

end
